(* ===== verification/Prelude.thy ===== *)
theory Prelude
  imports Main "HOL-Library.Word"
begin

text \<open>
  Shared material of the development: the machine-integer and byte types, the value of a
  fallible Rust computation (\<open>Ok\<close>, \<open>Err\<close> or a panic) with the \<open>?\<close> operator, state passing for
  methods that take \<open>&mut self\<close>, checked \<open>usize\<close> arithmetic, little-endian byte codecs and the
  range reads and writes on byte buffers that the storage theories use.

  A \<open>usize\<close> is a \<open>nat\<close> (the targets are 64-bit, so the checked operations test against
  \<open>2 ^ 64\<close>); \<open>u8\<close>, \<open>u16\<close>, \<open>u32\<close> and \<open>u64\<close> are words.
\<close>

section \<open>Automation collections\<close>

named_theorems outcome_simps \<open>evaluation of fallible and stateful computations\<close>
named_theorems byte_simps \<open>byte codecs and byte ranges\<close>

section \<open>Types\<close>

type_synonym byte = "8 word"
type_synonym bytes = "byte list"
type_synonym u16 = "16 word"
type_synonym u32 = "32 word"
type_synonym u64 = "64 word"
type_synonym usize = nat

section \<open>Fallible computations\<close>

text \<open>
  \<open>Panicked\<close> is a Rust panic. \<open>Diverged\<close> is a loop that has not ended when the fuel of its model
  is used up; the theorems on a loop say when that cannot happen.
\<close>

datatype ('e, 'a) outcome = Ok 'a | Err 'e | Panicked | Diverged

fun and_then :: "('e, 'a) outcome \<Rightarrow> ('a \<Rightarrow> ('e, 'b) outcome) \<Rightarrow> ('e, 'b) outcome" where
  "and_then (Ok x) k = k x"
| "and_then (Err e) k = Err e"
| "and_then Panicked k = Panicked"
| "and_then Diverged k = Diverged"

fun map_outcome :: "('a \<Rightarrow> 'b) \<Rightarrow> ('e, 'a) outcome \<Rightarrow> ('e, 'b) outcome" where
  "map_outcome f (Ok x) = Ok (f x)"
| "map_outcome f (Err e) = Err e"
| "map_outcome f Panicked = Panicked"
| "map_outcome f Diverged = Diverged"

definition ok_or :: "'a option \<Rightarrow> 'e \<Rightarrow> ('e, 'a) outcome" where
  "ok_or x e = (case x of Some y \<Rightarrow> Ok y | None \<Rightarrow> Err e)"

lemma ok_or_simps [simp, outcome_simps]: "ok_or (Some y) e = Ok y" "ok_or None e = Err e"
  by (simp_all add: ok_or_def)

lemma and_then_eq_Ok [simp]: "and_then m k = Ok y \<longleftrightarrow> (\<exists>x. m = Ok x \<and> k x = Ok y)"
  by (cases m) auto

lemma and_then_eq_Panicked [simp]:
  "and_then m k = Panicked \<longleftrightarrow> m = Panicked \<or> (\<exists>x. m = Ok x \<and> k x = Panicked)"
  by (cases m) auto

lemma and_then_eq_Diverged [simp]:
  "and_then m k = Diverged \<longleftrightarrow> m = Diverged \<or> (\<exists>x. m = Ok x \<and> k x = Diverged)"
  by (cases m) auto

lemma and_then_cong [fundef_cong]:
  "m = m' \<Longrightarrow> (\<And>x. m' = Ok x \<Longrightarrow> k x = k' x) \<Longrightarrow> and_then m k = and_then m' k'"
  by (cases m') auto

lemma map_outcome_eq_Ok [simp]: "map_outcome f m = Ok y \<longleftrightarrow> (\<exists>x. m = Ok x \<and> y = f x)"
  by (cases m) auto

lemma map_outcome_eq_Panicked [simp]: "map_outcome f m = Panicked \<longleftrightarrow> m = Panicked"
  by (cases m) auto

lemma map_outcome_eq_Diverged [simp]: "map_outcome f m = Diverged \<longleftrightarrow> m = Diverged"
  by (cases m) auto

lemma ok_or_not_Diverged [simp]: "ok_or x e \<noteq> Diverged"
  by (cases x) auto

lemma ok_or_eq_Ok [simp]: "ok_or x e = Ok y \<longleftrightarrow> x = Some y"
  by (cases x) auto

lemma ok_or_not_Panicked [simp]: "ok_or x e \<noteq> Panicked"
  by (cases x) auto

section \<open>State passing\<close>

text \<open>
  A method on \<open>&mut self\<close> returns its result and the state it leaves, also when it fails: Rust
  keeps the mutations made before an early return.
\<close>

type_synonym ('s, 'e, 'a) action = "'s \<Rightarrow> ('e, 'a) outcome \<times> 's"

definition return :: "'a \<Rightarrow> ('s, 'e, 'a) action" where
  "return x s = (Ok x, s)"

definition fail :: "'e \<Rightarrow> ('s, 'e, 'a) action" where
  "fail e s = (Err e, s)"

definition panic :: "('s, 'e, 'a) action" where
  "panic s = (Panicked, s)"

definition diverge :: "('s, 'e, 'a) action" where
  "diverge s = (Diverged, s)"

definition lift :: "('e, 'a) outcome \<Rightarrow> ('s, 'e, 'a) action" where
  "lift r s = (r, s)"

definition gets :: "('s \<Rightarrow> 'a) \<Rightarrow> ('s, 'e, 'a) action" where
  "gets f s = (Ok (f s), s)"

definition reads :: "('s \<Rightarrow> ('e, 'a) outcome) \<Rightarrow> ('s, 'e, 'a) action" where
  "reads f s = (f s, s)"

definition modify :: "('s \<Rightarrow> 's) \<Rightarrow> ('s, 'e, unit) action" where
  "modify f s = (Ok (), f s)"

definition bind :: "('s, 'e, 'a) action \<Rightarrow> ('a \<Rightarrow> ('s, 'e, 'b) action) \<Rightarrow> ('s, 'e, 'b) action" where
  "bind m k s = (case m s of
      (Ok x, s') \<Rightarrow> k x s'
    | (Err e, s') \<Rightarrow> (Err e, s')
    | (Panicked, s') \<Rightarrow> (Panicked, s')
    | (Diverged, s') \<Rightarrow> (Diverged, s'))"

definition seq :: "('s, 'e, unit) action \<Rightarrow> ('s, 'e, 'b) action \<Rightarrow> ('s, 'e, 'b) action" where
  "seq m k = bind m (\<lambda>_. k)"

text \<open>A method of a field, run on the object that holds the field.\<close>

definition zoom :: "('s \<Rightarrow> 't) \<Rightarrow> ('t \<Rightarrow> 's \<Rightarrow> 's) \<Rightarrow> ('t, 'e, 'a) action \<Rightarrow> ('s, 'e, 'a) action" where
  "zoom get put m s = (case m (get s) of (x, t) \<Rightarrow> (x, put t s))"

text \<open>\<open>match r { Ok(x) => k(x), Err(e) => h(e) }\<close>.\<close>

definition match_result ::
  "('e, 'a) outcome \<Rightarrow> ('a \<Rightarrow> ('s, 'e, 'b) action) \<Rightarrow> ('e \<Rightarrow> ('s, 'e, 'b) action) \<Rightarrow> ('s, 'e, 'b) action" where
  "match_result r k h s =
     (case r of Ok x \<Rightarrow> k x s | Err e \<Rightarrow> h e s | Panicked \<Rightarrow> (Panicked, s) | Diverged \<Rightarrow> (Diverged, s))"

text \<open>A \<open>for\<close> loop over a list with a body that may fail.\<close>

fun for_each :: "'x list \<Rightarrow> ('x \<Rightarrow> ('s, 'e, unit) action) \<Rightarrow> ('s, 'e, unit) action" where
  "for_each [] body = return ()"
| "for_each (x # xs) body = seq (body x) (for_each xs body)"

lemma action_simps [simp, outcome_simps]:
  "return x s = (Ok x, s)"
  "fail e s = (Err e, s)"
  "panic s = (Panicked, s)"
  "diverge s = (Diverged, s)"
  "lift r s = (r, s)"
  "gets f s = (Ok (f s), s)"
  "reads g s = (g s, s)"
  "modify h s = (Ok (), h s)"
  by (simp_all add: return_def fail_def panic_def diverge_def lift_def gets_def reads_def modify_def)

lemma bind_run [simp, outcome_simps]:
  "bind m k s = (case m s of
      (Ok x, s') \<Rightarrow> k x s'
    | (Err e, s') \<Rightarrow> (Err e, s')
    | (Panicked, s') \<Rightarrow> (Panicked, s')
    | (Diverged, s') \<Rightarrow> (Diverged, s'))"
  by (simp add: bind_def)

lemma seq_run [simp, outcome_simps]:
  "seq m k' s = (case m s of
      (Ok x, s') \<Rightarrow> k' s'
    | (Err e, s') \<Rightarrow> (Err e, s')
    | (Panicked, s') \<Rightarrow> (Panicked, s')
    | (Diverged, s') \<Rightarrow> (Diverged, s'))"
  by (simp add: seq_def)

lemma zoom_run [simp, outcome_simps]: "zoom get put m s = (case m (get s) of (x, t) \<Rightarrow> (x, put t s))"
  by (simp add: zoom_def)

lemma match_result_run [simp, outcome_simps]:
  "match_result (Ok x) k h s = k x s"
  "match_result (Err e) k h s = h e s"
  "match_result Panicked k h s = (Panicked, s)"
  "match_result Diverged k h s = (Diverged, s)"
  by (simp_all add: match_result_def)

lemma match_result_cong [fundef_cong]:
  "r = r' \<Longrightarrow> s = s' \<Longrightarrow> (\<And>x. r' = Ok x \<Longrightarrow> k x s' = k' x s') \<Longrightarrow> (\<And>e. r' = Err e \<Longrightarrow> h e s' = h' e s') \<Longrightarrow>
   match_result r k h s = match_result r' k' h' s'"
  by (cases r') auto

lemma bind_eq_Ok:
  "bind m k s = (Ok y, t) \<longleftrightarrow> (\<exists>x s'. m s = (Ok x, s') \<and> k x s' = (Ok y, t))"
  by (auto simp: bind_def split: prod.splits outcome.splits)

lemma seq_eq_Ok:
  "seq m k s = (Ok y, t) \<longleftrightarrow> (\<exists>x s'. m s = (Ok x, s') \<and> k s' = (Ok y, t))"
  by (auto split: prod.splits outcome.splits)

lemma bind_cong [fundef_cong]:
  "m s = m' s' \<Longrightarrow> (\<And>x t. m' s' = (Ok x, t) \<Longrightarrow> k x t = k' x t) \<Longrightarrow> bind m k s = bind m' k' s'"
  by (auto simp: bind_def split: prod.splits outcome.splits)

lemma seq_cong [fundef_cong]:
  "m s = m' s' \<Longrightarrow> (\<And>x t. m' s' = (Ok x, t) \<Longrightarrow> k t = k' t) \<Longrightarrow> seq m k s = seq m' k' s'"
  by (auto simp: seq_def bind_def split: prod.splits outcome.splits)

lemma for_each_append:
  "for_each (xs @ ys) body s = seq (for_each xs body) (for_each ys body) s"
  by (induction xs arbitrary: s) (auto simp: seq_def bind_def split: prod.splits outcome.splits)

text \<open>
  A predicate that every body step keeps is kept by the loop, whether it ends normally, with an
  error or with a panic.
\<close>

lemma for_each_invariant:
  assumes "\<And>x s. x \<in> set xs \<Longrightarrow> P s \<Longrightarrow> P (snd (body x s))" and "P s"
  shows "P (snd (for_each xs body s))"
  using assms
proof (induction xs arbitrary: s)
  case Nil
  then show ?case by simp
next
  case (Cons x xs)
  obtain r t where step: "body x s = (r, t)" by (cases "body x s")
  have "P t" using Cons.prems(1) [of x s] Cons.prems(2) step by simp
  then have rest: "P (snd (for_each xs body t))" by (rule Cons.IH [rotated]) (simp add: Cons.prems(1))
  show ?case
    by (cases r) (simp_all add: step \<open>P t\<close> rest)
qed

section \<open>Checked \<open>usize\<close> arithmetic\<close>

definition usize_max :: nat where
  "usize_max = 18446744073709551615"

definition isize_max :: nat where
  "isize_max = 9223372036854775807"

definition checked_add :: "nat \<Rightarrow> nat \<Rightarrow> nat option" where
  "checked_add a b = (if a + b \<le> usize_max then Some (a + b) else None)"

definition checked_mul :: "nat \<Rightarrow> nat \<Rightarrow> nat option" where
  "checked_mul a b = (if a * b \<le> usize_max then Some (a * b) else None)"

definition checked_sub :: "nat \<Rightarrow> nat \<Rightarrow> nat option" where
  "checked_sub a b = (if b \<le> a then Some (a - b) else None)"

lemma checked_eq_Some [simp]:
  "checked_add a b = Some c \<longleftrightarrow> a + b \<le> usize_max \<and> c = a + b"
  "checked_mul a b = Some c \<longleftrightarrow> a * b \<le> usize_max \<and> c = a * b"
  "checked_sub a b = Some c \<longleftrightarrow> b \<le> a \<and> c = a - b"
  by (auto simp: checked_add_def checked_mul_def checked_sub_def)

lemma checked_in_range [simp]:
  "a + b \<le> usize_max \<Longrightarrow> checked_add a b = Some (a + b)"
  "a * b \<le> usize_max \<Longrightarrow> checked_mul a b = Some (a * b)"
  "b \<le> a \<Longrightarrow> checked_sub a b = Some (a - b)"
  by (auto simp: checked_add_def checked_mul_def checked_sub_def)

section \<open>Byte ranges\<close>

definition bytes_at :: "nat \<Rightarrow> nat \<Rightarrow> 'a list \<Rightarrow> 'a list" where
  "bytes_at off n xs = take n (drop off xs)"

definition put_at :: "nat \<Rightarrow> 'a list \<Rightarrow> 'a list \<Rightarrow> 'a list" where
  "put_at off new xs = take off xs @ new @ drop (off + length new) xs"

text \<open>Rust's \<open>&xs[a..b]\<close>: a panic when the range is not inside the slice.\<close>

definition index_range :: "'a list \<Rightarrow> nat \<Rightarrow> nat \<Rightarrow> ('e, 'a list) outcome" where
  "index_range xs a b = (if a \<le> b \<and> b \<le> length xs then Ok (bytes_at a (b - a) xs) else Panicked)"

lemma index_range_not_Diverged [simp]: "index_range xs a b \<noteq> Diverged"
  by (simp add: index_range_def)

lemma length_bytes_at [simp]: "length (bytes_at off n xs) = min n (length xs - off)"
  by (simp add: bytes_at_def)

lemma length_put_at [simp]:
  "off + length new \<le> length xs \<Longrightarrow> length (put_at off new xs) = length xs"
  by (simp add: put_at_def)

lemma nth_bytes_at [simp]: "i < n \<Longrightarrow> off + i < length xs \<Longrightarrow> bytes_at off n xs ! i = xs ! (off + i)"
  by (simp add: bytes_at_def)

lemma nth_put_at:
  "off + length new \<le> length xs \<Longrightarrow> i < length xs \<Longrightarrow>
   put_at off new xs ! i = (if off \<le> i \<and> i < off + length new then new ! (i - off) else xs ! i)"
  by (auto simp: put_at_def nth_append min_def)

lemma bytes_at_put_at_same [simp, byte_simps]:
  "off + length new \<le> length xs \<Longrightarrow> n = length new \<Longrightarrow> bytes_at off n (put_at off new xs) = new"
  by (simp add: bytes_at_def put_at_def)

lemma bytes_at_put_at_inside [byte_simps]:
  "o' + length new \<le> length xs \<Longrightarrow> o' \<le> off \<Longrightarrow> off + n \<le> o' + length new \<Longrightarrow>
   bytes_at off n (put_at o' new xs) = bytes_at (off - o') n new"
  by (rule nth_equalityI) (auto simp: nth_put_at)

lemma bytes_at_put_at_disjoint [byte_simps]:
  "o' + length new \<le> length xs \<Longrightarrow> off + n \<le> o' \<or> o' + length new \<le> off \<Longrightarrow>
   bytes_at off n (put_at o' new xs) = bytes_at off n xs"
  by (rule nth_equalityI) (auto simp: nth_put_at)

lemma bytes_at_none [simp]: "bytes_at off 0 xs = []"
  by (simp add: bytes_at_def)

lemma bytes_at_0 [simp]: "bytes_at 0 n xs = take n xs"
  by (simp add: bytes_at_def)

lemma bytes_at_append_left [byte_simps]:
  "off + n \<le> length xs \<Longrightarrow> bytes_at off n (xs @ ys) = bytes_at off n xs"
  by (simp add: bytes_at_def)

lemma bytes_at_append_right [byte_simps]:
  "length xs \<le> off \<Longrightarrow> bytes_at off n (xs @ ys) = bytes_at (off - length xs) n ys"
  by (simp add: bytes_at_def)

lemma bytes_at_bytes_at:
  "a + n \<le> m \<Longrightarrow> bytes_at a n (bytes_at off m xs) = bytes_at (off + a) n xs"
  by (simp add: bytes_at_def drop_take min_def add.commute)

lemma bytes_at_split:
  "bytes_at off (m + n) xs = bytes_at off m xs @ bytes_at (off + m) n xs"
  by (simp add: bytes_at_def take_add add.commute)

section \<open>Little-endian codecs\<close>

text \<open>
  \<open>to_le_bytes\<close> and \<open>from_le_bytes\<close> of \<open>u16\<close>, \<open>u32\<close> and \<open>u64\<close>, through the number they encode.
\<close>

fun le_of_nat :: "nat \<Rightarrow> nat \<Rightarrow> bytes" where
  "le_of_nat 0 x = []"
| "le_of_nat (Suc n) x = word_of_nat x # le_of_nat n (x div 256)"

fun nat_of_le :: "bytes \<Rightarrow> nat" where
  "nat_of_le [] = 0"
| "nat_of_le (b # bs) = unat b + 256 * nat_of_le bs"

lemma length_le_of_nat [simp]: "length (le_of_nat n x) = n"
  by (induction n arbitrary: x) auto

lemma nat_of_le_of_nat: "nat_of_le (le_of_nat n x) = x mod 256 ^ n"
proof (induction n arbitrary: x)
  case 0
  then show ?case by simp
next
  case (Suc n)
  have "nat_of_le (le_of_nat (Suc n) x) = x mod 256 + 256 * (x div 256 mod 256 ^ n)"
    by (simp add: Suc unat_of_nat)
  also have "\<dots> = x mod 256 ^ Suc n"
    by (simp add: mod_mult2_eq)
  finally show ?case .
qed

lemma nat_of_le_bound: "nat_of_le bs < 256 ^ length bs"
proof (induction bs)
  case Nil
  then show ?case by simp
next
  case (Cons b bs)
  have "unat b < 256" using unsigned_less [of b] by simp
  with Cons show ?case by simp
qed

lemma le_of_nat_of_le: "n = length bs \<Longrightarrow> le_of_nat n (nat_of_le bs) = bs"
proof (induction bs arbitrary: n)
  case Nil
  then show ?case by simp
next
  case (Cons b bs)
  have b: "unat b < 256" using unsigned_less [of b] by simp
  have "(word_of_nat 256 :: byte) = 0" by simp
  then have hd: "(word_of_nat (unat b + 256 * nat_of_le bs) :: byte) = b"
    by (simp only: of_nat_add of_nat_mult mult_zero_left add_0_right of_nat_unat ucast_id)
  from Cons b show ?case by (simp del: of_nat_add of_nat_mult add: hd)
qed

definition to_le16 :: "u16 \<Rightarrow> bytes" where "to_le16 w = le_of_nat 2 (unat w)"
definition to_le32 :: "u32 \<Rightarrow> bytes" where "to_le32 w = le_of_nat 4 (unat w)"
definition to_le64 :: "u64 \<Rightarrow> bytes" where "to_le64 w = le_of_nat 8 (unat w)"

definition from_le16 :: "bytes \<Rightarrow> u16" where "from_le16 bs = word_of_nat (nat_of_le bs)"
definition from_le32 :: "bytes \<Rightarrow> u32" where "from_le32 bs = word_of_nat (nat_of_le bs)"
definition from_le64 :: "bytes \<Rightarrow> u64" where "from_le64 bs = word_of_nat (nat_of_le bs)"

lemma length_to_le [simp, byte_simps]:
  "length (to_le16 a) = 2" "length (to_le32 b) = 4" "length (to_le64 c) = 8"
  by (simp_all add: to_le16_def to_le32_def to_le64_def)

lemma from_to_le [simp, byte_simps]:
  "from_le16 (to_le16 a) = a" "from_le32 (to_le32 b) = b" "from_le64 (to_le64 c) = c"
proof -
  have "unat a < 65536" "unat b < 4294967296" "unat c < 18446744073709551616"
    using unsigned_less [of a, where ?'a = nat] unsigned_less [of b, where ?'a = nat] unsigned_less [of c, where ?'a = nat] by simp_all
  then show "from_le16 (to_le16 a) = a" "from_le32 (to_le32 b) = b" "from_le64 (to_le64 c) = c"
    by (simp_all add: to_le16_def to_le32_def to_le64_def from_le16_def from_le32_def from_le64_def
        nat_of_le_of_nat)
qed

lemma to_from_le [simp, byte_simps]:
  "length x = 2 \<Longrightarrow> to_le16 (from_le16 x) = x"
  "length x = 4 \<Longrightarrow> to_le32 (from_le32 x) = x"
  "length x = 8 \<Longrightarrow> to_le64 (from_le64 x) = x"
  using nat_of_le_bound [of x]
  by (simp_all add: to_le16_def to_le32_def to_le64_def from_le16_def from_le32_def from_le64_def
      unat_of_nat le_of_nat_of_le)

end
