(* ===== verification/Errors.thy ===== *)
theory Errors
  imports Prelude
begin

text \<open>
  The error types of \<open>crates/dsline-core/src/error.rs\<close>: one enum per layer, the enum that
  joins them, and the \<open>Display\<close> texts. A \<open>&'static str\<close> payload is a \<open>string\<close>.
\<close>

section \<open>Error values\<close>

datatype channel_error =
    Closed
  | BufferFull
  | BufferEmpty
  | MessageTooLarge usize usize
  | CorruptedMessage
  | SequenceMismatch u64 u64
  | InvalidConfig string
  | StorageIo string

datatype protocol_error =
    FrameTooShort usize usize
  | InvalidMagic u32
  | UnsupportedVersion u16
  | InvalidFrameKind u16
  | InvalidHeaderLength usize usize
  | InvalidPayloadLength u64 usize
  | InvalidMetadataLength usize usize
  | HeaderLengthOverflow

datatype transport_error =
    EmptyUrl
  | MissingScheme
  | UnsupportedScheme string
  | MissingTarget string
  | InvalidPort string
  | InvalidQuery string

datatype dsline_error =
    Channel channel_error
  | Transport transport_error
  | Protocol protocol_error

type_synonym 'a result = "(dsline_error, 'a) outcome"

abbreviation ChanErr :: "channel_error \<Rightarrow> 'a result" where
  "ChanErr e \<equiv> Err (Channel e)"

abbreviation ProtErr :: "protocol_error \<Rightarrow> 'a result" where
  "ProtErr e \<equiv> Err (Protocol e)"

abbreviation TransErr :: "transport_error \<Rightarrow> 'a result" where
  "TransErr e \<equiv> Err (Transport e)"

section \<open>Display\<close>

text \<open>Rust's \<open>{}\<close> on an unsigned integer and \<open>{:08x}\<close>.\<close>

definition digit_char :: "nat \<Rightarrow> char" where
  "digit_char d = (if d < 10 then char_of (48 + d) else char_of (87 + d))"

function show_nat :: "nat \<Rightarrow> string" where
  "show_nat n = (if n < 10 then [digit_char n] else show_nat (n div 10) @ [digit_char (n mod 10)])"
  by pat_completeness auto
termination
  by (relation "measure id") auto

declare show_nat.simps [simp del]

definition show_hex8 :: "u32 \<Rightarrow> string" where
  "show_hex8 w = map (\<lambda>i. digit_char (unat w div 16 ^ (7 - i) mod 16)) [0..<8]"

fun display_channel_error :: "channel_error \<Rightarrow> string" where
  "display_channel_error Closed = ''channel is closed''"
| "display_channel_error BufferFull = ''channel buffer is full''"
| "display_channel_error BufferEmpty = ''channel buffer is empty''"
| "display_channel_error (MessageTooLarge n slot) =
     ''message length '' @ show_nat n @ '' exceeds slot size '' @ show_nat slot"
| "display_channel_error CorruptedMessage = ''message checksum validation failed''"
| "display_channel_error (SequenceMismatch expected actual) =
     ''message sequence mismatch: expected '' @ show_nat (unat expected) @ '', got ''
       @ show_nat (unat actual)"
| "display_channel_error (InvalidConfig msg) = ''invalid channel config: '' @ msg"
| "display_channel_error (StorageIo msg) = ''storage I/O error: '' @ msg"

fun display_protocol_error :: "protocol_error \<Rightarrow> string" where
  "display_protocol_error (FrameTooShort n minimum) =
     ''frame length '' @ show_nat n @ '' is shorter than minimum '' @ show_nat minimum"
| "display_protocol_error (InvalidMagic magic) = ''invalid frame magic 0x'' @ show_hex8 magic"
| "display_protocol_error (UnsupportedVersion version) =
     ''unsupported frame protocol version '' @ show_nat (unat version)"
| "display_protocol_error (InvalidFrameKind kind) = ''invalid frame kind '' @ show_nat (unat kind)"
| "display_protocol_error (InvalidHeaderLength n minimum) =
     ''invalid frame header length '' @ show_nat n @ ''; minimum is '' @ show_nat minimum"
| "display_protocol_error (InvalidPayloadLength declared available) =
     ''invalid frame payload length '' @ show_nat (unat declared) @ ''; only ''
       @ show_nat available @ '' bytes available''"
| "display_protocol_error (InvalidMetadataLength offset declared) =
     ''invalid metadata length '' @ show_nat declared @ '' at frame header offset ''
       @ show_nat offset"
| "display_protocol_error HeaderLengthOverflow = ''frame header length overflow''"

fun display_transport_error :: "transport_error \<Rightarrow> string" where
  "display_transport_error EmptyUrl = ''transport URL is empty''"
| "display_transport_error MissingScheme = ''transport URL is missing a scheme''"
| "display_transport_error (UnsupportedScheme scheme) = ''unsupported transport scheme: '' @ scheme"
| "display_transport_error (MissingTarget kind) = ''transport URL is missing '' @ kind"
| "display_transport_error (InvalidPort port) = ''invalid transport port: '' @ port"
| "display_transport_error (InvalidQuery query) = ''invalid transport query: '' @ query"

fun display_dsline_error :: "dsline_error \<Rightarrow> string" where
  "display_dsline_error (Channel err) = display_channel_error err"
| "display_dsline_error (Transport err) = display_transport_error err"
| "display_dsline_error (Protocol err) = display_protocol_error err"

end
