(* ===== verification/Slot_Storage.thy ===== *)
theory Slot_Storage
  imports Errors
begin

text \<open>
  The trait \<open>FixedSlotStorage\<close> of \<open>crates/dsline-shm/src/lib.rs\<close> and its in-memory implementation
  \<open>MemorySlotStorage\<close>. A generic \<open>S: FixedSlotStorage\<close> is a value of \<open>slot_storage_ops\<close>, the
  trait's methods on the state type of the implementation; the locale \<open>slot_storage\<close> states the
  laws the slot region relies on.
\<close>

section \<open>The trait\<close>

record 's slot_storage_ops =
  st_capacity :: "'s \<Rightarrow> usize"
  st_slot_size :: "'s \<Rightarrow> usize"
  st_write_slot :: "usize \<Rightarrow> bytes \<Rightarrow> ('s, dsline_error, unit) action"
  st_read_slot :: "usize \<Rightarrow> usize \<Rightarrow> 's \<Rightarrow> bytes result"
  st_clear_slot :: "usize \<Rightarrow> ('s, dsline_error, unit) action"

text \<open>
  The contract: in a well-formed store every slot holds \<open>st_slot_size\<close> bytes; a write replaces a
  prefix of one slot, a clear zeroes one slot, a read returns a prefix, and no operation touches
  another slot or the geometry.
\<close>

locale slot_storage =
  fixes io :: "'s slot_storage_ops"
    and inv :: "'s \<Rightarrow> bool"
    and slot_bytes :: "'s \<Rightarrow> usize \<Rightarrow> bytes"
  assumes slot_length: "inv s \<Longrightarrow> i < st_capacity io s \<Longrightarrow> length (slot_bytes s i) = st_slot_size io s"
    and write_law: "inv s \<Longrightarrow> i < st_capacity io s \<Longrightarrow> length b \<le> st_slot_size io s \<Longrightarrow>
      \<exists>t. st_write_slot io i b s = (Ok (), t) \<and> inv t \<and> st_capacity io t = st_capacity io s \<and>
        st_slot_size io t = st_slot_size io s \<and>
        (\<forall>j < st_capacity io s. slot_bytes t j =
           (if j = i then b @ drop (length b) (slot_bytes s i) else slot_bytes s j))"
    and clear_law: "inv s \<Longrightarrow> i < st_capacity io s \<Longrightarrow>
      \<exists>t. st_clear_slot io i s = (Ok (), t) \<and> inv t \<and> st_capacity io t = st_capacity io s \<and>
        st_slot_size io t = st_slot_size io s \<and>
        (\<forall>j < st_capacity io s. slot_bytes t j =
           (if j = i then replicate (st_slot_size io s) 0 else slot_bytes s j))"
    and read_law: "inv s \<Longrightarrow> i < st_capacity io s \<Longrightarrow> n \<le> st_slot_size io s \<Longrightarrow>
      st_read_slot io i n s = Ok (take n (slot_bytes s i))"
begin

text \<open>Reading back what was written, and what a write leaves alone.\<close>

lemma read_after_write:
  assumes "inv s" "i < st_capacity io s" "length b \<le> st_slot_size io s" "n = length b"
  shows "\<exists>t. st_write_slot io i b s = (Ok (), t) \<and> inv t \<and> st_read_slot io i n t = Ok b \<and>
    (\<forall>j k. j < st_capacity io s \<longrightarrow> j \<noteq> i \<longrightarrow> k \<le> st_slot_size io s \<longrightarrow>
      st_read_slot io j k t = st_read_slot io j k s)"
proof -
  from write_law [OF assms(1-3)] obtain t where t: "st_write_slot io i b s = (Ok (), t)" "inv t"
    "st_capacity io t = st_capacity io s" "st_slot_size io t = st_slot_size io s"
    "\<forall>j < st_capacity io s. slot_bytes t j =
       (if j = i then b @ drop (length b) (slot_bytes s i) else slot_bytes s j)" by blast
  then show ?thesis using assms by (auto simp: read_law)
qed

end

section \<open>Slots in memory\<close>

record memory_slot_storage =
  mem_capacity :: usize
  mem_slot_size :: usize
  mem_data :: bytes

text \<open>\<open>vec![0; n]\<close> panics with a capacity overflow beyond \<open>isize::MAX\<close> bytes.\<close>

definition MemorySlotStorage_new :: "usize \<Rightarrow> usize \<Rightarrow> memory_slot_storage result" where
  "MemorySlotStorage_new cap sz =
     (if cap = 0 then ChanErr (InvalidConfig ''capacity must be greater than zero'')
      else if sz = 0 then ChanErr (InvalidConfig ''slot_size must be greater than zero'')
      else and_then (ok_or (checked_mul cap sz) (Channel (InvalidConfig ''storage size overflow''))) (\<lambda>total_len.
        if total_len > isize_max then Panicked
        else Ok \<lparr>mem_capacity = cap, mem_slot_size = sz, mem_data = replicate total_len 0\<rparr>))"

definition mem_offset :: "usize \<Rightarrow> memory_slot_storage \<Rightarrow> usize result" where
  "mem_offset index s =
     (if index \<ge> mem_capacity s then ChanErr (InvalidConfig ''slot index out of range'')
      else ok_or (checked_mul index (mem_slot_size s)) (Channel (InvalidConfig ''slot offset overflow'')))"

text \<open>\<open>self.data[a..b].copy_from_slice(bytes)\<close> and \<open>.fill(0)\<close>: a panic when the range is not inside
  the vector.\<close>

definition mem_store :: "usize \<Rightarrow> bytes \<Rightarrow> (memory_slot_storage, dsline_error, unit) action" where
  "mem_store offset bytes s =
     (if offset + length bytes \<le> length (mem_data s)
      then (Ok (), s\<lparr>mem_data := put_at offset bytes (mem_data s)\<rparr>) else (Panicked, s))"

definition mem_write_slot :: "usize \<Rightarrow> bytes \<Rightarrow> (memory_slot_storage, dsline_error, unit) action" where
  "mem_write_slot index bytes =
     bind (gets mem_slot_size) (\<lambda>sz.
     if length bytes > sz then fail (Channel (MessageTooLarge (length bytes) sz)) else
     bind (reads (mem_offset index)) (\<lambda>offset. mem_store offset bytes))"

definition mem_read_slot :: "usize \<Rightarrow> usize \<Rightarrow> memory_slot_storage \<Rightarrow> bytes result" where
  "mem_read_slot index len s =
     (if len > mem_slot_size s then ChanErr (MessageTooLarge len (mem_slot_size s))
      else and_then (mem_offset index s) (\<lambda>offset. index_range (mem_data s) offset (offset + len)))"

definition mem_clear_slot :: "usize \<Rightarrow> (memory_slot_storage, dsline_error, unit) action" where
  "mem_clear_slot index =
     bind (gets mem_slot_size) (\<lambda>sz.
     bind (reads (mem_offset index)) (\<lambda>offset. mem_store offset (replicate sz 0)))"

definition memory_ops :: "memory_slot_storage slot_storage_ops" where
  "memory_ops = \<lparr>st_capacity = mem_capacity, st_slot_size = mem_slot_size,
     st_write_slot = mem_write_slot, st_read_slot = mem_read_slot, st_clear_slot = mem_clear_slot\<rparr>"

lemma memory_ops_simps [simp]:
  "st_capacity memory_ops = mem_capacity" "st_slot_size memory_ops = mem_slot_size"
  "st_write_slot memory_ops = mem_write_slot" "st_read_slot memory_ops = mem_read_slot"
  "st_clear_slot memory_ops = mem_clear_slot"
  by (simp_all add: memory_ops_def)

section \<open>The memory store keeps the contract\<close>

definition mem_inv :: "memory_slot_storage \<Rightarrow> bool" where
  "mem_inv s \<longleftrightarrow> length (mem_data s) = mem_capacity s * mem_slot_size s \<and>
     mem_capacity s * mem_slot_size s \<le> isize_max"

definition mem_slot :: "memory_slot_storage \<Rightarrow> usize \<Rightarrow> bytes" where
  "mem_slot s i = bytes_at (i * mem_slot_size s) (mem_slot_size s) (mem_data s)"

text \<open>Slot \<open>i\<close> of an array of \<open>cap\<close> slots ends inside it, and two slots do not overlap.\<close>

lemma slot_end: "i < cap \<Longrightarrow> i * sz + sz \<le> cap * (sz :: nat)"
  using mult_le_mono1 [of "Suc i" cap sz] by simp

lemma slots_disjoint: "i \<noteq> j \<Longrightarrow> j * sz + sz \<le> i * sz \<or> i * sz + sz \<le> j * (sz :: nat)"
  using mult_le_mono1 [of "Suc i" j sz] mult_le_mono1 [of "Suc j" i sz] by force

text \<open>A write at the start of slot \<open>i\<close> of an array of slots, seen slot by slot.\<close>

lemma slots_put_at:
  assumes "length d = cap * sz" "i < cap" "length b \<le> sz" "j < cap"
  shows "bytes_at (j * sz) sz (put_at (i * sz) b d) =
    (if j = i then b @ drop (length b) (bytes_at (i * sz) sz d) else bytes_at (j * sz) sz d)"
proof -
  have fit: "i * sz + length b \<le> length d" using slot_end [OF assms(2), of sz] assms(1,3) by simp
  show ?thesis
  proof (cases "j = i")
    case True
    have "bytes_at (i * sz) sz (put_at (i * sz) b d) = bytes_at (i * sz) (length b) (put_at (i * sz) b d) @
        bytes_at (i * sz + length b) (sz - length b) (put_at (i * sz) b d)"
      using bytes_at_split [of "i * sz" "length b" "sz - length b"] assms(3) by simp
    also have "\<dots> = b @ bytes_at (i * sz + length b) (sz - length b) d"
      using fit by (simp add: bytes_at_put_at_disjoint)
    finally show ?thesis using True by (simp add: bytes_at_def drop_take add.commute)
  next
    case False
    then show ?thesis
      using fit slots_disjoint [of i j sz] assms(3) by (auto intro!: bytes_at_put_at_disjoint)
  qed
qed

lemma mem_offset_Ok:
  assumes "mem_inv s" "i < mem_capacity s"
  shows "mem_offset i s = Ok (i * mem_slot_size s)"
proof -
  have "i * mem_slot_size s \<le> usize_max"
    using slot_end [OF assms(2), of "mem_slot_size s"] assms(1)
    by (simp add: mem_inv_def isize_max_def usize_max_def)
  with assms(2) show ?thesis by (simp add: mem_offset_def)
qed

lemma mem_store_slot:
  assumes inv: "mem_inv s" and i: "i < mem_capacity s" and len: "length b \<le> mem_slot_size s"
  obtains t where "mem_store (i * mem_slot_size s) b s = (Ok (), t)" "mem_inv t"
    "mem_capacity t = mem_capacity s" "mem_slot_size t = mem_slot_size s"
    "\<And>j. j < mem_capacity s \<Longrightarrow> mem_slot t j =
       (if j = i then b @ drop (length b) (mem_slot s i) else mem_slot s j)"
proof -
  let ?sz = "mem_slot_size s" and ?d = "mem_data s"
  have fit: "i * ?sz + length b \<le> length ?d"
    using slot_end [OF i, of ?sz] len inv by (simp add: mem_inv_def)
  have slots: "bytes_at (j * ?sz) ?sz (put_at (i * ?sz) b ?d) =
      (if j = i then b @ drop (length b) (bytes_at (i * ?sz) ?sz ?d) else bytes_at (j * ?sz) ?sz ?d)"
    if "j < mem_capacity s" for j
    using slots_put_at [of ?d "mem_capacity s" ?sz i b j] inv i len that by (simp add: mem_inv_def)
  show thesis
    by (rule that [of "s\<lparr>mem_data := put_at (i * ?sz) b ?d\<rparr>"])
      (use fit inv slots in \<open>simp_all add: mem_store_def mem_inv_def mem_slot_def\<close>)
qed

interpretation memory: slot_storage memory_ops mem_inv mem_slot
proof
  fix s i assume "mem_inv s" "i < st_capacity memory_ops s"
  then show "length (mem_slot s i) = st_slot_size memory_ops s"
    using slot_end [of i "mem_capacity s" "mem_slot_size s"] by (simp add: mem_inv_def mem_slot_def)
next
  fix s i and b :: bytes
  assume "mem_inv s" "i < st_capacity memory_ops s" "length b \<le> st_slot_size memory_ops s"
  then show "\<exists>t. st_write_slot memory_ops i b s = (Ok (), t) \<and> mem_inv t \<and>
      st_capacity memory_ops t = st_capacity memory_ops s \<and>
      st_slot_size memory_ops t = st_slot_size memory_ops s \<and>
      (\<forall>j < st_capacity memory_ops s. mem_slot t j =
         (if j = i then b @ drop (length b) (mem_slot s i) else mem_slot s j))"
    using mem_store_slot [of s i b] by (simp add: mem_write_slot_def mem_offset_Ok) metis
next
  fix s i assume s: "mem_inv s" "i < st_capacity memory_ops s"
  obtain t where "mem_store (i * mem_slot_size s) (replicate (mem_slot_size s) 0) s = (Ok (), t)"
    "mem_inv t" "mem_capacity t = mem_capacity s" "mem_slot_size t = mem_slot_size s"
    "\<And>j. j < mem_capacity s \<Longrightarrow> mem_slot t j = (if j = i then replicate (mem_slot_size s) 0 @
       drop (length (replicate (mem_slot_size s) (0 :: byte))) (mem_slot s i) else mem_slot s j)"
    using mem_store_slot [of s i "replicate (mem_slot_size s) 0"] s by auto
  moreover have "length (mem_slot s i) \<le> mem_slot_size s" by (simp add: mem_slot_def)
  ultimately show "\<exists>t. st_clear_slot memory_ops i s = (Ok (), t) \<and> mem_inv t \<and>
      st_capacity memory_ops t = st_capacity memory_ops s \<and>
      st_slot_size memory_ops t = st_slot_size memory_ops s \<and>
      (\<forall>j < st_capacity memory_ops s. mem_slot t j =
         (if j = i then replicate (st_slot_size memory_ops s) 0 else mem_slot s j))"
    using s by (simp add: mem_clear_slot_def mem_offset_Ok)
next
  fix s i n assume "mem_inv s" "i < st_capacity memory_ops s" "n \<le> st_slot_size memory_ops s"
  then show "st_read_slot memory_ops i n s = Ok (take n (mem_slot s i))"
    using slot_end [of i "mem_capacity s" "mem_slot_size s"]
    by (simp add: mem_read_slot_def mem_offset_Ok index_range_def mem_inv_def mem_slot_def bytes_at_def min_def)
qed

lemma MemorySlotStorage_new_inv:
  "MemorySlotStorage_new cap sz = Ok s \<Longrightarrow>
   mem_inv s \<and> mem_capacity s = cap \<and> mem_slot_size s = sz \<and> 0 < cap \<and> 0 < sz"
  by (auto simp: MemorySlotStorage_new_def mem_inv_def split: if_splits)

end
