(* ===== verification/Fixed_Region.thy ===== *)
theory Fixed_Region
  imports Slot_Storage
begin

text \<open>
  \<open>FixedSlotRegion\<close> of \<open>crates/dsline-shm/src/lib.rs\<close>: the slot states and the transitions between
  them, over any \<open>FixedSlotStorage\<close>. The lemmas in the context of \<open>slot_storage\<close> give each
  operation as an update of one entry of \<open>region_view\<close>, the list of what the slots hold.
\<close>

section \<open>Slots\<close>

datatype slot_state = Free | Writing | Committed | Pinned | Corrupted

definition slot_state_from_byte :: "byte \<Rightarrow> slot_state" where
  "slot_state_from_byte raw =
     (if raw = 0 then Free else if raw = 1 then Writing else if raw = 2 then Committed
      else if raw = 3 then Pinned else Corrupted)"

fun slot_state_to_byte :: "slot_state \<Rightarrow> byte" where
  "slot_state_to_byte Free = 0"
| "slot_state_to_byte Writing = 1"
| "slot_state_to_byte Committed = 2"
| "slot_state_to_byte Pinned = 3"
| "slot_state_to_byte Corrupted = 4"

lemma slot_state_byte_round_trip [simp]: "slot_state_from_byte (slot_state_to_byte s) = s"
  by (cases s) (simp_all add: slot_state_from_byte_def)

record slot_snapshot =
  snap_state :: slot_state
  snap_seq :: u64
  snap_payload_len :: usize
  snap_data :: bytes

record fixed_slot =
  state :: slot_state
  slot_seq :: u64
  payload_len :: usize

definition FixedSlot_default :: fixed_slot where
  "FixedSlot_default = \<lparr>state = Free, slot_seq = 0, payload_len = 0\<rparr>"

section \<open>The region\<close>

record 's fixed_slot_region =
  storage :: 's
  slots :: "fixed_slot list"

text \<open>A \<open>FixedSlot\<close> takes 24 bytes, so collecting more than \<open>isize::MAX / 24\<close> of them panics.\<close>

definition region_with_storage :: "'s slot_storage_ops \<Rightarrow> 's \<Rightarrow> 's fixed_slot_region result" where
  "region_with_storage io s =
     (let cap = st_capacity io s in
      if cap = 0 then ChanErr (InvalidConfig ''capacity must be greater than zero'')
      else if st_slot_size io s = 0 then ChanErr (InvalidConfig ''slot_size must be greater than zero'')
      else if cap * 24 > isize_max then Panicked
      else Ok \<lparr>storage = s, slots = replicate cap FixedSlot_default\<rparr>)"

definition region_new :: "usize \<Rightarrow> usize \<Rightarrow> memory_slot_storage fixed_slot_region result" where
  "region_new cap sz = and_then (MemorySlotStorage_new cap sz) (region_with_storage memory_ops)"

definition region_capacity :: "'s slot_storage_ops \<Rightarrow> 's fixed_slot_region \<Rightarrow> usize" where
  "region_capacity io r = st_capacity io (storage r)"

definition region_slot_size :: "'s slot_storage_ops \<Rightarrow> 's fixed_slot_region \<Rightarrow> usize" where
  "region_slot_size io r = st_slot_size io (storage r)"

definition region_slot :: "usize \<Rightarrow> 's fixed_slot_region \<Rightarrow> fixed_slot result" where
  "region_slot i r =
     (if i < length (slots r) then Ok (slots r ! i)
      else ChanErr (InvalidConfig ''slot index out of range''))"

text \<open>\<open>slot_mut(i)\<close> followed by assignments to the fields of the slot.\<close>

definition region_update_slot ::
  "usize \<Rightarrow> (fixed_slot \<Rightarrow> fixed_slot) \<Rightarrow> ('s fixed_slot_region, dsline_error, unit) action" where
  "region_update_slot i f =
     bind (reads (region_slot i)) (\<lambda>slot. modify (\<lambda>r. r\<lparr>slots := (slots r)[i := f slot]\<rparr>))"

definition region_state :: "usize \<Rightarrow> 's fixed_slot_region \<Rightarrow> slot_state result" where
  "region_state i r = and_then (region_slot i r) (\<lambda>slot. Ok (state slot))"

definition on_storage :: "('s, dsline_error, 'a) action \<Rightarrow> ('s fixed_slot_region, dsline_error, 'a) action" where
  "on_storage = zoom storage (\<lambda>s r. r\<lparr>storage := s\<rparr>)"

definition region_write_committed ::
  "'s slot_storage_ops \<Rightarrow> usize \<Rightarrow> u64 \<Rightarrow> bytes \<Rightarrow> ('s fixed_slot_region, dsline_error, unit) action" where
  "region_write_committed io i sq f =
     bind (gets (region_slot_size io)) (\<lambda>sz.
     if length f > sz then fail (Channel (MessageTooLarge (length f) sz)) else
     bind (reads (region_slot i)) (\<lambda>slot.
     if state slot \<noteq> Free then fail (Channel BufferFull) else
     seq (region_update_slot i (\<lambda>s. s\<lparr>state := Writing, slot_seq := sq, payload_len := length f\<rparr>))
     (seq (on_storage (st_write_slot io i f))
     (region_update_slot i (\<lambda>s. s\<lparr>state := Committed\<rparr>)))))"

definition region_read_committed ::
  "'s slot_storage_ops \<Rightarrow> usize \<Rightarrow> ('s fixed_slot_region, dsline_error, slot_snapshot) action" where
  "region_read_committed io i =
     bind (reads (region_slot i)) (\<lambda>slot.
     if state slot \<noteq> Committed then fail (Channel BufferEmpty) else
     bind (reads (\<lambda>r. st_read_slot io i (payload_len slot) (storage r))) (\<lambda>data.
     seq (region_update_slot i (\<lambda>s. s\<lparr>state := Pinned\<rparr>))
     (return \<lparr>snap_state = Pinned, snap_seq = slot_seq slot,
        snap_payload_len = payload_len slot, snap_data = data\<rparr>)))"

definition region_peek_committed ::
  "'s slot_storage_ops \<Rightarrow> usize \<Rightarrow> 's fixed_slot_region \<Rightarrow> slot_snapshot result" where
  "region_peek_committed io i r =
     and_then (region_slot i r) (\<lambda>slot.
     if state slot \<noteq> Committed then ChanErr BufferEmpty else
     and_then (st_read_slot io i (payload_len slot) (storage r)) (\<lambda>data.
     Ok \<lparr>snap_state = Committed, snap_seq = slot_seq slot,
        snap_payload_len = payload_len slot, snap_data = data\<rparr>))"

definition region_release_slot ::
  "'s slot_storage_ops \<Rightarrow> usize \<Rightarrow> ('s fixed_slot_region, dsline_error, unit) action" where
  "region_release_slot io i =
     seq (on_storage (st_clear_slot io i))
     (region_update_slot i (\<lambda>s. s\<lparr>state := Free, slot_seq := 0, payload_len := 0\<rparr>))"

definition region_release_pinned ::
  "'s slot_storage_ops \<Rightarrow> usize \<Rightarrow> ('s fixed_slot_region, dsline_error, unit) action" where
  "region_release_pinned io i =
     bind (reads (region_slot i)) (\<lambda>slot.
     if state slot \<noteq> Pinned then fail (Channel (InvalidConfig ''slot is not pinned''))
     else region_release_slot io i)"

definition region_release_committed ::
  "'s slot_storage_ops \<Rightarrow> usize \<Rightarrow> ('s fixed_slot_region, dsline_error, unit) action" where
  "region_release_committed io i =
     bind (reads (region_slot i)) (\<lambda>slot.
     if state slot \<noteq> Committed then fail (Channel (InvalidConfig ''slot is not committed''))
     else region_release_slot io i)"

definition region_mark_corrupted :: "usize \<Rightarrow> ('s fixed_slot_region, dsline_error, unit) action" where
  "region_mark_corrupted i = region_update_slot i (\<lambda>s. s\<lparr>state := Corrupted\<rparr>)"

section \<open>What the slots hold\<close>

type_synonym slot_view = "fixed_slot \<times> bytes"

definition free_view :: slot_view where
  "free_view = (FixedSlot_default, [])"

definition committed_view :: "u64 \<Rightarrow> bytes \<Rightarrow> slot_view" where
  "committed_view sq f = (\<lparr>state = Committed, slot_seq = sq, payload_len = length f\<rparr>, f)"

definition pinned_view :: "u64 \<Rightarrow> bytes \<Rightarrow> slot_view" where
  "pinned_view sq f = (\<lparr>state = Pinned, slot_seq = sq, payload_len = length f\<rparr>, f)"

lemma view_simps [simp]:
  "state (fst free_view) = Free" "state (fst (committed_view sq f)) = Committed"
  "state (fst (pinned_view sq f)) = Pinned"
  "fst free_view = \<lparr>state = Free, slot_seq = 0, payload_len = 0\<rparr>"
  by (simp_all add: free_view_def committed_view_def pinned_view_def FixedSlot_default_def)

lemma view_distinct [simp]:
  "free_view \<noteq> committed_view sq f" "free_view \<noteq> pinned_view sq f"
  "committed_view sq f \<noteq> pinned_view sq' f'"
  by (auto simp: free_view_def committed_view_def pinned_view_def FixedSlot_default_def)

definition region_view :: "('s \<Rightarrow> usize \<Rightarrow> bytes) \<Rightarrow> 's fixed_slot_region \<Rightarrow> slot_view list" where
  "region_view slot_bytes r =
     map (\<lambda>i. (slots r ! i, take (payload_len (slots r ! i)) (slot_bytes (storage r) i)))
       [0..<length (slots r)]"

lemma length_region_view [simp]: "length (region_view sb r) = length (slots r)"
  by (simp add: region_view_def)

lemma region_view_nth:
  "i < length (slots r) \<Longrightarrow> region_view sb r ! i =
     (slots r ! i, take (payload_len (slots r ! i)) (sb (storage r) i))"
  by (simp add: region_view_def)

text \<open>A slot's recorded length is within the slot, and the table has one entry per slot of the store.\<close>

definition region_inv ::
  "'s slot_storage_ops \<Rightarrow> ('s \<Rightarrow> bool) \<Rightarrow> usize \<Rightarrow> usize \<Rightarrow> 's fixed_slot_region \<Rightarrow> bool" where
  "region_inv io ok cap sz r \<longleftrightarrow> ok (storage r) \<and> length (slots r) = cap \<and>
     st_capacity io (storage r) = cap \<and> st_slot_size io (storage r) = sz \<and>
     (\<forall>i < cap. payload_len (slots r ! i) \<le> sz)"

context slot_storage
begin

abbreviation rinv :: "usize \<Rightarrow> usize \<Rightarrow> 's fixed_slot_region \<Rightarrow> bool" where
  "rinv \<equiv> region_inv io inv"

abbreviation view :: "'s fixed_slot_region \<Rightarrow> slot_view list" where
  "view \<equiv> region_view slot_bytes"

lemma view_length: "rinv cap sz r \<Longrightarrow> length (view r) = cap"
  by (simp add: region_inv_def)

lemma slot_of_view:
  assumes "rinv cap sz r" "i < cap" "view r ! i = (sl, f)"
  shows "region_slot i r = Ok sl" "slots r ! i = sl" "length f = payload_len sl" "payload_len sl \<le> sz"
    "st_read_slot io i (payload_len sl) (storage r) = Ok f"
  using assms slot_length [of "storage r" i]
  by (auto simp: region_inv_def region_view_nth region_slot_def read_law min_def)

text \<open>An update of slot \<open>i\<close> in both the table and the store is an update of entry \<open>i\<close> of the view.\<close>

lemma view_update:
  assumes r: "rinv cap sz r" and i: "i < cap" and t: "inv t" "st_capacity io t = cap"
    "st_slot_size io t = sz" and others: "\<And>j. j < cap \<Longrightarrow> j \<noteq> i \<Longrightarrow> slot_bytes t j = slot_bytes (storage r) j"
    and sl: "payload_len sl \<le> sz"
  shows "rinv cap sz (r\<lparr>storage := t, slots := (slots r)[i := sl]\<rparr>)"
    "view (r\<lparr>storage := t, slots := (slots r)[i := sl]\<rparr>) =
       (view r)[i := (sl, take (payload_len sl) (slot_bytes t i))]"
proof -
  show "rinv cap sz (r\<lparr>storage := t, slots := (slots r)[i := sl]\<rparr>)"
    using r i t sl by (auto simp: region_inv_def nth_list_update)
  show "view (r\<lparr>storage := t, slots := (slots r)[i := sl]\<rparr>) =
       (view r)[i := (sl, take (payload_len sl) (slot_bytes t i))]"
    by (rule nth_equalityI)
      (use r i others in \<open>auto simp: region_inv_def region_view_nth nth_list_update\<close>)
qed

lemma write_committed_view:
  assumes r: "rinv cap sz r" and i: "i < cap" and free: "state (fst (view r ! i)) = Free"
    and len: "length f \<le> sz"
  shows "\<exists>r'. region_write_committed io i sq f r = (Ok (), r') \<and> rinv cap sz r' \<and>
     view r' = (view r)[i := committed_view sq f]"
proof -
  obtain sl g where sl: "view r ! i = (sl, g)" by force
  note s = slot_of_view [OF r i sl]
  from write_law [of "storage r" i f] r i len obtain t where
    t: "st_write_slot io i f (storage r) = (Ok (), t)" "inv t"
      "st_capacity io t = cap" "st_slot_size io t = sz"
      "\<forall>j < cap. slot_bytes t j =
         (if j = i then f @ drop (length f) (slot_bytes (storage r) i) else slot_bytes (storage r) j)"
    by (auto simp: region_inv_def)
  let ?sl = "\<lparr>state = Committed, slot_seq = sq, payload_len = length f\<rparr>"
  let ?r = "r\<lparr>storage := t, slots := (slots r)[i := ?sl]\<rparr>"
  have n: "i < length (slots r)" using r i by (simp add: region_inv_def)
  have run: "region_write_committed io i sq f r = (Ok (), ?r)"
    using r s(1,2) t(1) n free sl len
    by (cases sl) (simp add: region_write_committed_def region_slot_size_def region_inv_def
        region_update_slot_def region_slot_def on_storage_def)
  have other: "\<And>j. j < cap \<Longrightarrow> j \<noteq> i \<Longrightarrow> slot_bytes t j = slot_bytes (storage r) j" using t(5) by simp
  have "take (length f) (slot_bytes t i) = f" using t(5) i by simp
  then show ?thesis
    using run view_update [OF r i t(2-4) other, where sl = ?sl] len by (simp add: committed_view_def)
qed

lemma read_committed_view:
  assumes r: "rinv cap sz r" and i: "i < cap" and v: "view r ! i = committed_view sq f"
  shows "\<exists>r'. region_read_committed io i r =
       (Ok \<lparr>snap_state = Pinned, snap_seq = sq, snap_payload_len = length f, snap_data = f\<rparr>, r') \<and>
     rinv cap sz r' \<and> view r' = (view r)[i := pinned_view sq f]"
proof -
  note s = slot_of_view [OF r i v [unfolded committed_view_def]]
  let ?sl = "\<lparr>state = Pinned, slot_seq = sq, payload_len = length f\<rparr>"
  let ?r = "r\<lparr>storage := storage r, slots := (slots r)[i := ?sl]\<rparr>"
  have n: "i < length (slots r)" using r i by (simp add: region_inv_def)
  have run: "region_read_committed io i r =
      (Ok \<lparr>snap_state = Pinned, snap_seq = sq, snap_payload_len = length f, snap_data = f\<rparr>, ?r)"
    using s by (simp add: region_read_committed_def region_update_slot_def)
  have "take (length f) (slot_bytes (storage r) i) = f"
    using v n s(2) by (simp add: region_view_nth committed_view_def)
  with run view_update [OF r i, of "storage r" ?sl] r s(4) show ?thesis
    by (simp add: region_inv_def pinned_view_def)
qed

lemma peek_committed_view:
  assumes r: "rinv cap sz r" and i: "i < cap" and v: "view r ! i = committed_view sq f"
  shows "region_peek_committed io i r =
    Ok \<lparr>snap_state = Committed, snap_seq = sq, snap_payload_len = length f, snap_data = f\<rparr>"
  using slot_of_view [OF r i v [unfolded committed_view_def]] by (simp add: region_peek_committed_def)

lemma release_slot_view:
  assumes r: "rinv cap sz r" and i: "i < cap"
  shows "\<exists>r'. region_release_slot io i r = (Ok (), r') \<and> rinv cap sz r' \<and>
     view r' = (view r)[i := free_view]"
proof -
  from clear_law [of "storage r" i] r i obtain t where
    t: "st_clear_slot io i (storage r) = (Ok (), t)" "inv t"
      "st_capacity io t = cap" "st_slot_size io t = sz"
      "\<forall>j < cap. slot_bytes t j = (if j = i then replicate sz 0 else slot_bytes (storage r) j)"
    by (auto simp: region_inv_def)
  let ?sl = "\<lparr>state = Free, slot_seq = 0, payload_len = 0\<rparr>"
  let ?r = "r\<lparr>storage := t, slots := (slots r)[i := ?sl]\<rparr>"
  have n: "i < length (slots r)" using r i by (simp add: region_inv_def)
  have run: "region_release_slot io i r = (Ok (), ?r)"
    using n t(1) by (cases "slots r ! i") (simp add: region_release_slot_def on_storage_def region_update_slot_def region_slot_def)
  have other: "\<And>j. j < cap \<Longrightarrow> j \<noteq> i \<Longrightarrow> slot_bytes t j = slot_bytes (storage r) j" using t(5) by simp
  show ?thesis
    using run view_update [OF r i t(2-4) other, where sl = ?sl]
    by (simp add: free_view_def FixedSlot_default_def)
qed

lemma release_pinned_view:
  assumes r: "rinv cap sz r" and i: "i < cap" and v: "view r ! i = pinned_view sq f"
  shows "\<exists>r'. region_release_pinned io i r = (Ok (), r') \<and> rinv cap sz r' \<and>
     view r' = (view r)[i := free_view]"
  using release_slot_view [OF r i] slot_of_view(1) [OF r i v [unfolded pinned_view_def]]
  by (simp add: region_release_pinned_def)

lemma release_committed_view:
  assumes r: "rinv cap sz r" and i: "i < cap" and v: "view r ! i = committed_view sq f"
  shows "\<exists>r'. region_release_committed io i r = (Ok (), r') \<and> rinv cap sz r' \<and>
     view r' = (view r)[i := free_view]"
  using release_slot_view [OF r i] slot_of_view(1) [OF r i v [unfolded committed_view_def]]
  by (simp add: region_release_committed_def)

lemma with_storage_view:
  assumes "inv s" "region_with_storage io s = Ok r"
  shows "rinv (st_capacity io s) (st_slot_size io s) r" "view r = replicate (st_capacity io s) free_view"
proof -
  have r: "r = \<lparr>storage = s, slots = replicate (st_capacity io s) FixedSlot_default\<rparr>"
    using assms(2) by (auto simp: region_with_storage_def Let_def split: if_splits)
  show "rinv (st_capacity io s) (st_slot_size io s) r"
    using assms(1) by (simp add: r region_inv_def FixedSlot_default_def)
  show "view r = replicate (st_capacity io s) free_view"
    by (rule nth_equalityI) (simp_all add: r region_view_nth free_view_def FixedSlot_default_def)
qed

end

end
