(* ===== verification/Frame.thy ===== *)
theory Frame
  imports Errors
begin

text \<open>
  The frame protocol of \<open>crates/dsline-core/src/frame.rs\<close>: a fixed 50-byte header, a list of
  type-length-value metadata records and the payload. The checksum function (the crate
  \<open>crc32fast\<close>) is the parameter \<open>crc\<close>.

  Every indexed read of the decoder is written with the panic it has in Rust when the index is
  out of range; \<open>decode_frame_no_panic\<close> shows that the guards rule it out.
\<close>

unbundle bit_operations_syntax

section \<open>Constants and data\<close>

definition FRAME_MAGIC :: u32 where "FRAME_MAGIC = 0x44534c4e"
definition FRAME_VERSION :: u16 where "FRAME_VERSION = 2"
definition FRAME_HEADER_LEN :: usize where "FRAME_HEADER_LEN = 50"
definition TLV_HEADER_LEN :: usize where "TLV_HEADER_LEN = 6"
definition FRAME_FLAG_CHUNKED :: u16 where "FRAME_FLAG_CHUNKED = 0x0001"
definition FRAME_FLAG_CHUNK_START :: u16 where "FRAME_FLAG_CHUNK_START = 0x0002"
definition FRAME_FLAG_CHUNK_END :: u16 where "FRAME_FLAG_CHUNK_END = 0x0004"
definition TLV_CHUNK_INDEX :: u16 where "TLV_CHUNK_INDEX = 100"
definition TLV_CHUNK_TOTAL :: u16 where "TLV_CHUNK_TOTAL = 101"
definition TLV_CHUNK_MESSAGE_LEN :: u16 where "TLV_CHUNK_MESSAGE_LEN = 102"
definition CHUNK_METADATA_LEN :: usize where "CHUNK_METADATA_LEN = (TLV_HEADER_LEN + 8) * 3"

lemmas frame_consts = FRAME_MAGIC_def FRAME_VERSION_def FRAME_HEADER_LEN_def TLV_HEADER_LEN_def
  FRAME_FLAG_CHUNKED_def FRAME_FLAG_CHUNK_START_def FRAME_FLAG_CHUNK_END_def
  TLV_CHUNK_INDEX_def TLV_CHUNK_TOTAL_def TLV_CHUNK_MESSAGE_LEN_def CHUNK_METADATA_LEN_def

datatype frame_kind = Bytes | Ndarray | Arrow | Control

fun kind_to_u16 :: "frame_kind \<Rightarrow> u16" where
  "kind_to_u16 Bytes = 1"
| "kind_to_u16 Ndarray = 2"
| "kind_to_u16 Arrow = 3"
| "kind_to_u16 Control = 4"

definition kind_try_from :: "u16 \<Rightarrow> frame_kind result" where
  "kind_try_from value =
     (if value = 1 then Ok Bytes
      else if value = 2 then Ok Ndarray
      else if value = 3 then Ok Arrow
      else if value = 4 then Ok Control
      else ProtErr (InvalidFrameKind value))"

record frame_header =
  hdr_flags :: u16
  hdr_kind :: frame_kind
  hdr_header_len :: u32
  hdr_payload_len :: u64
  hdr_seq :: u64
  hdr_timestamp_ns :: u64
  hdr_schema_hash :: u64
  hdr_checksum :: u32

record metadata =
  ty :: u16
  val :: bytes

record frame =
  header :: frame_header
  metadata_items :: "metadata list"
  payload :: bytes

definition Metadata_new :: "u16 \<Rightarrow> bytes \<Rightarrow> metadata" where
  "Metadata_new t v = \<lparr>ty = t, val = v\<rparr>"

section \<open>Encoding\<close>

fun metadata_len_fold :: "nat \<Rightarrow> metadata list \<Rightarrow> nat option" where
  "metadata_len_fold acc [] = Some acc"
| "metadata_len_fold acc (item # items) =
     (case checked_add acc TLV_HEADER_LEN of
        None \<Rightarrow> None
      | Some v \<Rightarrow>
          (case checked_add v (length (val item)) of
             None \<Rightarrow> None
           | Some acc' \<Rightarrow> metadata_len_fold acc' items))"

fun encode_metadata :: "metadata list \<Rightarrow> bytes" where
  "encode_metadata [] = []"
| "encode_metadata (item # items) =
     to_le16 (ty item) @ to_le32 (word_of_nat (length (val item))) @ val item
       @ encode_metadata items"

definition encode_frame_header ::
  "frame_kind \<Rightarrow> u16 \<Rightarrow> u64 \<Rightarrow> u64 \<Rightarrow> u64 \<Rightarrow> u32 \<Rightarrow> usize \<Rightarrow> metadata list \<Rightarrow> bytes result" where
  "encode_frame_header kind flags sq timestamp_ns schema_hash checksum payload_len metadata =
     and_then (ok_or (metadata_len_fold 0 metadata) (Protocol HeaderLengthOverflow)) (\<lambda>metadata_len.
     and_then (ok_or (checked_add FRAME_HEADER_LEN metadata_len) (Protocol HeaderLengthOverflow)) (\<lambda>header_len.
     if \<not> header_len < 2 ^ 32 then ProtErr HeaderLengthOverflow
     else if \<not> payload_len < 2 ^ 64 then ProtErr HeaderLengthOverflow
     else Ok
       (to_le32 FRAME_MAGIC @ to_le16 FRAME_VERSION @ to_le16 flags @ to_le16 (kind_to_u16 kind)
        @ to_le32 (word_of_nat header_len) @ to_le64 (word_of_nat payload_len)
        @ to_le64 sq @ to_le64 timestamp_ns @ to_le64 schema_hash @ to_le32 checksum
        @ encode_metadata metadata)))"

definition encode_frame ::
  "(bytes \<Rightarrow> u32) \<Rightarrow> frame_kind \<Rightarrow> u16 \<Rightarrow> u64 \<Rightarrow> u64 \<Rightarrow> u64 \<Rightarrow> metadata list \<Rightarrow> bytes \<Rightarrow> bytes result" where
  "encode_frame crc kind flags sq timestamp_ns schema_hash metadata pl =
     and_then
       (encode_frame_header kind flags sq timestamp_ns schema_hash (crc pl) (length pl) metadata)
       (\<lambda>header. Ok (header @ pl))"

section \<open>Decoding\<close>

definition read_u16 :: "bytes \<Rightarrow> nat \<Rightarrow> u16 result" where
  "read_u16 bs off = map_outcome from_le16 (index_range bs off (off + 2))"

definition read_u32 :: "bytes \<Rightarrow> nat \<Rightarrow> u32 result" where
  "read_u32 bs off = map_outcome from_le32 (index_range bs off (off + 4))"

definition read_u64 :: "bytes \<Rightarrow> nat \<Rightarrow> u64 result" where
  "read_u64 bs off = map_outcome from_le64 (index_range bs off (off + 8))"

definition decode_frame_header :: "bytes \<Rightarrow> (frame_header \<times> usize) result" where
  "decode_frame_header bs =
     (if length bs < FRAME_HEADER_LEN then ProtErr (FrameTooShort (length bs) FRAME_HEADER_LEN)
      else
     and_then (read_u32 bs 0) (\<lambda>magic.
     if magic \<noteq> FRAME_MAGIC then ProtErr (InvalidMagic magic) else
     and_then (read_u16 bs 4) (\<lambda>version.
     if version \<noteq> FRAME_VERSION then ProtErr (UnsupportedVersion version) else
     and_then (read_u16 bs 6) (\<lambda>flags.
     and_then (and_then (read_u16 bs 8) kind_try_from) (\<lambda>kind.
     and_then (map_outcome unat (read_u32 bs 10)) (\<lambda>header_len.
     if header_len < FRAME_HEADER_LEN then
       ProtErr (InvalidHeaderLength header_len FRAME_HEADER_LEN) else
     and_then (read_u64 bs 14) (\<lambda>payload_len.
     and_then (read_u64 bs 22) (\<lambda>sq.
     and_then (read_u64 bs 30) (\<lambda>timestamp_ns.
     and_then (read_u64 bs 38) (\<lambda>schema_hash.
     and_then (read_u32 bs 46) (\<lambda>checksum.
     and_then (ok_or (checked_add header_len (unat payload_len)) (Protocol HeaderLengthOverflow)) (\<lambda>total_len.
     Ok (\<lparr>hdr_flags = flags, hdr_kind = kind, hdr_header_len = word_of_nat header_len,
          hdr_payload_len = payload_len, hdr_seq = sq, hdr_timestamp_ns = timestamp_ns,
          hdr_schema_hash = schema_hash, hdr_checksum = checksum\<rparr>, total_len)))))))))))))"

text \<open>The \<open>while offset < header_len\<close> loop; every turn moves \<open>offset\<close> at least 6 bytes on.\<close>

function decode_metadata :: "bytes \<Rightarrow> nat \<Rightarrow> nat \<Rightarrow> metadata list result" where
  "decode_metadata bs header_len offset =
     (if \<not> offset < header_len then Ok []
      else if header_len - offset < TLV_HEADER_LEN then
        ProtErr (InvalidMetadataLength offset (header_len - offset))
      else
     and_then (read_u16 bs offset) (\<lambda>t.
     and_then (map_outcome unat (read_u32 bs (offset + 2))) (\<lambda>len.
     let value_start = offset + TLV_HEADER_LEN in
     (case checked_add value_start len of
        None \<Rightarrow> ProtErr (InvalidMetadataLength offset len)
      | Some value_end \<Rightarrow>
          if value_end > header_len then ProtErr (InvalidMetadataLength offset len)
          else
            and_then (index_range bs value_start value_end) (\<lambda>v.
            and_then (decode_metadata bs header_len value_end) (\<lambda>items.
            Ok (\<lparr>ty = t, val = v\<rparr> # items)))))))"
  by pat_completeness auto
termination
  by (relation "measure (\<lambda>(bs, header_len, offset). header_len - offset)")
    (auto simp: TLV_HEADER_LEN_def)

declare decode_metadata.simps [simp del]

definition decode_frame :: "bytes \<Rightarrow> frame result" where
  "decode_frame bs =
     and_then (decode_frame_header bs) (\<lambda>(hdr, total_len).
     let header_len = unat (hdr_header_len hdr);
         payload_len = unat (hdr_payload_len hdr) in
     if length bs < header_len then ProtErr (FrameTooShort (length bs) header_len)
     else
     let available_payload = length bs - header_len in
     if payload_len > available_payload then
       ProtErr (InvalidPayloadLength (hdr_payload_len hdr) available_payload)
     else
     and_then (decode_metadata bs header_len FRAME_HEADER_LEN) (\<lambda>metadata.
     let payload_end = header_len + payload_len in
     and_then (index_range bs header_len payload_end) (\<lambda>pl.
     Ok \<lparr>header = hdr, metadata_items = metadata, payload = pl\<rparr>)))"


section \<open>Lengths\<close>

lemma length_encode_metadata_Cons [simp]:
  "length (encode_metadata (item # items)) = TLV_HEADER_LEN + length (val item) + length (encode_metadata items)"
  by (simp add: TLV_HEADER_LEN_def)

lemma metadata_len_fold_eq:
  "acc \<le> usize_max \<Longrightarrow> metadata_len_fold acc items =
     (if acc + length (encode_metadata items) \<le> usize_max
      then Some (acc + length (encode_metadata items)) else None)"
proof (induction items arbitrary: acc)
  case Nil
  then show ?case by simp
next
  case (Cons item items)
  then show ?case
    by (auto simp: checked_add_def simp del: encode_metadata.simps)
qed

text \<open>The 50 fixed bytes of a header.\<close>

definition header_image ::
  "frame_kind \<Rightarrow> u16 \<Rightarrow> u64 \<Rightarrow> u64 \<Rightarrow> u64 \<Rightarrow> u32 \<Rightarrow> nat \<Rightarrow> nat \<Rightarrow> bytes" where
  "header_image kind flags sq timestamp_ns schema_hash checksum header_len payload_len =
     to_le32 FRAME_MAGIC @ to_le16 FRAME_VERSION @ to_le16 flags @ to_le16 (kind_to_u16 kind)
     @ to_le32 (word_of_nat header_len) @ to_le64 (word_of_nat payload_len)
     @ to_le64 sq @ to_le64 timestamp_ns @ to_le64 schema_hash @ to_le32 checksum"

lemma length_header_image [simp]:
  "length (header_image kind flags sq ts sh ck hl pl) = FRAME_HEADER_LEN"
  by (simp add: header_image_def FRAME_HEADER_LEN_def)

text \<open>What the encoder accepts, and its image.\<close>

lemma encode_frame_header_Ok_iff:
  "encode_frame_header kind flags sq ts sh ck pl md = Ok h \<longleftrightarrow>
     FRAME_HEADER_LEN + length (encode_metadata md) < 2 ^ 32 \<and> pl < 2 ^ 64 \<and>
     h = header_image kind flags sq ts sh ck (FRAME_HEADER_LEN + length (encode_metadata md)) pl
           @ encode_metadata md"
proof -
  have "metadata_len_fold 0 md = (if length (encode_metadata md) \<le> usize_max
          then Some (length (encode_metadata md)) else None)"
    using metadata_len_fold_eq [of 0 md] by simp
  then show ?thesis
    by (auto simp: encode_frame_header_def header_image_def checked_add_def usize_max_def
        FRAME_HEADER_LEN_def)
qed

lemma encode_frame_header_not_Panicked:
  "encode_frame_header kind flags sq ts sh ck pl md \<noteq> Panicked"
  by (auto simp: encode_frame_header_def)

lemma encode_frame_header_no_metadata:
  "pl < 2 ^ 64 \<Longrightarrow> encode_frame_header kind flags sq ts sh ck pl [] =
     Ok (header_image kind flags sq ts sh ck FRAME_HEADER_LEN pl)"
  by (simp add: encode_frame_header_Ok_iff FRAME_HEADER_LEN_def)

section \<open>Reads inside the buffer\<close>

lemma read_in_range [simp, byte_simps]:
  "off + 2 \<le> length bs \<Longrightarrow> read_u16 bs off = Ok (from_le16 (bytes_at off 2 bs))"
  "off + 4 \<le> length bs \<Longrightarrow> read_u32 bs off = Ok (from_le32 (bytes_at off 4 bs))"
  "off + 8 \<le> length bs \<Longrightarrow> read_u64 bs off = Ok (from_le64 (bytes_at off 8 bs))"
  by (simp_all add: read_u16_def read_u32_def read_u64_def index_range_def)

lemma index_range_in [simp]:
  "a \<le> b \<Longrightarrow> b \<le> length xs \<Longrightarrow> index_range xs a b = Ok (bytes_at a (b - a) xs)"
  by (simp add: index_range_def)

lemma kind_round_trip [simp]: "kind_try_from (kind_to_u16 k) = Ok k"
  by (cases k) (simp_all add: kind_try_from_def)


lemma kind_try_from_not_Panicked [simp]: "kind_try_from v \<noteq> Panicked"
  by (simp add: kind_try_from_def)

text \<open>The fields of a header image, read back at the decoder's offsets.\<close>

lemma header_image_fields [byte_simps]:
  fixes rest :: bytes and k fl sq ts sh ck hl pl
  defines "bs \<equiv> header_image k fl sq ts sh ck hl pl @ rest"
  shows "from_le32 (bytes_at 0 4 bs) = FRAME_MAGIC" "from_le16 (bytes_at 4 2 bs) = FRAME_VERSION"
    "from_le16 (bytes_at 6 2 bs) = fl" "from_le16 (bytes_at 8 2 bs) = kind_to_u16 k"
    "from_le32 (bytes_at 10 4 bs) = word_of_nat hl" "from_le64 (bytes_at 14 8 bs) = word_of_nat pl"
    "from_le64 (bytes_at 22 8 bs) = sq" "from_le64 (bytes_at 30 8 bs) = ts"
    "from_le64 (bytes_at 38 8 bs) = sh" "from_le32 (bytes_at 46 4 bs) = ck"
  by (simp_all add: bs_def header_image_def bytes_at_def)

section \<open>Decoding what was encoded\<close>

lemma decode_frame_header_image:
  assumes "FRAME_HEADER_LEN \<le> hl" "hl < 2 ^ 32" "hl + pl \<le> usize_max"
  shows "decode_frame_header (header_image k fl sq ts sh ck hl pl @ rest) =
     Ok (\<lparr>hdr_flags = fl, hdr_kind = k, hdr_header_len = word_of_nat hl,
          hdr_payload_len = word_of_nat pl, hdr_seq = sq, hdr_timestamp_ns = ts,
          hdr_schema_hash = sh, hdr_checksum = ck\<rparr>, hl + pl)"
proof -
  define bs where "bs = header_image k fl sq ts sh ck hl pl @ rest"
  have len: "50 \<le> length bs" by (simp add: bs_def FRAME_HEADER_LEN_def)
  have hl: "unat (word_of_nat hl :: u32) = hl" and pl: "unat (word_of_nat pl :: u64) = pl"
    using assms by (simp_all add: unat_of_nat usize_max_def)
  note f = header_image_fields [of k fl sq ts sh ck hl pl rest, folded bs_def]
  from len assms show ?thesis
    unfolding bs_def [symmetric] decode_frame_header_def
    by (simp add: f hl pl FRAME_HEADER_LEN_def checked_add_def del: bytes_at_0)
qed

lemma decode_metadata_encoded:
  assumes "bs = pre @ encode_metadata items @ post"
    and "hl = length pre + length (encode_metadata items)" and "hl < 2 ^ 32"
  shows "decode_metadata bs hl (length pre) = Ok items"
  using assms
proof (induction items arbitrary: pre)
  case Nil
  then show ?case by (simp add: decode_metadata.simps)
next
  case (Cons item items)
  define tlv where "tlv = to_le16 (ty item) @ to_le32 (word_of_nat (length (val item))) @ val item"
  have len: "length (val item) < 2 ^ 32" using Cons.prems by simp
  have enc: "encode_metadata (item # items) = tlv @ encode_metadata items" by (simp add: tlv_def)
  have bs: "bs = (pre @ tlv) @ encode_metadata items @ post" using Cons.prems(1) enc by simp
  have ltlv: "length tlv = 6 + length (val item)" by (simp add: tlv_def)
  have IH: "decode_metadata bs hl (length (pre @ tlv)) = Ok items"
    using Cons.IH [of "pre @ tlv"] Cons.prems enc by (simp add: tlv_def)
  have r1: "from_le16 (bytes_at (length pre) 2 bs) = ty item"
    by (simp add: bs tlv_def bytes_at_def)
  have r2: "from_le32 (bytes_at (length pre + 2) 4 bs) = word_of_nat (length (val item))"
    by (simp add: bs tlv_def bytes_at_def)
  have r3: "bytes_at (length pre + 6) (length (val item)) bs = val item"
    by (simp add: bs tlv_def bytes_at_def)
  have hl: "hl = length pre + 6 + length (val item) + length (encode_metadata items)"
    using Cons.prems(2) ltlv enc by simp
  have bl: "hl \<le> length bs" using bs hl ltlv by simp
  have ul: "unat (word_of_nat (length (val item)) :: u32) = length (val item)"
    using len by (simp add: unat_of_nat)
  have ca: "checked_add (length pre + 6) (length (val item)) = Some (length pre + 6 + length (val item))"
    using hl Cons.prems(3) by (simp add: usize_max_def)
  have IH': "decode_metadata bs hl (length pre + 6 + length (val item)) = Ok items"
    using IH ltlv by (simp add: add.assoc)
  show ?case
    using hl bl r1 r2 r3 ul ca IH'
    by (subst decode_metadata.simps) (simp add: TLV_HEADER_LEN_def Let_def)
qed

section \<open>Encoding what was decoded\<close>


lemma decode_metadata_not_Panicked:
  assumes "hl \<le> length bs"
  shows "decode_metadata bs hl off \<noteq> Panicked"
  using assms
proof (induction bs hl off rule: decode_metadata.induct)
  case (1 bs hl off)
  then show ?case
    by (subst decode_metadata.simps)
      (auto simp: TLV_HEADER_LEN_def Let_def read_u16_def read_u32_def index_range_def
        split: option.splits)
qed



lemma decode_frame_header_not_Panicked: "decode_frame_header bs \<noteq> Panicked"
  by (auto simp: decode_frame_header_def FRAME_HEADER_LEN_def Let_def)

text \<open>A whole frame image, whatever follows it.\<close>

lemma decode_frame_image:
  assumes "hl = FRAME_HEADER_LEN + length (encode_metadata md)" "hl < 2 ^ 32"
    and "hl + length pl \<le> usize_max" and "pl_len = length pl"
  shows "decode_frame (header_image k fl sq ts sh ck hl pl_len @ encode_metadata md @ pl @ rest) =
    Ok \<lparr>header = \<lparr>hdr_flags = fl, hdr_kind = k, hdr_header_len = word_of_nat hl,
          hdr_payload_len = word_of_nat (length pl), hdr_seq = sq, hdr_timestamp_ns = ts,
          hdr_schema_hash = sh, hdr_checksum = ck\<rparr>,
        metadata_items = md, payload = pl\<rparr>"
proof -
  define im where "im = header_image k fl sq ts sh ck hl (length pl)"
  define bs where "bs = im @ encode_metadata md @ pl @ rest"
  have im: "length im = FRAME_HEADER_LEN" by (simp add: im_def)
  have hdr: "decode_frame_header bs =
     Ok (\<lparr>hdr_flags = fl, hdr_kind = k, hdr_header_len = word_of_nat hl,
          hdr_payload_len = word_of_nat (length pl), hdr_seq = sq, hdr_timestamp_ns = ts,
          hdr_schema_hash = sh, hdr_checksum = ck\<rparr>, hl + length pl)"
    using decode_frame_header_image [of hl "length pl" k fl sq ts sh ck] assms
    by (simp add: bs_def im_def)
  have meta: "decode_metadata bs hl FRAME_HEADER_LEN = Ok md"
    using decode_metadata_encoded [of bs im md "pl @ rest" hl] assms by (simp add: bs_def im)
  have u: "unat (word_of_nat hl :: u32) = hl" "unat (word_of_nat (length pl) :: u64) = length pl"
    using assms(2,3) by (simp_all add: unat_of_nat usize_max_def del: of_nat_add)
  have body: "bytes_at hl (length pl) bs = pl" by (simp add: bs_def bytes_at_def im assms(1))
  have lbs: "length bs = hl + length pl + length rest" by (simp add: bs_def im assms(1))
  have "decode_frame bs = Ok \<lparr>header = \<lparr>hdr_flags = fl, hdr_kind = k,
      hdr_header_len = word_of_nat hl, hdr_payload_len = word_of_nat (length pl), hdr_seq = sq,
      hdr_timestamp_ns = ts, hdr_schema_hash = sh, hdr_checksum = ck\<rparr>,
      metadata_items = md, payload = pl\<rparr>"
    using hdr meta body u lbs by (simp add: decode_frame_def Let_def)
  then show ?thesis by (simp add: bs_def im_def assms(4))
qed

section \<open>The codec is exact\<close>

text \<open>Claim C21: what \<open>encode_frame\<close> produces, \<open>decode_frame\<close> reads back: the header fields, the
  metadata records in order and the payload, whatever bytes follow the frame. A slice in Rust has
  at most \<open>isize::MAX\<close> bytes.\<close>

theorem frame_round_trip:
  assumes "encode_frame crc kind flags sq ts sh md pl = Ok bs" and "length pl \<le> isize_max"
  shows "decode_frame (bs @ rest) = Ok
    \<lparr>header = \<lparr>hdr_flags = flags, hdr_kind = kind,
       hdr_header_len = word_of_nat (FRAME_HEADER_LEN + length (encode_metadata md)),
       hdr_payload_len = word_of_nat (length pl), hdr_seq = sq, hdr_timestamp_ns = ts,
       hdr_schema_hash = sh, hdr_checksum = crc pl\<rparr>,
     metadata_items = md, payload = pl\<rparr>"
  using assms decode_frame_image [of _ md pl "length pl" kind flags sq ts sh "crc pl" rest]
  by (auto simp: encode_frame_def encode_frame_header_Ok_iff isize_max_def usize_max_def)

theorem frame_round_trip_witness:
  "\<exists>bs. encode_frame (\<lambda>_. 7) Bytes 3 42 1000 99 [\<lparr>ty = 1, val = [1, 2]\<rparr>] [104, 105] = Ok bs \<and>
     decode_frame (bs @ [255]) = Ok
       \<lparr>header = \<lparr>hdr_flags = 3, hdr_kind = Bytes, hdr_header_len = 58, hdr_payload_len = 2,
          hdr_seq = 42, hdr_timestamp_ns = 1000, hdr_schema_hash = 99, hdr_checksum = 7\<rparr>,
        metadata_items = [\<lparr>ty = 1, val = [1, 2]\<rparr>], payload = [104, 105]\<rparr>"
proof -
  obtain bs where "encode_frame (\<lambda>_. 7) Bytes 3 42 1000 99 [\<lparr>ty = 1, val = [1, 2]\<rparr>] [104, 105] = Ok bs"
    by (simp add: encode_frame_def encode_frame_header_Ok_iff FRAME_HEADER_LEN_def)
  with frame_round_trip [OF this, of "[255]"] show ?thesis
    by (simp add: isize_max_def FRAME_HEADER_LEN_def)
qed



section \<open>The decoder is total\<close>

lemma decode_frame_not_Panicked: "decode_frame bs \<noteq> Panicked"
proof
  assume "decode_frame bs = Panicked"
  then obtain h tot where hdr: "decode_frame_header bs = Ok (h, tot)"
    and fits: "unat (hdr_header_len h) \<le> length bs"
      "unat (hdr_payload_len h) \<le> length bs - unat (hdr_header_len h)"
    and bad: "decode_metadata bs (unat (hdr_header_len h)) FRAME_HEADER_LEN = Panicked"
    by (auto simp: decode_frame_def Let_def index_range_def decode_frame_header_not_Panicked
        split: if_splits prod.splits)
  from decode_metadata_not_Panicked [OF fits(1)] bad show False by blast
qed

lemma decode_metadata_not_Diverged: "decode_metadata bs hl off \<noteq> Diverged"
proof (induction bs hl off rule: decode_metadata.induct)
  case (1 bs hl off)
  then show ?case
    by (subst decode_metadata.simps)
      (auto simp: TLV_HEADER_LEN_def Let_def read_u16_def read_u32_def index_range_def
        split: option.splits)
qed

lemma decode_frame_header_not_Diverged: "decode_frame_header bs \<noteq> Diverged"
  by (simp add: decode_frame_header_def read_u16_def read_u32_def read_u64_def kind_try_from_def)

lemma decode_frame_not_Diverged: "decode_frame bs \<noteq> Diverged"
  by (auto simp: decode_frame_def Let_def decode_metadata_not_Diverged decode_frame_header_not_Diverged
      split: prod.splits)

text \<open>Claim C23: \<open>decode_frame\<close> is total: on any byte string, of any length, every index and slice it
  takes is in range and its metadata loop ends, so a malformed frame is always an \<open>Err\<close>.\<close>

theorem decode_frame_total:
  "case decode_frame bs of Ok f \<Rightarrow> True | Err e \<Rightarrow> True | Panicked \<Rightarrow> False | Diverged \<Rightarrow> False"
  using decode_frame_not_Panicked [of bs] decode_frame_not_Diverged [of bs]
  by (simp split: outcome.split)

end
