(* ===== verification/Channel_Contract.thy ===== *)
theory Channel_Contract
  imports Errors
begin

text \<open>
  What every byte channel of the repository promises its caller, stated once: a send that finds
  room appends its message, a receive takes the oldest one. The locale \<open>fifo_channel\<close> derives from
  the two laws what a client sees over a whole run of sends and receives; the channel theories
  interpret it on their own operations.
\<close>

section \<open>Runs of a channel\<close>

datatype chan_op = SendOp bytes | RecvOp

text \<open>The messages received during a run, and the state it ends in.\<close>

fun run_channel ::
  "(bytes \<Rightarrow> ('s, dsline_error, unit) action) \<Rightarrow> ('s, dsline_error, bytes) action \<Rightarrow>
   chan_op list \<Rightarrow> 's \<Rightarrow> bytes list \<times> 's" where
  "run_channel send recv [] s = ([], s)"
| "run_channel send recv (SendOp m # ops) s = run_channel send recv ops (snd (send m s))"
| "run_channel send recv (RecvOp # ops) s =
     (case recv s of
        (Ok m, s') \<Rightarrow> (let (got, t) = run_channel send recv ops s' in (m # got, t))
      | (_, s') \<Rightarrow> run_channel send recv ops s')"

fun sent_messages :: "chan_op list \<Rightarrow> bytes list" where
  "sent_messages [] = []"
| "sent_messages (SendOp m # ops) = m # sent_messages ops"
| "sent_messages (RecvOp # ops) = sent_messages ops"

text \<open>Every send of the run finds room at its moment.\<close>

fun sends_fit ::
  "(bytes \<Rightarrow> ('s, dsline_error, unit) action) \<Rightarrow> ('s, dsline_error, bytes) action \<Rightarrow>
   ('s \<Rightarrow> bytes \<Rightarrow> bool) \<Rightarrow> chan_op list \<Rightarrow> 's \<Rightarrow> bool" where
  "sends_fit send recv room [] s = True"
| "sends_fit send recv room (SendOp m # ops) s =
     (room s m \<and> sends_fit send recv room ops (snd (send m s)))"
| "sends_fit send recv room (RecvOp # ops) s = sends_fit send recv room ops (snd (recv s))"

section \<open>The contract\<close>

locale fifo_channel =
  fixes send :: "bytes \<Rightarrow> ('s, dsline_error, unit) action"
    and recv :: "('s, dsline_error, bytes) action"
    and inv :: "'s \<Rightarrow> bool"
    and queued :: "'s \<Rightarrow> bytes list"
    and room :: "'s \<Rightarrow> bytes \<Rightarrow> bool"
  assumes send_room: "inv s \<Longrightarrow> room s m \<Longrightarrow>
      \<exists>t. send m s = (Ok (), t) \<and> inv t \<and> queued t = queued s @ [m]"
    and recv_head: "inv s \<Longrightarrow> queued s = m # ms \<Longrightarrow>
      \<exists>t. recv s = (Ok m, t) \<and> inv t \<and> queued t = ms"
    and recv_none: "inv s \<Longrightarrow> queued s = [] \<Longrightarrow>
      \<exists>e t. recv s = (Err e, t) \<and> inv t \<and> queued t = []"
begin

text \<open>First in, first out: over any run the received messages, followed by those still queued,
  are the messages queued at the start followed by those sent, in order and each exactly once.\<close>

lemma run_fifo:
  assumes "inv s" and "sends_fit send recv room ops s" and "run_channel send recv ops s = (got, t)"
  shows "inv t \<and> got @ queued t = queued s @ sent_messages ops"
  using assms
proof (induction ops arbitrary: s got t)
  case Nil
  then show ?case by simp
next
  case (Cons op ops)
  show ?case
  proof (cases op)
    case (SendOp m)
    with Cons.prems(1,2) obtain u where "send m s = (Ok (), u)" "inv u" "queued u = queued s @ [m]"
      using send_room by force
    with Cons SendOp show ?thesis by simp
  next
    case RecvOp
    show ?thesis
    proof (cases "queued s")
      case Nil
      with Cons.prems(1) obtain e u where "recv s = (Err e, u)" "inv u" "queued u = []"
        using recv_none by blast
      with Cons RecvOp Nil show ?thesis by simp
    next
      case (Cons m ms)
      with Cons.prems(1) obtain u where u: "recv s = (Ok m, u)" "inv u" "queued u = ms"
        using recv_head by blast
      obtain got' where "run_channel send recv ops u = (got', t)" "got = m # got'"
        using Cons.prems(3) RecvOp u(1) by (auto split: prod.splits)
      with Cons.IH [of u got' t] Cons.prems(2) RecvOp u local.Cons show ?thesis by simp
    qed
  qed
qed

text \<open>Receiving as many times as there are queued messages drains the channel in order.\<close>

lemma drain:
  assumes "inv s" and "queued s = ms"
  shows "\<exists>t. run_channel send recv (replicate (length ms) RecvOp) s = (ms, t) \<and> inv t \<and> queued t = []"
  using assms
proof (induction ms arbitrary: s)
  case Nil
  then show ?case by simp
next
  case (Cons m ms)
  then obtain u where "recv s = (Ok m, u)" "inv u" "queued u = ms"
    using recv_head by blast
  with Cons.IH [of u] show ?case by auto
qed

end

end
