(* ===== verification/Spsc_Ring.thy ===== *)
theory Spsc_Ring
  imports Frame Channel_Contract
begin

text \<open>
  The in-process prototype ring of \<open>crates/dsline-core/src/spsc.rs\<close>: the channel configuration
  and \<open>SpscBytesRing\<close>, a bounded queue of encoded frames with the four backpressure policies.

  \<open>wait_for_space\<close> polls until a deadline; \<open>polls\<close> is the number of turns the clock grants
  before \<open>Instant::now() < deadline\<close> fails. The wait holds the ring exclusively, so the queue it
  polls cannot change.
\<close>

section \<open>Configuration\<close>

datatype backpressure = Block | Raise | DropNewest | DropOldest

record spsc_config =
  capacity :: usize
  slot_size :: usize
  backpressure :: backpressure
  timeout :: "nat option"
  multi_producer :: bool

definition validate_config :: "spsc_config \<Rightarrow> unit result" where
  "validate_config cfg =
     (if capacity cfg = 0 then ChanErr (InvalidConfig ''capacity must be greater than zero'')
      else if slot_size cfg = 0 then ChanErr (InvalidConfig ''slot_size must be greater than zero'')
      else Ok ())"

lemma validate_config_Ok [simp]: "validate_config cfg = Ok u \<longleftrightarrow> 0 < capacity cfg \<and> 0 < slot_size cfg"
  by (auto simp: validate_config_def)

section \<open>The ring\<close>

record ring_slot =
  slot_frame :: bytes

record spsc_ring =
  ring_config :: spsc_config
  queue :: "ring_slot list"
  ring_next_seq :: u64
  ring_closed :: bool

text \<open>\<open>VecDeque::with_capacity\<close> panics when the request exceeds \<open>isize::MAX\<close> bytes; a slot holds
  one \<open>Vec\<close>, 24 bytes.\<close>

definition ring_new :: "spsc_config \<Rightarrow> spsc_ring result" where
  "ring_new cfg =
     and_then (validate_config cfg) (\<lambda>_.
     if capacity cfg * 24 > isize_max then Panicked
     else Ok \<lparr>ring_config = cfg, queue = [], ring_next_seq = 0, ring_closed = False\<rparr>)"

fun ring_poll :: "nat \<Rightarrow> spsc_ring \<Rightarrow> unit result" where
  "ring_poll 0 r = ChanErr BufferFull"
| "ring_poll (Suc polls) r =
     (if length (queue r) < capacity (ring_config r) then Ok () else ring_poll polls r)"

definition ring_wait_for_space :: "nat \<Rightarrow> spsc_ring \<Rightarrow> unit result" where
  "ring_wait_for_space polls r =
     (if length (queue r) < capacity (ring_config r) then Ok ()
      else case timeout (ring_config r) of
        None \<Rightarrow> ChanErr BufferFull
      | Some _ \<Rightarrow> ring_poll polls r)"

definition ring_send ::
  "(bytes \<Rightarrow> u32) \<Rightarrow> nat \<Rightarrow> bytes \<Rightarrow> (spsc_ring, dsline_error, unit) action" where
  "ring_send crc polls m =
     bind (gets ring_closed) (\<lambda>is_closed.
     if is_closed then fail (Channel Closed) else
     bind (gets ring_config) (\<lambda>cfg.
     if length m > slot_size cfg then
       fail (Channel (MessageTooLarge (length m) (slot_size cfg))) else
     bind (gets (\<lambda>r. length (queue r))) (\<lambda>depth.
     bind (if depth = capacity cfg then
             (case backpressure cfg of
                Raise \<Rightarrow> fail (Channel BufferFull)
              | Block \<Rightarrow> seq (reads (ring_wait_for_space polls)) (return True)
              | DropNewest \<Rightarrow> return False
              | DropOldest \<Rightarrow> seq (modify (\<lambda>r. r\<lparr>queue := tl (queue r)\<rparr>)) (return True))
           else return True) (\<lambda>admitted.
     if \<not> admitted then return () else
     bind (gets ring_next_seq) (\<lambda>sq.
     seq (modify (\<lambda>r. r\<lparr>ring_next_seq := sq + 1\<rparr>))
     (bind (lift (encode_frame crc Bytes 0 sq 0 0 [] m)) (\<lambda>f.
     modify (\<lambda>r. r\<lparr>queue := queue r @ [\<lparr>slot_frame = f\<rparr>]\<rparr>))))))))"

definition ring_recv :: "(bytes \<Rightarrow> u32) \<Rightarrow> (spsc_ring, dsline_error, bytes) action" where
  "ring_recv crc =
     bind (gets (\<lambda>r. ring_closed r \<and> queue r = [])) (\<lambda>drained.
     if drained then fail (Channel Closed) else
     bind (gets queue) (\<lambda>q.
     case q of
       [] \<Rightarrow> fail (Channel BufferEmpty)
     | slot # q' \<Rightarrow>
         seq (modify (\<lambda>r. r\<lparr>queue := q'\<rparr>))
         (bind (lift (decode_frame (slot_frame slot))) (\<lambda>f.
          if hdr_kind (header f) \<noteq> Bytes \<or> crc (payload f) \<noteq> hdr_checksum (header f)
          then fail (Channel CorruptedMessage)
          else return (payload f)))))"

definition ring_close :: "spsc_ring \<Rightarrow> spsc_ring" where
  "ring_close r = r\<lparr>ring_closed := True\<rparr>"

definition ring_is_closed :: "spsc_ring \<Rightarrow> bool" where
  "ring_is_closed r = ring_closed r"

definition ring_len :: "spsc_ring \<Rightarrow> usize" where
  "ring_len r = length (queue r)"

definition ring_is_empty :: "spsc_ring \<Rightarrow> bool" where
  "ring_is_empty r = (queue r = [])"

definition ring_capacity :: "spsc_ring \<Rightarrow> usize" where
  "ring_capacity r = capacity (ring_config r)"

section \<open>Specification: a bounded queue of messages\<close>

record fifo =
  msgs :: "bytes list"
  bound :: nat
  max_len :: nat
  policy :: backpressure
  shut :: bool

definition fifo_send :: "bytes \<Rightarrow> (fifo, dsline_error, unit) action" where
  "fifo_send m q =
     (if shut q then (ChanErr Closed, q)
      else if max_len q < length m then (ChanErr (MessageTooLarge (length m) (max_len q)), q)
      else if length (msgs q) < bound q then (Ok (), q\<lparr>msgs := msgs q @ [m]\<rparr>)
      else case policy q of
        Block \<Rightarrow> (ChanErr BufferFull, q)
      | Raise \<Rightarrow> (ChanErr BufferFull, q)
      | DropNewest \<Rightarrow> (Ok (), q)
      | DropOldest \<Rightarrow> (Ok (), q\<lparr>msgs := tl (msgs q) @ [m]\<rparr>))"

definition fifo_recv :: "(fifo, dsline_error, bytes) action" where
  "fifo_recv q =
     (case msgs q of
        [] \<Rightarrow> (ChanErr (if shut q then Closed else BufferEmpty), q)
      | m # ms \<Rightarrow> (Ok m, q\<lparr>msgs := ms\<rparr>))"

text \<open>The messages a ring holds, and the rings the operations build.\<close>

definition slot_message :: "ring_slot \<Rightarrow> bytes" where
  "slot_message s = (case decode_frame (slot_frame s) of Ok f \<Rightarrow> payload f | _ \<Rightarrow> [])"

definition ring_abs :: "spsc_ring \<Rightarrow> fifo" where
  "ring_abs r = \<lparr>msgs = map slot_message (queue r), bound = capacity (ring_config r),
     max_len = slot_size (ring_config r), policy = backpressure (ring_config r), shut = ring_closed r\<rparr>"

definition slot_encodes :: "(bytes \<Rightarrow> u32) \<Rightarrow> ring_slot \<Rightarrow> bool" where
  "slot_encodes crc s \<longleftrightarrow> (\<exists>sq m. encode_frame crc Bytes 0 sq 0 0 [] m = Ok (slot_frame s) \<and>
     length m \<le> isize_max)"

definition ring_inv :: "(bytes \<Rightarrow> u32) \<Rightarrow> spsc_ring \<Rightarrow> bool" where
  "ring_inv crc r \<longleftrightarrow> 0 < capacity (ring_config r) \<and> length (queue r) \<le> capacity (ring_config r) \<and>
     (\<forall>s \<in> set (queue r). slot_encodes crc s)"

section \<open>Lemmas\<close>

text \<open>A frame without metadata, as the send paths build it for a single-slot message.\<close>

lemma encode_plain:
  assumes "length m \<le> isize_max"
  obtains f where "encode_frame crc Bytes 0 sq 0 0 [] m = Ok f"
    and "length f = FRAME_HEADER_LEN + length m"
    and "decode_frame f = Ok \<lparr>header = \<lparr>hdr_flags = 0, hdr_kind = Bytes,
        hdr_header_len = word_of_nat FRAME_HEADER_LEN, hdr_payload_len = word_of_nat (length m),
        hdr_seq = sq, hdr_timestamp_ns = 0, hdr_schema_hash = 0, hdr_checksum = crc m\<rparr>,
        metadata_items = [], payload = m\<rparr>"
proof
  let ?f = "header_image Bytes 0 sq 0 0 (crc m) FRAME_HEADER_LEN (length m) @ m"
  show "encode_frame crc Bytes 0 sq 0 0 [] m = Ok ?f"
    using assms by (simp add: encode_frame_def encode_frame_header_no_metadata isize_max_def)
  show "length ?f = FRAME_HEADER_LEN + length m" by simp
  have "decode_frame (header_image Bytes 0 sq 0 0 (crc m) FRAME_HEADER_LEN (length m)
      @ encode_metadata [] @ m @ []) = Ok \<lparr>header = \<lparr>hdr_flags = 0, hdr_kind = Bytes,
        hdr_header_len = word_of_nat FRAME_HEADER_LEN, hdr_payload_len = word_of_nat (length m),
        hdr_seq = sq, hdr_timestamp_ns = 0, hdr_schema_hash = 0, hdr_checksum = crc m\<rparr>,
        metadata_items = [], payload = m\<rparr>"
    using assms by (intro decode_frame_image) (simp_all add: FRAME_HEADER_LEN_def isize_max_def usize_max_def)
  then show "decode_frame ?f = Ok \<lparr>header = \<lparr>hdr_flags = 0, hdr_kind = Bytes,
        hdr_header_len = word_of_nat FRAME_HEADER_LEN, hdr_payload_len = word_of_nat (length m),
        hdr_seq = sq, hdr_timestamp_ns = 0, hdr_schema_hash = 0, hdr_checksum = crc m\<rparr>,
        metadata_items = [], payload = m\<rparr>" by simp
qed

lemma slot_encodes_decodes:
  assumes "slot_encodes crc s"
  obtains f where "decode_frame (slot_frame s) = Ok f" "hdr_kind (header f) = Bytes"
    "crc (payload f) = hdr_checksum (header f)" "slot_message s = payload f"
proof -
  from assms obtain sq m where enc: "encode_frame crc Bytes 0 sq 0 0 [] m = Ok (slot_frame s)"
    and "length m \<le> isize_max" by (auto simp: slot_encodes_def)
  then obtain f where "encode_frame crc Bytes 0 sq 0 0 [] m = Ok f" and dec: "decode_frame f = Ok
      \<lparr>header = \<lparr>hdr_flags = 0, hdr_kind = Bytes,
        hdr_header_len = word_of_nat FRAME_HEADER_LEN, hdr_payload_len = word_of_nat (length m),
        hdr_seq = sq, hdr_timestamp_ns = 0, hdr_schema_hash = 0, hdr_checksum = crc m\<rparr>,
        metadata_items = [], payload = m\<rparr>"
    using encode_plain by metis
  with enc that show thesis by (simp add: slot_message_def)
qed

lemma ring_poll_full:
  "length (queue r) = capacity (ring_config r) \<Longrightarrow> ring_poll polls r = ChanErr BufferFull"
  by (induction polls) auto

lemma ring_wait_full:
  "length (queue r) = capacity (ring_config r) \<Longrightarrow> ring_wait_for_space polls r = ChanErr BufferFull"
  by (simp add: ring_wait_for_space_def ring_poll_full split: option.split)

text \<open>What a send does once it is admitted with a queue that has room.\<close>

lemma ring_push:
  assumes "length m \<le> isize_max"
  obtains f where "encode_frame crc Bytes 0 sq 0 0 [] m = Ok f" "slot_encodes crc \<lparr>slot_frame = f\<rparr>"
    "slot_message \<lparr>slot_frame = f\<rparr> = m"
proof -
  from encode_plain [OF assms, of crc sq] obtain f where "encode_frame crc Bytes 0 sq 0 0 [] m = Ok f"
    "decode_frame f = Ok \<lparr>header = \<lparr>hdr_flags = 0, hdr_kind = Bytes,
        hdr_header_len = word_of_nat FRAME_HEADER_LEN, hdr_payload_len = word_of_nat (length m),
        hdr_seq = sq, hdr_timestamp_ns = 0, hdr_schema_hash = 0, hdr_checksum = crc m\<rparr>,
        metadata_items = [], payload = m\<rparr>" .
  with assms that show thesis by (auto simp: slot_encodes_def slot_message_def)
qed

lemma ring_send_refines_fifo:
  assumes inv: "ring_inv crc r" and len: "length m \<le> isize_max"
    and run: "ring_send crc polls m r = (res, r')"
  shows "ring_inv crc r' \<and> fifo_send m (ring_abs r) = (res, ring_abs r')"
proof -
  obtain f where f: "encode_frame crc Bytes 0 (ring_next_seq r) 0 0 [] m = Ok f"
    "slot_encodes crc \<lparr>slot_frame = f\<rparr>" "slot_message \<lparr>slot_frame = f\<rparr> = m"
    using ring_push [OF len] by metis
  consider "ring_closed r" | "\<not> ring_closed r" "slot_size (ring_config r) < length m"
    | "\<not> ring_closed r" "length m \<le> slot_size (ring_config r)" "length (queue r) < capacity (ring_config r)"
    | "\<not> ring_closed r" "length m \<le> slot_size (ring_config r)" "length (queue r) = capacity (ring_config r)"
    using inv by (force simp: ring_inv_def)
  then show ?thesis
  proof cases
    case 4
    obtain s q where q: "queue r = s # q" using 4 inv by (cases "queue r") (auto simp: ring_inv_def)
    show ?thesis
      using 4 inv run f q ring_wait_full [of r polls]
      by (cases "backpressure (ring_config r)")
        (auto simp: ring_send_def fifo_send_def ring_abs_def ring_inv_def)
  qed (use inv run f in \<open>auto simp: ring_send_def fifo_send_def ring_abs_def ring_inv_def\<close>)
qed

lemma ring_recv_refines_fifo:
  assumes inv: "ring_inv crc r" and run: "ring_recv crc r = (res, r')"
  shows "ring_inv crc r' \<and> fifo_recv (ring_abs r) = (res, ring_abs r')"
proof (cases "queue r")
  case Nil
  with assms show ?thesis by (auto simp: ring_recv_def fifo_recv_def ring_abs_def ring_inv_def)
next
  case (Cons s q)
  with inv obtain f where "decode_frame (slot_frame s) = Ok f" "hdr_kind (header f) = Bytes"
    "crc (payload f) = hdr_checksum (header f)" "slot_message s = payload f"
    by (auto simp: ring_inv_def elim: slot_encodes_decodes)
  with Cons assms show ?thesis by (auto simp: ring_recv_def fifo_recv_def ring_abs_def ring_inv_def)
qed

section \<open>The ring is a FIFO channel\<close>

interpretation ring: fifo_channel "ring_send crc polls" "ring_recv crc" "ring_inv crc"
  "\<lambda>r. map slot_message (queue r)"
  "\<lambda>r m. \<not> ring_closed r \<and> length m \<le> slot_size (ring_config r) \<and> length m \<le> isize_max \<and>
     length (queue r) < capacity (ring_config r)"
  for crc polls
proof
  fix r :: spsc_ring and m :: bytes
  assume inv: "ring_inv crc r" and room: "\<not> ring_closed r \<and> length m \<le> slot_size (ring_config r) \<and>
    length m \<le> isize_max \<and> length (queue r) < capacity (ring_config r)"
  obtain res t where run: "ring_send crc polls m r = (res, t)" by force
  from ring_send_refines_fifo [OF inv _ run] room
  show "\<exists>t. ring_send crc polls m r = (Ok (), t) \<and> ring_inv crc t \<and>
      map slot_message (queue t) = map slot_message (queue r) @ [m]"
    by (auto simp: run fifo_send_def ring_abs_def)
next
  fix r :: spsc_ring and m :: bytes and ms
  assume inv: "ring_inv crc r" and head: "map slot_message (queue r) = m # ms"
  obtain res t where run: "ring_recv crc r = (res, t)" by force
  from ring_recv_refines_fifo [OF inv run] head
  show "\<exists>t. ring_recv crc r = (Ok m, t) \<and> ring_inv crc t \<and> map slot_message (queue t) = ms"
    by (auto simp: run fifo_recv_def ring_abs_def)
next
  fix r :: spsc_ring
  assume inv: "ring_inv crc r" and empty: "map slot_message (queue r) = []"
  obtain res t where run: "ring_recv crc r = (res, t)" by force
  from ring_recv_refines_fifo [OF inv run] empty
  show "\<exists>e t. ring_recv crc r = (Err e, t) \<and> ring_inv crc t \<and> map slot_message (queue t) = []"
    by (auto simp: run fifo_recv_def ring_abs_def)
qed

section \<open>What the ring promises\<close>

text \<open>Claim C24: the prototype ring implements its specification: on every ring whose queue holds
  encoded messages and does not exceed its capacity, each send, with any backpressure policy and
  any number of clock turns, and each receive return what the bounded queue of messages returns
  and leave a ring that stands for the queue it leaves, error results included.\<close>

theorem ring_refines_fifo:
  assumes "ring_inv crc r" and "length m \<le> isize_max"
  shows "fifo_send m (ring_abs r) = map_prod id ring_abs (ring_send crc polls m r) \<and>
    fifo_recv (ring_abs r) = map_prod id ring_abs (ring_recv crc r) \<and>
    ring_inv crc (snd (ring_send crc polls m r)) \<and> ring_inv crc (snd (ring_recv crc r))"
  using ring_send_refines_fifo [OF assms, of polls] ring_recv_refines_fifo [OF assms(1)]
  by (metis id_apply map_prod_simp prod.collapse)

theorem ring_refines_fifo_witness:
  "let r = \<lparr>ring_config = \<lparr>capacity = 2, slot_size = 8, backpressure = DropOldest, timeout = None,
        multi_producer = False\<rparr>, queue = [], ring_next_seq = 5, ring_closed = False\<rparr>
   in fifo_send [1, 2, 3] (ring_abs r) = map_prod id ring_abs (ring_send (\<lambda>_. 7) 0 [1, 2, 3] r)"
  using ring_refines_fifo [of "\<lambda>_. 7" "\<lparr>ring_config = \<lparr>capacity = 2, slot_size = 8,
        backpressure = DropOldest, timeout = None, multi_producer = False\<rparr>, queue = [],
        ring_next_seq = 5, ring_closed = False\<rparr>" "[1, 2, 3]" 0]
  by (simp add: ring_inv_def isize_max_def)

end
