(* ===== verification/Chunking.thy ===== *)
theory Chunking
  imports Spsc_Ring
begin

text \<open>
  Variable-length messages over fixed slots, the first part of \<open>crates/dsline-shm/src/lib.rs\<close>:
  the send plan and the size limits, the chunk metadata and flags, the encoding of a message
  into frames and the validation of a received chunk.
\<close>

section \<open>Plans and limits\<close>

record chunk_info =
  ci_index :: usize
  ci_total :: usize
  ci_message_len :: usize

record send_plan =
  chunk_payload_size :: usize
  needed_slots :: usize

record message_size_limits =
  lim_slot_size :: usize
  lim_chunk_metadata_size :: usize
  lim_chunk_payload_size :: usize
  lim_max_message_size :: usize

definition message_size_limits :: "spsc_config \<Rightarrow> message_size_limits" where
  "message_size_limits cfg =
     (let chunk = (case checked_sub (slot_size cfg) CHUNK_METADATA_LEN of None \<Rightarrow> 0 | Some v \<Rightarrow> v);
          max_size = (case checked_mul (capacity cfg) chunk of
              None \<Rightarrow> slot_size cfg
            | Some chunked_size \<Rightarrow> max chunked_size (slot_size cfg))
      in \<lparr>lim_slot_size = slot_size cfg, lim_chunk_metadata_size = CHUNK_METADATA_LEN,
          lim_chunk_payload_size = chunk, lim_max_message_size = max_size\<rparr>)"

definition max_message_size :: "spsc_config \<Rightarrow> usize" where
  "max_message_size cfg = lim_max_message_size (message_size_limits cfg)"

definition send_plan_of :: "spsc_config \<Rightarrow> usize \<Rightarrow> send_plan result" where
  "send_plan_of cfg len =
     (if len \<le> slot_size cfg then Ok \<lparr>chunk_payload_size = slot_size cfg, needed_slots = 1\<rparr>
      else case checked_sub (slot_size cfg) CHUNK_METADATA_LEN of
        None \<Rightarrow> ChanErr (MessageTooLarge len (max_message_size cfg))
      | Some chunk \<Rightarrow>
          if chunk = 0 then ChanErr (MessageTooLarge len (max_message_size cfg))
          else
          and_then (ok_or (checked_add len (chunk - 1)) (Channel (InvalidConfig ''message size overflow''))) (\<lambda>padded.
          let needed = padded div chunk in
          and_then (ok_or (checked_mul (capacity cfg) chunk) (Channel (InvalidConfig ''message size overflow''))) (\<lambda>max_chunked.
          if needed > capacity cfg \<or> len > max_chunked then
            ChanErr (MessageTooLarge len (max_message_size cfg))
          else Ok \<lparr>chunk_payload_size = chunk, needed_slots = needed\<rparr>)))"

section \<open>Chunk metadata\<close>

definition usize_to_u64_bytes :: "usize \<Rightarrow> bytes result" where
  "usize_to_u64_bytes v =
     (if v < 2 ^ 64 then Ok (to_le64 (word_of_nat v))
      else ChanErr (InvalidConfig ''chunk metadata overflow''))"

definition chunk_metadata :: "usize \<Rightarrow> usize \<Rightarrow> usize \<Rightarrow> metadata list result" where
  "chunk_metadata index tot message_len =
     and_then (usize_to_u64_bytes index) (\<lambda>a.
     and_then (usize_to_u64_bytes tot) (\<lambda>b.
     and_then (usize_to_u64_bytes message_len) (\<lambda>c.
     Ok [Metadata_new TLV_CHUNK_INDEX a, Metadata_new TLV_CHUNK_TOTAL b,
         Metadata_new TLV_CHUNK_MESSAGE_LEN c])))"

definition chunk_flags :: "usize \<Rightarrow> usize \<Rightarrow> u16" where
  "chunk_flags index tot =
     (let flags = FRAME_FLAG_CHUNKED;
          flags = (if index = 0 then flags OR FRAME_FLAG_CHUNK_START else flags)
      in if index + 1 = tot then flags OR FRAME_FLAG_CHUNK_END else flags)"

definition metadata_usize :: "frame \<Rightarrow> u16 \<Rightarrow> usize result" where
  "metadata_usize f t =
     and_then (ok_or (find (\<lambda>item. ty item = t) (metadata_items f)) (Channel CorruptedMessage)) (\<lambda>item.
     if length (val item) \<noteq> 8 then ChanErr CorruptedMessage
     else Ok (unat (from_le64 (val item))))"

definition chunk_info_of :: "frame \<Rightarrow> chunk_info result" where
  "chunk_info_of f =
     and_then (metadata_usize f TLV_CHUNK_INDEX) (\<lambda>index.
     and_then (metadata_usize f TLV_CHUNK_TOTAL) (\<lambda>tot.
     and_then (metadata_usize f TLV_CHUNK_MESSAGE_LEN) (\<lambda>message_len.
     if tot = 0 \<or> index \<ge> tot then ChanErr CorruptedMessage
     else Ok \<lparr>ci_index = index, ci_total = tot, ci_message_len = message_len\<rparr>)))"

definition validate_bytes_frame :: "(bytes \<Rightarrow> u32) \<Rightarrow> frame \<Rightarrow> unit result" where
  "validate_bytes_frame crc f =
     (if hdr_kind (header f) \<noteq> Bytes \<or> crc (payload f) \<noteq> hdr_checksum (header f)
      then ChanErr CorruptedMessage else Ok ())"

definition is_chunked :: "frame \<Rightarrow> bool" where
  "is_chunked f \<longleftrightarrow> hdr_flags (header f) AND FRAME_FLAG_CHUNKED \<noteq> 0"

definition sequence_precedes :: "u64 \<Rightarrow> u64 \<Rightarrow> bool" where
  "sequence_precedes left right \<longleftrightarrow> left \<noteq> right \<and> right - left < 0x8000000000000000"

definition validate_chunk :: "(bytes \<Rightarrow> u32) \<Rightarrow> frame \<Rightarrow> u64 \<Rightarrow> chunk_info \<Rightarrow> unit result" where
  "validate_chunk crc f sq expected =
     and_then (validate_bytes_frame crc f) (\<lambda>_.
     if hdr_seq (header f) \<noteq> sq \<or> \<not> is_chunked f then ChanErr CorruptedMessage
     else
     and_then (chunk_info_of f) (\<lambda>info.
     if info \<noteq> expected then ChanErr CorruptedMessage
     else
     let has_start = (hdr_flags (header f) AND FRAME_FLAG_CHUNK_START \<noteq> 0);
         has_end = (hdr_flags (header f) AND FRAME_FLAG_CHUNK_END \<noteq> 0) in
     if has_start \<noteq> (ci_index info = 0) \<or> has_end \<noteq> (ci_index info + 1 = ci_total info)
     then ChanErr CorruptedMessage else Ok ()))"

section \<open>Encoding a message\<close>

text \<open>\<open>slice::chunks\<close>; a chunk size of zero panics, which the caller's equation says.\<close>

function chunks_of :: "nat \<Rightarrow> 'a list \<Rightarrow> 'a list list" where
  "chunks_of n xs = (if xs = [] \<or> n = 0 then [] else take n xs # chunks_of n (drop n xs))"
  by pat_completeness auto
termination
  by (relation "measure (\<lambda>(n, xs). length xs)") auto

declare chunks_of.simps [simp del]

fun encode_chunks ::
  "(bytes \<Rightarrow> u32) \<Rightarrow> usize \<Rightarrow> u64 \<Rightarrow> usize \<Rightarrow> usize \<Rightarrow> bytes list \<Rightarrow> bytes list result" where
  "encode_chunks crc needed sq message_len index [] = Ok []"
| "encode_chunks crc needed sq message_len index (chunk # chunks) =
     and_then (chunk_metadata index needed message_len) (\<lambda>metadata.
     and_then (encode_frame crc Bytes (chunk_flags index needed) sq 0 0 metadata chunk) (\<lambda>f.
     and_then (encode_chunks crc needed sq message_len (index + 1) chunks) (\<lambda>fs.
     Ok (f # fs))))"

definition encode_message_frames ::
  "(bytes \<Rightarrow> u32) \<Rightarrow> spsc_config \<Rightarrow> send_plan \<Rightarrow> u64 \<Rightarrow> bytes \<Rightarrow> bytes list result" where
  "encode_message_frames crc cfg plan sq m =
     (if needed_slots plan = 1 then
        and_then (encode_frame crc Bytes 0 sq 0 0 [] m) (\<lambda>f. Ok [f])
      else if chunk_payload_size plan = 0 then Panicked
      else
     and_then (encode_chunks crc (needed_slots plan) sq (length m) 0
                 (chunks_of (chunk_payload_size plan) m)) (\<lambda>frames.
     if length frames \<noteq> needed_slots plan then ChanErr (InvalidConfig ''chunk plan mismatch'')
     else if \<exists>f \<in> set frames. length f > slot_size cfg + FRAME_HEADER_LEN then
       ChanErr (InvalidConfig ''chunk frame exceeds slot size'')
     else Ok frames))"

section \<open>Plans fit the ring\<close>

lemma send_plan_Ok:
  assumes "send_plan_of cfg len = Ok plan" and "0 < capacity cfg"
  obtains (single) "len \<le> slot_size cfg" "plan = \<lparr>chunk_payload_size = slot_size cfg, needed_slots = 1\<rparr>"
  | (chunked) c where "slot_size cfg < len" "slot_size cfg = CHUNK_METADATA_LEN + c" "0 < c"
      "plan = \<lparr>chunk_payload_size = c, needed_slots = (len + (c - 1)) div c\<rparr>"
      "(len + (c - 1)) div c \<le> capacity cfg" "len \<le> usize_max"
proof (cases "len \<le> slot_size cfg")
  case True
  with assms single show thesis by (simp add: send_plan_of_def)
next
  case False
  with assms obtain c where c: "checked_sub (slot_size cfg) CHUNK_METADATA_LEN = Some c"
    by (cases "checked_sub (slot_size cfg) CHUNK_METADATA_LEN") (auto simp: send_plan_of_def)
  then have size: "slot_size cfg = CHUNK_METADATA_LEN + c" by auto
  have "0 < c" "plan = \<lparr>chunk_payload_size = c, needed_slots = (len + (c - 1)) div c\<rparr>"
    "(len + (c - 1)) div c \<le> capacity cfg" "len \<le> usize_max"
    using assms False c by (auto simp: send_plan_of_def Let_def simp del: checked_eq_Some(3) split: if_splits)
  with False size chunked show thesis by simp
qed

lemma needed_slots_bounds:
  assumes "send_plan_of cfg len = Ok plan" and "0 < capacity cfg"
  shows "1 \<le> needed_slots plan" "needed_slots plan \<le> capacity cfg"
proof -
  have "1 \<le> needed_slots plan \<and> needed_slots plan \<le> capacity cfg"
    using assms
  proof (cases rule: send_plan_Ok)
    case (chunked c)
    have "c div c \<le> (len + (c - 1)) div c" using chunked by (intro div_le_mono) linarith
    with chunked show ?thesis by simp
  qed (use assms in simp)
  then show "1 \<le> needed_slots plan" "needed_slots plan \<le> capacity cfg" by simp_all
qed

section \<open>Chunks of a message\<close>

lemma chunks_of_Nil [simp]: "chunks_of n [] = []"
  by (simp add: chunks_of.simps)

lemma length_chunks_of: "0 < n \<Longrightarrow> length (chunks_of n xs) = (length xs + (n - 1)) div n"
proof (induction n xs rule: chunks_of.induct)
  case (1 n xs)
  show ?case
  proof (cases "xs = []")
    case True
    with "1.prems" show ?thesis by simp
  next
    case False
    have "length (chunks_of n xs) = Suc ((length (drop n xs) + (n - 1)) div n)"
      using "1.IH" False "1.prems" by (simp add: chunks_of.simps [of n xs])
    also have "\<dots> = (length xs + (n - 1)) div n"
    proof (cases "n \<le> length xs")
      case True
      then have "length xs + (n - 1) = length (drop n xs) + (n - 1) + n" by simp
      then show ?thesis using "1.prems" by (simp only: div_add_self2)
    next
      case small: False
      have e: "length xs + (n - 1) = (length xs - 1) + n" using False "1.prems" by (cases xs) auto
      have "(length xs + (n - 1)) div n = Suc ((length xs - 1) div n)"
        unfolding e using "1.prems" by (simp only: div_add_self2)
      with small show ?thesis by simp
    qed
    finally show ?thesis .
  qed
qed

lemma concat_chunks_of [simp]: "0 < n \<Longrightarrow> concat (chunks_of n xs) = xs"
proof (induction n xs rule: chunks_of.induct)
  case (1 n xs)
  then show ?case by (cases "xs = []") (simp_all add: chunks_of.simps [of n xs])
qed

lemma chunk_size: "c \<in> set (chunks_of n xs) \<Longrightarrow> length c \<le> n"
proof (induction n xs rule: chunks_of.induct)
  case (1 n xs)
  then show ?case by (auto simp: chunks_of.simps [of n xs] split: if_splits)
qed

lemma chunk_part_size: "c \<in> set (chunks_of n xs) \<Longrightarrow> length c \<le> length xs"
proof (induction n xs rule: chunks_of.induct)
  case (1 n xs)
  then show ?case by (auto simp: chunks_of.simps [of n xs] split: if_splits)
qed

section \<open>Chunk frames\<close>

definition chunk_meta :: "nat \<Rightarrow> nat \<Rightarrow> nat \<Rightarrow> metadata list" where
  "chunk_meta index tot n =
     [\<lparr>ty = TLV_CHUNK_INDEX, val = to_le64 (word_of_nat index)\<rparr>,
      \<lparr>ty = TLV_CHUNK_TOTAL, val = to_le64 (word_of_nat tot)\<rparr>,
      \<lparr>ty = TLV_CHUNK_MESSAGE_LEN, val = to_le64 (word_of_nat n)\<rparr>]"

lemma chunk_metadata_eq:
  "index < 2 ^ 64 \<Longrightarrow> tot < 2 ^ 64 \<Longrightarrow> n < 2 ^ 64 \<Longrightarrow>
   chunk_metadata index tot n = Ok (chunk_meta index tot n)"
  by (simp add: chunk_metadata_def usize_to_u64_bytes_def chunk_meta_def Metadata_new_def)

lemma length_chunk_meta [simp]: "length (encode_metadata (chunk_meta index tot n)) = CHUNK_METADATA_LEN"
  by (simp add: chunk_meta_def CHUNK_METADATA_LEN_def TLV_HEADER_LEN_def)

text \<open>What a decoded chunk of a message looks like.\<close>

definition chunk_frame_ok ::
  "(bytes \<Rightarrow> u32) \<Rightarrow> u64 \<Rightarrow> nat \<Rightarrow> nat \<Rightarrow> nat \<Rightarrow> bytes \<Rightarrow> frame \<Rightarrow> bool" where
  "chunk_frame_ok crc sq index tot n c f \<longleftrightarrow>
     payload f = c \<and> hdr_seq (header f) = sq \<and> is_chunked f \<and>
     validate_bytes_frame crc f = Ok () \<and>
     chunk_info_of f = Ok \<lparr>ci_index = index, ci_total = tot, ci_message_len = n\<rparr> \<and>
     validate_chunk crc f sq \<lparr>ci_index = index, ci_total = tot, ci_message_len = n\<rparr> = Ok ()"

lemma chunk_flags_bits:
  "chunk_flags index tot AND FRAME_FLAG_CHUNKED \<noteq> 0"
  "chunk_flags index tot AND FRAME_FLAG_CHUNK_START \<noteq> 0 \<longleftrightarrow> index = 0"
  "chunk_flags index tot AND FRAME_FLAG_CHUNK_END \<noteq> 0 \<longleftrightarrow> index + 1 = tot"
  by (simp_all add: chunk_flags_def frame_consts Let_def)

lemma encode_chunk_frame:
  assumes "index < tot" "tot < 2 ^ 64" "n < 2 ^ 64" "length c \<le> isize_max"
  obtains b f where "encode_frame crc Bytes (chunk_flags index tot) sq 0 0 (chunk_meta index tot n) c = Ok b"
    "length b = FRAME_HEADER_LEN + CHUNK_METADATA_LEN + length c"
    "decode_frame b = Ok f" "chunk_frame_ok crc sq index tot n c f"
proof -
  define hl where "hl = FRAME_HEADER_LEN + length (encode_metadata (chunk_meta index tot n))"
  define b where "b = header_image Bytes (chunk_flags index tot) sq 0 0 (crc c) hl (length c)
    @ encode_metadata (chunk_meta index tot n) @ c @ []"
  have hl: "hl = 92" by (simp add: hl_def frame_consts)
  have enc: "encode_frame crc Bytes (chunk_flags index tot) sq 0 0 (chunk_meta index tot n) c = Ok b"
    using assms hl
    by (simp add: encode_frame_def encode_frame_header_Ok_iff b_def isize_max_def hl_def)
  have len: "length b = FRAME_HEADER_LEN + CHUNK_METADATA_LEN + length c" by (simp add: b_def)
  define f where "f = \<lparr>header = \<lparr>hdr_flags = chunk_flags index tot, hdr_kind = Bytes,
      hdr_header_len = word_of_nat hl, hdr_payload_len = word_of_nat (length c), hdr_seq = sq,
      hdr_timestamp_ns = 0, hdr_schema_hash = 0, hdr_checksum = crc c\<rparr>,
      metadata_items = chunk_meta index tot n, payload = c\<rparr>"
  have dec: "decode_frame b = Ok f"
    unfolding b_def f_def using hl_def hl assms(4)
    by (intro decode_frame_image) (simp_all add: isize_max_def usize_max_def)
  have "unat (word_of_nat index :: u64) = index" "unat (word_of_nat tot :: u64) = tot"
    "unat (word_of_nat n :: u64) = n"
    using assms by (simp_all add: unat_of_nat)
  then have info: "chunk_info_of f = Ok \<lparr>ci_index = index, ci_total = tot, ci_message_len = n\<rparr>"
    using assms(1)
    by (simp add: chunk_info_of_def metadata_usize_def f_def chunk_meta_def TLV_CHUNK_INDEX_def
        TLV_CHUNK_TOTAL_def TLV_CHUNK_MESSAGE_LEN_def)
  have "chunk_frame_ok crc sq index tot n c f"
    using info chunk_flags_bits [of index tot]
    by (simp add: chunk_frame_ok_def validate_chunk_def validate_bytes_frame_def is_chunked_def f_def)
  with enc len dec that show thesis by blast
qed

text \<open>All chunk frames of a message, from position \<open>index\<close> on.\<close>

lemma encode_chunks_frames:
  assumes "index + length cs \<le> tot" "tot < 2 ^ 64" "n < 2 ^ 64" "\<forall>c \<in> set cs. length c \<le> isize_max"
  obtains fs where "encode_chunks crc tot sq n index cs = Ok fs" "length fs = length cs"
    "\<And>i. i < length cs \<Longrightarrow> length (fs ! i) = FRAME_HEADER_LEN + CHUNK_METADATA_LEN + length (cs ! i) \<and>
       (\<exists>f. decode_frame (fs ! i) = Ok f \<and> chunk_frame_ok crc sq (index + i) tot n (cs ! i) f)"
  using assms
proof (induction cs arbitrary: index thesis)
  case Nil
  then show ?case by simp
next
  case (Cons c cs)
  obtain b f where b: "encode_frame crc Bytes (chunk_flags index tot) sq 0 0 (chunk_meta index tot n) c = Ok b"
    "length b = FRAME_HEADER_LEN + CHUNK_METADATA_LEN + length c"
    "decode_frame b = Ok f" "chunk_frame_ok crc sq index tot n c f"
    using encode_chunk_frame [of index tot n c crc sq] Cons.prems by auto
  obtain fs where fs: "encode_chunks crc tot sq n (index + 1) cs = Ok fs" "length fs = length cs"
    "\<And>i. i < length cs \<Longrightarrow> length (fs ! i) = FRAME_HEADER_LEN + CHUNK_METADATA_LEN + length (cs ! i) \<and>
       (\<exists>f. decode_frame (fs ! i) = Ok f \<and> chunk_frame_ok crc sq (index + 1 + i) tot n (cs ! i) f)"
    using Cons.IH [of "index + 1"] Cons.prems by auto
  have enc: "encode_chunks crc tot sq n index (c # cs) = Ok (b # fs)"
    using b fs(1) Cons.prems by (simp add: chunk_metadata_eq)
  show ?case
  proof (rule Cons.prems(1) [OF enc])
    show "length (b # fs) = length (c # cs)" using fs by simp
  next
    fix i assume "i < length (c # cs)"
    with b fs(3) [of "i - 1"]
    show "length ((b # fs) ! i) = FRAME_HEADER_LEN + CHUNK_METADATA_LEN + length ((c # cs) ! i) \<and>
       (\<exists>f. decode_frame ((b # fs) ! i) = Ok f \<and> chunk_frame_ok crc sq (index + i) tot n ((c # cs) ! i) f)"
      by (cases i) auto
  qed
qed

section \<open>The frames of a message\<close>

text \<open>
  The shape every frame list of an accepted message has: one plain frame, or at least two chunk
  frames whose payloads concatenate to the message; each fits a slot.
\<close>

definition message_frames ::
  "(bytes \<Rightarrow> u32) \<Rightarrow> u64 \<Rightarrow> nat \<Rightarrow> bytes \<Rightarrow> bytes list \<Rightarrow> bool" where
  "message_frames crc sq limit m fs \<longleftrightarrow>
     (\<forall>b \<in> set fs. length b \<le> limit + FRAME_HEADER_LEN) \<and>
     ((\<exists>b f. fs = [b] \<and> decode_frame b = Ok f \<and> validate_bytes_frame crc f = Ok () \<and>
         hdr_seq (header f) = sq \<and> \<not> is_chunked f \<and> payload f = m) \<or>
      (\<exists>cs. 1 < length fs \<and> length cs = length fs \<and> concat cs = m \<and>
         (\<forall>i < length fs. \<exists>f. decode_frame (fs ! i) = Ok f \<and>
            chunk_frame_ok crc sq i (length fs) (length m) (cs ! i) f)))"

lemma encode_message_frames_Ok:
  assumes plan: "send_plan_of cfg (length m) = Ok plan" and cap: "0 < capacity cfg"
    and len: "length m \<le> isize_max"
  obtains fs where "encode_message_frames crc cfg plan sq m = Ok fs"
    "length fs = needed_slots plan" "message_frames crc sq (slot_size cfg) m fs"
  using plan cap
proof (cases rule: send_plan_Ok)
  case single
  obtain b where b: "encode_frame crc Bytes 0 sq 0 0 [] m = Ok b" "length b = FRAME_HEADER_LEN + length m"
    and dec: "decode_frame b = Ok \<lparr>header = \<lparr>hdr_flags = 0, hdr_kind = Bytes,
        hdr_header_len = word_of_nat FRAME_HEADER_LEN, hdr_payload_len = word_of_nat (length m),
        hdr_seq = sq, hdr_timestamp_ns = 0, hdr_schema_hash = 0, hdr_checksum = crc m\<rparr>,
        metadata_items = [], payload = m\<rparr>"
    using encode_plain [OF len] by metis
  show thesis
  proof (rule that)
    show "encode_message_frames crc cfg plan sq m = Ok [b]"
      using single b by (simp add: encode_message_frames_def)
    show "length [b] = needed_slots plan" using single by simp
    show "message_frames crc sq (slot_size cfg) m [b]"
      using single b dec by (simp add: message_frames_def validate_bytes_frame_def is_chunked_def)
  qed
next
  case (chunked c)
  define cs where "cs = chunks_of c m"
  define n where "n = (length m + (c - 1)) div c"
  have lcs: "length cs = n" using chunked by (simp add: cs_def n_def length_chunks_of)
  have "1 * c + c \<le> length m + (c - 1)" using chunked by simp
  then have "2 * c \<le> length m + (c - 1)" by simp
  then have n2: "2 \<le> n" unfolding n_def using chunked by (simp add: less_eq_div_iff_mult_less_eq)
  have "n \<le> length m"
  proof -
    have "length m + (c - 1) \<le> length m * c"
      using chunked by (cases c; cases "length m") (auto simp: algebra_simps)
    then have "n \<le> length m * c div c" unfolding n_def by (rule div_le_mono)
    then show ?thesis using chunked by simp
  qed
  then have n64: "n < 2 ^ 64" using len by (simp add: isize_max_def)
  obtain fs where fs: "encode_chunks crc n sq (length m) 0 cs = Ok fs" "length fs = length cs"
    "\<And>i. i < length cs \<Longrightarrow> length (fs ! i) = FRAME_HEADER_LEN + CHUNK_METADATA_LEN + length (cs ! i) \<and>
       (\<exists>f. decode_frame (fs ! i) = Ok f \<and> chunk_frame_ok crc sq (0 + i) n (length m) (cs ! i) f)"
  proof (rule encode_chunks_frames [of 0 cs n "length m" crc sq])
    show "0 + length cs \<le> n" "n < 2 ^ 64" "length m < 2 ^ 64"
      using lcs n64 len by (simp_all add: isize_max_def)
    show "\<forall>c \<in> set cs. length c \<le> isize_max"
      using len by (fastforce simp: cs_def dest: chunk_part_size)
  qed auto
  have bound: "\<forall>b \<in> set fs. length b \<le> slot_size cfg + FRAME_HEADER_LEN"
  proof
    fix b assume "b \<in> set fs"
    then obtain i where i: "i < length cs" "b = fs ! i" using fs(2) by (metis in_set_conv_nth)
    have "cs ! i \<in> set (chunks_of c m)" using i(1) by (simp add: cs_def)
    then have "length (cs ! i) \<le> c" by (rule chunk_size)
    with fs(3) [OF i(1)] i chunked show "length b \<le> slot_size cfg + FRAME_HEADER_LEN" by simp
  qed
  show thesis
  proof (rule that)
    show "encode_message_frames crc cfg plan sq m = Ok fs"
    proof -
      have "needed_slots plan = n" "chunk_payload_size plan = c" using chunked by (simp_all add: n_def)
      moreover have "n \<noteq> 1" "length fs = n" using n2 fs(2) lcs by simp_all
      moreover have "\<not> (\<exists>f \<in> set fs. length f > slot_size cfg + FRAME_HEADER_LEN)"
        using bound by (simp add: not_less)
      ultimately show ?thesis using fs(1) chunked(3) by (simp add: encode_message_frames_def cs_def)
    qed
    show "length fs = needed_slots plan" using fs(2) lcs chunked by (simp add: n_def)
    have "concat cs = m" using chunked by (simp add: cs_def)
    then show "message_frames crc sq (slot_size cfg) m fs"
      unfolding message_frames_def using bound fs(2,3) lcs n2 by auto
  qed
qed

section \<open>Which messages a channel accepts\<close>

text \<open>Claim C25: the plan and the advertised limit agree: \<open>send_plan\<close> accepts a message exactly when
  it is no longer than \<open>max_message_size\<close> (for lengths and slot sizes a 64-bit process can
  allocate), so no message within the limit is refused and none beyond it is admitted.\<close>

theorem send_plan_iff_within_limit:
  assumes "len \<le> isize_max" and "slot_size cfg \<le> isize_max" and "0 < capacity cfg"
  shows "(\<exists>plan. send_plan_of cfg len = Ok plan) \<longleftrightarrow> len \<le> max_message_size cfg"
proof (cases "slot_size cfg \<le> CHUNK_METADATA_LEN")
  case True
  then have "max_message_size cfg = slot_size cfg"
    by (cases "slot_size cfg = CHUNK_METADATA_LEN")
      (auto simp: max_message_size_def message_size_limits_def checked_sub_def checked_mul_def)
  with True show ?thesis by (auto simp: send_plan_of_def checked_sub_def)
next
  case False
  define c where "c = slot_size cfg - CHUNK_METADATA_LEN"
  have c: "0 < c" "checked_sub (slot_size cfg) CHUNK_METADATA_LEN = Some c"
    using False by (simp_all add: c_def)
  have pad: "len + (c - 1) \<le> usize_max"
    using assms by (simp add: c_def isize_max_def usize_max_def)
  have fits: "(len + (c - 1)) div c \<le> capacity cfg" if "len \<le> capacity cfg * c"
  proof -
    have "len + (c - 1) < Suc (capacity cfg) * c" using that c(1) by simp
    then show ?thesis by (simp add: less_mult_imp_div_less less_Suc_eq_le [symmetric] mult.commute)
  qed
  show ?thesis
  proof (cases "capacity cfg * c \<le> usize_max")
    case True
    then have "max_message_size cfg = max (capacity cfg * c) (slot_size cfg)"
      by (simp add: max_message_size_def message_size_limits_def Let_def c(2))
    moreover have "send_plan_of cfg len = Ok plan \<Longrightarrow> slot_size cfg < len \<Longrightarrow> len \<le> capacity cfg * c" for plan
      using c pad True by (simp add: send_plan_of_def Let_def split: if_splits)
    moreover have "\<exists>plan. send_plan_of cfg len = Ok plan" if "slot_size cfg < len" "len \<le> capacity cfg * c"
      using that c pad True fits [OF that(2)] by (simp add: send_plan_of_def Let_def)
    moreover have "\<exists>plan. send_plan_of cfg len = Ok plan" if "len \<le> slot_size cfg"
      using that by (simp add: send_plan_of_def)
    ultimately show ?thesis by (metis le_max_iff_disj not_less)
  next
    case over: False
    then have "max_message_size cfg = slot_size cfg"
      by (simp add: max_message_size_def message_size_limits_def Let_def c(2) checked_mul_def)
    moreover have "send_plan_of cfg len \<noteq> Ok plan" if "slot_size cfg < len" for plan
      using that c pad over by (simp add: send_plan_of_def Let_def checked_mul_def)
    moreover have "\<exists>plan. send_plan_of cfg len = Ok plan" if "len \<le> slot_size cfg"
      using that by (simp add: send_plan_of_def)
    ultimately show ?thesis by (metis not_less)
  qed
qed

theorem send_plan_iff_within_limit_witness:
  "(\<exists>plan. send_plan_of \<lparr>capacity = 4, slot_size = 64, backpressure = Raise, timeout = None,
      multi_producer = False\<rparr> 88 = Ok plan) \<longleftrightarrow>
   88 \<le> max_message_size \<lparr>capacity = 4, slot_size = 64, backpressure = Raise, timeout = None,
      multi_producer = False\<rparr>"
  by (rule send_plan_iff_within_limit) (simp_all add: isize_max_def)

text \<open>Claim C26: chunking is lossless. The frames of an accepted message are one per planned slot,
  each fits a slot, each decodes, and the payloads concatenate to the message; when there is more
  than one, every frame passes \<open>validate_chunk\<close> for its own position, with the start flag on the
  first and the end flag on the last only.\<close>

theorem encode_message_lossless:
  assumes "send_plan_of cfg (length m) = Ok plan" and "0 < capacity cfg" and "length m \<le> isize_max"
  shows "\<exists>frames decoded. encode_message_frames crc cfg plan sq m = Ok frames \<and>
    length frames = needed_slots plan \<and> length decoded = length frames \<and>
    (\<forall>i < length frames. length (frames ! i) \<le> slot_size cfg + FRAME_HEADER_LEN \<and>
       decode_frame (frames ! i) = Ok (decoded ! i) \<and> validate_bytes_frame crc (decoded ! i) = Ok () \<and>
       (1 < length frames \<longrightarrow> validate_chunk crc (decoded ! i) sq
          \<lparr>ci_index = i, ci_total = length frames, ci_message_len = length m\<rparr> = Ok ())) \<and>
    concat (map payload decoded) = m"
proof -
  obtain fs where fs: "encode_message_frames crc cfg plan sq m = Ok fs"
    "length fs = needed_slots plan" and mf: "message_frames crc sq (slot_size cfg) m fs"
    using encode_message_frames_Ok assms by metis
  define ds where "ds = map (\<lambda>b. case decode_frame b of Ok f \<Rightarrow> f | _ \<Rightarrow> undefined) fs"
  have lim: "\<forall>i < length fs. length (fs ! i) \<le> slot_size cfg + FRAME_HEADER_LEN"
    using mf by (simp add: message_frames_def)
  have ds: "ds ! i = f" if "decode_frame (fs ! i) = Ok f" "i < length fs" for i f
    using that by (simp add: ds_def)
  have "(\<forall>i < length fs. decode_frame (fs ! i) = Ok (ds ! i) \<and> validate_bytes_frame crc (ds ! i) = Ok () \<and>
      (1 < length fs \<longrightarrow> validate_chunk crc (ds ! i) sq
        \<lparr>ci_index = i, ci_total = length fs, ci_message_len = length m\<rparr> = Ok ())) \<and>
      concat (map payload ds) = m"
  proof (cases "1 < length fs")
    case False
    with mf obtain b f where one: "fs = [b]" "decode_frame b = Ok f"
      "validate_bytes_frame crc f = Ok ()" "payload f = m"
      unfolding message_frames_def by blast
    then have "ds = [f]" by (simp add: ds_def)
    with one show ?thesis by simp
  next
    case True
    then obtain cs where cs: "length cs = length fs" "concat cs = m"
      and ex: "\<forall>i < length fs. \<exists>f. decode_frame (fs ! i) = Ok f \<and>
            chunk_frame_ok crc sq i (length fs) (length m) (cs ! i) f"
      using mf unfolding message_frames_def by fastforce
    have ok: "decode_frame (fs ! i) = Ok (ds ! i) \<and>
        chunk_frame_ok crc sq i (length fs) (length m) (cs ! i) (ds ! i)" if "i < length fs" for i
      using ex that ds by blast
    have "map payload ds = cs"
    proof (rule nth_equalityI)
      show "length (map payload ds) = length cs" using cs(1) by (simp add: ds_def)
      fix i assume "i < length (map payload ds)"
      then show "map payload ds ! i = cs ! i" using ok [of i] by (simp add: chunk_frame_ok_def ds_def)
    qed
    with cs(2) ok show ?thesis by (simp add: chunk_frame_ok_def)
  qed
  moreover have "length ds = length fs" by (simp add: ds_def)
  ultimately show ?thesis using fs lim by blast
qed

theorem encode_message_lossless_witness:
  "\<exists>frames decoded. encode_message_frames (\<lambda>_. 0)
      \<lparr>capacity = 16, slot_size = 45, backpressure = Raise, timeout = None, multi_producer = False\<rparr>
      \<lparr>chunk_payload_size = 3, needed_slots = 16\<rparr> 9 (replicate 46 1) = Ok frames \<and>
    length frames = 16 \<and> length decoded = length frames \<and>
    (\<forall>i < length frames. length (frames ! i) \<le> 45 + FRAME_HEADER_LEN \<and>
       decode_frame (frames ! i) = Ok (decoded ! i) \<and> validate_bytes_frame (\<lambda>_. 0) (decoded ! i) = Ok () \<and>
       (1 < length frames \<longrightarrow> validate_chunk (\<lambda>_. 0) (decoded ! i) 9
          \<lparr>ci_index = i, ci_total = length frames, ci_message_len = length (replicate 46 (1 :: byte))\<rparr> = Ok ())) \<and>
    concat (map payload decoded) = replicate 46 1"
proof -
  let ?cfg = "\<lparr>capacity = 16, slot_size = 45, backpressure = Raise, timeout = None, multi_producer = False\<rparr>"
  have plan: "send_plan_of ?cfg (length (replicate 46 (1 :: byte))) = Ok \<lparr>chunk_payload_size = 3, needed_slots = 16\<rparr>"
    by (simp add: send_plan_of_def Let_def CHUNK_METADATA_LEN_def TLV_HEADER_LEN_def checked_sub_def
        checked_add_def checked_mul_def usize_max_def)
  have cap: "0 < capacity ?cfg" and len: "length (replicate 46 (1 :: byte)) \<le> isize_max"
    by (simp_all add: isize_max_def)
  show ?thesis
    using encode_message_lossless [OF plan cap len, of "\<lambda>_. 0" 9]
    by (simp only: send_plan.simps spsc_config.simps)
qed

end
