(* ===== verification/Shm_Channel.thy ===== *)
theory Shm_Channel
  imports Fixed_Region Chunking
begin

text \<open>
  \<open>ShmSpscChannel\<close> of \<open>crates/dsline-shm/src/lib.rs\<close>: the single-process channel over a slot
  region, with messages spread over several slots. Arithmetic on \<open>usize\<close> that the code leaves
  unchecked panics on underflow, as in a build with overflow checks; \<open>x % capacity\<close> is not guarded
  because every constructor rejects a zero capacity. \<open>polls\<close> is the number of turns the clock
  grants the \<open>Block\<close> policy, whose wait holds the channel exclusively.
\<close>

section \<open>State and construction\<close>

record received_message =
  rm_seq :: u64
  rm_payload :: bytes

record 's shm_channel =
  ch_config :: spsc_config
  ch_region :: "'s fixed_slot_region"
  ch_head :: usize
  ch_tail :: usize
  ch_len :: usize
  ch_next_seq :: u64
  ch_expected_recv_seq :: u64
  ch_last_received_seq :: "u64 option"
  ch_closed :: bool

definition channel_with_storage ::
  "'s slot_storage_ops \<Rightarrow> spsc_config \<Rightarrow> 's \<Rightarrow> 's shm_channel result" where
  "channel_with_storage io cfg s =
     and_then (validate_config cfg) (\<lambda>_.
     and_then (ok_or (checked_add (slot_size cfg) FRAME_HEADER_LEN)
       (Channel (InvalidConfig ''slot_size is too large''))) (\<lambda>minimum_region_slot_size.
     if st_capacity io s \<noteq> capacity cfg then ChanErr (InvalidConfig ''storage capacity mismatch'')
     else if st_slot_size io s < minimum_region_slot_size then
       ChanErr (InvalidConfig ''storage slot_size is too small'')
     else and_then (region_with_storage io s) (\<lambda>r.
       Ok \<lparr>ch_config = cfg, ch_region = r, ch_head = 0, ch_tail = 0, ch_len = 0, ch_next_seq = 0,
         ch_expected_recv_seq = 0, ch_last_received_seq = None, ch_closed = False\<rparr>)))"

definition channel_new :: "spsc_config \<Rightarrow> memory_slot_storage shm_channel result" where
  "channel_new cfg =
     and_then (validate_config cfg) (\<lambda>_.
     and_then (ok_or (checked_add (slot_size cfg) FRAME_HEADER_LEN)
       (Channel (InvalidConfig ''slot_size is too large''))) (\<lambda>region_slot_size.
     and_then (MemorySlotStorage_new (capacity cfg) region_slot_size) (\<lambda>s.
     channel_with_storage memory_ops cfg s)))"

section \<open>Slots of the ring\<close>

definition on_region :: "('s fixed_slot_region, dsline_error, 'a) action \<Rightarrow> ('s shm_channel, dsline_error, 'a) action" where
  "on_region = zoom ch_region (\<lambda>r c. c\<lparr>ch_region := r\<rparr>)"

definition next_index :: "spsc_config \<Rightarrow> usize \<Rightarrow> usize" where
  "next_index cfg i = (i + 1) mod capacity cfg"

text \<open>\<open>self.config.capacity - self.len\<close>.\<close>

definition free_slots :: "'s shm_channel \<Rightarrow> usize result" where
  "free_slots c = (if ch_len c \<le> capacity (ch_config c) then Ok (capacity (ch_config c) - ch_len c) else Panicked)"

text \<open>The body of the loop of \<open>send\<close>: a frame goes to the head slot, which advances.\<close>

definition write_head_slot :: "'s slot_storage_ops \<Rightarrow> u64 \<Rightarrow> bytes \<Rightarrow> ('s shm_channel, dsline_error, unit) action" where
  "write_head_slot io sq f =
     bind (gets ch_head) (\<lambda>head.
     seq (on_region (region_write_committed io head sq f))
     (modify (\<lambda>c. c\<lparr>ch_head := next_index (ch_config c) head, ch_len := ch_len c + 1\<rparr>)))"

text \<open>\<open>self.tail = (self.tail + 1) % capacity; self.len -= 1\<close>.\<close>

definition pop_tail :: "('s shm_channel, dsline_error, unit) action" where
  "pop_tail =
     seq (modify (\<lambda>c. c\<lparr>ch_tail := next_index (ch_config c) (ch_tail c)\<rparr>))
     (bind (gets ch_len) (\<lambda>n. if n = 0 then panic else modify (\<lambda>c. c\<lparr>ch_len := n - 1\<rparr>)))"

definition release_pinned_tail :: "'s slot_storage_ops \<Rightarrow> ('s shm_channel, dsline_error, unit) action" where
  "release_pinned_tail io = bind (gets ch_tail) (\<lambda>tail. on_region (region_release_pinned io tail))"

definition advance_tail_after_read :: "'s slot_storage_ops \<Rightarrow> ('s shm_channel, dsline_error, unit) action" where
  "advance_tail_after_read io = seq (release_pinned_tail io) pop_tail"

definition read_tail_slot :: "'s slot_storage_ops \<Rightarrow> ('s shm_channel, dsline_error, slot_snapshot) action" where
  "read_tail_slot io = bind (gets ch_tail) (\<lambda>tail. on_region (region_read_committed io tail))"

section \<open>Dropping the oldest message\<close>

fun drop_tail_slots :: "'s slot_storage_ops \<Rightarrow> nat \<Rightarrow> ('s shm_channel, dsline_error, unit) action" where
  "drop_tail_slots io 0 = return ()"
| "drop_tail_slots io (Suc n) =
     bind (gets ch_tail) (\<lambda>tail.
     seq (on_region (region_release_committed io tail))
     (seq pop_tail (drop_tail_slots io n)))"

definition slots_to_drop :: "frame \<Rightarrow> usize result" where
  "slots_to_drop f =
     (if is_chunked f then
        and_then (chunk_info_of f) (\<lambda>info.
        if ci_index info \<noteq> 0 then ChanErr CorruptedMessage else Ok (ci_total info))
      else Ok 1)"

definition drop_oldest_message :: "'s slot_storage_ops \<Rightarrow> ('s shm_channel, dsline_error, unit) action" where
  "drop_oldest_message io =
     bind (gets ch_len) (\<lambda>n.
     if n = 0 then return () else
     bind (reads (\<lambda>c. region_peek_committed io (ch_tail c) (ch_region c))) (\<lambda>snapshot.
     bind (lift (decode_frame (snap_data snapshot))) (\<lambda>f.
     bind (lift (slots_to_drop f)) (\<lambda>k.
     seq (drop_tail_slots io k)
     (modify (\<lambda>c. c\<lparr>ch_expected_recv_seq := ch_expected_recv_seq c + 1\<rparr>))))))"

text \<open>The loop that drops until the message fits; \<open>drop_until_free_ends\<close> shows that one turn more
  than there are occupied slots is enough fuel in every state.\<close>

fun drop_until_free :: "'s slot_storage_ops \<Rightarrow> nat \<Rightarrow> usize \<Rightarrow> ('s shm_channel, dsline_error, unit) action" where
  "drop_until_free io 0 needed = diverge"
| "drop_until_free io (Suc fuel) needed =
     bind (reads free_slots) (\<lambda>free.
     if free < needed then seq (drop_oldest_message io) (drop_until_free io fuel needed)
     else return ())"

section \<open>Send\<close>

fun poll_space :: "nat \<Rightarrow> usize \<Rightarrow> 's shm_channel \<Rightarrow> unit result" where
  "poll_space 0 needed c = ChanErr BufferFull"
| "poll_space (Suc polls) needed c =
     and_then (free_slots c) (\<lambda>free. if free \<ge> needed then Ok () else poll_space polls needed c)"

definition wait_for_space :: "nat \<Rightarrow> usize \<Rightarrow> 's shm_channel \<Rightarrow> unit result" where
  "wait_for_space polls needed c =
     and_then (free_slots c) (\<lambda>free.
     if free \<ge> needed then Ok ()
     else case timeout (ch_config c) of
       None \<Rightarrow> ChanErr BufferFull
     | Some _ \<Rightarrow> poll_space polls needed c)"

definition prepare_send_slots ::
  "'s slot_storage_ops \<Rightarrow> nat \<Rightarrow> usize \<Rightarrow> ('s shm_channel, dsline_error, bool) action" where
  "prepare_send_slots io polls needed =
     bind (gets ch_config) (\<lambda>cfg.
     if needed > capacity cfg then fail (Channel (MessageTooLarge needed (capacity cfg))) else
     bind (reads free_slots) (\<lambda>free.
     if free \<ge> needed then return True else
     case backpressure cfg of
       Raise \<Rightarrow> fail (Channel BufferFull)
     | Block \<Rightarrow> seq (reads (wait_for_space polls needed)) (return True)
     | DropNewest \<Rightarrow> return False
     | DropOldest \<Rightarrow>
         bind (gets ch_len) (\<lambda>n. seq (drop_until_free io (Suc n) needed) (return True))))"

definition channel_send ::
  "'s slot_storage_ops \<Rightarrow> (bytes \<Rightarrow> u32) \<Rightarrow> nat \<Rightarrow> bytes \<Rightarrow> ('s shm_channel, dsline_error, unit) action" where
  "channel_send io crc polls m =
     bind (gets ch_closed) (\<lambda>is_closed.
     if is_closed then fail (Channel Closed) else
     bind (gets ch_config) (\<lambda>cfg.
     bind (lift (send_plan_of cfg (length m))) (\<lambda>plan.
     bind (prepare_send_slots io polls (needed_slots plan)) (\<lambda>admitted.
     if \<not> admitted then return () else
     bind (gets ch_next_seq) (\<lambda>sq.
     seq (modify (\<lambda>c. c\<lparr>ch_next_seq := sq + 1\<rparr>))
     (bind (lift (encode_message_frames crc cfg plan sq m)) (\<lambda>frames.
     for_each frames (write_head_slot io sq))))))))"

section \<open>Receive\<close>

text \<open>The loop of \<open>recv_chunked_message\<close> over the remaining chunk indices.\<close>

fun recv_chunks ::
  "'s slot_storage_ops \<Rightarrow> (bytes \<Rightarrow> u32) \<Rightarrow> u64 \<Rightarrow> chunk_info \<Rightarrow> usize list \<Rightarrow> bytes \<Rightarrow>
   ('s shm_channel, dsline_error, bytes) action" where
  "recv_chunks io crc sq first [] acc = return acc"
| "recv_chunks io crc sq first (index # rest) acc =
     bind (read_tail_slot io) (\<lambda>snapshot.
     if snap_seq snapshot \<noteq> sq then
       seq (release_pinned_tail io) (fail (Channel (SequenceMismatch sq (snap_seq snapshot)))) else
     match_result (decode_frame (snap_data snapshot)) (\<lambda>f.
       match_result (validate_chunk crc f sq (first\<lparr>ci_index := index\<rparr>)) (\<lambda>_.
         seq (advance_tail_after_read io) (recv_chunks io crc sq first rest (acc @ payload f)))
       (\<lambda>e. seq (release_pinned_tail io) (fail e)))
     (\<lambda>e. seq (release_pinned_tail io) (fail e)))"

definition recv_chunked_message ::
  "'s slot_storage_ops \<Rightarrow> (bytes \<Rightarrow> u32) \<Rightarrow> u64 \<Rightarrow> frame \<Rightarrow> ('s shm_channel, dsline_error, bytes) action" where
  "recv_chunked_message io crc sq first_frame =
     match_result (chunk_info_of first_frame) (\<lambda>first.
       if ci_index first \<noteq> 0 then seq (release_pinned_tail io) (fail (Channel CorruptedMessage)) else
       if ci_message_len first > isize_max then panic else
       seq (advance_tail_after_read io)
       (bind (recv_chunks io crc sq first [1..<ci_total first] (payload first_frame)) (\<lambda>pl.
        if length pl \<noteq> ci_message_len first then fail (Channel CorruptedMessage) else return pl)))
     (\<lambda>e. seq (release_pinned_tail io) (fail e))"

definition expect_next :: "('s shm_channel, dsline_error, unit) action" where
  "expect_next = modify (\<lambda>c. c\<lparr>ch_expected_recv_seq := ch_expected_recv_seq c + 1\<rparr>)"

definition channel_recv_with_seq ::
  "'s slot_storage_ops \<Rightarrow> (bytes \<Rightarrow> u32) \<Rightarrow> ('s shm_channel, dsline_error, received_message) action" where
  "channel_recv_with_seq io crc =
     bind (gets (\<lambda>c. ch_closed c \<and> ch_len c = 0)) (\<lambda>drained.
     if drained then fail (Channel Closed) else
     bind (gets ch_len) (\<lambda>n.
     if n = 0 then fail (Channel BufferEmpty) else
     bind (read_tail_slot io) (\<lambda>snapshot.
     bind (gets ch_expected_recv_seq) (\<lambda>expected.
     if snap_seq snapshot \<noteq> expected then
       fail (Channel (SequenceMismatch expected (snap_seq snapshot))) else
     match_result (decode_frame (snap_data snapshot)) (\<lambda>f.
       match_result (validate_bytes_frame crc f) (\<lambda>_.
         if snap_seq snapshot \<noteq> hdr_seq (header f) then
           seq (advance_tail_after_read io) (seq expect_next
             (fail (Channel (SequenceMismatch (snap_seq snapshot) (hdr_seq (header f))))))
         else
         bind (if is_chunked f then recv_chunked_message io crc (snap_seq snapshot) f
               else seq (advance_tail_after_read io) (return (payload f))) (\<lambda>pl.
         seq expect_next
         (seq (modify (\<lambda>c. c\<lparr>ch_last_received_seq := Some (hdr_seq (header f))\<rparr>))
         (return \<lparr>rm_seq = hdr_seq (header f), rm_payload = pl\<rparr>))))
       (\<lambda>e. seq (advance_tail_after_read io) (seq expect_next (fail e))))
     (\<lambda>e. seq (advance_tail_after_read io) (seq expect_next (fail e)))))))"

definition channel_recv ::
  "'s slot_storage_ops \<Rightarrow> (bytes \<Rightarrow> u32) \<Rightarrow> ('s shm_channel, dsline_error, bytes) action" where
  "channel_recv io crc = bind (channel_recv_with_seq io crc) (\<lambda>r. return (rm_payload r))"

definition channel_close :: "'s shm_channel \<Rightarrow> 's shm_channel" where
  "channel_close c = c\<lparr>ch_closed := True\<rparr>"

definition channel_is_closed :: "'s shm_channel \<Rightarrow> bool" where
  "channel_is_closed c = ch_closed c"

definition channel_len :: "'s shm_channel \<Rightarrow> usize" where
  "channel_len c = ch_len c"

definition channel_is_empty :: "'s shm_channel \<Rightarrow> bool" where
  "channel_is_empty c = (ch_len c = 0)"

definition channel_capacity :: "'s shm_channel \<Rightarrow> usize" where
  "channel_capacity c = capacity (ch_config c)"

definition channel_payload_slot_size :: "'s shm_channel \<Rightarrow> usize" where
  "channel_payload_slot_size c = slot_size (ch_config c)"

definition channel_region_slot_size :: "'s slot_storage_ops \<Rightarrow> 's shm_channel \<Rightarrow> usize" where
  "channel_region_slot_size io c = region_slot_size io (ch_region c)"

definition channel_message_size_limits :: "'s shm_channel \<Rightarrow> message_size_limits" where
  "channel_message_size_limits c = message_size_limits (ch_config c)"

end
