(* ===== verification/Channel_Spec.thy ===== *)
theory Channel_Spec
  imports Chunking
begin

text \<open>
  What a slot channel promises, without slots: a queue of whole messages whose combined slot
  demand is bounded by the capacity. Also the layout of queued messages as frames, and rotated
  lists, the arithmetic of a ring.
\<close>

section \<open>A bounded queue of messages\<close>

record message_queue =
  mq_config :: spsc_config
  mq_msgs :: "bytes list"
  mq_shut :: bool

text \<open>The slots a message takes, and a list of messages.\<close>

definition slots_of :: "spsc_config \<Rightarrow> bytes \<Rightarrow> nat" where
  "slots_of cfg m = (case send_plan_of cfg (length m) of Ok plan \<Rightarrow> needed_slots plan | _ \<Rightarrow> 0)"

definition used_slots :: "spsc_config \<Rightarrow> bytes list \<Rightarrow> nat" where
  "used_slots cfg ms = sum_list (map (slots_of cfg) ms)"

fun drop_for :: "spsc_config \<Rightarrow> nat \<Rightarrow> bytes list \<Rightarrow> bytes list" where
  "drop_for cfg needed [] = []"
| "drop_for cfg needed (m # ms) =
     (if capacity cfg - used_slots cfg (m # ms) < needed then drop_for cfg needed ms else m # ms)"

definition queue_send :: "bytes \<Rightarrow> (message_queue, dsline_error, unit) action" where
  "queue_send m q =
     (if mq_shut q then (ChanErr Closed, q)
      else case send_plan_of (mq_config q) (length m) of
        Ok plan \<Rightarrow>
          (let free = capacity (mq_config q) - used_slots (mq_config q) (mq_msgs q) in
           if needed_slots plan \<le> free then (Ok (), q\<lparr>mq_msgs := mq_msgs q @ [m]\<rparr>)
           else case backpressure (mq_config q) of
             Block \<Rightarrow> (ChanErr BufferFull, q)
           | Raise \<Rightarrow> (ChanErr BufferFull, q)
           | DropNewest \<Rightarrow> (Ok (), q)
           | DropOldest \<Rightarrow>
               (Ok (), q\<lparr>mq_msgs := drop_for (mq_config q) (needed_slots plan) (mq_msgs q) @ [m]\<rparr>))
      | Err e \<Rightarrow> (Err e, q)
      | Panicked \<Rightarrow> (Panicked, q)
      | Diverged \<Rightarrow> (Diverged, q))"

definition queue_recv :: "(message_queue, dsline_error, bytes) action" where
  "queue_recv q =
     (case mq_msgs q of
        [] \<Rightarrow> (ChanErr (if mq_shut q then Closed else BufferEmpty), q)
      | m # ms \<Rightarrow> (Ok m, q\<lparr>mq_msgs := ms\<rparr>))"

lemma used_slots_simps [simp]:
  "used_slots cfg [] = 0" "used_slots cfg (m # ms) = slots_of cfg m + used_slots cfg ms"
  "used_slots cfg (ms @ ns) = used_slots cfg ms + used_slots cfg ns"
  by (simp_all add: used_slots_def)

lemma slots_of_plan [simp]: "send_plan_of cfg (length m) = Ok plan \<Longrightarrow> slots_of cfg m = needed_slots plan"
  by (simp add: slots_of_def)

section \<open>Queued messages as frames\<close>

text \<open>
  \<open>stored crc cfg sq ms ws\<close>: \<open>ws\<close> lists, slot by slot, the sequence number and the frame of each
  message of \<open>ms\<close>, numbered from \<open>sq\<close>.
\<close>

fun stored :: "(bytes \<Rightarrow> u32) \<Rightarrow> spsc_config \<Rightarrow> u64 \<Rightarrow> bytes list \<Rightarrow> (u64 \<times> bytes) list \<Rightarrow> bool" where
  "stored crc cfg sq [] ws = (ws = [])"
| "stored crc cfg sq (m # ms) ws =
     (\<exists>plan fs ws'. length m \<le> isize_max \<and> send_plan_of cfg (length m) = Ok plan \<and>
        encode_message_frames crc cfg plan sq m = Ok fs \<and> ws = map (Pair sq) fs @ ws' \<and>
        stored crc cfg (sq + 1) ms ws')"

lemma encoded_message:
  assumes "send_plan_of cfg (length m) = Ok plan" "0 < capacity cfg" "length m \<le> isize_max"
    and "encode_message_frames crc cfg plan sq m = Ok fs"
  shows "length fs = needed_slots plan" "message_frames crc sq (slot_size cfg) m fs" "fs \<noteq> []"
proof -
  obtain fs' where "encode_message_frames crc cfg plan sq m = Ok fs'"
    "length fs' = needed_slots plan" "message_frames crc sq (slot_size cfg) m fs'"
    using encode_message_frames_Ok [OF assms(1-3)] by metis
  with assms needed_slots_bounds [OF assms(1,2)]
  show "length fs = needed_slots plan" "message_frames crc sq (slot_size cfg) m fs" "fs \<noteq> []" by auto
qed

lemma stored_length:
  "stored crc cfg sq ms ws \<Longrightarrow> 0 < capacity cfg \<Longrightarrow> length ws = used_slots cfg ms"
  by (induction crc cfg sq ms ws rule: stored.induct) (auto simp: encoded_message(1))

lemma stored_append:
  "stored crc cfg sq (ms @ ns) ws \<longleftrightarrow>
     (\<exists>u v. ws = u @ v \<and> stored crc cfg sq ms u \<and> stored crc cfg (sq + word_of_nat (length ms)) ns v)"
proof (induction ms arbitrary: sq ws)
  case Nil
  then show ?case by simp
next
  case (Cons m ms)
  have e: "sq + word_of_nat (length (m # ms)) = sq + 1 + word_of_nat (length ms)" by simp
  show ?case unfolding e append_Cons stored.simps Cons.IH by (auto; metis append.assoc)
qed

section \<open>Reading the queue back from frames\<close>

text \<open>The messages a list of frames stands for, as a receiver takes them.\<close>

definition frame_payload :: "bytes \<Rightarrow> bytes" where
  "frame_payload b = (case decode_frame b of Ok f \<Rightarrow> payload f | _ \<Rightarrow> [])"

definition frame_extent :: "bytes \<Rightarrow> nat" where
  "frame_extent b =
     (case decode_frame b of
        Ok f \<Rightarrow> if is_chunked f then (case chunk_info_of f of Ok info \<Rightarrow> ci_total info | _ \<Rightarrow> 1) else 1
      | _ \<Rightarrow> 1)"

function messages_in :: "bytes list \<Rightarrow> bytes list" where
  "messages_in [] = []"
| "messages_in (b # bs) =
     concat (map frame_payload (take (frame_extent b) (b # bs))) # messages_in (drop (frame_extent b - 1) bs)"
  by pat_completeness auto
termination
  by (relation "measure length") auto

lemma message_extent:
  assumes "message_frames crc sq limit m fs"
  obtains b bs where "fs = b # bs" "frame_extent b = length fs" "concat (map frame_payload fs) = m"
proof -
  from assms consider
    b f where "fs = [b]" "decode_frame b = Ok f" "\<not> is_chunked f" "payload f = m"
  | cs where "1 < length fs" "length cs = length fs" "concat cs = m"
      "\<forall>i < length fs. \<exists>f. decode_frame (fs ! i) = Ok f \<and>
            chunk_frame_ok crc sq i (length fs) (length m) (cs ! i) f"
    unfolding message_frames_def by blast
  then show thesis
  proof cases
    case (1 b f)
    then show ?thesis by (intro that [of b "[]"]) (simp_all add: frame_extent_def frame_payload_def)
  next
    case 2
    then obtain b bs where fs: "fs = b # bs" by (cases fs) auto
    from 2(4) fs obtain f where f: "decode_frame b = Ok f" "chunk_frame_ok crc sq 0 (length fs) (length m) (cs ! 0) f"
      by force
    have "map frame_payload fs = cs"
    proof (rule nth_equalityI)
      fix i assume "i < length (map frame_payload fs)"
      with 2(4) show "map frame_payload fs ! i = cs ! i"
        by (auto simp: frame_payload_def chunk_frame_ok_def)
    qed (use 2 in simp)
    with 2(3) fs f show ?thesis by (intro that [of b bs]) (simp_all add: frame_extent_def chunk_frame_ok_def)
  qed
qed

lemma messages_in_stored:
  "stored crc cfg sq ms ws \<Longrightarrow> 0 < capacity cfg \<Longrightarrow> messages_in (map snd ws) = ms"
proof (induction crc cfg sq ms ws rule: stored.induct)
  case (1 crc cfg sq ws)
  then show ?case by simp
next
  case (2 crc cfg sq m ms ws)
  then obtain plan fs ws' where s: "length m \<le> isize_max" "send_plan_of cfg (length m) = Ok plan"
    "encode_message_frames crc cfg plan sq m = Ok fs" "ws = map (Pair sq) fs @ ws'"
    "stored crc cfg (sq + 1) ms ws'" by auto
  have "message_frames crc sq (slot_size cfg) m fs"
    using encoded_message [OF s(2) 2(3) s(1,3)] by blast
  then obtain b bs where b: "fs = b # bs" "frame_extent b = length fs" "concat (map frame_payload fs) = m"
    by (rule message_extent)
  have e: "map snd ws = b # (bs @ map snd ws')" using s(4) b(1) by (simp add: o_def)
  have t: "take (frame_extent b) (b # (bs @ map snd ws')) = fs" "drop (frame_extent b - 1) (bs @ map snd ws') = map snd ws'"
    using b by simp_all
  show ?case unfolding e messages_in.simps t using b(3) 2(1) [OF s(5) 2(3)] by simp
qed

lemma chunk_info_update: "(first :: chunk_info)\<lparr>ci_index := k\<rparr> =
    \<lparr>ci_index = k, ci_total = ci_total first, ci_message_len = ci_message_len first\<rparr>"
  by (cases first) simp

section \<open>Rotated lists\<close>

lemma mod_add_inj:
  "(t + i) mod n = (t + j) mod n \<Longrightarrow> i < n \<Longrightarrow> j < n \<Longrightarrow> i = (j :: nat)"
proof (induction i j rule: linorder_wlog)
  case (le i j)
  then have "(j - i) mod n = 0"
    by (metis mod_eq_dvd_iff_nat add_le_cancel_left add_diff_cancel_left mod_0_imp_dvd dvd_imp_mod_0)
  with le show ?case by simp
qed auto

lemma rotate_update:
  assumes "k < length xs"
  shows "rotate n (xs[(n + k) mod length xs := x]) = (rotate n xs)[k := x]"
proof (rule nth_equalityI)
  fix i assume "i < length (rotate n (xs[(n + k) mod length xs := x]))"
  then have i: "i < length xs" by simp
  have "(n + k) mod length xs = (n + i) mod length xs \<longleftrightarrow> k = i"
    using mod_add_inj [of n k "length xs" i] i assms by auto
  moreover have "(n + i) mod length xs < length xs" using i by (intro mod_less_divisor) auto
  ultimately show "rotate n (xs[(n + k) mod length xs := x]) ! i = (rotate n xs)[k := x] ! i"
    using i assms by (auto simp: nth_rotate nth_list_update)
qed simp

lemma rotate_nth_0: "t < length xs \<Longrightarrow> rotate t xs ! 0 = xs ! t"
  using nth_rotate [of 0 xs t] by (cases xs) auto

lemma rotate_step:
  assumes "rotate t xs = y # ys"
  shows "rotate ((t + 1) mod length xs) xs = ys @ [y]"
proof -
  have "rotate ((t + 1) mod length xs) xs = rotate (Suc t) xs"
    using rotate_conv_mod [of "Suc t" xs] by simp
  also have "\<dots> = rotate1 (rotate t xs)" by (simp add: rotate_def)
  finally show ?thesis using assms by simp
qed

end
