(* ===== verification/Shm_Channel_Refinement.thy ===== *)
theory Shm_Channel_Refinement
  imports Shm_Channel Channel_Spec
begin

text \<open>
  The channel over a slot region implements the bounded message queue: the layout invariant, each
  operation on the ring as an operation on the list of occupied slots, the refinement of send and
  receive for any storage that keeps the \<open>slot_storage\<close> contract, and the interpretations of
  \<open>fifo_channel\<close> on the channel over memory.
\<close>

section \<open>The layout invariant\<close>

text \<open>
  \<open>channel_shape io ok sb c vs\<close>: from the tail on, the ring holds the slots \<open>vs\<close> and then free
  slots only.
\<close>

definition channel_shape ::
  "'s slot_storage_ops \<Rightarrow> ('s \<Rightarrow> bool) \<Rightarrow> ('s \<Rightarrow> usize \<Rightarrow> bytes) \<Rightarrow> 's shm_channel \<Rightarrow> slot_view list \<Rightarrow> bool" where
  "channel_shape io ok sb c vs \<longleftrightarrow>
     (let cap = capacity (ch_config c) in
      0 < cap \<and> ch_tail c < cap \<and> length vs = ch_len c \<and> ch_len c \<le> cap \<and>
      ch_head c = (ch_tail c + ch_len c) mod cap \<and>
      region_inv io ok cap (st_slot_size io (storage (ch_region c))) (ch_region c) \<and>
      slot_size (ch_config c) + FRAME_HEADER_LEN \<le> st_slot_size io (storage (ch_region c)) \<and>
      rotate (ch_tail c) (region_view sb (ch_region c)) = vs @ replicate (cap - ch_len c) free_view)"

text \<open>A channel that holds the messages \<open>ms\<close>.\<close>

definition channel_holds ::
  "'s slot_storage_ops \<Rightarrow> ('s \<Rightarrow> bool) \<Rightarrow> ('s \<Rightarrow> usize \<Rightarrow> bytes) \<Rightarrow> (bytes \<Rightarrow> u32) \<Rightarrow> 's shm_channel \<Rightarrow> bytes list \<Rightarrow> bool" where
  "channel_holds io ok sb crc c ms \<longleftrightarrow>
     (\<exists>ws. channel_shape io ok sb c (map (\<lambda>(sq, f). committed_view sq f) ws) \<and>
        stored crc (ch_config c) (ch_expected_recv_seq c) ms ws \<and>
        ch_next_seq c = ch_expected_recv_seq c + word_of_nat (length ms))"

text \<open>The messages in the slots, and the specification state a channel stands for.\<close>

definition channel_messages :: "('s \<Rightarrow> usize \<Rightarrow> bytes) \<Rightarrow> 's shm_channel \<Rightarrow> bytes list" where
  "channel_messages sb c =
     messages_in (map snd (take (ch_len c) (rotate (ch_tail c) (region_view sb (ch_region c)))))"

definition channel_abs :: "('s \<Rightarrow> usize \<Rightarrow> bytes) \<Rightarrow> 's shm_channel \<Rightarrow> message_queue" where
  "channel_abs sb c = \<lparr>mq_config = ch_config c, mq_msgs = channel_messages sb c, mq_shut = ch_closed c\<rparr>"

definition channel_inv ::
  "'s slot_storage_ops \<Rightarrow> ('s \<Rightarrow> bool) \<Rightarrow> ('s \<Rightarrow> usize \<Rightarrow> bytes) \<Rightarrow> (bytes \<Rightarrow> u32) \<Rightarrow> 's shm_channel \<Rightarrow> bool" where
  "channel_inv io ok sb crc c \<longleftrightarrow> (\<exists>ms. channel_holds io ok sb crc c ms)"

definition same_meta :: "'s shm_channel \<Rightarrow> 's shm_channel \<Rightarrow> bool" where
  "same_meta c d \<longleftrightarrow> ch_config d = ch_config c \<and> ch_next_seq d = ch_next_seq c \<and>
     ch_expected_recv_seq d = ch_expected_recv_seq c \<and> ch_closed d = ch_closed c \<and>
     ch_last_received_seq d = ch_last_received_seq c"

lemma same_meta_refl [simp]: "same_meta c c"
  by (simp add: same_meta_def)

lemma same_meta_trans: "same_meta c d \<Longrightarrow> same_meta d e \<Longrightarrow> same_meta c e"
  by (simp add: same_meta_def)

lemma snd_committed_view [simp]: "snd (committed_view sq f) = f"
  by (simp add: committed_view_def)

lemma channel_holds_messages:
  assumes "channel_holds io ok sb crc c ms"
  shows "channel_messages sb c = ms" "ch_len c = used_slots (ch_config c) ms"
    "used_slots (ch_config c) ms \<le> capacity (ch_config c)"
proof -
  from assms obtain ws where ws: "channel_shape io ok sb c (map (\<lambda>(sq, f). committed_view sq f) ws)"
    "stored crc (ch_config c) (ch_expected_recv_seq c) ms ws" by (auto simp: channel_holds_def)
  then have cap: "0 < capacity (ch_config c)" and len: "length ws = ch_len c" "ch_len c \<le> capacity (ch_config c)"
    by (auto simp: channel_shape_def Let_def)
  have "take (ch_len c) (rotate (ch_tail c) (region_view sb (ch_region c))) =
      map (\<lambda>(sq, f). committed_view sq f) ws"
    using ws(1) len by (simp add: channel_shape_def Let_def)
  moreover have "map snd (map (\<lambda>(sq, f). committed_view sq f) ws) = map snd ws"
    by (simp add: split_def)
  ultimately show "channel_messages sb c = ms"
    using messages_in_stored [OF ws(2) cap] by (simp only: channel_messages_def)
  show "ch_len c = used_slots (ch_config c) ms" using stored_length [OF ws(2) cap] len by simp
  with len show "used_slots (ch_config c) ms \<le> capacity (ch_config c)" by simp
qed

lemma drop_for_done:
  "capacity cfg - used_slots cfg ms \<ge> n \<Longrightarrow> drop_for cfg n ms = ms"
  by (cases ms) auto

section \<open>Operations on the ring\<close>

context slot_storage
begin

abbreviation shape :: "'s shm_channel \<Rightarrow> slot_view list \<Rightarrow> bool" where
  "shape \<equiv> channel_shape io inv slot_bytes"

abbreviation holds :: "(bytes \<Rightarrow> u32) \<Rightarrow> 's shm_channel \<Rightarrow> bytes list \<Rightarrow> bool" where
  "holds \<equiv> channel_holds io inv slot_bytes"

text \<open>An update of the slot at distance \<open>k\<close> from the tail.\<close>

lemma shape_update:
  assumes shape: "shape c vs" and k: "k < length vs"
    and r: "region_inv io inv (capacity (ch_config c)) (st_slot_size io (storage (ch_region c))) r"
    and view: "region_view slot_bytes r = (region_view slot_bytes (ch_region c))[(ch_tail c + k) mod capacity (ch_config c) := v]"
  shows "shape (c\<lparr>ch_region := r\<rparr>) (vs[k := v])"
proof -
  let ?cap = "capacity (ch_config c)" and ?v = "region_view slot_bytes (ch_region c)"
  have n: "length ?v = ?cap" using shape by (simp add: channel_shape_def Let_def region_inv_def)
  have kc: "k < length ?v" using n k shape by (simp add: channel_shape_def Let_def)
  have "rotate (ch_tail c) (region_view slot_bytes r) = (rotate (ch_tail c) ?v)[k := v]"
    using rotate_update [OF kc, of "ch_tail c" v] view n by simp
  also have "\<dots> = vs[k := v] @ replicate (?cap - ch_len c) free_view"
    using shape k by (simp add: channel_shape_def Let_def list_update_append)
  finally show ?thesis using shape r by (simp add: channel_shape_def Let_def region_inv_def)
qed

lemma head_slot:
  assumes shape: "shape c vs" and room: "ch_len c < capacity (ch_config c)"
  shows "region_view slot_bytes (ch_region c) ! ch_head c = free_view" "ch_head c < capacity (ch_config c)"
proof -
  let ?cap = "capacity (ch_config c)" and ?v = "region_view slot_bytes (ch_region c)"
  have n: "length ?v = ?cap" using shape by (simp add: channel_shape_def Let_def region_inv_def)
  have "rotate (ch_tail c) ?v ! ch_len c = free_view"
    using shape room by (simp add: channel_shape_def Let_def nth_append)
  moreover have "rotate (ch_tail c) ?v ! ch_len c = ?v ! ch_head c"
    using nth_rotate [of "ch_len c" ?v "ch_tail c"] n room shape by (simp add: channel_shape_def Let_def)
  ultimately show "?v ! ch_head c = free_view" by simp
  show "ch_head c < ?cap" using shape by (simp add: channel_shape_def Let_def)
qed

lemma write_head_slot_shape:
  assumes shape: "shape c vs" and room: "ch_len c < capacity (ch_config c)"
    and len: "length f \<le> slot_size (ch_config c) + FRAME_HEADER_LEN"
  shows "\<exists>d. write_head_slot io sq f c = (Ok (), d) \<and> shape d (vs @ [committed_view sq f]) \<and> same_meta c d"
proof -
  let ?cap = "capacity (ch_config c)" and ?sz = "st_slot_size io (storage (ch_region c))"
  let ?v = "region_view slot_bytes (ch_region c)"
  have r: "region_inv io inv ?cap ?sz (ch_region c)" and len': "length f \<le> ?sz"
    using shape len by (simp_all add: channel_shape_def Let_def)
  have n: "length ?v = ?cap" using r by (simp add: region_inv_def)
  note head = head_slot [OF shape room]
  from write_committed_view [OF r head(2) _ len', of sq] head(1) obtain r' where
    r': "region_write_committed io (ch_head c) sq f (ch_region c) = (Ok (), r')"
      "region_inv io inv ?cap ?sz r'" "region_view slot_bytes r' = ?v[ch_head c := committed_view sq f]"
    by auto
  let ?d = "c\<lparr>ch_region := r', ch_head := next_index (ch_config c) (ch_head c), ch_len := ch_len c + 1\<rparr>"
  have run: "write_head_slot io sq f c = (Ok (), ?d)"
    using r'(1) by (simp add: write_head_slot_def on_region_def)
  have h: "ch_head c = (ch_tail c + ch_len c) mod ?cap" using shape by (simp add: channel_shape_def Let_def)
  have "rotate (ch_tail c) (region_view slot_bytes r') = (rotate (ch_tail c) ?v)[ch_len c := committed_view sq f]"
    using rotate_update [of "ch_len c" ?v "ch_tail c"] r'(3) n room h by simp
  also have "\<dots> = (vs @ [committed_view sq f]) @ replicate (?cap - Suc (ch_len c)) free_view"
  proof -
    obtain k where "?cap - ch_len c = Suc k" using room by (cases "?cap - ch_len c") auto
    then show ?thesis using shape by (auto simp: channel_shape_def Let_def list_update_append)
  qed
  finally have "shape ?d (vs @ [committed_view sq f])"
    using shape r' room by (simp add: channel_shape_def Let_def next_index_def mod_Suc_eq region_inv_def)
  with run show ?thesis by (auto simp: same_meta_def)
qed

lemma write_frames_shape:
  assumes "shape c vs" "ch_len c + length fs \<le> capacity (ch_config c)"
    and "\<forall>f \<in> set fs. length f \<le> slot_size (ch_config c) + FRAME_HEADER_LEN"
  shows "\<exists>d. for_each fs (write_head_slot io sq) c = (Ok (), d) \<and>
    shape d (vs @ map (committed_view sq) fs) \<and> same_meta c d"
  using assms
proof (induction fs arbitrary: c vs)
  case Nil
  then show ?case by simp
next
  case (Cons f fs)
  then obtain d where d: "write_head_slot io sq f c = (Ok (), d)" "shape d (vs @ [committed_view sq f])" "same_meta c d"
    using write_head_slot_shape [of c vs f sq] by auto
  have "ch_len d = Suc (ch_len c)" using d(2) Cons.prems(1) by (simp add: channel_shape_def Let_def)
  with Cons.IH [OF d(2)] Cons.prems d show ?case
    by (auto simp: same_meta_def)
qed

lemma tail_slot:
  assumes shape: "shape c (v # vs)"
  shows "region_view slot_bytes (ch_region c) ! ch_tail c = v" "ch_tail c < capacity (ch_config c)"
    "0 < ch_len c"
proof -
  let ?v = "region_view slot_bytes (ch_region c)"
  have n: "ch_tail c < length ?v" using shape by (simp add: channel_shape_def Let_def region_inv_def)
  have "rotate (ch_tail c) ?v ! 0 = v" using shape by (simp add: channel_shape_def Let_def)
  with rotate_nth_0 [OF n] show "?v ! ch_tail c = v" by simp
  show "ch_tail c < capacity (ch_config c)" "0 < ch_len c"
    using shape by (auto simp: channel_shape_def Let_def)
qed

lemma read_tail_slot_shape:
  assumes shape: "shape c (committed_view sq f # vs)"
  shows "\<exists>d. read_tail_slot io c =
      (Ok \<lparr>snap_state = Pinned, snap_seq = sq, snap_payload_len = length f, snap_data = f\<rparr>, d) \<and>
    shape d (pinned_view sq f # vs) \<and> same_meta c d \<and> ch_len d = ch_len c"
proof -
  have r: "region_inv io inv (capacity (ch_config c)) (st_slot_size io (storage (ch_region c))) (ch_region c)"
    using shape by (simp add: channel_shape_def Let_def)
  note t = tail_slot [OF shape]
  from read_committed_view [OF r t(2,1)] obtain r' where
    r': "region_read_committed io (ch_tail c) (ch_region c) =
       (Ok \<lparr>snap_state = Pinned, snap_seq = sq, snap_payload_len = length f, snap_data = f\<rparr>, r')"
      "region_inv io inv (capacity (ch_config c)) (st_slot_size io (storage (ch_region c))) r'"
      "region_view slot_bytes r' = (region_view slot_bytes (ch_region c))[ch_tail c := pinned_view sq f]"
    by blast
  have "shape (c\<lparr>ch_region := r'\<rparr>) (pinned_view sq f # vs)"
    using shape_update [OF shape _ r'(2), of 0 "pinned_view sq f"] r'(3) t(2) by simp
  with r'(1) show ?thesis
    by (auto simp: read_tail_slot_def on_region_def same_meta_def)
qed

text \<open>Releasing the tail slot, whose entry becomes free, and advancing past it.\<close>

lemma pop_tail_shape:
  assumes shape: "shape c (free_view # vs)"
  shows "\<exists>d. pop_tail c = (Ok (), d) \<and> shape d vs \<and> same_meta c d \<and> Suc (ch_len d) = ch_len c"
proof -
  let ?cap = "capacity (ch_config c)" and ?v = "region_view slot_bytes (ch_region c)"
  let ?d = "c\<lparr>ch_tail := next_index (ch_config c) (ch_tail c), ch_len := ch_len c - 1\<rparr>"
  have n: "length ?v = ?cap" using shape by (simp add: channel_shape_def Let_def region_inv_def)
  have pos: "0 < ch_len c" using tail_slot(3) [OF shape] .
  have run: "pop_tail c = (Ok (), ?d)" using pos by (simp add: pop_tail_def)
  have rot: "rotate (ch_tail c) ?v = free_view # (vs @ replicate (?cap - ch_len c) free_view)"
    using shape by (simp add: channel_shape_def Let_def)
  have "rotate ((ch_tail c + 1) mod ?cap) ?v = vs @ replicate (?cap - ch_len c) free_view @ [free_view]"
    using rotate_step [OF rot] n by simp
  also have "\<dots> = vs @ replicate (?cap - (ch_len c - 1)) free_view"
  proof -
    have "?cap - (ch_len c - 1) = Suc (?cap - ch_len c)" using shape pos by (auto simp: channel_shape_def Let_def)
    then show ?thesis by (simp add: replicate_append_same)
  qed
  finally have "shape ?d vs"
    using shape pos by (cases "ch_len c") (auto simp: channel_shape_def Let_def next_index_def mod_simps)
  with run pos show ?thesis by (auto simp: same_meta_def)
qed

lemma release_tail_shape:
  assumes shape: "shape c (pinned_view sq f # vs)"
  shows "\<exists>d. release_pinned_tail io c = (Ok (), d) \<and> shape d (free_view # vs) \<and> same_meta c d \<and> ch_len d = ch_len c"
proof -
  have r: "region_inv io inv (capacity (ch_config c)) (st_slot_size io (storage (ch_region c))) (ch_region c)"
    using shape by (simp add: channel_shape_def Let_def)
  note t = tail_slot [OF shape]
  from release_pinned_view [OF r t(2,1)] obtain r' where
    r': "region_release_pinned io (ch_tail c) (ch_region c) = (Ok (), r')"
      "region_inv io inv (capacity (ch_config c)) (st_slot_size io (storage (ch_region c))) r'"
      "region_view slot_bytes r' = (region_view slot_bytes (ch_region c))[ch_tail c := free_view]"
    by blast
  have "shape (c\<lparr>ch_region := r'\<rparr>) (free_view # vs)"
    using shape_update [OF shape _ r'(2), of 0 free_view] r'(3) t(2) by simp
  with r'(1) show ?thesis by (auto simp: release_pinned_tail_def on_region_def same_meta_def)
qed

lemma advance_tail_shape:
  assumes "shape c (pinned_view sq f # vs)"
  shows "\<exists>d. advance_tail_after_read io c = (Ok (), d) \<and> shape d vs \<and> same_meta c d \<and> Suc (ch_len d) = ch_len c"
proof -
  from release_tail_shape [OF assms] obtain e where
    e: "release_pinned_tail io c = (Ok (), e)" "shape e (free_view # vs)" "same_meta c e" "ch_len e = ch_len c" by blast
  from pop_tail_shape [OF e(2)] obtain d where "pop_tail e = (Ok (), d)" "shape d vs" "same_meta e d" "Suc (ch_len d) = ch_len e"
    by blast
  with e show ?thesis by (auto simp: advance_tail_after_read_def intro: same_meta_trans)
qed

lemma drop_slots_shape:
  assumes "shape c (map (committed_view sq) fs @ vs)"
  shows "\<exists>d. drop_tail_slots io (length fs) c = (Ok (), d) \<and> shape d vs \<and> same_meta c d \<and> ch_len d + length fs = ch_len c"
  using assms
proof (induction fs arbitrary: c)
  case Nil
  then show ?case by simp
next
  case (Cons f fs)
  then have shape: "shape c (committed_view sq f # (map (committed_view sq) fs @ vs))" by simp
  have r: "region_inv io inv (capacity (ch_config c)) (st_slot_size io (storage (ch_region c))) (ch_region c)"
    using shape by (simp add: channel_shape_def Let_def)
  note t = tail_slot [OF shape]
  from release_committed_view [OF r t(2,1)] obtain r' where
    r': "region_release_committed io (ch_tail c) (ch_region c) = (Ok (), r')"
      "region_inv io inv (capacity (ch_config c)) (st_slot_size io (storage (ch_region c))) r'"
      "region_view slot_bytes r' = (region_view slot_bytes (ch_region c))[ch_tail c := free_view]"
    by blast
  have "shape (c\<lparr>ch_region := r'\<rparr>) (free_view # (map (committed_view sq) fs @ vs))"
    using shape_update [OF shape _ r'(2), of 0 free_view] r'(3) t(2) by simp
  from pop_tail_shape [OF this] obtain e where e: "pop_tail (c\<lparr>ch_region := r'\<rparr>) = (Ok (), e)"
    "shape e (map (committed_view sq) fs @ vs)" "same_meta (c\<lparr>ch_region := r'\<rparr>) e" "Suc (ch_len e) = ch_len c"
    by auto
  from Cons.IH [OF e(2)] e r'(1) show ?case
    by (auto simp: on_region_def same_meta_def)
qed

text \<open>The remaining chunks of a message.\<close>

lemma recv_chunks_shape:
  assumes "shape c (map (committed_view sq) fs @ vs)" "length cs = length fs"
    and "\<forall>j < length fs. \<exists>f. decode_frame (fs ! j) = Ok f \<and>
      chunk_frame_ok crc sq (i + j) (ci_total first) (ci_message_len first) (cs ! j) f"
  shows "\<exists>d. recv_chunks io crc sq first [i..<i + length fs] acc c = (Ok (acc @ concat cs), d) \<and>
    shape d vs \<and> same_meta c d"
  using assms
proof (induction fs arbitrary: c i cs acc)
  case Nil
  then show ?case by simp
next
  case (Cons b fs)
  then obtain x cs' where cs: "cs = x # cs'" by (cases cs) auto
  from Cons.prems(3) cs obtain f where f: "decode_frame b = Ok f"
    "chunk_frame_ok crc sq i (ci_total first) (ci_message_len first) x f" by force
  from Cons.prems(1) have "shape c (committed_view sq b # (map (committed_view sq) fs @ vs))" by simp
  from read_tail_slot_shape [OF this] obtain d1 where
    d1: "read_tail_slot io c = (Ok \<lparr>snap_state = Pinned, snap_seq = sq, snap_payload_len = length b, snap_data = b\<rparr>, d1)"
      "shape d1 (pinned_view sq b # (map (committed_view sq) fs @ vs))" "same_meta c d1" by blast
  from advance_tail_shape [OF d1(2)] obtain d2 where
    d2: "advance_tail_after_read io d1 = (Ok (), d2)" "shape d2 (map (committed_view sq) fs @ vs)" "same_meta d1 d2" by blast
  have "\<forall>j < length fs. \<exists>f. decode_frame (fs ! j) = Ok f \<and>
      chunk_frame_ok crc sq (Suc i + j) (ci_total first) (ci_message_len first) (cs' ! j) f"
    using Cons.prems(3) cs by force
  from Cons.IH [OF d2(2) _ this, of "acc @ x"] Cons.prems(2) cs obtain d where
    d: "recv_chunks io crc sq first [Suc i..<Suc i + length fs] (acc @ x) d2 = (Ok (acc @ x @ concat cs'), d)"
      "shape d vs" "same_meta d2 d" by auto
  have range: "[i..<i + length (b # fs)] = i # [Suc i..<Suc i + length fs]" by (simp add: upt_rec)
  have "recv_chunks io crc sq first [i..<i + length (b # fs)] acc c = (Ok (acc @ concat cs), d)"
    unfolding range using d1(1) d2(1) d(1) f cs
    by (simp add: chunk_frame_ok_def chunk_info_update)
  with d d1(3) d2(3) show ?case by (auto intro: same_meta_trans)
qed

section \<open>Messages in and out\<close>

lemma holds_Cons:
  assumes "holds crc c (m # ms)"
  obtains fs ws where "fs \<noteq> []" "length m \<le> isize_max"
    "message_frames crc (ch_expected_recv_seq c) (slot_size (ch_config c)) m fs"
    "shape c (map (committed_view (ch_expected_recv_seq c)) fs @ map (\<lambda>(sq, f). committed_view sq f) ws)"
    "stored crc (ch_config c) (ch_expected_recv_seq c + 1) ms ws"
    "ch_next_seq c = ch_expected_recv_seq c + 1 + word_of_nat (length ms)"
proof -
  let ?sq = "ch_expected_recv_seq c"
  from assms obtain ws where ws: "shape c (map (\<lambda>(sq, f). committed_view sq f) ws)"
    "stored crc (ch_config c) ?sq (m # ms) ws" "ch_next_seq c = ?sq + word_of_nat (length (m # ms))"
    by (auto simp: channel_holds_def)
  then obtain plan fs ws' where s: "length m \<le> isize_max" "send_plan_of (ch_config c) (length m) = Ok plan"
    "encode_message_frames crc (ch_config c) plan ?sq m = Ok fs" "ws = map (Pair ?sq) fs @ ws'"
    "stored crc (ch_config c) (?sq + 1) ms ws'" by auto
  have "0 < capacity (ch_config c)" using ws(1) by (simp add: channel_shape_def Let_def)
  note e = encoded_message [OF s(2) this s(1,3)]
  have "map (\<lambda>(sq, f). committed_view sq f) ws =
      map (committed_view ?sq) fs @ map (\<lambda>(sq, f). committed_view sq f) ws'"
    by (simp add: s(4) o_def)
  with that [OF e(3) s(1) e(2) _ s(5)] ws show thesis by simp
qed

lemma recv_chunked_shape:
  assumes c: "shape c (pinned_view sq b # (map (committed_view sq) bs @ vs))"
    and cs: "length cs = Suc (length bs)" "concat cs = m" and m: "length m \<le> isize_max" and pos: "bs \<noteq> []"
    and frames: "\<forall>j < Suc (length bs). \<exists>f. decode_frame ((b # bs) ! j) = Ok f \<and>
      chunk_frame_ok crc sq j (Suc (length bs)) (length m) (cs ! j) f"
    and f: "decode_frame b = Ok f"
  shows "\<exists>d. recv_chunked_message io crc sq f c = (Ok m, d) \<and> shape d vs \<and> same_meta c d"
proof -
  obtain x cs' where csx: "cs = x # cs'" using cs(1) by (cases cs) auto
  let ?info = "\<lparr>ci_index = 0, ci_total = Suc (length bs), ci_message_len = length m\<rparr>"
  have ok: "chunk_frame_ok crc sq 0 (Suc (length bs)) (length m) x f" using frames f csx by force
  from advance_tail_shape [OF c] obtain d1 where
    d1: "advance_tail_after_read io c = (Ok (), d1)" "shape d1 (map (committed_view sq) bs @ vs)" "same_meta c d1" by blast
  have "\<forall>j < length bs. \<exists>f. decode_frame (bs ! j) = Ok f \<and>
      chunk_frame_ok crc sq (1 + j) (ci_total ?info) (ci_message_len ?info) (cs' ! j) f"
    using frames csx by force
  from recv_chunks_shape [OF d1(2) _ this, of x] cs csx obtain d where
    "recv_chunks io crc sq ?info [1..<Suc (length bs)] x d1 = (Ok m, d)" "shape d vs" "same_meta d1 d" by auto
  with d1 ok m show ?thesis
    by (auto simp: recv_chunked_message_def chunk_frame_ok_def simp del: upt_Suc intro: same_meta_trans)
qed

lemma recv_message_shape:
  assumes mf: "message_frames crc sq limit m fs" and m: "length m \<le> isize_max"
    and c: "shape c (map (committed_view sq) fs @ vs)" and sq: "ch_expected_recv_seq c = sq"
  shows "\<exists>d. channel_recv_with_seq io crc c = (Ok \<lparr>rm_seq = sq, rm_payload = m\<rparr>, d) \<and> shape d vs \<and>
    ch_config d = ch_config c \<and> ch_next_seq d = ch_next_seq c \<and> ch_closed d = ch_closed c \<and>
    ch_expected_recv_seq d = sq + 1 \<and> ch_last_received_seq d = Some sq"
proof -
  obtain b bs where fs: "fs = b # bs" using mf by (cases fs) (auto simp: message_frames_def)
  from c fs have "shape c (committed_view sq b # (map (committed_view sq) bs @ vs))" by simp
  note r = read_tail_slot_shape [OF this] and n = tail_slot(3) [OF this]
  from r obtain d1 where
    d1: "read_tail_slot io c = (Ok \<lparr>snap_state = Pinned, snap_seq = sq, snap_payload_len = length b, snap_data = b\<rparr>, d1)"
      "shape d1 (pinned_view sq b # (map (committed_view sq) bs @ vs))" "same_meta c d1" by blast
  have meta: "shape (d\<lparr>ch_expected_recv_seq := s, ch_last_received_seq := l\<rparr>) vs" if "shape d vs" for d s l
    using that by (simp add: channel_shape_def)
  from mf fs consider
    f where "bs = []" "decode_frame b = Ok f" "validate_bytes_frame crc f = Ok ()"
      "hdr_seq (header f) = sq" "\<not> is_chunked f" "payload f = m"
  | cs where "bs \<noteq> []" "length cs = Suc (length bs)" "concat cs = m"
      "\<forall>j < Suc (length bs). \<exists>f. decode_frame ((b # bs) ! j) = Ok f \<and>
        chunk_frame_ok crc sq j (Suc (length bs)) (length m) (cs ! j) f"
    unfolding message_frames_def by auto
  then show ?thesis
  proof cases
    case (1 f)
    from advance_tail_shape [OF d1(2)] 1(1) obtain d2 where
      d2: "advance_tail_after_read io d1 = (Ok (), d2)" "shape d2 vs" "same_meta d1 d2" by auto
    with 1 d1 n sq meta [OF d2(2)] show ?thesis
      by (auto simp: channel_recv_with_seq_def expect_next_def same_meta_def)
  next
    case (2 cs)
    from 2(4) obtain f where f: "decode_frame b = Ok f" "chunk_frame_ok crc sq 0 (Suc (length bs)) (length m) (cs ! 0) f"
      by force
    from recv_chunked_shape [OF d1(2) 2(2,3) m 2(1,4) f(1)] obtain d2 where
      d2: "recv_chunked_message io crc sq f d1 = (Ok m, d2)" "shape d2 vs" "same_meta d1 d2" by blast
    with f d1 n sq meta [OF d2(2)] show ?thesis
      by (auto simp: channel_recv_with_seq_def expect_next_def same_meta_def chunk_frame_ok_def)
  qed
qed

lemma recv_holds:
  assumes "holds crc c (m # ms)"
  shows "\<exists>d. channel_recv_with_seq io crc c = (Ok \<lparr>rm_seq = ch_expected_recv_seq c, rm_payload = m\<rparr>, d) \<and>
    holds crc d ms \<and> ch_config d = ch_config c \<and> ch_closed d = ch_closed c \<and>
    ch_expected_recv_seq d = ch_expected_recv_seq c + 1"
proof -
  from assms obtain fs ws where h: "length m \<le> isize_max"
    "message_frames crc (ch_expected_recv_seq c) (slot_size (ch_config c)) m fs"
    "shape c (map (committed_view (ch_expected_recv_seq c)) fs @ map (\<lambda>(sq, f). committed_view sq f) ws)"
    "stored crc (ch_config c) (ch_expected_recv_seq c + 1) ms ws"
    "ch_next_seq c = ch_expected_recv_seq c + 1 + word_of_nat (length ms)" by (rule holds_Cons)
  from recv_message_shape [OF h(2,1,3) refl] h(4,5) show ?thesis
    by (auto simp: channel_holds_def)
qed

lemma recv_none:
  assumes "holds crc c []"
  shows "channel_recv_with_seq io crc c = (ChanErr (if ch_closed c then Closed else BufferEmpty), c)"
  using assms channel_holds_messages(2) [OF assms] by (simp add: channel_recv_with_seq_def)

lemma drop_holds:
  assumes "holds crc c (m # ms)"
  shows "\<exists>d. drop_oldest_message io c = (Ok (), d) \<and> holds crc d ms \<and> ch_config d = ch_config c \<and>
    ch_closed d = ch_closed c"
proof -
  let ?sq = "ch_expected_recv_seq c"
  from assms obtain fs ws where h: "fs \<noteq> []" "message_frames crc ?sq (slot_size (ch_config c)) m fs"
    "shape c (map (committed_view ?sq) fs @ map (\<lambda>(sq, f). committed_view sq f) ws)"
    "stored crc (ch_config c) (?sq + 1) ms ws"
    "ch_next_seq c = ?sq + 1 + word_of_nat (length ms)" by (rule holds_Cons)
  obtain b bs where fs: "fs = b # bs" using h(1) by (cases fs) auto
  from h(3) fs have sh: "shape c (committed_view ?sq b # (map (committed_view ?sq) bs @ map (\<lambda>(sq, f). committed_view sq f) ws))"
    by simp
  have r: "region_inv io inv (capacity (ch_config c)) (st_slot_size io (storage (ch_region c))) (ch_region c)"
    using sh by (simp add: channel_shape_def Let_def)
  note t = tail_slot [OF sh]
  note peek = peek_committed_view [OF r t(2,1)]
  have drop: "\<exists>f. decode_frame b = Ok f \<and> slots_to_drop f = Ok (length fs)"
    using h(2) fs unfolding message_frames_def
    by (force simp: slots_to_drop_def chunk_frame_ok_def)
  from drop_slots_shape [OF h(3)] obtain d where d: "drop_tail_slots io (length fs) c = (Ok (), d)"
    "shape d (map (\<lambda>(sq, f). committed_view sq f) ws)" "same_meta c d" by blast
  let ?d = "d\<lparr>ch_expected_recv_seq := ch_expected_recv_seq d + 1\<rparr>"
  have "drop_oldest_message io c = (Ok (), ?d)"
    using peek drop t(3) d(1) by (auto simp: drop_oldest_message_def)
  moreover have "shape ?d (map (\<lambda>(sq, f). committed_view sq f) ws)"
    using d(2) by (simp add: channel_shape_def)
  ultimately show ?thesis
    using h(4,5) d(3) by (auto simp: channel_holds_def same_meta_def)
qed

section \<open>Send\<close>

lemma holds_geometry:
  assumes "holds crc c ms"
  shows "0 < capacity (ch_config c)" "free_slots c = Ok (capacity (ch_config c) - used_slots (ch_config c) ms)"
    "ch_len c = used_slots (ch_config c) ms"
  using assms channel_holds_messages [OF assms]
  by (auto simp: channel_holds_def channel_shape_def Let_def free_slots_def)

lemma holds_slots_pos:
  assumes "holds crc c (m # ms)"
  shows "0 < slots_of (ch_config c) m" "used_slots (ch_config c) (m # ms) \<le> capacity (ch_config c)"
proof -
  from assms have "0 < capacity (ch_config c)" by (rule holds_geometry)
  moreover from assms obtain plan where "send_plan_of (ch_config c) (length m) = Ok plan"
    by (auto simp: channel_holds_def)
  ultimately show "0 < slots_of (ch_config c) m" using needed_slots_bounds(1) by fastforce
  show "used_slots (ch_config c) (m # ms) \<le> capacity (ch_config c)"
    using channel_holds_messages(3) [OF assms] .
qed

lemma drop_until_holds:
  assumes "holds crc c ms" "needed \<le> capacity (ch_config c)" "used_slots (ch_config c) ms < fuel"
  shows "\<exists>d. drop_until_free io fuel needed c = (Ok (), d) \<and>
    holds crc d (drop_for (ch_config c) needed ms) \<and> ch_config d = ch_config c \<and> ch_closed d = ch_closed c"
  using assms
proof (induction ms arbitrary: c fuel)
  case Nil
  then show ?case using holds_geometry [OF Nil.prems(1)] by (cases fuel) auto
next
  case (Cons m ms)
  obtain k where fuel: "fuel = Suc k" using Cons.prems(3) by (cases fuel) auto
  note g = holds_geometry [OF Cons.prems(1)]
  show ?case
  proof (cases "capacity (ch_config c) - used_slots (ch_config c) (m # ms) < needed")
    case False
    with g Cons.prems(1) fuel show ?thesis by simp
  next
    case True
    from drop_holds [OF Cons.prems(1)] obtain d where d: "drop_oldest_message io c = (Ok (), d)"
      "holds crc d ms" "ch_config d = ch_config c" "ch_closed d = ch_closed c" by blast
    have "used_slots (ch_config d) ms < k"
      using Cons.prems(3) fuel holds_slots_pos(1) [OF Cons.prems(1)] d(3) by simp
    from Cons.IH [OF d(2) _ this] Cons.prems(2) d(3) obtain e where
      "drop_until_free io k needed d = (Ok (), e)" "holds crc e (drop_for (ch_config c) needed ms)"
      "ch_config e = ch_config c" "ch_closed e = ch_closed d" by auto
    with g(2) d True fuel show ?thesis by simp
  qed
qed

text \<open>Numbering, encoding and writing a message that fits.\<close>

lemma append_holds:
  assumes c: "holds crc c ms" and plan: "send_plan_of (ch_config c) (length m) = Ok plan"
    and m: "length m \<le> isize_max"
    and room: "used_slots (ch_config c) ms + needed_slots plan \<le> capacity (ch_config c)"
    and fs: "encode_message_frames crc (ch_config c) plan (ch_next_seq c) m = Ok fs"
  shows "\<exists>d. for_each fs (write_head_slot io (ch_next_seq c)) (c\<lparr>ch_next_seq := ch_next_seq c + 1\<rparr>) = (Ok (), d) \<and>
    holds crc d (ms @ [m]) \<and> ch_config d = ch_config c \<and> ch_closed d = ch_closed c"
proof -
  let ?sq = "ch_next_seq c" and ?c = "c\<lparr>ch_next_seq := ch_next_seq c + 1\<rparr>"
  note g = holds_geometry [OF c] and e = encoded_message [OF plan _ m fs]
  from c obtain ws where ws: "shape c (map (\<lambda>(sq, f). committed_view sq f) ws)"
    "stored crc (ch_config c) (ch_expected_recv_seq c) ms ws"
    "?sq = ch_expected_recv_seq c + word_of_nat (length ms)" by (auto simp: channel_holds_def)
  have "shape ?c (map (\<lambda>(sq, f). committed_view sq f) ws)" using ws(1) by (simp add: channel_shape_def)
  moreover have "ch_len ?c + length fs \<le> capacity (ch_config ?c)" using g room e(1) by simp
  moreover have "\<forall>f \<in> set fs. length f \<le> slot_size (ch_config ?c) + FRAME_HEADER_LEN"
    using e(2) g(1) by (simp add: message_frames_def)
  ultimately obtain d where d: "for_each fs (write_head_slot io ?sq) ?c = (Ok (), d)"
    "shape d (map (\<lambda>(sq, f). committed_view sq f) ws @ map (committed_view ?sq) fs)" "same_meta ?c d"
    using write_frames_shape by metis
  have "stored crc (ch_config c) (ch_expected_recv_seq c) (ms @ [m]) (ws @ map (Pair ?sq) fs)"
    using ws(2,3) m plan fs by (auto simp: stored_append)
  moreover have "map (\<lambda>(sq, f). committed_view sq f) (ws @ map (Pair ?sq) fs) =
      map (\<lambda>(sq, f). committed_view sq f) ws @ map (committed_view ?sq) fs" by (simp add: o_def)
  ultimately have "holds crc d (ms @ [m])"
    using d(2,3) ws(3) unfolding channel_holds_def same_meta_def
    by (intro exI [of _ "ws @ map (Pair ?sq) fs"]) (simp add: add.commute o_def)
  with d show ?thesis by (simp add: same_meta_def)
qed

lemma poll_space_full:
  "free_slots c = Ok free \<Longrightarrow> free < needed \<Longrightarrow> poll_space polls needed c = ChanErr BufferFull"
  by (induction polls) auto

lemma wait_for_space_full:
  "free_slots c = Ok free \<Longrightarrow> free < needed \<Longrightarrow> wait_for_space polls needed c = ChanErr BufferFull"
  by (simp add: wait_for_space_def poll_space_full split: option.split)

lemma drop_for_room:
  "needed \<le> capacity cfg \<Longrightarrow> used_slots cfg (drop_for cfg needed ms) + needed \<le> capacity cfg \<or>
     used_slots cfg (drop_for cfg needed ms) > capacity cfg"
  by (induction ms) auto

lemma drop_for_used: "used_slots cfg (drop_for cfg needed ms) \<le> used_slots cfg ms"
  by (induction ms) auto

text \<open>Every outcome of a send is the outcome of the specification.\<close>

lemma send_refines:
  assumes c: "holds crc c ms" and m: "length m \<le> isize_max"
  shows "\<exists>d. channel_send io crc polls m c =
      (fst (queue_send m \<lparr>mq_config = ch_config c, mq_msgs = ms, mq_shut = ch_closed c\<rparr>), d) \<and>
    holds crc d (mq_msgs (snd (queue_send m \<lparr>mq_config = ch_config c, mq_msgs = ms, mq_shut = ch_closed c\<rparr>))) \<and>
    ch_config d = ch_config c \<and> ch_closed d = ch_closed c"
proof (cases "\<not> ch_closed c \<and> (\<exists>plan. send_plan_of (ch_config c) (length m) = Ok plan)")
  case False
  then show ?thesis using c
    by (cases "send_plan_of (ch_config c) (length m)") (auto simp: channel_send_def queue_send_def)
next
  case True
  then obtain plan where plan: "send_plan_of (ch_config c) (length m) = Ok plan" and opened: "\<not> ch_closed c" by blast
  note g = holds_geometry [OF c]
  have used: "used_slots (ch_config c) ms \<le> capacity (ch_config c)" using channel_holds_messages(3) [OF c] .
  have need: "needed_slots plan \<le> capacity (ch_config c)" using needed_slots_bounds(2) [OF plan g(1)] .
  have written: "\<exists>d'. bind (gets ch_next_seq) (\<lambda>sq. seq (modify (\<lambda>c. c\<lparr>ch_next_seq := sq + 1\<rparr>))
      (bind (lift (encode_message_frames crc (ch_config c) plan sq m)) (\<lambda>fs. for_each fs (write_head_slot io sq)))) d = (Ok (), d') \<and>
      holds crc d' (ns @ [m]) \<and> ch_config d' = ch_config c \<and> ch_closed d' = ch_closed c"
    if "holds crc d ns" "ch_config d = ch_config c" "ch_closed d = ch_closed c"
      "used_slots (ch_config c) ns + needed_slots plan \<le> capacity (ch_config c)" for d ns
  proof -
    obtain fs where fs: "encode_message_frames crc (ch_config c) plan (ch_next_seq d) m = Ok fs"
      using encode_message_frames_Ok [OF plan g(1) m] by metis
    from append_holds [of crc d ns m plan fs] that plan m fs show ?thesis by auto
  qed
  show ?thesis
  proof (cases "needed_slots plan \<le> capacity (ch_config c) - used_slots (ch_config c) ms")
    case True
    have "used_slots (ch_config c) ms + needed_slots plan \<le> capacity (ch_config c)" using True used by simp
    from written [OF c refl refl this] opened plan need g True show ?thesis
      by (simp add: channel_send_def queue_send_def prepare_send_slots_def Let_def)
  next
    case False
    show ?thesis
    proof (cases "backpressure (ch_config c)")
      case Block
      then show ?thesis using False opened plan need g c wait_for_space_full [OF g(2)]
        by (simp add: channel_send_def queue_send_def prepare_send_slots_def Let_def)
    next
      case Raise
      then show ?thesis using False opened plan need g c
        by (simp add: channel_send_def queue_send_def prepare_send_slots_def Let_def)
    next
      case DropNewest
      then show ?thesis using False opened plan need g c
        by (simp add: channel_send_def queue_send_def prepare_send_slots_def Let_def)
    next
      case DropOldest
      from drop_until_holds [OF c need, of "Suc (ch_len c)"] g(3) obtain d where
        d: "drop_until_free io (Suc (ch_len c)) (needed_slots plan) c = (Ok (), d)"
          "holds crc d (drop_for (ch_config c) (needed_slots plan) ms)" "ch_config d = ch_config c"
          "ch_closed d = ch_closed c" by auto
      have "used_slots (ch_config c) (drop_for (ch_config c) (needed_slots plan) ms) + needed_slots plan
          \<le> capacity (ch_config c)"
        using drop_for_room [OF need, of ms] drop_for_used [of "ch_config c" "needed_slots plan" ms] used by linarith
      from written [OF d(2-4) this] DropOldest False opened plan need g(1,2) d(1) show ?thesis
        by (simp add: channel_send_def queue_send_def prepare_send_slots_def Let_def del: drop_until_free.simps)
    qed
  qed
qed

lemma recv_refines:
  assumes c: "holds crc c ms"
  shows "\<exists>d. channel_recv io crc c =
      (fst (queue_recv \<lparr>mq_config = ch_config c, mq_msgs = ms, mq_shut = ch_closed c\<rparr>), d) \<and>
    holds crc d (mq_msgs (snd (queue_recv \<lparr>mq_config = ch_config c, mq_msgs = ms, mq_shut = ch_closed c\<rparr>))) \<and>
    ch_config d = ch_config c \<and> ch_closed d = ch_closed c"
proof (cases ms)
  case Nil
  with c recv_none show ?thesis by (simp add: channel_recv_def queue_recv_def)
next
  case (Cons m ms')
  with c recv_holds [of crc c m ms'] show ?thesis by (auto simp: channel_recv_def queue_recv_def)
qed

text \<open>The same in terms of the specification state of a channel.\<close>

lemma channel_refines_queue:
  assumes c: "channel_inv io inv slot_bytes crc c" and m: "length m \<le> isize_max"
  shows "map_prod id (channel_abs slot_bytes) (channel_send io crc polls m c) = queue_send m (channel_abs slot_bytes c)"
    "map_prod id (channel_abs slot_bytes) (channel_recv io crc c) = queue_recv (channel_abs slot_bytes c)"
    "channel_inv io inv slot_bytes crc (snd (channel_send io crc polls m c))"
    "channel_inv io inv slot_bytes crc (snd (channel_recv io crc c))"
proof -
  from c obtain ms where ms: "holds crc c ms" by (auto simp: channel_inv_def)
  have abs: "channel_abs slot_bytes d = \<lparr>mq_config = ch_config c, mq_msgs = ns, mq_shut = ch_closed c\<rparr>"
    if "holds crc d ns" "ch_config d = ch_config c" "ch_closed d = ch_closed c" for d ns
    using that channel_holds_messages(1) [OF that(1)] by (simp add: channel_abs_def)
  have eta: "q = \<lparr>mq_config = ch_config c, mq_msgs = mq_msgs q, mq_shut = ch_closed c\<rparr>"
    if "mq_config q = ch_config c" "mq_shut q = ch_closed c" for q :: message_queue using that by simp
  let ?q = "channel_abs slot_bytes c"
  have q: "?q = \<lparr>mq_config = ch_config c, mq_msgs = ms, mq_shut = ch_closed c\<rparr>" using abs [OF ms] by simp
  have keep: "mq_config (snd (queue_send m ?q)) = ch_config c" "mq_shut (snd (queue_send m ?q)) = ch_closed c"
    "mq_config (snd (queue_recv ?q)) = ch_config c" "mq_shut (snd (queue_recv ?q)) = ch_closed c"
    by (auto simp: q queue_send_def queue_recv_def Let_def split: outcome.split backpressure.split list.split)
  from send_refines [OF ms m, of polls] q obtain d where
    d: "channel_send io crc polls m c = (fst (queue_send m ?q), d)" "holds crc d (mq_msgs (snd (queue_send m ?q)))"
      "ch_config d = ch_config c" "ch_closed d = ch_closed c" by metis
  from recv_refines [OF ms] q obtain e where
    e: "channel_recv io crc c = (fst (queue_recv ?q), e)" "holds crc e (mq_msgs (snd (queue_recv ?q)))"
      "ch_config e = ch_config c" "ch_closed e = ch_closed c" by metis
  show "map_prod id (channel_abs slot_bytes) (channel_send io crc polls m c) = queue_send m ?q"
    using d abs [OF d(2-4)] eta [OF keep(1,2)] by (simp add: prod_eq_iff)
  show "map_prod id (channel_abs slot_bytes) (channel_recv io crc c) = queue_recv ?q"
    using e abs [OF e(2-4)] eta [OF keep(3,4)] by (simp add: prod_eq_iff)
  show "channel_inv io inv slot_bytes crc (snd (channel_send io crc polls m c))"
    "channel_inv io inv slot_bytes crc (snd (channel_recv io crc c))"
    using d e by (auto simp: channel_inv_def)
qed

text \<open>A freshly built channel is empty.\<close>

lemma with_storage_holds:
  assumes "inv s" "channel_with_storage io cfg s = Ok c"
  shows "holds crc c []" "ch_config c = cfg" "\<not> ch_closed c"
proof -
  from assms(2) obtain r where r: "region_with_storage io s = Ok r" "0 < capacity cfg"
    "st_capacity io s = capacity cfg" "slot_size cfg + FRAME_HEADER_LEN \<le> st_slot_size io s"
    and c: "c = \<lparr>ch_config = cfg, ch_region = r, ch_head = 0, ch_tail = 0, ch_len = 0, ch_next_seq = 0,
         ch_expected_recv_seq = 0, ch_last_received_seq = None, ch_closed = False\<rparr>"
    by (auto simp: channel_with_storage_def split: if_splits)
  have "storage r = s" using r(1) by (auto simp: region_with_storage_def Let_def split: if_splits)
  with with_storage_view [OF assms(1) r(1)] r
  show "holds crc c []" by (simp add: channel_holds_def channel_shape_def c)
  show "ch_config c = cfg" "\<not> ch_closed c" by (simp_all add: c)
qed

end

end
