(* ===== verification/Shm_Channel_Properties.thy ===== *)
theory Shm_Channel_Properties
  imports Shm_Channel_Refinement
begin

text \<open>
  The channel over any well-behaved slot storage is a FIFO channel (\<open>sublocale\<close>), hence so is the
  channel over memory; the properties of \<open>ShmSpscChannel\<close>, including how it treats damaged slots.
\<close>

section \<open>A FIFO channel over every storage\<close>

text \<open>The slots a message needs are free.\<close>

definition channel_room :: "'s shm_channel \<Rightarrow> bytes \<Rightarrow> bool" where
  "channel_room c m \<longleftrightarrow> \<not> ch_closed c \<and> length m \<le> isize_max \<and>
     (case send_plan_of (ch_config c) (length m) of
        Ok plan \<Rightarrow> ch_len c + needed_slots plan \<le> capacity (ch_config c) | _ \<Rightarrow> False)"

sublocale slot_storage \<subseteq> fifo: fifo_channel "channel_send io crc polls" "channel_recv io crc"
  "channel_inv io inv slot_bytes crc" "channel_messages slot_bytes" channel_room
  for crc polls
proof
  fix c :: "'s shm_channel" and m
  assume c: "channel_inv io inv slot_bytes crc c" and room: "channel_room c m"
  then obtain plan ms where plan: "send_plan_of (ch_config c) (length m) = Ok plan" and ms: "holds crc c ms"
    and fit: "ch_len c + needed_slots plan \<le> capacity (ch_config c)" and opened: "\<not> ch_closed c"
    and len: "length m \<le> isize_max"
    by (auto simp: channel_room_def channel_inv_def split: outcome.splits)
  note h = channel_holds_messages [OF ms]
  have "needed_slots plan \<le> capacity (ch_config c) - used_slots (ch_config c) ms" using fit h by simp
  then have "queue_send m (channel_abs slot_bytes c) = (Ok (), \<lparr>mq_config = ch_config c,
      mq_msgs = channel_messages slot_bytes c @ [m], mq_shut = ch_closed c\<rparr>)"
    using plan opened h(1) by (simp add: queue_send_def channel_abs_def)
  with channel_refines_queue(1,3) [OF c len, of polls]
  show "\<exists>t. channel_send io crc polls m c = (Ok (), t) \<and> channel_inv io inv slot_bytes crc t \<and>
      channel_messages slot_bytes t = channel_messages slot_bytes c @ [m]"
    by (cases "channel_send io crc polls m c") (auto simp: channel_abs_def)
next
  fix c :: "'s shm_channel" and m ms
  assume c: "channel_inv io inv slot_bytes crc c" and "channel_messages slot_bytes c = m # ms"
  with channel_refines_queue(2,4) [OF c, of "[]"]
  show "\<exists>t. channel_recv io crc c = (Ok m, t) \<and> channel_inv io inv slot_bytes crc t \<and>
      channel_messages slot_bytes t = ms"
    by (cases "channel_recv io crc c") (auto simp: queue_recv_def channel_abs_def)
next
  fix c :: "'s shm_channel"
  assume c: "channel_inv io inv slot_bytes crc c" and "channel_messages slot_bytes c = []"
  with channel_refines_queue(2,4) [OF c, of "[]"]
  show "\<exists>e t. channel_recv io crc c = (Err e, t) \<and> channel_inv io inv slot_bytes crc t \<and>
      channel_messages slot_bytes t = []"
    by (cases "channel_recv io crc c") (auto simp: queue_recv_def channel_abs_def)
qed

section \<open>The channel over memory\<close>

abbreviation mem_channel_inv :: "(bytes \<Rightarrow> u32) \<Rightarrow> memory_slot_storage shm_channel \<Rightarrow> bool" where
  "mem_channel_inv \<equiv> channel_inv memory_ops mem_inv mem_slot"

lemma channel_new_holds:
  assumes "channel_new cfg = Ok c"
  shows "channel_holds memory_ops mem_inv mem_slot crc c []" "ch_config c = cfg" "\<not> ch_closed c"
    "channel_shape memory_ops mem_inv mem_slot c []"
proof -
  from assms obtain s where s: "mem_inv s" "channel_with_storage memory_ops cfg s = Ok c"
    using MemorySlotStorage_new_inv by (fastforce simp: channel_new_def)
  from memory.with_storage_holds(1) [OF s, of crc] memory.with_storage_holds(2,3) [OF s]
  show "channel_holds memory_ops mem_inv mem_slot crc c []" "ch_config c = cfg" "\<not> ch_closed c" .
  then show "channel_shape memory_ops mem_inv mem_slot c []"
    by (auto simp: channel_holds_def)
qed

lemma channel_new_inv: "channel_new cfg = Ok c \<Longrightarrow> mem_channel_inv crc c"
  using channel_new_holds(1) by (auto simp: channel_inv_def)

text \<open>A small channel, for the witnesses: four slots of 8 bytes.\<close>

abbreviation small_config :: "backpressure \<Rightarrow> spsc_config" where
  "small_config b \<equiv> \<lparr>capacity = 4, slot_size = 8, backpressure = b, timeout = None, multi_producer = False\<rparr>"

lemma small_channel: obtains c where "channel_new (small_config b) = Ok c"
proof -
  have "\<exists>c. channel_new (small_config b) = Ok c"
    by (simp add: channel_new_def channel_with_storage_def MemorySlotStorage_new_def region_with_storage_def
        FRAME_HEADER_LEN_def usize_max_def isize_max_def)
  with that show thesis by blast
qed

text \<open>Claim C5: \<open>ShmSpscChannel\<close> implements the bounded message queue. In every state with the
  layout invariant, \<open>send\<close> (for any backpressure policy, any message length, one slot or many) and
  \<open>recv\<close> return exactly what the abstract queue returns, errors included, leave a channel that
  stands for the queue the specification leaves, and keep the invariant.\<close>

theorem shm_channel_refines_queue:
  assumes "mem_channel_inv crc c" and "length m \<le> isize_max"
  shows "queue_send m (channel_abs mem_slot c) =
      map_prod id (channel_abs mem_slot) (channel_send memory_ops crc polls m c) \<and>
    queue_recv (channel_abs mem_slot c) = map_prod id (channel_abs mem_slot) (channel_recv memory_ops crc c) \<and>
    mem_channel_inv crc (snd (channel_send memory_ops crc polls m c)) \<and>
    mem_channel_inv crc (snd (channel_recv memory_ops crc c))"
  using memory.channel_refines_queue [OF assms] by simp

theorem shm_channel_refines_queue_witness:
  "\<exists>c. channel_new (small_config DropOldest) = Ok c \<and>
    queue_send [1, 2] (channel_abs mem_slot c) =
      map_prod id (channel_abs mem_slot) (channel_send memory_ops (\<lambda>_. 5) 0 [1, 2] c)"
proof -
  obtain c where c: "channel_new (small_config DropOldest) = Ok c" by (rule small_channel)
  have "length [1, 2 :: byte] \<le> isize_max" by (simp add: isize_max_def)
  with shm_channel_refines_queue [OF channel_new_inv [OF c], of "[1, 2]" "\<lambda>_. 5" 0] c show ?thesis by blast
qed

text \<open>Claim C27: no loss, no duplication, no reordering. From a new channel, over any sequence of
  sends and receives in which each send finds its slots free, the messages received followed by
  those still in the slots are the messages sent, in order.\<close>

theorem shm_channel_fifo:
  assumes "channel_new cfg = Ok c"
    and "sends_fit (channel_send memory_ops crc polls) (channel_recv memory_ops crc) channel_room ops c"
    and "run_channel (channel_send memory_ops crc polls) (channel_recv memory_ops crc) ops c = (got, d)"
  shows "got @ channel_messages mem_slot d = sent_messages ops"
  using memory.fifo.run_fifo [OF channel_new_inv [OF assms(1)] assms(2,3)]
    channel_holds_messages(1) [OF channel_new_holds(1) [OF assms(1)]] by simp

theorem shm_channel_fifo_witness:
  "\<exists>c got d. channel_new (small_config Raise) = Ok c \<and>
    run_channel (channel_send memory_ops (\<lambda>_. 5) 0) (channel_recv memory_ops (\<lambda>_. 5)) [SendOp [7], RecvOp] c = (got, d) \<and>
    got @ channel_messages mem_slot d = [[7]]"
proof -
  obtain c where c: "channel_new (small_config Raise) = Ok c" by (rule small_channel)
  note h = channel_new_holds(1) [OF c, of "\<lambda>_. 5"] channel_new_holds(2,3) [OF c]
  have "ch_len c = 0" using channel_holds_messages(2) [OF h(1)] by simp
  then have "channel_room c [7]"
    using h(2,3) by (simp add: channel_room_def send_plan_of_def isize_max_def)
  then have fit: "sends_fit (channel_send memory_ops (\<lambda>_. 5) 0) (channel_recv memory_ops (\<lambda>_. 5))
      channel_room [SendOp [7], RecvOp] c" by simp
  obtain got d where run: "run_channel (channel_send memory_ops (\<lambda>_. 5) 0) (channel_recv memory_ops (\<lambda>_. 5))
      [SendOp [7], RecvOp] c = (got, d)" by force
  from shm_channel_fifo [OF c fit run] c run show ?thesis by auto
qed

section \<open>Damaged slots\<close>

text \<open>Claim C28: a damaged single-slot message costs one message and nothing else: when the frame at
  the tail does not decode or fails its checksum, \<open>recv\<close> reports the error, releases the slot and
  moves on, and the channel then holds exactly the messages behind it.\<close>

theorem shm_channel_recovers_from_damage:
  assumes "channel_shape memory_ops mem_inv mem_slot c
      (committed_view (ch_expected_recv_seq c) b # map (\<lambda>(sq, f). committed_view sq f) ws)"
    and "stored crc (ch_config c) (ch_expected_recv_seq c + 1) ms ws"
    and "ch_next_seq c = ch_expected_recv_seq c + 1 + word_of_nat (length ms)"
    and "and_then (decode_frame b) (validate_bytes_frame crc) = Err e"
  shows "\<exists>d. channel_recv memory_ops crc c = (Err e, d) \<and> mem_channel_inv crc d \<and>
    channel_messages mem_slot d = ms"
proof -
  let ?sq = "ch_expected_recv_seq c" and ?vs = "map (\<lambda>(sq, f). committed_view sq f) ws"
  note n = memory.tail_slot(3) [OF assms(1)]
  from memory.read_tail_slot_shape [OF assms(1)] obtain c1 where c1: "read_tail_slot memory_ops c =
      (Ok \<lparr>snap_state = Pinned, snap_seq = ?sq, snap_payload_len = length b, snap_data = b\<rparr>, c1)"
    "channel_shape memory_ops mem_inv mem_slot c1 (pinned_view ?sq b # ?vs)" "same_meta c c1" by blast
  from memory.advance_tail_shape [OF c1(2)] obtain c2 where c2: "advance_tail_after_read memory_ops c1 = (Ok (), c2)"
    "channel_shape memory_ops mem_inv mem_slot c2 ?vs" "same_meta c1 c2" by blast
  let ?d = "c2\<lparr>ch_expected_recv_seq := ch_expected_recv_seq c2 + 1\<rparr>"
  have "channel_recv memory_ops crc c = (Err e, ?d)"
    using assms(4) c1 c2 n
    by (cases "decode_frame b") (auto simp: channel_recv_def channel_recv_with_seq_def expect_next_def same_meta_def)
  moreover have "channel_holds memory_ops mem_inv mem_slot crc ?d ms"
    using c1(3) c2(2,3) assms(2,3) unfolding channel_holds_def same_meta_def
    by (intro exI [of _ ws]) (simp add: channel_shape_def)
  ultimately show ?thesis using channel_holds_messages(1) by (auto simp: channel_inv_def)
qed

theorem shm_channel_recovers_from_damage_witness:
  "\<exists>c d. channel_recv memory_ops (\<lambda>_. 0) c = (ProtErr (FrameTooShort 2 FRAME_HEADER_LEN), d) \<and>
     mem_channel_inv (\<lambda>_. 0) d \<and> channel_messages mem_slot d = []"
proof -
  obtain c0 where c0: "channel_new (small_config Raise) = Ok c0" by (rule small_channel)
  note h = channel_new_holds [OF c0]
  have len: "ch_len c0 = 0" "ch_next_seq c0 = 0" "ch_expected_recv_seq c0 = 0"
    using c0 by (auto simp: channel_new_def channel_with_storage_def split: if_splits)
  obtain c where c: "channel_shape memory_ops mem_inv mem_slot c [committed_view 0 [3, 4]]" "same_meta c0 c"
    using memory.write_head_slot_shape [OF h(4), of "[3, 4]" 0] h(2) len by auto
  let ?c = "c\<lparr>ch_next_seq := 1\<rparr>"
  have s: "channel_shape memory_ops mem_inv mem_slot ?c
      (committed_view (ch_expected_recv_seq ?c) [3, 4] # map (\<lambda>(sq, f). committed_view sq f) [])"
    using c len by (simp add: channel_shape_def same_meta_def)
  have e: "and_then (decode_frame [3, 4]) (validate_bytes_frame (\<lambda>_. 0)) = ProtErr (FrameTooShort 2 FRAME_HEADER_LEN)"
    by (simp add: decode_frame_def decode_frame_header_def FRAME_HEADER_LEN_def)
  from shm_channel_recovers_from_damage [OF s _ _ e, of "[]"] c(2) len show ?thesis
    by (auto simp: same_meta_def)
qed

text \<open>Claim C29: a damaged chunk wedges the channel for good. When the frame at the tail passes the
  payload checksum but its chunk metadata does not (it is missing, malformed, or not that of a first
  chunk), \<open>recv\<close> reports the error, frees the slot, but advances neither \<open>tail\<close> nor \<open>len\<close>: from
  then on every \<open>recv\<close> answers \<open>BufferEmpty\<close> and changes nothing, whatever messages follow. The
  comment in the code expects the tail to advance on a retry.\<close>

theorem shm_channel_wedged_by_damaged_chunk:
  assumes "channel_shape memory_ops mem_inv mem_slot c (committed_view (ch_expected_recv_seq c) b # vs)"
    and "decode_frame b = Ok f" and "validate_bytes_frame crc f = Ok ()"
    and "hdr_seq (header f) = ch_expected_recv_seq c" and "is_chunked f"
    and "and_then (chunk_info_of f) (\<lambda>info. if ci_index info \<noteq> 0 then ChanErr CorruptedMessage else Ok ()) = Err e"
  shows "\<exists>d. channel_recv memory_ops crc c = (Err e, d) \<and> ch_len d = ch_len c \<and> 0 < ch_len d \<and>
    (\<forall>n. ((\<lambda>s. snd (channel_recv memory_ops crc s)) ^^ n) d = d) \<and>
    fst (channel_recv memory_ops crc d) = ChanErr BufferEmpty"
proof -
  let ?sq = "ch_expected_recv_seq c"
  note n = memory.tail_slot(3) [OF assms(1)]
  from memory.read_tail_slot_shape [OF assms(1)] obtain c1 where c1: "read_tail_slot memory_ops c =
      (Ok \<lparr>snap_state = Pinned, snap_seq = ?sq, snap_payload_len = length b, snap_data = b\<rparr>, c1)"
    "channel_shape memory_ops mem_inv mem_slot c1 (pinned_view ?sq b # vs)" "same_meta c c1" "ch_len c1 = ch_len c"
    by blast
  from memory.release_tail_shape [OF c1(2)] obtain d where d: "release_pinned_tail memory_ops c1 = (Ok (), d)"
    "channel_shape memory_ops mem_inv mem_slot d (free_view # vs)" "same_meta c1 d" "ch_len d = ch_len c1" by blast
  have run: "channel_recv memory_ops crc c = (Err e, d)"
    using assms(2-6) c1 d n
    by (cases "chunk_info_of f")
      (auto simp: channel_recv_def channel_recv_with_seq_def recv_chunked_message_def same_meta_def split: if_splits)
  note t = memory.tail_slot [OF d(2)]
  have "region_slot (ch_tail d) (ch_region d) = Ok (fst free_view)"
    using t(1,2) d(2) by (simp add: region_slot_def region_view_nth channel_shape_def Let_def region_inv_def free_view_def)
  then have "channel_recv memory_ops crc d = (ChanErr BufferEmpty, d)"
    using t(3) by (cases d) (simp add: channel_recv_def channel_recv_with_seq_def read_tail_slot_def on_region_def
        region_read_committed_def)
  then have "fst (channel_recv memory_ops crc d) = ChanErr BufferEmpty"
    "((\<lambda>s. snd (channel_recv memory_ops crc s)) ^^ n) d = d" for n by (induction n) auto
  with run n c1(4) d(4) show ?thesis by auto
qed

theorem shm_channel_wedged_by_damaged_chunk_witness:
  "\<exists>c d. channel_recv memory_ops (\<lambda>_. 0) c = (ChanErr CorruptedMessage, d) \<and> ch_len d = ch_len c \<and>
     fst (channel_recv memory_ops (\<lambda>_. 0) d) = ChanErr BufferEmpty"
proof -
  define b where "b = header_image Bytes FRAME_FLAG_CHUNKED 0 0 0 0 50 2 @ encode_metadata [] @ [1, 2] @ []"
  define f where "f = \<lparr>header = \<lparr>hdr_flags = FRAME_FLAG_CHUNKED, hdr_kind = Bytes, hdr_header_len = word_of_nat 50,
       hdr_payload_len = word_of_nat (length [1, 2 :: byte]), hdr_seq = 0, hdr_timestamp_ns = 0,
       hdr_schema_hash = 0, hdr_checksum = 0\<rparr>, metadata_items = [], payload = [1, 2 :: byte]\<rparr>"
  have b: "decode_frame b = Ok f"
    unfolding b_def f_def by (rule decode_frame_image) (simp_all add: FRAME_HEADER_LEN_def usize_max_def)
  have len_b: "length b = 52" by (simp add: b_def FRAME_HEADER_LEN_def)
  obtain c0 where c0: "channel_new (small_config Raise) = Ok c0" by (rule small_channel)
  note h = channel_new_holds [OF c0]
  have len: "ch_len c0 = 0" "ch_expected_recv_seq c0 = 0"
    using c0 by (auto simp: channel_new_def channel_with_storage_def split: if_splits)
  obtain c where c: "channel_shape memory_ops mem_inv mem_slot c [committed_view 0 b]" "same_meta c0 c"
    using memory.write_head_slot_shape [OF h(4), of b 0] h(2) len len_b by (auto simp: FRAME_HEADER_LEN_def)
  then have s: "channel_shape memory_ops mem_inv mem_slot c [committed_view (ch_expected_recv_seq c) b]"
    using len by (simp add: same_meta_def)
  have "validate_bytes_frame (\<lambda>_. 0) f = Ok ()" "hdr_seq (header f) = ch_expected_recv_seq c" "is_chunked f"
    "and_then (chunk_info_of f) (\<lambda>info. if ci_index info \<noteq> 0 then ChanErr CorruptedMessage else Ok ()) = ChanErr CorruptedMessage"
    using c(2) len
    by (simp_all add: f_def validate_bytes_frame_def is_chunked_def FRAME_FLAG_CHUNKED_def chunk_info_of_def
        metadata_usize_def same_meta_def)
  from shm_channel_wedged_by_damaged_chunk [OF s b this] show ?thesis by blast
qed

section \<open>The dropping loop ends\<close>

lemma on_region_frame:
  "on_region m c = (r, d) \<Longrightarrow> ch_len d = ch_len c \<and> ch_config d = ch_config c"
  by (auto simp: on_region_def split: prod.splits)

lemma pop_tail_len: "pop_tail c = (Ok (), d) \<Longrightarrow> ch_len c = Suc (ch_len d) \<and> ch_config d = ch_config c"
  by (auto simp: pop_tail_def split: if_splits)

lemma drop_tail_slots_len:
  "drop_tail_slots io k c = (Ok (), d) \<Longrightarrow> ch_len c = ch_len d + k \<and> ch_config d = ch_config c"
proof (induction k arbitrary: c)
  case 0
  then show ?case by simp
next
  case (Suc k)
  from Suc.prems obtain c1 where c1: "on_region (region_release_committed io (ch_tail c)) c = (Ok (), c1)"
    and "seq pop_tail (drop_tail_slots io k) c1 = (Ok (), d)"
    by (auto simp del: seq_run simp add: seq_eq_Ok)
  then obtain c2 where c2: "pop_tail c1 = (Ok (), c2)" and "drop_tail_slots io k c2 = (Ok (), d)"
    by (auto simp del: seq_run simp add: seq_eq_Ok)
  with Suc.IH [of c2] on_region_frame [OF c1] pop_tail_len [OF c2] show ?case by simp
qed

lemma drop_oldest_message_len:
  assumes "drop_oldest_message io c = (Ok (), d)" "ch_len c \<noteq> 0"
  shows "ch_len d < ch_len c" "ch_config d = ch_config c"
proof -
  from assms obtain snapshot f k c1 where k: "slots_to_drop f = Ok k" and c1: "drop_tail_slots io k c = (Ok (), c1)"
    and d: "d = c1\<lparr>ch_expected_recv_seq := ch_expected_recv_seq c1 + 1\<rparr>"
    by (auto simp: drop_oldest_message_def bind_eq_Ok seq_eq_Ok simp del: bind_run seq_run)
  have "0 < k" using k by (auto simp: slots_to_drop_def chunk_info_of_def split: if_splits)
  with drop_tail_slots_len [OF c1] d show "ch_len d < ch_len c" "ch_config d = ch_config c" by simp_all
qed

lemma mem_ops_not_Diverged:
  "fst (mem_clear_slot i s) \<noteq> Diverged" "mem_read_slot i n s \<noteq> Diverged"
  by (auto simp: mem_clear_slot_def mem_read_slot_def mem_store_def mem_offset_def ok_or_def
      split: option.split outcome.split prod.split)

lemma region_release_committed_not_Diverged:
  "fst (region_release_committed memory_ops i r) \<noteq> Diverged"
  using mem_ops_not_Diverged(1) [of i "storage r"]
  by (cases "mem_clear_slot i (storage r)")
    (auto simp: region_release_committed_def region_release_slot_def region_update_slot_def region_slot_def
      on_storage_def split: outcome.split)

lemma drop_tail_slots_not_Diverged: "fst (drop_tail_slots memory_ops k c) \<noteq> Diverged"
proof (induction k arbitrary: c)
  case 0
  then show ?case by simp
next
  case (Suc k)
  show ?case
    using Suc region_release_committed_not_Diverged [of "ch_tail c" "ch_region c"]
    by (cases "region_release_committed memory_ops (ch_tail c) (ch_region c)")
      (auto simp: on_region_def pop_tail_def split: outcome.split)
qed

lemma drop_oldest_message_not_Diverged: "fst (drop_oldest_message memory_ops c) \<noteq> Diverged"
proof -
  have "region_peek_committed memory_ops i r \<noteq> Diverged" for i and r :: "memory_slot_storage fixed_slot_region"
    by (auto simp: region_peek_committed_def region_slot_def mem_ops_not_Diverged(2))
  moreover have "slots_to_drop f \<noteq> Diverged" for f
    by (auto simp: slots_to_drop_def chunk_info_of_def metadata_usize_def)
  ultimately show ?thesis
    using drop_tail_slots_not_Diverged decode_frame_not_Diverged
    by (auto simp: drop_oldest_message_def split: outcome.split prod.split)
      (metis fst_conv)+
qed

text \<open>Claim C30: the \<open>while\<close> loop of the \<open>DropOldest\<close> policy ends. For a request that fits the
  channel, from any state whatever, damaged or not, the loop stops (with success, an error or a
  panic) within one turn more than there are occupied slots: each dropped message frees a slot.\<close>

theorem drop_until_free_ends:
  assumes "needed \<le> capacity (ch_config c)" and "ch_len c < fuel"
  shows "fst (drop_until_free memory_ops fuel needed c) \<noteq> Diverged"
  using assms
proof (induction fuel arbitrary: c)
  case 0
  then show ?case by simp
next
  case (Suc fuel)
  obtain r d where step: "drop_oldest_message memory_ops c = (r, d)" by force
  with drop_oldest_message_not_Diverged [of c] have r: "r \<noteq> Diverged" by auto
  show ?case
  proof (cases "ch_len c = 0 \<or> r \<noteq> Ok ()")
    case True
    with Suc.prems step r show ?thesis by (cases r) (auto simp: free_slots_def)
  next
    case False
    with drop_oldest_message_len [of memory_ops c d] step have "ch_len d < ch_len c" "ch_config d = ch_config c" by auto
    with Suc.IH [of d] Suc.prems step False show ?thesis by (auto simp: free_slots_def)
  qed
qed

theorem drop_until_free_ends_witness:
  "\<exists>c. channel_new (small_config DropOldest) = Ok c \<and> fst (drop_until_free memory_ops 1 3 c) \<noteq> Diverged"
proof -
  obtain c where c: "channel_new (small_config DropOldest) = Ok c" by (rule small_channel)
  then have "3 \<le> capacity (ch_config c)" "ch_len c < 1"
    by (auto simp: channel_new_def channel_with_storage_def split: if_splits)
  from drop_until_free_ends [OF this] c show ?thesis by blast
qed

end
