(* ===== verification/Region_Io.thy ===== *)
theory Region_Io
  imports Slot_Storage
begin

text \<open>
  The trait \<open>SlotRegionIo\<close> of \<open>crates/dsline-shm/src/lib.rs\<close>, byte-range and 64-bit word access to a
  store shared across processes, and its three back ends: a file, a memory-mapped file and a named
  section. A generic \<open>S: SlotRegionIo\<close> is a value of \<open>region_io_ops\<close>; the locale \<open>region_io\<close> states
  what the persistent region relies on.

  A back end is its geometry, the bytes it reaches and whether its mutex is poisoned. The operating
  system is assumed to succeed (open, resize, map, seek and flush); a read past the end of a file
  fails and a write past it extends the file with zeros. The host is little-endian, so an aligned
  64-bit access reads and writes the eight bytes in that order.
\<close>

section \<open>The trait\<close>

record 's region_io_ops =
  rio_capacity :: "'s \<Rightarrow> usize"
  rio_slot_size :: "'s \<Rightarrow> usize"
  rio_read_at :: "usize \<Rightarrow> usize \<Rightarrow> 's \<Rightarrow> bytes result"
  rio_write_at :: "usize \<Rightarrow> bytes \<Rightarrow> ('s, dsline_error, unit) action"
  rio_clear_at :: "usize \<Rightarrow> usize \<Rightarrow> ('s, dsline_error, unit) action"
  rio_flush_range :: "usize \<Rightarrow> usize \<Rightarrow> 's \<Rightarrow> unit result"
  rio_load_u64 :: "usize \<Rightarrow> 's \<Rightarrow> u64 result"
  rio_store_u64 :: "usize \<Rightarrow> u64 \<Rightarrow> ('s, dsline_error, unit) action"
  rio_fetch_max_u64 :: "usize \<Rightarrow> u64 \<Rightarrow> ('s, dsline_error, u64) action"
  rio_compare_exchange_u64 :: "usize \<Rightarrow> u64 \<Rightarrow> u64 \<Rightarrow> ('s, dsline_error, u64 \<times> bool) action"
  rio_slice :: "usize \<Rightarrow> usize \<Rightarrow> 's \<Rightarrow> bytes result"

text \<open>The default methods of the trait, from the reads and writes of an implementation.\<close>

definition default_flush_range :: "usize \<Rightarrow> usize \<Rightarrow> 's \<Rightarrow> unit result" where
  "default_flush_range offset len s = Ok ()"

definition default_load_u64 :: "(usize \<Rightarrow> usize \<Rightarrow> 's \<Rightarrow> bytes result) \<Rightarrow> usize \<Rightarrow> 's \<Rightarrow> u64 result" where
  "default_load_u64 read_at offset s =
     and_then (read_at offset 8 s) (\<lambda>bytes.
     if length bytes = 8 then Ok (from_le64 bytes) else ChanErr (StorageIo ''cursor read size''))"

definition default_store_u64 ::
  "(usize \<Rightarrow> bytes \<Rightarrow> ('s, dsline_error, unit) action) \<Rightarrow> usize \<Rightarrow> u64 \<Rightarrow> ('s, dsline_error, unit) action" where
  "default_store_u64 write_at offset v = write_at offset (to_le64 v)"

definition default_fetch_max_u64 ::
  "(usize \<Rightarrow> 's \<Rightarrow> u64 result) \<Rightarrow> (usize \<Rightarrow> u64 \<Rightarrow> ('s, dsline_error, unit) action) \<Rightarrow>
   usize \<Rightarrow> u64 \<Rightarrow> ('s, dsline_error, u64) action" where
  "default_fetch_max_u64 load store offset v =
     bind (reads (load offset)) (\<lambda>current.
     if v > current then seq (store offset v) (return v) else return current)"

definition default_compare_exchange_u64 ::
  "(usize \<Rightarrow> 's \<Rightarrow> u64 result) \<Rightarrow> (usize \<Rightarrow> u64 \<Rightarrow> ('s, dsline_error, unit) action) \<Rightarrow>
   usize \<Rightarrow> u64 \<Rightarrow> u64 \<Rightarrow> ('s, dsline_error, u64 \<times> bool) action" where
  "default_compare_exchange_u64 load store offset expected new =
     bind (reads (load offset)) (\<lambda>current.
     if current = expected then seq (store offset new) (return (new, True))
     else return (current, False))"

definition default_with_slice :: "(usize \<Rightarrow> usize \<Rightarrow> 's \<Rightarrow> bytes result) \<Rightarrow> usize \<Rightarrow> usize \<Rightarrow> 's \<Rightarrow> bytes result" where
  "default_with_slice read_at offset len s = read_at offset len s"

text \<open>\<open>create_or_open\<close> of the trait: open, else create; \<open>opened\<close> and \<open>made\<close> are the results.\<close>

definition default_create_or_open :: "'s result \<Rightarrow> 's result \<Rightarrow> ('s \<times> bool) result" where
  "default_create_or_open opened made =
     (case opened of
        Ok s \<Rightarrow> Ok (s, False)
      | Err e \<Rightarrow> map_outcome (\<lambda>s. (s, True)) made
      | Panicked \<Rightarrow> Panicked
      | Diverged \<Rightarrow> Diverged)"

section \<open>The contract\<close>

locale region_io =
  fixes io :: "'s region_io_ops"
    and inv :: "'s \<Rightarrow> bool"
    and mem :: "'s \<Rightarrow> bytes"
  assumes read_law: "inv s \<Longrightarrow> off + n \<le> length (mem s) \<Longrightarrow> rio_read_at io off n s = Ok (bytes_at off n (mem s))"
    and write_law: "inv s \<Longrightarrow> off + length b \<le> length (mem s) \<Longrightarrow>
      \<exists>t. rio_write_at io off b s = (Ok (), t) \<and> inv t \<and> mem t = put_at off b (mem s) \<and>
        rio_capacity io t = rio_capacity io s \<and> rio_slot_size io t = rio_slot_size io s"
    and clear_law: "inv s \<Longrightarrow> off + n \<le> length (mem s) \<Longrightarrow>
      \<exists>t. rio_clear_at io off n s = (Ok (), t) \<and> inv t \<and> mem t = put_at off (replicate n 0) (mem s) \<and>
        rio_capacity io t = rio_capacity io s \<and> rio_slot_size io t = rio_slot_size io s"
    and load_law: "inv s \<Longrightarrow> off + 8 \<le> length (mem s) \<Longrightarrow>
      rio_load_u64 io off s = Ok (from_le64 (bytes_at off 8 (mem s)))"
    and store_law: "inv s \<Longrightarrow> off + 8 \<le> length (mem s) \<Longrightarrow>
      \<exists>t. rio_store_u64 io off v s = (Ok (), t) \<and> inv t \<and> mem t = put_at off (to_le64 v) (mem s) \<and>
        rio_capacity io t = rio_capacity io s \<and> rio_slot_size io t = rio_slot_size io s"
    and max_law: "inv s \<Longrightarrow> off + 8 \<le> length (mem s) \<Longrightarrow>
      \<exists>t old. rio_fetch_max_u64 io off v s = (Ok old, t) \<and> inv t \<and>
        mem t = put_at off (to_le64 (max (from_le64 (bytes_at off 8 (mem s))) v)) (mem s) \<and>
        rio_capacity io t = rio_capacity io s \<and> rio_slot_size io t = rio_slot_size io s"
    and cas_law: "inv s \<Longrightarrow> off + 8 \<le> length (mem s) \<Longrightarrow>
      \<exists>t seen. rio_compare_exchange_u64 io off expected new s =
          (Ok (seen, from_le64 (bytes_at off 8 (mem s)) = expected), t) \<and> inv t \<and>
        (from_le64 (bytes_at off 8 (mem s)) \<noteq> expected \<longrightarrow> seen = from_le64 (bytes_at off 8 (mem s))) \<and>
        mem t = (if from_le64 (bytes_at off 8 (mem s)) = expected then put_at off (to_le64 new) (mem s) else mem s) \<and>
        rio_capacity io t = rio_capacity io s \<and> rio_slot_size io t = rio_slot_size io s"
    and flush_law: "inv s \<Longrightarrow> off + n \<le> length (mem s) \<Longrightarrow> rio_flush_range io off n s = Ok ()"
    and slice_law: "inv s \<Longrightarrow> off + n \<le> length (mem s) \<Longrightarrow> rio_slice io off n s = Ok (bytes_at off n (mem s))"
begin

text \<open>A stored word is read back, and stores elsewhere leave it alone.\<close>

lemma load_after_store:
  assumes "inv s" "off + 8 \<le> length (mem s)"
  shows "\<exists>t. rio_store_u64 io off v s = (Ok (), t) \<and> inv t \<and> rio_load_u64 io off t = Ok v \<and>
    (\<forall>o'. o' + 8 \<le> length (mem s) \<longrightarrow> o' + 8 \<le> off \<or> off + 8 \<le> o' \<longrightarrow>
       rio_load_u64 io o' t = rio_load_u64 io o' s)"
proof -
  from store_law [OF assms, of v] obtain t where t: "rio_store_u64 io off v s = (Ok (), t)" "inv t"
    "mem t = put_at off (to_le64 v) (mem s)" by blast
  with assms show ?thesis by (auto simp: load_law bytes_at_put_at_disjoint)
qed

end

text \<open>Back ends whose successful compare-and-exchange also returns the word it replaced, as the trait
  documents: those of a reservation that the channel can rely on.\<close>

locale exchange_region_io = region_io io inv mem
  for io :: "'s region_io_ops" and inv :: "'s \<Rightarrow> bool" and mem :: "'s \<Rightarrow> bytes" +
  assumes exact_law: "inv s \<Longrightarrow> off + 8 \<le> length (mem s) \<Longrightarrow>
    rio_compare_exchange_u64 io off expected new s = (Ok (seen, True), t) \<Longrightarrow> seen = expected"

section \<open>A file\<close>

record file_slot_storage =
  file_capacity :: usize
  file_slot_size :: usize
  file_data :: bytes
  file_poisoned :: bool

text \<open>
  \<open>wait_for_full_size\<close>: \<open>stat n\<close> is the length the \<open>n\<close>-th stat of the file sees, and the clock
  grants \<open>polls\<close> turns.
\<close>

fun wait_for_full_size :: "nat \<Rightarrow> (nat \<Rightarrow> nat) \<Rightarrow> usize \<Rightarrow> nat" where
  "wait_for_full_size 0 stat total_len = stat 0"
| "wait_for_full_size (Suc polls) stat total_len =
     (if stat 0 < total_len then wait_for_full_size polls (\<lambda>n. stat (Suc n)) total_len else stat 0)"

definition check_geometry :: "usize \<Rightarrow> usize \<Rightarrow> unit result" where
  "check_geometry cap sz =
     (if cap = 0 then ChanErr (InvalidConfig ''capacity must be greater than zero'')
      else if sz = 0 then ChanErr (InvalidConfig ''slot_size must be greater than zero'')
      else Ok ())"

text \<open>\<open>create\<close> truncates the file and sets its length, which fills it with zeros; \<open>open\<close> finds the
  bytes \<open>data\<close> that others left.\<close>

definition FileSlotStorage_create :: "usize \<Rightarrow> usize \<Rightarrow> usize \<Rightarrow> file_slot_storage result" where
  "FileSlotStorage_create cap sz total_len =
     and_then (check_geometry cap sz) (\<lambda>_.
     Ok \<lparr>file_capacity = cap, file_slot_size = sz, file_data = replicate total_len 0, file_poisoned = False\<rparr>)"

definition FileSlotStorage_open ::
  "nat \<Rightarrow> (nat \<Rightarrow> nat) \<Rightarrow> bytes \<Rightarrow> usize \<Rightarrow> usize \<Rightarrow> usize \<Rightarrow> file_slot_storage result" where
  "FileSlotStorage_open polls stat data cap sz total_len =
     and_then (check_geometry cap sz) (\<lambda>_.
     if wait_for_full_size polls stat total_len < total_len
     then ChanErr (InvalidConfig ''file storage is smaller than expected'')
     else Ok \<lparr>file_capacity = cap, file_slot_size = sz, file_data = data, file_poisoned = False\<rparr>)"

definition file_offset :: "usize \<Rightarrow> file_slot_storage \<Rightarrow> usize result" where
  "file_offset index s =
     (if index \<ge> file_capacity s then ChanErr (InvalidConfig ''slot index out of range'')
      else ok_or (checked_mul index (file_slot_size s)) (Channel (InvalidConfig ''slot offset overflow'')))"

definition file_validate_range :: "usize \<Rightarrow> usize \<Rightarrow> file_slot_storage \<Rightarrow> unit result" where
  "file_validate_range offset len s =
     and_then (ok_or (checked_mul (file_capacity s) (file_slot_size s))
       (Channel (InvalidConfig ''storage size overflow''))) (\<lambda>tot.
     if offset > tot \<or> len > tot - offset
     then ChanErr (InvalidConfig ''file storage range out of bounds'') else Ok ())"

definition file_lock :: "file_slot_storage \<Rightarrow> unit result" where
  "file_lock s = (if file_poisoned s then ChanErr (StorageIo ''file storage lock poisoned'') else Ok ())"

text \<open>\<open>write_all\<close> at a position: past the end the file grows, the gap reading as zeros.\<close>

definition file_put :: "nat \<Rightarrow> bytes \<Rightarrow> bytes \<Rightarrow> bytes" where
  "file_put off b d = take off (d @ replicate (off - length d) 0) @ b @ drop (off + length b) d"

definition file_read_at :: "usize \<Rightarrow> usize \<Rightarrow> file_slot_storage \<Rightarrow> bytes result" where
  "file_read_at offset len s =
     and_then (file_validate_range offset len s) (\<lambda>_.
     if len > isize_max then Panicked else
     and_then (file_lock s) (\<lambda>_.
     if offset + len \<le> length (file_data s) then Ok (bytes_at offset len (file_data s))
     else ChanErr (StorageIo ''read file storage'')))"

definition file_write_at :: "usize \<Rightarrow> bytes \<Rightarrow> (file_slot_storage, dsline_error, unit) action" where
  "file_write_at offset bytes =
     seq (reads (file_validate_range offset (length bytes)))
     (seq (reads file_lock)
     (modify (\<lambda>s. s\<lparr>file_data := file_put offset bytes (file_data s)\<rparr>)))"

definition file_clear_at :: "usize \<Rightarrow> usize \<Rightarrow> (file_slot_storage, dsline_error, unit) action" where
  "file_clear_at offset len =
     seq (reads (file_validate_range offset len))
     (if len > isize_max then panic else
     seq (reads file_lock)
     (modify (\<lambda>s. s\<lparr>file_data := file_put offset (replicate len 0) (file_data s)\<rparr>)))"

definition file_io :: "file_slot_storage region_io_ops" where
  "file_io = \<lparr>rio_capacity = file_capacity, rio_slot_size = file_slot_size,
     rio_read_at = file_read_at, rio_write_at = file_write_at, rio_clear_at = file_clear_at,
     rio_flush_range = default_flush_range,
     rio_load_u64 = default_load_u64 file_read_at,
     rio_store_u64 = default_store_u64 file_write_at,
     rio_fetch_max_u64 = default_fetch_max_u64 (default_load_u64 file_read_at) (default_store_u64 file_write_at),
     rio_compare_exchange_u64 =
       default_compare_exchange_u64 (default_load_u64 file_read_at) (default_store_u64 file_write_at),
     rio_slice = default_with_slice file_read_at\<rparr>"

text \<open>The file as a \<open>FixedSlotStorage\<close>.\<close>

definition file_write_slot :: "usize \<Rightarrow> bytes \<Rightarrow> (file_slot_storage, dsline_error, unit) action" where
  "file_write_slot index bytes =
     bind (gets file_slot_size) (\<lambda>sz.
     if length bytes > sz then fail (Channel (MessageTooLarge (length bytes) sz)) else
     bind (reads (file_offset index)) (\<lambda>offset. file_write_at offset bytes))"

definition file_read_slot :: "usize \<Rightarrow> usize \<Rightarrow> file_slot_storage \<Rightarrow> bytes result" where
  "file_read_slot index len s =
     (if len > file_slot_size s then ChanErr (MessageTooLarge len (file_slot_size s))
      else and_then (file_offset index s) (\<lambda>offset. file_read_at offset len s))"

definition file_clear_slot :: "usize \<Rightarrow> (file_slot_storage, dsline_error, unit) action" where
  "file_clear_slot index =
     bind (reads (file_offset index)) (\<lambda>offset.
     bind (gets file_slot_size) (\<lambda>sz. file_clear_at offset sz))"

definition file_ops :: "file_slot_storage slot_storage_ops" where
  "file_ops = \<lparr>st_capacity = file_capacity, st_slot_size = file_slot_size,
     st_write_slot = file_write_slot, st_read_slot = file_read_slot, st_clear_slot = file_clear_slot\<rparr>"

section \<open>A mapping\<close>

text \<open>
  \<open>MmapSlotStorage\<close> and \<open>SectionShmSlotStorage\<close> differ in how the mapping is made and in their error
  texts; once mapped, both check a range against \<open>total_len\<close>, take the lock and access memory.
\<close>

record mapped_slot_storage =
  map_capacity :: usize
  map_slot_size :: usize
  map_total_len :: usize
  map_bytes :: bytes
  map_poisoned :: bool

record mapping_texts =
  range_text :: string
  lock_text :: string

definition mapped_validate_range :: "mapping_texts \<Rightarrow> usize \<Rightarrow> usize \<Rightarrow> mapped_slot_storage \<Rightarrow> unit result" where
  "mapped_validate_range tx offset len s =
     (if offset > map_total_len s \<or> len > map_total_len s - offset
      then ChanErr (InvalidConfig (range_text tx)) else Ok ())"

definition mapped_lock :: "mapping_texts \<Rightarrow> mapped_slot_storage \<Rightarrow> unit result" where
  "mapped_lock tx s = (if map_poisoned s then ChanErr (StorageIo (lock_text tx)) else Ok ())"

definition mapped_access :: "mapping_texts \<Rightarrow> usize \<Rightarrow> usize \<Rightarrow> mapped_slot_storage \<Rightarrow> unit result" where
  "mapped_access tx offset len s =
     and_then (mapped_validate_range tx offset len s) (\<lambda>_. mapped_lock tx s)"

definition mapped_read_at :: "mapping_texts \<Rightarrow> usize \<Rightarrow> usize \<Rightarrow> mapped_slot_storage \<Rightarrow> bytes result" where
  "mapped_read_at tx offset len s =
     and_then (mapped_access tx offset len s) (\<lambda>_. index_range (map_bytes s) offset (offset + len))"

definition mapped_store :: "usize \<Rightarrow> bytes \<Rightarrow> (mapped_slot_storage, dsline_error, unit) action" where
  "mapped_store offset b s =
     (if offset + length b \<le> length (map_bytes s)
      then (Ok (), s\<lparr>map_bytes := put_at offset b (map_bytes s)\<rparr>) else (Panicked, s))"

definition mapped_write_at :: "mapping_texts \<Rightarrow> usize \<Rightarrow> bytes \<Rightarrow> (mapped_slot_storage, dsline_error, unit) action" where
  "mapped_write_at tx offset b = seq (reads (mapped_access tx offset (length b))) (mapped_store offset b)"

definition mapped_clear_at :: "mapping_texts \<Rightarrow> usize \<Rightarrow> usize \<Rightarrow> (mapped_slot_storage, dsline_error, unit) action" where
  "mapped_clear_at tx offset len =
     seq (reads (mapped_access tx offset len)) (mapped_store offset (replicate len 0))"

definition mapped_load_u64 :: "mapping_texts \<Rightarrow> usize \<Rightarrow> mapped_slot_storage \<Rightarrow> u64 result" where
  "mapped_load_u64 tx offset s =
     and_then (mapped_access tx offset 8 s) (\<lambda>_.
     map_outcome from_le64 (index_range (map_bytes s) offset (offset + 8)))"

definition mapped_store_u64 :: "mapping_texts \<Rightarrow> usize \<Rightarrow> u64 \<Rightarrow> (mapped_slot_storage, dsline_error, unit) action" where
  "mapped_store_u64 tx offset v = seq (reads (mapped_access tx offset 8)) (mapped_store offset (to_le64 v))"

text \<open>The hardware read-modify-writes return the value they replaced.\<close>

definition mapped_fetch_max_u64 :: "mapping_texts \<Rightarrow> usize \<Rightarrow> u64 \<Rightarrow> (mapped_slot_storage, dsline_error, u64) action" where
  "mapped_fetch_max_u64 tx offset v =
     bind (reads (mapped_load_u64 tx offset)) (\<lambda>old.
     seq (mapped_store offset (to_le64 (max old v))) (return old))"

definition mapped_compare_exchange_u64 ::
  "mapping_texts \<Rightarrow> usize \<Rightarrow> u64 \<Rightarrow> u64 \<Rightarrow> (mapped_slot_storage, dsline_error, u64 \<times> bool) action" where
  "mapped_compare_exchange_u64 tx offset expected new =
     bind (reads (mapped_load_u64 tx offset)) (\<lambda>actual.
     if actual = expected then seq (mapped_store offset (to_le64 new)) (return (actual, True))
     else return (actual, False))"

definition mapped_io :: "mapping_texts \<Rightarrow> (usize \<Rightarrow> usize \<Rightarrow> mapped_slot_storage \<Rightarrow> unit result) \<Rightarrow> mapped_slot_storage region_io_ops" where
  "mapped_io tx flush = \<lparr>rio_capacity = map_capacity, rio_slot_size = map_slot_size,
     rio_read_at = mapped_read_at tx, rio_write_at = mapped_write_at tx, rio_clear_at = mapped_clear_at tx,
     rio_flush_range = flush, rio_load_u64 = mapped_load_u64 tx, rio_store_u64 = mapped_store_u64 tx,
     rio_fetch_max_u64 = mapped_fetch_max_u64 tx,
     rio_compare_exchange_u64 = mapped_compare_exchange_u64 tx, rio_slice = mapped_read_at tx\<rparr>"

subsection \<open>Memory-mapped files\<close>

definition mmap_texts :: mapping_texts where
  "mmap_texts = \<lparr>range_text = ''mmap storage range out of bounds'', lock_text = ''mmap storage lock poisoned''\<rparr>"

definition mmap_flush_range :: "usize \<Rightarrow> usize \<Rightarrow> mapped_slot_storage \<Rightarrow> unit result" where
  "mmap_flush_range offset len s = mapped_lock mmap_texts s"

definition mmap_io :: "mapped_slot_storage region_io_ops" where
  "mmap_io = mapped_io mmap_texts mmap_flush_range"

text \<open>A new or truncated file of \<open>total_len\<close> bytes is mapped as zeros; an existing one as its bytes.
  \<open>exists\<close> says whether \<open>create_new\<close> finds the path taken.\<close>

definition MmapSlotStorage_create :: "bool \<Rightarrow> bool \<Rightarrow> usize \<Rightarrow> usize \<Rightarrow> usize \<Rightarrow> mapped_slot_storage result" where
  "MmapSlotStorage_create create_new exists cap sz total_len =
     and_then (check_geometry cap sz) (\<lambda>_.
     if create_new \<and> exists then ChanErr (StorageIo ''open mmap storage'')
     else Ok \<lparr>map_capacity = cap, map_slot_size = sz, map_total_len = total_len,
       map_bytes = replicate total_len 0, map_poisoned = False\<rparr>)"

definition MmapSlotStorage_open ::
  "nat \<Rightarrow> (nat \<Rightarrow> nat) \<Rightarrow> bytes option \<Rightarrow> usize \<Rightarrow> usize \<Rightarrow> usize \<Rightarrow> mapped_slot_storage result" where
  "MmapSlotStorage_open polls stat file cap sz total_len =
     and_then (check_geometry cap sz) (\<lambda>_.
     case file of
       None \<Rightarrow> ChanErr (StorageIo ''open mmap storage'')
     | Some data \<Rightarrow>
         if wait_for_full_size polls stat total_len < total_len
         then ChanErr (InvalidConfig ''file storage is smaller than expected'')
         else Ok \<lparr>map_capacity = cap, map_slot_size = sz, map_total_len = total_len,
           map_bytes = data, map_poisoned = False\<rparr>)"

definition mmap_create_or_open ::
  "nat \<Rightarrow> (nat \<Rightarrow> nat) \<Rightarrow> bytes option \<Rightarrow> usize \<Rightarrow> usize \<Rightarrow> usize \<Rightarrow> (mapped_slot_storage \<times> bool) result" where
  "mmap_create_or_open polls stat file cap sz total_len =
     (case MmapSlotStorage_create True (file \<noteq> None) cap sz total_len of
        Ok s \<Rightarrow> Ok (s, True)
      | Err e \<Rightarrow> map_outcome (\<lambda>s. (s, False)) (MmapSlotStorage_open polls stat file cap sz total_len)
      | Panicked \<Rightarrow> Panicked
      | Diverged \<Rightarrow> Diverged)"

subsection \<open>Named sections\<close>

text \<open>\<open>REGION_HEADER_LEN\<close> of the region layout, which the section's geometry check uses.\<close>

definition REGION_HEADER_LEN :: usize where "REGION_HEADER_LEN = 32"

definition section_texts :: mapping_texts where
  "section_texts = \<lparr>range_text = ''section storage range out of bounds'', lock_text = ''section storage lock poisoned''\<rparr>"

definition section_io :: "mapped_slot_storage region_io_ops" where
  "section_io = mapped_io section_texts default_flush_range"

definition section_validate :: "usize \<Rightarrow> usize \<Rightarrow> usize \<Rightarrow> unit result" where
  "section_validate total_len cap sz =
     and_then (check_geometry cap sz) (\<lambda>_.
     and_then (ok_or (case checked_mul cap sz of None \<Rightarrow> None | Some v \<Rightarrow> checked_add v REGION_HEADER_LEN)
       (Channel (InvalidConfig ''storage size overflow''))) (\<lambda>expected.
     if total_len \<noteq> expected then ChanErr (InvalidConfig ''storage size mismatch'') else Ok ()))"

text \<open>
  The path's file name, if it has one, names the section; the result is the name without its final
  zero. \<open>existing\<close> is what another process's section of that name holds: \<open>CreateFileMappingW\<close> opens
  it then, and mapping more than it holds fails.
\<close>

definition section_name :: "string option \<Rightarrow> string result" where
  "section_name file_name =
     (case file_name of
        None \<Rightarrow> ChanErr (StorageIo ''region path has no file name'')
      | Some n \<Rightarrow> Ok (''Local'' @ [CHR 0x5C] @ ''dsline-'' @ n))"

definition section_map_view :: "bytes \<Rightarrow> usize \<Rightarrow> bytes result" where
  "section_map_view data total_len =
     (if length data < total_len then ChanErr (StorageIo ''map shared memory section'')
      else Ok (take total_len data))"

definition section_create_or_open ::
  "string option \<Rightarrow> bytes option \<Rightarrow> usize \<Rightarrow> usize \<Rightarrow> usize \<Rightarrow> (mapped_slot_storage \<times> bool) result" where
  "section_create_or_open file_name existing cap sz total_len =
     and_then (section_validate total_len cap sz) (\<lambda>_.
     and_then (section_name file_name) (\<lambda>_.
     and_then (section_map_view (case existing of None \<Rightarrow> replicate total_len 0 | Some d \<Rightarrow> d) total_len) (\<lambda>view.
     Ok (\<lparr>map_capacity = cap, map_slot_size = sz, map_total_len = total_len, map_bytes = view,
        map_poisoned = False\<rparr>, existing = None))))"

definition section_open ::
  "string option \<Rightarrow> bytes option \<Rightarrow> usize \<Rightarrow> usize \<Rightarrow> usize \<Rightarrow> mapped_slot_storage result" where
  "section_open file_name existing cap sz total_len =
     and_then (section_validate total_len cap sz) (\<lambda>_.
     and_then (section_name file_name) (\<lambda>_.
     case existing of
       None \<Rightarrow> ChanErr (StorageIo ''open shared memory section'')
     | Some d \<Rightarrow>
         and_then (section_map_view d total_len) (\<lambda>view.
         Ok \<lparr>map_capacity = cap, map_slot_size = sz, map_total_len = total_len, map_bytes = view,
           map_poisoned = False\<rparr>)))"

section \<open>The mappings keep the contract\<close>

definition mapped_inv :: "mapped_slot_storage \<Rightarrow> bool" where
  "mapped_inv s \<longleftrightarrow> \<not> map_poisoned s \<and> map_total_len s \<le> length (map_bytes s)"

definition mapped_mem :: "mapped_slot_storage \<Rightarrow> bytes" where
  "mapped_mem s = take (map_total_len s) (map_bytes s)"

lemma put_at_take:
  "off + length b \<le> n \<Longrightarrow> n \<le> length xs \<Longrightarrow> take n (put_at off b xs) = put_at off b (take n xs)"
  by (rule nth_equalityI) (auto simp: nth_put_at)

lemma bytes_at_take: "off + k \<le> n \<Longrightarrow> bytes_at off k (take n xs) = bytes_at off k xs"
  by (simp add: bytes_at_def drop_take min_def)

lemma mapped_access_Ok:
  "mapped_inv s \<Longrightarrow> off + n \<le> length (mapped_mem s) \<Longrightarrow> mapped_access tx off n s = Ok ()"
  by (auto simp: mapped_access_def mapped_validate_range_def mapped_lock_def mapped_inv_def mapped_mem_def)

lemma mapped_load_Ok:
  "mapped_inv s \<Longrightarrow> off + 8 \<le> length (mapped_mem s) \<Longrightarrow>
   mapped_load_u64 tx off s = Ok (from_le64 (bytes_at off 8 (mapped_mem s)))"
  using mapped_access_Ok [of s off 8 tx]
  by (simp add: mapped_load_u64_def index_range_def mapped_inv_def mapped_mem_def bytes_at_take)

lemma mapped_store_Ok:
  assumes "mapped_inv s" "off + length b \<le> length (mapped_mem s)"
  shows "\<exists>t. mapped_store off b s = (Ok (), t) \<and> mapped_inv t \<and> mapped_mem t = put_at off b (mapped_mem s) \<and>
    map_capacity t = map_capacity s \<and> map_slot_size t = map_slot_size s"
  using assms by (simp add: mapped_store_def mapped_inv_def mapped_mem_def put_at_take)

lemma mapped_contract:
  assumes flush: "\<And>off n s. mapped_inv s \<Longrightarrow> fl off n s = Ok ()"
  shows "region_io (mapped_io tx fl) mapped_inv mapped_mem"
proof
  fix s off n assume "mapped_inv s" "off + n \<le> length (mapped_mem s)"
  moreover from this have "mapped_read_at tx off n s = Ok (bytes_at off n (mapped_mem s))"
    using mapped_access_Ok [of s off n tx]
    by (simp add: mapped_read_at_def index_range_def mapped_inv_def mapped_mem_def bytes_at_take)
  ultimately show "rio_read_at (mapped_io tx fl) off n s = Ok (bytes_at off n (mapped_mem s))"
    "rio_slice (mapped_io tx fl) off n s = Ok (bytes_at off n (mapped_mem s))"
    "rio_flush_range (mapped_io tx fl) off n s = Ok ()"
    by (simp_all add: mapped_io_def flush)
next
  fix s off and b :: bytes assume "mapped_inv s" "off + length b \<le> length (mapped_mem s)"
  then show "\<exists>t. rio_write_at (mapped_io tx fl) off b s = (Ok (), t) \<and> mapped_inv t \<and>
      mapped_mem t = put_at off b (mapped_mem s) \<and>
      rio_capacity (mapped_io tx fl) t = rio_capacity (mapped_io tx fl) s \<and>
      rio_slot_size (mapped_io tx fl) t = rio_slot_size (mapped_io tx fl) s"
    using mapped_access_Ok [of s off "length b" tx] mapped_store_Ok [of s off b]
    by (simp add: mapped_io_def mapped_write_at_def)
next
  fix s off n assume "mapped_inv s" "off + n \<le> length (mapped_mem s)"
  then show "\<exists>t. rio_clear_at (mapped_io tx fl) off n s = (Ok (), t) \<and> mapped_inv t \<and>
      mapped_mem t = put_at off (replicate n 0) (mapped_mem s) \<and>
      rio_capacity (mapped_io tx fl) t = rio_capacity (mapped_io tx fl) s \<and>
      rio_slot_size (mapped_io tx fl) t = rio_slot_size (mapped_io tx fl) s"
    using mapped_access_Ok [of s off n tx] mapped_store_Ok [of s off "replicate n 0"]
    by (simp add: mapped_io_def mapped_clear_at_def)
next
  fix s off assume s: "mapped_inv s" "off + 8 \<le> length (mapped_mem s)"
  show "rio_load_u64 (mapped_io tx fl) off s = Ok (from_le64 (bytes_at off 8 (mapped_mem s)))"
    using mapped_load_Ok [OF s] by (simp add: mapped_io_def)
  fix v expected new
  show "\<exists>t. rio_store_u64 (mapped_io tx fl) off v s = (Ok (), t) \<and> mapped_inv t \<and>
      mapped_mem t = put_at off (to_le64 v) (mapped_mem s) \<and>
      rio_capacity (mapped_io tx fl) t = rio_capacity (mapped_io tx fl) s \<and>
      rio_slot_size (mapped_io tx fl) t = rio_slot_size (mapped_io tx fl) s"
    using mapped_access_Ok [OF s, of tx] mapped_store_Ok [of s off "to_le64 v"] s
    by (simp add: mapped_io_def mapped_store_u64_def)
  show "\<exists>t old. rio_fetch_max_u64 (mapped_io tx fl) off v s = (Ok old, t) \<and> mapped_inv t \<and>
      mapped_mem t = put_at off (to_le64 (max (from_le64 (bytes_at off 8 (mapped_mem s))) v)) (mapped_mem s) \<and>
      rio_capacity (mapped_io tx fl) t = rio_capacity (mapped_io tx fl) s \<and>
      rio_slot_size (mapped_io tx fl) t = rio_slot_size (mapped_io tx fl) s"
    using mapped_load_Ok [OF s, of tx] mapped_store_Ok [of s off "to_le64 (max (from_le64 (bytes_at off 8 (mapped_mem s))) v)"] s
    by (auto simp add: mapped_io_def mapped_fetch_max_u64_def)
  show "\<exists>t seen. rio_compare_exchange_u64 (mapped_io tx fl) off expected new s =
          (Ok (seen, from_le64 (bytes_at off 8 (mapped_mem s)) = expected), t) \<and> mapped_inv t \<and>
        (from_le64 (bytes_at off 8 (mapped_mem s)) \<noteq> expected \<longrightarrow> seen = from_le64 (bytes_at off 8 (mapped_mem s))) \<and>
        mapped_mem t = (if from_le64 (bytes_at off 8 (mapped_mem s)) = expected
          then put_at off (to_le64 new) (mapped_mem s) else mapped_mem s) \<and>
      rio_capacity (mapped_io tx fl) t = rio_capacity (mapped_io tx fl) s \<and>
      rio_slot_size (mapped_io tx fl) t = rio_slot_size (mapped_io tx fl) s"
    using mapped_load_Ok [OF s, of tx] mapped_store_Ok [of s off "to_le64 new"] s
    by (auto simp add: mapped_io_def mapped_compare_exchange_u64_def)
qed

interpretation mmap: region_io mmap_io mapped_inv mapped_mem
  unfolding mmap_io_def
  by (rule mapped_contract) (simp add: mmap_flush_range_def mapped_lock_def mapped_inv_def)

interpretation sect: region_io section_io mapped_inv mapped_mem
  unfolding section_io_def
  by (rule mapped_contract) (simp add: default_flush_range_def)

lemma mapped_exchange:
  "mapped_inv s \<Longrightarrow> off + 8 \<le> length (mapped_mem s) \<Longrightarrow>
     mapped_compare_exchange_u64 tx off expected new s = (Ok (seen, True), t) \<Longrightarrow> seen = expected"
  using mapped_load_Ok [of s off tx]
  by (auto simp: mapped_compare_exchange_u64_def bind_def reads_def seq_def return_def split: outcome.splits if_splits prod.splits)

interpretation mmap_exchange: exchange_region_io mmap_io mapped_inv mapped_mem
  by unfold_locales (auto simp: mmap_io_def mapped_io_def dest: mapped_exchange)

interpretation sect_exchange: exchange_region_io section_io mapped_inv mapped_mem
  by unfold_locales (auto simp: section_io_def mapped_io_def dest: mapped_exchange)

section \<open>The file keeps the contract over its slots\<close>

text \<open>A file is reached up to \<open>capacity * slot_size\<close> bytes only, whatever its length.\<close>

definition file_inv :: "file_slot_storage \<Rightarrow> bool" where
  "file_inv s \<longleftrightarrow> \<not> file_poisoned s \<and> file_capacity s * file_slot_size s \<le> length (file_data s) \<and>
     file_capacity s * file_slot_size s \<le> isize_max"

definition file_mem :: "file_slot_storage \<Rightarrow> bytes" where
  "file_mem s = take (file_capacity s * file_slot_size s) (file_data s)"

lemma file_put_inside: "off + length b \<le> length d \<Longrightarrow> file_put off b d = put_at off b d"
  by (simp add: file_put_def put_at_def)

lemma file_validate_Ok:
  assumes "file_inv s" "off + n \<le> length (file_mem s)"
  shows "file_validate_range off n s = Ok ()" "\<not> n > isize_max" "file_lock s = Ok ()"
  using assms by (auto simp: file_validate_range_def file_inv_def file_mem_def file_lock_def
      usize_max_def isize_max_def)

lemma file_read_Ok:
  assumes "file_inv s" "off + n \<le> length (file_mem s)"
  shows "file_read_at off n s = Ok (bytes_at off n (file_mem s))"
  using file_validate_Ok [OF assms] assms
  by (auto simp: file_read_at_def file_inv_def file_mem_def bytes_at_take)

lemma file_write_Ok:
  assumes "file_inv s" "off + length b \<le> length (file_mem s)"
  shows "\<exists>t. file_write_at off b s = (Ok (), t) \<and> file_inv t \<and> file_mem t = put_at off b (file_mem s) \<and>
    file_capacity t = file_capacity s \<and> file_slot_size t = file_slot_size s"
  using file_validate_Ok [OF assms] assms
  by (simp add: file_write_at_def file_inv_def file_mem_def file_put_inside put_at_take)

lemma file_clear_Ok:
  assumes "file_inv s" "off + n \<le> length (file_mem s)"
  shows "\<exists>t. file_clear_at off n s = (Ok (), t) \<and> file_inv t \<and> file_mem t = put_at off (replicate n 0) (file_mem s) \<and>
    file_capacity t = file_capacity s \<and> file_slot_size t = file_slot_size s"
  using file_validate_Ok [OF assms] assms
  by (simp add: file_clear_at_def file_inv_def file_mem_def file_put_inside put_at_take)

lemma file_load_Ok:
  assumes "file_inv s" "off + 8 \<le> length (file_mem s)"
  shows "default_load_u64 file_read_at off s = Ok (from_le64 (bytes_at off 8 (file_mem s)))"
  using file_read_Ok [OF assms] assms(2) by (simp add: default_load_u64_def)

interpretation file_store: region_io file_io file_inv file_mem
proof
  fix s off n assume "file_inv s" "off + n \<le> length (file_mem s)"
  then show "rio_read_at file_io off n s = Ok (bytes_at off n (file_mem s))"
    "rio_slice file_io off n s = Ok (bytes_at off n (file_mem s))"
    "rio_flush_range file_io off n s = Ok ()"
    by (simp_all add: file_io_def file_read_Ok default_with_slice_def default_flush_range_def)
next
  fix s off and b :: bytes assume "file_inv s" "off + length b \<le> length (file_mem s)"
  then show "\<exists>t. rio_write_at file_io off b s = (Ok (), t) \<and> file_inv t \<and> file_mem t = put_at off b (file_mem s) \<and>
      rio_capacity file_io t = rio_capacity file_io s \<and> rio_slot_size file_io t = rio_slot_size file_io s"
    using file_write_Ok by (simp add: file_io_def)
next
  fix s off n assume "file_inv s" "off + n \<le> length (file_mem s)"
  then show "\<exists>t. rio_clear_at file_io off n s = (Ok (), t) \<and> file_inv t \<and>
      file_mem t = put_at off (replicate n 0) (file_mem s) \<and>
      rio_capacity file_io t = rio_capacity file_io s \<and> rio_slot_size file_io t = rio_slot_size file_io s"
    using file_clear_Ok by (simp add: file_io_def)
next
  fix s off assume s: "file_inv s" "off + 8 \<le> length (file_mem s)"
  have st: "\<exists>t. default_store_u64 file_write_at off v s = (Ok (), t) \<and> file_inv t \<and>
      file_mem t = put_at off (to_le64 v) (file_mem s) \<and> file_capacity t = file_capacity s \<and>
      file_slot_size t = file_slot_size s" for v
    using file_write_Ok [of s off "to_le64 v"] s by (simp add: default_store_u64_def)
  have same: "put_at off (to_le64 (from_le64 (bytes_at off 8 (file_mem s)))) (file_mem s) = file_mem s"
    using s(2) by (intro nth_equalityI) (auto simp: nth_put_at)
  show "rio_load_u64 file_io off s = Ok (from_le64 (bytes_at off 8 (file_mem s)))"
    using file_load_Ok [OF s] by (simp add: file_io_def)
  fix v expected new
  show "\<exists>t. rio_store_u64 file_io off v s = (Ok (), t) \<and> file_inv t \<and>
      file_mem t = put_at off (to_le64 v) (file_mem s) \<and>
      rio_capacity file_io t = rio_capacity file_io s \<and> rio_slot_size file_io t = rio_slot_size file_io s"
    using st by (simp add: file_io_def)
  show "\<exists>t old. rio_fetch_max_u64 file_io off v s = (Ok old, t) \<and> file_inv t \<and>
      file_mem t = put_at off (to_le64 (max (from_le64 (bytes_at off 8 (file_mem s))) v)) (file_mem s) \<and>
      rio_capacity file_io t = rio_capacity file_io s \<and> rio_slot_size file_io t = rio_slot_size file_io s"
    using st [of v] file_load_Ok [OF s] same s(1)
    by (cases "v > from_le64 (bytes_at off 8 (file_mem s))")
      (auto simp add: file_io_def default_fetch_max_u64_def max_def not_less)
  show "\<exists>t seen. rio_compare_exchange_u64 file_io off expected new s =
          (Ok (seen, from_le64 (bytes_at off 8 (file_mem s)) = expected), t) \<and> file_inv t \<and>
        (from_le64 (bytes_at off 8 (file_mem s)) \<noteq> expected \<longrightarrow> seen = from_le64 (bytes_at off 8 (file_mem s))) \<and>
        file_mem t = (if from_le64 (bytes_at off 8 (file_mem s)) = expected
          then put_at off (to_le64 new) (file_mem s) else file_mem s) \<and>
      rio_capacity file_io t = rio_capacity file_io s \<and> rio_slot_size file_io t = rio_slot_size file_io s"
    using st [of new] file_load_Ok [OF s] s(1)
    by (cases "from_le64 (bytes_at off 8 (file_mem s)) = expected")
      (auto simp add: file_io_def default_compare_exchange_u64_def)
qed

section \<open>The file as a slot storage\<close>

definition file_slot :: "file_slot_storage \<Rightarrow> usize \<Rightarrow> bytes" where
  "file_slot s i = bytes_at (i * file_slot_size s) (file_slot_size s) (file_mem s)"

lemma length_file_mem [simp]: "file_inv s \<Longrightarrow> length (file_mem s) = file_capacity s * file_slot_size s"
  by (simp add: file_inv_def file_mem_def)

lemma file_offset_Ok:
  assumes "file_inv s" "i < file_capacity s"
  shows "file_offset i s = Ok (i * file_slot_size s)"
proof -
  have "i * file_slot_size s \<le> usize_max"
    using slot_end [OF assms(2), of "file_slot_size s"] assms(1)
    by (simp add: file_inv_def isize_max_def usize_max_def)
  with assms(2) show ?thesis by (simp add: file_offset_def)
qed

interpretation file_slots: slot_storage file_ops file_inv file_slot
proof
  fix s i assume "file_inv s" "i < st_capacity file_ops s"
  then show "length (file_slot s i) = st_slot_size file_ops s"
    using slot_end [of i "file_capacity s" "file_slot_size s"] by (simp add: file_ops_def file_slot_def)
next
  fix s i and b :: bytes
  assume s: "file_inv s" and i: "i < st_capacity file_ops s" and b: "length b \<le> st_slot_size file_ops s"
  then have "i * file_slot_size s + length b \<le> length (file_mem s)"
    using slot_end [of i "file_capacity s" "file_slot_size s"] by (simp add: file_ops_def)
  from file_write_Ok [OF s this] file_offset_Ok [OF s] i b s
  show "\<exists>t. st_write_slot file_ops i b s = (Ok (), t) \<and> file_inv t \<and>
      st_capacity file_ops t = st_capacity file_ops s \<and> st_slot_size file_ops t = st_slot_size file_ops s \<and>
      (\<forall>j < st_capacity file_ops s. file_slot t j =
         (if j = i then b @ drop (length b) (file_slot s i) else file_slot s j))"
    by (auto simp: file_ops_def file_write_slot_def file_slot_def slots_put_at [OF length_file_mem [OF s]])
next
  fix s i assume s: "file_inv s" and i: "i < st_capacity file_ops s"
  then have "i * file_slot_size s + file_slot_size s \<le> length (file_mem s)"
    using slot_end [of i "file_capacity s" "file_slot_size s"] by (simp add: file_ops_def)
  from file_clear_Ok [OF s this] file_offset_Ok [OF s] i s
  show "\<exists>t. st_clear_slot file_ops i s = (Ok (), t) \<and> file_inv t \<and>
      st_capacity file_ops t = st_capacity file_ops s \<and> st_slot_size file_ops t = st_slot_size file_ops s \<and>
      (\<forall>j < st_capacity file_ops s. file_slot t j =
         (if j = i then replicate (st_slot_size file_ops s) 0 else file_slot s j))"
    by (auto simp: file_ops_def file_clear_slot_def file_slot_def slots_put_at [OF length_file_mem [OF s]])
next
  fix s i n assume s: "file_inv s" and i: "i < st_capacity file_ops s" and n: "n \<le> st_slot_size file_ops s"
  then have "i * file_slot_size s + n \<le> length (file_mem s)"
    using slot_end [of i "file_capacity s" "file_slot_size s"] by (simp add: file_ops_def)
  from file_read_Ok [OF s this] file_offset_Ok [OF s] i n
  show "st_read_slot file_ops i n s = Ok (take n (file_slot s i))"
    by (simp add: file_ops_def file_read_slot_def file_slot_def bytes_at_def min_def)
qed

section \<open>Compare-and-exchange on the back ends\<close>

text \<open>The back ends agree on which compare-and-exchange succeeds and on what it stores, but
  not on the word it returns: on success the mappings return the word they found, as the trait
  documents, and the default method (the file) returns the new word.\<close>

theorem compare_exchange_backends:
  assumes "mapped_inv s" "off + 8 \<le> length (mapped_mem s)" "file_inv f" "off + 8 \<le> length (file_mem f)"
    and "bytes_at off 8 (mapped_mem s) = bytes_at off 8 (file_mem f)"
  shows "let cur = from_le64 (bytes_at off 8 (file_mem f)) in
    fst (rio_compare_exchange_u64 mmap_io off expected new s) = Ok (cur, cur = expected) \<and>
    fst (rio_compare_exchange_u64 file_io off expected new f) =
      Ok (if cur = expected then new else cur, cur = expected) \<and>
    bytes_at off 8 (mapped_mem (snd (rio_compare_exchange_u64 mmap_io off expected new s))) =
      bytes_at off 8 (file_mem (snd (rio_compare_exchange_u64 file_io off expected new f)))"
proof -
  let ?cur = "from_le64 (bytes_at off 8 (file_mem f))"
  obtain t where t: "mapped_store off (to_le64 new) s = (Ok (), t)" "mapped_mem t = put_at off (to_le64 new) (mapped_mem s)"
    using mapped_store_Ok [of s off "to_le64 new"] assms(1,2) by auto
  obtain g where g: "file_write_at off (to_le64 new) f = (Ok (), g)" "file_mem g = put_at off (to_le64 new) (file_mem f)"
    using file_write_Ok [of f off "to_le64 new"] assms(3,4) by auto
  have m: "rio_compare_exchange_u64 mmap_io off expected new s =
      (if ?cur = expected then (Ok (?cur, True), t) else (Ok (?cur, False), s))"
    using mapped_load_Ok [OF assms(1,2), of mmap_texts] t(1) assms(5)
    by (simp add: mmap_io_def mapped_io_def mapped_compare_exchange_u64_def)
  have "rio_compare_exchange_u64 file_io off expected new f =
      (if ?cur = expected then (Ok (new, True), g) else (Ok (?cur, False), f))"
    using file_load_Ok [OF assms(3,4)] g(1)
    by (simp add: file_io_def default_compare_exchange_u64_def default_store_u64_def)
  with m t(2) g(2) assms show ?thesis by (simp add: Let_def)
qed

theorem compare_exchange_backends_witness:
  "let s = \<lparr>map_capacity = 1, map_slot_size = 8, map_total_len = 8, map_bytes = replicate 8 0, map_poisoned = False\<rparr>;
       f = \<lparr>file_capacity = 1, file_slot_size = 8, file_data = replicate 8 0, file_poisoned = False\<rparr>
   in fst (rio_compare_exchange_u64 mmap_io 0 0 7 s) = Ok (0, True) \<and>
      fst (rio_compare_exchange_u64 file_io 0 0 7 f) = Ok (7, True)"
proof -
  let ?s = "\<lparr>map_capacity = 1, map_slot_size = 8, map_total_len = 8, map_bytes = replicate 8 0, map_poisoned = False\<rparr>"
  let ?f = "\<lparr>file_capacity = 1, file_slot_size = 8, file_data = replicate 8 0, file_poisoned = False\<rparr>"
  have s: "mapped_inv ?s" "0 + 8 \<le> length (mapped_mem ?s)" by (simp_all add: mapped_inv_def mapped_mem_def)
  have f: "file_inv ?f" "0 + 8 \<le> length (file_mem ?f)" by (simp_all add: file_inv_def file_mem_def isize_max_def)
  have e: "bytes_at 0 8 (mapped_mem ?s) = bytes_at 0 8 (file_mem ?f)"
    by (simp add: mapped_mem_def file_mem_def)
  have z: "from_le64 (bytes_at 0 8 (file_mem ?f)) = 0"
    by (simp add: file_mem_def from_le64_def numeral_eq_Suc)
  show ?thesis using compare_exchange_backends [OF s f e, of 0 7] unfolding z Let_def by simp
qed

end
