(* ===== verification/Process.thy ===== *)
theory Process
  imports Text
begin

text \<open>
  Writer identity and liveness, \<open>crates/dsline-shm/src/process.rs\<close>: the classification a reclaim
  rests on, the parser of \<open>/proc/<pid>/stat\<close> and the Windows probe. What the operating system
  answers is the argument of the probes.
\<close>

section \<open>Liveness\<close>

record process_identity =
  pid :: u32
  start_time :: u64

datatype process_liveness = Alive | Gone | Unknown

text \<open>\<open>probe pid\<close>: no such process, its start time, or undecided.\<close>

definition process_liveness :: "(u32 \<Rightarrow> (unit, u64 option) outcome) \<Rightarrow> process_identity \<Rightarrow> process_liveness" where
  "process_liveness probe identity =
     (if pid identity = 0 then Unknown
      else case probe (pid identity) of
        Ok None \<Rightarrow> Gone
      | Ok (Some t) \<Rightarrow> if t = start_time identity then Alive else Gone
      | _ \<Rightarrow> Unknown)"

definition current_process_identity :: "u32 \<Rightarrow> u64 \<Rightarrow> process_identity" where
  "current_process_identity self_pid self_start_time = \<lparr>pid = self_pid, start_time = self_start_time\<rparr>"

section \<open>Linux\<close>

text \<open>Reading \<open>/proc/<pid>/stat\<close>: its text, not found (with or without the directory), or another
  error.\<close>

datatype stat_file = StatText string | StatNotFound bool | StatError

definition read_start_time :: "stat_file \<Rightarrow> (unit, u64 option) outcome" where
  "read_start_time file =
     (case file of
        StatNotFound dir_exists \<Rightarrow> if dir_exists then Err () else Ok None
      | StatError \<Rightarrow> Err ()
      | StatText stat \<Rightarrow>
          and_then (ok_or (rsplit_once (CHR '')'') stat) ()) (\<lambda>(_, after_comm).
          let toks = split_whitespace after_comm in
          and_then (if 19 < length toks then Ok (toks ! 19) else Err ()) (\<lambda>field.
          and_then (ok_or (parse_unsigned (2 ^ 64) field) ()) (\<lambda>n. Ok (Some (word_of_nat n))))))"

definition linux_process_start_time :: "(u32 \<Rightarrow> stat_file) \<Rightarrow> u32 \<Rightarrow> (unit, u64 option) outcome" where
  "linux_process_start_time proc p = read_start_time (proc p)"

definition linux_current_process_start_time :: "stat_file \<Rightarrow> u64" where
  "linux_current_process_start_time self_stat =
     (case read_start_time self_stat of Ok (Some t) \<Rightarrow> t | _ \<Rightarrow> 0)"

section \<open>Windows and other platforms\<close>

text \<open>\<open>opened\<close> is the error code when \<open>OpenProcess\<close> returns null, \<open>creation\<close> the creation time
  when \<open>GetProcessTimes\<close> succeeds.\<close>

definition windows_creation_time :: "64 word option \<Rightarrow> (unit, u64) outcome" where
  "windows_creation_time creation = ok_or creation ()"

definition windows_process_start_time :: "u32 option \<Rightarrow> 64 word option \<Rightarrow> (unit, u64 option) outcome" where
  "windows_process_start_time opened creation =
     (case opened of
        Some err \<Rightarrow> if err = 87 then Ok None else Err ()
      | None \<Rightarrow> map_outcome Some (windows_creation_time creation))"

definition other_process_start_time :: "u32 \<Rightarrow> (unit, u64 option) outcome" where
  "other_process_start_time p = Err ()"

section \<open>A running process is never classified gone\<close>

text \<open>The text of a stat file: \<open>pid (comm) field3 field4 ...\<close>.\<close>

definition stat_line :: "string \<Rightarrow> string \<Rightarrow> string list \<Rightarrow> string" where
  "stat_line p comm fs = p @ '' ('' @ comm @ '')'' @ concat (map (\<lambda>f. '' '' @ f) fs)"

lemma tokens_fields:
  assumes "\<forall>f \<in> set fs. f \<noteq> [] \<and> (\<forall>c \<in> set f. \<not> is_space c)"
  shows "tokens_acc [] (concat (map (\<lambda>f. '' '' @ f) fs)) = fs"
  using assms
proof (induction fs)
  case Nil
  then show ?case by simp
next
  case (Cons f fs)
  have sp: "is_space (CHR '' '')" by (simp add: is_space_def)
  show ?case
  proof (cases fs)
    case Nil
    with Cons.prems sp tokens_last [of f] show ?thesis by simp
  next
    case (Cons g gs)
    with Cons.IH Cons.prems sp have "tokens_acc [] (concat (map (\<lambda>f. '' '' @ f) fs)) = fs" by simp
    moreover have "tokens_acc [] (f @ CHR '' '' # (g @ concat (map (\<lambda>f. '' '' @ f) gs))) =
        f # tokens_acc [] (g @ concat (map (\<lambda>f. '' '' @ f) gs))"
      using tokens_step [of f "CHR '' ''"] Cons.prems sp by simp
    ultimately show ?thesis using Cons sp by simp
  qed
qed

lemma read_stat_line:
  assumes "\<forall>f \<in> set fs. f \<noteq> [] \<and> (\<forall>c \<in> set f. \<not> is_space c \<and> c \<noteq> CHR '')'')"
    and "19 < length fs" and "fs ! 19 = show_nat n" and "n < 2 ^ 64"
  shows "read_start_time (StatText (stat_line p comm fs)) = Ok (Some (word_of_nat n))"
proof -
  let ?rest = "concat (map (\<lambda>f. '' '' @ f) fs)"
  have "CHR '')'' \<notin> set ?rest" using assms(1) by auto
  from rsplit_once_last [OF this, of "p @ '' ('' @ comm"]
  have "rsplit_once (CHR '')'') (stat_line p comm fs) = Some (p @ '' ('' @ comm, ?rest)"
    by (simp add: stat_line_def)
  moreover have "split_whitespace ?rest = fs"
    using tokens_fields [of fs] assms(1) by (simp add: split_whitespace_def)
  ultimately show ?thesis
    using assms(2-4) by (simp add: read_start_time_def parse_show_nat)
qed

text \<open>A running process is never classified as gone. When the stat file of a process shows
  its start time in field 22, the identity recorded with that pid and start time is \<open>Alive\<close>,
  whatever the process is called (blanks and parentheses in \<open>comm\<close> included), and an identity with
  the same pid and another start time is \<open>Gone\<close>.\<close>

theorem live_process_never_gone:
  assumes "\<forall>f \<in> set fs. f \<noteq> [] \<and> (\<forall>c \<in> set f. \<not> is_space c \<and> c \<noteq> CHR '')'')"
    and "19 < length fs" and "fs ! 19 = show_nat (unat t)"
    and "proc p = StatText (stat_line (show_nat (unat p)) comm fs)" and "p \<noteq> 0"
  shows "process_liveness (linux_process_start_time proc) \<lparr>pid = p, start_time = s\<rparr> =
    (if s = t then Alive else Gone)"
proof -
  have "unat t < 2 ^ 64" using unsigned_less [of t, where ?'a = nat] by simp
  from read_stat_line [OF assms(1-3) this] assms(4,5) show ?thesis
    by (simp add: process_liveness_def linux_process_start_time_def)
qed

theorem live_process_never_gone_witness:
  "process_liveness (linux_process_start_time
      (\<lambda>_. StatText (stat_line (show_nat (unat (7 :: u32))) ''a b (c))'' (replicate 19 ''1'' @ [show_nat (unat (500 :: u64)), ''0'']))))
     \<lparr>pid = 7, start_time = 500\<rparr> = Alive"
proof -
  have digits: "c \<in> set (show_nat 500) \<Longrightarrow> \<not> is_space c \<and> c \<noteq> CHR '')''" for c
    using show_nat_chars [of c 500] digit_not_space [of c] by (auto simp: is_digit_def)
  have "\<forall>f \<in> set (replicate 19 ''1'' @ [show_nat (unat (500 :: u64)), ''0'']).
      f \<noteq> [] \<and> (\<forall>c \<in> set f. \<not> is_space c \<and> c \<noteq> CHR '')'')"
    using show_nat_chars [of _ "unat (500 :: u64)"]
    by (auto simp: is_space_def dest!: digits)
  from live_process_never_gone [OF this, of "500" "\<lambda>_. StatText (stat_line (show_nat (unat (7 :: u32))) ''a b (c))''
      (replicate 19 ''1'' @ [show_nat (unat (500 :: u64)), ''0'']))" 7 "''a b (c))''" 500]
  show ?thesis by (simp add: nth_append)
qed

end
