(* ===== verification/Persistent_Region.thy ===== *)
theory Persistent_Region
  imports Region_Io Fixed_Region Process Chunking
begin

text \<open>
  \<open>PersistentSlotRegion\<close> of \<open>crates/dsline-shm/src/lib.rs\<close>: the byte layout of a shared region (a
  32-byte region header with the cursors, the pin floor, the magic and the format, then the slots,
  each a 48-byte header and the frame), the slot transitions and the reclaim of slots left by dead
  processes. The functions take the methods of the storage (\<open>io\<close>) and run on its state.

  Fences order memory accesses of concurrent processes and do nothing in a sequential execution, so
  they have no counterpart. Slot offsets are computed without an overflow check, which never
  overflow for the indices below the capacity that the channel uses.
\<close>

section \<open>Layout\<close>

definition PERSISTENT_SLOT_HEADER_LEN :: usize where "PERSISTENT_SLOT_HEADER_LEN = 48"
definition SLOT_IDENTITY_MAGIC :: u32 where "SLOT_IDENTITY_MAGIC = 0x31564957"
definition ID_STATE_OFFSET :: usize where "ID_STATE_OFFSET = 0"
definition ID_SEQ_OFFSET :: usize where "ID_SEQ_OFFSET = 1"
definition ID_PAYLOAD_LEN_OFFSET :: usize where "ID_PAYLOAD_LEN_OFFSET = 9"
definition ID_PID_OFFSET :: usize where "ID_PID_OFFSET = 13"
definition ID_START_TIME_OFFSET :: usize where "ID_START_TIME_OFFSET = 17"
definition ID_EPOCH_OFFSET :: usize where "ID_EPOCH_OFFSET = 25"
definition ID_TIMESTAMP_OFFSET :: usize where "ID_TIMESTAMP_OFFSET = 29"
definition ID_RESERVED_SLOTS_OFFSET :: usize where "ID_RESERVED_SLOTS_OFFSET = 37"
definition ID_MAGIC_OFFSET :: usize where "ID_MAGIC_OFFSET = 41"

definition REGION_FORMAT :: u32 where "REGION_FORMAT = 4"
definition REGION_MAGIC :: u32 where "REGION_MAGIC = 0x31534c44"
definition REGION_MAGIC_MPSC :: u32 where "REGION_MAGIC_MPSC = 0x32534c44"
definition CURSOR_HEAD_OFFSET :: usize where "CURSOR_HEAD_OFFSET = 0"
definition CURSOR_TAIL_OFFSET :: usize where "CURSOR_TAIL_OFFSET = 8"
definition MAGIC_OFFSET :: usize where "MAGIC_OFFSET = 16"
definition FORMAT_OFFSET :: usize where "FORMAT_OFFSET = 20"
definition PIN_FLOOR_OFFSET :: usize where "PIN_FLOOR_OFFSET = 24"
definition PIN_FLOOR_NONE :: u64 where "PIN_FLOOR_NONE = 0xFFFFFFFFFFFFFFFF"

lemmas layout_consts = PERSISTENT_SLOT_HEADER_LEN_def ID_STATE_OFFSET_def ID_SEQ_OFFSET_def
  ID_PAYLOAD_LEN_OFFSET_def ID_PID_OFFSET_def ID_START_TIME_OFFSET_def ID_EPOCH_OFFSET_def
  ID_TIMESTAMP_OFFSET_def ID_RESERVED_SLOTS_OFFSET_def ID_MAGIC_OFFSET_def REGION_HEADER_LEN_def
  CURSOR_HEAD_OFFSET_def CURSOR_TAIL_OFFSET_def MAGIC_OFFSET_def FORMAT_OFFSET_def PIN_FLOOR_OFFSET_def

definition region_magic :: "bool \<Rightarrow> u32" where
  "region_magic mp = (if mp then REGION_MAGIC_MPSC else REGION_MAGIC)"

text \<open>The file name of the region of a named channel, \<open>dsline-<crc of the name>.bin\<close>; the runtime
  directory comes from the environment.\<close>

definition shm_region_file_name :: "(bytes \<Rightarrow> u32) \<Rightarrow> bytes \<Rightarrow> string" where
  "shm_region_file_name crc name = ''dsline-'' @ show_hex8 (crc name) @ ''.bin''"

definition persistent_region_slot_size :: "spsc_config \<Rightarrow> usize result" where
  "persistent_region_slot_size cfg =
     ok_or (case checked_add (slot_size cfg) FRAME_HEADER_LEN of None \<Rightarrow> None
       | Some v \<Rightarrow> checked_add v PERSISTENT_SLOT_HEADER_LEN)
       (Channel (InvalidConfig ''slot_size is too large''))"

section \<open>Slot headers\<close>

record writer_identity =
  wi_pid :: u32
  wi_start_time :: u64
  wi_epoch :: u32
  wi_timestamp_ns :: u64
  wi_reserved_slots :: u32

record slot_header_full =
  sh_state :: slot_state
  sh_seq :: u64
  sh_payload_len :: usize
  sh_identity :: "writer_identity option"

text \<open>The parser of the 48 bytes; every slice is in range, because \<open>read_at\<close> returns that many.\<close>

definition parse_header_full :: "bytes \<Rightarrow> slot_header_full" where
  "parse_header_full raw =
     (let magic = from_le32 (bytes_at ID_MAGIC_OFFSET 4 raw) in
      \<lparr>sh_state = slot_state_from_byte (raw ! ID_STATE_OFFSET),
       sh_seq = from_le64 (bytes_at ID_SEQ_OFFSET 8 raw),
       sh_payload_len = unat (from_le32 (bytes_at ID_PAYLOAD_LEN_OFFSET 4 raw)),
       sh_identity =
         (if magic = SLOT_IDENTITY_MAGIC then
            Some \<lparr>wi_pid = from_le32 (bytes_at ID_PID_OFFSET 4 raw),
              wi_start_time = from_le64 (bytes_at ID_START_TIME_OFFSET 8 raw),
              wi_epoch = from_le32 (bytes_at ID_EPOCH_OFFSET 4 raw),
              wi_timestamp_ns = from_le64 (bytes_at ID_TIMESTAMP_OFFSET 8 raw),
              wi_reserved_slots = from_le32 (bytes_at ID_RESERVED_SLOTS_OFFSET 4 raw)\<rparr>
          else None)\<rparr>)"

text \<open>The encoder copies each field into a zeroed header; \<open>payload_len as u32\<close> truncates.\<close>

definition encode_header ::
  "slot_state \<Rightarrow> u64 \<Rightarrow> usize \<Rightarrow> writer_identity option \<Rightarrow> bool \<Rightarrow> bytes" where
  "encode_header st sq len identity publish_magic =
     (let header = replicate PERSISTENT_SLOT_HEADER_LEN 0;
          header = put_at ID_STATE_OFFSET [slot_state_to_byte st] header;
          header = put_at ID_SEQ_OFFSET (to_le64 sq) header;
          header = put_at ID_PAYLOAD_LEN_OFFSET (to_le32 (word_of_nat len)) header
      in case identity of
           None \<Rightarrow> header
         | Some i \<Rightarrow>
             (let header = put_at ID_PID_OFFSET (to_le32 (wi_pid i)) header;
                  header = put_at ID_START_TIME_OFFSET (to_le64 (wi_start_time i)) header;
                  header = put_at ID_EPOCH_OFFSET (to_le32 (wi_epoch i)) header;
                  header = put_at ID_TIMESTAMP_OFFSET (to_le64 (wi_timestamp_ns i)) header;
                  header = put_at ID_RESERVED_SLOTS_OFFSET (to_le32 (wi_reserved_slots i)) header
              in if publish_magic then put_at ID_MAGIC_OFFSET (to_le32 SLOT_IDENTITY_MAGIC) header else header))"

section \<open>The region\<close>

text \<open>A region is its storage; \<open>frame_capacity\<close> is fixed by its slot size.\<close>

definition check_slot_size :: "usize \<Rightarrow> unit result" where
  "check_slot_size sz =
     (if sz \<le> PERSISTENT_SLOT_HEADER_LEN
      then ChanErr (InvalidConfig ''slot_size must be greater than persistent header size'') else Ok ())"

definition region_total_len :: "usize \<Rightarrow> usize \<Rightarrow> usize result" where
  "region_total_len cap sz =
     ok_or (case checked_mul cap sz of None \<Rightarrow> None | Some v \<Rightarrow> checked_add v REGION_HEADER_LEN)
       (Channel (InvalidConfig ''storage size overflow''))"

text \<open>\<open>create\<close> and \<open>open\<close>: \<open>provide total_len\<close> is the storage's own constructor.\<close>

definition pregion_create :: "(usize \<Rightarrow> 's result) \<Rightarrow> usize \<Rightarrow> usize \<Rightarrow> 's result" where
  "pregion_create provide cap sz =
     and_then (check_slot_size sz) (\<lambda>_. and_then (region_total_len cap sz) provide)"

definition pregion_from_storage :: "'s region_io_ops \<Rightarrow> 's \<Rightarrow> 's result" where
  "pregion_from_storage io s = and_then (check_slot_size (rio_slot_size io s)) (\<lambda>_. Ok s)"

definition frame_capacity :: "'s region_io_ops \<Rightarrow> 's \<Rightarrow> usize" where
  "frame_capacity io s = rio_slot_size io s - PERSISTENT_SLOT_HEADER_LEN"

definition slot_offset :: "'s region_io_ops \<Rightarrow> 's \<Rightarrow> usize \<Rightarrow> usize" where
  "slot_offset io s index = REGION_HEADER_LEN + index * rio_slot_size io s"

definition read_header_full :: "'s region_io_ops \<Rightarrow> usize \<Rightarrow> 's \<Rightarrow> slot_header_full result" where
  "read_header_full io index s =
     map_outcome parse_header_full (rio_read_at io (slot_offset io s index) PERSISTENT_SLOT_HEADER_LEN s)"

definition read_header :: "'s region_io_ops \<Rightarrow> usize \<Rightarrow> 's \<Rightarrow> (slot_state \<times> u64 \<times> usize) result" where
  "read_header io index s =
     map_outcome (\<lambda>raw. (slot_state_from_byte (raw ! ID_STATE_OFFSET),
         from_le64 (bytes_at ID_SEQ_OFFSET 8 raw),
         unat (from_le32 (bytes_at ID_PAYLOAD_LEN_OFFSET 4 raw))))
       (rio_read_at io (slot_offset io s index) PERSISTENT_SLOT_HEADER_LEN s)"

definition write_at_slot :: "'s region_io_ops \<Rightarrow> usize \<Rightarrow> usize \<Rightarrow> bytes \<Rightarrow> ('s, dsline_error, unit) action" where
  "write_at_slot io index delta b =
     bind (gets (\<lambda>s. slot_offset io s index)) (\<lambda>off. rio_write_at io (off + delta) b)"

definition write_header ::
  "'s region_io_ops \<Rightarrow> usize \<Rightarrow> slot_state \<Rightarrow> u64 \<Rightarrow> usize \<Rightarrow> ('s, dsline_error, unit) action" where
  "write_header io index st sq len = write_at_slot io index 0 (encode_header st sq len None False)"

text \<open>A header with an identity: the fields first, the identity magic last.\<close>

definition write_identity_header ::
  "'s region_io_ops \<Rightarrow> usize \<Rightarrow> slot_state \<Rightarrow> u64 \<Rightarrow> usize \<Rightarrow> writer_identity \<Rightarrow> ('s, dsline_error, unit) action" where
  "write_identity_header io index st sq len identity =
     seq (write_at_slot io index 0 (encode_header st sq len (Some identity) False))
     (write_at_slot io index ID_MAGIC_OFFSET (to_le32 SLOT_IDENTITY_MAGIC))"

definition write_writing_header ::
  "'s region_io_ops \<Rightarrow> usize \<Rightarrow> u64 \<Rightarrow> usize \<Rightarrow> writer_identity \<Rightarrow> ('s, dsline_error, unit) action" where
  "write_writing_header io index = write_identity_header io index Writing"

definition write_pinned_header ::
  "'s region_io_ops \<Rightarrow> usize \<Rightarrow> u64 \<Rightarrow> usize \<Rightarrow> writer_identity \<Rightarrow> ('s, dsline_error, unit) action" where
  "write_pinned_header io index = write_identity_header io index Pinned"

definition write_payload :: "'s region_io_ops \<Rightarrow> usize \<Rightarrow> bytes \<Rightarrow> ('s, dsline_error, unit) action" where
  "write_payload io index f =
     bind (gets (frame_capacity io)) (\<lambda>fc.
     if length f > fc then fail (Channel (MessageTooLarge (length f) fc))
     else write_at_slot io index PERSISTENT_SLOT_HEADER_LEN f)"

definition read_payload :: "'s region_io_ops \<Rightarrow> usize \<Rightarrow> usize \<Rightarrow> 's \<Rightarrow> bytes result" where
  "read_payload io index len s =
     (if len > frame_capacity io s then ChanErr (MessageTooLarge len (frame_capacity io s))
      else rio_read_at io (slot_offset io s index + PERSISTENT_SLOT_HEADER_LEN) len s)"

definition clear_payload :: "'s region_io_ops \<Rightarrow> usize \<Rightarrow> ('s, dsline_error, unit) action" where
  "clear_payload io index =
     bind (gets (\<lambda>s. (slot_offset io s index, frame_capacity io s))) (\<lambda>(off, fc).
     rio_clear_at io (off + PERSISTENT_SLOT_HEADER_LEN) fc)"

section \<open>Cursors, floor, magic\<close>

definition load_head :: "'s region_io_ops \<Rightarrow> 's \<Rightarrow> u64 result" where
  "load_head io = rio_load_u64 io CURSOR_HEAD_OFFSET"

definition store_head :: "'s region_io_ops \<Rightarrow> u64 \<Rightarrow> ('s, dsline_error, unit) action" where
  "store_head io = rio_store_u64 io CURSOR_HEAD_OFFSET"

definition load_tail :: "'s region_io_ops \<Rightarrow> 's \<Rightarrow> u64 result" where
  "load_tail io = rio_load_u64 io CURSOR_TAIL_OFFSET"

definition fetch_max_tail :: "'s region_io_ops \<Rightarrow> u64 \<Rightarrow> ('s, dsline_error, u64) action" where
  "fetch_max_tail io = rio_fetch_max_u64 io CURSOR_TAIL_OFFSET"

definition load_floor :: "'s region_io_ops \<Rightarrow> 's \<Rightarrow> u64 result" where
  "load_floor io = rio_load_u64 io PIN_FLOOR_OFFSET"

definition store_floor :: "'s region_io_ops \<Rightarrow> u64 \<Rightarrow> ('s, dsline_error, unit) action" where
  "store_floor io = rio_store_u64 io PIN_FLOOR_OFFSET"

definition compare_exchange_word ::
  "'s region_io_ops \<Rightarrow> usize \<Rightarrow> u64 \<Rightarrow> u64 \<Rightarrow> ('s, dsline_error, u64 \<times> bool) action" where
  "compare_exchange_word io = rio_compare_exchange_u64 io"

definition compare_exchange_head :: "'s region_io_ops \<Rightarrow> u64 \<Rightarrow> u64 \<Rightarrow> ('s, dsline_error, u64 \<times> bool) action" where
  "compare_exchange_head io = rio_compare_exchange_u64 io CURSOR_HEAD_OFFSET"

definition compare_exchange_tail :: "'s region_io_ops \<Rightarrow> u64 \<Rightarrow> u64 \<Rightarrow> ('s, dsline_error, u64 \<times> bool) action" where
  "compare_exchange_tail io = rio_compare_exchange_u64 io CURSOR_TAIL_OFFSET"

text \<open>The bounded retry loop of \<open>floor_min\<close>, run with \<open>turns = 32\<close>.\<close>

fun floor_min_loop :: "'s region_io_ops \<Rightarrow> u64 \<Rightarrow> nat \<Rightarrow> ('s, dsline_error, u64) action" where
  "floor_min_loop io target 0 = reads (load_floor io)"
| "floor_min_loop io target (Suc turns) =
     bind (reads (load_floor io)) (\<lambda>current.
     if current \<noteq> PIN_FLOOR_NONE \<and> current \<le> target then return current
     else bind (rio_compare_exchange_u64 io PIN_FLOOR_OFFSET current target) (\<lambda>(_, ok).
       if ok then return target else floor_min_loop io target turns))"

definition floor_min :: "'s region_io_ops \<Rightarrow> u64 \<Rightarrow> ('s, dsline_error, u64) action" where
  "floor_min io target = floor_min_loop io target 32"

definition floor_cas :: "'s region_io_ops \<Rightarrow> u64 \<Rightarrow> u64 \<Rightarrow> ('s, dsline_error, bool) action" where
  "floor_cas io expected target =
     bind (rio_compare_exchange_u64 io PIN_FLOOR_OFFSET expected target) (\<lambda>(_, ok). return ok)"

definition flush_header :: "'s region_io_ops \<Rightarrow> 's \<Rightarrow> unit result" where
  "flush_header io = rio_flush_range io 0 REGION_HEADER_LEN"

definition load_magic :: "'s region_io_ops \<Rightarrow> 's \<Rightarrow> u32 result" where
  "load_magic io s = map_outcome from_le32 (rio_read_at io MAGIC_OFFSET 4 s)"

definition publish_magic :: "'s region_io_ops \<Rightarrow> u32 \<Rightarrow> ('s, dsline_error, unit) action" where
  "publish_magic io magic =
     seq (rio_write_at io FORMAT_OFFSET (to_le32 REGION_FORMAT)) (rio_write_at io MAGIC_OFFSET (to_le32 magic))"

definition load_format :: "'s region_io_ops \<Rightarrow> 's \<Rightarrow> u32 result" where
  "load_format io s = map_outcome from_le32 (rio_read_at io FORMAT_OFFSET 4 s)"

definition check_format :: "'s region_io_ops \<Rightarrow> 's \<Rightarrow> unit result" where
  "check_format io s =
     and_then (load_format io s) (\<lambda>format.
     if format \<noteq> REGION_FORMAT
     then ChanErr (InvalidConfig ''unsupported region format (delete stale dsline region files)'') else Ok ())"

text \<open>\<open>wait_initialized\<close> polls a store that other processes write: \<open>view n\<close> is the store as the
  \<open>n\<close>-th turn finds it, and the clock grants \<open>polls\<close> further turns after the first.\<close>

fun wait_initialized :: "'s region_io_ops \<Rightarrow> u32 \<Rightarrow> nat \<Rightarrow> (nat \<Rightarrow> 's) \<Rightarrow> unit result" where
  "wait_initialized io expected polls view =
     and_then (load_magic io (view 0)) (\<lambda>magic.
     if magic = expected then check_format io (view 0)
     else if magic \<noteq> 0 then
       ChanErr (InvalidConfig ''region channel mode mismatch (all processes must agree on multi_producer)'')
     else case polls of
       0 \<Rightarrow> ChanErr (InvalidConfig ''region is not initialized'')
     | Suc k \<Rightarrow> wait_initialized io expected k (\<lambda>n. view (Suc n)))"

section \<open>Slot transitions\<close>

definition pregion_state :: "'s region_io_ops \<Rightarrow> usize \<Rightarrow> 's \<Rightarrow> slot_state result" where
  "pregion_state io index s = map_outcome fst (read_header io index s)"

definition pwrite_committed_no_flush ::
  "'s region_io_ops \<Rightarrow> usize \<Rightarrow> u64 \<Rightarrow> bytes \<Rightarrow> writer_identity option \<Rightarrow> ('s, dsline_error, unit) action" where
  "pwrite_committed_no_flush io index sq f stamp =
     bind (reads (read_header io index)) (\<lambda>(st, _, _).
     if st \<noteq> Free then fail (Channel BufferFull) else
     seq (case stamp of
            Some i \<Rightarrow> write_writing_header io index sq (length f) i
          | None \<Rightarrow> write_header io index Writing sq (length f))
     (seq (write_payload io index f)
     (write_header io index Committed sq (length f))))"

definition pflush_slot :: "'s region_io_ops \<Rightarrow> usize \<Rightarrow> usize \<Rightarrow> 's \<Rightarrow> unit result" where
  "pflush_slot io index len s = rio_flush_range io (slot_offset io s index) len s"

definition pwrite_committed ::
  "'s region_io_ops \<Rightarrow> usize \<Rightarrow> u64 \<Rightarrow> bytes \<Rightarrow> writer_identity option \<Rightarrow> ('s, dsline_error, unit) action" where
  "pwrite_committed io index sq f stamp =
     seq (pwrite_committed_no_flush io index sq f stamp)
     (reads (pflush_slot io index (PERSISTENT_SLOT_HEADER_LEN + length f)))"

definition pread_committed :: "'s region_io_ops \<Rightarrow> usize \<Rightarrow> ('s, dsline_error, slot_snapshot) action" where
  "pread_committed io index =
     bind (reads (read_header io index)) (\<lambda>(st, sq, len).
     if st \<noteq> Committed then fail (Channel BufferEmpty) else
     bind (reads (read_payload io index len)) (\<lambda>data.
     seq (write_header io index Pinned sq len)
     (return \<lparr>snap_state = Pinned, snap_seq = sq, snap_payload_len = len, snap_data = data\<rparr>)))"

definition ppeek_committed :: "'s region_io_ops \<Rightarrow> usize \<Rightarrow> 's \<Rightarrow> slot_snapshot result" where
  "ppeek_committed io index s =
     and_then (read_header io index s) (\<lambda>(st, sq, len).
     if st \<noteq> Committed then ChanErr BufferEmpty else
     and_then (read_payload io index len s) (\<lambda>data.
     Ok \<lparr>snap_state = Committed, snap_seq = sq, snap_payload_len = len, snap_data = data\<rparr>))"

definition force_release_no_flush :: "'s region_io_ops \<Rightarrow> usize \<Rightarrow> ('s, dsline_error, unit) action" where
  "force_release_no_flush io index = seq (clear_payload io index) (write_header io index Free 0 0)"

definition prelease_slot_no_flush :: "'s region_io_ops \<Rightarrow> usize \<Rightarrow> ('s, dsline_error, unit) action" where
  "prelease_slot_no_flush io index = seq (clear_payload io index) (write_header io index Free 0 0)"

definition prelease_slot :: "'s region_io_ops \<Rightarrow> usize \<Rightarrow> ('s, dsline_error, unit) action" where
  "prelease_slot io index =
     seq (prelease_slot_no_flush io index) (reads (pflush_slot io index PERSISTENT_SLOT_HEADER_LEN))"

definition prelease_pinned_no_flush :: "'s region_io_ops \<Rightarrow> usize \<Rightarrow> ('s, dsline_error, unit) action" where
  "prelease_pinned_no_flush io index =
     bind (reads (read_header io index)) (\<lambda>(st, _, _).
     if st \<noteq> Pinned then fail (Channel (InvalidConfig ''slot is not pinned''))
     else prelease_slot_no_flush io index)"

definition prelease_pinned :: "'s region_io_ops \<Rightarrow> usize \<Rightarrow> ('s, dsline_error, unit) action" where
  "prelease_pinned io index =
     bind (reads (read_header io index)) (\<lambda>(st, _, _).
     if st \<noteq> Pinned then fail (Channel (InvalidConfig ''slot is not pinned''))
     else prelease_slot io index)"

definition pmark_corrupted :: "'s region_io_ops \<Rightarrow> usize \<Rightarrow> ('s, dsline_error, unit) action" where
  "pmark_corrupted io index =
     bind (reads (read_header io index)) (\<lambda>(_, sq, len). write_header io index Corrupted sq len)"

section \<open>Reclaim\<close>

text \<open>
  Both reclaims read the full header twice; \<open>second\<close> is what the second read returns, which is the
  first read again unless another process wrote the header in between.
\<close>

definition reclaim_dead ::
  "slot_state \<Rightarrow> 's region_io_ops \<Rightarrow> (u32 \<Rightarrow> (unit, u64 option) outcome) \<Rightarrow> (usize \<Rightarrow> 's \<Rightarrow> slot_header_full result) \<Rightarrow>
   usize \<Rightarrow> ('s, dsline_error, bool) action" where
  "reclaim_dead st io probe second index =
     bind (reads (read_header_full io index)) (\<lambda>first.
     if sh_state first \<noteq> st then return False else
     case sh_identity first of
       None \<Rightarrow> return False
     | Some identity \<Rightarrow>
         bind (reads (second index)) (\<lambda>snd_read.
         if snd_read \<noteq> first then return False else
         if process_liveness probe \<lparr>pid = wi_pid identity, start_time = wi_start_time identity\<rparr> \<noteq> Gone
         then return False else
         seq (force_release_no_flush io index)
         (seq (reads (pflush_slot io index PERSISTENT_SLOT_HEADER_LEN)) (return True))))"

definition reclaim_dead_writing ::
  "'s region_io_ops \<Rightarrow> (u32 \<Rightarrow> (unit, u64 option) outcome) \<Rightarrow> (usize \<Rightarrow> 's \<Rightarrow> slot_header_full result) \<Rightarrow>
   usize \<Rightarrow> ('s, dsline_error, bool) action" where
  "reclaim_dead_writing = reclaim_dead Writing"

definition reclaim_dead_pinned ::
  "'s region_io_ops \<Rightarrow> (u32 \<Rightarrow> (unit, u64 option) outcome) \<Rightarrow> (usize \<Rightarrow> 's \<Rightarrow> slot_header_full result) \<Rightarrow>
   usize \<Rightarrow> ('s, dsline_error, bool) action" where
  "reclaim_dead_pinned = reclaim_dead Pinned"

section \<open>Publication\<close>

definition MAX_SINGLE_FLUSH :: usize where "MAX_SINGLE_FLUSH = 8 * 4096"

definition flush_release :: "'s region_io_ops \<Rightarrow> usize \<Rightarrow> 's \<Rightarrow> unit result" where
  "flush_release io index s =
     (let off = slot_offset io s index; fin = off + PERSISTENT_SLOT_HEADER_LEN in
      if fin \<le> MAX_SINGLE_FLUSH then rio_flush_range io 0 fin s
      else and_then (rio_flush_range io off PERSISTENT_SLOT_HEADER_LEN s) (\<lambda>_.
        rio_flush_range io 0 REGION_HEADER_LEN s))"

fun flush_frames :: "'s region_io_ops \<Rightarrow> usize \<Rightarrow> bytes list \<Rightarrow> 's \<Rightarrow> unit result" where
  "flush_frames io index [] s = Ok ()"
| "flush_frames io index (f # fs) s =
     and_then (rio_flush_range io (slot_offset io s (index mod rio_capacity io s))
       (PERSISTENT_SLOT_HEADER_LEN + length f) s) (\<lambda>_.
     flush_frames io (index + 1) fs s)"

definition publish_batch :: "'s region_io_ops \<Rightarrow> bytes list \<Rightarrow> usize \<Rightarrow> 's \<Rightarrow> unit result" where
  "publish_batch io frames first_index s =
     (let last_offset =
        (if frames = [] then slot_offset io s first_index
         else slot_offset io s ((first_index + length frames - 1) mod rio_capacity io s)
           + PERSISTENT_SLOT_HEADER_LEN + length (last frames))
      in if last_offset \<le> MAX_SINGLE_FLUSH then rio_flush_range io 0 last_offset s
      else and_then (flush_frames io first_index frames s) (\<lambda>_. rio_flush_range io 0 REGION_HEADER_LEN s))"

end
