(* ===== verification/Persistent_Region_Laws.thy ===== *)
theory Persistent_Region_Laws
  imports Persistent_Region
begin

text \<open>
  The persistent region over any storage that keeps the \<open>region_io\<close> contract: every operation as an
  update of the raw bytes of one slot, hence what it does to the slot's header, identity and frame;
  then the properties of the region, among them what a writer that stops half-way leaves behind and
  whom the reclaim may touch.
\<close>

section \<open>Raw slots\<close>

definition slot_raw :: "nat \<Rightarrow> nat \<Rightarrow> bytes \<Rightarrow> bytes" where
  "slot_raw sz i m = bytes_at (REGION_HEADER_LEN + i * sz) sz m"

definition put_slot :: "nat \<Rightarrow> nat \<Rightarrow> bytes \<Rightarrow> bytes \<Rightarrow> bytes" where
  "put_slot sz i raw m = put_at (REGION_HEADER_LEN + i * sz) raw m"

lemma slot_fits: "i < cap \<Longrightarrow> length m = REGION_HEADER_LEN + cap * sz \<Longrightarrow> REGION_HEADER_LEN + i * sz + sz \<le> length m"
  using slot_end [of i cap sz] by simp

lemma length_slot_raw [simp]:
  "i < cap \<Longrightarrow> length m = REGION_HEADER_LEN + cap * sz \<Longrightarrow> length (slot_raw sz i m) = sz"
  using slot_fits [of i cap m sz] by (simp add: slot_raw_def)

lemma slot_raw_put_slot:
  assumes "length m = REGION_HEADER_LEN + cap * sz" "i < cap" "j < cap" "length raw = sz"
  shows "slot_raw sz j (put_slot sz i raw m) = (if j = i then raw else slot_raw sz j m)"
proof (cases "j = i")
  case True
  then show ?thesis using assms slot_fits [of i cap m sz] by (simp add: slot_raw_def put_slot_def)
next
  case False
  then show ?thesis
    using assms slot_fits [of i cap m sz] slots_disjoint [of i j sz]
    by (auto simp: slot_raw_def put_slot_def intro!: bytes_at_put_at_disjoint)
qed

lemma length_put_slot [simp]:
  "length m = REGION_HEADER_LEN + cap * sz \<Longrightarrow> i < cap \<Longrightarrow> length raw = sz \<Longrightarrow>
   length (put_slot sz i raw m) = REGION_HEADER_LEN + cap * sz"
  using slot_fits [of i cap m sz] by (simp add: put_slot_def)

lemma header_put_slot:
  "off + n \<le> REGION_HEADER_LEN \<Longrightarrow> length m = REGION_HEADER_LEN + cap * sz \<Longrightarrow> i < cap \<Longrightarrow> length raw = sz \<Longrightarrow>
   bytes_at off n (put_slot sz i raw m) = bytes_at off n m"
  using slot_fits [of i cap m sz] by (simp add: put_slot_def bytes_at_put_at_disjoint)

text \<open>A write inside slot \<open>i\<close> changes its raw bytes.\<close>

lemma put_at_inside:
  assumes "length m = REGION_HEADER_LEN + cap * sz" "i < cap" "d + length b \<le> sz"
  shows "put_at (REGION_HEADER_LEN + i * sz + d) b m = put_slot sz i (put_at d b (slot_raw sz i m)) m"
proof (rule nth_equalityI)
  note fit = slot_fits [OF assms(2,1)]
  have len: "length (put_at d b (slot_raw sz i m)) = sz" using assms by simp
  show "length (put_at (REGION_HEADER_LEN + i * sz + d) b m) = length (put_slot sz i (put_at d b (slot_raw sz i m)) m)"
    using fit len assms(3) by (simp add: put_slot_def)
  fix k assume "k < length (put_at (REGION_HEADER_LEN + i * sz + d) b m)"
  then have k: "k < length m" using fit assms(3) by simp
  show "put_at (REGION_HEADER_LEN + i * sz + d) b m ! k = put_slot sz i (put_at d b (slot_raw sz i m)) m ! k"
  proof (cases "REGION_HEADER_LEN + i * sz \<le> k \<and> k < REGION_HEADER_LEN + i * sz + sz")
    case True
    then obtain x where "k = REGION_HEADER_LEN + i * sz + x" "x < sz"
      by (metis add_less_cancel_left le_iff_add)
    then show ?thesis using fit len assms k
      by (auto simp: put_slot_def nth_put_at slot_raw_def)
  next
    case False
    then show ?thesis using fit len assms k by (auto simp: put_slot_def nth_put_at)
  qed
qed

lemma put_slot_put_slot:
  assumes "length m = REGION_HEADER_LEN + cap * sz" "i < cap" "length raw = sz" "length raw' = sz"
  shows "put_slot sz i raw' (put_slot sz i raw m) = put_slot sz i raw' m"
  using slot_fits [OF assms(2,1)] assms
  by (intro nth_equalityI) (auto simp: put_slot_def nth_put_at)

section \<open>Headers\<close>

lemma length_encode_header [simp]: "length (encode_header st sq len ident pub) = 48"
  by (cases ident) (simp_all add: encode_header_def layout_consts Let_def)

lemma nat_of_le_zeros [simp]: "nat_of_le (replicate n 0) = 0"
  by (induction n) auto

lemma from_le_zeros [simp]: "from_le32 (replicate n 0) = 0" "from_le64 (replicate n 0) = 0"
  by (simp_all add: from_le32_def from_le64_def)

lemma bytes_at_zeros: "off + n \<le> k \<Longrightarrow> bytes_at off n (replicate k x) = replicate n x"
  by (simp add: bytes_at_def)

lemma put_at_nth_disjoint:
  "o' + length new \<le> length xs \<Longrightarrow> k < length xs \<Longrightarrow> k < o' \<or> o' + length new \<le> k \<Longrightarrow> put_at o' new xs ! k = xs ! k"
  by (auto simp: nth_put_at)

lemma parse_encode_header:
  "parse_header_full (encode_header st sq len ident pub) =
     \<lparr>sh_state = st, sh_seq = sq, sh_payload_len = unat (word_of_nat len :: u32),
      sh_identity = (if pub then ident else None)\<rparr>"
  by (cases ident; cases pub)
    (simp_all add: parse_header_full_def encode_header_def layout_consts Let_def bytes_at_put_at_disjoint
      put_at_nth_disjoint nth_put_at bytes_at_zeros SLOT_IDENTITY_MAGIC_def)

text \<open>The header and the frame in the raw bytes of a slot.\<close>

definition slot_header :: "bytes \<Rightarrow> slot_header_full" where
  "slot_header raw = parse_header_full (take PERSISTENT_SLOT_HEADER_LEN raw)"

definition stored_frame :: "bytes \<Rightarrow> bytes" where
  "stored_frame raw = bytes_at PERSISTENT_SLOT_HEADER_LEN (sh_payload_len (slot_header raw)) raw"

lemma slot_header_encode [simp]:
  "slot_header (encode_header st sq len ident pub @ rest) =
     \<lparr>sh_state = st, sh_seq = sq, sh_payload_len = unat (word_of_nat len :: u32),
      sh_identity = (if pub then ident else None)\<rparr>"
  by (simp add: slot_header_def PERSISTENT_SLOT_HEADER_LEN_def parse_encode_header)

lemma small_len [simp]: "len < 2 ^ 32 \<Longrightarrow> unat (word_of_nat len :: u32) = len"
  by (simp add: unat_of_nat)

lemma stored_frame_encode [simp]:
  "length f < 2 ^ 32 \<Longrightarrow> stored_frame (encode_header st sq (length f) ident pub @ f @ rest) = f"
  by (simp add: stored_frame_def PERSISTENT_SLOT_HEADER_LEN_def bytes_at_def)

lemma put_at_0: "length b \<le> length xs \<Longrightarrow> put_at 0 b xs = b @ drop (length b) xs"
  by (simp add: put_at_def)

lemma put_at_append_left: "off + length b \<le> length xs \<Longrightarrow> put_at off b (xs @ ys) = put_at off b xs @ ys"
  by (simp add: put_at_def)

lemma put_at_append_right: "put_at (length xs) b (xs @ ys) = xs @ put_at 0 b ys"
  by (simp add: put_at_def)

lemma encode_header_publish:
  "put_at ID_MAGIC_OFFSET (to_le32 SLOT_IDENTITY_MAGIC) (encode_header st sq len (Some i) False) =
   encode_header st sq len (Some i) True"
  by (simp add: encode_header_def)

section \<open>Operations as slot updates\<close>

text \<open>A region of \<open>cap\<close> slots of \<open>sz\<close> bytes.\<close>

definition region_layout :: "'s region_io_ops \<Rightarrow> ('s \<Rightarrow> bool) \<Rightarrow> ('s \<Rightarrow> bytes) \<Rightarrow> nat \<Rightarrow> nat \<Rightarrow> 's \<Rightarrow> bool" where
  "region_layout io ok mem cap sz s \<longleftrightarrow> ok s \<and> rio_capacity io s = cap \<and> rio_slot_size io s = sz \<and>
     PERSISTENT_SLOT_HEADER_LEN < sz \<and> 0 < cap \<and> length (mem s) = REGION_HEADER_LEN + cap * sz"

context region_io
begin

abbreviation layout :: "nat \<Rightarrow> nat \<Rightarrow> 's \<Rightarrow> bool" where
  "layout \<equiv> region_layout io inv mem"

text \<open>\<open>slot_set cap sz i raw s t\<close>: \<open>t\<close> is \<open>s\<close> with the raw bytes of slot \<open>i\<close> replaced.\<close>

definition slot_set :: "nat \<Rightarrow> nat \<Rightarrow> nat \<Rightarrow> bytes \<Rightarrow> 's \<Rightarrow> 's \<Rightarrow> bool" where
  "slot_set cap sz i raw s t \<longleftrightarrow> layout cap sz t \<and> mem t = put_slot sz i raw (mem s) \<and> length raw = sz"

lemma slot_set_trans:
  "layout cap sz s \<Longrightarrow> i < cap \<Longrightarrow> slot_set cap sz i raw s t \<Longrightarrow> slot_set cap sz i raw' t u \<Longrightarrow>
   slot_set cap sz i raw' s u"
  by (simp add: slot_set_def region_layout_def put_slot_put_slot)

lemma slot_set_raw:
  assumes "layout cap sz s" "i < cap" "slot_set cap sz i raw s t"
  shows "slot_raw sz i (mem t) = raw" "\<And>j. j < cap \<Longrightarrow> j \<noteq> i \<Longrightarrow> slot_raw sz j (mem t) = slot_raw sz j (mem s)"
    "\<And>off n. off + n \<le> REGION_HEADER_LEN \<Longrightarrow> bytes_at off n (mem t) = bytes_at off n (mem s)"
    "layout cap sz t" "length raw = sz"
  using assms by (auto simp: slot_set_def region_layout_def slot_raw_put_slot header_put_slot)

lemma slot_offset_layout [simp]: "layout cap sz s \<Longrightarrow> slot_offset io s i = REGION_HEADER_LEN + i * sz"
  by (simp add: slot_offset_def region_layout_def)

lemma frame_capacity_layout [simp]: "layout cap sz s \<Longrightarrow> frame_capacity io s = sz - PERSISTENT_SLOT_HEADER_LEN"
  by (simp add: frame_capacity_def region_layout_def)

lemma write_at_slot_effect:
  assumes s: "layout cap sz s" and i: "i < cap" and b: "d + length b \<le> sz"
  shows "\<exists>t. write_at_slot io i d b s = (Ok (), t) \<and> slot_set cap sz i (put_at d b (slot_raw sz i (mem s))) s t"
proof -
  have len: "length (mem s) = REGION_HEADER_LEN + cap * sz" using s by (simp add: region_layout_def)
  have fit: "REGION_HEADER_LEN + i * sz + d + length b \<le> length (mem s)" using slot_fits [OF i len] b by simp
  from write_law [of s "REGION_HEADER_LEN + i * sz + d" b] s fit obtain t where
    t: "rio_write_at io (REGION_HEADER_LEN + i * sz + d) b s = (Ok (), t)" "inv t"
      "mem t = put_at (REGION_HEADER_LEN + i * sz + d) b (mem s)"
      "rio_capacity io t = cap" "rio_slot_size io t = sz" by (auto simp: region_layout_def)
  have "mem t = put_slot sz i (put_at d b (slot_raw sz i (mem s))) (mem s)"
    using t(3) put_at_inside [OF len i b] by simp
  moreover have "layout cap sz t" using s t fit by (simp add: region_layout_def)
  ultimately show ?thesis
    using t(1) s i b len by (simp add: write_at_slot_def slot_set_def)
qed

lemma read_slot_area:
  assumes s: "layout cap sz s" and i: "i < cap" and n: "d + n \<le> sz"
  shows "rio_read_at io (REGION_HEADER_LEN + i * sz + d) n s = Ok (bytes_at d n (slot_raw sz i (mem s)))"
proof -
  have len: "length (mem s) = REGION_HEADER_LEN + cap * sz" using s by (simp add: region_layout_def)
  have "REGION_HEADER_LEN + i * sz + d + n \<le> length (mem s)" using slot_fits [OF i len] n by simp
  moreover have "bytes_at (REGION_HEADER_LEN + i * sz + d) n (mem s) = bytes_at d n (slot_raw sz i (mem s))"
    using n by (simp add: slot_raw_def bytes_at_bytes_at)
  ultimately show ?thesis using s read_law by (simp add: region_layout_def)
qed

lemma header_size [simp]: "layout cap sz s \<Longrightarrow> PERSISTENT_SLOT_HEADER_LEN \<le> sz"
  by (simp add: region_layout_def)

lemma read_header_full_effect:
  assumes "layout cap sz s" "i < cap"
  shows "read_header_full io i s = Ok (slot_header (slot_raw sz i (mem s)))"
  using read_slot_area [OF assms, of 0 PERSISTENT_SLOT_HEADER_LEN] assms
  by (simp add: read_header_full_def slot_header_def)

lemma read_header_effect:
  assumes "layout cap sz s" "i < cap"
  shows "read_header io i s = Ok (sh_state (slot_header (slot_raw sz i (mem s))),
     sh_seq (slot_header (slot_raw sz i (mem s))), sh_payload_len (slot_header (slot_raw sz i (mem s))))"
  using read_slot_area [OF assms, of 0 PERSISTENT_SLOT_HEADER_LEN] assms
  by (simp add: read_header_def slot_header_def parse_header_full_def Let_def)

lemma write_header_effect:
  assumes s: "layout cap sz s" and i: "i < cap"
  shows "\<exists>t. write_header io i st sq len s = (Ok (), t) \<and>
    slot_set cap sz i (encode_header st sq len None False @ drop PERSISTENT_SLOT_HEADER_LEN (slot_raw sz i (mem s))) s t"
proof -
  have len: "length (mem s) = REGION_HEADER_LEN + cap * sz" using s by (simp add: region_layout_def)
  have "put_at 0 (encode_header st sq len None False) (slot_raw sz i (mem s)) =
      encode_header st sq len None False @ drop PERSISTENT_SLOT_HEADER_LEN (slot_raw sz i (mem s))"
    using header_size [OF s] i len by (simp add: put_at_0 PERSISTENT_SLOT_HEADER_LEN_def)
  with write_at_slot_effect [OF s i, of 0 "encode_header st sq len None False"] header_size [OF s]
  show ?thesis by (simp add: write_header_def PERSISTENT_SLOT_HEADER_LEN_def)
qed

lemma write_identity_header_effect:
  assumes s: "layout cap sz s" and i: "i < cap"
  shows "\<exists>t. write_identity_header io i st sq len ident s = (Ok (), t) \<and>
    slot_set cap sz i (encode_header st sq len (Some ident) True @ drop PERSISTENT_SLOT_HEADER_LEN (slot_raw sz i (mem s))) s t"
proof -
  let ?raw = "slot_raw sz i (mem s)" and ?h = "encode_header st sq len (Some ident)"
  have len: "length (mem s) = REGION_HEADER_LEN + cap * sz" using s by (simp add: region_layout_def)
  have sz: "48 \<le> sz" using header_size [OF s] by (simp add: PERSISTENT_SLOT_HEADER_LEN_def)
  obtain t where t: "write_at_slot io i 0 (?h False) s = (Ok (), t)" "slot_set cap sz i (?h False @ drop 48 ?raw) s t"
    using write_at_slot_effect [OF s i, of 0 "?h False"] sz len i by (auto simp: put_at_0)
  note tr = slot_set_raw [OF s i t(2)]
  obtain u where u: "write_at_slot io i ID_MAGIC_OFFSET (to_le32 SLOT_IDENTITY_MAGIC) t = (Ok (), u)"
    "slot_set cap sz i (put_at ID_MAGIC_OFFSET (to_le32 SLOT_IDENTITY_MAGIC) (?h False @ drop 48 ?raw)) t u"
    using write_at_slot_effect [OF tr(4) i, of ID_MAGIC_OFFSET "to_le32 SLOT_IDENTITY_MAGIC"] sz tr(1)
    by (auto simp: ID_MAGIC_OFFSET_def)
  have "put_at ID_MAGIC_OFFSET (to_le32 SLOT_IDENTITY_MAGIC) (?h False @ drop 48 ?raw) = ?h True @ drop 48 ?raw"
    using encode_header_publish [of st sq len ident] by (simp add: put_at_append_left ID_MAGIC_OFFSET_def)
  with slot_set_trans [OF s i t(2) u(2)] t(1) u(1) show ?thesis
    by (simp add: write_identity_header_def PERSISTENT_SLOT_HEADER_LEN_def)
qed

lemma write_payload_effect:
  assumes s: "layout cap sz s" and i: "i < cap" and f: "length f \<le> sz - PERSISTENT_SLOT_HEADER_LEN"
    and raw: "slot_raw sz i (mem s) = h @ rest" and h: "length h = PERSISTENT_SLOT_HEADER_LEN"
  shows "\<exists>t. write_payload io i f s = (Ok (), t) \<and> slot_set cap sz i (h @ f @ drop (length f) rest) s t"
proof -
  have len: "length (mem s) = REGION_HEADER_LEN + cap * sz" using s by (simp add: region_layout_def)
  have "length (h @ rest) = sz" using raw length_slot_raw [OF i len] by simp
  then have "put_at PERSISTENT_SLOT_HEADER_LEN f (h @ rest) = h @ f @ drop (length f) rest"
    using put_at_append_right [of h f rest] h f by (simp add: put_at_0)
  moreover have "PERSISTENT_SLOT_HEADER_LEN + length f \<le> sz" using f header_size [OF s] by linarith
  ultimately show ?thesis using write_at_slot_effect [OF s i, of PERSISTENT_SLOT_HEADER_LEN f] raw s f
    by (simp add: write_payload_def)
qed

lemma read_payload_effect:
  assumes s: "layout cap sz s" and i: "i < cap" and n: "n \<le> sz - PERSISTENT_SLOT_HEADER_LEN"
  shows "read_payload io i n s = Ok (bytes_at PERSISTENT_SLOT_HEADER_LEN n (slot_raw sz i (mem s)))"
proof -
  have "PERSISTENT_SLOT_HEADER_LEN + n \<le> sz" using n header_size [OF s] by linarith
  with read_slot_area [OF s i, of PERSISTENT_SLOT_HEADER_LEN n] n s show ?thesis
    by (simp add: read_payload_def)
qed

lemma flush_effect:
  assumes s: "layout cap sz s" and i: "i < cap" and n: "n \<le> sz"
  shows "pflush_slot io i n s = Ok ()"
proof -
  have len: "length (mem s) = REGION_HEADER_LEN + cap * sz" using s by (simp add: region_layout_def)
  show ?thesis using slot_fits [OF i len] n s flush_law [of s "REGION_HEADER_LEN + i * sz" n]
    by (simp add: pflush_slot_def region_layout_def slot_offset_def)
qed

lemma release_effect:
  assumes s: "layout cap sz s" and i: "i < cap"
  shows "\<exists>t. force_release_no_flush io i s = (Ok (), t) \<and>
    slot_set cap sz i (encode_header Free 0 0 None False @ replicate (sz - PERSISTENT_SLOT_HEADER_LEN) 0) s t"
proof -
  let ?n = "sz - PERSISTENT_SLOT_HEADER_LEN" and ?raw = "slot_raw sz i (mem s)"
  have len: "length (mem s) = REGION_HEADER_LEN + cap * sz" using s by (simp add: region_layout_def)
  have sz: "PERSISTENT_SLOT_HEADER_LEN + ?n = sz" using header_size [OF s] by simp
  have fit: "REGION_HEADER_LEN + i * sz + PERSISTENT_SLOT_HEADER_LEN + ?n \<le> length (mem s)"
    using slot_fits [OF i len] sz by simp
  from clear_law [of s "REGION_HEADER_LEN + i * sz + PERSISTENT_SLOT_HEADER_LEN" ?n] s fit obtain t where
    t: "clear_payload io i s = (Ok (), t)" "inv t" "rio_capacity io t = cap" "rio_slot_size io t = sz"
      "mem t = put_at (REGION_HEADER_LEN + i * sz + PERSISTENT_SLOT_HEADER_LEN) (replicate ?n 0) (mem s)"
    by (auto simp: clear_payload_def region_layout_def frame_capacity_def slot_offset_def)
  have inside: "PERSISTENT_SLOT_HEADER_LEN + length (replicate ?n (0 :: byte)) \<le> sz" using sz by simp
  have set: "slot_set cap sz i (put_at PERSISTENT_SLOT_HEADER_LEN (replicate ?n 0) ?raw) s t"
    using t s put_at_inside [OF len i inside] inside i len fit
    by (simp add: slot_set_def region_layout_def)
  have raw: "drop PERSISTENT_SLOT_HEADER_LEN (put_at PERSISTENT_SLOT_HEADER_LEN (replicate ?n 0) ?raw) = replicate ?n 0"
    using length_slot_raw [OF i len] sz by (simp add: put_at_def)
  from write_header_effect [OF slot_set_raw(4) [OF s i set] i, of Free 0 0] slot_set_raw(1) [OF s i set] raw
  obtain u where "write_header io i Free 0 0 t = (Ok (), u)"
    "slot_set cap sz i (encode_header Free 0 0 None False @ replicate ?n 0) t u" by auto
  with t(1) slot_set_trans [OF s i set] show ?thesis by (auto simp: force_release_no_flush_def)
qed

end

end
