(* ===== verification/Persistent_Region_Properties.thy ===== *)
theory Persistent_Region_Properties
  imports Persistent_Region_Laws
begin

text \<open>
  What the persistent region promises: commit, read and release as slot updates, the writes of a
  commit one by one (what a writer that dies between two of them leaves behind), whom the reclaim
  may touch, and the pin floor.
\<close>

section \<open>Commit, read, release\<close>

definition committed_raw :: "u64 \<Rightarrow> bytes \<Rightarrow> bytes \<Rightarrow> bytes" where
  "committed_raw sq f rest = encode_header Committed sq (length f) None False @ f @ rest"

text \<open>The writes of a commit, each a distance from the start of the slot and the bytes written.\<close>

definition commit_writes :: "writer_identity option \<Rightarrow> u64 \<Rightarrow> bytes \<Rightarrow> (nat \<times> bytes) list" where
  "commit_writes stamp sq f =
     (case stamp of
        None \<Rightarrow> [(0, encode_header Writing sq (length f) None False)]
      | Some i \<Rightarrow> [(0, encode_header Writing sq (length f) (Some i) False),
          (ID_MAGIC_OFFSET, to_le32 SLOT_IDENTITY_MAGIC)]) @
     [(PERSISTENT_SLOT_HEADER_LEN, f), (0, encode_header Committed sq (length f) None False)]"

definition apply_writes :: "(nat \<times> bytes) list \<Rightarrow> bytes \<Rightarrow> bytes" where
  "apply_writes ws raw = foldl (\<lambda>r (d, b). put_at d b r) raw ws"




lemma length_apply_writes:
  "\<forall>(d, b) \<in> set ws. d + length b \<le> length raw \<Longrightarrow> length (apply_writes ws raw) = length raw"
  unfolding apply_writes_def by (induction ws arbitrary: raw) auto

lemma commit_writes_fit:
  assumes "48 + length f \<le> sz"
  shows "\<forall>(d, b) \<in> set (commit_writes stamp sq f). d + length b \<le> sz"
  using assms by (cases stamp) (auto simp: commit_writes_def ID_MAGIC_OFFSET_def PERSISTENT_SLOT_HEADER_LEN_def)


lemma commit_raw:
  assumes raw: "48 + length f \<le> length raw"
  shows "apply_writes (commit_writes stamp sq f) raw = committed_raw sq f (drop (48 + length f) raw)"
proof -
  define r where "r = (case stamp of None \<Rightarrow> put_at 0 (encode_header Writing sq (length f) None False) raw
      | Some i \<Rightarrow> put_at 41 (to_le32 SLOT_IDENTITY_MAGIC) (put_at 0 (encode_header Writing sq (length f) (Some i) False) raw))"
  have r: "length r = length raw" "drop 48 r = drop 48 raw"
    using raw by (auto simp: r_def put_at_def split: option.split)
  have "apply_writes (commit_writes stamp sq f) raw =
      put_at 0 (encode_header Committed sq (length f) None False) (put_at 48 f r)"
    by (cases stamp) (simp_all add: apply_writes_def commit_writes_def r_def PERSISTENT_SLOT_HEADER_LEN_def ID_MAGIC_OFFSET_def)
  also have "\<dots> = encode_header Committed sq (length f) None False @ drop 48 (put_at 48 f r)"
    using raw r by (simp add: put_at_0)
  also have "drop 48 (put_at 48 f r) = f @ drop (48 + length f) raw"
    using raw r by (simp add: put_at_def add.commute flip: drop_drop)
  finally show ?thesis by (simp add: committed_raw_def)
qed

context region_io
begin

lemma writes_effect:
  assumes "layout cap sz s" "i < cap" "\<forall>(d, b) \<in> set ws. d + length b \<le> sz"
  shows "\<exists>t. for_each ws (\<lambda>(d, b). write_at_slot io i d b) s = (Ok (), t) \<and>
    slot_set cap sz i (apply_writes ws (slot_raw sz i (mem s))) s t"
  using assms
proof (induction ws arbitrary: s)
  case Nil
  have len: "length (mem s) = REGION_HEADER_LEN + cap * sz" using Nil by (simp add: region_layout_def)
  have "put_slot sz i (slot_raw sz i (mem s)) (mem s) = mem s"
    using slot_fits [OF Nil.prems(2) len] by (intro nth_equalityI) (auto simp: put_slot_def slot_raw_def nth_put_at)
  with Nil len show ?case by (simp add: slot_set_def apply_writes_def)
next
  case (Cons w ws)
  obtain d b where w: "w = (d, b)" by force
  with Cons.prems have b: "d + length b \<le> sz" by simp
  from write_at_slot_effect [OF Cons.prems(1,2) b] obtain u where
    u: "write_at_slot io i d b s = (Ok (), u)" "slot_set cap sz i (put_at d b (slot_raw sz i (mem s))) s u" by blast
  note r = slot_set_raw [OF Cons.prems(1,2) u(2)]
  from Cons.IH [OF r(4) Cons.prems(2)] Cons.prems(3) r(1) obtain t where
    t: "for_each ws (\<lambda>(d, b). write_at_slot io i d b) u = (Ok (), t)"
      "slot_set cap sz i (apply_writes ws (put_at d b (slot_raw sz i (mem s)))) u t" by auto
  from slot_set_trans [OF Cons.prems(1,2) u(2) t(2)] u(1) t(1) w show ?case
    by (auto simp: apply_writes_def)
qed

text \<open>A commit to a free slot is its writes, in order.\<close>

lemma commit_is_writes:
  assumes s: "layout cap sz s" and i: "i < cap" and free: "sh_state (slot_header (slot_raw sz i (mem s))) = Free"
    and f: "length f \<le> sz - PERSISTENT_SLOT_HEADER_LEN"
  shows "pwrite_committed_no_flush io i sq f stamp s = for_each (commit_writes stamp sq f) (\<lambda>(d, b). write_at_slot io i d b) s"
proof -
  have payload: "write_payload io i f t = write_at_slot io i PERSISTENT_SLOT_HEADER_LEN f t" if "layout cap sz t" for t
    using that f by (simp add: write_payload_def)
  have keep: "layout cap sz u" if "slot_set cap sz i raw t u" for raw t u using that by (simp add: slot_set_def)
  show ?thesis
  proof (cases stamp)
    case None
    from write_header_effect [OF s i, of Writing sq "length f"] obtain t where
      "write_header io i Writing sq (length f) s = (Ok (), t)" "layout cap sz t" using keep by blast
    with None payload show ?thesis
      using read_header_effect [OF s i] free
      by (simp add: pwrite_committed_no_flush_def commit_writes_def write_header_def split: prod.split outcome.split)
  next
    case (Some ident)
    from write_identity_header_effect [OF s i, of Writing sq "length f" ident] obtain t where
      t: "write_identity_header io i Writing sq (length f) ident s = (Ok (), t)" "layout cap sz t" using keep by blast
    then obtain u where u: "write_at_slot io i 0 (encode_header Writing sq (length f) (Some ident) False) s = (Ok (), u)"
      "write_at_slot io i ID_MAGIC_OFFSET (to_le32 SLOT_IDENTITY_MAGIC) u = (Ok (), t)"
      unfolding write_identity_header_def seq_eq_Ok by auto
    from Some t u payload show ?thesis
      using read_header_effect [OF s i] free
      by (simp add: pwrite_committed_no_flush_def commit_writes_def write_writing_header_def write_header_def
          split: prod.split outcome.split)
  qed
qed

lemma commit_effect:
  assumes s: "layout cap sz s" and i: "i < cap" and free: "sh_state (slot_header (slot_raw sz i (mem s))) = Free"
    and f: "length f \<le> sz - PERSISTENT_SLOT_HEADER_LEN"
  shows "\<exists>t rest. pwrite_committed_no_flush io i sq f stamp s = (Ok (), t) \<and>
    slot_set cap sz i (committed_raw sq f rest) s t"
proof -
  have fit: "48 + length f \<le> sz" using f header_size [OF s] by (simp add: PERSISTENT_SLOT_HEADER_LEN_def)
  have len: "length (mem s) = REGION_HEADER_LEN + cap * sz" using s by (simp add: region_layout_def)
  have raw: "48 + length f \<le> length (slot_raw sz i (mem s))" using fit i len by simp
  from writes_effect [OF s i commit_writes_fit [OF fit]] commit_raw [OF raw]
  show ?thesis unfolding commit_is_writes [OF assms] by metis
qed

lemma read_committed_effect:
  assumes s: "layout cap sz s" and i: "i < cap" and f: "length f < 2 ^ 32" "length f \<le> sz - PERSISTENT_SLOT_HEADER_LEN"
    and raw: "slot_raw sz i (mem s) = committed_raw sq f rest"
  shows "\<exists>t. pread_committed io i s = (Ok \<lparr>snap_state = Pinned, snap_seq = sq, snap_payload_len = length f, snap_data = f\<rparr>, t) \<and>
    slot_set cap sz i (encode_header Pinned sq (length f) None False @ f @ rest) s t"
    "ppeek_committed io i s = Ok \<lparr>snap_state = Committed, snap_seq = sq, snap_payload_len = length f, snap_data = f\<rparr>"
proof -
  have hdr: "read_header io i s = Ok (Committed, sq, length f)"
    using read_header_effect [OF s i] raw f(1) by (simp add: committed_raw_def)
  have data: "read_payload io i (length f) s = Ok f"
    using read_payload_effect [OF s i f(2)] raw
    by (simp add: committed_raw_def bytes_at_def PERSISTENT_SLOT_HEADER_LEN_def)
  have "drop PERSISTENT_SLOT_HEADER_LEN (committed_raw sq f rest) = f @ rest"
    by (simp add: committed_raw_def PERSISTENT_SLOT_HEADER_LEN_def)
  with write_header_effect [OF s i, of Pinned sq "length f"] raw obtain t where
    "write_header io i Pinned sq (length f) s = (Ok (), t)"
    "slot_set cap sz i (encode_header Pinned sq (length f) None False @ f @ rest) s t" by auto
  with hdr data show "\<exists>t. pread_committed io i s = (Ok \<lparr>snap_state = Pinned, snap_seq = sq, snap_payload_len = length f, snap_data = f\<rparr>, t) \<and>
    slot_set cap sz i (encode_header Pinned sq (length f) None False @ f @ rest) s t"
    by (simp add: pread_committed_def)
  from hdr data show "ppeek_committed io i s = Ok \<lparr>snap_state = Committed, snap_seq = sq, snap_payload_len = length f, snap_data = f\<rparr>"
    by (simp add: ppeek_committed_def)
qed

lemma reclaim_effect:
  assumes s: "layout cap sz s" and i: "i < cap" and run: "reclaim_dead st io probe second i s = (Ok b, t)"
  shows "(b \<longrightarrow> (\<exists>ident. sh_state (slot_header (slot_raw sz i (mem s))) = st \<and>
        sh_identity (slot_header (slot_raw sz i (mem s))) = Some ident \<and>
        process_liveness probe \<lparr>pid = wi_pid ident, start_time = wi_start_time ident\<rparr> = Gone) \<and>
      slot_set cap sz i (encode_header Free 0 0 None False @ replicate (sz - PERSISTENT_SLOT_HEADER_LEN) 0) s t) \<and>
    (\<not> b \<longrightarrow> t = s)"
proof -
  let ?h = "slot_header (slot_raw sz i (mem s))"
  note h = read_header_full_effect [OF s i]
  from release_effect [OF s i] obtain u where
    u: "force_release_no_flush io i s = (Ok (), u)"
      "slot_set cap sz i (encode_header Free 0 0 None False @ replicate (sz - PERSISTENT_SLOT_HEADER_LEN) 0) s u" by blast
  have fl: "pflush_slot io i PERSISTENT_SLOT_HEADER_LEN u = Ok ()"
    using flush_effect [OF _ i header_size [OF s]] u(2) by (simp add: slot_set_def)
  show ?thesis
    using run h u fl
    by (auto simp: reclaim_dead_def split: if_splits option.splits outcome.splits)
qed

end

section \<open>Properties\<close>

text \<open>A slot header reads back as it was written. For every state, sequence number, length
  that fits 32 bits and writer identity, parsing the 48 bytes the encoder produces returns them,
  the identity exactly when its magic was published: a header cut off before the magic never shows
  an identity.\<close>

theorem slot_header_round_trip:
  assumes "len < 2 ^ 32"
  shows "parse_header_full (encode_header st sq len ident publish) =
    \<lparr>sh_state = st, sh_seq = sq, sh_payload_len = len, sh_identity = (if publish then ident else None)\<rparr> \<and>
    length (encode_header st sq len ident publish) = PERSISTENT_SLOT_HEADER_LEN"
  using parse_encode_header [of st sq len ident publish] assms
  by (simp add: PERSISTENT_SLOT_HEADER_LEN_def)

theorem slot_header_round_trip_witness:
  "parse_header_full (encode_header Writing 7 100 (Some \<lparr>wi_pid = 42, wi_start_time = 5, wi_epoch = 1,
      wi_timestamp_ns = 9, wi_reserved_slots = 3\<rparr>) False) =
   \<lparr>sh_state = Writing, sh_seq = 7, sh_payload_len = 100, sh_identity = None\<rparr>"
  using slot_header_round_trip [of 100 Writing 7 "Some \<lparr>wi_pid = 42, wi_start_time = 5, wi_epoch = 1,
      wi_timestamp_ns = 9, wi_reserved_slots = 3\<rparr>" False] by simp

text \<open>Two fresh mappings for the witnesses: one slot of 52 bytes, all zeros.\<close>

abbreviation blank_region :: mapped_slot_storage where
  "blank_region \<equiv> \<lparr>map_capacity = 1, map_slot_size = 52, map_total_len = 84, map_bytes = replicate 84 0, map_poisoned = False\<rparr>"

lemma blank_region_layout: "region_layout mmap_io mapped_inv mapped_mem 1 52 blank_region"
  by (simp add: region_layout_def mmap_io_def mapped_io_def mapped_inv_def mapped_mem_def layout_consts)




text \<open>Claim C32: a reclaim never takes a slot from a live process. When a reclaim of WRITING or PINNED
  slots reports success, the slot was in that state, named a process, and that process is gone; the
  slot is then FREE and zeroed and no other byte has changed. In every other case the store is
  exactly as before.\<close>

theorem reclaim_only_from_the_dead:
  assumes "region_layout mmap_io mapped_inv mapped_mem cap sz s" and "i < cap"
    and "reclaim \<in> {reclaim_dead_writing, reclaim_dead_pinned}"
    and "reclaim mmap_io probe second i s = (Ok b, t)"
  shows "if b then (\<exists>ident. sh_state (slot_header (slot_raw sz i (mapped_mem s))) \<in> {Writing, Pinned} \<and>
        sh_identity (slot_header (slot_raw sz i (mapped_mem s))) = Some ident \<and>
        process_liveness probe \<lparr>pid = wi_pid ident, start_time = wi_start_time ident\<rparr> = Gone) \<and>
      sh_state (slot_header (slot_raw sz i (mapped_mem t))) = Free \<and>
      (\<forall>j < cap. j \<noteq> i \<longrightarrow> slot_raw sz j (mapped_mem t) = slot_raw sz j (mapped_mem s)) \<and>
      take REGION_HEADER_LEN (mapped_mem t) = take REGION_HEADER_LEN (mapped_mem s)
    else t = s"
proof -
  from assms(3,4) obtain st where st: "st \<in> {Writing, Pinned}" and run: "reclaim_dead st mmap_io probe second i s = (Ok b, t)"
    by (auto simp: reclaim_dead_writing_def reclaim_dead_pinned_def)
  note e = mmap.reclaim_effect [OF assms(1,2) run]
  show ?thesis
  proof (cases b)
    case True
    then have set: "mmap.slot_set cap sz i (encode_header Free 0 0 None False @ replicate (sz - PERSISTENT_SLOT_HEADER_LEN) 0) s t"
      using e by blast
    note r = mmap.slot_set_raw [OF assms(1,2) set]
    from e True st r(1,2) r(3) [of 0 REGION_HEADER_LEN] show ?thesis by auto
  next
    case False
    with e show ?thesis by simp
  qed
qed

theorem reclaim_only_from_the_dead_witness:
  "\<exists>s t. reclaim_dead_writing mmap_io (\<lambda>_. Ok None) (read_header_full mmap_io) 0 s = (Ok True, t) \<and>
     sh_state (slot_header (slot_raw 52 0 (mapped_mem s))) = Writing \<and>
     sh_state (slot_header (slot_raw 52 0 (mapped_mem t))) = Free"
proof -
  let ?i = "\<lparr>wi_pid = 42, wi_start_time = 5, wi_epoch = 1, wi_timestamp_ns = 9, wi_reserved_slots = 1\<rparr>"
  from mmap.write_identity_header_effect [OF blank_region_layout, of 0 Writing 3 4 ?i] obtain s rest where
    s: "mmap.slot_set 1 52 0 (encode_header Writing 3 4 (Some ?i) True @ rest) blank_region s" by auto
  note r = mmap.slot_set_raw [OF blank_region_layout zero_less_one s]
  from mmap.release_effect [OF r(4), of 0] obtain t where
    t: "force_release_no_flush mmap_io 0 s = (Ok (), t)"
      "mmap.slot_set 1 52 0 (encode_header Free 0 0 None False @ replicate (52 - PERSISTENT_SLOT_HEADER_LEN) 0) s t" by auto
  have "region_layout mmap_io mapped_inv mapped_mem 1 52 t" using t(2) by (simp add: mmap.slot_set_def)
  from mmap.flush_effect [OF this, of 0 PERSISTENT_SLOT_HEADER_LEN]
  have fl: "pflush_slot mmap_io 0 PERSISTENT_SLOT_HEADER_LEN t = Ok ()" by (simp add: PERSISTENT_SLOT_HEADER_LEN_def)
  have run: "reclaim_dead_writing mmap_io (\<lambda>_. Ok None) (read_header_full mmap_io) 0 s = (Ok True, t)"
    using mmap.read_header_full_effect [OF r(4), of 0] r(1) t(1) fl
    by (simp add: reclaim_dead_writing_def reclaim_dead_def process_liveness_def)
  have mem: "reclaim_dead_writing \<in> {reclaim_dead_writing, reclaim_dead_pinned}" by simp
  from reclaim_only_from_the_dead [OF r(4) zero_less_one mem run] run r(1) show ?thesis
    by (intro exI [of _ s] exI [of _ t]) simp
qed

section \<open>The region header\<close>

context region_io
begin

text \<open>A write inside the region header leaves every slot alone.\<close>

lemma header_write_effect:
  assumes s: "layout cap sz s" and off: "off + length b \<le> REGION_HEADER_LEN"
  shows "\<exists>t. rio_write_at io off b s = (Ok (), t) \<and> layout cap sz t \<and> mem t = put_at off b (mem s)"
  using assms write_law [of s off b] by (auto simp: region_layout_def)

lemma header_put_slots:
  assumes "layout cap sz s" "off + length b \<le> REGION_HEADER_LEN"
  shows "slot_raw sz i (put_at off b (mem s)) = slot_raw sz i (mem s)"
  using assms by (simp add: slot_raw_def region_layout_def bytes_at_put_at_disjoint)

lemma publish_effect:
  assumes s: "layout cap sz s"
  shows "\<exists>t. publish_magic io magic s = (Ok (), t) \<and> layout cap sz t \<and>
    load_magic io t = Ok magic \<and> load_format io t = Ok REGION_FORMAT \<and>
    (\<forall>i. slot_raw sz i (mem t) = slot_raw sz i (mem s)) \<and>
    mem t = put_at MAGIC_OFFSET (to_le32 magic) (put_at FORMAT_OFFSET (to_le32 REGION_FORMAT) (mem s))"
proof -
  from header_write_effect [OF s, of FORMAT_OFFSET "to_le32 REGION_FORMAT"] obtain u where
    u: "rio_write_at io FORMAT_OFFSET (to_le32 REGION_FORMAT) s = (Ok (), u)" "layout cap sz u"
      "mem u = put_at FORMAT_OFFSET (to_le32 REGION_FORMAT) (mem s)" by (auto simp: layout_consts)
  from header_write_effect [OF u(2), of MAGIC_OFFSET "to_le32 magic"] obtain t where
    t: "rio_write_at io MAGIC_OFFSET (to_le32 magic) u = (Ok (), t)" "layout cap sz t"
      "mem t = put_at MAGIC_OFFSET (to_le32 magic) (mem u)" by (auto simp: layout_consts)
  have len: "length (mem s) = 32 + cap * sz" "length (mem u) = 32 + cap * sz"
    using s u(2) by (simp_all add: region_layout_def REGION_HEADER_LEN_def)
  have "rio_read_at io MAGIC_OFFSET 4 t = Ok (bytes_at MAGIC_OFFSET 4 (mem t))"
    "rio_read_at io FORMAT_OFFSET 4 t = Ok (bytes_at FORMAT_OFFSET 4 (mem t))"
    using t(2) by (auto intro!: read_law simp: region_layout_def layout_consts)
  moreover have "bytes_at MAGIC_OFFSET 4 (mem t) = to_le32 magic"
    "bytes_at FORMAT_OFFSET 4 (mem t) = to_le32 REGION_FORMAT"
    using len by (simp_all add: t(3) u(3) layout_consts bytes_at_put_at_disjoint)
  moreover have "slot_raw sz i (mem t) = slot_raw sz i (mem s)" for i
    using header_put_slots [OF u(2), of MAGIC_OFFSET "to_le32 magic" i]
      header_put_slots [OF s, of FORMAT_OFFSET "to_le32 REGION_FORMAT" i] t(3) u(3) by (simp add: layout_consts)
  ultimately show ?thesis using t(1-3) u(1,3)
    by (simp add: publish_magic_def load_magic_def load_format_def)
qed

lemma floor_word:
  assumes s: "layout cap sz s"
  shows "load_floor io s = Ok (from_le64 (bytes_at PIN_FLOOR_OFFSET 8 (mem s)))"
    "PIN_FLOOR_OFFSET + 8 \<le> length (mem s)"
  using s by (auto simp: load_floor_def region_layout_def layout_consts intro!: load_law)

lemma turns: "(32 :: nat) = Suc 31"
  by simp

lemma floor_min_effect:
  assumes s: "layout cap sz s" and w: "load_floor io s = Ok w"
  shows "\<exists>t. floor_min io target s = (Ok (min w target), t) \<and> layout cap sz t \<and> load_floor io t = Ok (min w target)"
proof (cases "w \<noteq> PIN_FLOOR_NONE \<and> w \<le> target")
  case True
  have "floor_min_loop io target (Suc 31) s = (Ok w, s)"
    using w True by (subst floor_min_loop.simps) simp
  then have "floor_min io target s = (Ok w, s)" unfolding floor_min_def by (simp only: turns)
  then show ?thesis using s w True by (simp add: min_def)
next
  case False
  have mw: "from_le64 (bytes_at PIN_FLOOR_OFFSET 8 (mem s)) = w" using floor_word(1) [OF s] w by simp
  have "w = PIN_FLOOR_NONE \<or> target < w" using False by auto
  moreover have "x \<le> PIN_FLOOR_NONE" for x 
    using unsigned_less [of x, where ?'a = nat] by (simp add: PIN_FLOOR_NONE_def word_le_nat_alt)
  ultimately have min: "min w target = target" by (auto simp: min_def intro: order.antisym)
  have "inv s" using s by (simp add: region_layout_def)
  from cas_law [OF this floor_word(2) [OF s], of w target] mw obtain t seen where
    t: "rio_compare_exchange_u64 io PIN_FLOOR_OFFSET w target s = (Ok (seen, True), t)" "inv t"
      "mem t = put_at PIN_FLOOR_OFFSET (to_le64 target) (mem s)" "rio_capacity io t = rio_capacity io s"
      "rio_slot_size io t = rio_slot_size io s" by auto
  have lay: "layout cap sz t" using s t floor_word(2) [OF s] by (simp add: region_layout_def)
  have "load_floor io t = Ok target" using floor_word(1) [OF lay] t(3) floor_word(2) [OF s] by simp
  moreover have "floor_min_loop io target (Suc 31) s = (Ok target, t)"
    using w False t(1) by (subst floor_min_loop.simps) auto
  then have "floor_min io target s = (Ok target, t)" unfolding floor_min_def by (simp only: turns)
  ultimately show ?thesis using lay min by simp
qed

lemma floor_cas_effect:
  assumes s: "layout cap sz s" and w: "load_floor io s = Ok w"
  shows "\<exists>t. floor_cas io expected target s = (Ok (w = expected), t) \<and> layout cap sz t \<and>
    load_floor io t = Ok (if w = expected then target else w)"
proof -
  have mw: "from_le64 (bytes_at PIN_FLOOR_OFFSET 8 (mem s)) = w" using floor_word(1) [OF s] w by simp
  have "inv s" using s by (simp add: region_layout_def)
  from cas_law [OF this floor_word(2) [OF s], of expected target] mw obtain t seen where
    t: "rio_compare_exchange_u64 io PIN_FLOOR_OFFSET expected target s = (Ok (seen, w = expected), t)" "inv t"
      "mem t = (if w = expected then put_at PIN_FLOOR_OFFSET (to_le64 target) (mem s) else mem s)"
      "rio_capacity io t = rio_capacity io s" "rio_slot_size io t = rio_slot_size io s" by auto
  have lay: "layout cap sz t" using s t floor_word(2) [OF s] by (auto simp: region_layout_def)
  have "load_floor io t = Ok (if w = expected then target else w)"
    using floor_word(1) [OF lay] t(3) floor_word(2) [OF s] mw by simp
  with t(1) lay show ?thesis by (simp add: floor_cas_def)
qed

end

text \<open>The mode of a region is agreed at open. Once a creator has published its magic, an
  opener that expects the same mode is let in, and one that expects the other mode is refused at
  once, however long it is prepared to wait; the slots are as they were.\<close>

theorem region_mode_agreement:
  assumes "region_layout mmap_io mapped_inv mapped_mem cap sz s"
  shows "\<exists>t. publish_magic mmap_io (region_magic creator) s = (Ok (), t) \<and>
    wait_initialized mmap_io (region_magic opener) polls (\<lambda>_. t) =
      (if opener = creator then Ok ()
       else ChanErr (InvalidConfig ''region channel mode mismatch (all processes must agree on multi_producer)'')) \<and>
    (\<forall>i. slot_raw sz i (mapped_mem t) = slot_raw sz i (mapped_mem s))"
proof -
  from mmap.publish_effect [OF assms, of "region_magic creator"] obtain t where
    t: "publish_magic mmap_io (region_magic creator) s = (Ok (), t)" "load_magic mmap_io t = Ok (region_magic creator)"
      "load_format mmap_io t = Ok REGION_FORMAT" "\<forall>i. slot_raw sz i (mapped_mem t) = slot_raw sz i (mapped_mem s)" by blast
  have "wait_initialized mmap_io (region_magic opener) polls (\<lambda>_. t) =
      (if opener = creator then Ok ()
       else ChanErr (InvalidConfig ''region channel mode mismatch (all processes must agree on multi_producer)''))"
    using t(2,3) by (subst wait_initialized.simps)
      (auto simp: check_format_def region_magic_def REGION_MAGIC_def REGION_MAGIC_MPSC_def)
  with t(1,4) show ?thesis by blast
qed

theorem region_mode_agreement_witness:
  "\<exists>t. publish_magic mmap_io (region_magic False) blank_region = (Ok (), t) \<and>
     wait_initialized mmap_io (region_magic True) 100 (\<lambda>_. t) =
       ChanErr (InvalidConfig ''region channel mode mismatch (all processes must agree on multi_producer)'')"
  using region_mode_agreement [OF blank_region_layout, of False True 100] by auto

text \<open>Pinning only lowers the floor and raising it needs a fresh look. \<open>floor_min\<close> leaves
  the smaller of the floor and the pin (the sentinel counts as no floor), and \<open>floor_cas\<close> moves the
  floor only when it still is what the caller observed.\<close>

theorem pin_floor_updates:
  assumes "region_layout mmap_io mapped_inv mapped_mem cap sz s" and "load_floor mmap_io s = Ok w"
  shows "\<exists>t u. floor_min mmap_io target s = (Ok (min w target), t) \<and> load_floor mmap_io t = Ok (min w target) \<and>
    floor_cas mmap_io expected target s = (Ok (w = expected), u) \<and>
    load_floor mmap_io u = Ok (if w = expected then target else w)"
  using mmap.floor_min_effect [OF assms, of target] mmap.floor_cas_effect [OF assms, of expected target] by blast

theorem pin_floor_updates_witness:
  "\<exists>w u. load_floor mmap_io blank_region = Ok w \<and> floor_cas mmap_io w 9 blank_region = (Ok True, u) \<and>
     load_floor mmap_io u = Ok 9"
proof -
  obtain w where w: "load_floor mmap_io blank_region = Ok w" using mmap.floor_word(1) [OF blank_region_layout] by blast
  from pin_floor_updates [OF blank_region_layout w, of 9 w] w show ?thesis by auto
qed

section \<open>The file back end\<close>

text \<open>Over \<open>FileSlotStorage\<close>, the last slot of a persistent region can never be released.
  The file's range check covers \<open>capacity * slot_size\<close> bytes and forgets the 32 bytes of the region
  header, so clearing the payload of the last slot is out of bounds in every state of the file:
  releasing it fails and leaves the file as it was.\<close>

theorem file_region_last_slot_stuck:
  assumes "0 < file_capacity s" and "PERSISTENT_SLOT_HEADER_LEN < file_slot_size s"
    and "REGION_HEADER_LEN + file_capacity s * file_slot_size s \<le> usize_max"
  shows "force_release_no_flush file_io (file_capacity s - 1) s =
    (ChanErr (InvalidConfig ''file storage range out of bounds''), s)"
proof -
  let ?sz = "file_slot_size s" and ?i = "file_capacity s - 1"
  obtain k where k: "file_capacity s = Suc k" using assms(1) by (cases "file_capacity s") auto
  have "\<not> (?sz - 48 \<le> Suc k * ?sz - (32 + k * ?sz + 48) \<and> 32 + k * ?sz + 48 \<le> Suc k * ?sz)"
    using assms(2) by (simp add: PERSISTENT_SLOT_HEADER_LEN_def) arith
  then have "file_validate_range (slot_offset file_io s ?i + PERSISTENT_SLOT_HEADER_LEN) (frame_capacity file_io s) s =
      ChanErr (InvalidConfig ''file storage range out of bounds'')"
    using assms(3) k by (auto simp: file_validate_range_def slot_offset_def frame_capacity_def file_io_def layout_consts)
  then show ?thesis
    by (simp add: force_release_no_flush_def clear_payload_def file_clear_at_def)
      (simp add: file_io_def file_clear_at_def slot_offset_def frame_capacity_def)
qed

theorem file_region_last_slot_stuck_witness:
  "let s = \<lparr>file_capacity = 2, file_slot_size = 112, file_data = replicate 256 0, file_poisoned = False\<rparr>
   in force_release_no_flush file_io 1 s = (ChanErr (InvalidConfig ''file storage range out of bounds''), s)"
  using file_region_last_slot_stuck [of "\<lparr>file_capacity = 2, file_slot_size = 112, file_data = replicate 256 0,
      file_poisoned = False\<rparr>"]
  by (simp add: layout_consts usize_max_def)

end
