(* ===== verification/Zero_Copy.thy ===== *)
theory Zero_Copy
  imports Persistent_Region
begin

text \<open>
  The zero-copy objects of \<open>crates/dsline-shm/src/lib.rs\<close>: the facade \<open>RegionAccess\<close>, the producer's
  write lease, the consumer's view that pins its slot, and the recomputation of the pin floor when a
  view is released. A lease or a view shares the store with its channel, so its methods take the
  store; \<open>&mut self\<close> methods of the view run on the pair of the view and the store.

  A \<open>u64\<close> addition the code leaves unchecked panics on overflow, as in a build with overflow checks.
\<close>

section \<open>Machine arithmetic of cursors\<close>

definition add_u64 :: "u64 \<Rightarrow> nat \<Rightarrow> u64 result" where
  "add_u64 a n = (if unat a + n < 2 ^ 64 then Ok (a + word_of_nat n) else Panicked)"

text \<open>\<open>saturating_sub\<close> of \<open>u64\<close>.\<close>

definition saturating_sub :: "u64 \<Rightarrow> u64 \<Rightarrow> u64" where
  "saturating_sub a b = (if b \<le> a then a - b else 0)"

text \<open>The cursors \<open>start..end\<close> and the slot of a cursor, \<open>(cursor % cap) as usize\<close>.\<close>

definition cursor_range :: "u64 \<Rightarrow> u64 \<Rightarrow> u64 list" where
  "cursor_range start fin = map word_of_nat [unat start..<unat fin]"

definition cursor_slot :: "usize \<Rightarrow> u64 \<Rightarrow> usize" where
  "cursor_slot cap c = unat c mod cap"

section \<open>The facade\<close>

definition ZERO_COPY_PAYLOAD_OFFSET :: usize where
  "ZERO_COPY_PAYLOAD_OFFSET = PERSISTENT_SLOT_HEADER_LEN + FRAME_HEADER_LEN"

definition region_slot_offset :: "usize \<Rightarrow> usize \<Rightarrow> usize" where
  "region_slot_offset index sz = REGION_HEADER_LEN + index * sz"

text \<open>The methods of \<open>RegionAccess\<close> are those of the region and its storage; \<open>force_release\<close> is the
  one with a body of its own.\<close>

definition access_force_release :: "'s region_io_ops \<Rightarrow> usize \<Rightarrow> ('s, dsline_error, unit) action" where
  "access_force_release io index =
     seq (force_release_no_flush io index)
     (reads (\<lambda>s. rio_flush_range io (slot_offset io s index) PERSISTENT_SLOT_HEADER_LEN s))"

section \<open>The write lease\<close>

record write_lease =
  wl_index :: usize
  wl_seq :: u64
  wl_payload_offset :: usize
  wl_payload_len :: usize
  wl_sealed :: bool

definition lease_seq :: "write_lease \<Rightarrow> u64" where "lease_seq = wl_seq"
definition lease_size :: "write_lease \<Rightarrow> usize" where "lease_size = wl_payload_len"
definition lease_slot_index :: "write_lease \<Rightarrow> usize" where "lease_slot_index = wl_index"
definition lease_is_sealed :: "write_lease \<Rightarrow> bool" where "lease_is_sealed = wl_sealed"

definition lease_write ::
  "'s region_io_ops \<Rightarrow> write_lease \<Rightarrow> usize \<Rightarrow> bytes \<Rightarrow> ('s, dsline_error, unit) action" where
  "lease_write io l offset b =
     (if wl_sealed l then
        fail (Channel (InvalidConfig ''buffer is sealed: publish() already committed it''))
      else if offset > wl_payload_len l \<or> length b > wl_payload_len l - offset then
        fail (Channel (InvalidConfig ''write out of buffer bounds''))
      else rio_write_at io (wl_payload_offset l + offset) b)"

section \<open>The pin floor after a release\<close>

text \<open>The first pinned slot in a list of cursors, or the sentinel.\<close>

fun first_pinned :: "(usize \<Rightarrow> 's \<Rightarrow> slot_state result) \<Rightarrow> usize \<Rightarrow> u64 list \<Rightarrow> 's \<Rightarrow> u64 result" where
  "first_pinned state_of cap [] s = Ok PIN_FLOOR_NONE"
| "first_pinned state_of cap (c # cs) s =
     and_then (state_of (cursor_slot cap c) s) (\<lambda>st.
     if st = Pinned then Ok c else first_pinned state_of cap cs s)"

definition full_header_state :: "'s region_io_ops \<Rightarrow> usize \<Rightarrow> 's \<Rightarrow> slot_state result" where
  "full_header_state io index s = map_outcome sh_state (read_header_full io index s)"

definition unpin_floor :: "'s region_io_ops \<Rightarrow> u64 \<Rightarrow> ('s, dsline_error, unit) action" where
  "unpin_floor io released_cursor =
     bind (reads (rio_load_u64 io PIN_FLOOR_OFFSET)) (\<lambda>entry_floor.
     let owns_floor = (entry_floor = released_cursor) in
     if \<not> owns_floor \<and> entry_floor \<noteq> PIN_FLOOR_NONE then return () else
     bind (reads (rio_load_u64 io CURSOR_TAIL_OFFSET)) (\<lambda>tail.
     bind (gets (rio_capacity io)) (\<lambda>cap.
     let window = saturating_sub tail (word_of_nat cap) in
     bind (lift (if owns_floor then add_u64 released_cursor 1 else Ok window)) (\<lambda>lo.
     bind (reads (first_pinned (full_header_state io) cap (cursor_range (max lo window) tail))) (\<lambda>nxt.
     if entry_floor \<noteq> nxt
     then bind (rio_compare_exchange_u64 io PIN_FLOOR_OFFSET entry_floor nxt) (\<lambda>_. return ())
     else return ())))))"

section \<open>The receive view\<close>

record shm_recv_view =
  rv_index :: usize
  rv_seq :: u64
  rv_payload_offset :: usize
  rv_payload_len :: usize
  rv_cursor_value :: u64
  rv_released :: bool

definition view_seq :: "shm_recv_view \<Rightarrow> u64" where "view_seq = rv_seq"
definition view_size :: "shm_recv_view \<Rightarrow> usize" where "view_size = rv_payload_len"
definition view_slot_index :: "shm_recv_view \<Rightarrow> usize" where "view_slot_index = rv_index"
definition view_is_released :: "shm_recv_view \<Rightarrow> bool" where "view_is_released = rv_released"

definition check_usable :: "shm_recv_view \<Rightarrow> unit result" where
  "check_usable v =
     (if rv_released v then ChanErr (InvalidConfig ''view is already released'') else Ok ())"

definition view_read :: "'s region_io_ops \<Rightarrow> shm_recv_view \<Rightarrow> usize \<Rightarrow> usize \<Rightarrow> 's \<Rightarrow> bytes result" where
  "view_read io v offset len s =
     and_then (check_usable v) (\<lambda>_.
     if offset > rv_payload_len v \<or> len > rv_payload_len v - offset
     then ChanErr (InvalidConfig ''read out of view bounds'')
     else rio_read_at io (rv_payload_offset v + offset) len s)"

definition view_read_all :: "'s region_io_ops \<Rightarrow> shm_recv_view \<Rightarrow> 's \<Rightarrow> bytes result" where
  "view_read_all io v s =
     and_then (check_usable v) (\<lambda>_. rio_read_at io (rv_payload_offset v) (rv_payload_len v) s)"

definition on_shared :: "('s, 'e, 'a) action \<Rightarrow> (shm_recv_view \<times> 's, 'e, 'a) action" where
  "on_shared = zoom snd (\<lambda>s p. (fst p, s))"

definition mark_released :: "(shm_recv_view \<times> 's, dsline_error, unit) action" where
  "mark_released = modify (\<lambda>(v, s). (v\<lparr>rv_released := True\<rparr>, s))"

definition view_release :: "'s region_io_ops \<Rightarrow> (shm_recv_view \<times> 's, dsline_error, unit) action" where
  "view_release io =
     seq (reads (\<lambda>(v, s). check_usable v))
     (bind (gets fst) (\<lambda>v.
      seq (on_shared (prelease_pinned io (rv_index v)))
      (seq mark_released
      (on_shared (unpin_floor io (rv_cursor_value v))))))"

text \<open>\<open>let _ = r\<close>: a storage error is swallowed.\<close>

definition ignore_error :: "('s, 'e, unit) action \<Rightarrow> ('s, 'e, unit) action" where
  "ignore_error m s = (case m s of (Err e, t) \<Rightarrow> (Ok (), t) | r \<Rightarrow> r)"

definition view_drop :: "'s region_io_ops \<Rightarrow> (shm_recv_view \<times> 's, dsline_error, unit) action" where
  "view_drop io =
     bind (gets fst) (\<lambda>v.
     if rv_released v then return () else
     seq (ignore_error (on_shared (prelease_pinned io (rv_index v))))
     (seq (ignore_error (on_shared (unpin_floor io (rv_cursor_value v)))) mark_released))"

end
