(* ===== verification/Persistent_Channel.thy ===== *)
theory Persistent_Channel
  imports Zero_Copy
begin

text \<open>
  \<open>PersistentShmChannel\<close> of \<open>crates/dsline-shm/src/lib.rs\<close>: the state of a handle, the shared
  cursors, the send guard, recovery at open, the reclaim of dead writers' slots and construction.
  Sending, receiving and the zero-copy calls are in \<open>Persistent_Transfer\<close>.

  A handle holds the store its process and others share. While a method waits, the others run: the
  environment says what they do to the store (\<open>env_yield\<close>, one step per turn of a waiting loop),
  how many turns the clock grants before a deadline, the time, what the liveness probe answers and
  what a second read of a slot header finds. Between waits a method runs alone, unless the storage
  methods it is given say otherwise.
\<close>

section \<open>Environment and state\<close>

record 's channel_env =
  env_crc :: "bytes \<Rightarrow> u32"
  env_probe :: "u32 \<Rightarrow> (unit, u64 option) outcome"
  env_second :: "usize \<Rightarrow> 's \<Rightarrow> slot_header_full result"
  env_now :: u64
  env_yield :: "nat \<Rightarrow> 's \<Rightarrow> 's"
  env_rounds :: nat

record 's persistent_channel =
  pc_store :: 's
  pc_config :: spsc_config
  pc_head :: usize
  pc_tail :: usize
  pc_len :: usize
  pc_head_cursor :: u64
  pc_tail_cursor :: u64
  pc_floor_cursor :: u64
  pc_recovery_bias :: usize
  pc_writer :: process_identity
  pc_writer_epoch :: u32
  pc_reclaimed_slots :: u64
  pc_resync_expected :: bool
  pc_next_seq :: u64
  pc_expected_recv_seq :: u64
  pc_last_received_seq :: "u64 option"
  pc_closed :: bool

type_synonym ('s, 'a) channel_action = "('s persistent_channel, dsline_error, 'a) action"

definition on_store :: "('s, dsline_error, 'a) action \<Rightarrow> ('s, 'a) channel_action" where
  "on_store = zoom pc_store (\<lambda>s c. c\<lparr>pc_store := s\<rparr>)"

definition look :: "('s \<Rightarrow> 'a result) \<Rightarrow> ('s, 'a) channel_action" where
  "look f = reads (\<lambda>c. f (pc_store c))"

definition pcapacity :: "'s persistent_channel \<Rightarrow> usize" where
  "pcapacity c = capacity (pc_config c)"

definition yield_now :: "'s channel_env \<Rightarrow> nat \<Rightarrow> ('s, unit) channel_action" where
  "yield_now env turn = modify (\<lambda>c. c\<lparr>pc_store := env_yield env turn (pc_store c)\<rparr>)"

text \<open>\<open>(counter ^ pid) as u32\<close>: \<open>counter\<close> is the value of the process-wide counter.\<close>

definition next_writer_epoch :: "u64 \<Rightarrow> u32 \<Rightarrow> u32" where
  "next_writer_epoch counter self_pid = ucast (counter XOR ucast self_pid)"

definition stamp_of :: "process_identity \<Rightarrow> u64 \<Rightarrow> u32 \<Rightarrow> u32 \<Rightarrow> writer_identity" where
  "stamp_of writer now epoch reserved_slots =
     \<lparr>wi_pid = pid writer, wi_start_time = start_time writer, wi_epoch = epoch,
      wi_timestamp_ns = now, wi_reserved_slots = reserved_slots\<rparr>"

definition stamp :: "'s channel_env \<Rightarrow> usize \<Rightarrow> 's persistent_channel \<Rightarrow> writer_identity" where
  "stamp env n c = stamp_of (pc_writer c) (env_now env) (pc_writer_epoch c) (word_of_nat n)"

section \<open>Cursors and the send guard\<close>

definition inconsistent_cursors :: dsline_error where
  "inconsistent_cursors = Channel (InvalidConfig ''ring cursors are inconsistent'')"

text \<open>The slots between the cursors: \<open>head - tail\<close> when the head is ahead, none when the tail is.\<close>

definition cursor_len :: "usize \<Rightarrow> u64 \<Rightarrow> u64 \<Rightarrow> usize result" where
  "cursor_len cap head_c tail_c =
     (if unat (head_c - tail_c) \<le> cap then Ok (unat (head_c - tail_c))
      else if unat (tail_c - head_c) \<le> cap then Ok 0
      else Err inconsistent_cursors)"

definition refresh_cursors :: "'s region_io_ops \<Rightarrow> ('s, unit) channel_action" where
  "refresh_cursors io =
     bind (look (load_head io)) (\<lambda>head_c.
     bind (look (load_tail io)) (\<lambda>tail_c.
     bind (look (load_floor io)) (\<lambda>floor_c.
     seq (modify (\<lambda>c. c\<lparr>pc_head_cursor := head_c, pc_tail_cursor := tail_c, pc_floor_cursor := floor_c,
            pc_tail := cursor_slot (pcapacity c) tail_c\<rparr>))
     (bind (reads (\<lambda>c. cursor_len (pcapacity c) head_c tail_c)) (\<lambda>depth.
      modify (\<lambda>c. c\<lparr>pc_len := min (depth + pc_recovery_bias c) (pcapacity c)\<rparr>))))))"

definition guard_len :: "'s persistent_channel \<Rightarrow> usize" where
  "guard_len c =
     (let floor_eff = (if pc_floor_cursor c = PIN_FLOOR_NONE then pc_tail_cursor c
                       else min (pc_floor_cursor c) (pc_tail_cursor c));
          pinned_span = saturating_sub (pc_head_cursor c) floor_eff in
      min (unat pinned_span + pc_recovery_bias c) (pcapacity c))"

text \<open>\<open>self.config.capacity - self.guard_len()\<close>; the guard is at most the capacity.\<close>

definition guard_room :: "'s persistent_channel \<Rightarrow> usize" where
  "guard_room c = pcapacity c - guard_len c"

definition header_state :: "'s region_io_ops \<Rightarrow> usize \<Rightarrow> 's \<Rightarrow> slot_state result" where
  "header_state io index s = map_outcome fst (read_header io index s)"

definition scan_pin_floor :: "'s region_io_ops \<Rightarrow> usize \<Rightarrow> u64 \<Rightarrow> 's \<Rightarrow> u64 result" where
  "scan_pin_floor io cap tail_c =
     first_pinned (header_state io) cap (cursor_range (saturating_sub tail_c (word_of_nat cap)) tail_c)"

text \<open>The raise of the shared floor after a scan, and the reload.\<close>

definition rebuild_floor :: "'s region_io_ops \<Rightarrow> u64 \<Rightarrow> ('s, unit) channel_action" where
  "rebuild_floor io tail_c =
     bind (look (load_floor io)) (\<lambda>floor_before.
     bind (reads (\<lambda>c. scan_pin_floor io (pcapacity c) tail_c (pc_store c))) (\<lambda>floor.
     seq (if floor_before \<noteq> floor then bind (on_store (floor_cas io floor_before floor)) (\<lambda>_. return ())
          else return ())
     (bind (look (load_floor io)) (\<lambda>now. modify (\<lambda>c. c\<lparr>pc_floor_cursor := now\<rparr>)))))"

section \<open>Recovery at open\<close>

record persistent_slot_header =
  ps_index :: usize
  ps_state :: slot_state
  ps_seq :: u64

fun occupied_from :: "'s region_io_ops \<Rightarrow> nat list \<Rightarrow> 's \<Rightarrow> persistent_slot_header list result" where
  "occupied_from io [] s = Ok []"
| "occupied_from io (i # is) s =
     and_then (read_header io i s) (\<lambda>(st, sq, _).
     and_then (occupied_from io is s) (\<lambda>rest.
     Ok (if st \<in> {Committed, Pinned, Writing} then \<lparr>ps_index = i, ps_state = st, ps_seq = sq\<rparr> # rest else rest)))"

definition occupied_slot_headers :: "'s region_io_ops \<Rightarrow> usize \<Rightarrow> 's \<Rightarrow> persistent_slot_header list result" where
  "occupied_slot_headers io cap = occupied_from io [0..<cap]"

fun infer_head_loop :: "'s region_io_ops \<Rightarrow> usize \<Rightarrow> usize \<Rightarrow> nat \<Rightarrow> usize \<Rightarrow> 's \<Rightarrow> usize result" where
  "infer_head_loop io cap tail 0 head s = Ok head"
| "infer_head_loop io cap tail (Suc n) head s =
     and_then (header_state io head s) (\<lambda>st.
     if st = Free then Ok head
     else if (head + 1) mod cap = tail then Ok ((head + 1) mod cap)
     else infer_head_loop io cap tail n ((head + 1) mod cap) s)"

definition infer_head_from_tail :: "'s region_io_ops \<Rightarrow> usize \<Rightarrow> usize \<Rightarrow> 's \<Rightarrow> usize result" where
  "infer_head_from_tail io cap tail = infer_head_loop io cap tail cap tail"

text \<open>The loops over all slots that reclaim; the count is \<open>reclaimed_slots += 1\<close> in the loop.\<close>

definition count_reclaimed :: "('s, unit) channel_action" where
  "count_reclaimed = bind (reads (\<lambda>c. add_u64 (pc_reclaimed_slots c) 1)) (\<lambda>n. modify (\<lambda>c. c\<lparr>pc_reclaimed_slots := n\<rparr>))"

definition reclaim_writing_at :: "'s region_io_ops \<Rightarrow> 's channel_env \<Rightarrow> usize \<Rightarrow> ('s, unit) channel_action" where
  "reclaim_writing_at io env index =
     bind (on_store (reclaim_dead_writing io (env_probe env) (env_second env) index)) (\<lambda>freed.
     if freed then seq count_reclaimed (modify (\<lambda>c. c\<lparr>pc_resync_expected := True\<rparr>)) else return ())"

definition reclaim_pinned_at :: "'s region_io_ops \<Rightarrow> 's channel_env \<Rightarrow> usize \<Rightarrow> ('s, unit) channel_action" where
  "reclaim_pinned_at io env index =
     bind (on_store (reclaim_dead_pinned io (env_probe env) (env_second env) index)) (\<lambda>freed.
     if freed then count_reclaimed else return ())"

text \<open>The fold of the next sequence number over the occupied slots.\<close>

definition continue_after :: "u64 \<Rightarrow> u64 list \<Rightarrow> u64" where
  "continue_after start seqs =
     foldl (\<lambda>nxt sq. if sequence_precedes nxt (sq + 1) then sq + 1 else nxt) start seqs"

definition recover_from_storage :: "'s region_io_ops \<Rightarrow> 's channel_env \<Rightarrow> ('s, unit) channel_action" where
  "recover_from_storage io env =
     bind (gets (\<lambda>c. (pc_config c, pcapacity c))) (\<lambda>(cfg, cap).
     seq (if multi_producer cfg then return () else for_each [0..<cap] (reclaim_writing_at io env))
     (seq (for_each [0..<cap] (reclaim_pinned_at io env))
     (bind (look (occupied_slot_headers io cap)) (\<lambda>occupied.
      bind (look (load_head io)) (\<lambda>head_c.
      bind (look (load_tail io)) (\<lambda>tail_c.
      seq (rebuild_floor io tail_c)
      (bind (lift (cursor_len cap head_c tail_c)) (\<lambda>depth.
       let tail_index = cursor_slot cap tail_c in
       seq (modify (\<lambda>c. c\<lparr>pc_head_cursor := head_c, pc_tail_cursor := tail_c, pc_tail := tail_index\<rparr>))
       (bind (look (infer_head_from_tail io cap tail_index)) (\<lambda>head.
        let pinned_count = length (filter (\<lambda>h. ps_state h = Pinned) occupied);
            bias_pool = (if unat (head_c - tail_c) \<le> cap then length occupied - pinned_count else length occupied);
            bias = bias_pool - depth;
            readable = list_ex (\<lambda>h. ps_state h \<noteq> Writing) occupied in
        seq (modify (\<lambda>c. c\<lparr>pc_head := head, pc_recovery_bias := bias, pc_len := min (depth + bias) cap,
               pc_next_seq := continue_after (pc_next_seq c) (map ps_seq occupied)\<rparr>))
        (bind (if readable then look (\<lambda>s. map_outcome (fst \<circ> snd) (read_header io tail_index s)) else return 0) (\<lambda>expected.
         modify (\<lambda>c. c\<lparr>pc_expected_recv_seq := expected,
           pc_resync_expected := pc_resync_expected c \<or> \<not> readable\<rparr>)))))))))))))"

section \<open>Construction\<close>

definition fresh_handle :: "'s \<Rightarrow> spsc_config \<Rightarrow> process_identity \<Rightarrow> u32 \<Rightarrow> 's persistent_channel" where
  "fresh_handle s cfg self epoch =
     \<lparr>pc_store = s, pc_config = cfg, pc_head = 0, pc_tail = 0, pc_len = 0, pc_head_cursor = 0,
      pc_tail_cursor = 0, pc_floor_cursor = PIN_FLOOR_NONE, pc_recovery_bias = 0, pc_writer = self,
      pc_writer_epoch = epoch, pc_reclaimed_slots = 0, pc_resync_expected = False, pc_next_seq = 0,
      pc_expected_recv_seq = 0, pc_last_received_seq = None, pc_closed = False\<rparr>"

text \<open>\<open>view n\<close> is the store as the \<open>n\<close>-th turn of the wait for the creator finds it.\<close>

definition initialize_region ::
  "'s region_io_ops \<Rightarrow> nat \<Rightarrow> (nat \<Rightarrow> 's) \<Rightarrow> spsc_config \<Rightarrow> ('s, dsline_error, unit) action" where
  "initialize_region io polls view cfg =
     bind (reads (load_magic io)) (\<lambda>magic.
     if magic \<noteq> 0 then lift (wait_initialized io (region_magic (multi_producer cfg)) polls view)
     else seq (for_each [0..<capacity cfg] (\<lambda>i. write_header io i Free 0 0))
       (seq (store_floor io PIN_FLOOR_NONE)
       (publish_magic io (region_magic (multi_producer cfg)))))"

definition new_initialized ::
  "'s region_io_ops \<Rightarrow> nat \<Rightarrow> (nat \<Rightarrow> 's) \<Rightarrow> process_identity \<Rightarrow> u32 \<Rightarrow> spsc_config \<Rightarrow> 's \<Rightarrow> 's persistent_channel result" where
  "new_initialized io polls view self epoch cfg s =
     (case initialize_region io polls view cfg s of
        (r, s') \<Rightarrow> map_outcome (\<lambda>_. fresh_handle s' cfg self epoch) r)"

definition opened ::
  "'s region_io_ops \<Rightarrow> 's channel_env \<Rightarrow> process_identity \<Rightarrow> u32 \<Rightarrow> spsc_config \<Rightarrow> 's \<Rightarrow> 's persistent_channel result" where
  "opened io env self epoch cfg s =
     (case recover_from_storage io env (fresh_handle s cfg self epoch) of
        (r, c) \<Rightarrow> map_outcome (\<lambda>_. c) r)"

text \<open>The constructors; \<open>provide cap sz total\<close> is the storage's own \<open>create\<close>, \<open>open\<close> or
  \<open>create_or_open\<close>.\<close>

definition pchannel_create ::
  "'s region_io_ops \<Rightarrow> nat \<Rightarrow> (nat \<Rightarrow> 's) \<Rightarrow> (usize \<Rightarrow> usize \<Rightarrow> usize \<Rightarrow> 's result) \<Rightarrow>
   process_identity \<Rightarrow> u32 \<Rightarrow> spsc_config \<Rightarrow> 's persistent_channel result" where
  "pchannel_create io polls view provide self epoch cfg =
     and_then (validate_config cfg) (\<lambda>_.
     and_then (persistent_region_slot_size cfg) (\<lambda>sz.
     and_then (pregion_create (provide (capacity cfg) sz) (capacity cfg) sz) (\<lambda>s.
     new_initialized io polls view self epoch cfg s)))"

definition pchannel_open ::
  "'s region_io_ops \<Rightarrow> 's channel_env \<Rightarrow> nat \<Rightarrow> (nat \<Rightarrow> 's) \<Rightarrow> (usize \<Rightarrow> usize \<Rightarrow> usize \<Rightarrow> 's result) \<Rightarrow>
   process_identity \<Rightarrow> u32 \<Rightarrow> spsc_config \<Rightarrow> 's persistent_channel result" where
  "pchannel_open io env polls view provide self epoch cfg =
     and_then (validate_config cfg) (\<lambda>_.
     and_then (persistent_region_slot_size cfg) (\<lambda>sz.
     and_then (pregion_create (provide (capacity cfg) sz) (capacity cfg) sz) (\<lambda>s.
     and_then (wait_initialized io (region_magic (multi_producer cfg)) polls view) (\<lambda>_.
     opened io env self epoch cfg s))))"

definition pchannel_create_or_open ::
  "'s region_io_ops \<Rightarrow> 's channel_env \<Rightarrow> nat \<Rightarrow> (nat \<Rightarrow> 's) \<Rightarrow> (usize \<Rightarrow> usize \<Rightarrow> usize \<Rightarrow> ('s \<times> bool) result) \<Rightarrow>
   process_identity \<Rightarrow> u32 \<Rightarrow> spsc_config \<Rightarrow> 's persistent_channel result" where
  "pchannel_create_or_open io env polls view provide self epoch cfg =
     and_then (validate_config cfg) (\<lambda>_.
     and_then (persistent_region_slot_size cfg) (\<lambda>sz.
     and_then (region_total_len (capacity cfg) sz) (\<lambda>total_len.
     and_then (provide (capacity cfg) sz total_len) (\<lambda>(storage, created).
     and_then (pregion_from_storage io storage) (\<lambda>s.
     and_then (if created then load_magic io s else Ok 1) (\<lambda>magic.
     if created \<and> magic = 0 then new_initialized io polls view self epoch cfg s
     else and_then (wait_initialized io (region_magic (multi_producer cfg)) polls view) (\<lambda>_.
       opened io env self epoch cfg s)))))))"

end
