(* ===== verification/Persistent_Transfer.thy ===== *)
theory Persistent_Transfer
  imports Persistent_Channel Shm_Channel
begin

text \<open>
  The transfer of messages over a persistent region (\<open>PersistentShmChannel\<close> of
  \<open>crates/dsline-shm/src/lib.rs\<close>): the gate and the reclaim at the tail, dropping, sending for one
  and for several producers, receiving, and the zero-copy calls. Loops that wait for other processes
  run for the turns the environment's clock grants; the loops the code leaves unbounded take fuel.
\<close>

section \<open>The gate at the tail\<close>

definition tail_header :: "'s region_io_ops \<Rightarrow> ('s, slot_state \<times> u64 \<times> usize) channel_action" where
  "tail_header io = reads (\<lambda>c. read_header io (pc_tail c) (pc_store c))"

fun poll_committed_loop :: "'s region_io_ops \<Rightarrow> 's channel_env \<Rightarrow> nat \<Rightarrow> ('s, bool) channel_action" where
  "poll_committed_loop io env 0 = return False"
| "poll_committed_loop io env (Suc n) =
     bind (tail_header io) (\<lambda>(st, _, _).
     if st = Committed then return True else
     bind (gets pc_closed) (\<lambda>is_closed.
     if is_closed then fail (Channel Closed) else
     seq (yield_now env n) (poll_committed_loop io env n)))"

definition POLL_LIMIT :: nat where "POLL_LIMIT = 256"

definition poll_tail_committed :: "'s region_io_ops \<Rightarrow> 's channel_env \<Rightarrow> ('s, bool) channel_action" where
  "poll_tail_committed io env = poll_committed_loop io env POLL_LIMIT"

definition tail_committed :: "'s region_io_ops \<Rightarrow> ('s, bool) channel_action" where
  "tail_committed io = bind (tail_header io) (\<lambda>(st, _, _). return (st = Committed))"

section \<open>Reclaim at the tail\<close>

text \<open>The run of WRITING slots of dead writers from a slot on; the number freed.\<close>

fun reclaim_run :: "'s region_io_ops \<Rightarrow> 's channel_env \<Rightarrow> usize \<Rightarrow> nat \<Rightarrow> usize \<Rightarrow> nat \<Rightarrow> ('s, nat) channel_action" where
  "reclaim_run io env cap 0 index freed = return freed"
| "reclaim_run io env cap (Suc n) index freed =
     bind (look (header_state io index)) (\<lambda>st.
     if st \<noteq> Writing then return freed else
     bind (on_store (reclaim_dead_writing io (env_probe env) (env_second env) index)) (\<lambda>ok.
     if \<not> ok then return freed else reclaim_run io env cap n ((index + 1) mod cap) (freed + 1)))"

definition note_reclaimed :: "nat \<Rightarrow> ('s, unit) channel_action" where
  "note_reclaimed n =
     bind (reads (\<lambda>c. add_u64 (pc_reclaimed_slots c) n)) (\<lambda>count.
     modify (\<lambda>c. c\<lparr>pc_reclaimed_slots := count, pc_resync_expected := True, pc_len := pc_len c - n\<rparr>))"

definition try_reclaim_at_tail_spsc :: "'s region_io_ops \<Rightarrow> 's channel_env \<Rightarrow> ('s, nat) channel_action" where
  "try_reclaim_at_tail_spsc io env =
     bind (gets (\<lambda>c. (pcapacity c, unat (pc_head_cursor c - pc_tail_cursor c), pc_tail c))) (\<lambda>(cap, fwd, tail).
     if fwd \<noteq> 0 \<and> fwd \<le> cap then return 0 else
     bind (reclaim_run io env cap cap tail 0) (\<lambda>freed.
     if freed = 0 then return 0 else
     seq (modify (\<lambda>c. c\<lparr>pc_recovery_bias := pc_recovery_bias c - freed\<rparr>))
     (seq (note_reclaimed freed) (return freed))))"

text \<open>Every slot of the extent is FREE or WRITING by the same dead writer.\<close>

fun extent_reclaimable :: "'s region_io_ops \<Rightarrow> usize \<Rightarrow> writer_identity \<Rightarrow> nat \<Rightarrow> usize \<Rightarrow> 's \<Rightarrow> bool result" where
  "extent_reclaimable io cap identity 0 index s = Ok True"
| "extent_reclaimable io cap identity (Suc n) index s =
     and_then (read_header_full io index s) (\<lambda>full.
     if sh_state full = Free \<or>
        (sh_state full = Writing \<and>
         (case sh_identity full of None \<Rightarrow> False
          | Some sid \<Rightarrow> wi_pid sid = wi_pid identity \<and> wi_start_time sid = wi_start_time identity))
     then extent_reclaimable io cap identity n ((index + 1) mod cap) s
     else Ok False)"

fun free_extent :: "'s region_io_ops \<Rightarrow> usize \<Rightarrow> nat \<Rightarrow> usize \<Rightarrow> ('s, unit) channel_action" where
  "free_extent io cap 0 index = return ()"
| "free_extent io cap (Suc n) index =
     seq (on_store (force_release_no_flush io index))
     (seq (look (flush_release io index))
     (free_extent io cap n ((index + 1) mod cap)))"

definition try_reclaim_at_tail_mpsc :: "'s region_io_ops \<Rightarrow> 's channel_env \<Rightarrow> ('s, nat) channel_action" where
  "try_reclaim_at_tail_mpsc io env =
     bind (gets (\<lambda>c. (pcapacity c, pc_head_cursor c, pc_tail_cursor c, pc_tail c))) (\<lambda>(cap, head, tail, index).
     let window = unat (head - tail) in
     if window = 0 \<or> window > cap then return 0 else
     bind (look (read_header_full io index)) (\<lambda>first.
     if sh_state first \<noteq> Writing then return 0 else
     case sh_identity first of
       None \<Rightarrow> return 0
     | Some identity \<Rightarrow>
         if process_liveness (env_probe env) \<lparr>pid = wi_pid identity, start_time = wi_start_time identity\<rparr> \<noteq> Gone
         then return 0 else
         let extent = unat (wi_reserved_slots identity) in
         if extent = 0 \<or> extent > window then return 0 else
         bind (look (extent_reclaimable io cap identity extent index)) (\<lambda>ok.
         if \<not> ok then return 0 else
         seq (free_extent io cap extent index)
         (bind (lift (add_u64 tail extent)) (\<lambda>new_tail.
          bind (on_store (compare_exchange_tail io tail new_tail)) (\<lambda>(_, won).
          if \<not> won then return 0 else
          seq (modify (\<lambda>c. c\<lparr>pc_tail_cursor := new_tail, pc_tail := cursor_slot cap new_tail\<rparr>))
          (seq (note_reclaimed extent)
          (seq (look (flush_header io)) (return extent)))))))))"

definition try_reclaim_at_tail :: "'s region_io_ops \<Rightarrow> 's channel_env \<Rightarrow> ('s, nat) channel_action" where
  "try_reclaim_at_tail io env =
     bind (gets (\<lambda>c. multi_producer (pc_config c))) (\<lambda>mp.
     if mp then try_reclaim_at_tail_mpsc io env else try_reclaim_at_tail_spsc io env)"

section \<open>Explicit cleanup\<close>

fun reclaim_tail_loop :: "'s region_io_ops \<Rightarrow> 's channel_env \<Rightarrow> nat \<Rightarrow> nat \<Rightarrow> ('s, nat) channel_action" where
  "reclaim_tail_loop io env 0 count = return count"
| "reclaim_tail_loop io env (Suc n) count =
     bind (try_reclaim_at_tail_mpsc io env) (\<lambda>freed.
     if freed = 0 then return count else
     seq (refresh_cursors io) (reclaim_tail_loop io env n (count + freed)))"

text \<open>The loops that free slots by identity; the slots in \<open>skip\<close> are left alone.\<close>

fun reclaim_pinned_loop :: "'s region_io_ops \<Rightarrow> 's channel_env \<Rightarrow> usize list \<Rightarrow> nat \<Rightarrow> ('s, nat) channel_action" where
  "reclaim_pinned_loop io env [] count = return count"
| "reclaim_pinned_loop io env (i # is) count =
     bind (on_store (reclaim_dead_pinned io (env_probe env) (env_second env) i)) (\<lambda>freed.
     reclaim_pinned_loop io env is (if freed then count + 1 else count))"

fun reclaim_uncovered_loop ::
  "'s region_io_ops \<Rightarrow> 's channel_env \<Rightarrow> usize set \<Rightarrow> usize list \<Rightarrow> nat \<Rightarrow> ('s, nat) channel_action" where
  "reclaim_uncovered_loop io env skip [] count = return count"
| "reclaim_uncovered_loop io env skip (i # is) count =
     (if i \<in> skip then reclaim_uncovered_loop io env skip is count
      else bind (on_store (reclaim_dead_writing io (env_probe env) (env_second env) i)) (\<lambda>w.
        bind (on_store (reclaim_dead_pinned io (env_probe env) (env_second env) i)) (\<lambda>p.
        reclaim_uncovered_loop io env skip is (count + (if w then 1 else 0) + (if p then 1 else 0)))))"

definition recompute_spsc_bias :: "'s region_io_ops \<Rightarrow> ('s, usize) channel_action" where
  "recompute_spsc_bias io =
     bind (look (load_head io)) (\<lambda>head_c.
     bind (look (load_tail io)) (\<lambda>tail_c.
     bind (gets pcapacity) (\<lambda>cap.
     bind (lift (cursor_len cap head_c tail_c)) (\<lambda>depth.
     bind (look (occupied_slot_headers io cap)) (\<lambda>occupied.
     return (length occupied - depth))))))"

definition add_reclaimed :: "nat \<Rightarrow> ('s, unit) channel_action" where
  "add_reclaimed n =
     bind (reads (\<lambda>c. add_u64 (pc_reclaimed_slots c) n)) (\<lambda>count.
     modify (\<lambda>c. c\<lparr>pc_reclaimed_slots := count\<rparr>))"

definition reclaim_stale_mpsc :: "'s region_io_ops \<Rightarrow> 's channel_env \<Rightarrow> ('s, nat) channel_action" where
  "reclaim_stale_mpsc io env =
     bind (gets pcapacity) (\<lambda>cap.
     bind (reclaim_tail_loop io env cap 0) (\<lambda>freed.
     bind (reclaim_pinned_loop io env [0..<cap] freed) (\<lambda>count.
     if count = 0 then return 0 else
     seq (add_reclaimed count)
     (bind (look (load_tail io)) (\<lambda>tail_c.
      seq (rebuild_floor io tail_c) (return count))))))"

text \<open>The slots between the cursors, \<open>covered\<close>. The code walks from the tail cursor to the head
  cursor, which is long only when the cursors are inconsistent, and \<open>refresh_cursors\<close> refused those.\<close>

definition covered_slots :: "usize \<Rightarrow> u64 \<Rightarrow> u64 \<Rightarrow> usize set" where
  "covered_slots cap tail_c head_c = set (map (cursor_slot cap) (cursor_range tail_c head_c))"

definition reclaim_stale_spsc :: "'s region_io_ops \<Rightarrow> 's channel_env \<Rightarrow> ('s, nat) channel_action" where
  "reclaim_stale_spsc io env =
     bind (gets pcapacity) (\<lambda>cap.
     bind (look (load_head io)) (\<lambda>head_c.
     bind (look (load_tail io)) (\<lambda>tail_c.
     bind (reclaim_uncovered_loop io env (covered_slots cap tail_c head_c) [0..<cap] 0) (\<lambda>count.
     if count = 0 then return 0 else
     seq (add_reclaimed count)
     (seq (modify (\<lambda>c. c\<lparr>pc_resync_expected := True\<rparr>))
     (bind (recompute_spsc_bias io) (\<lambda>bias.
      seq (modify (\<lambda>c. c\<lparr>pc_recovery_bias := bias\<rparr>))
      (seq (refresh_cursors io)
      (bind (look (load_head io)) (\<lambda>_.
       bind (look (load_tail io)) (\<lambda>tail_now.
       seq (rebuild_floor io tail_now) (return count)))))))))))) "

definition reclaim_stale :: "'s region_io_ops \<Rightarrow> 's channel_env \<Rightarrow> ('s, nat) channel_action" where
  "reclaim_stale io env =
     seq (refresh_cursors io)
     (bind (gets (\<lambda>c. multi_producer (pc_config c))) (\<lambda>mp.
      if mp then reclaim_stale_mpsc io env else reclaim_stale_spsc io env))"

section \<open>The tail advances\<close>

text \<open>\<open>head == tail\<close>, or tail ahead: the slot at the tail is not counted by the cursors.\<close>

definition at_orphan :: "'s persistent_channel \<Rightarrow> bool" where
  "at_orphan c \<longleftrightarrow>
     (let fwd = unat (pc_head_cursor c - pc_tail_cursor c) in fwd = 0 \<or> fwd > pcapacity c)"

text \<open>After the slot at the tail has been released or kept: the tail index and the cursors advance,
  the shared tail is raised and flushed, the depth and, for an orphan, the bias shrink.\<close>

definition step_tail :: "'s region_io_ops \<Rightarrow> bool \<Rightarrow> usize \<Rightarrow> ('s, unit) channel_action" where
  "step_tail io orphan index =
     seq (modify (\<lambda>c. c\<lparr>pc_tail := (pc_tail c + 1) mod pcapacity c, pc_tail_cursor := pc_tail_cursor c + 1\<rparr>))
     (bind (gets pc_tail_cursor) (\<lambda>tc.
      bind (on_store (fetch_max_tail io tc)) (\<lambda>_.
      seq (look (flush_release io index))
      (seq (modify (\<lambda>c. c\<lparr>pc_len := pc_len c - 1\<rparr>))
      (if orphan then modify (\<lambda>c. c\<lparr>pc_recovery_bias := pc_recovery_bias c - 1\<rparr>) else return ())))))"

definition advance_tail_impl :: "'s region_io_ops \<Rightarrow> bool \<Rightarrow> ('s, unit) channel_action" where
  "advance_tail_impl io release_slot =
     bind (gets (\<lambda>c. (at_orphan c, pc_tail c))) (\<lambda>(orphan, index).
     seq (if release_slot then on_store (prelease_pinned_no_flush io index) else return ())
     (step_tail io orphan index))"

definition padvance_tail_after_read :: "'s region_io_ops \<Rightarrow> ('s, unit) channel_action" where
  "padvance_tail_after_read io = advance_tail_impl io True"

definition advance_tail_keep_pinned :: "'s region_io_ops \<Rightarrow> ('s, unit) channel_action" where
  "advance_tail_keep_pinned io = advance_tail_impl io False"

section \<open>Dropping the oldest message\<close>

definition message_extent_of :: "frame \<Rightarrow> usize result" where
  "message_extent_of f =
     (if is_chunked f then
        and_then (chunk_info_of f) (\<lambda>info.
        if ci_index info \<noteq> 0 then ChanErr CorruptedMessage else Ok (ci_total info))
      else Ok 1)"

fun drop_slots :: "'s region_io_ops \<Rightarrow> nat \<Rightarrow> ('s, unit) channel_action" where
  "drop_slots io 0 = return ()"
| "drop_slots io (Suc n) =
     bind (gets (\<lambda>c. (at_orphan c, pc_tail c))) (\<lambda>(orphan, index).
     seq (on_store (force_release_no_flush io index))
     (seq (step_tail io orphan index) (drop_slots io n)))"

definition skip_expected :: "('s, unit) channel_action" where
  "skip_expected = modify (\<lambda>c. c\<lparr>pc_expected_recv_seq := pc_expected_recv_seq c + 1\<rparr>)"

definition drop_oldest_message_spsc :: "'s region_io_ops \<Rightarrow> ('s, unit) channel_action" where
  "drop_oldest_message_spsc io =
     bind (gets pc_len) (\<lambda>n.
     if n = 0 then return () else
     bind (reads (\<lambda>c. ppeek_committed io (pc_tail c) (pc_store c))) (\<lambda>snapshot.
     bind (lift (decode_frame (snap_data snapshot))) (\<lambda>f.
     bind (lift (message_extent_of f)) (\<lambda>k.
     seq (drop_slots io k) skip_expected))))"

text \<open>The release loop after a won drop: the shared tail was advanced by the exchange.\<close>

fun release_dropped :: "'s region_io_ops \<Rightarrow> nat \<Rightarrow> ('s, unit) channel_action" where
  "release_dropped io 0 = return ()"
| "release_dropped io (Suc n) =
     bind (gets pc_tail) (\<lambda>index.
     seq (on_store (force_release_no_flush io index))
     (seq (modify (\<lambda>c. c\<lparr>pc_tail := (pc_tail c + 1) mod pcapacity c, pc_tail_cursor := pc_tail_cursor c + 1\<rparr>))
     (seq (look (flush_release io index))
     (seq (modify (\<lambda>c. c\<lparr>pc_len := pc_len c - 1\<rparr>)) (release_dropped io n)))))"

text \<open>\<open>fuel\<close> bounds the retries, \<open>left\<close> the turns before the deadline. What the tail slot holds when
  it is peeked: nothing any more or a torn frame (\<open>None\<close>: look again), or the slots to drop.\<close>

definition peek_extent :: "'s region_io_ops \<Rightarrow> ('s, usize option) channel_action" where
  "peek_extent io =
     bind (gets (\<lambda>c. ppeek_committed io (pc_tail c) (pc_store c))) (\<lambda>peeked.
     match_result peeked (\<lambda>snapshot.
       match_result (decode_frame (snap_data snapshot)) (\<lambda>f.
         if is_chunked f then
           match_result (chunk_info_of f) (\<lambda>info.
             if ci_index info \<noteq> 0 then fail (Channel CorruptedMessage) else return (Some (ci_total info)))
           (\<lambda>_. return None)
         else return (Some 1))
       (\<lambda>_. return None))
     (\<lambda>_. return None))"

fun drop_mpsc_loop :: "'s region_io_ops \<Rightarrow> 's channel_env \<Rightarrow> nat \<Rightarrow> nat \<Rightarrow> ('s, unit) channel_action" where
  "drop_mpsc_loop io env 0 left = diverge"
| "drop_mpsc_loop io env (Suc fuel) left =
     seq (refresh_cursors io)
     (bind (gets (\<lambda>c. (pc_len c, pc_tail_cursor c))) (\<lambda>(n, tail_count).
      if n = 0 then return () else
      bind (poll_tail_committed io env) (\<lambda>committed.
      if \<not> committed then
        bind (try_reclaim_at_tail io env) (\<lambda>freed.
        if freed > 0 then drop_mpsc_loop io env fuel left else
        seq (refresh_cursors io)
        (bind (gets pc_tail_cursor) (\<lambda>tail_now.
         if tail_now = tail_count then
           (case left of 0 \<Rightarrow> fail (Channel BufferFull)
            | Suc l \<Rightarrow> seq (yield_now env l) (drop_mpsc_loop io env fuel l))
         else drop_mpsc_loop io env fuel left)))
      else
        bind (peek_extent io) (\<lambda>extent.
        case extent of
          None \<Rightarrow> drop_mpsc_loop io env fuel left
        | Some k \<Rightarrow>
            bind (lift (add_u64 tail_count k)) (\<lambda>new_tail.
            bind (on_store (compare_exchange_tail io tail_count new_tail)) (\<lambda>(_, won).
            if \<not> won then return () else
            seq (release_dropped io k) skip_expected))))))"

definition drop_oldest_message_mpsc :: "'s region_io_ops \<Rightarrow> 's channel_env \<Rightarrow> nat \<Rightarrow> ('s, unit) channel_action" where
  "drop_oldest_message_mpsc io env fuel = drop_mpsc_loop io env fuel (env_rounds env)"

definition pdrop_oldest_message :: "'s region_io_ops \<Rightarrow> 's channel_env \<Rightarrow> nat \<Rightarrow> ('s, unit) channel_action" where
  "pdrop_oldest_message io env fuel =
     bind (gets (\<lambda>c. multi_producer (pc_config c))) (\<lambda>mp.
     if mp then drop_oldest_message_mpsc io env fuel else drop_oldest_message_spsc io)"

fun pdrop_until_free :: "'s region_io_ops \<Rightarrow> 's channel_env \<Rightarrow> nat \<Rightarrow> usize \<Rightarrow> ('s, unit) channel_action" where
  "pdrop_until_free io env 0 needed = diverge"
| "pdrop_until_free io env (Suc fuel) needed =
     bind (gets guard_room) (\<lambda>room.
     if room < needed then seq (pdrop_oldest_message io env fuel) (pdrop_until_free io env fuel needed)
     else return ())"

section \<open>Waiting for space\<close>

text \<open>\<open>wait_for_space_until\<close>; the result is the turns left before the deadline.\<close>

fun wait_for_space_until :: "'s region_io_ops \<Rightarrow> 's channel_env \<Rightarrow> usize \<Rightarrow> nat \<Rightarrow> ('s, nat) channel_action" where
  "wait_for_space_until io env needed 0 = fail (Channel BufferFull)"
| "wait_for_space_until io env needed (Suc left) =
     seq (refresh_cursors io)
     (bind (gets guard_room) (\<lambda>room.
      if room \<ge> needed then return left
      else seq (yield_now env left) (wait_for_space_until io env needed left)))"

definition pwait_for_space :: "'s region_io_ops \<Rightarrow> 's channel_env \<Rightarrow> usize \<Rightarrow> ('s, unit) channel_action" where
  "pwait_for_space io env needed =
     bind (gets (\<lambda>c. (guard_room c, timeout (pc_config c)))) (\<lambda>(room, limit).
     if room \<ge> needed then return () else
     case limit of
       None \<Rightarrow> fail (Channel BufferFull)
     | Some _ \<Rightarrow> bind (wait_for_space_until io env needed (env_rounds env)) (\<lambda>_. return ()))"

definition pprepare_send_slots ::
  "'s region_io_ops \<Rightarrow> 's channel_env \<Rightarrow> nat \<Rightarrow> usize \<Rightarrow> ('s, bool) channel_action" where
  "pprepare_send_slots io env fuel needed =
     bind (gets (\<lambda>c. (pc_config c, guard_room c))) (\<lambda>(cfg, room).
     if needed > capacity cfg then fail (Channel (MessageTooLarge needed (capacity cfg))) else
     if room \<ge> needed then return True else
     case backpressure cfg of
       Raise \<Rightarrow> fail (Channel BufferFull)
     | Block \<Rightarrow> seq (pwait_for_space io env needed) (return True)
     | DropNewest \<Rightarrow> return False
     | DropOldest \<Rightarrow> seq (pdrop_until_free io env fuel needed) (return True))"

section \<open>Sending, one producer\<close>

text \<open>The sequence number a send takes, and the frames of its message.\<close>

definition take_sequence :: "('s, u64) channel_action" where
  "take_sequence =
     bind (gets pc_next_seq) (\<lambda>sq.
     seq (modify (\<lambda>c. c\<lparr>pc_next_seq := sq + 1\<rparr>)) (return sq))"

definition write_frame_at_head ::
  "'s region_io_ops \<Rightarrow> u64 \<Rightarrow> writer_identity \<Rightarrow> bytes \<Rightarrow> ('s, unit) channel_action" where
  "write_frame_at_head io sq st f =
     bind (gets pc_head) (\<lambda>index.
     seq (on_store (pwrite_committed_no_flush io index sq f (Some st)))
     (modify (\<lambda>c. c\<lparr>pc_head := (index + 1) mod pcapacity c, pc_len := pc_len c + 1\<rparr>)))"

text \<open>The head cursor is published after the whole batch is committed.\<close>

definition publish_head :: "'s region_io_ops \<Rightarrow> bytes list \<Rightarrow> usize \<Rightarrow> ('s, unit) channel_action" where
  "publish_head io frames first_index =
     bind (reads (\<lambda>c. add_u64 (pc_head_cursor c) (length frames))) (\<lambda>hc.
     seq (modify (\<lambda>c. c\<lparr>pc_head_cursor := hc\<rparr>))
     (seq (on_store (store_head io hc))
     (look (publish_batch io frames first_index))))"

definition send_spsc :: "'s region_io_ops \<Rightarrow> 's channel_env \<Rightarrow> nat \<Rightarrow> bytes \<Rightarrow> send_plan \<Rightarrow> ('s, unit) channel_action" where
  "send_spsc io env fuel m plan =
     bind (pprepare_send_slots io env fuel (needed_slots plan)) (\<lambda>admitted.
     if \<not> admitted then return () else
     bind take_sequence (\<lambda>sq.
     bind (reads (\<lambda>c. encode_message_frames (env_crc env) (pc_config c) plan sq m)) (\<lambda>frames.
     bind (gets (\<lambda>c. (stamp env (needed_slots plan) c, pc_head c))) (\<lambda>(st, first_index).
     seq (for_each frames (write_frame_at_head io sq st))
     (publish_head io frames first_index)))))"

section \<open>Sending, several producers\<close>

text \<open>\<open>match m { Err(BufferFull) => h, r => r }\<close>, with the state \<open>m\<close> leaves.\<close>

definition when_full :: "('s, 'a) channel_action \<Rightarrow> ('s, 'a) channel_action \<Rightarrow> ('s, 'a) channel_action" where
  "when_full m h c = (case m c of (Err (Channel BufferFull), d) \<Rightarrow> h d | r \<Rightarrow> r)"

fun write_reserved_slot ::
  "'s region_io_ops \<Rightarrow> 's channel_env \<Rightarrow> usize \<Rightarrow> u64 \<Rightarrow> bytes \<Rightarrow> writer_identity \<Rightarrow> nat \<Rightarrow> ('s, unit) channel_action" where
  "write_reserved_slot io env index sq f st 0 =
     on_store (pwrite_committed_no_flush io index sq f (Some st))"
| "write_reserved_slot io env index sq f st (Suc left) =
     when_full (on_store (pwrite_committed_no_flush io index sq f (Some st)))
       (seq (yield_now env left) (write_reserved_slot io env index sq f st left))"

fun write_reserved ::
  "'s region_io_ops \<Rightarrow> 's channel_env \<Rightarrow> u64 \<Rightarrow> writer_identity \<Rightarrow> u64 \<Rightarrow> nat \<Rightarrow> bytes list \<Rightarrow> ('s, unit) channel_action" where
  "write_reserved io env sq st start k [] = return ()"
| "write_reserved io env sq st start k (f # fs) =
     bind (lift (add_u64 start k)) (\<lambda>cursor.
     bind (gets (\<lambda>c. cursor_slot (pcapacity c) cursor)) (\<lambda>index.
     seq (write_reserved_slot io env index sq f st (env_rounds env))
     (write_reserved io env sq st start (k + 1) fs)))"

fun reserve_loop ::
  "'s region_io_ops \<Rightarrow> 's channel_env \<Rightarrow> usize \<Rightarrow> nat \<Rightarrow> nat \<Rightarrow> ('s, u64 option) channel_action" where
  "reserve_loop io env needed 0 left = diverge"
| "reserve_loop io env needed (Suc fuel) left =
     seq (refresh_cursors io)
     (bind (gets (\<lambda>c. (guard_room c, pc_head_cursor c, pc_config c))) (\<lambda>(room, head_c, cfg).
      if room \<ge> needed then
        bind (lift (add_u64 head_c needed)) (\<lambda>new_head.
        bind (on_store (compare_exchange_head io head_c new_head)) (\<lambda>(actual, ok).
        if ok then return (Some actual) else reserve_loop io env needed fuel left))
      else case backpressure cfg of
        Raise \<Rightarrow> fail (Channel BufferFull)
      | Block \<Rightarrow>
          (case timeout cfg of
             None \<Rightarrow> fail (Channel BufferFull)
           | Some _ \<Rightarrow> bind (wait_for_space_until io env needed left) (reserve_loop io env needed fuel))
      | DropNewest \<Rightarrow> return None
      | DropOldest \<Rightarrow> seq (pdrop_until_free io env fuel needed) (reserve_loop io env needed fuel left)))"

definition reserve_slots :: "'s region_io_ops \<Rightarrow> 's channel_env \<Rightarrow> nat \<Rightarrow> usize \<Rightarrow> ('s, u64 option) channel_action" where
  "reserve_slots io env fuel needed =
     bind (gets pcapacity) (\<lambda>cap.
     if needed > cap then fail (Channel (MessageTooLarge needed cap))
     else reserve_loop io env needed fuel (env_rounds env))"

definition send_mpsc :: "'s region_io_ops \<Rightarrow> 's channel_env \<Rightarrow> nat \<Rightarrow> bytes \<Rightarrow> send_plan \<Rightarrow> ('s, unit) channel_action" where
  "send_mpsc io env fuel m plan =
     bind (reserve_slots io env fuel (needed_slots plan)) (\<lambda>reserved.
     case reserved of
       None \<Rightarrow> return ()
     | Some start \<Rightarrow>
         seq (look (flush_header io))
         (bind take_sequence (\<lambda>sq.
          bind (reads (\<lambda>c. encode_message_frames (env_crc env) (pc_config c) plan sq m)) (\<lambda>frames.
          bind (gets (\<lambda>c. (stamp env (needed_slots plan) c, pcapacity c))) (\<lambda>(st, cap).
          let first_index = cursor_slot cap start in
          seq (write_reserved io env sq st start 0 frames)
          (seq (look (publish_batch io frames first_index))
          (modify (\<lambda>c. c\<lparr>pc_head := (first_index + length frames) mod cap,
             pc_len := min (pc_len c + length frames) cap\<rparr>))))))))"

definition psend :: "'s region_io_ops \<Rightarrow> 's channel_env \<Rightarrow> nat \<Rightarrow> bytes \<Rightarrow> ('s, unit) channel_action" where
  "psend io env fuel m =
     bind (gets pc_closed) (\<lambda>is_closed.
     if is_closed then fail (Channel Closed) else
     seq (refresh_cursors io)
     (bind (gets pc_config) (\<lambda>cfg.
      bind (lift (send_plan_of cfg (length m))) (\<lambda>plan.
      if multi_producer cfg then send_mpsc io env fuel m plan else send_spsc io env fuel m plan))))"

section \<open>Receiving\<close>

definition ensure_tail_readable :: "'s region_io_ops \<Rightarrow> 's channel_env \<Rightarrow> ('s, bool) channel_action" where
  "ensure_tail_readable io env =
     seq (refresh_cursors io)
     (bind (gets (\<lambda>c. pc_closed c \<and> pc_len c = 0)) (\<lambda>drained.
      if drained then fail (Channel Closed) else
      bind (gets pc_resync_expected) (\<lambda>resync.
      seq (modify (\<lambda>c. c\<lparr>pc_resync_expected := False\<rparr>))
      (bind (poll_tail_committed io env) (\<lambda>committed.
       if committed then return resync else
       bind (try_reclaim_at_tail io env) (\<lambda>freed.
       if freed = 0 then
         seq (modify (\<lambda>c. c\<lparr>pc_resync_expected := resync\<rparr>)) (fail (Channel BufferEmpty))
       else bind (tail_committed io) (\<lambda>now.
         if now then return resync else fail (Channel BufferEmpty))))))))"

definition pread_tail :: "'s region_io_ops \<Rightarrow> ('s, slot_snapshot) channel_action" where
  "pread_tail io = bind (gets pc_tail) (\<lambda>tail. on_store (pread_committed io tail))"

definition prelease_tail :: "'s region_io_ops \<Rightarrow> ('s, unit) channel_action" where
  "prelease_tail io = bind (gets pc_tail) (\<lambda>tail. on_store (prelease_pinned io tail))"

fun precv_chunks ::
  "'s region_io_ops \<Rightarrow> 's channel_env \<Rightarrow> u64 \<Rightarrow> chunk_info \<Rightarrow> usize list \<Rightarrow> bytes \<Rightarrow> ('s, bytes) channel_action" where
  "precv_chunks io env sq first [] acc = return acc"
| "precv_chunks io env sq first (index # rest) acc =
     bind (poll_tail_committed io env) (\<lambda>committed.
     if \<not> committed then fail (Channel BufferEmpty) else
     bind (pread_tail io) (\<lambda>snapshot.
     if snap_seq snapshot \<noteq> sq then
       seq (prelease_tail io) (fail (Channel (SequenceMismatch sq (snap_seq snapshot)))) else
     match_result (decode_frame (snap_data snapshot)) (\<lambda>f.
       match_result (validate_chunk (env_crc env) f sq (first\<lparr>ci_index := index\<rparr>)) (\<lambda>_.
         seq (padvance_tail_after_read io) (precv_chunks io env sq first rest (acc @ payload f)))
       (\<lambda>e. seq (prelease_tail io) (fail e)))
     (\<lambda>e. seq (prelease_tail io) (fail e))))"

definition precv_chunked_message ::
  "'s region_io_ops \<Rightarrow> 's channel_env \<Rightarrow> u64 \<Rightarrow> frame \<Rightarrow> ('s, bytes) channel_action" where
  "precv_chunked_message io env sq first_frame =
     match_result (chunk_info_of first_frame) (\<lambda>first.
       if ci_index first \<noteq> 0 then seq (prelease_tail io) (fail (Channel CorruptedMessage)) else
       if ci_message_len first > isize_max then panic else
       seq (padvance_tail_after_read io)
       (bind (precv_chunks io env sq first [1..<ci_total first] (payload first_frame)) (\<lambda>pl.
        if length pl \<noteq> ci_message_len first then fail (Channel CorruptedMessage) else return pl)))
     (\<lambda>e. seq (prelease_tail io) (fail e))"

text \<open>The check of the slot's sequence number: adopted after a resync, otherwise the next one when
  there is one producer.\<close>

definition accept_sequence :: "bool \<Rightarrow> u64 \<Rightarrow> ('s, unit) channel_action" where
  "accept_sequence resync sq =
     (if resync then modify (\<lambda>c. c\<lparr>pc_expected_recv_seq := sq\<rparr>)
      else bind (gets (\<lambda>c. (multi_producer (pc_config c), pc_expected_recv_seq c))) (\<lambda>(mp, expected).
        if \<not> mp \<and> sq \<noteq> expected then fail (Channel (SequenceMismatch expected sq)) else return ()))"

definition skip_damaged :: "'s region_io_ops \<Rightarrow> dsline_error \<Rightarrow> ('s, received_message) channel_action" where
  "skip_damaged io e = seq (padvance_tail_after_read io) (seq skip_expected (fail e))"

definition precv_with_seq :: "'s region_io_ops \<Rightarrow> 's channel_env \<Rightarrow> ('s, received_message) channel_action" where
  "precv_with_seq io env =
     bind (ensure_tail_readable io env) (\<lambda>resync.
     bind (pread_tail io) (\<lambda>snapshot.
     seq (accept_sequence resync (snap_seq snapshot))
     (match_result (decode_frame (snap_data snapshot)) (\<lambda>f.
        match_result (validate_bytes_frame (env_crc env) f) (\<lambda>_.
          if snap_seq snapshot \<noteq> hdr_seq (header f) then
            skip_damaged io (Channel (SequenceMismatch (snap_seq snapshot) (hdr_seq (header f))))
          else
          bind (if is_chunked f then precv_chunked_message io env (snap_seq snapshot) f
                else seq (padvance_tail_after_read io) (return (payload f))) (\<lambda>pl.
          seq skip_expected
          (seq (modify (\<lambda>c. c\<lparr>pc_last_received_seq := Some (hdr_seq (header f))\<rparr>))
          (return \<lparr>rm_seq = hdr_seq (header f), rm_payload = pl\<rparr>))))
        (skip_damaged io))
      (skip_damaged io))))"

definition precv :: "'s region_io_ops \<Rightarrow> 's channel_env \<Rightarrow> ('s, bytes) channel_action" where
  "precv io env = bind (precv_with_seq io env) (\<lambda>r. return (rm_payload r))"

definition try_recv :: "'s region_io_ops \<Rightarrow> 's channel_env \<Rightarrow> ('s, bytes option) channel_action" where
  "try_recv io env =
     seq (refresh_cursors io)
     (bind (gets (\<lambda>c. pc_closed c \<and> pc_len c = 0)) (\<lambda>drained.
      if drained then fail (Channel Closed) else
      bind (tail_committed io) (\<lambda>committed.
      bind (if committed then return True
            else bind (try_reclaim_at_tail io env) (\<lambda>freed.
              if freed = 0 then return False else tail_committed io)) (\<lambda>readable.
      if \<not> readable then return None
      else bind (precv_with_seq io env) (\<lambda>r. return (Some (rm_payload r)))))))"

end
