(* ===== verification/Persistent_Views.thy ===== *)
theory Persistent_Views
  imports Persistent_Transfer
begin

text \<open>
  The zero-copy calls of \<open>PersistentShmChannel\<close> (\<open>crates/dsline-shm/src/lib.rs\<close>), \<open>alloc\<close>,
  \<open>publish\<close>, \<open>abort\<close> and \<open>recv_view\<close>, and the accessors of a handle.
\<close>

section \<open>The producer: alloc, publish, abort\<close>

definition payload_area :: "'s region_io_ops \<Rightarrow> usize \<Rightarrow> 's \<Rightarrow> usize" where
  "payload_area io index s = region_slot_offset index (rio_slot_size io s) + ZERO_COPY_PAYLOAD_OFFSET"

definition alloc :: "'s region_io_ops \<Rightarrow> 's channel_env \<Rightarrow> nat \<Rightarrow> usize \<Rightarrow> ('s, write_lease) channel_action" where
  "alloc io env fuel sz =
     bind (gets (\<lambda>c. (pc_closed c, pc_config c))) (\<lambda>(is_closed, cfg).
     if is_closed then fail (Channel Closed)
     else if multi_producer cfg then
       fail (Channel (InvalidConfig ''zero-copy alloc requires single-producer mode''))
     else if backpressure cfg = DropOldest then
       fail (Channel (InvalidConfig ''zero-copy is incompatible with DropOldest: the drop may free a pinned slot''))
     else if sz > slot_size cfg then fail (Channel (MessageTooLarge sz (slot_size cfg)))
     else
     bind (lift (ok_or (checked_add FRAME_HEADER_LEN sz) (Channel (InvalidConfig ''size overflow'')))) (\<lambda>frame_len.
     seq (refresh_cursors io)
     (bind (pprepare_send_slots io env fuel 1) (\<lambda>admitted.
      if \<not> admitted then fail (Channel BufferFull) else
      bind (gets pc_head) (\<lambda>index.
      bind (look (header_state io index)) (\<lambda>st.
      if st \<noteq> Free then fail (Channel BufferFull) else
      bind take_sequence (\<lambda>sq.
      bind (gets (stamp env 1)) (\<lambda>identity.
      seq (on_store (write_writing_header io index sq frame_len identity))
      (seq (modify (\<lambda>c. c\<lparr>pc_head := (index + 1) mod pcapacity c, pc_len := pc_len c + 1\<rparr>))
      (bind (gets (\<lambda>c. payload_area io index (pc_store c))) (\<lambda>off.
       return \<lparr>wl_index = index, wl_seq = sq, wl_payload_offset = off, wl_payload_len = sz,
         wl_sealed = False\<rparr>)))))))))))"

text \<open>\<open>publish\<close> seals the lease it is given (\<open>&mut\<close>): the pair of the lease and the handle.\<close>

definition on_handle :: "('s, 'a) channel_action \<Rightarrow> (write_lease \<times> 's persistent_channel, dsline_error, 'a) action" where
  "on_handle = zoom snd (\<lambda>c p. (fst p, c))"

definition seal :: "(write_lease \<times> 's persistent_channel, dsline_error, unit) action" where
  "seal = modify (\<lambda>(l, c). (l\<lparr>wl_sealed := True\<rparr>, c))"

definition publish ::
  "'s region_io_ops \<Rightarrow> 's channel_env \<Rightarrow> (write_lease \<times> 's persistent_channel, dsline_error, u64) action" where
  "publish io env =
     bind (gets (\<lambda>(l, c). (l, pc_closed c))) (\<lambda>(l, is_closed).
     if is_closed then fail (Channel Closed)
     else if wl_sealed l then fail (Channel (InvalidConfig ''buffer is already published''))
     else
     bind (on_handle (look (header_state io (wl_index l)))) (\<lambda>st.
     if st \<noteq> Writing then fail (Channel (InvalidConfig ''buffer slot is not reserved'')) else
     bind (on_handle (look (rio_slice io (wl_payload_offset l) (wl_payload_len l)))) (\<lambda>pl.
     bind (lift (encode_frame_header Bytes 0 (wl_seq l) 0 0 (env_crc env pl) (wl_payload_len l) [])) (\<lambda>hdr.
     seq (on_handle (on_store (rio_write_at io (wl_payload_offset l - FRAME_HEADER_LEN) hdr)))
     (seq (on_handle (on_store (write_header io (wl_index l) Committed (wl_seq l) (FRAME_HEADER_LEN + wl_payload_len l))))
     (seq seal
     (seq (on_handle (modify (\<lambda>c. c\<lparr>pc_head_cursor := pc_head_cursor c + 1\<rparr>)))
     (bind (gets (pc_head_cursor \<circ> snd)) (\<lambda>hc.
      seq (on_handle (on_store (store_head io hc)))
      (seq (on_handle (look (\<lambda>s. rio_flush_range io (region_slot_offset (wl_index l) (rio_slot_size io s))
             (PERSISTENT_SLOT_HEADER_LEN + FRAME_HEADER_LEN + wl_payload_len l) s)))
      (return (wl_seq l))))))))))))"

definition abort :: "'s region_io_ops \<Rightarrow> write_lease \<Rightarrow> ('s, unit) channel_action" where
  "abort io l =
     (if wl_sealed l then fail (Channel (InvalidConfig ''cannot abort a published buffer''))
      else bind (gets (\<lambda>c. (pc_head c + pcapacity c - 1) mod pcapacity c)) (\<lambda>last_reserved.
       if wl_index l \<noteq> last_reserved then
         fail (Channel (InvalidConfig ''only the newest unpublished buffer can be aborted''))
       else
       seq (on_store (force_release_no_flush io (wl_index l)))
       (seq (look (\<lambda>s. rio_flush_range io (region_slot_offset (wl_index l) (rio_slot_size io s))
              PERSISTENT_SLOT_HEADER_LEN s))
       (modify (\<lambda>c. c\<lparr>pc_head := wl_index l, pc_len := pc_len c - 1, pc_next_seq := wl_seq l\<rparr>)))))"

section \<open>The consumer: recv_view\<close>

text \<open>The checks of the message at the tail before it is pinned; the result is the length and the
  sequence number, with the offset of the payload.\<close>

definition view_frame_offset :: "'s region_io_ops \<Rightarrow> usize \<Rightarrow> 's \<Rightarrow> usize" where
  "view_frame_offset io index s = region_slot_offset index (rio_slot_size io s) + PERSISTENT_SLOT_HEADER_LEN"

definition check_view_frame :: "frame_header \<Rightarrow> u64 \<Rightarrow> unit result" where
  "check_view_frame hdr sq =
     (if unat (hdr_header_len hdr) \<noteq> FRAME_HEADER_LEN \<or> hdr_flags hdr \<noteq> 0 \<or> hdr_kind hdr \<noteq> Bytes then
        ChanErr (InvalidConfig ''zero-copy views require single-slot unchunked messages; use recv()'')
      else if hdr_seq hdr \<noteq> sq then ChanErr (SequenceMismatch sq (hdr_seq hdr))
      else Ok ())"

definition recv_view :: "'s region_io_ops \<Rightarrow> 's channel_env \<Rightarrow> ('s, shm_recv_view) channel_action" where
  "recv_view io env =
     bind (gets pc_config) (\<lambda>cfg.
     if backpressure cfg = DropOldest then
       fail (Channel (InvalidConfig
         ''zero-copy views are incompatible with DropOldest: the drop may free a pinned slot''))
     else
     bind (ensure_tail_readable io env) (\<lambda>resync.
     bind (gets pc_tail) (\<lambda>index.
     bind (tail_header io) (\<lambda>(st, sq, frame_len).
     if st \<noteq> Committed then panic else
     if frame_len < FRAME_HEADER_LEN then fail (Channel CorruptedMessage) else
     bind (gets (\<lambda>c. view_frame_offset io index (pc_store c))) (\<lambda>off.
     bind (look (rio_read_at io off FRAME_HEADER_LEN)) (\<lambda>header_bytes.
     bind (lift (decode_frame_header header_bytes)) (\<lambda>(hdr, _).
     seq (lift (check_view_frame hdr sq))
     (seq (accept_sequence resync sq)
     (let payload_len = unat (hdr_payload_len hdr) in
      if payload_len \<noteq> frame_len - FRAME_HEADER_LEN then fail (Channel CorruptedMessage) else
      bind (look (rio_slice io (off + FRAME_HEADER_LEN) payload_len)) (\<lambda>pl.
      if env_crc env pl \<noteq> hdr_checksum hdr then fail (Channel CorruptedMessage) else
      bind (gets (\<lambda>c. (pc_tail_cursor c, stamp env 1 c))) (\<lambda>(cursor_value, identity).
      seq (on_store (write_pinned_header io index sq frame_len identity))
      (bind (on_store (floor_min io cursor_value)) (\<lambda>_.
       seq (advance_tail_keep_pinned io)
       (seq skip_expected
       (seq (modify (\<lambda>c. c\<lparr>pc_last_received_seq := Some sq\<rparr>))
       (return \<lparr>rv_index = index, rv_seq = sq, rv_payload_offset = off + FRAME_HEADER_LEN,
          rv_payload_len = payload_len, rv_cursor_value = cursor_value, rv_released = False\<rparr>))))))))))))))))"

section \<open>Accessors\<close>

fun count_pinned :: "'s region_io_ops \<Rightarrow> usize list \<Rightarrow> nat \<Rightarrow> 's \<Rightarrow> usize result" where
  "count_pinned io [] n s = Ok n"
| "count_pinned io (i # is) n s =
     and_then (header_state io i s) (\<lambda>st. count_pinned io is (if st = Pinned then n + 1 else n) s)"

definition pinned_slots :: "'s region_io_ops \<Rightarrow> 's persistent_channel \<Rightarrow> usize result" where
  "pinned_slots io c = count_pinned io [0..<pcapacity c] 0 (pc_store c)"

definition pclose :: "'s persistent_channel \<Rightarrow> 's persistent_channel" where
  "pclose c = c\<lparr>pc_closed := True\<rparr>"

definition prefresh :: "'s region_io_ops \<Rightarrow> ('s, unit) channel_action" where
  "prefresh io = refresh_cursors io"

definition pis_closed :: "'s persistent_channel \<Rightarrow> bool" where "pis_closed = pc_closed"
definition plen :: "'s persistent_channel \<Rightarrow> usize" where "plen = pc_len"
definition pis_empty :: "'s persistent_channel \<Rightarrow> bool" where "pis_empty c = (pc_len c = 0)"
definition ppayload_slot_size :: "'s persistent_channel \<Rightarrow> usize" where "ppayload_slot_size c = slot_size (pc_config c)"
definition next_sequence :: "'s persistent_channel \<Rightarrow> u64" where "next_sequence = pc_next_seq"
definition expected_recv_sequence :: "'s persistent_channel \<Rightarrow> u64" where "expected_recv_sequence = pc_expected_recv_seq"
definition last_received_sequence :: "'s persistent_channel \<Rightarrow> u64 option" where "last_received_sequence = pc_last_received_seq"
definition pmulti_producer :: "'s persistent_channel \<Rightarrow> bool" where "pmulti_producer c = multi_producer (pc_config c)"
definition reclaimed_slots :: "'s persistent_channel \<Rightarrow> u64" where "reclaimed_slots = pc_reclaimed_slots"
definition pmessage_size_limits :: "'s persistent_channel \<Rightarrow> message_size_limits" where
  "pmessage_size_limits c = message_size_limits (pc_config c)"

text \<open>\<open>debug_leave_zombie\<close>, the aid of the test suites: a WRITING header of another writer.\<close>

definition debug_leave_zombie ::
  "'s region_io_ops \<Rightarrow> 's channel_env \<Rightarrow> u64 \<Rightarrow> u32 \<Rightarrow> u64 \<Rightarrow> u32 \<Rightarrow> ('s, unit) channel_action" where
  "debug_leave_zombie io env sq p start reserved =
     seq (refresh_cursors io)
     (bind (gets pc_head) (\<lambda>index.
      seq (on_store (write_writing_header io index sq 1
        \<lparr>wi_pid = p, wi_start_time = start, wi_epoch = 0, wi_timestamp_ns = env_now env, wi_reserved_slots = reserved\<rparr>))
      (modify (\<lambda>c. c\<lparr>pc_recovery_bias := pc_recovery_bias c + 1, pc_len := min (pc_len c + 1) (pcapacity c)\<rparr>))))"

end
