(* ===== verification/Persistent_Ring.thy ===== *)
theory Persistent_Ring
  imports Persistent_Region_Properties Fixed_Region
begin

text \<open>
  The persistent region as a ring: the three words of its header and what its slots hold, over any
  storage that keeps the \<open>region_io\<close> contract. Every operation the channel uses is an update of
  this abstract ring; the channel theories reason with these updates only.
\<close>

section \<open>The abstract ring\<close>

record ring_words =
  rg_head :: u64
  rg_tail :: u64
  rg_floor :: u64

definition word_at :: "nat \<Rightarrow> bytes \<Rightarrow> u64" where
  "word_at off m = from_le64 (bytes_at off 8 m)"

definition words_of :: "bytes \<Rightarrow> ring_words" where
  "words_of m = \<lparr>rg_head = word_at CURSOR_HEAD_OFFSET m, rg_tail = word_at CURSOR_TAIL_OFFSET m,
     rg_floor = word_at PIN_FLOOR_OFFSET m\<rparr>"

text \<open>What the raw bytes of a slot show; of a free slot only that it is free.\<close>

definition raw_view :: "bytes \<Rightarrow> slot_view" where
  "raw_view raw =
     (let h = slot_header raw in
      if sh_state h = Free then free_view
      else (\<lparr>state = sh_state h, slot_seq = sh_seq h, payload_len = sh_payload_len h\<rparr>, stored_frame raw))"

definition slot_views :: "nat \<Rightarrow> nat \<Rightarrow> bytes \<Rightarrow> slot_view list" where
  "slot_views cap sz m = map (\<lambda>i. raw_view (slot_raw sz i m)) [0..<cap]"

lemma length_slot_views [simp]: "length (slot_views cap sz m) = cap"
  by (simp add: slot_views_def)

lemma slot_views_nth [simp]: "i < cap \<Longrightarrow> slot_views cap sz m ! i = raw_view (slot_raw sz i m)"
  by (simp add: slot_views_def)

lemma raw_view_state [simp]: "state (fst (raw_view raw)) = sh_state (slot_header raw)"
  by (simp add: raw_view_def Let_def)

lemma raw_view_fields:
  "sh_state (slot_header raw) \<noteq> Free \<Longrightarrow> slot_seq (fst (raw_view raw)) = sh_seq (slot_header raw) \<and>
     payload_len (fst (raw_view raw)) = sh_payload_len (slot_header raw)"
  by (simp add: raw_view_def Let_def)

lemma raw_view_free_iff: "raw_view raw = free_view \<longleftrightarrow> sh_state (slot_header raw) = Free"
  by (auto simp: raw_view_def Let_def free_view_def FixedSlot_default_def)

lemma raw_view_encode:
  "length f < 2 ^ 32 \<Longrightarrow> raw_view (encode_header Committed sq (length f) ident pub @ f @ rest) = committed_view sq f"
  "length f < 2 ^ 32 \<Longrightarrow> raw_view (encode_header Pinned sq (length f) ident pub @ f @ rest) = pinned_view sq f"
  "raw_view (encode_header Free sq n ident pub @ rest) = free_view"
  by (simp_all add: raw_view_def Let_def committed_view_def pinned_view_def)

lemma raw_view_committed:
  assumes "raw_view raw = (\<lparr>state = st, slot_seq = sq, payload_len = length f\<rparr>, f)" "st \<noteq> Free"
  shows "sh_state (slot_header raw) = st" "sh_seq (slot_header raw) = sq"
    "sh_payload_len (slot_header raw) = length f" "stored_frame raw = f"
    "bytes_at PERSISTENT_SLOT_HEADER_LEN (length f) raw = f"
  using assms by (auto simp: raw_view_def Let_def free_view_def FixedSlot_default_def stored_frame_def split: if_splits)

text \<open>A frame a slot shows fits 32 bits and the slot.\<close>

lemma raw_view_bounds:
  assumes "raw_view raw = (\<lparr>state = st, slot_seq = sq, payload_len = length f\<rparr>, f)" "st \<noteq> Free"
  shows "length f < 2 ^ 32" "length f \<le> length raw - PERSISTENT_SLOT_HEADER_LEN"
    "raw = take PERSISTENT_SLOT_HEADER_LEN raw @ f @ drop (PERSISTENT_SLOT_HEADER_LEN + length f) raw"
proof -
  note v = raw_view_committed [OF assms]
  show "length f < 2 ^ 32"
    using v(3) unsigned_less [of "from_le32 (bytes_at ID_PAYLOAD_LEN_OFFSET 4 (take PERSISTENT_SLOT_HEADER_LEN raw))", where ?'a = nat]
    by (simp add: slot_header_def parse_header_full_def Let_def)
  have "length f = length (bytes_at PERSISTENT_SLOT_HEADER_LEN (length f) raw)" using v(5) by simp
  then show "length f \<le> length raw - PERSISTENT_SLOT_HEADER_LEN" by simp
  show "raw = take PERSISTENT_SLOT_HEADER_LEN raw @ f @ drop (PERSISTENT_SLOT_HEADER_LEN + length f) raw"
    using v(5) by (metis append_take_drop_id bytes_at_def drop_drop add.commute)
qed

section \<open>Updates\<close>

lemma words_of_put_slot:
  assumes "length m = REGION_HEADER_LEN + cap * sz" "i < cap" "length raw = sz"
  shows "words_of (put_slot sz i raw m) = words_of m"
  using header_put_slot [OF _ assms]
  by (simp add: words_of_def word_at_def layout_consts del: bytes_at_0)

lemma slot_views_put_slot:
  assumes "length m = REGION_HEADER_LEN + cap * sz" "i < cap" "length raw = sz"
  shows "slot_views cap sz (put_slot sz i raw m) = (slot_views cap sz m)[i := raw_view raw]"
  using slot_raw_put_slot [OF assms(1,2) _ assms(3)]
  by (intro nth_equalityI) (auto simp: nth_list_update)

text \<open>Words in the region header.\<close>

definition header_word :: "nat \<Rightarrow> bool" where
  "header_word off \<longleftrightarrow> off \<in> {CURSOR_HEAD_OFFSET, CURSOR_TAIL_OFFSET, PIN_FLOOR_OFFSET}"

lemma slot_raw_put_word:
  assumes "length m = REGION_HEADER_LEN + cap * sz" "i < cap" "header_word off"
  shows "slot_raw sz i (put_at off (to_le64 v) m) = slot_raw sz i m"
  using assms slot_fits [OF assms(2,1)]
  by (auto simp: slot_raw_def header_word_def layout_consts intro!: bytes_at_put_at_disjoint)

definition set_word :: "nat \<Rightarrow> u64 \<Rightarrow> ring_words \<Rightarrow> ring_words" where
  "set_word off v w =
     (if off = CURSOR_HEAD_OFFSET then w\<lparr>rg_head := v\<rparr>
      else if off = CURSOR_TAIL_OFFSET then w\<lparr>rg_tail := v\<rparr>
      else w\<lparr>rg_floor := v\<rparr>)"

definition get_word :: "nat \<Rightarrow> ring_words \<Rightarrow> u64" where
  "get_word off w =
     (if off = CURSOR_HEAD_OFFSET then rg_head w else if off = CURSOR_TAIL_OFFSET then rg_tail w else rg_floor w)"

lemma header_word_simps [simp]:
  "header_word CURSOR_HEAD_OFFSET" "header_word CURSOR_TAIL_OFFSET" "header_word PIN_FLOOR_OFFSET"
  by (simp_all add: header_word_def)

lemma word_ops_simps [simp]:
  "set_word CURSOR_HEAD_OFFSET v w = w\<lparr>rg_head := v\<rparr>"
  "set_word CURSOR_TAIL_OFFSET v w = w\<lparr>rg_tail := v\<rparr>"
  "set_word PIN_FLOOR_OFFSET v w = w\<lparr>rg_floor := v\<rparr>"
  "get_word CURSOR_HEAD_OFFSET w = rg_head w"
  "get_word CURSOR_TAIL_OFFSET w = rg_tail w"
  "get_word PIN_FLOOR_OFFSET w = rg_floor w"
  by (simp_all add: set_word_def get_word_def layout_consts)

lemma words_of_put_word:
  assumes "REGION_HEADER_LEN \<le> length m" "header_word off"
  shows "words_of (put_at off (to_le64 v) m) = set_word off v (words_of m)"
  using assms
  by (auto simp: words_of_def word_at_def header_word_def set_word_def layout_consts bytes_at_put_at_disjoint
      simp del: bytes_at_0)

lemma words_of_get:
  assumes "header_word off"
  shows "from_le64 (bytes_at off 8 m) = get_word off (words_of m)"
  using assms by (auto simp: words_of_def word_at_def header_word_def get_word_def layout_consts)

text \<open>\<open>at_ring\<close>: the store is a region whose header words and slots are these.\<close>

definition at_ring ::
  "'s region_io_ops \<Rightarrow> ('s \<Rightarrow> bool) \<Rightarrow> ('s \<Rightarrow> bytes) \<Rightarrow> nat \<Rightarrow> nat \<Rightarrow> ring_words \<Rightarrow> slot_view list \<Rightarrow> 's \<Rightarrow> bool" where
  "at_ring io ok mem cap sz w vs s \<longleftrightarrow>
     region_layout io ok mem cap sz s \<and> words_of (mem s) = w \<and> slot_views cap sz (mem s) = vs"

lemma at_ring_length: "at_ring io ok mem cap sz w vs s \<Longrightarrow> length vs = cap"
  by (auto simp: at_ring_def)

context region_io
begin

abbreviation ring :: "nat \<Rightarrow> nat \<Rightarrow> ring_words \<Rightarrow> slot_view list \<Rightarrow> 's \<Rightarrow> bool" where
  "ring \<equiv> at_ring io inv mem"

lemma ring_layout: "ring cap sz w vs s \<Longrightarrow> layout cap sz s"
  by (simp add: at_ring_def)

lemma ring_mem_length: "ring cap sz w vs s \<Longrightarrow> length (mem s) = REGION_HEADER_LEN + cap * sz"
  by (simp add: at_ring_def region_layout_def)

lemma ring_raw: "ring cap sz w vs s \<Longrightarrow> i < cap \<Longrightarrow> raw_view (slot_raw sz i (mem s)) = vs ! i"
  by (auto simp: at_ring_def)

lemma ring_slot_set:
  assumes "ring cap sz w vs s" "i < cap" "slot_set cap sz i raw s t"
  shows "ring cap sz w (vs[i := raw_view raw]) t"
proof -
  have len: "length (mem s) = REGION_HEADER_LEN + cap * sz" using assms(1) by (rule ring_mem_length)
  have raw: "length raw = sz" using assms(3) by (simp add: slot_set_def)
  show ?thesis using assms words_of_put_slot [OF len assms(2) raw] slot_views_put_slot [OF len assms(2) raw]
    by (simp add: at_ring_def slot_set_def)
qed

subsection \<open>Header words\<close>

lemma load_word:
  assumes "ring cap sz w vs s" "header_word off"
  shows "rio_load_u64 io off s = Ok (get_word off w)"
proof -
  have "off + 8 \<le> length (mem s)" using assms ring_mem_length [OF assms(1)]
    by (auto simp: header_word_def layout_consts)
  with assms load_law [of s off] words_of_get [OF assms(2), of "mem s"] show ?thesis
    by (simp add: at_ring_def region_layout_def)
qed

lemma ring_put_word:
  assumes s: "ring cap sz w vs s" and off: "header_word off"
    and t: "inv t" "mem t = put_at off (to_le64 v) (mem s)" "rio_capacity io t = rio_capacity io s"
      "rio_slot_size io t = rio_slot_size io s"
  shows "ring cap sz (set_word off v w) vs t"
proof -
  note len = ring_mem_length [OF s]
  have "slot_views cap sz (mem t) = slot_views cap sz (mem s)"
    using slot_raw_put_word [OF len _ off] by (simp add: slot_views_def t(2))
  moreover have "words_of (mem t) = set_word off v (words_of (mem s))"
    using len off by (simp add: t(2) words_of_put_word)
  moreover have "off + 8 \<le> length (mem s)" using len off by (auto simp: header_word_def layout_consts)
  ultimately show ?thesis using s t by (simp add: at_ring_def region_layout_def)
qed

lemma store_word:
  assumes s: "ring cap sz w vs s" and off: "header_word off"
  shows "\<exists>t. rio_store_u64 io off v s = (Ok (), t) \<and> ring cap sz (set_word off v w) vs t"
proof -
  have "off + 8 \<le> length (mem s)" using off ring_mem_length [OF s] by (auto simp: header_word_def layout_consts)
  with s store_law [of s off v] obtain t where
    "rio_store_u64 io off v s = (Ok (), t)" "inv t" "mem t = put_at off (to_le64 v) (mem s)"
    "rio_capacity io t = rio_capacity io s" "rio_slot_size io t = rio_slot_size io s"
    by (auto simp: at_ring_def region_layout_def)
  with ring_put_word [OF s off] show ?thesis by blast
qed

lemma max_word:
  assumes s: "ring cap sz w vs s" and off: "header_word off"
  shows "\<exists>t old. rio_fetch_max_u64 io off v s = (Ok old, t) \<and> ring cap sz (set_word off (max (get_word off w) v) w) vs t"
proof -
  have fit: "off + 8 \<le> length (mem s)" using off ring_mem_length [OF s] by (auto simp: header_word_def layout_consts)
  have i: "inv s" and w: "words_of (mem s) = w" using s by (simp_all add: at_ring_def region_layout_def)
  from max_law [OF i fit, of v] obtain t old where
    t: "rio_fetch_max_u64 io off v s = (Ok old, t)" "inv t"
      "mem t = put_at off (to_le64 (max (get_word off w) v)) (mem s)"
      "rio_capacity io t = rio_capacity io s" "rio_slot_size io t = rio_slot_size io s"
    using words_of_get [OF off, of "mem s"] w by auto
  with ring_put_word [OF s off t(2-5)] show ?thesis by blast
qed

lemma cas_word:
  assumes s: "ring cap sz w vs s" and off: "header_word off"
  shows "\<exists>t seen. rio_compare_exchange_u64 io off expected new s = (Ok (seen, get_word off w = expected), t) \<and>
    (get_word off w \<noteq> expected \<longrightarrow> seen = get_word off w) \<and>
    ring cap sz (if get_word off w = expected then set_word off new w else w) vs t"
proof -
  have fit: "off + 8 \<le> length (mem s)" using off ring_mem_length [OF s] by (auto simp: header_word_def layout_consts)
  have i: "inv s" and w: "words_of (mem s) = w" using s by (simp_all add: at_ring_def region_layout_def)
  have g: "from_le64 (bytes_at off 8 (mem s)) = get_word off w" using words_of_get [OF off, of "mem s"] w by simp
  from cas_law [OF i fit, of expected new] obtain t seen where
    t: "rio_compare_exchange_u64 io off expected new s = (Ok (seen, get_word off w = expected), t)" "inv t"
      "get_word off w \<noteq> expected \<longrightarrow> seen = get_word off w"
      "mem t = (if get_word off w = expected then put_at off (to_le64 new) (mem s) else mem s)"
      "rio_capacity io t = rio_capacity io s" "rio_slot_size io t = rio_slot_size io s"
    unfolding g by blast
  have "ring cap sz (if get_word off w = expected then set_word off new w else w) vs t"
  proof (cases "get_word off w = expected")
    case True
    then show ?thesis using ring_put_word [OF s off t(2) _ t(5,6)] t(4) by simp
  next
    case False
    then show ?thesis using s t by (simp add: at_ring_def region_layout_def)
  qed
  with t show ?thesis by blast
qed

lemmas word_ops_defs = load_head_def load_tail_def load_floor_def store_head_def store_floor_def
  fetch_max_tail_def compare_exchange_head_def compare_exchange_tail_def

subsection \<open>Slots\<close>

lemma slot_state_at:
  assumes "ring cap sz w vs s" "i < cap"
  shows "\<exists>sq n. read_header io i s = Ok (state (fst (vs ! i)), sq, n) \<and>
    (state (fst (vs ! i)) \<noteq> Free \<longrightarrow> sq = slot_seq (fst (vs ! i)) \<and> n = payload_len (fst (vs ! i)))"
  using read_header_effect [OF ring_layout [OF assms(1)] assms(2)] raw_view_fields [of "slot_raw sz i (mem s)"]
  by (simp flip: ring_raw [OF assms])

lemma commit_slot:
  assumes s: "ring cap sz w vs s" and i: "i < cap" and free: "vs ! i = free_view"
    and f: "length f \<le> sz - PERSISTENT_SLOT_HEADER_LEN" "length f < 2 ^ 32"
  shows "\<exists>t. pwrite_committed_no_flush io i sq f stamp s = (Ok (), t) \<and> ring cap sz w (vs[i := committed_view sq f]) t"
proof -
  have "sh_state (slot_header (slot_raw sz i (mem s))) = Free"
    using ring_raw [OF s i] free raw_view_free_iff by simp
  from commit_effect [OF ring_layout [OF s] i this f(1)] obtain t rest where
    "pwrite_committed_no_flush io i sq f stamp s = (Ok (), t)" "slot_set cap sz i (committed_raw sq f rest) s t"
    by blast
  with ring_slot_set [OF s i, of "committed_raw sq f rest" t] raw_view_encode(1) [OF f(2)] show ?thesis
    by (auto simp: committed_raw_def)
qed

lemma rewrite_header:
  assumes s: "ring cap sz w vs s" and i: "i < cap" and v: "vs ! i = (\<lparr>state = st, slot_seq = sq, payload_len = length f\<rparr>, f)"
    and st: "st \<noteq> Free"
  shows "\<exists>t. write_header io i Pinned sq (length f) s = (Ok (), t) \<and> ring cap sz w (vs[i := pinned_view sq f]) t"
    "\<exists>t. write_identity_header io i Pinned sq (length f) ident s = (Ok (), t) \<and> ring cap sz w (vs[i := pinned_view sq f]) t"
proof -
  let ?raw = "slot_raw sz i (mem s)"
  have r: "raw_view ?raw = (\<lparr>state = st, slot_seq = sq, payload_len = length f\<rparr>, f)" using ring_raw [OF s i] v by simp
  note b = raw_view_bounds [OF r st]
  have rest: "drop PERSISTENT_SLOT_HEADER_LEN ?raw = f @ drop (PERSISTENT_SLOT_HEADER_LEN + length f) ?raw"
    using raw_view_committed(5) [OF r st] by (metis append_take_drop_id bytes_at_def drop_drop add.commute)
  note set = ring_slot_set [OF s i] and e = raw_view_encode(2) [OF b(1)]
  from write_header_effect [OF ring_layout [OF s] i, of Pinned sq "length f", unfolded rest] set e
  show "\<exists>t. write_header io i Pinned sq (length f) s = (Ok (), t) \<and> ring cap sz w (vs[i := pinned_view sq f]) t"
    by metis
  from write_identity_header_effect [OF ring_layout [OF s] i, of Pinned sq "length f" ident, unfolded rest] set e
  show "\<exists>t. write_identity_header io i Pinned sq (length f) ident s = (Ok (), t) \<and> ring cap sz w (vs[i := pinned_view sq f]) t"
    by metis
qed

lemma read_slot:
  assumes s: "ring cap sz w vs s" and i: "i < cap" and v: "vs ! i = committed_view sq f"
  shows "\<exists>t. pread_committed io i s = (Ok \<lparr>snap_state = Pinned, snap_seq = sq, snap_payload_len = length f, snap_data = f\<rparr>, t) \<and>
      ring cap sz w (vs[i := pinned_view sq f]) t"
    "ppeek_committed io i s = Ok \<lparr>snap_state = Committed, snap_seq = sq, snap_payload_len = length f, snap_data = f\<rparr>"
proof -
  let ?raw = "slot_raw sz i (mem s)"
  note v' = v [unfolded committed_view_def]
  have r: "raw_view ?raw = (\<lparr>state = Committed, slot_seq = sq, payload_len = length f\<rparr>, f)" using ring_raw [OF s i] v' by simp
  note b = raw_view_bounds [OF r] and c = raw_view_committed [OF r]
  have "length ?raw = sz" using i ring_mem_length [OF s] by simp
  then have data: "read_payload io i (length f) s = Ok f"
    using read_payload_effect [OF ring_layout [OF s] i, of "length f"] b(2) c(5) by simp
  have hdr: "read_header io i s = Ok (Committed, sq, length f)"
    using read_header_effect [OF ring_layout [OF s] i] c by simp
  from rewrite_header(1) [OF s i v'] hdr data
  show "\<exists>t. pread_committed io i s = (Ok \<lparr>snap_state = Pinned, snap_seq = sq, snap_payload_len = length f, snap_data = f\<rparr>, t) \<and>
      ring cap sz w (vs[i := pinned_view sq f]) t"
    by (auto simp: pread_committed_def)
  from hdr data show "ppeek_committed io i s = Ok \<lparr>snap_state = Committed, snap_seq = sq, snap_payload_len = length f, snap_data = f\<rparr>"
    by (simp add: ppeek_committed_def)
qed

lemma release_slot:
  assumes s: "ring cap sz w vs s" and i: "i < cap"
  shows "\<exists>t. force_release_no_flush io i s = (Ok (), t) \<and> ring cap sz w (vs[i := free_view]) t"
    "vs ! i = pinned_view sq f \<Longrightarrow> \<exists>t. prelease_pinned_no_flush io i s = (Ok (), t) \<and> ring cap sz w (vs[i := free_view]) t"
proof -
  from release_effect [OF ring_layout [OF s] i] ring_slot_set [OF s i]
  show r: "\<exists>t. force_release_no_flush io i s = (Ok (), t) \<and> ring cap sz w (vs[i := free_view]) t"
    by (metis raw_view_encode(3))
  assume v: "vs ! i = pinned_view sq f"
  with slot_state_at [OF s i] obtain sq' n where "read_header io i s = Ok (Pinned, sq', n)" by auto
  with r show "\<exists>t. prelease_pinned_no_flush io i s = (Ok (), t) \<and> ring cap sz w (vs[i := free_view]) t"
    by (auto simp: prelease_pinned_no_flush_def prelease_slot_no_flush_def force_release_no_flush_def)
qed

subsection \<open>Flushes\<close>

lemma ring_flush: "ring cap sz w vs s \<Longrightarrow> off + n \<le> REGION_HEADER_LEN + cap * sz \<Longrightarrow> rio_flush_range io off n s = Ok ()"
  using flush_law [of s off n] ring_mem_length [of cap sz w vs s] by (simp add: at_ring_def region_layout_def)

lemma ring_slot_end: "ring cap sz w vs s \<Longrightarrow> i < cap \<Longrightarrow> REGION_HEADER_LEN + i * sz + sz \<le> REGION_HEADER_LEN + cap * sz"
  using slot_end [of i cap sz] by simp

lemma flush_release_ok:
  assumes s: "ring cap sz w vs s" and i: "i < cap"
  shows "flush_release io i s = Ok ()"
proof -
  have "REGION_HEADER_LEN + i * sz + PERSISTENT_SLOT_HEADER_LEN \<le> REGION_HEADER_LEN + cap * sz"
    using ring_slot_end [OF s i] header_size [OF ring_layout [OF s]] by linarith
  then show ?thesis using ring_flush [OF s] slot_offset_layout [OF ring_layout [OF s]]
    by (simp add: flush_release_def Let_def)
qed

lemma flush_header_ok: "ring cap sz w vs s \<Longrightarrow> flush_header io s = Ok ()"
  using ring_flush [of cap sz w vs s 0 REGION_HEADER_LEN] by (simp add: flush_header_def)

lemma flush_frames_ok:
  assumes "ring cap sz w vs s" "\<forall>f \<in> set fs. length f \<le> sz - PERSISTENT_SLOT_HEADER_LEN"
  shows "flush_frames io k fs s = Ok ()"
  using assms(2)
proof (induction fs arbitrary: k)
  case Nil
  then show ?case by simp
next
  case (Cons f fs)
  have cap: "0 < cap" "rio_capacity io s = cap" using assms(1) by (auto simp: at_ring_def region_layout_def)
  have "REGION_HEADER_LEN + (k mod cap) * sz + (PERSISTENT_SLOT_HEADER_LEN + length f) \<le> REGION_HEADER_LEN + cap * sz"
    using ring_slot_end [OF assms(1), of "k mod cap"] cap header_size [OF ring_layout [OF assms(1)]] Cons.prems
    by (simp del: add_le_cancel_left) linarith
  with Cons cap ring_flush [OF assms(1)] slot_offset_layout [OF ring_layout [OF assms(1)]] show ?case by simp
qed

lemma publish_batch_ok:
  assumes s: "ring cap sz w vs s" and fs: "\<forall>f \<in> set fs. length f \<le> sz - PERSISTENT_SLOT_HEADER_LEN" "fs \<noteq> []"
  shows "publish_batch io fs k s = Ok ()"
proof -
  have cap: "0 < cap" "rio_capacity io s = cap" using s by (auto simp: at_ring_def region_layout_def)
  have "REGION_HEADER_LEN + ((k + length fs - 1) mod cap) * sz + (PERSISTENT_SLOT_HEADER_LEN + length (last fs))
      \<le> REGION_HEADER_LEN + cap * sz"
    using ring_slot_end [OF s, of "(k + length fs - 1) mod cap"] cap header_size [OF ring_layout [OF s]]
      fs(1) last_in_set [OF fs(2)] by force
  then show ?thesis
    using ring_flush [OF s] slot_offset_layout [OF ring_layout [OF s]] flush_frames_ok [OF s fs(1)] cap fs(2)
    by (simp add: publish_batch_def Let_def add.assoc)
qed

end

end
