(* ===== verification/Persistent_Refinement.thy ===== *)
theory Persistent_Refinement
  imports Persistent_Transfer Persistent_Ring Channel_Spec
begin

text \<open>
  The persistent channel with one producer and one consumer, each with a handle of its own over one
  shared store: the slots between the shared cursors as a window of the ring, the operations of the
  two handles as updates of that window, and the refinement of the bounded message queue.
\<close>

section \<open>The window between the cursors\<close>

abbreviation region_slot_len :: "spsc_config \<Rightarrow> nat" where
  "region_slot_len cfg \<equiv> slot_size cfg + FRAME_HEADER_LEN + PERSISTENT_SLOT_HEADER_LEN"

text \<open>\<open>ring_window io ok mem cfg w vs s\<close>: the header words of the region are \<open>w\<close>; from the tail on the
  slots hold \<open>vs\<close> and then they are free.\<close>

definition ring_window ::
  "'s region_io_ops \<Rightarrow> ('s \<Rightarrow> bool) \<Rightarrow> ('s \<Rightarrow> bytes) \<Rightarrow> spsc_config \<Rightarrow> ring_words \<Rightarrow> slot_view list \<Rightarrow> 's \<Rightarrow> bool" where
  "ring_window io ok mem cfg w vs s \<longleftrightarrow>
     (\<exists>views. at_ring io ok mem (capacity cfg) (region_slot_len cfg) w views s \<and>
        rotate (unat (rg_tail w)) views = vs @ replicate (capacity cfg - length vs) free_view)"

lemma add_one_less:
  assumes "unat (a :: u64) + Suc n \<le> unat (b :: u64)"
  shows "unat (a + 1) = unat a + 1"
proof -
  have "unat b < 2 ^ 64" using unsigned_less [of b, where ?'a = nat] by simp
  with assms have "unat a + 1 < 2 ^ 64" by linarith
  then show ?thesis by (simp add: unat_word_ariths)
qed

context region_io
begin

abbreviation window :: "spsc_config \<Rightarrow> ring_words \<Rightarrow> slot_view list \<Rightarrow> 's \<Rightarrow> bool" where
  "window \<equiv> ring_window io inv mem"

lemma window_length:
  assumes "window cfg w vs s"
  shows "length vs \<le> capacity cfg" "0 < capacity cfg"
proof -
  from assms obtain views where v: "ring (capacity cfg) (region_slot_len cfg) w views s"
    "rotate (unat (rg_tail w)) views = vs @ replicate (capacity cfg - length vs) free_view"
    by (auto simp: ring_window_def)
  have "capacity cfg = length (rotate (unat (rg_tail w)) views)" using at_ring_length [OF v(1)] by simp
  then show "length vs \<le> capacity cfg" using v(2) by simp
  show "0 < capacity cfg" using v(1) by (simp add: at_ring_def region_layout_def)
qed

text \<open>The slot at distance \<open>k\<close> from the tail.\<close>

lemma window_slot:
  assumes "window cfg w vs s" "k < capacity cfg"
  obtains views where "ring (capacity cfg) (region_slot_len cfg) w views s"
    "(unat (rg_tail w) + k) mod capacity cfg < capacity cfg"
    "views ! ((unat (rg_tail w) + k) mod capacity cfg) = (if k < length vs then vs ! k else free_view)"
    "\<And>v. rotate (unat (rg_tail w)) (views[(unat (rg_tail w) + k) mod capacity cfg := v]) =
       (vs @ replicate (capacity cfg - length vs) free_view)[k := v]"
proof -
  from assms(1) obtain views where v: "ring (capacity cfg) (region_slot_len cfg) w views s"
    "rotate (unat (rg_tail w)) views = vs @ replicate (capacity cfg - length vs) free_view"
    by (auto simp: ring_window_def)
  note n = at_ring_length [OF v(1)]
  have "(vs @ replicate (capacity cfg - length vs) free_view) ! k = views ! ((unat (rg_tail w) + k) mod capacity cfg)"
    using nth_rotate [of k views "unat (rg_tail w)"] n assms(2) v(2) by simp
  moreover have "(vs @ replicate (capacity cfg - length vs) free_view) ! k = (if k < length vs then vs ! k else free_view)"
    using assms(2) by (simp add: nth_append)
  ultimately have slot: "views ! ((unat (rg_tail w) + k) mod capacity cfg) = (if k < length vs then vs ! k else free_view)"
    by simp
  have upd: "rotate (unat (rg_tail w)) (views[(unat (rg_tail w) + k) mod capacity cfg := v]) =
      (vs @ replicate (capacity cfg - length vs) free_view)[k := v]" for v
    using rotate_update [of k views "unat (rg_tail w)" v] n assms(2) v(2) by simp
  have "(unat (rg_tail w) + k) mod capacity cfg < capacity cfg" using window_length(2) [OF assms(1)] by simp
  from that [OF v(1) this slot upd] show thesis .
qed

lemma window_update:
  assumes "window cfg w vs s" "k < length vs"
    and "ring (capacity cfg) (region_slot_len cfg) w views t"
    and "rotate (unat (rg_tail w)) views = (vs @ replicate (capacity cfg - length vs) free_view)[k := v]"
  shows "window cfg w (vs[k := v]) t"
  using assms by (auto simp: ring_window_def list_update_append)

text \<open>Free slots may be counted to the window or not; a free slot inside it takes a frame.\<close>

lemma window_reserved:
  assumes "length vs + n \<le> capacity cfg"
  shows "window cfg w (vs @ replicate n free_view) s \<longleftrightarrow> window cfg w vs s"
proof -
  have "replicate (capacity cfg - length vs) free_view =
      replicate n free_view @ replicate (capacity cfg - (length vs + n)) free_view"
    using assms by (simp flip: replicate_add)
  then show ?thesis by (simp add: ring_window_def)
qed

lemma window_fill:
  assumes w: "window cfg w (us @ free_view # vs) s"
    and f: "length f \<le> slot_size cfg + FRAME_HEADER_LEN" "slot_size cfg + FRAME_HEADER_LEN < 2 ^ 32"
  shows "\<exists>t. pwrite_committed_no_flush io ((unat (rg_tail w) + length us) mod capacity cfg) sq f ident s = (Ok (), t) \<and>
    window cfg w (us @ committed_view sq f # vs) t"
proof -
  let ?i = "(unat (rg_tail w) + length us) mod capacity cfg" and ?vs = "us @ free_view # vs"
  have k: "length us < capacity cfg" "length us < length ?vs" using window_length(1) [OF w] by simp_all
  obtain views where v: "ring (capacity cfg) (region_slot_len cfg) w views s" "?i < capacity cfg"
    "views ! ?i = (if length us < length ?vs then ?vs ! length us else free_view)"
    "rotate (unat (rg_tail w)) (views[?i := committed_view sq f]) =
       (?vs @ replicate (capacity cfg - length ?vs) free_view)[length us := committed_view sq f]"
    using window_slot [OF w k(1)] by metis
  have free: "views ! ?i = free_view" using v(3) by simp
  have "length f \<le> region_slot_len cfg - PERSISTENT_SLOT_HEADER_LEN" "length f < 2 ^ 32" using f by simp_all
  from commit_slot [OF v(1,2) free this] obtain t where
    t: "pwrite_committed_no_flush io ?i sq f ident s = (Ok (), t)"
      "ring (capacity cfg) (region_slot_len cfg) w (views[?i := committed_view sq f]) t" by blast
  from window_update [OF w k(2) t(2) v(4)] t(1) show ?thesis by auto
qed

text \<open>The slot at the tail.\<close>

lemma window_tail:
  assumes "window cfg w (v # vs) s"
  obtains views where "ring (capacity cfg) (region_slot_len cfg) w views s"
    "unat (rg_tail w) mod capacity cfg < capacity cfg" "views ! (unat (rg_tail w) mod capacity cfg) = v"
    "\<forall>x t. ring (capacity cfg) (region_slot_len cfg) w (views[unat (rg_tail w) mod capacity cfg := x]) t \<longrightarrow>
       window cfg w (x # vs) t"
proof -
  have pos: "0 < capacity cfg" using window_length(2) [OF assms] .
  obtain views where a: "ring (capacity cfg) (region_slot_len cfg) w views s"
    "(unat (rg_tail w) + 0) mod capacity cfg < capacity cfg"
    "views ! ((unat (rg_tail w) + 0) mod capacity cfg) = (if 0 < length (v # vs) then (v # vs) ! 0 else free_view)"
    "\<And>x. rotate (unat (rg_tail w)) (views[(unat (rg_tail w) + 0) mod capacity cfg := x]) =
       ((v # vs) @ replicate (capacity cfg - length (v # vs)) free_view)[0 := x]"
    using window_slot [OF assms pos] by metis
  have "window cfg w (x # vs) t"
    if "ring (capacity cfg) (region_slot_len cfg) w (views[unat (rg_tail w) mod capacity cfg := x]) t" for x t
    using window_update [OF assms _ that, of 0 x] a(4) [of x] by simp
  with a(1-3) show thesis by (intro that [of views]) auto
qed

lemma window_tail_header:
  "window cfg w (committed_view sq f # vs) s \<Longrightarrow>
     read_header io (unat (rg_tail w) mod capacity cfg) s = Ok (Committed, sq, length f)"
  "window cfg w [] s \<Longrightarrow> \<exists>q n. read_header io (unat (rg_tail w) mod capacity cfg) s = Ok (Free, q, n)"
proof -
  assume "window cfg w (committed_view sq f # vs) s"
  then obtain views where v: "ring (capacity cfg) (region_slot_len cfg) w views s"
    "unat (rg_tail w) mod capacity cfg < capacity cfg" "views ! (unat (rg_tail w) mod capacity cfg) = committed_view sq f"
    by (rule window_tail)
  from slot_state_at [OF v(1,2)] v(3)
  show "read_header io (unat (rg_tail w) mod capacity cfg) s = Ok (Committed, sq, length f)"
    by (auto simp: committed_view_def)
next
  assume w: "window cfg w [] s"
  obtain views where v: "ring (capacity cfg) (region_slot_len cfg) w views s"
    "(unat (rg_tail w) + 0) mod capacity cfg < capacity cfg"
    "views ! ((unat (rg_tail w) + 0) mod capacity cfg) = (if 0 < length ([] :: slot_view list) then [] ! 0 else free_view)"
    using window_slot [OF w window_length(2) [OF w]] by metis
  from slot_state_at [OF v(1,2)] v(3)
  show "\<exists>q n. read_header io (unat (rg_tail w) mod capacity cfg) s = Ok (Free, q, n)" by auto
qed

lemma window_read:
  assumes "window cfg w (committed_view sq f # vs) s"
  shows "\<exists>t. pread_committed io (unat (rg_tail w) mod capacity cfg) s =
      (Ok \<lparr>snap_state = Pinned, snap_seq = sq, snap_payload_len = length f, snap_data = f\<rparr>, t) \<and>
    window cfg w (pinned_view sq f # vs) t"
proof -
  from assms obtain views where v: "ring (capacity cfg) (region_slot_len cfg) w views s"
    "unat (rg_tail w) mod capacity cfg < capacity cfg" "views ! (unat (rg_tail w) mod capacity cfg) = committed_view sq f"
    "\<forall>x t. ring (capacity cfg) (region_slot_len cfg) w (views[unat (rg_tail w) mod capacity cfg := x]) t \<longrightarrow>
       window cfg w (x # vs) t" by (rule window_tail)
  from read_slot(1) [OF v(1-3)] v(4) show ?thesis by blast
qed

lemma window_release:
  assumes "window cfg w (v # vs) s"
  shows "\<exists>t. force_release_no_flush io (unat (rg_tail w) mod capacity cfg) s = (Ok (), t) \<and> window cfg w (free_view # vs) t"
    "v = pinned_view sq f \<Longrightarrow> \<exists>t. prelease_pinned_no_flush io (unat (rg_tail w) mod capacity cfg) s = (Ok (), t) \<and>
       window cfg w (free_view # vs) t"
proof -
  from assms obtain views where a: "ring (capacity cfg) (region_slot_len cfg) w views s"
    "unat (rg_tail w) mod capacity cfg < capacity cfg" "views ! (unat (rg_tail w) mod capacity cfg) = v"
    "\<forall>x t. ring (capacity cfg) (region_slot_len cfg) w (views[unat (rg_tail w) mod capacity cfg := x]) t \<longrightarrow>
       window cfg w (x # vs) t" by (rule window_tail)
  from release_slot(1) [OF a(1,2)] a(4)
  show "\<exists>t. force_release_no_flush io (unat (rg_tail w) mod capacity cfg) s = (Ok (), t) \<and> window cfg w (free_view # vs) t"
    by blast
  assume "v = pinned_view sq f"
  with release_slot(2) [OF a(1,2)] a(3,4)
  show "\<exists>t. prelease_pinned_no_flush io (unat (rg_tail w) mod capacity cfg) s = (Ok (), t) \<and> window cfg w (free_view # vs) t"
    by blast
qed

text \<open>The tail moves past a free slot, the head anywhere.\<close>

lemma window_pop:
  assumes w: "window cfg w (free_view # vs) s" and t: "unat (rg_tail w + 1) = unat (rg_tail w) + 1"
  shows "\<exists>u old. fetch_max_tail io (rg_tail w + 1) s = (Ok old, u) \<and> window cfg (w\<lparr>rg_tail := rg_tail w + 1\<rparr>) vs u"
proof -
  from w obtain views where v: "ring (capacity cfg) (region_slot_len cfg) w views s"
    "rotate (unat (rg_tail w)) views = (free_view # vs) @ replicate (capacity cfg - Suc (length vs)) free_view"
    by (auto simp: ring_window_def)
  note n = at_ring_length [OF v(1)]
  have max: "max (rg_tail w) (rg_tail w + 1) = rg_tail w + 1"
    using t by (simp add: max_def word_le_nat_alt)
  from max_word [OF v(1), of CURSOR_TAIL_OFFSET "rg_tail w + 1"] max obtain u old where
    u: "fetch_max_tail io (rg_tail w + 1) s = (Ok old, u)"
      "ring (capacity cfg) (region_slot_len cfg) (w\<lparr>rg_tail := rg_tail w + 1\<rparr>) views u"
    by (auto simp: fetch_max_tail_def)
  obtain ys where ys: "rotate (unat (rg_tail w)) views = free_view # ys" "ys = vs @ replicate (capacity cfg - Suc (length vs)) free_view"
    using v(2) by simp
  have "rotate (unat (rg_tail w) + 1) views = rotate1 (rotate (unat (rg_tail w)) views)"
    by (simp add: rotate_def)
  also have "\<dots> = vs @ replicate (capacity cfg - length vs) free_view"
  proof -
    have "capacity cfg - length vs = Suc (capacity cfg - Suc (length vs))"
      using window_length(1) [OF w] by simp
    then show ?thesis using ys by (simp add: replicate_append_same)
  qed
  finally show ?thesis using u t by (auto simp: ring_window_def)
qed

lemma window_publish:
  assumes "window cfg w vs s"
  shows "\<exists>t. store_head io v s = (Ok (), t) \<and> window cfg (w\<lparr>rg_head := v\<rparr>) vs t"
proof -
  from assms obtain views where v: "ring (capacity cfg) (region_slot_len cfg) w views s"
    "rotate (unat (rg_tail w)) views = vs @ replicate (capacity cfg - length vs) free_view"
    by (auto simp: ring_window_def)
  from store_word [OF v(1), of CURSOR_HEAD_OFFSET] v(2) show ?thesis
    by (fastforce simp: ring_window_def store_head_def)
qed

lemma window_loads:
  assumes "window cfg w vs s"
  shows "load_head io s = Ok (rg_head w)" "load_tail io s = Ok (rg_tail w)" "load_floor io s = Ok (rg_floor w)"
  using assms load_word by (fastforce simp: ring_window_def load_head_def load_tail_def load_floor_def)+

lemma window_flushes:
  assumes "window cfg w vs s"
  shows "i < capacity cfg \<Longrightarrow> flush_release io i s = Ok ()"
    "\<forall>f \<in> set fs. length f \<le> slot_size cfg + FRAME_HEADER_LEN \<Longrightarrow> fs \<noteq> [] \<Longrightarrow> publish_batch io fs k s = Ok ()"
  using assms flush_release_ok publish_batch_ok by (fastforce simp: ring_window_def)+

end

section \<open>One handle on the window\<close>

text \<open>The slots \<open>vs\<close> are queued in the store: the head word is as far ahead of the tail word as there
  are slots, and nothing is pinned.\<close>

definition queued_slots ::
  "'s region_io_ops \<Rightarrow> ('s \<Rightarrow> bool) \<Rightarrow> ('s \<Rightarrow> bytes) \<Rightarrow> spsc_config \<Rightarrow> ring_words \<Rightarrow> slot_view list \<Rightarrow> 's \<Rightarrow> bool" where
  "queued_slots io ok mem cfg w vs s \<longleftrightarrow>
     ring_window io ok mem cfg w vs s \<and> rg_floor w = PIN_FLOOR_NONE \<and>
     unat (rg_head w) = unat (rg_tail w) + length vs"

text \<open>A handle that has loaded the header words, and the words it has loaded.\<close>

definition loaded_words :: "'s persistent_channel \<Rightarrow> ring_words" where
  "loaded_words c = \<lparr>rg_head = pc_head_cursor c, rg_tail = pc_tail_cursor c, rg_floor = pc_floor_cursor c\<rparr>"

definition loaded ::
  "'s region_io_ops \<Rightarrow> ('s \<Rightarrow> bool) \<Rightarrow> ('s \<Rightarrow> bytes) \<Rightarrow> spsc_config \<Rightarrow> slot_view list \<Rightarrow> 's persistent_channel \<Rightarrow> bool" where
  "loaded io ok mem cfg vs c \<longleftrightarrow>
     queued_slots io ok mem cfg (loaded_words c) vs (pc_store c) \<and> pc_config c = cfg \<and>
     pc_tail c = unat (pc_tail_cursor c) mod capacity cfg \<and> pc_recovery_bias c = 0"

text \<open>The general case: behind the tail lie the slots \<open>xs\<close> from the pin floor on, each pinned by a view
  or free again, the first one pinned.\<close>

definition view_slots :: "slot_view list \<Rightarrow> bool" where
  "view_slots xs \<longleftrightarrow> (\<forall>x \<in> set xs. x = free_view \<or> (\<exists>sq f. x = pinned_view sq f)) \<and> (xs \<noteq> [] \<longrightarrow> hd xs \<noteq> free_view)"

definition pinned_queue ::
  "'s region_io_ops \<Rightarrow> ('s \<Rightarrow> bool) \<Rightarrow> ('s \<Rightarrow> bytes) \<Rightarrow> spsc_config \<Rightarrow> slot_view list \<Rightarrow> ring_words \<Rightarrow> slot_view list \<Rightarrow> 's \<Rightarrow> bool" where
  "pinned_queue io ok mem cfg xs w vs s \<longleftrightarrow>
     ring_window io ok mem cfg w (vs @ replicate (capacity cfg - (length vs + length xs)) free_view @ xs) s \<and>
     length vs + length xs \<le> capacity cfg \<and> unat (rg_head w) = unat (rg_tail w) + length vs \<and> view_slots xs \<and>
     (if xs = [] then rg_floor w = PIN_FLOOR_NONE
      else rg_floor w \<noteq> PIN_FLOOR_NONE \<and> unat (rg_tail w) = unat (rg_floor w) + length xs)"

definition loaded_pins ::
  "'s region_io_ops \<Rightarrow> ('s \<Rightarrow> bool) \<Rightarrow> ('s \<Rightarrow> bytes) \<Rightarrow> spsc_config \<Rightarrow> slot_view list \<Rightarrow> slot_view list \<Rightarrow> 's persistent_channel \<Rightarrow> bool" where
  "loaded_pins io ok mem cfg xs vs c \<longleftrightarrow>
     pinned_queue io ok mem cfg xs (loaded_words c) vs (pc_store c) \<and> pc_config c = cfg \<and>
     pc_tail c = unat (pc_tail_cursor c) mod capacity cfg \<and> pc_recovery_bias c = 0"

text \<open>The slots a receive frees count to those behind the tail while there is a view.\<close>

definition passed :: "slot_view list \<Rightarrow> nat \<Rightarrow> slot_view list" where
  "passed xs n = (if xs = [] then [] else xs @ replicate n free_view)"

lemma passed_simps [simp]: "passed [] n = []" "passed (passed xs n) k = passed xs (n + k)" "passed xs 0 = xs"
  by (simp_all add: passed_def replicate_add)

lemma view_slots_simps [simp]: "view_slots []" "view_slots xs \<Longrightarrow> view_slots (passed xs n)"
  by (auto simp: view_slots_def passed_def)

definition refreshed :: "ring_words \<Rightarrow> nat \<Rightarrow> 's persistent_channel \<Rightarrow> 's persistent_channel" where
  "refreshed w n c = c\<lparr>pc_head_cursor := rg_head w, pc_tail_cursor := rg_tail w, pc_floor_cursor := rg_floor w,
     pc_tail := unat (rg_tail w) mod pcapacity c, pc_len := n\<rparr>"

text \<open>What an operation on the tail leaves alone.\<close>

definition same_handle :: "'s persistent_channel \<Rightarrow> 's persistent_channel \<Rightarrow> bool" where
  "same_handle c d \<longleftrightarrow> pc_config d = pc_config c \<and> pc_head d = pc_head c \<and> pc_next_seq d = pc_next_seq c \<and>
     pc_expected_recv_seq d = pc_expected_recv_seq c \<and> pc_resync_expected d = pc_resync_expected c \<and>
     pc_closed d = pc_closed c \<and> pc_last_received_seq d = pc_last_received_seq c \<and>
     pc_head_cursor d = pc_head_cursor c"

lemma same_handle_refl [simp]: "same_handle c c"
  by (simp add: same_handle_def)

lemma same_handle_trans: "same_handle c d \<Longrightarrow> same_handle d e \<Longrightarrow> same_handle c e"
  by (simp add: same_handle_def)

text \<open>\<open>expects sq c\<close>: the handle takes \<open>sq\<close> as the next sequence number, because it expects it or
  because it adopts what it finds.\<close>

definition expects :: "u64 \<Rightarrow> 's persistent_channel \<Rightarrow> bool" where
  "expects sq c \<longleftrightarrow> pc_resync_expected c \<or> pc_expected_recv_seq c = sq"

lemma unat_diff_add: "unat (a :: u64) = unat b + n \<Longrightarrow> unat (a - b) = n"
  by (simp add: unat_sub_if')

text \<open>While a method waits nobody else acts.\<close>

definition quiet :: "'s channel_env \<Rightarrow> bool" where
  "quiet env \<longleftrightarrow> env_yield env = (\<lambda>_ s. s)"

lemma yield_quiet [simp]: "quiet env \<Longrightarrow> yield_now env n c = (Ok (), c)"
  by (simp add: quiet_def yield_now_def)

lemma on_store_run [simp]:
  "on_store m c = (case m (pc_store c) of (r, t) \<Rightarrow> (r, c\<lparr>pc_store := t\<rparr>))"
  by (simp add: on_store_def)

lemma look_run [simp]: "look f c = (f (pc_store c), c)"
  by (simp add: look_def)

context region_io
begin

abbreviation queued :: "spsc_config \<Rightarrow> ring_words \<Rightarrow> slot_view list \<Rightarrow> 's \<Rightarrow> bool" where
  "queued \<equiv> queued_slots io inv mem"

abbreviation at_tail :: "spsc_config \<Rightarrow> slot_view list \<Rightarrow> 's persistent_channel \<Rightarrow> bool" where
  "at_tail \<equiv> loaded io inv mem"

abbreviation pqueued :: "spsc_config \<Rightarrow> slot_view list \<Rightarrow> ring_words \<Rightarrow> slot_view list \<Rightarrow> 's \<Rightarrow> bool" where
  "pqueued \<equiv> pinned_queue io inv mem"

abbreviation at_pins :: "spsc_config \<Rightarrow> slot_view list \<Rightarrow> slot_view list \<Rightarrow> 's persistent_channel \<Rightarrow> bool" where
  "at_pins \<equiv> loaded_pins io inv mem"

lemma pqueued_nil [simp]: "pqueued cfg [] w vs s \<longleftrightarrow> queued cfg w vs s"
  using window_reserved [of vs "capacity cfg - length vs" cfg w s] window_length(1) [of cfg w vs s]
  by (auto simp: pinned_queue_def queued_slots_def)

lemma at_pins_nil [simp]: "at_pins cfg [] vs c \<longleftrightarrow> at_tail cfg vs c"
  by (simp add: loaded_pins_def loaded_def)

lemma pqueued_bounds:
  assumes "pqueued cfg xs w vs s"
  shows "length vs + length xs \<le> capacity cfg" "0 < capacity cfg" "unat (rg_head w) = unat (rg_tail w) + length vs" "view_slots xs"
    "window cfg w (vs @ replicate (capacity cfg - (length vs + length xs)) free_view @ xs) s"
  using assms window_length(2) by (auto simp: pinned_queue_def)

lemma refresh_pins:
  assumes q: "pqueued (pc_config c) xs w vs (pc_store c)" and bias: "pc_recovery_bias c = 0"
  shows "refresh_cursors io c = (Ok (), refreshed w (length vs) c)"
    "at_pins (pc_config c) xs vs (refreshed w (length vs) c)"
    "guard_room (refreshed w (length vs) c) = capacity (pc_config c) - (length xs + length vs)"
proof -
  note n = pqueued_bounds [OF q] and l = window_loads [OF pqueued_bounds(5) [OF q]]
  have d: "unat (rg_head w - rg_tail w) = length vs" using unat_diff_add [OF n(3)] .
  show "refresh_cursors io c = (Ok (), refreshed w (length vs) c)"
    using l n d bias by (simp add: refresh_cursors_def refreshed_def cursor_len_def cursor_slot_def pcapacity_def)
  have e: "loaded_words (refreshed w (length vs) c) = w" by (simp add: loaded_words_def refreshed_def)
  show "at_pins (pc_config c) xs vs (refreshed w (length vs) c)"
    unfolding loaded_pins_def e using q bias by (simp add: refreshed_def pcapacity_def)
  have floor: "rg_floor w = PIN_FLOOR_NONE" if "xs = []" using q that by (simp add: pinned_queue_def)
  have le: "rg_tail w \<le> rg_head w" using n(3) by (simp add: word_le_nat_alt)
  show "guard_room (refreshed w (length vs) c) = capacity (pc_config c) - (length xs + length vs)"
  proof (cases "xs = []")
    case True
    with d floor n bias le show ?thesis
      by (simp add: guard_room_def guard_len_def refreshed_def pcapacity_def saturating_sub_def Let_def)
  next
    case False
    with q have f: "rg_floor w \<noteq> PIN_FLOOR_NONE" "unat (rg_tail w) = unat (rg_floor w) + length xs"
      by (simp_all add: pinned_queue_def)
    then have "unat (rg_head w) = unat (rg_floor w) + (length xs + length vs)" using n(3) by simp
    then have "unat (rg_head w - rg_floor w) = length xs + length vs" "rg_floor w \<le> rg_head w"
      using unat_diff_add [of "rg_head w" "rg_floor w"] by (simp_all add: word_le_nat_alt)
    moreover have "min (rg_floor w) (rg_tail w) = rg_floor w" using f(2) by (simp add: min_def word_le_nat_alt)
    ultimately show ?thesis using f n bias
      by (simp add: guard_room_def guard_len_def refreshed_def pcapacity_def saturating_sub_def Let_def)
  qed
qed

lemma refresh_queued:
  assumes "queued (pc_config c) w vs (pc_store c)" and "pc_recovery_bias c = 0"
  shows "refresh_cursors io c = (Ok (), refreshed w (length vs) c)"
    "at_tail (pc_config c) vs (refreshed w (length vs) c)"
    "guard_room (refreshed w (length vs) c) = capacity (pc_config c) - length vs"
  using refresh_pins [of c "[]" w vs] assms by simp_all

subsection \<open>The tail\<close>

lemma pins_bounds:
  assumes "at_pins cfg xs vs c"
  shows "length vs + length xs \<le> capacity cfg" "0 < capacity cfg" "unat (pc_head_cursor c) = unat (pc_tail_cursor c) + length vs" "view_slots xs"
    "window cfg (loaded_words c) (vs @ replicate (capacity cfg - (length vs + length xs)) free_view @ xs) (pc_store c)"
  using assms pqueued_bounds [of cfg xs "loaded_words c" vs "pc_store c"] by (simp_all add: loaded_pins_def loaded_words_def)

lemma pins_fields:
  "at_pins cfg xs vs c \<Longrightarrow> pc_config c = cfg"
  "at_pins cfg xs vs c \<Longrightarrow> pc_tail c = unat (rg_tail (loaded_words c)) mod capacity cfg"
  by (simp_all add: loaded_pins_def loaded_words_def)

lemma at_tail_window: "at_tail cfg vs c \<Longrightarrow> window cfg (loaded_words c) vs (pc_store c)"
  by (simp add: loaded_def queued_slots_def)

lemma at_tail_head: "at_tail cfg vs c \<Longrightarrow> unat (pc_head_cursor c) = unat (pc_tail_cursor c) + length vs"
  by (simp add: loaded_def queued_slots_def loaded_words_def)

lemma at_tail_fields:
  "at_tail cfg vs c \<Longrightarrow> pc_config c = cfg"
  "at_tail cfg vs c \<Longrightarrow> pc_tail c = unat (rg_tail (loaded_words c)) mod capacity cfg"
  by (simp_all add: loaded_def loaded_words_def)

text \<open>With nothing queued the slot at the tail is free, or in a full ring one that a view holds.\<close>

lemma pins_header:
  "at_pins cfg xs (committed_view sq f # vs) c \<Longrightarrow> read_header io (pc_tail c) (pc_store c) = Ok (Committed, sq, length f)"
  "at_pins cfg xs [] c \<Longrightarrow> \<exists>st q n. read_header io (pc_tail c) (pc_store c) = Ok (st, q, n) \<and> st \<in> {Free, Pinned}"
proof -
  assume c: "at_pins cfg xs (committed_view sq f # vs) c"
  from pins_bounds(5) [OF c] window_tail_header(1) [of cfg "loaded_words c" sq f]
  show "read_header io (pc_tail c) (pc_store c) = Ok (Committed, sq, length f)" by (simp add: pins_fields(2) [OF c])
next
  assume c: "at_pins cfg xs [] c"
  note n = pins_bounds [OF c]
  obtain x ys where x: "replicate (capacity cfg - length xs) free_view @ xs = x # ys" "x = free_view \<or> x \<in> set xs"
    using n(1,2) by (cases "capacity cfg - length xs") (auto intro: list.set_sel(1) simp: neq_Nil_conv)
  have st: "state (fst x) \<in> {Free, Pinned}"
  proof (cases "x = free_view")
    case False
    with x(2) n(4) show ?thesis by (auto simp: view_slots_def)
  qed simp
  from n(5) x(1) have "window cfg (loaded_words c) (x # ys) (pc_store c)" by simp
  then obtain views where v: "ring (capacity cfg) (region_slot_len cfg) (loaded_words c) views (pc_store c)"
    "unat (rg_tail (loaded_words c)) mod capacity cfg < capacity cfg" "views ! (unat (rg_tail (loaded_words c)) mod capacity cfg) = x"
    by (rule window_tail)
  from slot_state_at [OF v(1,2)] v(3) st
  show "\<exists>st q n. read_header io (pc_tail c) (pc_store c) = Ok (st, q, n) \<and> st \<in> {Free, Pinned}"
    by (auto simp: pins_fields(2) [OF c])
qed

lemma at_tail_header:
  "at_tail cfg (committed_view sq f # vs) c \<Longrightarrow> read_header io (pc_tail c) (pc_store c) = Ok (Committed, sq, length f)"
  "at_tail cfg [] c \<Longrightarrow> \<exists>q n. read_header io (pc_tail c) (pc_store c) = Ok (Free, q, n)"
proof -
  show "at_tail cfg (committed_view sq f # vs) c \<Longrightarrow> read_header io (pc_tail c) (pc_store c) = Ok (Committed, sq, length f)"
    using pins_header(1) [of cfg "[]" sq f vs c] by simp
  assume c: "at_tail cfg [] c"
  from window_tail_header(2) [OF at_tail_window [OF c]] c
  show "\<exists>q n. read_header io (pc_tail c) (pc_store c) = Ok (Free, q, n)"
    by (simp add: loaded_def loaded_words_def)
qed

lemma read_tail_pins:
  assumes c: "at_pins cfg xs (committed_view sq f # vs) c"
  shows "\<exists>d. pread_tail io c = (Ok \<lparr>snap_state = Pinned, snap_seq = sq, snap_payload_len = length f, snap_data = f\<rparr>, d) \<and>
    at_pins cfg xs (pinned_view sq f # vs) d \<and> same_handle c d"
proof -
  let ?rest = "vs @ replicate (capacity cfg - (Suc (length vs) + length xs)) free_view @ xs"
  have "window cfg (loaded_words c) (committed_view sq f # ?rest) (pc_store c)" using pins_bounds(5) [OF c] by simp
  from window_read [OF this] obtain t where
    t: "pread_committed io (pc_tail c) (pc_store c) =
        (Ok \<lparr>snap_state = Pinned, snap_seq = sq, snap_payload_len = length f, snap_data = f\<rparr>, t)"
      "window cfg (loaded_words c) (pinned_view sq f # ?rest) t" by (auto simp: pins_fields(2) [OF c])
  have "pqueued cfg xs (loaded_words c) (pinned_view sq f # vs) t"
    using c t(2) by (simp add: loaded_pins_def pinned_queue_def)
  then have "at_pins cfg xs (pinned_view sq f # vs) (c\<lparr>pc_store := t\<rparr>)"
    using c by (simp add: loaded_pins_def loaded_words_def)
  with t(1) show ?thesis by (auto simp: pread_tail_def same_handle_def)
qed

lemma read_tail_at:
  assumes "at_tail cfg (committed_view sq f # vs) c"
  shows "\<exists>d. pread_tail io c = (Ok \<lparr>snap_state = Pinned, snap_seq = sq, snap_payload_len = length f, snap_data = f\<rparr>, d) \<and>
    at_tail cfg (pinned_view sq f # vs) d \<and> same_handle c d"
  using read_tail_pins [of cfg "[]" sq f vs c] assms by simp

text \<open>The tail moves past a free slot.\<close>

lemma pins_pop:
  assumes q: "pqueued cfg xs w (free_view # vs) s"
  shows "\<exists>u old. fetch_max_tail io (rg_tail w + 1) s = (Ok old, u) \<and> pqueued cfg (passed xs 1) (w\<lparr>rg_tail := rg_tail w + 1\<rparr>) vs u"
proof -
  let ?gap = "replicate (capacity cfg - (Suc (length vs) + length xs)) free_view" and ?w = "w\<lparr>rg_tail := rg_tail w + 1\<rparr>"
  note n = pqueued_bounds [OF q]
  have t: "unat (rg_tail w + 1) = unat (rg_tail w) + 1" using add_one_less [of "rg_tail w" "length vs" "rg_head w"] n(3) by simp
  have "window cfg w (free_view # (vs @ ?gap @ xs)) s" using n(5) by simp
  from window_pop [OF this t] obtain u old where
    u: "fetch_max_tail io (rg_tail w + 1) s = (Ok old, u)" "window cfg ?w (vs @ ?gap @ xs) u" by blast
  have "pqueued cfg (passed xs 1) ?w vs u"
  proof (cases "xs = []")
    case True
    have "window cfg ?w vs u" using u(2) True n(1) window_reserved [of vs "capacity cfg - Suc (length vs)" cfg ?w u] by simp
    then have "queued cfg ?w vs u" using q True t n(3) by (simp add: queued_slots_def)
    with True show ?thesis by simp
  next
    case False
    have "window cfg ?w ((vs @ ?gap @ xs) @ replicate 1 free_view) u"
      using u(2) n(1) window_reserved [of "vs @ ?gap @ xs" 1 cfg ?w u] by simp
    with False q t n show ?thesis
      by (simp add: pinned_queue_def passed_def view_slots_def del: replicate_Suc)
  qed
  with u(1) show ?thesis by blast
qed

lemma step_tail_pins:
  assumes c: "at_pins cfg xs (free_view # vs) c" and i: "i < capacity cfg"
  shows "\<exists>d. step_tail io False i c = (Ok (), d) \<and> at_pins cfg (passed xs 1) vs d \<and> same_handle c d \<and> pc_len d = pc_len c - 1"
proof -
  have q: "pqueued cfg xs (loaded_words c) (free_view # vs) (pc_store c)" and cfg: "pc_config c = cfg"
    using c by (simp_all add: loaded_pins_def)
  from pins_pop [OF q] obtain u old where
    u: "fetch_max_tail io (pc_tail_cursor c + 1) (pc_store c) = (Ok old, u)"
      "pqueued cfg (passed xs 1) (loaded_words c\<lparr>rg_tail := pc_tail_cursor c + 1\<rparr>) vs u" by (auto simp: loaded_words_def)
  let ?d = "c\<lparr>pc_store := u, pc_tail := (pc_tail c + 1) mod capacity cfg, pc_tail_cursor := pc_tail_cursor c + 1,
    pc_len := pc_len c - 1\<rparr>"
  have t: "unat (pc_tail_cursor c + 1) = unat (pc_tail_cursor c) + 1"
    using add_one_less [of "pc_tail_cursor c" "length vs" "pc_head_cursor c"] pins_bounds(3) [OF c] by simp
  have "step_tail io False i c = (Ok (), ?d)"
    using u(1) window_flushes(1) [OF pqueued_bounds(5) [OF u(2)] i] cfg by (simp add: step_tail_def pcapacity_def)
  moreover have "at_pins cfg (passed xs 1) vs ?d"
    using u(2) c t by (simp add: loaded_pins_def loaded_words_def mod_Suc_eq)
  ultimately show ?thesis by (auto simp: same_handle_def)
qed

lemma step_tail_at:
  assumes "at_tail cfg (free_view # vs) c" and "i < capacity cfg"
  shows "\<exists>d. step_tail io False i c = (Ok (), d) \<and> at_tail cfg vs d \<and> same_handle c d \<and> pc_len d = pc_len c - 1"
  using step_tail_pins [of cfg "[]" vs c i] assms by simp

lemma advance_pins:
  assumes c: "at_pins cfg xs (pinned_view sq f # vs) c"
  shows "\<exists>d. padvance_tail_after_read io c = (Ok (), d) \<and> at_pins cfg (passed xs 1) vs d \<and> same_handle c d"
proof -
  let ?w = "loaded_words c" and ?rest = "vs @ replicate (capacity cfg - (Suc (length vs) + length xs)) free_view @ xs"
  note n = pins_bounds [OF c] and cfg = pins_fields(1) [OF c] and tl = pins_fields(2) [OF c]
  have orphan: "\<not> at_orphan c"
    using unat_diff_add [OF n(3)] n cfg by (simp add: at_orphan_def pcapacity_def)
  have "window cfg ?w (pinned_view sq f # ?rest) (pc_store c)" using n(5) by simp
  from window_release(2) [OF this refl] tl obtain t where
    t: "prelease_pinned_no_flush io (pc_tail c) (pc_store c) = (Ok (), t)" "window cfg ?w (free_view # ?rest) t" by auto
  have "pqueued cfg xs ?w (free_view # vs) t" using c t(2) by (simp add: loaded_pins_def pinned_queue_def)
  then have "at_pins cfg xs (free_view # vs) (c\<lparr>pc_store := t\<rparr>)"
    using c by (simp add: loaded_pins_def loaded_words_def)
  moreover have "pc_tail c < capacity cfg" using tl n by simp
  ultimately obtain d where "step_tail io False (pc_tail c) (c\<lparr>pc_store := t\<rparr>) = (Ok (), d)" "at_pins cfg (passed xs 1) vs d"
    "same_handle (c\<lparr>pc_store := t\<rparr>) d" using step_tail_pins by blast
  with t(1) orphan show ?thesis
    by (auto simp: padvance_tail_after_read_def advance_tail_impl_def same_handle_def)
qed

lemma poll_committed_pins:
  "at_pins cfg xs (committed_view sq f # vs) c \<Longrightarrow> poll_tail_committed io env c = (Ok True, c)"
  using pins_header(1) [of cfg xs sq f vs c]
  by (simp add: poll_tail_committed_def POLL_LIMIT_def numeral_eq_Suc tail_header_def)

lemma poll_uncommitted:
  assumes "read_header io (pc_tail c) (pc_store c) = Ok (st, q, n)" "st \<noteq> Committed" "quiet env" "\<not> pc_closed c"
  shows "poll_committed_loop io env k c = (Ok False, c)"
  using assms by (induction k) (auto simp: tail_header_def)

text \<open>Nothing is reclaimed unless the slot at the tail is being written: with one producer the window is
  checked, with several the state of its first slot.\<close>

lemma reclaim_none_pins:
  assumes c: "at_pins cfg xs vs c" and first: "read_header io (pc_tail c) (pc_store c) = Ok (st, q, n)" "st \<noteq> Writing"
  shows "try_reclaim_at_tail io env c = (Ok 0, c)" "try_reclaim_at_tail_mpsc io env c = (Ok 0, c)"
proof -
  note n = pins_bounds [OF c] and cfg = pins_fields(1) [OF c]
  obtain views where v: "ring (capacity cfg) (region_slot_len cfg) (loaded_words c) views (pc_store c)"
    using n(5) by (auto simp: ring_window_def)
  have tl: "pc_tail c < capacity cfg" using pins_fields(2) [OF c] n by simp
  obtain full where full: "read_header_full io (pc_tail c) (pc_store c) = Ok full" "sh_state full \<noteq> Writing"
    using read_header_full_effect [OF ring_layout [OF v] tl] read_header_effect [OF ring_layout [OF v] tl] first by auto
  obtain k where k: "capacity cfg = Suc k" using n(2) by (cases "capacity cfg") auto
  show mpsc: "try_reclaim_at_tail_mpsc io env c = (Ok 0, c)"
    using full by (simp add: try_reclaim_at_tail_mpsc_def Let_def)
  show "try_reclaim_at_tail io env c = (Ok 0, c)"
    using k unat_diff_add [OF n(3)] n(1) cfg first mpsc
    by (auto simp: try_reclaim_at_tail_def try_reclaim_at_tail_spsc_def pcapacity_def header_state_def)
qed

lemma reclaim_none_at:
  assumes "at_tail cfg vs c" and "read_header io (pc_tail c) (pc_store c) = Ok (st, q, n)" "st \<noteq> Writing"
  shows "try_reclaim_at_tail io env c = (Ok 0, c)" "try_reclaim_at_tail_mpsc io env c = (Ok 0, c)"
  using reclaim_none_pins [of cfg "[]" vs c, OF _ assms(2,3)] assms(1) by simp_all

lemma reclaim_unwritten_at:
  "at_tail cfg vs c \<Longrightarrow> \<exists>q n. read_header io (pc_tail c) (pc_store c) = Ok (Free, q, n) \<Longrightarrow>
     try_reclaim_at_tail io env c = (Ok 0, c)"
  using reclaim_none_at(1) by blast

subsection \<open>Receiving a message\<close>

lemma recv_chunks_pins:
  assumes "at_pins cfg xs (map (committed_view sq) fs @ vs) c" "length cs = length fs"
    and "\<forall>j < length fs. \<exists>f. decode_frame (fs ! j) = Ok f \<and>
      chunk_frame_ok (env_crc env) sq (i + j) (ci_total first) (ci_message_len first) (cs ! j) f"
  shows "\<exists>d. precv_chunks io env sq first [i..<i + length fs] acc c = (Ok (acc @ concat cs), d) \<and>
    at_pins cfg (passed xs (length fs)) vs d \<and> same_handle c d"
  using assms
proof (induction fs arbitrary: c i cs acc xs)
  case Nil
  then show ?case by simp
next
  case (Cons b fs)
  then obtain x cs' where cs: "cs = x # cs'" by (cases cs) auto
  from Cons.prems(3) cs obtain f where f: "decode_frame b = Ok f"
    "chunk_frame_ok (env_crc env) sq i (ci_total first) (ci_message_len first) x f" by force
  from Cons.prems(1) have c: "at_pins cfg xs (committed_view sq b # (map (committed_view sq) fs @ vs)) c" by simp
  from read_tail_pins [OF c] obtain d1 where
    d1: "pread_tail io c = (Ok \<lparr>snap_state = Pinned, snap_seq = sq, snap_payload_len = length b, snap_data = b\<rparr>, d1)"
      "at_pins cfg xs (pinned_view sq b # (map (committed_view sq) fs @ vs)) d1" "same_handle c d1" by blast
  from advance_pins [OF d1(2)] obtain d2 where
    d2: "padvance_tail_after_read io d1 = (Ok (), d2)" "at_pins cfg (passed xs 1) (map (committed_view sq) fs @ vs) d2" "same_handle d1 d2" by blast
  have "\<forall>j < length fs. \<exists>f. decode_frame (fs ! j) = Ok f \<and>
      chunk_frame_ok (env_crc env) sq (Suc i + j) (ci_total first) (ci_message_len first) (cs' ! j) f"
    using Cons.prems(3) cs by force
  from Cons.IH [OF d2(2) _ this, of "acc @ x"] Cons.prems(2) cs obtain d where
    d: "precv_chunks io env sq first [Suc i..<Suc i + length fs] (acc @ x) d2 = (Ok (acc @ x @ concat cs'), d)"
      "at_pins cfg (passed xs (Suc (length fs))) vs d" "same_handle d2 d" by auto
  have range: "[i..<i + length (b # fs)] = i # [Suc i..<Suc i + length fs]" by (simp add: upt_rec)
  have "precv_chunks io env sq first [i..<i + length (b # fs)] acc c = (Ok (acc @ concat cs), d)"
    unfolding range using poll_committed_pins [OF c, of env] d1(1) d2(1) d(1) f cs
    by (simp add: chunk_frame_ok_def chunk_info_update)
  with d d1(3) d2(3) show ?case by (auto intro: same_handle_trans)
qed

lemma recv_chunked_pins:
  assumes c: "at_pins cfg xs (pinned_view sq b # (map (committed_view sq) bs @ vs)) c"
    and cs: "length cs = Suc (length bs)" "concat cs = m" and m: "length m \<le> isize_max"
    and frames: "\<forall>j < Suc (length bs). \<exists>f. decode_frame ((b # bs) ! j) = Ok f \<and>
      chunk_frame_ok (env_crc env) sq j (Suc (length bs)) (length m) (cs ! j) f"
    and f: "decode_frame b = Ok f"
  shows "\<exists>d. precv_chunked_message io env sq f c = (Ok m, d) \<and> at_pins cfg (passed xs (Suc (length bs))) vs d \<and> same_handle c d"
proof -
  obtain x cs' where csx: "cs = x # cs'" using cs(1) by (cases cs) auto
  let ?info = "\<lparr>ci_index = 0, ci_total = Suc (length bs), ci_message_len = length m\<rparr>"
  have ok: "chunk_frame_ok (env_crc env) sq 0 (Suc (length bs)) (length m) x f" using frames f csx by force
  from advance_pins [OF c] obtain d1 where
    d1: "padvance_tail_after_read io c = (Ok (), d1)" "at_pins cfg (passed xs 1) (map (committed_view sq) bs @ vs) d1" "same_handle c d1" by blast
  have "\<forall>j < length bs. \<exists>f. decode_frame (bs ! j) = Ok f \<and>
      chunk_frame_ok (env_crc env) sq (1 + j) (ci_total ?info) (ci_message_len ?info) (cs' ! j) f"
    using frames csx by force
  from recv_chunks_pins [OF d1(2) _ this, of x] cs csx obtain d where
    "precv_chunks io env sq ?info [1..<Suc (length bs)] x d1 = (Ok m, d)" "at_pins cfg (passed xs (Suc (length bs))) vs d" "same_handle d1 d" by auto
  with d1 ok m show ?thesis
    by (auto simp: precv_chunked_message_def chunk_frame_ok_def simp del: upt_Suc intro: same_handle_trans)
qed

lemma ensure_pins:
  assumes q: "pqueued (pc_config c) xs w (committed_view sq f # vs) (pc_store c)" and bias: "pc_recovery_bias c = 0"
  shows "\<exists>d. ensure_tail_readable io env c = (Ok (pc_resync_expected c), d) \<and> at_pins (pc_config c) xs (committed_view sq f # vs) d \<and>
    same_handle (c\<lparr>pc_resync_expected := False, pc_head_cursor := rg_head w\<rparr>) d \<and> loaded_words d = w"
proof -
  let ?c = "refreshed w (Suc (length vs)) c"
  note r = refresh_pins [OF q bias]
  have "at_pins (pc_config c) xs (committed_view sq f # vs) (?c\<lparr>pc_resync_expected := False\<rparr>)"
    using r(2) by (simp add: loaded_pins_def loaded_words_def)
  with poll_committed_pins [OF this] r(1) show ?thesis
    by (auto simp: ensure_tail_readable_def refreshed_def same_handle_def loaded_words_def)
qed

lemma ensure_at:
  assumes "queued (pc_config c) w (committed_view sq f # vs) (pc_store c)" and "pc_recovery_bias c = 0"
  shows "\<exists>d. ensure_tail_readable io env c = (Ok (pc_resync_expected c), d) \<and>
    at_tail (pc_config c) (committed_view sq f # vs) d \<and> same_handle (c\<lparr>pc_resync_expected := False, pc_head_cursor := rg_head w\<rparr>) d"
  using ensure_pins [of c "[]" w sq f vs env] assms by auto

lemma ensure_empty_pins:
  assumes q: "pqueued (pc_config c) xs w [] (pc_store c)" and bias: "pc_recovery_bias c = 0"
    and env: "quiet env"
  shows "\<exists>d. ensure_tail_readable io env c = (ChanErr (if pc_closed c then Closed else BufferEmpty), d) \<and>
    at_pins (pc_config c) xs [] d \<and> same_handle (c\<lparr>pc_head_cursor := rg_head w\<rparr>) d \<and> loaded_words d = w"
proof -
  let ?c = "refreshed w 0 c"
  note r = refresh_pins [OF q bias, simplified]
  show ?thesis
  proof (cases "pc_closed c")
    case True
    with r show ?thesis by (auto simp: ensure_tail_readable_def refreshed_def same_handle_def loaded_words_def)
  next
    case False
    have c: "at_pins (pc_config c) xs [] (?c\<lparr>pc_resync_expected := b\<rparr>)" for b
      using r(2) by (simp add: loaded_pins_def loaded_words_def)
    let ?d = "?c\<lparr>pc_resync_expected := False\<rparr>"
    from pins_header(2) [OF c [of False]] obtain st q n where
      hd: "read_header io (pc_tail ?d) (pc_store ?d) = Ok (st, q, n)" "st \<noteq> Committed" "st \<noteq> Writing" by auto
    have "poll_tail_committed io env ?d = (Ok False, ?d)"
      using poll_uncommitted [OF hd(1,2) env] False by (simp add: poll_tail_committed_def refreshed_def)
    moreover note reclaim_none_pins(1) [OF c [of False] hd(1,3), of env]
    ultimately have "ensure_tail_readable io env c = (ChanErr BufferEmpty, ?c\<lparr>pc_resync_expected := pc_resync_expected c\<rparr>)"
      using r(1) False by (simp add: ensure_tail_readable_def refreshed_def)
    with c [of "pc_resync_expected c"] False show ?thesis
      by (auto simp: refreshed_def same_handle_def loaded_words_def)
  qed
qed

lemma ensure_empty:
  assumes "queued (pc_config c) w [] (pc_store c)" and "pc_recovery_bias c = 0" and "quiet env"
  shows "\<exists>d. ensure_tail_readable io env c = (ChanErr (if pc_closed c then Closed else BufferEmpty), d) \<and>
    at_tail (pc_config c) [] d \<and> same_handle (c\<lparr>pc_head_cursor := rg_head w\<rparr>) d"
  using ensure_empty_pins [of c "[]" w env] assms by auto

lemma recv_readable_pins:
  assumes mf: "message_frames (env_crc env) sq limit m fs" and m: "length m \<le> isize_max"
    and ensure: "ensure_tail_readable io env c = (Ok resync, d0)" "at_pins cfg xs (map (committed_view sq) fs @ vs) d0"
    and sq: "resync \<or> multi_producer cfg \<or> pc_expected_recv_seq d0 = sq"
  shows "\<exists>d. precv_with_seq io env c = (Ok \<lparr>rm_seq = sq, rm_payload = m\<rparr>, d) \<and> at_pins cfg (passed xs (length fs)) vs d \<and>
    pc_closed d = pc_closed d0 \<and> pc_head_cursor d = pc_head_cursor d0 \<and> pc_resync_expected d = pc_resync_expected d0 \<and>
    (resync \<or> pc_expected_recv_seq d0 = sq \<longrightarrow> pc_expected_recv_seq d = sq + 1) \<and> pc_last_received_seq d = Some sq"
proof -
  obtain b bs where fs: "fs = b # bs" using mf by (cases fs) (auto simp: message_frames_def)
  have c0: "at_pins cfg xs (committed_view sq b # (map (committed_view sq) bs @ vs)) d0" using ensure(2) fs by simp
  from read_tail_pins [OF c0] obtain d1 where
    d1: "pread_tail io d0 = (Ok \<lparr>snap_state = Pinned, snap_seq = sq, snap_payload_len = length b, snap_data = b\<rparr>, d1)"
      "at_pins cfg xs (pinned_view sq b # (map (committed_view sq) bs @ vs)) d1" "same_handle d0 d1" by blast
  obtain d2 where d2: "accept_sequence resync sq d1 = (Ok (), d2)"
    "at_pins cfg xs (pinned_view sq b # (map (committed_view sq) bs @ vs)) d2"
    "resync \<or> pc_expected_recv_seq d0 = sq \<longrightarrow> pc_expected_recv_seq d2 = sq"
    "pc_resync_expected d2 = pc_resync_expected d0" "pc_closed d2 = pc_closed d0" "pc_head_cursor d2 = pc_head_cursor d0"
  proof (cases resync)
    case True
    with d1 that [of "d1\<lparr>pc_expected_recv_seq := sq\<rparr>"] show thesis
      by (simp add: accept_sequence_def loaded_pins_def loaded_words_def same_handle_def)
  next
    case False
    have "pc_config d1 = cfg" using pins_fields(1) [OF d1(2)] .
    with False sq d1 that [of d1] show thesis by (auto simp: accept_sequence_def same_handle_def)
  qed
  have meta: "at_pins cfg ys vs (d\<lparr>pc_expected_recv_seq := s, pc_last_received_seq := l\<rparr>)" if "at_pins cfg ys vs d" for d s l cfg ys
    using that by (simp add: loaded_pins_def loaded_words_def)
  from mf fs consider
    f where "bs = []" "decode_frame b = Ok f" "validate_bytes_frame (env_crc env) f = Ok ()"
      "hdr_seq (header f) = sq" "\<not> is_chunked f" "payload f = m"
  | cs where "bs \<noteq> []" "length cs = Suc (length bs)" "concat cs = m"
      "\<forall>j < Suc (length bs). \<exists>f. decode_frame ((b # bs) ! j) = Ok f \<and>
        chunk_frame_ok (env_crc env) sq j (Suc (length bs)) (length m) (cs ! j) f"
    unfolding message_frames_def by auto
  then show ?thesis
  proof cases
    case (1 f)
    from advance_pins [OF d2(2)] 1(1) fs obtain d3 where
      d3: "padvance_tail_after_read io d2 = (Ok (), d3)" "at_pins cfg (passed xs (length fs)) vs d3" "same_handle d2 d3" by auto
    with 1 ensure(1) d1(1) d2 meta [OF d3(2)] show ?thesis
      by (auto simp: precv_with_seq_def skip_expected_def same_handle_def)
  next
    case (2 cs)
    from 2(4) obtain f where f: "decode_frame b = Ok f" "chunk_frame_ok (env_crc env) sq 0 (Suc (length bs)) (length m) (cs ! 0) f"
      by force
    from recv_chunked_pins [OF d2(2) 2(2,3) m 2(4) f(1)] fs obtain d3 where
      d3: "precv_chunked_message io env sq f d2 = (Ok m, d3)" "at_pins cfg (passed xs (length fs)) vs d3" "same_handle d2 d3" by auto
    with f ensure(1) d1(1) d2 meta [OF d3(2)] show ?thesis
      by (auto simp: precv_with_seq_def skip_expected_def same_handle_def chunk_frame_ok_def)
  qed
qed

lemma recv_readable_at:
  assumes "message_frames (env_crc env) sq limit m fs" and "length m \<le> isize_max"
    and "ensure_tail_readable io env c = (Ok resync, d0)" "at_tail cfg (map (committed_view sq) fs @ vs) d0"
    and "resync \<or> multi_producer cfg \<or> pc_expected_recv_seq d0 = sq"
  shows "\<exists>d. precv_with_seq io env c = (Ok \<lparr>rm_seq = sq, rm_payload = m\<rparr>, d) \<and> at_tail cfg vs d \<and>
    pc_closed d = pc_closed d0 \<and> pc_head_cursor d = pc_head_cursor d0 \<and> pc_resync_expected d = pc_resync_expected d0 \<and>
    (resync \<or> pc_expected_recv_seq d0 = sq \<longrightarrow> pc_expected_recv_seq d = sq + 1) \<and> pc_last_received_seq d = Some sq"
  using recv_readable_pins [OF assms(1-3), of cfg "[]"] assms(4,5) by simp

lemma recv_message_pins:
  assumes mf: "message_frames (env_crc env) sq limit m fs" and m: "length m \<le> isize_max"
    and q: "pqueued (pc_config c) xs w (map (committed_view sq) fs @ vs) (pc_store c)"
    and bias: "pc_recovery_bias c = 0" and sq: "multi_producer (pc_config c) \<or> expects sq c"
  shows "\<exists>d. precv_with_seq io env c = (Ok \<lparr>rm_seq = sq, rm_payload = m\<rparr>, d) \<and> at_pins (pc_config c) (passed xs (length fs)) vs d \<and>
    pc_closed d = pc_closed c \<and> pc_head_cursor d = rg_head w \<and> (expects sq c \<longrightarrow> expects (sq + 1) d) \<and> \<not> pc_resync_expected d \<and> pc_last_received_seq d = Some sq"
proof -
  obtain b bs where fs: "fs = b # bs" using mf by (cases fs) (auto simp: message_frames_def)
  from q fs have q': "pqueued (pc_config c) xs w (committed_view sq b # (map (committed_view sq) bs @ vs)) (pc_store c)" by simp
  from ensure_pins [OF q' bias] obtain d0 where
    d0: "ensure_tail_readable io env c = (Ok (pc_resync_expected c), d0)"
      "at_pins (pc_config c) xs (committed_view sq b # (map (committed_view sq) bs @ vs)) d0"
      "same_handle (c\<lparr>pc_resync_expected := False, pc_head_cursor := rg_head w\<rparr>) d0" by blast
  have c0: "at_pins (pc_config c) xs (map (committed_view sq) fs @ vs) d0" using d0(2) fs by simp
  have "pc_resync_expected c \<or> multi_producer (pc_config c) \<or> pc_expected_recv_seq d0 = sq"
    using sq d0(3) by (auto simp: expects_def same_handle_def)
  from recv_readable_pins [OF mf m d0(1) c0 this] d0(3) show ?thesis
    by (auto simp: expects_def same_handle_def)
qed

lemma recv_message_at:
  assumes "message_frames (env_crc env) sq limit m fs" and "length m \<le> isize_max"
    and "queued (pc_config c) w (map (committed_view sq) fs @ vs) (pc_store c)"
    and "pc_recovery_bias c = 0" and "multi_producer (pc_config c) \<or> expects sq c"
  shows "\<exists>d. precv_with_seq io env c = (Ok \<lparr>rm_seq = sq, rm_payload = m\<rparr>, d) \<and> at_tail (pc_config c) vs d \<and>
    pc_closed d = pc_closed c \<and> pc_head_cursor d = rg_head w \<and> (expects sq c \<longrightarrow> expects (sq + 1) d) \<and> \<not> pc_resync_expected d \<and> pc_last_received_seq d = Some sq"
  using recv_message_pins [OF assms(1,2), of c "[]"] assms(3-5) by simp

subsection \<open>Sending a message\<close>

lemma write_frames_between:
  assumes "window cfg w (us @ replicate (length fs) free_view @ vs) (pc_store c)" "pc_config c = cfg"
    and "pc_head c = (unat (rg_tail w) + length us) mod capacity cfg" "slot_size cfg + FRAME_HEADER_LEN < 2 ^ 32"
    and "\<forall>f \<in> set fs. length f \<le> slot_size cfg + FRAME_HEADER_LEN"
  shows "\<exists>t. for_each fs (write_frame_at_head io sq ident) c =
      (Ok (), c\<lparr>pc_store := t, pc_head := (unat (rg_tail w) + length us + length fs) mod capacity cfg,
         pc_len := pc_len c + length fs\<rparr>) \<and>
    window cfg w (us @ map (committed_view sq) fs @ vs) t"
  using assms
proof (induction fs arbitrary: c us)
  case Nil
  then show ?case by (intro exI [of _ "pc_store c"]) simp
next
  case (Cons f fs)
  have "window cfg w (us @ free_view # (replicate (length fs) free_view @ vs)) (pc_store c)" using Cons.prems(1) by simp
  from window_fill [OF this _ Cons.prems(4), of f sq "Some ident"] Cons.prems(3,5) obtain t where
    t: "pwrite_committed_no_flush io (pc_head c) sq f (Some ident) (pc_store c) = (Ok (), t)"
      "window cfg w (us @ committed_view sq f # (replicate (length fs) free_view @ vs)) t" by auto
  let ?d = "c\<lparr>pc_store := t, pc_head := (pc_head c + 1) mod capacity cfg, pc_len := pc_len c + 1\<rparr>"
  have step: "write_frame_at_head io sq ident f c = (Ok (), ?d)"
    using t(1) Cons.prems(2) by (simp add: write_frame_at_head_def pcapacity_def)
  have head: "pc_head ?d = (unat (rg_tail w) + length (us @ [committed_view sq f])) mod capacity cfg"
    using Cons.prems(3) by (simp add: mod_Suc_eq)
  from Cons.IH [of "us @ [committed_view sq f]" ?d] t(2) head Cons.prems obtain u where
    "for_each fs (write_frame_at_head io sq ident) ?d =
      (Ok (), ?d\<lparr>pc_store := u, pc_head := (unat (rg_tail w) + length (us @ [committed_view sq f]) + length fs) mod capacity cfg,
         pc_len := pc_len ?d + length fs\<rparr>)"
    "window cfg w ((us @ [committed_view sq f]) @ map (committed_view sq) fs @ vs) u" by auto
  with step show ?case by (intro exI [of _ u]) simp
qed

lemma write_frames_at:
  assumes w: "window cfg w vs (pc_store c)" "pc_config c = cfg" "pc_head c = (unat (rg_tail w) + length vs) mod capacity cfg"
    and room: "length vs + length fs \<le> capacity cfg"
    and f: "slot_size cfg + FRAME_HEADER_LEN < 2 ^ 32" "\<forall>f \<in> set fs. length f \<le> slot_size cfg + FRAME_HEADER_LEN"
  shows "\<exists>t. for_each fs (write_frame_at_head io sq ident) c =
      (Ok (), c\<lparr>pc_store := t, pc_head := (unat (rg_tail w) + length vs + length fs) mod capacity cfg,
         pc_len := pc_len c + length fs\<rparr>) \<and>
    window cfg w (vs @ map (committed_view sq) fs) t"
proof -
  have "window cfg w (vs @ replicate (length fs) free_view @ []) (pc_store c)"
    using window_reserved [OF room] w(1) by simp
  from write_frames_between [OF this w(2,3) f] show ?thesis by simp
qed

lemma publish_head_at:
  assumes w: "window cfg w vs (pc_store c)" and hc: "unat (pc_head_cursor c) + length fs < 2 ^ 64"
    and fs: "\<forall>f \<in> set fs. length f \<le> slot_size cfg + FRAME_HEADER_LEN" "fs \<noteq> []"
  shows "\<exists>u. publish_head io fs k c =
      (Ok (), c\<lparr>pc_head_cursor := pc_head_cursor c + word_of_nat (length fs), pc_store := u\<rparr>) \<and>
    window cfg (w\<lparr>rg_head := pc_head_cursor c + word_of_nat (length fs)\<rparr>) vs u"
proof -
  from window_publish [OF w] obtain u where
    u: "store_head io (pc_head_cursor c + word_of_nat (length fs)) (pc_store c) = (Ok (), u)"
      "window cfg (w\<lparr>rg_head := pc_head_cursor c + word_of_nat (length fs)\<rparr>) vs u" by blast
  with window_flushes(2) [OF u(2) fs] hc show ?thesis
    by (auto simp: publish_head_def add_u64_def)
qed

end

end
