(* ===== verification/Persistent_Duplex.thy ===== *)
theory Persistent_Duplex
  imports Persistent_Refinement Channel_Contract
begin

text \<open>
  Two handles of one persistent channel, a producer's and a consumer's, over one shared store: the
  invariant the two of them keep, the refinement of the bounded message queue by their sends and
  receives in any interleaving, and the channel contract on memory-mapped files.
\<close>

section \<open>The shared state\<close>

record 's duplex =
  dx_store :: 's
  dx_producer :: "'s persistent_channel"
  dx_consumer :: "'s persistent_channel"

text \<open>A method of one handle runs on the shared store as it finds it.\<close>

definition as_producer :: "('s, 'a) channel_action \<Rightarrow> ('s duplex, dsline_error, 'a) action" where
  "as_producer = zoom (\<lambda>d. (dx_producer d)\<lparr>pc_store := dx_store d\<rparr>)
     (\<lambda>c d. d\<lparr>dx_producer := c, dx_store := pc_store c\<rparr>)"

definition as_consumer :: "('s, 'a) channel_action \<Rightarrow> ('s duplex, dsline_error, 'a) action" where
  "as_consumer = zoom (\<lambda>d. (dx_consumer d)\<lparr>pc_store := dx_store d\<rparr>)
     (\<lambda>c d. d\<lparr>dx_consumer := c, dx_store := pc_store c\<rparr>)"

definition duplex_send :: "'s region_io_ops \<Rightarrow> 's channel_env \<Rightarrow> nat \<Rightarrow> bytes \<Rightarrow> ('s duplex, dsline_error, unit) action" where
  "duplex_send io env fuel m = as_producer (psend io env fuel m)"

definition duplex_recv :: "'s region_io_ops \<Rightarrow> 's channel_env \<Rightarrow> ('s duplex, dsline_error, bytes) action" where
  "duplex_recv io env = as_consumer (precv io env)"

section \<open>The invariant\<close>

text \<open>The channels this covers: one producer, and no dropping of the oldest message (a drop by the
  producer's handle is not seen by the consumer's); a frame's length fits 32 bits.\<close>

definition shared_config :: "spsc_config \<Rightarrow> bool" where
  "shared_config cfg \<longleftrightarrow> \<not> multi_producer cfg \<and> backpressure cfg \<noteq> DropOldest \<and>
     slot_size cfg + FRAME_HEADER_LEN < 2 ^ 32"

definition store_holds ::
  "'s region_io_ops \<Rightarrow> ('s \<Rightarrow> bool) \<Rightarrow> ('s \<Rightarrow> bytes) \<Rightarrow> (bytes \<Rightarrow> u32) \<Rightarrow> spsc_config \<Rightarrow> ring_words \<Rightarrow> u64 \<Rightarrow> bytes list \<Rightarrow> 's \<Rightarrow> bool" where
  "store_holds io ok mem crc cfg w sq ms s \<longleftrightarrow>
     (\<exists>ws. queued_slots io ok mem cfg w (map (\<lambda>(q, f). committed_view q f) ws) s \<and> stored crc cfg sq ms ws)"

definition producer_at :: "spsc_config \<Rightarrow> ring_words \<Rightarrow> u64 \<Rightarrow> 's persistent_channel \<Rightarrow> bool" where
  "producer_at cfg w sq c \<longleftrightarrow> pc_config c = cfg \<and> pc_recovery_bias c = 0 \<and> pc_next_seq c = sq \<and>
     pc_head c = unat (rg_head w) mod capacity cfg"

definition consumer_at :: "spsc_config \<Rightarrow> u64 \<Rightarrow> 's persistent_channel \<Rightarrow> bool" where
  "consumer_at cfg sq c \<longleftrightarrow> pc_config c = cfg \<and> pc_recovery_bias c = 0 \<and> expects sq c"

definition duplex_config :: "'s duplex \<Rightarrow> spsc_config" where
  "duplex_config d = pc_config (dx_producer d)"

text \<open>The messages \<open>ms\<close> are in the store, numbered from \<open>sq\<close>: the consumer expects \<open>sq\<close>, the producer
  continues after them.\<close>

definition duplex_holds ::
  "'s region_io_ops \<Rightarrow> ('s \<Rightarrow> bool) \<Rightarrow> ('s \<Rightarrow> bytes) \<Rightarrow> (bytes \<Rightarrow> u32) \<Rightarrow> 's duplex \<Rightarrow> bytes list \<Rightarrow> bool" where
  "duplex_holds io ok mem crc d ms \<longleftrightarrow>
     (\<exists>w sq. shared_config (duplex_config d) \<and> store_holds io ok mem crc (duplex_config d) w sq ms (dx_store d) \<and>
        producer_at (duplex_config d) w (sq + word_of_nat (length ms)) (dx_producer d) \<and>
        consumer_at (duplex_config d) sq (dx_consumer d))"

definition duplex_inv ::
  "'s region_io_ops \<Rightarrow> ('s \<Rightarrow> bool) \<Rightarrow> ('s \<Rightarrow> bytes) \<Rightarrow> (bytes \<Rightarrow> u32) \<Rightarrow> 's duplex \<Rightarrow> bool" where
  "duplex_inv io ok mem crc d \<longleftrightarrow> (\<exists>ms. duplex_holds io ok mem crc d ms)"

text \<open>The messages a store holds, read off its slots.\<close>

definition store_messages :: "('s \<Rightarrow> bytes) \<Rightarrow> spsc_config \<Rightarrow> 's \<Rightarrow> bytes list" where
  "store_messages mem cfg s =
     (let w = words_of (mem s) in
      messages_in (map snd (take (unat (rg_head w - rg_tail w))
        (rotate (unat (rg_tail w)) (slot_views (capacity cfg) (region_slot_len cfg) (mem s))))))"

definition duplex_messages :: "('s \<Rightarrow> bytes) \<Rightarrow> 's duplex \<Rightarrow> bytes list" where
  "duplex_messages mem d = store_messages mem (duplex_config d) (dx_store d)"

definition head_count :: "('s \<Rightarrow> bytes) \<Rightarrow> 's duplex \<Rightarrow> nat" where
  "head_count mem d = unat (rg_head (words_of (mem (dx_store d))))"

text \<open>The specification states of the two ends: each handle is closed on its own.\<close>

definition producer_queue :: "('s \<Rightarrow> bytes) \<Rightarrow> 's duplex \<Rightarrow> message_queue" where
  "producer_queue mem d = \<lparr>mq_config = duplex_config d, mq_msgs = duplex_messages mem d, mq_shut = pc_closed (dx_producer d)\<rparr>"

definition consumer_queue :: "('s \<Rightarrow> bytes) \<Rightarrow> 's duplex \<Rightarrow> message_queue" where
  "consumer_queue mem d = \<lparr>mq_config = duplex_config d, mq_msgs = duplex_messages mem d, mq_shut = pc_closed (dx_consumer d)\<rparr>"

lemma snd_committed [simp]: "snd (committed_view q f) = f"
  by (simp add: committed_view_def)

section \<open>Send and receive\<close>

context region_io
begin

abbreviation sholds :: "(bytes \<Rightarrow> u32) \<Rightarrow> spsc_config \<Rightarrow> ring_words \<Rightarrow> u64 \<Rightarrow> bytes list \<Rightarrow> 's \<Rightarrow> bool" where
  "sholds \<equiv> store_holds io inv mem"

lemma sholds_words: "sholds crc cfg w sq ms s \<Longrightarrow> words_of (mem s) = w"
  by (auto simp: store_holds_def queued_slots_def ring_window_def at_ring_def)

lemma sholds_used:
  assumes "sholds crc cfg w sq ms s"
  shows "used_slots cfg ms \<le> capacity cfg" "0 < capacity cfg" "store_messages mem cfg s = ms"
    "unat (rg_head w) = unat (rg_tail w) + used_slots cfg ms"
proof -
  from assms obtain ws where ws: "queued cfg w (map (\<lambda>(q, f). committed_view q f) ws) s" "stored crc cfg sq ms ws"
    by (auto simp: store_holds_def)
  then have win: "window cfg w (map (\<lambda>(q, f). committed_view q f) ws) s" by (simp add: queued_slots_def)
  note n = window_length [OF win]
  show cap: "0 < capacity cfg" by (rule n(2))
  have len: "length ws = used_slots cfg ms" using stored_length [OF ws(2) cap] .
  with n(1) show "used_slots cfg ms \<le> capacity cfg" by simp
  show h: "unat (rg_head w) = unat (rg_tail w) + used_slots cfg ms"
    using ws(1) len by (simp add: queued_slots_def)
  from win obtain views where v: "ring (capacity cfg) (region_slot_len cfg) w views s"
    "rotate (unat (rg_tail w)) views = map (\<lambda>(q, f). committed_view q f) ws @ replicate (capacity cfg - length ws) free_view"
    by (auto simp: ring_window_def)
  then have "slot_views (capacity cfg) (region_slot_len cfg) (mem s) = views" by (simp add: at_ring_def)
  moreover have "map snd (map (\<lambda>(q, f). committed_view q f) ws) = map snd ws" by (simp add: split_def)
  ultimately show "store_messages mem cfg s = ms"
    using messages_in_stored [OF ws(2) cap] v(2) unat_diff_add [OF h] len sholds_words [OF assms]
    by (simp add: store_messages_def Let_def del: map_map)
qed

text \<open>Writing and publishing frames where the slots from the head on are free.\<close>

lemma append_between:
  assumes win: "window cfg w (us @ replicate (length fs) free_view @ vs) (pc_store c)" and pc: "pc_config c = cfg"
    and head: "pc_head c = (unat (rg_tail w) + length us) mod capacity cfg" and small: "slot_size cfg + FRAME_HEADER_LEN < 2 ^ 32"
    and fs: "\<forall>f \<in> set fs. length f \<le> slot_size cfg + FRAME_HEADER_LEN" "fs \<noteq> []"
    and loaded: "pc_head_cursor c = rg_head w" and count: "unat (rg_head w) + length fs < 2 ^ 64"
  defines "hc \<equiv> rg_head w + word_of_nat (length fs)"
  shows "\<exists>d. seq (for_each fs (write_frame_at_head io sq ident)) (publish_head io fs k) c = (Ok (), d) \<and>
    window cfg (w\<lparr>rg_head := hc\<rparr>) (us @ map (committed_view sq) fs @ vs) (pc_store d) \<and>
    unat hc = unat (rg_head w) + length fs \<and> pc_head d = (unat (rg_tail w) + length us + length fs) mod capacity cfg \<and>
    pc_config d = cfg \<and> pc_next_seq d = pc_next_seq c \<and> pc_recovery_bias d = pc_recovery_bias c \<and> pc_closed d = pc_closed c"
proof -
  from write_frames_between [OF win pc head small fs(1), of sq ident] obtain t where
    t: "for_each fs (write_frame_at_head io sq ident) c = (Ok (), c\<lparr>pc_store := t,
        pc_head := (unat (rg_tail w) + length us + length fs) mod capacity cfg, pc_len := pc_len c + length fs\<rparr>)"
      "window cfg w (us @ map (committed_view sq) fs @ vs) t" by blast
  let ?d = "c\<lparr>pc_store := t, pc_head := (unat (rg_tail w) + length us + length fs) mod capacity cfg, pc_len := pc_len c + length fs\<rparr>"
  have win': "window cfg w (us @ map (committed_view sq) fs @ vs) (pc_store ?d)" using t(2) by simp
  have hc: "unat (pc_head_cursor ?d) + length fs < 2 ^ 64" using count loaded by simp
  from publish_head_at [OF win' hc fs, of k] loaded obtain v where
    v: "publish_head io fs k ?d = (Ok (), ?d\<lparr>pc_head_cursor := hc, pc_store := v\<rparr>)"
      "window cfg (w\<lparr>rg_head := hc\<rparr>) (us @ map (committed_view sq) fs @ vs) v" by (auto simp: hc_def)
  have "unat hc = unat (rg_head w) + length fs" using count by (simp add: hc_def unat_word_ariths unat_of_nat)
  with t(1) v pc show ?thesis by (intro exI [of _ "?d\<lparr>pc_head_cursor := hc, pc_store := v\<rparr>"]) simp
qed

text \<open>Encoding, writing and publishing a message that fits, on a handle that has just refreshed.\<close>

lemma append_at:
  assumes s: "sholds crc cfg w sq ms (pc_store c)" and c: "producer_at cfg w (sq + word_of_nat (length ms)) c"
    and loaded: "pc_head_cursor c = rg_head w" and small: "slot_size cfg + FRAME_HEADER_LEN < 2 ^ 32"
    and m: "length m \<le> isize_max"
    and plan: "send_plan_of cfg (length m) = Ok plan"
    and room: "used_slots cfg ms + needed_slots plan \<le> capacity cfg"
    and count: "unat (rg_head w) + capacity cfg < 2 ^ 64"
    and fs: "encode_message_frames crc cfg plan (pc_next_seq c) m = Ok fs"
  shows "\<exists>d w'. seq (for_each fs (write_frame_at_head io (pc_next_seq c) ident)) (publish_head io fs (pc_head c))
       (c\<lparr>pc_next_seq := pc_next_seq c + 1\<rparr>) = (Ok (), d) \<and>
     sholds crc cfg w' sq (ms @ [m]) (pc_store d) \<and> producer_at cfg w' (sq + word_of_nat (length (ms @ [m]))) d \<and>
     pc_closed d = pc_closed c \<and> unat (rg_head w') \<le> unat (rg_head w) + capacity cfg"
proof -
  let ?sq = "pc_next_seq c" and ?c = "c\<lparr>pc_next_seq := pc_next_seq c + 1\<rparr>" and ?hc = "rg_head w + word_of_nat (length fs)"
  note u = sholds_used [OF s]
  note e = encoded_message [OF plan u(2) m fs]
  from s obtain ws where ws: "queued cfg w (map (\<lambda>(q, f). committed_view q f) ws) (pc_store c)" "stored crc cfg sq ms ws"
    by (auto simp: store_holds_def)
  let ?vs = "map (\<lambda>(q, f). committed_view q f) ws"
  have len: "length ?vs = used_slots cfg ms" using stored_length [OF ws(2) u(2)] by simp
  then have room': "length ?vs + length fs \<le> capacity cfg" using room e(1) by simp
  have win: "window cfg w (?vs @ replicate (length fs) free_view @ []) (pc_store ?c)"
    using ws(1) window_reserved [OF room'] by (simp add: queued_slots_def)
  have h: "unat (rg_head w) = unat (rg_tail w) + length ?vs" using ws(1) by (simp add: queued_slots_def)
  have pc: "pc_config ?c = cfg" "pc_head ?c = (unat (rg_tail w) + length ?vs) mod capacity cfg" "pc_head_cursor ?c = rg_head w"
    using c h loaded by (simp_all add: producer_at_def)
  have fit: "\<forall>f \<in> set fs. length f \<le> slot_size cfg + FRAME_HEADER_LEN" using e(2) by (simp add: message_frames_def)
  have "unat (rg_head w) + length fs < 2 ^ 64" using count room' by linarith
  from append_between [OF win pc(1,2) small fit e(3) pc(3) this, of ?sq ident "pc_head c"] obtain d where
    d: "seq (for_each fs (write_frame_at_head io ?sq ident)) (publish_head io fs (pc_head c)) ?c = (Ok (), d)"
      "window cfg (w\<lparr>rg_head := ?hc\<rparr>) (?vs @ map (committed_view ?sq) fs) (pc_store d)"
      "unat ?hc = unat (rg_head w) + length fs" "pc_head d = (unat (rg_tail w) + length ?vs + length fs) mod capacity cfg"
      "pc_config d = cfg" "pc_next_seq d = ?sq + 1" "pc_recovery_bias d = pc_recovery_bias c" "pc_closed d = pc_closed c" by auto
  have sq: "?sq = sq + word_of_nat (length ms)" using c by (simp add: producer_at_def)
  have "stored crc cfg sq (ms @ [m]) (ws @ map (Pair ?sq) fs)"
    using ws(2) m plan fs sq by (auto simp: stored_append)
  moreover have "map (\<lambda>(q, f). committed_view q f) (ws @ map (Pair ?sq) fs) = ?vs @ map (committed_view ?sq) fs"
    by (simp add: o_def)
  moreover have "queued cfg (w\<lparr>rg_head := ?hc\<rparr>) (?vs @ map (committed_view ?sq) fs) (pc_store d)"
    using d(2,3) ws(1) h by (simp add: queued_slots_def)
  ultimately have "sholds crc cfg (w\<lparr>rg_head := ?hc\<rparr>) sq (ms @ [m]) (pc_store d)"
    unfolding store_holds_def by metis
  moreover have "producer_at cfg (w\<lparr>rg_head := ?hc\<rparr>) (sq + word_of_nat (length (ms @ [m]))) d"
    using c sq d(3-7) h by (simp add: producer_at_def)
  ultimately show ?thesis using d(1,3,8) room'
    by (intro exI [of _ d] exI [of _ "w\<lparr>rg_head := ?hc\<rparr>"]) simp
qed

text \<open>What admission answers on a handle that has just refreshed.\<close>

lemma wait_no_room:
  assumes "refresh_cursors io r = (Ok (), r)" "guard_room r < needed" "quiet env"
  shows "wait_for_space_until io env needed n r = (ChanErr BufferFull, r)"
  using assms by (induction n) simp_all

lemma admission_by_room:
  assumes r: "refresh_cursors io r = (Ok (), r)" and env: "quiet env" and need: "needed \<le> capacity (pc_config r)"
    and drop: "backpressure (pc_config r) = DropOldest \<longrightarrow> needed \<le> guard_room r"
  shows "pprepare_send_slots io env fuel needed r =
    (if needed \<le> guard_room r then Ok True
     else if backpressure (pc_config r) = DropNewest then Ok False else ChanErr BufferFull, r)"
proof (cases "needed \<le> guard_room r")
  case True
  with need show ?thesis by (simp add: pprepare_send_slots_def)
next
  case False
  show ?thesis
  proof (cases "backpressure (pc_config r)")
    case Block
    with False need wait_no_room [OF r _ env, of needed] show ?thesis
      by (simp add: pprepare_send_slots_def pwait_for_space_def split: option.split)
  qed (use need False drop in \<open>simp_all add: pprepare_send_slots_def\<close>)
qed

lemma refreshed_twice:
  assumes q: "queued (pc_config c) w vs (pc_store c)" and bias: "pc_recovery_bias c = 0"
  shows "refresh_cursors io (refreshed w (length vs) c) = (Ok (), refreshed w (length vs) c)"
proof -
  let ?r = "refreshed w (length vs) c"
  have "queued (pc_config ?r) w vs (pc_store ?r)" "pc_recovery_bias ?r = 0" "refreshed w (length vs) ?r = ?r"
    using q bias by (simp_all add: refreshed_def pcapacity_def)
  with refresh_queued(1) [of ?r w vs] show ?thesis by simp
qed

lemma wait_full:
  assumes "queued (pc_config c) w vs (pc_store c)" "pc_recovery_bias c = 0" "quiet env"
    and "capacity (pc_config c) - length vs < needed"
  shows "wait_for_space_until io env needed n (refreshed w (length vs) c) = (ChanErr BufferFull, refreshed w (length vs) c)"
  using wait_no_room [OF refreshed_twice [OF assms(1,2)] _ assms(3)] refresh_queued(3) [OF assms(1,2)] assms(4) by simp

lemma admission:
  assumes q: "queued (pc_config c) w vs (pc_store c)" and bias: "pc_recovery_bias c = 0" and env: "quiet env"
    and drop: "backpressure (pc_config c) = DropOldest \<longrightarrow> needed \<le> capacity (pc_config c) - length vs" and need: "needed \<le> capacity (pc_config c)"
  shows "pprepare_send_slots io env fuel needed (refreshed w (length vs) c) =
    (if needed \<le> capacity (pc_config c) - length vs then Ok True
     else if backpressure (pc_config c) = DropNewest then Ok False else ChanErr BufferFull, refreshed w (length vs) c)"
proof -
  have "pc_config (refreshed w (length vs) c) = pc_config c" by (simp add: refreshed_def)
  with admission_by_room [OF refreshed_twice [OF q bias] env] refresh_queued(3) [OF q bias] drop need show ?thesis by simp
qed

lemma psend_by_room:
  assumes live: "\<not> pc_closed c" "\<not> multi_producer (pc_config c)" and env: "quiet env"
    and r: "refresh_cursors io c = (Ok (), r)" "refresh_cursors io r = (Ok (), r)" "pc_config r = pc_config c"
    and plan: "send_plan_of (pc_config c) (length m) = Ok plan" and cap: "0 < capacity (pc_config c)"
  defines "t \<equiv> r\<lparr>pc_next_seq := pc_next_seq r + 1\<rparr>"
  shows "needed_slots plan \<le> guard_room r \<Longrightarrow> encode_message_frames (env_crc env) (pc_config c) plan (pc_next_seq r) m = Ok fs \<Longrightarrow>
      psend io env fuel m c = seq (for_each fs (write_frame_at_head io (pc_next_seq r) (stamp env (needed_slots plan) t)))
        (publish_head io fs (pc_head r)) t"
    "guard_room r < needed_slots plan \<Longrightarrow> backpressure (pc_config c) \<noteq> DropOldest \<Longrightarrow>
      psend io env fuel m c = (if backpressure (pc_config c) = DropNewest then Ok () else ChanErr BufferFull, r)"
proof -
  have need: "needed_slots plan \<le> capacity (pc_config r)" using needed_slots_bounds(2) [OF plan cap] r(3) by simp
  note a = admission_by_room [OF r(2) env need, of fuel]
  {
    assume room: "needed_slots plan \<le> guard_room r" and fs: "encode_message_frames (env_crc env) (pc_config c) plan (pc_next_seq r) m = Ok fs"
    from a room have "pprepare_send_slots io env fuel (needed_slots plan) r = (Ok True, r)" by simp
    with live r(1,3) plan fs show "psend io env fuel m c =
        seq (for_each fs (write_frame_at_head io (pc_next_seq r) (stamp env (needed_slots plan) t))) (publish_head io fs (pc_head r)) t"
      by (simp add: psend_def send_spsc_def take_sequence_def t_def split_beta split: outcome.split)
  next
    assume full: "guard_room r < needed_slots plan" and bp: "backpressure (pc_config c) \<noteq> DropOldest"
    with a r(3) have "pprepare_send_slots io env fuel (needed_slots plan) r =
        (if backpressure (pc_config c) = DropNewest then Ok False else ChanErr BufferFull, r)" by simp
    with live r(1,3) plan show "psend io env fuel m c =
        (if backpressure (pc_config c) = DropNewest then Ok () else ChanErr BufferFull, r)"
      by (simp add: psend_def send_spsc_def)
  }
qed

text \<open>Every outcome of a send is the outcome of the specification.\<close>

lemma psend_refines:
  assumes s: "sholds (env_crc env) cfg w sq ms (pc_store c)" and c: "producer_at cfg w (sq + word_of_nat (length ms)) c"
    and cfg: "\<not> multi_producer cfg" "slot_size cfg + FRAME_HEADER_LEN < 2 ^ 32"
    and bp: "backpressure cfg = DropOldest \<longrightarrow> used_slots cfg ms + slots_of cfg m \<le> capacity cfg"
    and env: "quiet env" and m: "length m \<le> isize_max" and count: "unat (rg_head w) + capacity cfg < 2 ^ 64"
  defines "q \<equiv> \<lparr>mq_config = cfg, mq_msgs = ms, mq_shut = pc_closed c\<rparr>"
  shows "\<exists>d w'. psend io env fuel m c = (fst (queue_send m q), d) \<and>
    sholds (env_crc env) cfg w' sq (mq_msgs (snd (queue_send m q))) (pc_store d) \<and>
    producer_at cfg w' (sq + word_of_nat (length (mq_msgs (snd (queue_send m q))))) d \<and> pc_closed d = pc_closed c \<and>
    unat (rg_head w') \<le> unat (rg_head w) + capacity cfg"
proof (cases "pc_closed c")
  case True
  with s c show ?thesis by (auto simp: psend_def queue_send_def q_def)
next
  case False
  have pc: "pc_config c = cfg" "pc_recovery_bias c = 0" using c by (simp_all add: producer_at_def)
  note u = sholds_used [OF s]
  from s obtain ws where ws: "queued cfg w (map (\<lambda>(q, f). committed_view q f) ws) (pc_store c)" "stored (env_crc env) cfg sq ms ws"
    by (auto simp: store_holds_def)
  have q: "queued (pc_config c) w (map (\<lambda>(q, f). committed_view q f) ws) (pc_store c)" and len: "length ws = used_slots cfg ms"
    using ws pc stored_length [OF ws(2) u(2)] by simp_all
  let ?r = "refreshed w (used_slots cfg ms) c"
  have ref: "refresh_cursors io c = (Ok (), ?r)" "refresh_cursors io ?r = (Ok (), ?r)" "guard_room ?r = capacity cfg - used_slots cfg ms"
    using refresh_queued(1,3) [OF q pc(2)] refreshed_twice [OF q pc(2)] pc len by simp_all
  have keep: "sholds (env_crc env) cfg w sq ms (pc_store ?r)" "producer_at cfg w (sq + word_of_nat (length ms)) ?r"
    "pc_closed ?r = pc_closed c" "pc_config ?r = cfg" "pc_head_cursor ?r = rg_head w"
    using s c pc by (simp_all add: refreshed_def producer_at_def)
  show ?thesis
  proof (cases "send_plan_of cfg (length m)")
    case (Ok plan)
    have "\<not> multi_producer (pc_config c)" "pc_config ?r = pc_config c" "send_plan_of (pc_config c) (length m) = Ok plan" "0 < capacity (pc_config c)"
      using cfg keep(4) pc Ok u(2) by simp_all
    note send = psend_by_room [OF False this(1) env ref(1,2) this(2-4), unfolded pc(1)]
    show ?thesis
    proof (cases "needed_slots plan \<le> capacity cfg - used_slots cfg ms")
      case True
      then have room: "used_slots cfg ms + needed_slots plan \<le> capacity cfg" using u(1) by simp
      obtain fs where fs: "encode_message_frames (env_crc env) cfg plan (pc_next_seq ?r) m = Ok fs"
        using encode_message_frames_Ok [OF Ok u(2) m] by metis
      let ?t = "?r\<lparr>pc_next_seq := pc_next_seq ?r + 1\<rparr>"
      from append_at [OF keep(1,2,5) cfg(2) m Ok room count fs, of "stamp env (needed_slots plan) ?t"] obtain d w' where
        "seq (for_each fs (write_frame_at_head io (pc_next_seq ?r) (stamp env (needed_slots plan) ?t)))
            (publish_head io fs (pc_head ?r)) ?t = (Ok (), d)"
          "sholds (env_crc env) cfg w' sq (ms @ [m]) (pc_store d)"
          "producer_at cfg w' (sq + word_of_nat (length (ms @ [m]))) d" "pc_closed d = pc_closed ?r"
          "unat (rg_head w') \<le> unat (rg_head w) + capacity cfg" by blast
      with send(1) [OF _ fs] ref(3) keep(3) False Ok True show ?thesis by (auto simp: queue_send_def q_def Let_def)
    next
      case full: False
      moreover have "backpressure cfg \<noteq> DropOldest" using bp full Ok u(1) by auto
      ultimately show ?thesis using send(2) ref(3) keep False Ok
        by (intro exI [of _ ?r] exI [of _ w]) (cases "backpressure cfg"; simp add: queue_send_def q_def Let_def)
    qed
  qed (use ref keep False in \<open>auto simp: psend_def queue_send_def q_def\<close>)
qed

text \<open>So is every outcome of a receive.\<close>

lemma precv_refines:
  assumes s: "sholds (env_crc env) cfg w sq ms (pc_store c)" and c: "consumer_at cfg sq c"
    and env: "quiet env"
  defines "q \<equiv> \<lparr>mq_config = cfg, mq_msgs = ms, mq_shut = pc_closed c\<rparr>"
  shows "\<exists>d w'. precv io env c = (fst (queue_recv q), d) \<and>
    sholds (env_crc env) cfg w' (if ms = [] then sq else sq + 1) (mq_msgs (snd (queue_recv q))) (pc_store d) \<and>
    rg_head w' = rg_head w \<and> consumer_at cfg (if ms = [] then sq else sq + 1) d \<and> pc_closed d = pc_closed c \<and>
    (ms \<noteq> [] \<longrightarrow> \<not> pc_resync_expected d)"
proof -
  have pc: "pc_config c = cfg" "pc_recovery_bias c = 0" "expects sq c" using c by (simp_all add: consumer_at_def)
  from s obtain ws where ws: "queued cfg w (map (\<lambda>(q, f). committed_view q f) ws) (pc_store c)" "stored (env_crc env) cfg sq ms ws"
    by (auto simp: store_holds_def)
  show ?thesis
  proof (cases ms)
    case Nil
    with ws have "queued (pc_config c) w [] (pc_store c)" using pc by simp
    from ensure_empty [OF this pc(2) env] pc(1) obtain d where
      d: "ensure_tail_readable io env c = (ChanErr (if pc_closed c then Closed else BufferEmpty), d)"
        "at_tail cfg [] d" "same_handle (c\<lparr>pc_head_cursor := rg_head w\<rparr>) d" by auto
    have "sholds (env_crc env) cfg (loaded_words d) sq [] (pc_store d)"
      using d(2) by (simp add: store_holds_def loaded_def)
    moreover have "rg_head (loaded_words d) = rg_head w" using d(3) by (simp add: loaded_words_def same_handle_def)
    moreover have "consumer_at cfg sq d"
      using d(2,3) pc by (simp add: consumer_at_def loaded_def same_handle_def expects_def)
    ultimately show ?thesis using d Nil
      by (intro exI [of _ d] exI [of _ "loaded_words d"]) (auto simp: precv_def precv_with_seq_def queue_recv_def q_def same_handle_def)
  next
    case (Cons m ms')
    from ws(2) obtain plan fs ws' where f: "length m \<le> isize_max" "send_plan_of cfg (length m) = Ok plan"
      "encode_message_frames (env_crc env) cfg plan sq m = Ok fs" "ws = map (Pair sq) fs @ ws'"
      "stored (env_crc env) cfg (sq + 1) ms' ws'" using Cons by auto
    note e = encoded_message [OF f(2) sholds_used(2) [OF s] f(1,3)]
    have "queued (pc_config c) w (map (committed_view sq) fs @ map (\<lambda>(q, f). committed_view q f) ws') (pc_store c)"
      using ws(1) f(4) pc(1) by (simp add: o_def)
    from recv_message_at [OF e(2) f(1) this pc(2)] pc(1,3) obtain d where
      d: "precv_with_seq io env c = (Ok \<lparr>rm_seq = sq, rm_payload = m\<rparr>, d)"
        "at_tail cfg (map (\<lambda>(q, f). committed_view q f) ws') d" "pc_closed d = pc_closed c"
        "pc_head_cursor d = rg_head w" "expects (sq + 1) d" "\<not> pc_resync_expected d" by auto
    have "sholds (env_crc env) cfg (loaded_words d) (sq + 1) ms' (pc_store d)"
      using d(2) f(5) by (auto simp: store_holds_def loaded_def)
    moreover have "consumer_at cfg (sq + 1) d" using d(2,5) by (simp add: consumer_at_def loaded_def)
    moreover have "rg_head (loaded_words d) = rg_head w" using d(4) by (simp add: loaded_words_def)
    ultimately show ?thesis using d Cons
      by (intro exI [of _ d] exI [of _ "loaded_words d"]) (simp add: precv_def queue_recv_def q_def)
  qed
qed

subsection \<open>The two handles together\<close>

lemma holds_messages:
  assumes "duplex_holds io inv mem crc d ms"
  shows "duplex_messages mem d = ms" "used_slots (duplex_config d) ms \<le> capacity (duplex_config d)"
  using assms sholds_used by (fastforce simp: duplex_holds_def duplex_messages_def)+

lemma duplex_send_refines:
  assumes d: "duplex_holds io inv mem (env_crc env) d ms" and env: "quiet env" and m: "length m \<le> isize_max"
    and count: "head_count mem d + capacity (duplex_config d) < 2 ^ 64"
  shows "\<exists>e. duplex_send io env fuel m d = (fst (queue_send m (producer_queue mem d)), e) \<and>
    duplex_holds io inv mem (env_crc env) e (mq_msgs (snd (queue_send m (producer_queue mem d)))) \<and>
    duplex_config e = duplex_config d \<and> pc_closed (dx_producer e) = pc_closed (dx_producer d) \<and>
    dx_consumer e = dx_consumer d \<and> head_count mem e \<le> head_count mem d + capacity (duplex_config d)"
proof -
  let ?cfg = "duplex_config d" and ?c = "(dx_producer d)\<lparr>pc_store := dx_store d\<rparr>"
  from d obtain w sq where w: "shared_config ?cfg" "sholds (env_crc env) ?cfg w sq ms (dx_store d)"
    "producer_at ?cfg w (sq + word_of_nat (length ms)) (dx_producer d)" "consumer_at ?cfg sq (dx_consumer d)"
    by (auto simp: duplex_holds_def)
  have s: "sholds (env_crc env) ?cfg w sq ms (pc_store ?c)" using w(2) by simp
  have c: "producer_at ?cfg w (sq + word_of_nat (length ms)) ?c" using w(3) by (simp add: producer_at_def)
  have n: "unat (rg_head w) + capacity ?cfg < 2 ^ 64" using count sholds_words [OF w(2)] by (simp add: head_count_def)
  have q: "producer_queue mem d = \<lparr>mq_config = ?cfg, mq_msgs = ms, mq_shut = pc_closed ?c\<rparr>"
    using holds_messages(1) [OF d] by (simp add: producer_queue_def)
  have cfg: "\<not> multi_producer ?cfg" "slot_size ?cfg + FRAME_HEADER_LEN < 2 ^ 32"
    "backpressure ?cfg = DropOldest \<longrightarrow> used_slots ?cfg ms + slots_of ?cfg m \<le> capacity ?cfg"
    using w(1) by (simp_all add: shared_config_def)
  from psend_refines [OF s c cfg env m n, of fuel] obtain e w' where
    e: "psend io env fuel m ?c = (fst (queue_send m (producer_queue mem d)), e)"
      "sholds (env_crc env) ?cfg w' sq (mq_msgs (snd (queue_send m (producer_queue mem d)))) (pc_store e)"
      "producer_at ?cfg w' (sq + word_of_nat (length (mq_msgs (snd (queue_send m (producer_queue mem d)))))) e"
      "pc_closed e = pc_closed ?c" "unat (rg_head w') \<le> unat (rg_head w) + capacity ?cfg" unfolding q by blast
  then show ?thesis using w(1,4) sholds_words [OF w(2)] sholds_words [OF e(2)]
    by (intro exI [of _ "d\<lparr>dx_producer := e, dx_store := pc_store e\<rparr>"])
      (auto simp: head_count_def duplex_send_def as_producer_def duplex_holds_def duplex_config_def producer_at_def)
qed

lemma duplex_recv_refines:
  assumes d: "duplex_holds io inv mem (env_crc env) d ms" and env: "quiet env"
  shows "\<exists>e. duplex_recv io env d = (fst (queue_recv (consumer_queue mem d)), e) \<and>
    duplex_holds io inv mem (env_crc env) e (mq_msgs (snd (queue_recv (consumer_queue mem d)))) \<and>
    duplex_config e = duplex_config d \<and> pc_closed (dx_consumer e) = pc_closed (dx_consumer d) \<and>
    dx_producer e = dx_producer d \<and> head_count mem e = head_count mem d"
proof -
  let ?cfg = "duplex_config d" and ?c = "(dx_consumer d)\<lparr>pc_store := dx_store d\<rparr>"
  from d obtain w sq where w: "shared_config ?cfg" "sholds (env_crc env) ?cfg w sq ms (dx_store d)"
    "producer_at ?cfg w (sq + word_of_nat (length ms)) (dx_producer d)" "consumer_at ?cfg sq (dx_consumer d)"
    by (auto simp: duplex_holds_def)
  have s: "sholds (env_crc env) ?cfg w sq ms (pc_store ?c)" using w(2) by simp
  have c: "consumer_at ?cfg sq ?c" using w(4) by (simp add: consumer_at_def expects_def)
  have q: "consumer_queue mem d = \<lparr>mq_config = ?cfg, mq_msgs = ms, mq_shut = pc_closed ?c\<rparr>"
    using holds_messages(1) [OF d] by (simp add: consumer_queue_def)
  let ?ms = "mq_msgs (snd (queue_recv (consumer_queue mem d)))" and ?sq = "if ms = [] then sq else sq + 1"
  from precv_refines [OF s c env] obtain e w' where
    e: "precv io env ?c = (fst (queue_recv (consumer_queue mem d)), e)"
      "sholds (env_crc env) ?cfg w' ?sq ?ms (pc_store e)" "rg_head w' = rg_head w"
      "consumer_at ?cfg ?sq e" "pc_closed e = pc_closed ?c" unfolding q by blast
  have "sq + word_of_nat (length ms) = ?sq + word_of_nat (length ?ms)"
    by (cases ms) (simp_all add: q queue_recv_def add.assoc)
  then have p: "producer_at ?cfg w' (?sq + word_of_nat (length ?ms)) (dx_producer d)"
    using w(3) e(3) by (simp add: producer_at_def)
  let ?e = "d\<lparr>dx_consumer := e, dx_store := pc_store e\<rparr>"
  have "duplex_recv io env d = (fst (queue_recv (consumer_queue mem d)), ?e)"
    using e(1) by (simp add: duplex_recv_def as_consumer_def)
  moreover have "duplex_holds io inv mem (env_crc env) ?e ?ms"
    unfolding duplex_holds_def using w(1) e(2,4) p by (intro exI [of _ w'] exI [of _ ?sq]) (simp add: duplex_config_def)
  moreover have "head_count mem ?e = head_count mem d"
    using sholds_words [OF w(2)] sholds_words [OF e(2)] e(3) by (simp add: head_count_def)
  ultimately show ?thesis using e(5) by (intro exI [of _ ?e]) (simp add: duplex_config_def)
qed

text \<open>The same in terms of the specification states of the two ends.\<close>

lemma duplex_refines:
  assumes d: "duplex_inv io inv mem (env_crc env) d" and env: "quiet env"
  shows "length m \<le> isize_max \<Longrightarrow> head_count mem d + capacity (duplex_config d) < 2 ^ 64 \<Longrightarrow>
      map_prod id (producer_queue mem) (duplex_send io env fuel m d) = queue_send m (producer_queue mem d) \<and>
      duplex_inv io inv mem (env_crc env) (snd (duplex_send io env fuel m d))"
    "map_prod id (consumer_queue mem) (duplex_recv io env d) = queue_recv (consumer_queue mem d) \<and>
      duplex_inv io inv mem (env_crc env) (snd (duplex_recv io env d))"
proof -
  from d obtain ms where ms: "duplex_holds io inv mem (env_crc env) d ms" by (auto simp: duplex_inv_def)
  have eta: "q = \<lparr>mq_config = c, mq_msgs = mq_msgs q, mq_shut = b\<rparr>"
    if "mq_config q = c" "mq_shut q = b" for q :: message_queue and c b using that by simp
  have keep: "mq_config (snd (queue_send m q)) = mq_config q" "mq_shut (snd (queue_send m q)) = mq_shut q"
    "mq_config (snd (queue_recv q)) = mq_config q" "mq_shut (snd (queue_recv q)) = mq_shut q" for q
    by (auto simp: queue_send_def queue_recv_def Let_def split: outcome.split backpressure.split list.split)
  show "map_prod id (producer_queue mem) (duplex_send io env fuel m d) = queue_send m (producer_queue mem d) \<and>
      duplex_inv io inv mem (env_crc env) (snd (duplex_send io env fuel m d))"
    if "length m \<le> isize_max" "head_count mem d + capacity (duplex_config d) < 2 ^ 64"
  proof -
    from duplex_send_refines [OF ms env that, of fuel] obtain e where
      e: "duplex_send io env fuel m d = (fst (queue_send m (producer_queue mem d)), e)"
        "duplex_holds io inv mem (env_crc env) e (mq_msgs (snd (queue_send m (producer_queue mem d))))"
        "duplex_config e = duplex_config d" "pc_closed (dx_producer e) = pc_closed (dx_producer d)" by blast
    have "producer_queue mem e = snd (queue_send m (producer_queue mem d))"
      using eta [OF keep(1) [of "producer_queue mem d"] keep(2) [of "producer_queue mem d"]] holds_messages(1) [OF e(2)] e(3,4)
      by (simp add: producer_queue_def)
    with e show ?thesis by (auto simp: prod_eq_iff duplex_inv_def)
  qed
  from duplex_recv_refines [OF ms env] obtain e where
    e: "duplex_recv io env d = (fst (queue_recv (consumer_queue mem d)), e)"
      "duplex_holds io inv mem (env_crc env) e (mq_msgs (snd (queue_recv (consumer_queue mem d))))"
      "duplex_config e = duplex_config d" "pc_closed (dx_consumer e) = pc_closed (dx_consumer d)" by blast
  have "consumer_queue mem e = snd (queue_recv (consumer_queue mem d))"
    using eta [OF keep(3) [of "consumer_queue mem d"] keep(4) [of "consumer_queue mem d"]] holds_messages(1) [OF e(2)] e(3,4)
    by (simp add: consumer_queue_def)
  with e show "map_prod id (consumer_queue mem) (duplex_recv io env d) = queue_recv (consumer_queue mem d) \<and>
      duplex_inv io inv mem (env_crc env) (snd (duplex_recv io env d))"
    by (auto simp: prod_eq_iff duplex_inv_def)
qed

end

section \<open>A FIFO channel over every storage\<close>

text \<open>The producer's handle is open, the slots the message needs are free, and the head counter is not
  about to overflow.\<close>

definition duplex_room :: "('s \<Rightarrow> bytes) \<Rightarrow> 's duplex \<Rightarrow> bytes \<Rightarrow> bool" where
  "duplex_room mem d m \<longleftrightarrow> \<not> pc_closed (dx_producer d) \<and> length m \<le> isize_max \<and>
     head_count mem d + capacity (duplex_config d) < 2 ^ 64 \<and>
     (case send_plan_of (duplex_config d) (length m) of
        Ok plan \<Rightarrow> used_slots (duplex_config d) (duplex_messages mem d) + needed_slots plan \<le> capacity (duplex_config d)
      | _ \<Rightarrow> False)"

sublocale region_io \<subseteq> duplex: fifo_channel "duplex_send io env fuel" "duplex_recv io env"
  "\<lambda>d. quiet env \<and> duplex_inv io inv mem (env_crc env) d" "duplex_messages mem" "duplex_room mem"
  for env fuel
proof
  fix d :: "'s duplex" and m
  assume d: "quiet env \<and> duplex_inv io inv mem (env_crc env) d" and room: "duplex_room mem d m"
  then obtain plan where plan: "send_plan_of (duplex_config d) (length m) = Ok plan"
    "used_slots (duplex_config d) (duplex_messages mem d) + needed_slots plan \<le> capacity (duplex_config d)"
    "\<not> pc_closed (dx_producer d)" "length m \<le> isize_max" "head_count mem d + capacity (duplex_config d) < 2 ^ 64"
    by (auto simp: duplex_room_def split: outcome.splits)
  from d obtain ms where ms: "duplex_holds io inv mem (env_crc env) d ms" by (auto simp: duplex_inv_def)
  have "queue_send m (producer_queue mem d) =
      (Ok (), (producer_queue mem d)\<lparr>mq_msgs := duplex_messages mem d @ [m]\<rparr>)"
    using plan by (simp add: queue_send_def producer_queue_def le_diff_conv2)
  with duplex_send_refines [OF ms _ plan(4,5), of fuel] d holds_messages(1)
  show "\<exists>t. duplex_send io env fuel m d = (Ok (), t) \<and> (quiet env \<and> duplex_inv io inv mem (env_crc env) t) \<and>
      duplex_messages mem t = duplex_messages mem d @ [m]" by (fastforce simp: duplex_inv_def)
next
  fix d :: "'s duplex" and m ms
  assume d: "quiet env \<and> duplex_inv io inv mem (env_crc env) d" and q: "duplex_messages mem d = m # ms"
  then obtain ns where ns: "duplex_holds io inv mem (env_crc env) d ns" by (auto simp: duplex_inv_def)
  have "queue_recv (consumer_queue mem d) = (Ok m, (consumer_queue mem d)\<lparr>mq_msgs := ms\<rparr>)"
    using q by (simp add: queue_recv_def consumer_queue_def)
  with duplex_recv_refines [OF ns] d holds_messages(1)
  show "\<exists>t. duplex_recv io env d = (Ok m, t) \<and> (quiet env \<and> duplex_inv io inv mem (env_crc env) t) \<and>
      duplex_messages mem t = ms" by (fastforce simp: duplex_inv_def)
next
  fix d :: "'s duplex"
  assume d: "quiet env \<and> duplex_inv io inv mem (env_crc env) d" and q: "duplex_messages mem d = []"
  then obtain ns where ns: "duplex_holds io inv mem (env_crc env) d ns" by (auto simp: duplex_inv_def)
  have "queue_recv (consumer_queue mem d) =
      (ChanErr (if pc_closed (dx_consumer d) then Closed else BufferEmpty), consumer_queue mem d)"
    "mq_msgs (consumer_queue mem d) = []"
    using q by (simp_all add: queue_recv_def consumer_queue_def)
  with duplex_recv_refines [OF ns] d holds_messages(1)
  show "\<exists>e t. duplex_recv io env d = (Err e, t) \<and> (quiet env \<and> duplex_inv io inv mem (env_crc env) t) \<and>
      duplex_messages mem t = []" by (fastforce simp: duplex_inv_def)
qed

end
