(* ===== verification/Pinned_Slots.thy ===== *)
theory Pinned_Slots
  imports Persistent_Views Persistent_Duplex
begin

text \<open>
  The slots behind the tail that views hold: pinning the slot at the tail for \<open>recv_view\<close>, reading a
  held slot through its view, releasing the views in any order, and the pin floor that follows the
  oldest view still held.
\<close>

section \<open>The frame of a message in one slot\<close>

definition plain_header :: "(bytes \<Rightarrow> u32) \<Rightarrow> u64 \<Rightarrow> bytes \<Rightarrow> bytes" where
  "plain_header crc sq m = header_image Bytes 0 sq 0 0 (crc m) FRAME_HEADER_LEN (length m)"

lemma length_plain_header [simp]: "length (plain_header crc sq m) = FRAME_HEADER_LEN"
  by (simp add: plain_header_def)

lemma plain_header_encoded:
  "length m < 2 ^ 32 \<Longrightarrow> encode_frame_header Bytes 0 sq 0 0 (crc m) (length m) [] = Ok (plain_header crc sq m)"
  by (simp add: plain_header_def encode_frame_header_no_metadata)

lemma single_slot_frames:
  assumes "length m \<le> slot_size cfg" "slot_size cfg + FRAME_HEADER_LEN < 2 ^ 32"
  shows "send_plan_of cfg (length m) = Ok \<lparr>chunk_payload_size = slot_size cfg, needed_slots = 1\<rparr>"
    "encode_message_frames crc cfg \<lparr>chunk_payload_size = slot_size cfg, needed_slots = 1\<rparr> sq m = Ok [plain_header crc sq m @ m]"
  using assms plain_header_encoded [of m sq crc] by (simp_all add: send_plan_of_def encode_message_frames_def encode_frame_def)

lemma plain_header_decoded:
  assumes "length m < 2 ^ 32"
  shows "decode_frame_header (plain_header crc sq m) =
     Ok (\<lparr>hdr_flags = 0, hdr_kind = Bytes, hdr_header_len = word_of_nat FRAME_HEADER_LEN,
          hdr_payload_len = word_of_nat (length m), hdr_seq = sq, hdr_timestamp_ns = 0,
          hdr_schema_hash = 0, hdr_checksum = crc m\<rparr>, FRAME_HEADER_LEN + length m)"
  using decode_frame_header_image [of FRAME_HEADER_LEN "length m" Bytes 0 sq 0 0 "crc m" "[]"] assms
  by (simp add: plain_header_def FRAME_HEADER_LEN_def usize_max_def)

section \<open>The view of a slot\<close>

text \<open>The view that holds the slot of the cursor \<open>cur\<close>, with the frame of a payload of \<open>n\<close> bytes.\<close>

definition view_at :: "spsc_config \<Rightarrow> u64 \<Rightarrow> u64 \<Rightarrow> nat \<Rightarrow> shm_recv_view" where
  "view_at cfg cur sq n =
     (let i = unat cur mod capacity cfg in
      \<lparr>rv_index = i, rv_seq = sq,
       rv_payload_offset = REGION_HEADER_LEN + i * region_slot_len cfg + PERSISTENT_SLOT_HEADER_LEN + FRAME_HEADER_LEN,
       rv_payload_len = n, rv_cursor_value = cur, rv_released = False\<rparr>)"

lemma view_at_fields [simp]:
  "rv_cursor_value (view_at cfg cur sq n) = cur" "rv_index (view_at cfg cur sq n) = unat cur mod capacity cfg"
  "\<not> rv_released (view_at cfg cur sq n)"
  by (simp_all add: view_at_def Let_def)

text \<open>The slots that still count after the view at the floor is released.\<close>

definition from_pin :: "slot_view list \<Rightarrow> slot_view list" where
  "from_pin xs = dropWhile (\<lambda>x. x = free_view) xs"

lemma from_pin_held: "xs \<noteq> [] \<Longrightarrow> hd xs \<noteq> free_view \<Longrightarrow> from_pin xs = xs"
  by (cases xs) (simp_all add: from_pin_def)

lemma from_pin_split: "xs = replicate (length xs - length (from_pin xs)) free_view @ from_pin xs"
proof -
  have "takeWhile (\<lambda>x. x = free_view) xs = replicate (length (takeWhile (\<lambda>x. x = free_view) xs)) free_view"
    by (rule replicate_eqI) (auto dest: set_takeWhileD)
  moreover have "length (takeWhile (\<lambda>x. x = free_view) xs) = length xs - length (from_pin xs)"
    unfolding from_pin_def by (metis add_diff_cancel_right' length_append takeWhile_dropWhile_id)
  ultimately show ?thesis unfolding from_pin_def by (metis takeWhile_dropWhile_id)
qed

lemma length_from_pin: "length (from_pin xs) \<le> length xs"
  by (simp add: from_pin_def length_dropWhile_le)

lemma from_pin_slots:
  assumes "\<forall>x \<in> set xs. x = free_view \<or> (\<exists>sq f. x = pinned_view sq f)"
  shows "view_slots (from_pin xs)"
  using assms hd_dropWhile [of "\<lambda>x. x = free_view" xs] set_dropWhileD [of _ "\<lambda>x. x = free_view" xs]
  unfolding view_slots_def from_pin_def by blast

lemma pinned_not_free [simp]: "pinned_view sq f \<noteq> free_view"
  by (simp add: free_view_def pinned_view_def FixedSlot_default_def)

lemma cursor_eq: "unat (a :: u64) = unat b + n \<Longrightarrow> a = b + word_of_nat n"
proof -
  assume "unat a = unat b + n"
  then have "(word_of_nat (unat a) :: u64) = word_of_nat (unat b + n)" by simp
  then show ?thesis by simp
qed

lemma unat_small: "n < 2 ^ 64 \<Longrightarrow> unat (word_of_nat n :: u64) = n"
  by (simp add: unat_of_nat)

lemma unat_floor_none: "unat PIN_FLOOR_NONE = 2 ^ 64 - 1"
  by (simp add: PIN_FLOOR_NONE_def)

context region_io
begin

lemma area_slice:
  assumes s: "layout cap sz s" and i: "i < cap" and n: "d + n \<le> sz"
  shows "rio_slice io (REGION_HEADER_LEN + i * sz + d) n s = Ok (bytes_at d n (slot_raw sz i (mem s)))"
proof -
  have len: "length (mem s) = REGION_HEADER_LEN + cap * sz" using s by (simp add: region_layout_def)
  have "REGION_HEADER_LEN + i * sz + d + n \<le> length (mem s)" using slot_fits [OF i len] n by simp
  then show ?thesis using s slice_law n by (simp add: region_layout_def slot_raw_def bytes_at_bytes_at)
qed

text \<open>The header and the payload in a slot that shows a frame.\<close>

lemma slot_frame_parts:
  assumes s: "ring cap sz w views s" and i: "i < cap" and h: "length h = FRAME_HEADER_LEN"
    and v: "views ! i = (\<lparr>state = st, slot_seq = sq, payload_len = length (h @ m)\<rparr>, h @ m)" and st: "st \<noteq> Free"
  shows "rio_read_at io (REGION_HEADER_LEN + i * sz + PERSISTENT_SLOT_HEADER_LEN) FRAME_HEADER_LEN s = Ok h"
    "rio_read_at io (REGION_HEADER_LEN + i * sz + PERSISTENT_SLOT_HEADER_LEN + FRAME_HEADER_LEN) (length m) s = Ok m"
    "rio_slice io (REGION_HEADER_LEN + i * sz + PERSISTENT_SLOT_HEADER_LEN + FRAME_HEADER_LEN) (length m) s = Ok m"
proof -
  let ?raw = "slot_raw sz i (mem s)"
  have r: "raw_view ?raw = (\<lparr>state = st, slot_seq = sq, payload_len = length (h @ m)\<rparr>, h @ m)" using ring_raw [OF s i] v by simp
  note b = raw_view_bounds [OF r st] and f = raw_view_committed(5) [OF r st]
  have len: "length ?raw = sz" using i ring_mem_length [OF s] by simp
  have fit: "PERSISTENT_SLOT_HEADER_LEN + FRAME_HEADER_LEN + length m \<le> sz"
    using b(2) len h header_size [OF ring_layout [OF s]] by simp
  define n where "n = FRAME_HEADER_LEN + length m"
  have both: "bytes_at PERSISTENT_SLOT_HEADER_LEN n ?raw = h @ m" using f h by (simp add: n_def)
  have "bytes_at PERSISTENT_SLOT_HEADER_LEN FRAME_HEADER_LEN ?raw = take FRAME_HEADER_LEN (bytes_at PERSISTENT_SLOT_HEADER_LEN n ?raw)"
    by (simp add: bytes_at_def n_def)
  then have hd: "bytes_at PERSISTENT_SLOT_HEADER_LEN FRAME_HEADER_LEN ?raw = h" using both h by simp
  have "bytes_at (PERSISTENT_SLOT_HEADER_LEN + FRAME_HEADER_LEN) (length m) ?raw = drop FRAME_HEADER_LEN (bytes_at PERSISTENT_SLOT_HEADER_LEN n ?raw)"
    by (simp add: bytes_at_def n_def drop_take add.commute)
  then have pl: "bytes_at (PERSISTENT_SLOT_HEADER_LEN + FRAME_HEADER_LEN) (length m) ?raw = m" using both h by simp
  note lay = ring_layout [OF s]
  from read_slot_area [OF lay i, of PERSISTENT_SLOT_HEADER_LEN FRAME_HEADER_LEN] hd fit
  show "rio_read_at io (REGION_HEADER_LEN + i * sz + PERSISTENT_SLOT_HEADER_LEN) FRAME_HEADER_LEN s = Ok h" by simp
  from read_slot_area [OF lay i, of "PERSISTENT_SLOT_HEADER_LEN + FRAME_HEADER_LEN" "length m"] pl fit
  show "rio_read_at io (REGION_HEADER_LEN + i * sz + PERSISTENT_SLOT_HEADER_LEN + FRAME_HEADER_LEN) (length m) s = Ok m"
    by (simp add: add.assoc)
  from area_slice [OF lay i, of "PERSISTENT_SLOT_HEADER_LEN + FRAME_HEADER_LEN" "length m"] pl fit
  show "rio_slice io (REGION_HEADER_LEN + i * sz + PERSISTENT_SLOT_HEADER_LEN + FRAME_HEADER_LEN) (length m) s = Ok m"
    by (simp add: add.assoc)
qed

lemma release_pinned_slot:
  assumes s: "ring cap sz w views s" and i: "i < cap" and v: "views ! i = pinned_view sq f"
  shows "\<exists>t. prelease_pinned io i s = (Ok (), t) \<and> ring cap sz w (views[i := free_view]) t"
proof -
  from release_slot(2) [OF s i v] obtain t where
    t: "prelease_pinned_no_flush io i s = (Ok (), t)" "ring cap sz w (views[i := free_view]) t" by blast
  with slot_state_at [OF s i] v flush_effect [OF ring_layout [OF t(2)] i header_size [OF ring_layout [OF t(2)]]] show ?thesis
    by (auto simp: prelease_pinned_no_flush_def prelease_pinned_def prelease_slot_def)
qed

section \<open>A slot behind the tail\<close>

lemma pins_slot:
  assumes win: "window cfg w (vs @ replicate (capacity cfg - (length vs + length xs)) free_view @ xs) s"
    and n: "length vs + length xs \<le> capacity cfg" and tail: "unat (rg_tail w) = unat (rg_floor w) + length xs"
    and k: "k < length xs" and cur: "unat cur = unat (rg_floor w) + k"
  obtains views where "ring (capacity cfg) (region_slot_len cfg) w views s" "unat cur mod capacity cfg < capacity cfg"
    "views ! (unat cur mod capacity cfg) = xs ! k"
    "\<forall>x t. ring (capacity cfg) (region_slot_len cfg) w (views[unat cur mod capacity cfg := x]) t \<longrightarrow>
       window cfg w (vs @ replicate (capacity cfg - (length vs + length xs)) free_view @ xs[k := x]) t"
proof -
  let ?g = "replicate (capacity cfg - (length vs + length xs)) free_view"
  let ?all = "vs @ ?g @ xs" and ?m = "capacity cfg - length xs + k"
  have m: "?m < capacity cfg" "?m = length vs + (length ?g + k)" using n k by simp_all
  have "unat (rg_tail w) + ?m = unat cur + capacity cfg" using tail cur n by simp
  then have i: "(unat (rg_tail w) + ?m) mod capacity cfg = unat cur mod capacity cfg" by simp
  have at: "?all ! ?m = xs ! k" "?all[?m := x] = vs @ ?g @ xs[k := x]" "?m < length ?all" for x
    unfolding m(2) using k by (simp_all add: nth_append list_update_append)
  obtain views where v: "ring (capacity cfg) (region_slot_len cfg) w views s" "unat cur mod capacity cfg < capacity cfg"
    "views ! (unat cur mod capacity cfg) = (if ?m < length ?all then ?all ! ?m else free_view)"
    "\<And>x. rotate (unat (rg_tail w)) (views[unat cur mod capacity cfg := x]) =
       (?all @ replicate (capacity cfg - length ?all) free_view)[?m := x]"
    using window_slot [OF win m(1), unfolded i] by metis
  have slot: "views ! (unat cur mod capacity cfg) = xs ! k" unfolding v(3) using at(1,3) by metis
  have "window cfg w (vs @ ?g @ xs[k := x]) t"
    if "ring (capacity cfg) (region_slot_len cfg) w (views[unat cur mod capacity cfg := x]) t" for x t
    using window_update [OF win at(3) that v(4)] unfolding at(2) .
  with that [OF v(1,2) slot] show thesis by blast
qed

lemma pins_behind:
  assumes "pqueued cfg xs w vs s" "k < length xs"
  shows "unat (rg_tail w) = unat (rg_floor w) + length xs"
  using assms by (auto simp: pinned_queue_def split: if_splits)

lemmas pinned_slot = pins_slot [OF pqueued_bounds(5,1) pins_behind]

lemma view_read_pins:
  assumes q: "pqueued cfg xs w vs s" and k: "k < length xs" "xs ! k = pinned_view sq (h @ m)" and h: "length h = FRAME_HEADER_LEN"
    and cur: "unat cur = unat (rg_floor w) + k"
  shows "view_read_all io (view_at cfg cur sq' (length m)) s = Ok m"
proof -
  from pinned_slot [OF q q q k(1) k(1) cur] obtain views where v: "ring (capacity cfg) (region_slot_len cfg) w views s"
    "unat cur mod capacity cfg < capacity cfg" "views ! (unat cur mod capacity cfg) = xs ! k" by metis
  from slot_frame_parts(2) [OF v(1,2) h v(3) [unfolded k(2) pinned_view_def]] show ?thesis
    by (simp add: view_read_all_def check_usable_def view_at_def Let_def)
qed

section \<open>The pin floor after a release\<close>

lemma full_state_at: "ring cap sz w views s \<Longrightarrow> i < cap \<Longrightarrow> full_header_state io i s = Ok (state (fst (views ! i)))"
  using read_header_full_effect [OF ring_layout, of cap sz w views s i] raw_view_fields [of "slot_raw sz i (mem s)"]
  by (simp add: full_header_state_def flip: ring_raw)

lemma first_pinned_run:
  assumes "\<forall>j < length ys. full_header_state io (cursor_slot cap (word_of_nat (a + j))) s = Ok (state (fst (ys ! j)))"
    and "\<forall>y \<in> set ys. y = free_view \<or> (\<exists>sq f. y = pinned_view sq f)"
  shows "first_pinned (full_header_state io) cap (map word_of_nat [a..<a + length ys]) s =
    Ok (if from_pin ys = [] then PIN_FLOOR_NONE else word_of_nat (a + (length ys - length (from_pin ys))))"
  using assms
proof (induction ys arbitrary: a)
  case Nil
  then show ?case by (simp add: from_pin_def)
next
  case (Cons y ys)
  have range: "[a..<a + length (y # ys)] = a # [Suc a..<Suc a + length ys]" by (simp add: upt_rec)
  have first: "full_header_state io (cursor_slot cap (word_of_nat a)) s = Ok (state (fst y))"
    using Cons.prems(1) by force
  show ?case
  proof (cases "y = free_view")
    case True
    have "\<forall>j < length ys. full_header_state io (cursor_slot cap (word_of_nat (Suc a + j))) s = Ok (state (fst (ys ! j)))"
    proof (intro allI impI)
      fix j assume "j < length ys"
      then show "full_header_state io (cursor_slot cap (word_of_nat (Suc a + j))) s = Ok (state (fst (ys ! j)))"
        using Cons.prems(1) [rule_format, of "Suc j"] by simp
    qed
    with Cons.IH [OF this] Cons.prems(2) True first length_from_pin [of ys] show ?thesis
      unfolding range by (simp add: from_pin_def Suc_diff_le)
  next
    case False
    then obtain sq f where "y = pinned_view sq f" using Cons.prems(2) by auto
    with first False show ?thesis unfolding range by (simp add: from_pin_def)
  qed
qed

lemma unpin_pins:
  assumes win: "window cfg w (vs @ replicate (capacity cfg - (length vs + length xs)) free_view @ xs) s"
    and len: "length vs + length xs \<le> capacity cfg" "length xs = 1 \<or> capacity cfg < 2 ^ 64"
    and slots: "\<forall>x \<in> set xs. x = free_view \<or> (\<exists>sq f. x = pinned_view sq f)" and k: "k < length xs" "hd xs = free_view \<longleftrightarrow> k = 0"
    and w: "rg_floor w \<noteq> PIN_FLOOR_NONE" "unat (rg_tail w) = unat (rg_floor w) + length xs" "unat (rg_head w) = unat (rg_tail w) + length vs"
    and cur: "unat cur = unat (rg_floor w) + k"
  defines "w' \<equiv> w\<lparr>rg_floor := if from_pin xs = [] then PIN_FLOOR_NONE
    else word_of_nat (unat (rg_floor w) + (length xs - length (from_pin xs)))\<rparr>"
  shows "\<exists>t. unpin_floor io cur s = (Ok (), t) \<and> pqueued cfg (from_pin xs) w' vs t"
proof -
  let ?cap = "capacity cfg" and ?sz = "region_slot_len cfg" and ?f = "rg_floor w" and ?t = "rg_tail w"
  have xs: "xs \<noteq> []" using k by auto
  from win obtain views where v: "ring ?cap ?sz w views s" by (auto simp: ring_window_def)
  note loads = load_word [OF v, of PIN_FLOOR_OFFSET] load_word [OF v, of CURSOR_TAIL_OFFSET]
  have lt: "unat ?t < 2 ^ 64" using unsigned_less [of ?t, where ?'a = nat] by simp
  show ?thesis
  proof (cases "k = 0")
    case False
    with k xs have fp: "from_pin xs = xs" by (simp add: from_pin_held)
    have "?f \<noteq> cur" using False cur by auto
    then have "unpin_floor io cur s = (Ok (), s)" using loads w(1) by (simp add: unpin_floor_def Let_def)
    moreover have "w' = w" using xs by (simp add: w'_def fp)
    moreover have "view_slots xs" using slots k False by (simp add: view_slots_def)
    ultimately show ?thesis using win len w xs by (simp add: fp pinned_queue_def)
  next
    case True
    then obtain ys where ys: "xs = free_view # ys" using k xs by (cases xs) auto
    have cf: "cur = ?f" using cur True by (simp add: word_unat_eq_iff)
    let ?a = "Suc (unat ?f)"
    have at: "unat ?t = ?a + length ys" using w(2) ys by simp
    have add: "add_u64 ?f 1 = Ok (?f + 1)" "unat (?f + 1) = ?a"
      using at lt by (simp_all add: add_u64_def unat_word_ariths)
    have range: "cursor_range (max (?f + 1) (saturating_sub ?t (word_of_nat ?cap))) ?t = map word_of_nat [?a..<?a + length ys]"
    proof (cases "ys = []")
      case True
      then show ?thesis using add(2) at by (simp add: cursor_range_def max_def word_le_nat_alt)
    next
      case False
      then have "capacity cfg < 2 ^ 64" using len(2) ys by auto
      then have "unat (saturating_sub ?t (word_of_nat ?cap)) \<le> ?a"
        using len(1) ys at by (simp add: saturating_sub_def unat_of_nat unat_sub word_le_nat_alt) linarith
      then show ?thesis using add(2) at by (simp add: cursor_range_def max_def word_le_nat_alt)
    qed
    have "\<forall>j < length ys. full_header_state io (cursor_slot ?cap (word_of_nat (?a + j))) s = Ok (state (fst (ys ! j)))"
    proof (intro allI impI)
      fix j assume j: "j < length ys"
      have c: "unat (word_of_nat (?a + j) :: u64) = unat ?f + Suc j" using unat_small [of "?a + j"] at j lt by simp
      have "Suc j < length xs" using j ys by simp
      from pins_slot [OF win len(1) w(2) this c] obtain us where
        "ring ?cap ?sz w us s" "unat (word_of_nat (?a + j) :: u64) mod ?cap < ?cap"
        "us ! (unat (word_of_nat (?a + j) :: u64) mod ?cap) = xs ! Suc j" by metis
      then show "full_header_state io (cursor_slot ?cap (word_of_nat (?a + j))) s = Ok (state (fst (ys ! j)))"
        using full_state_at ys by (simp add: cursor_slot_def)
    qed
    from first_pinned_run [OF this] slots ys have
      fp: "first_pinned (full_header_state io) ?cap (map word_of_nat [?a..<?a + length ys]) s =
        Ok (if from_pin ys = [] then PIN_FLOOR_NONE else word_of_nat (?a + (length ys - length (from_pin ys))))" by simp
    have fx: "from_pin xs = from_pin ys" "length xs - length (from_pin xs) = Suc (length ys - length (from_pin ys))"
      using ys length_from_pin [of ys] by (simp_all add: from_pin_def Suc_diff_le)
    let ?nxt = "rg_floor w'"
    have nv: "?nxt = (if from_pin ys = [] then PIN_FLOOR_NONE else word_of_nat (?a + (length ys - length (from_pin ys))))"
      using fx by (simp add: w'_def)
    have nxt: "first_pinned (full_header_state io) ?cap (map word_of_nat [?a..<?a + length ys]) s = Ok ?nxt"
      unfolding fp nv ..
    have un: "unat ?nxt = ?a + (length ys - length (from_pin ys))" if "from_pin ys \<noteq> []"
      using that at lt fx unat_small [of "?a + (length ys - length (from_pin ys))"] length_from_pin [of ys] by (simp add: w'_def)
    have ne: "?f \<noteq> ?nxt"
    proof (cases "from_pin ys = []")
      case True
      then show ?thesis using w(1) fx by (simp add: w'_def)
    next
      case False
      from un [OF this] show ?thesis by auto
    qed
    from cas_word [OF v, of PIN_FLOOR_OFFSET ?f ?nxt] obtain t seen where
      t: "rio_compare_exchange_u64 io PIN_FLOOR_OFFSET ?f ?nxt s = (Ok (seen, True), t)" "ring ?cap ?sz (w\<lparr>rg_floor := ?nxt\<rparr>) views t"
      by auto
    have w': "w\<lparr>rg_floor := ?nxt\<rparr> = w'" by (simp add: w'_def)
    have run: "unpin_floor io cur s = (Ok (), t)"
      using loads add(1) range nxt ne t(1) ring_layout [OF v] by (simp add: unpin_floor_def Let_def cf region_layout_def)
    let ?k = "length xs - length (from_pin xs)"
    have "?cap - (length vs + length (from_pin xs)) = (?cap - (length vs + length xs)) + ?k"
      using len(1) length_from_pin [of xs] by simp
    then have gap: "vs @ replicate (?cap - (length vs + length (from_pin xs))) free_view @ from_pin xs =
        vs @ replicate (?cap - (length vs + length xs)) free_view @ xs"
      using from_pin_split [of xs] by (metis append.assoc replicate_add)
    have "window cfg w' (vs @ replicate (?cap - (length vs + length (from_pin xs))) free_view @ from_pin xs) t"
      unfolding gap using win t(2) v by (auto simp: ring_window_def at_ring_def w' w'_def)
    moreover have "rg_tail w' = ?t" "rg_head w' = rg_head w" by (simp_all add: w'_def)
    moreover have "?nxt \<noteq> PIN_FLOOR_NONE \<and> unat ?t = unat ?nxt + length (from_pin xs)" if "from_pin xs \<noteq> []"
    proof
      have "from_pin ys \<noteq> []" using that fx(1) by simp
      from un [OF this] at fx length_from_pin [of ys]
      show t: "unat ?t = unat ?nxt + length (from_pin xs)" by simp
      with that lt show "?nxt \<noteq> PIN_FLOOR_NONE" using unat_floor_none by auto
    qed
    moreover have "?nxt = PIN_FLOOR_NONE" if "from_pin xs = []" using that by (simp add: w'_def)
    ultimately have "pqueued cfg (from_pin xs) w' vs t"
      using len(1) length_from_pin [of xs] from_pin_slots [OF slots] w(3) by (simp add: pinned_queue_def)
    with run show ?thesis by blast
  qed
qed

lemma view_release_pins:
  assumes q: "pqueued cfg xs w vs s" and k: "k < length xs" "xs ! k = pinned_view sq f"
    and cur: "unat cur = unat (rg_floor w) + k" and cap: "length xs = 1 \<or> capacity cfg < 2 ^ 64"
  shows "\<exists>t w'. view_release io (view_at cfg cur sq' n, s) = (Ok (), ((view_at cfg cur sq' n)\<lparr>rv_released := True\<rparr>, t)) \<and>
    pqueued cfg (from_pin (xs[k := free_view])) w' vs t \<and> rg_head w' = rg_head w \<and> rg_tail w' = rg_tail w"
proof -
  let ?xs = "xs[k := free_view]" and ?i = "unat cur mod capacity cfg"
  note n = pqueued_bounds [OF q]
  have xs: "xs \<noteq> []" using k(1) by auto
  have w: "rg_floor w \<noteq> PIN_FLOOR_NONE" "unat (rg_tail w) = unat (rg_floor w) + length ?xs"
    using q xs by (simp_all add: pinned_queue_def)
  from pinned_slot [OF q q q k(1) k(1) cur] obtain views where
    v: "ring (capacity cfg) (region_slot_len cfg) w views s" "?i < capacity cfg" "views ! ?i = pinned_view sq f"
      "\<forall>x t. ring (capacity cfg) (region_slot_len cfg) w (views[?i := x]) t \<longrightarrow>
         window cfg w (vs @ replicate (capacity cfg - (length vs + length xs)) free_view @ xs[k := x]) t" using k(2) by metis
  from release_pinned_slot [OF v(1-3)] obtain t where
    r: "prelease_pinned io ?i s = (Ok (), t)" "ring (capacity cfg) (region_slot_len cfg) w (views[?i := free_view]) t" by blast
  have t: "prelease_pinned io ?i s = (Ok (), t)"
    "window cfg w (vs @ replicate (capacity cfg - (length vs + length ?xs)) free_view @ ?xs) t"
    using r v(4) [rule_format, OF r(2)] by simp_all
  have slots: "\<forall>x \<in> set ?xs. x = free_view \<or> (\<exists>sq f. x = pinned_view sq f)"
    using n(4) by (auto simp: view_slots_def dest!: set_update_subset_insert [THEN subsetD])
  have hd: "hd ?xs = free_view \<longleftrightarrow> k = 0"
    using n(4) xs by (cases xs; cases k) (auto simp: view_slots_def)
  define w' where "w' = w\<lparr>rg_floor := if from_pin ?xs = [] then PIN_FLOOR_NONE
    else word_of_nat (unat (rg_floor w) + (length ?xs - length (from_pin ?xs)))\<rparr>"
  have cap': "length ?xs = 1 \<or> capacity cfg < 2 ^ 64" using cap by simp
  from unpin_pins [OF t(2) _ cap' slots _ hd w n(3) cur] n(1) k(1) obtain u where
    "unpin_floor io cur t = (Ok (), u)" "pqueued cfg (from_pin ?xs) w' vs u" by (auto simp: w'_def)
  moreover have "rg_head w' = rg_head w" "rg_tail w' = rg_tail w" by (simp_all add: w'_def)
  ultimately show ?thesis using t(1)
    by (intro exI [of _ u] exI [of _ w']) (simp add: view_release_def check_usable_def on_shared_def mark_released_def)
qed

section \<open>Pinning the slot at the tail\<close>

text \<open>The tail moves past a slot that stays pinned: the slot is now the last one behind it.\<close>

lemma window_turn:
  assumes w: "window cfg w (x # ys) s" and full: "Suc (length ys) = capacity cfg" and t: "unat (rg_tail w + 1) = unat (rg_tail w) + 1"
  shows "\<exists>u old. fetch_max_tail io (rg_tail w + 1) s = (Ok old, u) \<and> window cfg (w\<lparr>rg_tail := rg_tail w + 1\<rparr>) (ys @ [x]) u"
proof -
  from w full obtain views where v: "ring (capacity cfg) (region_slot_len cfg) w views s" "rotate (unat (rg_tail w)) views = x # ys"
    by (auto simp: ring_window_def)
  have "max (rg_tail w) (rg_tail w + 1) = rg_tail w + 1"
    using t by (simp add: max_def word_le_nat_alt)
  with max_word [OF v(1), of CURSOR_TAIL_OFFSET "rg_tail w + 1"] obtain u old where
    u: "fetch_max_tail io (rg_tail w + 1) s = (Ok old, u)"
      "ring (capacity cfg) (region_slot_len cfg) (w\<lparr>rg_tail := rg_tail w + 1\<rparr>) views u"
    by (auto simp: fetch_max_tail_def)
  have "rotate (unat (rg_tail w) + 1) views = ys @ [x]" using v(2) by (simp add: rotate_def)
  then show ?thesis using u t full by (auto simp: ring_window_def)
qed

text \<open>The floor of a ring without pins takes the pinned cursor; an older one stays.\<close>

lemma floor_pin:
  assumes v: "ring cap sz w views s" and f: "rg_floor w \<noteq> PIN_FLOOR_NONE \<Longrightarrow> rg_floor w \<le> cur"
  defines "fl \<equiv> if rg_floor w = PIN_FLOOR_NONE then cur else rg_floor w"
  shows "\<exists>t. floor_min io cur s = (Ok fl, t) \<and> ring cap sz (w\<lparr>rg_floor := fl\<rparr>) views t"
proof -
  note l = load_word [OF v, of PIN_FLOOR_OFFSET]
  have "\<exists>t. floor_min_loop io cur (Suc n) s = (Ok fl, t) \<and> ring cap sz (w\<lparr>rg_floor := fl\<rparr>) views t" for n
  proof (cases "rg_floor w = PIN_FLOOR_NONE")
    case True
    with cas_word [OF v, of PIN_FLOOR_OFFSET PIN_FLOOR_NONE cur] l show ?thesis
      by (auto simp: load_floor_def fl_def)
  next
    case False
    with f l v show ?thesis by (auto simp: load_floor_def fl_def)
  qed
  from this [of 31] show ?thesis by (simp add: floor_min_def)
qed

lemma pin_tail_slot:
  assumes c: "at_pins cfg xs (committed_view sq f # vs) c" and cur: "cur = pc_tail_cursor c"
  defines "fl \<equiv> if xs = [] then cur else pc_floor_cursor c"
  shows "\<exists>t1 t2 t3 old. write_pinned_header io (pc_tail c) sq (length f) ident (pc_store c) = (Ok (), t1) \<and>
    floor_min io cur t1 = (Ok fl, t2) \<and> fetch_max_tail io (cur + 1) t2 = (Ok old, t3) \<and>
    flush_release io (pc_tail c) t3 = Ok () \<and>
    pqueued cfg (xs @ [pinned_view sq f]) \<lparr>rg_head = pc_head_cursor c, rg_tail = cur + 1, rg_floor = fl\<rparr> vs t3"
proof -
  let ?cap = "capacity cfg" and ?sz = "region_slot_len cfg" and ?w = "loaded_words c"
  let ?g = "replicate (capacity cfg - (Suc (length vs) + length xs)) free_view"
  note n = pins_bounds [OF c] and tl = pins_fields(2) [OF c]
  have w: "rg_tail ?w = cur" "rg_head ?w = pc_head_cursor c" "rg_floor ?w = pc_floor_cursor c" by (simp_all add: loaded_words_def cur)
  have step: "unat (cur + 1) = unat cur + 1"
    using add_one_less [of cur "length vs" "pc_head_cursor c"] n(3) by (simp add: cur)
  then have none: "cur \<noteq> PIN_FLOOR_NONE" using unat_floor_none unsigned_less [of "cur + 1", where ?'a = nat] by auto
  have floor: "xs = [] \<Longrightarrow> pc_floor_cursor c = PIN_FLOOR_NONE"
    "xs \<noteq> [] \<Longrightarrow> pc_floor_cursor c \<noteq> PIN_FLOOR_NONE \<and> unat cur = unat (pc_floor_cursor c) + length xs"
    using c by (simp_all add: loaded_pins_def pinned_queue_def w)
  have fl: "fl = (if rg_floor ?w = PIN_FLOOR_NONE then cur else rg_floor ?w)"
    using floor by (auto simp: fl_def w)
  have win: "window cfg ?w (committed_view sq f # (vs @ ?g @ xs)) (pc_store c)" using n(5) by simp
  then obtain views where v: "ring ?cap ?sz ?w views (pc_store c)" "unat (rg_tail ?w) mod ?cap < ?cap"
    "views ! (unat (rg_tail ?w) mod ?cap) = committed_view sq f"
    "\<forall>x t. ring ?cap ?sz ?w (views[unat (rg_tail ?w) mod ?cap := x]) t \<longrightarrow> window cfg ?w (x # (vs @ ?g @ xs)) t"
    by (rule window_tail)
  from rewrite_header(2) [OF v(1,2) v(3) [unfolded committed_view_def], of ident] obtain t1 where
    p: "write_identity_header io (unat (rg_tail ?w) mod ?cap) Pinned sq (length f) ident (pc_store c) = (Ok (), t1)"
      "ring ?cap ?sz ?w (views[unat (rg_tail ?w) mod ?cap := pinned_view sq f]) t1" by auto
  have t1: "write_pinned_header io (pc_tail c) sq (length f) ident (pc_store c) = (Ok (), t1)"
    "window cfg ?w (pinned_view sq f # (vs @ ?g @ xs)) t1"
    using p(1) tl v(4) [rule_format, OF p(2)] by (simp_all add: write_pinned_header_def)
  from t1(2) obtain us where us: "ring ?cap ?sz ?w us t1"
    "rotate (unat (rg_tail ?w)) us = (pinned_view sq f # (vs @ ?g @ xs)) @ replicate (?cap - length (pinned_view sq f # (vs @ ?g @ xs))) free_view"
    unfolding ring_window_def by blast
  have le: "rg_floor ?w \<noteq> PIN_FLOOR_NONE \<Longrightarrow> rg_floor ?w \<le> cur" using floor by (cases "xs = []") (auto simp: w word_le_nat_alt)
  from floor_pin [OF us(1) le] obtain t2 where
    t2: "floor_min io cur t1 = (Ok fl, t2)" "ring ?cap ?sz (?w\<lparr>rg_floor := fl\<rparr>) us t2" unfolding fl [symmetric] by blast
  have win2: "window cfg (?w\<lparr>rg_floor := fl\<rparr>) (pinned_view sq f # (vs @ ?g @ xs)) t2"
    using t2(2) us(2) by (auto simp: ring_window_def)
  have full: "Suc (length (vs @ ?g @ xs)) = ?cap" using n(1) by simp
  from window_turn [OF win2 full] step obtain t3 old where
    t3: "fetch_max_tail io (cur + 1) t2 = (Ok old, t3)"
      "window cfg (?w\<lparr>rg_floor := fl, rg_tail := cur + 1\<rparr>) ((vs @ ?g @ xs) @ [pinned_view sq f]) t3" by (auto simp: w)
  have slots: "view_slots (xs @ [pinned_view sq f])" using n(4) by (cases xs) (auto simp: view_slots_def)
  have w3: "?w\<lparr>rg_floor := fl, rg_tail := cur + 1\<rparr> = \<lparr>rg_head = pc_head_cursor c, rg_tail = cur + 1, rg_floor = fl\<rparr>"
    by (simp add: loaded_words_def)
  have "unat (cur + 1) = unat fl + Suc (length xs)" "fl \<noteq> PIN_FLOOR_NONE" using floor step none by (auto simp: fl_def)
  then have "pqueued cfg (xs @ [pinned_view sq f]) \<lparr>rg_head = pc_head_cursor c, rg_tail = cur + 1, rg_floor = fl\<rparr> vs t3"
    using t3(2) n(1,3) slots step unfolding w3 by (simp add: pinned_queue_def cur)
  moreover have "flush_release io (pc_tail c) t3 = Ok ()"
    using window_flushes(1) [OF t3(2) v(2)] tl by simp
  ultimately show ?thesis using t1(1) t2(1) t3(1) by blast
qed

section \<open>Receiving a view\<close>

lemma accept_expected:
  assumes sq: "expects sq c" and d: "same_handle (c\<lparr>pc_resync_expected := False, pc_head_cursor := hd'\<rparr>) d"
  shows "accept_sequence (pc_resync_expected c) sq d = (Ok (), d\<lparr>pc_expected_recv_seq := sq\<rparr>)"
proof (cases "pc_resync_expected c")
  case False
  with sq d have "pc_expected_recv_seq d = sq" by (simp add: expects_def same_handle_def)
  moreover from this have "d = d\<lparr>pc_expected_recv_seq := sq\<rparr>" by simp
  ultimately show ?thesis using False by (simp add: accept_sequence_def)
qed (simp add: accept_sequence_def)

text \<open>The frame at the tail, as \<open>recv_view\<close> checks it.\<close>

lemma tail_frame:
  assumes c: "at_pins cfg xs (committed_view sq (h @ b) # vs) c" and h: "length h = FRAME_HEADER_LEN"
  shows "view_frame_offset io (pc_tail c) (pc_store c) = REGION_HEADER_LEN + pc_tail c * region_slot_len cfg + PERSISTENT_SLOT_HEADER_LEN"
    "read_header io (pc_tail c) (pc_store c) = Ok (Committed, sq, FRAME_HEADER_LEN + length b)"
    "rio_read_at io (view_frame_offset io (pc_tail c) (pc_store c)) FRAME_HEADER_LEN (pc_store c) = Ok h"
    "rio_slice io (view_frame_offset io (pc_tail c) (pc_store c) + FRAME_HEADER_LEN) (length b) (pc_store c) = Ok b"
proof -
  note n = pins_bounds [OF c] and tl = pins_fields(2) [OF c]
  let ?i = "unat (rg_tail (loaded_words c)) mod capacity cfg"
  have "window cfg (loaded_words c) (committed_view sq (h @ b) # (vs @ replicate (capacity cfg - (Suc (length vs) + length xs)) free_view @ xs)) (pc_store c)"
    using n(5) by simp
  then obtain views where v: "ring (capacity cfg) (region_slot_len cfg) (loaded_words c) views (pc_store c)"
    "?i < capacity cfg" "views ! ?i = committed_view sq (h @ b)" by (rule window_tail)
  show off: "view_frame_offset io (pc_tail c) (pc_store c) = REGION_HEADER_LEN + pc_tail c * region_slot_len cfg + PERSISTENT_SLOT_HEADER_LEN"
    using ring_layout [OF v(1)] by (simp add: view_frame_offset_def region_slot_offset_def region_layout_def)
  show "read_header io (pc_tail c) (pc_store c) = Ok (Committed, sq, FRAME_HEADER_LEN + length b)"
    using pins_header(1) [OF c] h by simp
  note p = slot_frame_parts [OF v(1,2) h v(3) [unfolded committed_view_def], simplified]
  show "rio_read_at io (view_frame_offset io (pc_tail c) (pc_store c)) FRAME_HEADER_LEN (pc_store c) = Ok h"
    "rio_slice io (view_frame_offset io (pc_tail c) (pc_store c) + FRAME_HEADER_LEN) (length b) (pc_store c) = Ok b"
    unfolding off using p(1,3) tl by simp_all
qed

lemma recv_view_pins:
  assumes q: "pqueued (pc_config c) xs w (committed_view sq (plain_header (env_crc env) sq m @ m) # vs) (pc_store c)"
    and bias: "pc_recovery_bias c = 0" and sq: "expects sq c" and bp: "backpressure (pc_config c) \<noteq> DropOldest"
    and m: "length m < 2 ^ 32"
  shows "\<exists>d w'. recv_view io env c = (Ok (view_at (pc_config c) (rg_tail w) sq (length m)), d) \<and>
    pqueued (pc_config c) (xs @ [pinned_view sq (plain_header (env_crc env) sq m @ m)]) w' vs (pc_store d) \<and>
    rg_head w' = rg_head w \<and> rg_tail w' = rg_tail w + 1 \<and> unat (rg_tail w) = unat (rg_floor w') + length xs \<and> pc_config d = pc_config c \<and> pc_recovery_bias d = 0 \<and>
    pc_expected_recv_seq d = sq + 1 \<and> \<not> pc_resync_expected d \<and> pc_closed d = pc_closed c"
proof -
  define cfg h where "cfg = pc_config c" and "h = plain_header (env_crc env) sq m"
  let ?cap = "capacity cfg" and ?sz = "region_slot_len cfg"
  have h: "length h = FRAME_HEADER_LEN" by (simp add: h_def)
  from ensure_pins [OF q [folded h_def] bias, of env] obtain d0 where
    d0: "ensure_tail_readable io env c = (Ok (pc_resync_expected c), d0)"
      "at_pins cfg xs (committed_view sq (h @ m) # vs) d0"
      "same_handle (c\<lparr>pc_resync_expected := False, pc_head_cursor := rg_head w\<rparr>) d0" "loaded_words d0 = w" unfolding cfg_def by blast
  define i cur where "i = pc_tail d0" and "cur = rg_tail w"
  have cur: "pc_tail_cursor d0 = cur" "i = unat cur mod ?cap"
    using d0(4) pins_fields(2) [OF d0(2)] by (auto simp: cur_def i_def loaded_words_def)
  note n = pins_bounds [OF d0(2)]
  have ahead: "unat (rg_head w) = unat cur + Suc (length vs)" using n(3) d0(4) cur(1) by (auto simp: loaded_words_def)
  let ?off = "REGION_HEADER_LEN + i * ?sz + PERSISTENT_SLOT_HEADER_LEN"
  note tf = tail_frame [OF d0(2) h, folded i_def]
  have chk: "decode_frame_header h = Ok (\<lparr>hdr_flags = 0, hdr_kind = Bytes, hdr_header_len = word_of_nat FRAME_HEADER_LEN,
      hdr_payload_len = word_of_nat (length m), hdr_seq = sq, hdr_timestamp_ns = 0, hdr_schema_hash = 0,
      hdr_checksum = env_crc env m\<rparr>, FRAME_HEADER_LEN + length m)"
    using plain_header_decoded [OF m] by (simp add: h_def)
  have small: "unat (word_of_nat FRAME_HEADER_LEN :: u32) = FRAME_HEADER_LEN" "unat (word_of_nat (length m) :: u64) = length m"
    using m by (simp_all add: FRAME_HEADER_LEN_def unat_of_nat)
  define d1 where "d1 = d0\<lparr>pc_expected_recv_seq := sq\<rparr>"
  have acc: "accept_sequence (pc_resync_expected c) sq d0 = (Ok (), d1)"
    using accept_expected [OF sq d0(3)] by (simp add: d1_def)
  have d1: "pc_store d1 = pc_store d0" "pc_config d1 = cfg" "pc_recovery_bias d1 = 0" "pc_tail d1 = i" "pc_tail_cursor d1 = cur"
    "pc_head_cursor d1 = rg_head w" "pc_expected_recv_seq d1 = sq" "pc_closed d1 = pc_closed c" "\<not> pc_resync_expected d1"
    "pc_config d0 = cfg" "pc_tail d0 = i"
    using d0(2,3) cur(1) by (simp_all add: d1_def i_def same_handle_def loaded_pins_def)
  define fl where "fl = (if xs = [] then cur else pc_floor_cursor d0)"
  have behind: "unat cur = unat fl + length xs"
    using pins_behind [OF q, of 0] d0(4) by (cases "xs = []") (auto simp: fl_def cur_def loaded_words_def)
  from pin_tail_slot [OF d0(2) cur(1) [symmetric], of "stamp env (Suc 0) d1"] d0(3) obtain t1 t2 t3 old where
    t: "write_pinned_header io i sq (length (h @ m)) (stamp env (Suc 0) d1) (pc_store d0) = (Ok (), t1)"
      "floor_min io cur t1 = (Ok fl, t2)" "fetch_max_tail io (cur + 1) t2 = (Ok old, t3)" "flush_release io i t3 = Ok ()"
      "pqueued cfg (xs @ [pinned_view sq (h @ m)]) \<lparr>rg_head = rg_head w, rg_tail = cur + 1, rg_floor = fl\<rparr> vs t3"
    by (auto simp: i_def fl_def same_handle_def)
  have orphan: "\<not> at_orphan (d1\<lparr>pc_store := t2\<rparr>)"
    using unat_diff_add [OF ahead] n d1 by (simp add: at_orphan_def pcapacity_def)
  define d2 where "d2 = d1\<lparr>pc_store := t3, pc_tail := (i + 1) mod ?cap, pc_tail_cursor := cur + 1, pc_len := pc_len d1 - 1\<rparr>"
  have adv: "advance_tail_keep_pinned io (d1\<lparr>pc_store := t2\<rparr>) = (Ok (), d2)"
    using orphan t(3,4) d1
    by (simp add: advance_tail_keep_pinned_def advance_tail_impl_def step_tail_def pcapacity_def d2_def)
  define d3 where "d3 = d2\<lparr>pc_expected_recv_seq := sq + 1, pc_last_received_seq := Some sq\<rparr>"
  let ?w' = "\<lparr>rg_head = rg_head w, rg_tail = cur + 1, rg_floor = fl\<rparr>"
  have view: "view_at cfg cur sq (length m) = \<lparr>rv_index = i, rv_seq = sq, rv_payload_offset = ?off + FRAME_HEADER_LEN,
      rv_payload_len = length m, rv_cursor_value = cur, rv_released = False\<rparr>"
    by (simp add: view_at_def Let_def cur(2))
  have "recv_view io env c = (Ok (view_at cfg cur sq (length m)), d3)" unfolding view
    using bp d0(1) tf chk small d1 t(1,2) adv h acc
    by (simp add: recv_view_def tail_header_def check_view_frame_def skip_expected_def Let_def d3_def d2_def)
  with t(5) d1 behind show ?thesis
    by (intro exI [of _ d3] exI [of _ ?w']) (simp add: d3_def d2_def cfg_def h_def cur_def)
qed

text \<open>A message in several slots is refused, with the flag of a pending resynchronisation already taken.\<close>

lemma recv_view_chunked:
  assumes q: "pqueued (pc_config c) xs w (committed_view sq (h @ b) # vs) (pc_store c)"
    and bias: "pc_recovery_bias c = 0" and bp: "backpressure (pc_config c) \<noteq> DropOldest"
    and h: "length h = FRAME_HEADER_LEN" "decode_frame_header h = Ok (hdr, n)" "hdr_flags hdr \<noteq> 0"
  shows "\<exists>d. recv_view io env c =
      (ChanErr (InvalidConfig ''zero-copy views require single-slot unchunked messages; use recv()''), d) \<and>
    at_pins (pc_config c) xs (committed_view sq (h @ b) # vs) d \<and>
    same_handle (c\<lparr>pc_resync_expected := False, pc_head_cursor := rg_head w\<rparr>) d \<and> loaded_words d = w"
proof -
  from ensure_pins [OF q bias, of env] obtain d where
    d: "ensure_tail_readable io env c = (Ok (pc_resync_expected c), d)"
      "at_pins (pc_config c) xs (committed_view sq (h @ b) # vs) d"
      "same_handle (c\<lparr>pc_resync_expected := False, pc_head_cursor := rg_head w\<rparr>) d" "loaded_words d = w" by blast
  note tf = tail_frame [OF d(2) h(1)]
  show ?thesis using d bp tf h
    by (intro exI [of _ d]) (simp add: recv_view_def tail_header_def check_view_frame_def Let_def)
qed

end

end
