(* ===== verification/View_Spec.thy ===== *)
theory View_Spec
  imports Channel_Spec
begin

text \<open>
  What the persistent channel promises to a producer and to a consumer that copies messages out, holds
  them in views, or both: a queue of messages and, behind it, the slots that count against the room
  because the oldest view still held lies at or before them. The views may be released in any order.
\<close>

section \<open>The calls of a program\<close>

text \<open>A view is named by its number, counted from the first one taken; a number that no view has yet is
  not a call.\<close>

datatype view_call =
    Send_copy bytes
  | Send_buffer "bytes list"
  | Recv_copy
  | Take_view
  | Read_view nat
  | Release_view nat
  | Drop_view nat
  | Close_producer
  | Close_consumer

datatype answer = Done | Payload bytes

text \<open>A program: its calls one after the other, and their outcomes.\<close>

fun run_calls :: "('c \<Rightarrow> ('q, 'e, 'a) action) \<Rightarrow> 'c list \<Rightarrow> 'q \<Rightarrow> ('e, 'a) outcome list \<times> 'q" where
  "run_calls f [] q = ([], q)"
| "run_calls f (c # cs) q =
     (case f c q of (r, q') \<Rightarrow> case run_calls f cs q' of (rs, q'') \<Rightarrow> (r # rs, q''))"

section \<open>The queue with views\<close>

text \<open>\<open>vq_behind\<close> lists the slots behind the queue from the oldest view that is held: the number of the
  view that holds the slot, or nothing. \<open>vq_views\<close> lists every view taken so far, its message and
  whether it is still held.\<close>

record view_queue =
  vq_config :: spsc_config
  vq_msgs :: "bytes list"
  vq_behind :: "nat option list"
  vq_views :: "(bytes \<times> bool) list"
  vq_producer_shut :: bool
  vq_consumer_shut :: bool

definition vq_room :: "view_queue \<Rightarrow> nat" where
  "vq_room q = capacity (vq_config q) - (length (vq_behind q) + used_slots (vq_config q) (vq_msgs q))"

definition vq_send :: "bytes \<Rightarrow> (view_queue, dsline_error, answer) action" where
  "vq_send m q =
     (if vq_producer_shut q then (ChanErr Closed, q)
      else case send_plan_of (vq_config q) (length m) of
        Ok plan \<Rightarrow>
          if needed_slots plan \<le> vq_room q then (Ok Done, q\<lparr>vq_msgs := vq_msgs q @ [m]\<rparr>)
          else (if backpressure (vq_config q) = DropNewest then Ok Done else ChanErr BufferFull, q)
      | Err e \<Rightarrow> (Err e, q)
      | Panicked \<Rightarrow> (Panicked, q)
      | Diverged \<Rightarrow> (Diverged, q))"

text \<open>A message written in place takes one slot; it is never dropped silently.\<close>

definition vq_send_buffer :: "bytes \<Rightarrow> (view_queue, dsline_error, answer) action" where
  "vq_send_buffer m q =
     (if vq_producer_shut q then (ChanErr Closed, q)
      else if length m > slot_size (vq_config q) then (ChanErr (MessageTooLarge (length m) (slot_size (vq_config q))), q)
      else if 0 < vq_room q then (Ok Done, q\<lparr>vq_msgs := vq_msgs q @ [m]\<rparr>)
      else (ChanErr BufferFull, q))"

definition vq_nothing :: "view_queue \<Rightarrow> channel_error" where
  "vq_nothing q = (if vq_consumer_shut q then Closed else BufferEmpty)"

text \<open>A receive frees its slots, but they count while an older view is held.\<close>

definition vq_recv :: "(view_queue, dsline_error, answer) action" where
  "vq_recv q =
     (case vq_msgs q of
        [] \<Rightarrow> (ChanErr (vq_nothing q), q)
      | m # ms \<Rightarrow> (Ok (Payload m), q\<lparr>vq_msgs := ms,
          vq_behind := (if vq_behind q = [] then [] else vq_behind q @ replicate (slots_of (vq_config q) m) None)\<rparr>))"

definition vq_take :: "(view_queue, dsline_error, answer) action" where
  "vq_take q =
     (case vq_msgs q of
        [] \<Rightarrow> (ChanErr (vq_nothing q), q)
      | m # ms \<Rightarrow>
          if length m > slot_size (vq_config q) then
            (ChanErr (InvalidConfig ''zero-copy views require single-slot unchunked messages; use recv()''), q)
          else (Ok Done, q\<lparr>vq_msgs := ms, vq_behind := vq_behind q @ [Some (length (vq_views q))],
            vq_views := vq_views q @ [(m, True)]\<rparr>))"

definition vq_read :: "nat \<Rightarrow> (view_queue, dsline_error, answer) action" where
  "vq_read i q =
     (if \<not> i < length (vq_views q) then Ok Done
      else if snd (vq_views q ! i) then Ok (Payload (fst (vq_views q ! i)))
      else ChanErr (InvalidConfig ''view is already released''), q)"

text \<open>The released slot and the free ones after it stop counting when no older view is held.\<close>

definition give_back :: "nat \<Rightarrow> nat option list \<Rightarrow> nat option list" where
  "give_back i bs = dropWhile (\<lambda>b. b = None) (map (\<lambda>b. if b = Some i then None else b) bs)"

definition vq_give_back :: "nat \<Rightarrow> view_queue \<Rightarrow> view_queue" where
  "vq_give_back i q = q\<lparr>vq_behind := give_back i (vq_behind q), vq_views := (vq_views q)[i := (fst (vq_views q ! i), False)]\<rparr>"

definition vq_release :: "nat \<Rightarrow> (view_queue, dsline_error, answer) action" where
  "vq_release i q =
     (if \<not> i < length (vq_views q) then (Ok Done, q)
      else if snd (vq_views q ! i) then (Ok Done, vq_give_back i q)
      else (ChanErr (InvalidConfig ''view is already released''), q))"

definition vq_drop :: "nat \<Rightarrow> (view_queue, dsline_error, answer) action" where
  "vq_drop i q = (Ok Done, if i < length (vq_views q) \<and> snd (vq_views q ! i) then vq_give_back i q else q)"

fun vq_call :: "view_call \<Rightarrow> (view_queue, dsline_error, answer) action" where
  "vq_call (Send_copy m) q = vq_send m q"
| "vq_call (Send_buffer parts) q = vq_send_buffer (concat parts) q"
| "vq_call Recv_copy q = vq_recv q"
| "vq_call Take_view q = vq_take q"
| "vq_call (Read_view i) q = vq_read i q"
| "vq_call (Release_view i) q = vq_release i q"
| "vq_call (Drop_view i) q = vq_drop i q"
| "vq_call Close_producer q = (Ok Done, q\<lparr>vq_producer_shut := True\<rparr>)"
| "vq_call Close_consumer q = (Ok Done, q\<lparr>vq_consumer_shut := True\<rparr>)"

end
