(* ===== verification/Pinned_Channel.thy ===== *)
theory Pinned_Channel
  imports Pinned_Slots View_Spec
begin

text \<open>
  The operations of the two handles on a store whose slots behind the tail are held by views: each has
  the outcome and the effect of the queue with views.
\<close>

section \<open>The store\<close>

definition pinned_store ::
  "'s region_io_ops \<Rightarrow> ('s \<Rightarrow> bool) \<Rightarrow> ('s \<Rightarrow> bytes) \<Rightarrow> (bytes \<Rightarrow> u32) \<Rightarrow> spsc_config \<Rightarrow> slot_view list \<Rightarrow> ring_words \<Rightarrow> u64 \<Rightarrow>
     bytes list \<Rightarrow> 's \<Rightarrow> bool" where
  "pinned_store io ok mem crc cfg xs w sq ms s \<longleftrightarrow>
     (\<exists>ws. pinned_queue io ok mem cfg xs w (map (\<lambda>(q, f). committed_view q f) ws) s \<and> stored crc cfg sq ms ws)"

text \<open>The consumer's handle expects the number of the next message.\<close>

definition receiver_at :: "spsc_config \<Rightarrow> u64 \<Rightarrow> 's persistent_channel \<Rightarrow> bool" where
  "receiver_at cfg sq c \<longleftrightarrow> pc_config c = cfg \<and> pc_recovery_bias c = 0 \<and> pc_expected_recv_seq c = sq \<and> \<not> pc_resync_expected c"

text \<open>A frame's header is its first bytes.\<close>

lemma decode_header_prefix:
  assumes "FRAME_HEADER_LEN \<le> length b"
  shows "decode_frame_header (take FRAME_HEADER_LEN b) = decode_frame_header b"
proof -
  have len: "50 \<le> length b" using assms by (simp add: FRAME_HEADER_LEN_def)
  have ir: "(index_range (take 50 b) i j :: bytes result) = index_range b i j" if "j \<le> 50" for i j
    using that len by (simp add: index_range_def bytes_at_def drop_take)
  have rd: "off + 2 \<le> 50 \<Longrightarrow> read_u16 (take 50 b) off = read_u16 b off" "off + 4 \<le> 50 \<Longrightarrow> read_u32 (take 50 b) off = read_u32 b off"
    "off + 8 \<le> 50 \<Longrightarrow> read_u64 (take 50 b) off = read_u64 b off" for off
    using ir [of "off + 2" off] ir [of "off + 4" off] ir [of "off + 8" off]
    by (simp_all add: read_u16_def read_u32_def read_u64_def)
  have reads: "read_u32 (take 50 b) 0 = read_u32 b 0" "read_u16 (take 50 b) 4 = read_u16 b 4" "read_u16 (take 50 b) 6 = read_u16 b 6"
    "read_u16 (take 50 b) 8 = read_u16 b 8" "read_u32 (take 50 b) 10 = read_u32 b 10" "read_u64 (take 50 b) 14 = read_u64 b 14"
    "read_u64 (take 50 b) 22 = read_u64 b 22" "read_u64 (take 50 b) 30 = read_u64 b 30" "read_u64 (take 50 b) 38 = read_u64 b 38"
    "read_u32 (take 50 b) 46 = read_u32 b 46" by (rule rd, simp)+
  have n: "FRAME_HEADER_LEN = 50" "\<not> length (take 50 b) < 50" "\<not> length b < 50" using len by (simp_all add: FRAME_HEADER_LEN_def)
  show ?thesis unfolding decode_frame_header_def n(1) reads by (simp only: n if_False)
qed

lemma chunked_header:
  assumes "decode_frame b = Ok f" "is_chunked f"
  obtains h c n where "b = h @ c" "length h = FRAME_HEADER_LEN" "decode_frame_header h = Ok (header f, n)" "hdr_flags (header f) \<noteq> 0"
proof -
  from assms(1) obtain hdr n where d: "decode_frame_header b = Ok (hdr, n)" "hdr = header f"
    by (auto simp: decode_frame_def Let_def split: if_splits)
  then have len: "FRAME_HEADER_LEN \<le> length b" by (auto simp: decode_frame_header_def split: if_splits)
  have "hdr_flags (header f) \<noteq> 0" using assms(2) by (auto simp: is_chunked_def)
  with d len decode_header_prefix [OF len] show thesis
    by (intro that [of "take FRAME_HEADER_LEN b" "drop FRAME_HEADER_LEN b" n]) simp_all
qed

lemma needs_chunks:
  assumes "message_frames crc sq limit m fs" "1 < length fs"
  obtains h b bs hdr n where "fs = (h @ b) # bs" "length h = FRAME_HEADER_LEN" "decode_frame_header h = Ok (hdr, n)" "hdr_flags hdr \<noteq> 0"
proof -
  from assms obtain cs where "\<forall>i < length fs. \<exists>f. decode_frame (fs ! i) = Ok f \<and> chunk_frame_ok crc sq i (length fs) (length m) (cs ! i) f"
    by (auto simp: message_frames_def)
  then obtain f where f: "decode_frame (fs ! 0) = Ok f" "chunk_frame_ok crc sq 0 (length fs) (length m) (cs ! 0) f"
    using assms(2) by force
  obtain b bs where fs: "fs = b # bs" using assms(2) by (cases fs) auto
  with f have "decode_frame b = Ok f" "is_chunked f" by (simp_all add: chunk_frame_ok_def)
  from chunked_header [OF this] fs that show thesis by metis
qed

lemma chunked_slots:
  assumes "send_plan_of cfg (length m) = Ok plan" "0 < capacity cfg" "slot_size cfg < length m"
  shows "1 < needed_slots plan"
  using assms(1,2)
proof (cases rule: send_plan_Ok)
  case single
  with assms(3) show ?thesis by simp
next
  case (chunked c)
  have "2 * c \<le> length m + (c - 1)" using chunked(1-3) by simp
  then have "2 * c div c \<le> (length m + (c - 1)) div c" by (rule div_le_mono)
  with chunked(3,4) show ?thesis by simp
qed

lemma stored_chunk:
  assumes ws: "stored crc cfg sq (m # ms) ws" and cap: "0 < capacity cfg" and m: "slot_size cfg < length m"
  obtains h b rest hdr n where "map (\<lambda>(q, f). committed_view q f) ws = committed_view sq (h @ b) # rest"
    "length h = FRAME_HEADER_LEN" "decode_frame_header h = Ok (hdr, n)" "hdr_flags hdr \<noteq> 0"
proof -
  from ws obtain plan fs ws' where f: "length m \<le> isize_max" "send_plan_of cfg (length m) = Ok plan"
    "encode_message_frames crc cfg plan sq m = Ok fs" "ws = map (Pair sq) fs @ ws'" by auto
  note e = encoded_message [OF f(2) cap f(1,3)]
  have "1 < length fs" using chunked_slots [OF f(2) cap m] e(1) by simp
  from needs_chunks [OF e(2) this] obtain h b bs hdr n where
    "fs = (h @ b) # bs" "length h = FRAME_HEADER_LEN" "decode_frame_header h = Ok (hdr, n)" "hdr_flags hdr \<noteq> 0" .
  with f(4) that show thesis by simp
qed

context region_io
begin

abbreviation pstore :: "(bytes \<Rightarrow> u32) \<Rightarrow> spsc_config \<Rightarrow> slot_view list \<Rightarrow> ring_words \<Rightarrow> u64 \<Rightarrow> bytes list \<Rightarrow> 's \<Rightarrow> bool" where
  "pstore \<equiv> pinned_store io inv mem"

lemma pstore_nil [simp]: "pstore crc cfg [] w sq ms s \<longleftrightarrow> sholds crc cfg w sq ms s"
  by (simp add: pinned_store_def store_holds_def)

lemma pstore_used:
  assumes "pstore crc cfg xs w sq ms s"
  shows "length xs + used_slots cfg ms \<le> capacity cfg" "0 < capacity cfg" "unat (rg_head w) = unat (rg_tail w) + used_slots cfg ms"
    "words_of (mem s) = w"
proof -
  from assms obtain ws where ws: "pqueued cfg xs w (map (\<lambda>(q, f). committed_view q f) ws) s" "stored crc cfg sq ms ws"
    by (auto simp: pinned_store_def)
  note n = pqueued_bounds [OF ws(1)]
  show "0 < capacity cfg" by (rule n(2))
  have "length ws = used_slots cfg ms" using stored_length [OF ws(2) n(2)] .
  with n show "length xs + used_slots cfg ms \<le> capacity cfg" "unat (rg_head w) = unat (rg_tail w) + used_slots cfg ms" by simp_all
  show "words_of (mem s) = w" using n(5) by (auto simp: ring_window_def at_ring_def)
qed

lemma pins_room:
  assumes s: "pstore crc (pc_config c) xs w sq ms (pc_store c)" and bias: "pc_recovery_bias c = 0"
  defines "r \<equiv> refreshed w (used_slots (pc_config c) ms) c"
  shows "refresh_cursors io c = (Ok (), r)" "refresh_cursors io r = (Ok (), r)"
    "guard_room r = capacity (pc_config c) - (length xs + used_slots (pc_config c) ms)"
proof -
  from s obtain ws where ws: "pqueued (pc_config c) xs w (map (\<lambda>(q, f). committed_view q f) ws) (pc_store c)" "stored crc (pc_config c) sq ms ws"
    by (auto simp: pinned_store_def)
  have len: "length ws = used_slots (pc_config c) ms" using stored_length [OF ws(2) pqueued_bounds(2) [OF ws(1)]] .
  show "refresh_cursors io c = (Ok (), r)"
    "guard_room r = capacity (pc_config c) - (length xs + used_slots (pc_config c) ms)"
    using refresh_pins(1,3) [OF ws(1) bias] len by (simp_all add: r_def)
  have "pqueued (pc_config r) xs w (map (\<lambda>(q, f). committed_view q f) ws) (pc_store r)" "pc_recovery_bias r = 0"
    "refreshed w (length ws) r = r" using ws(1) bias len by (simp_all add: r_def refreshed_def pcapacity_def)
  with refresh_pins(1) [of r xs w] show "refresh_cursors io r = (Ok (), r)" by simp
qed

section \<open>Sending\<close>

lemma pins_append:
  assumes s: "pstore crc cfg xs w sq ms (pc_store c)" and c: "producer_at cfg w (sq + word_of_nat (length ms)) c"
    and loaded: "pc_head_cursor c = rg_head w" and small: "slot_size cfg + FRAME_HEADER_LEN < 2 ^ 32"
    and m: "length m \<le> isize_max" and plan: "send_plan_of cfg (length m) = Ok plan"
    and room: "length xs + used_slots cfg ms + needed_slots plan \<le> capacity cfg"
    and count: "unat (rg_head w) + capacity cfg < 2 ^ 64"
    and fs: "encode_message_frames crc cfg plan (pc_next_seq c) m = Ok fs"
  shows "\<exists>d w'. seq (for_each fs (write_frame_at_head io (pc_next_seq c) ident)) (publish_head io fs (pc_head c))
       (c\<lparr>pc_next_seq := pc_next_seq c + 1\<rparr>) = (Ok (), d) \<and>
     pstore crc cfg xs w' sq (ms @ [m]) (pc_store d) \<and> producer_at cfg w' (sq + word_of_nat (length (ms @ [m]))) d \<and>
     rg_tail w' = rg_tail w \<and> rg_floor w' = rg_floor w \<and> pc_closed d = pc_closed c \<and> unat (rg_head w') \<le> unat (rg_head w) + capacity cfg"
proof -
  let ?sq = "pc_next_seq c" and ?c = "c\<lparr>pc_next_seq := pc_next_seq c + 1\<rparr>" and ?hc = "rg_head w + word_of_nat (length fs)"
  have cap: "0 < capacity cfg" using pstore_used(2) [OF s] .
  note e = encoded_message [OF plan cap m fs]
  from s obtain ws where ws: "pqueued cfg xs w (map (\<lambda>(q, f). committed_view q f) ws) (pc_store c)" "stored crc cfg sq ms ws"
    by (auto simp: pinned_store_def)
  let ?vs = "map (\<lambda>(q, f). committed_view q f) ws" and ?k = "capacity cfg - (length ws + length fs + length xs)"
  have len: "length ws = used_slots cfg ms" using stored_length [OF ws(2) cap] .
  then have n: "length (?vs @ map (committed_view ?sq) fs) + length xs \<le> capacity cfg"
    "capacity cfg - (length ws + length xs) = length fs + ?k" using room e(1) by simp_all
  note h = pqueued_bounds [OF ws(1)]
  have win: "window cfg w (?vs @ replicate (length fs) free_view @ (replicate ?k free_view @ xs)) (pc_store ?c)"
    using h(5) n(2) by (simp add: replicate_add)
  have pc: "pc_config ?c = cfg" "pc_head ?c = (unat (rg_tail w) + length ?vs) mod capacity cfg" "pc_head_cursor ?c = rg_head w"
    using c h loaded by (simp_all add: producer_at_def)
  have fit: "\<forall>f \<in> set fs. length f \<le> slot_size cfg + FRAME_HEADER_LEN" using e(2) by (simp add: message_frames_def)
  have "unat (rg_head w) + length fs < 2 ^ 64" using count n(1) by simp
  from append_between [OF win pc(1,2) small fit e(3) pc(3) this, of ?sq ident "pc_head c"] obtain d where
    d: "seq (for_each fs (write_frame_at_head io ?sq ident)) (publish_head io fs (pc_head c)) ?c = (Ok (), d)"
      "window cfg (w\<lparr>rg_head := ?hc\<rparr>) (?vs @ map (committed_view ?sq) fs @ replicate ?k free_view @ xs) (pc_store d)"
      "unat ?hc = unat (rg_head w) + length fs" "pc_head d = (unat (rg_tail w) + length ?vs + length fs) mod capacity cfg"
      "pc_config d = cfg" "pc_next_seq d = ?sq + 1" "pc_recovery_bias d = pc_recovery_bias c" "pc_closed d = pc_closed c" by auto
  have sq: "?sq = sq + word_of_nat (length ms)" using c by (simp add: producer_at_def)
  have "stored crc cfg sq (ms @ [m]) (ws @ map (Pair ?sq) fs)"
    using ws(2) m plan fs sq by (auto simp: stored_append)
  moreover have "map (\<lambda>(q, f). committed_view q f) (ws @ map (Pair ?sq) fs) = ?vs @ map (committed_view ?sq) fs"
    by (simp add: o_def)
  moreover have "pqueued cfg xs (w\<lparr>rg_head := ?hc\<rparr>) (?vs @ map (committed_view ?sq) fs) (pc_store d)"
    using d(2,3) ws(1) n(1) h(3) by (simp add: pinned_queue_def)
  ultimately have "pstore crc cfg xs (w\<lparr>rg_head := ?hc\<rparr>) sq (ms @ [m]) (pc_store d)"
    unfolding pinned_store_def by metis
  moreover have "producer_at cfg (w\<lparr>rg_head := ?hc\<rparr>) (sq + word_of_nat (length (ms @ [m]))) d"
    using c sq d(3-7) h(3) by (simp add: producer_at_def)
  ultimately show ?thesis using d(1,3,8) n(1)
    by (intro exI [of _ d] exI [of _ "w\<lparr>rg_head := ?hc\<rparr>"]) simp
qed

lemma pins_send:
  assumes s: "pstore (env_crc env) cfg xs w sq (vq_msgs q) (pc_store c)" and c: "producer_at cfg w (sq + word_of_nat (length (vq_msgs q))) c"
    and cfg: "shared_config cfg" and env: "quiet env" and m: "length m \<le> isize_max" and count: "unat (rg_head w) + capacity cfg < 2 ^ 64"
    and q: "vq_config q = cfg" "length (vq_behind q) = length xs" "vq_producer_shut q = pc_closed c"
  shows "\<exists>d w' r. psend io env fuel m c = (r, d) \<and> fst (vq_send m q) = map_outcome (\<lambda>_. Done) r \<and>
    (\<exists>ms. snd (vq_send m q) = q\<lparr>vq_msgs := ms\<rparr> \<and> pstore (env_crc env) cfg xs w' sq ms (pc_store d) \<and>
       producer_at cfg w' (sq + word_of_nat (length ms)) d) \<and>
    rg_tail w' = rg_tail w \<and> rg_floor w' = rg_floor w \<and> pc_closed d = pc_closed c \<and> unat (rg_head w') \<le> unat (rg_head w) + capacity cfg"
proof (cases "pc_closed c")
  case True
  with s c q show ?thesis by (intro exI [of _ c] exI [of _ w]) (auto simp: psend_def vq_send_def intro!: exI [of _ "vq_msgs q"])
next
  case False
  have sc: "\<not> multi_producer cfg" "backpressure cfg \<noteq> DropOldest" "slot_size cfg + FRAME_HEADER_LEN < 2 ^ 32"
    using cfg by (simp_all add: shared_config_def)
  have pc: "pc_config c = cfg" "pc_recovery_bias c = 0" using c by (simp_all add: producer_at_def)
  let ?ms = "vq_msgs q" and ?r = "refreshed w (used_slots cfg (vq_msgs q)) c"
  note u = pstore_used [OF s]
  have ref: "refresh_cursors io c = (Ok (), ?r)" "refresh_cursors io ?r = (Ok (), ?r)"
    "guard_room ?r = vq_room q"
    using pins_room [of "env_crc env" c xs w sq ?ms] s pc q by (simp_all add: vq_room_def)
  have keep: "pstore (env_crc env) cfg xs w sq ?ms (pc_store ?r)" "producer_at cfg w (sq + word_of_nat (length ?ms)) ?r"
    "pc_closed ?r = pc_closed c" "pc_config ?r = cfg" "pc_head_cursor ?r = rg_head w"
    using s c pc by (simp_all add: refreshed_def producer_at_def)
  show ?thesis
  proof (cases "send_plan_of cfg (length m)")
    case (Ok plan)
    have "\<not> multi_producer (pc_config c)" "pc_config ?r = pc_config c" "send_plan_of (pc_config c) (length m) = Ok plan" "0 < capacity (pc_config c)"
      using sc keep(4) pc Ok u(2) by simp_all
    note send = psend_by_room [OF False this(1) env ref(1,2) this(2-4), unfolded pc(1)]
    show ?thesis
    proof (cases "needed_slots plan \<le> vq_room q")
      case True
      then have room: "length xs + used_slots cfg ?ms + needed_slots plan \<le> capacity cfg" using u(1) q by (simp add: vq_room_def)
      obtain fs where fs: "encode_message_frames (env_crc env) cfg plan (pc_next_seq ?r) m = Ok fs"
        using encode_message_frames_Ok [OF Ok u(2) m] by metis
      let ?t = "?r\<lparr>pc_next_seq := pc_next_seq ?r + 1\<rparr>"
      from pins_append [OF keep(1,2,5) sc(3) m Ok room count fs, of "stamp env (needed_slots plan) ?t"] obtain d w' where
        d: "seq (for_each fs (write_frame_at_head io (pc_next_seq ?r) (stamp env (needed_slots plan) ?t)))
            (publish_head io fs (pc_head ?r)) ?t = (Ok (), d)"
          "pstore (env_crc env) cfg xs w' sq (?ms @ [m]) (pc_store d)"
          "producer_at cfg w' (sq + word_of_nat (length (?ms @ [m]))) d" "rg_tail w' = rg_tail w" "rg_floor w' = rg_floor w"
          "pc_closed d = pc_closed ?r" "unat (rg_head w') \<le> unat (rg_head w) + capacity cfg" by blast
      have run: "psend io env fuel m c = (Ok (), d)" using send(1) [OF _ fs] ref(3) d(1) True by simp
      have "vq_send m q = (Ok Done, q\<lparr>vq_msgs := ?ms @ [m]\<rparr>)" using False q Ok True by (simp add: vq_send_def)
      with run d(2-) keep(3) show ?thesis by (intro exI [of _ d] exI [of _ w'] exI [of _ "Ok ()"]) (auto intro!: exI [of _ "?ms @ [m]"])
    next
      case full: False
      then have "psend io env fuel m c = (if backpressure cfg = DropNewest then Ok () else ChanErr BufferFull, ?r)"
        using send(2) ref(3) sc(2) by simp
      moreover have "vq_send m q = (if backpressure cfg = DropNewest then Ok Done else ChanErr BufferFull, q)"
        using False q Ok full by (simp add: vq_send_def)
      ultimately show ?thesis using keep
        by (intro exI [of _ ?r] exI [of _ w] exI [of _ "if backpressure cfg = DropNewest then Ok () else ChanErr BufferFull"])
          (simp, intro exI [of _ ?ms], simp)
    qed
  qed (use ref keep False q pc in \<open>auto simp: psend_def vq_send_def intro!: exI [of _ "?ms"]\<close>)
qed

section \<open>Receiving\<close>

lemma pstore_floor:
  assumes "pstore crc cfg xs w sq ms s" "xs \<noteq> []"
  shows "unat (rg_head w) = unat (rg_floor w) + length xs + used_slots cfg ms" "unat (rg_tail w) = unat (rg_floor w) + length xs"
  using assms pstore_used(3) [OF assms(1)] by (auto simp: pinned_store_def pinned_queue_def)

lemma pins_recv_none:
  assumes s: "pstore (env_crc env) cfg xs w sq [] (pc_store c)" and c: "receiver_at cfg sq c" and cfg: "shared_config cfg" and env: "quiet env"
  shows "\<exists>d. precv io env c = (ChanErr (if pc_closed c then Closed else BufferEmpty), d) \<and> pstore (env_crc env) cfg xs w sq [] (pc_store d) \<and>
      receiver_at cfg sq d \<and> pc_closed d = pc_closed c"
    "\<exists>d. recv_view io env c = (ChanErr (if pc_closed c then Closed else BufferEmpty), d) \<and> pstore (env_crc env) cfg xs w sq [] (pc_store d) \<and>
      receiver_at cfg sq d \<and> pc_closed d = pc_closed c"
proof -
  have pc: "pc_config c = cfg" "pc_recovery_bias c = 0" "pc_expected_recv_seq c = sq" "\<not> pc_resync_expected c"
    using c by (simp_all add: receiver_at_def)
  have "pqueued (pc_config c) xs w [] (pc_store c)" using s pc by (simp add: pinned_store_def)
  from ensure_empty_pins [OF this pc(2) env] pc(1) obtain d where
    d: "ensure_tail_readable io env c = (ChanErr (if pc_closed c then Closed else BufferEmpty), d)"
      "at_pins cfg xs [] d" "same_handle (c\<lparr>pc_head_cursor := rg_head w\<rparr>) d" "loaded_words d = w" by auto
  have k: "pstore (env_crc env) cfg xs w sq [] (pc_store d)" "receiver_at cfg sq d" "pc_closed d = pc_closed c"
    using d(2-4) pc by (simp_all add: pinned_store_def loaded_pins_def receiver_at_def same_handle_def)
  show "\<exists>d. precv io env c = (ChanErr (if pc_closed c then Closed else BufferEmpty), d) \<and> pstore (env_crc env) cfg xs w sq [] (pc_store d) \<and>
      receiver_at cfg sq d \<and> pc_closed d = pc_closed c"
    using d(1) k by (intro exI [of _ d]) (simp add: precv_def precv_with_seq_def)
  have "backpressure cfg \<noteq> DropOldest" using cfg by (simp add: shared_config_def)
  then show "\<exists>d. recv_view io env c = (ChanErr (if pc_closed c then Closed else BufferEmpty), d) \<and> pstore (env_crc env) cfg xs w sq [] (pc_store d) \<and>
      receiver_at cfg sq d \<and> pc_closed d = pc_closed c"
    using d(1) k pc(1) by (intro exI [of _ d]) (simp add: recv_view_def)
qed

lemma pins_recv_some:
  assumes s: "pstore (env_crc env) cfg xs w sq (m # ms) (pc_store c)" and c: "receiver_at cfg sq c"
  shows "\<exists>d w'. precv io env c = (Ok m, d) \<and> pstore (env_crc env) cfg (passed xs (slots_of cfg m)) w' (sq + 1) ms (pc_store d) \<and>
    rg_head w' = rg_head w \<and> receiver_at cfg (sq + 1) d \<and> pc_closed d = pc_closed c"
proof -
  have pc: "pc_config c = cfg" "pc_recovery_bias c = 0" "expects sq c" using c by (simp_all add: receiver_at_def expects_def)
  from s obtain ws where ws: "pqueued cfg xs w (map (\<lambda>(q, f). committed_view q f) ws) (pc_store c)" "stored (env_crc env) cfg sq (m # ms) ws"
    by (auto simp: pinned_store_def)
  from ws(2) obtain plan fs ws' where f: "length m \<le> isize_max" "send_plan_of cfg (length m) = Ok plan"
    "encode_message_frames (env_crc env) cfg plan sq m = Ok fs" "ws = map (Pair sq) fs @ ws'"
    "stored (env_crc env) cfg (sq + 1) ms ws'" by auto
  note e = encoded_message [OF f(2) pstore_used(2) [OF s] f(1,3)]
  have "pqueued (pc_config c) xs w (map (committed_view sq) fs @ map (\<lambda>(q, f). committed_view q f) ws') (pc_store c)"
    using ws(1) f(4) pc(1) by (simp add: o_def)
  from recv_message_pins [OF e(2) f(1) this pc(2)] pc(1,3) obtain d where
    d: "precv_with_seq io env c = (Ok \<lparr>rm_seq = sq, rm_payload = m\<rparr>, d)"
      "at_pins cfg (passed xs (length fs)) (map (\<lambda>(q, f). committed_view q f) ws') d" "pc_closed d = pc_closed c"
      "pc_head_cursor d = rg_head w" "expects (sq + 1) d" "\<not> pc_resync_expected d" by auto
  have "pstore (env_crc env) cfg (passed xs (slots_of cfg m)) (loaded_words d) (sq + 1) ms (pc_store d)"
    using d(2) f(2,5) e(1) by (auto simp: pinned_store_def loaded_pins_def)
  moreover have "receiver_at cfg (sq + 1) d" using d(2,5,6) by (simp add: receiver_at_def loaded_pins_def expects_def)
  moreover have "rg_head (loaded_words d) = rg_head w" using d(4) by (simp add: loaded_words_def)
  ultimately show ?thesis using d
    by (intro exI [of _ d] exI [of _ "loaded_words d"]) (simp add: precv_def)
qed

section \<open>Taking a view\<close>

lemma pins_take:
  assumes s: "pstore (env_crc env) cfg xs w sq (m # ms) (pc_store c)" and c: "receiver_at cfg sq c" and cfg: "shared_config cfg"
  shows "length m \<le> slot_size cfg \<Longrightarrow> \<exists>d w'. recv_view io env c = (Ok (view_at cfg (rg_tail w) sq (length m)), d) \<and>
      pstore (env_crc env) cfg (xs @ [pinned_view sq (plain_header (env_crc env) sq m @ m)]) w' (sq + 1) ms (pc_store d) \<and>
      rg_head w' = rg_head w \<and> unat (rg_tail w) = unat (rg_floor w') + length xs \<and> receiver_at cfg (sq + 1) d \<and> pc_closed d = pc_closed c"
    "slot_size cfg < length m \<Longrightarrow> \<exists>d. recv_view io env c =
        (ChanErr (InvalidConfig ''zero-copy views require single-slot unchunked messages; use recv()''), d) \<and>
      pstore (env_crc env) cfg xs w sq (m # ms) (pc_store d) \<and> receiver_at cfg sq d \<and> pc_closed d = pc_closed c"
proof -
  have sc: "backpressure (pc_config c) \<noteq> DropOldest" "slot_size cfg + FRAME_HEADER_LEN < 2 ^ 32"
    using cfg c by (simp_all add: shared_config_def receiver_at_def)
  have pc: "pc_config c = cfg" "pc_recovery_bias c = 0" "expects sq c" using c by (simp_all add: receiver_at_def expects_def)
  from s obtain ws where ws: "pqueued cfg xs w (map (\<lambda>(q, f). committed_view q f) ws) (pc_store c)" "stored (env_crc env) cfg sq (m # ms) ws"
    by (auto simp: pinned_store_def)
  {
    assume m: "length m \<le> slot_size cfg"
    from ws(2) single_slot_frames(1) [OF m sc(2)] single_slot_frames(2) [OF m sc(2), of "env_crc env" sq] obtain ws' where
      f: "ws = (sq, plain_header (env_crc env) sq m @ m) # ws'" "stored (env_crc env) cfg (sq + 1) ms ws'" by auto
    have "pqueued (pc_config c) xs w (committed_view sq (plain_header (env_crc env) sq m @ m) #
        map (\<lambda>(q, f). committed_view q f) ws') (pc_store c)" using ws(1) f(1) pc(1) by simp
    from recv_view_pins [OF this pc(2,3) sc(1)] m sc(2) pc(1) obtain d w' where
      "recv_view io env c = (Ok (view_at cfg (rg_tail w) sq (length m)), d)"
      "pqueued cfg (xs @ [pinned_view sq (plain_header (env_crc env) sq m @ m)]) w' (map (\<lambda>(q, f). committed_view q f) ws') (pc_store d)"
      "rg_head w' = rg_head w" "unat (rg_tail w) = unat (rg_floor w') + length xs" "pc_config d = cfg" "pc_recovery_bias d = 0"
      "pc_expected_recv_seq d = sq + 1" "\<not> pc_resync_expected d" "pc_closed d = pc_closed c" by auto
    with f(2) show "\<exists>d w'. recv_view io env c = (Ok (view_at cfg (rg_tail w) sq (length m)), d) \<and>
      pstore (env_crc env) cfg (xs @ [pinned_view sq (plain_header (env_crc env) sq m @ m)]) w' (sq + 1) ms (pc_store d) \<and>
      rg_head w' = rg_head w \<and> unat (rg_tail w) = unat (rg_floor w') + length xs \<and> receiver_at cfg (sq + 1) d \<and> pc_closed d = pc_closed c"
      by (intro exI [of _ d] exI [of _ w']) (auto simp: pinned_store_def receiver_at_def)
  }
  {
    assume m: "slot_size cfg < length m"
    from stored_chunk [OF ws(2) pstore_used(2) [OF s] m] obtain h b rest hdr n where
      h: "map (\<lambda>(q, f). committed_view q f) ws = committed_view sq (h @ b) # rest" "length h = FRAME_HEADER_LEN"
        "decode_frame_header h = Ok (hdr, n)" "hdr_flags hdr \<noteq> 0" .
    have "pqueued (pc_config c) xs w (committed_view sq (h @ b) # rest) (pc_store c)" using ws(1) pc(1) unfolding h(1) by simp
    from recv_view_chunked [OF this pc(2) sc(1) h(2-4), of env] pc(1) obtain d where
      d: "recv_view io env c = (ChanErr (InvalidConfig ''zero-copy views require single-slot unchunked messages; use recv()''), d)"
        "at_pins cfg xs (committed_view sq (h @ b) # rest) d"
        "same_handle (c\<lparr>pc_resync_expected := False, pc_head_cursor := rg_head w\<rparr>) d" "loaded_words d = w" by auto
    have "pqueued cfg xs w (map (\<lambda>(q, f). committed_view q f) ws) (pc_store d)"
      using d(2,4) unfolding h(1) by (simp add: loaded_pins_def)
    then have "pstore (env_crc env) cfg xs w sq (m # ms) (pc_store d)" using ws(2) unfolding pinned_store_def by blast
    with d(1-3) c show "\<exists>d. recv_view io env c =
        (ChanErr (InvalidConfig ''zero-copy views require single-slot unchunked messages; use recv()''), d) \<and>
      pstore (env_crc env) cfg xs w sq (m # ms) (pc_store d) \<and> receiver_at cfg sq d \<and> pc_closed d = pc_closed c"
      by (intro exI [of _ d]) (simp add: receiver_at_def same_handle_def loaded_pins_def)
  }
qed

end

end
