(* ===== verification/Persistent_Zero_Copy.thy ===== *)
theory Persistent_Zero_Copy
  imports Pinned_Channel
begin

text \<open>
  A message sent through \<open>alloc\<close>, writes into the buffer and \<open>publish\<close>, and one received through
  \<open>recv_view\<close>, a read and \<open>release\<close>: the same steps of the bounded message queue as a send and a
  receive that copy.
\<close>

section \<open>The two round trips\<close>

text \<open>The payload is written in parts, one after the other.\<close>

fun write_parts ::
  "'s region_io_ops \<Rightarrow> write_lease \<Rightarrow> usize \<Rightarrow> bytes list \<Rightarrow> ('s, dsline_error, unit) action" where
  "write_parts io l off [] = return ()"
| "write_parts io l off (b # bs) = seq (lease_write io l off b) (write_parts io l (off + length b) bs)"

definition zero_copy_send :: "'s region_io_ops \<Rightarrow> 's channel_env \<Rightarrow> nat \<Rightarrow> bytes list \<Rightarrow> ('s, u64) channel_action" where
  "zero_copy_send io env fuel parts =
     bind (alloc io env fuel (length (concat parts))) (\<lambda>l.
     seq (on_store (write_parts io l 0 parts))
     (\<lambda>c. case publish io env (l, c) of (r, (l', c')) \<Rightarrow> (r, c')))"

definition zero_copy_recv :: "'s region_io_ops \<Rightarrow> 's channel_env \<Rightarrow> ('s, bytes) channel_action" where
  "zero_copy_recv io env =
     bind (recv_view io env) (\<lambda>v.
     bind (look (view_read_all io v)) (\<lambda>m.
     (\<lambda>c. case view_release io (v, pc_store c) of (r, (v', t)) \<Rightarrow> (map_outcome (\<lambda>_. m) r, c\<lparr>pc_store := t\<rparr>))))"

section \<open>Writing into a slot\<close>

lemma put_at_adjacent:
  "off + length a + length b \<le> length xs \<Longrightarrow> put_at (off + length a) b (put_at off a xs) = put_at off (a @ b) xs"
  by (rule nth_equalityI) (auto simp: nth_put_at nth_append)

lemma put_slot_same:
  assumes "i < cap" "length m = REGION_HEADER_LEN + cap * sz"
  shows "put_slot sz i (slot_raw sz i m) m = m"
  using slot_fits [OF assms] by (simp add: put_slot_def slot_raw_def put_at_def bytes_at_def min_def)
    (metis add.commute append_take_drop_id drop_drop)

context region_io
begin

lemma area_write:
  assumes "layout cap sz s" "i < cap" "d + length b \<le> sz"
  shows "\<exists>t. rio_write_at io (REGION_HEADER_LEN + i * sz + d) b s = (Ok (), t) \<and>
    slot_set cap sz i (put_at d b (slot_raw sz i (mem s))) s t"
  using write_at_slot_effect [OF assms] assms(1) by (simp add: write_at_slot_def)

lemma slot_set_same: "layout cap sz s \<Longrightarrow> i < cap \<Longrightarrow> slot_set cap sz i (slot_raw sz i (mem s)) s s"
  using put_slot_same [of i cap "mem s" sz] by (simp add: slot_set_def region_layout_def)

lemma write_parts_effect:
  assumes "layout cap sz s" "i < cap" "wl_payload_offset l = REGION_HEADER_LEN + i * sz + d" "\<not> wl_sealed l"
    and "off + length (concat parts) \<le> wl_payload_len l" "d + wl_payload_len l \<le> sz"
  shows "\<exists>t. write_parts io l off parts s = (Ok (), t) \<and>
    slot_set cap sz i (put_at (d + off) (concat parts) (slot_raw sz i (mem s))) s t"
  using assms
proof (induction parts arbitrary: s off)
  case Nil
  then show ?case using slot_set_same by (simp add: put_at_def)
next
  case (Cons b bs)
  from area_write [OF Cons.prems(1,2), of "d + off" b] Cons.prems(5,6) obtain t where
    t: "rio_write_at io (REGION_HEADER_LEN + i * sz + (d + off)) b s = (Ok (), t)"
      "slot_set cap sz i (put_at (d + off) b (slot_raw sz i (mem s))) s t" by auto
  note tr = slot_set_raw [OF Cons.prems(1,2) t(2)]
  from Cons.IH [OF tr(4) Cons.prems(2-4), of "off + length b"] Cons.prems(5,6) obtain u where
    u: "write_parts io l (off + length b) bs t = (Ok (), u)"
      "slot_set cap sz i (put_at (d + (off + length b)) (concat bs) (put_at (d + off) b (slot_raw sz i (mem s)))) t u"
    using tr(1) by auto
  have "length (slot_raw sz i (mem s)) = sz"
    using Cons.prems(1,2) length_slot_raw [of i cap "mem s" sz] by (simp add: region_layout_def)
  then have "put_at (d + (off + length b)) (concat bs) (put_at (d + off) b (slot_raw sz i (mem s))) =
      put_at (d + off) (concat (b # bs)) (slot_raw sz i (mem s))"
    using put_at_adjacent [of "d + off" b "concat bs" "slot_raw sz i (mem s)"] Cons.prems(5,6) by (simp add: add.assoc)
  with slot_set_trans [OF Cons.prems(1,2) t(2) u(2)] t(1) u(1) Cons.prems(3-5) show ?case
    by (simp add: lease_write_def add.assoc)
qed

text \<open>A slot from the reservation to the commit, store by store.\<close>

lemma buffer_life:
  fixes parts h s i cap sz l sq ident
  defines "m \<equiv> concat parts" and "off \<equiv> REGION_HEADER_LEN + i * sz + (PERSISTENT_SLOT_HEADER_LEN + FRAME_HEADER_LEN)"
  assumes s: "layout cap sz s" and i: "i < cap" and fit: "PERSISTENT_SLOT_HEADER_LEN + FRAME_HEADER_LEN + length m \<le> sz"
    and l: "wl_payload_offset l = off" "\<not> wl_sealed l" "wl_payload_len l = length m" and h: "length h = FRAME_HEADER_LEN"
  obtains t u v x rest where "write_writing_header io i sq (FRAME_HEADER_LEN + length m) ident s = (Ok (), t)" "layout cap sz t"
    "write_parts io l 0 parts t = (Ok (), u)" "layout cap sz u" "header_state io i u = Ok Writing"
    "rio_slice io off (length m) u = Ok m"
    "rio_write_at io (off - FRAME_HEADER_LEN) h u = (Ok (), v)"
    "write_header io i Committed sq (FRAME_HEADER_LEN + length m) v = (Ok (), x)"
    "slot_set cap sz i (encode_header Committed sq (FRAME_HEADER_LEN + length m) None False @ h @ m @ rest) s x"
proof -
  let ?raw = "slot_raw sz i (mem s)" and ?n = "FRAME_HEADER_LEN + length m"
  let ?w = "encode_header Writing sq ?n (Some ident) True"
  define rest where "rest = drop (98 + length m) ?raw"
  note sizes = PERSISTENT_SLOT_HEADER_LEN_def FRAME_HEADER_LEN_def
  have len: "length ?raw = sz" using s i length_slot_raw [of i cap "mem s" sz] by (simp add: region_layout_def)
  have fit': "98 + length m \<le> sz" using fit by (simp add: sizes)
  from write_identity_header_effect [OF s i, of Writing sq ?n ident] obtain t where
    t: "write_writing_header io i sq ?n ident s = (Ok (), t)" "slot_set cap sz i (?w @ drop 48 ?raw) s t"
    by (auto simp: write_writing_header_def PERSISTENT_SLOT_HEADER_LEN_def)
  note tr = slot_set_raw [OF s i t(2)]
  have "put_at 98 m (?w @ drop 48 ?raw) = ?w @ bytes_at 48 50 ?raw @ m @ rest"
    using len fit' by (simp add: put_at_def rest_def bytes_at_def min_def add.commute)
  with write_parts_effect [OF tr(4) i, of l 98 0 parts] l fit' tr(1) obtain u where
    u: "write_parts io l 0 parts t = (Ok (), u)" "slot_set cap sz i (?w @ bytes_at 48 50 ?raw @ m @ rest) t u"
    by (auto simp: off_def m_def sizes)
  note ur = slot_set_raw [OF tr(4) i u(2)]
  have hs: "header_state io i u = Ok Writing"
    using read_header_effect [OF ur(4) i] ur(1) by (simp add: header_state_def)
  have "bytes_at 98 (length m) (?w @ bytes_at 48 50 ?raw @ m @ rest) = m"
    using len fit' by (simp add: bytes_at_def)
  then have sl: "rio_slice io off (length m) u = Ok m"
    using area_slice [OF ur(4) i, of 98 "length m"] fit' ur(1) by (simp add: off_def sizes)
  have "put_at 48 h (?w @ bytes_at 48 50 ?raw @ m @ rest) = ?w @ h @ m @ rest"
    using len fit' h by (simp add: put_at_def FRAME_HEADER_LEN_def)
  with area_write [OF ur(4) i, of 48 h] fit' h ur(1) obtain v where
    v: "rio_write_at io (off - FRAME_HEADER_LEN) h u = (Ok (), v)" "slot_set cap sz i (?w @ h @ m @ rest) u v"
    by (auto simp: off_def sizes add.commute)
  note vr = slot_set_raw [OF ur(4) i v(2)]
  from write_header_effect [OF vr(4) i, of Committed sq ?n] vr(1) obtain x where
    x: "write_header io i Committed sq ?n v = (Ok (), x)"
      "slot_set cap sz i (encode_header Committed sq ?n None False @ h @ m @ rest) v x"
    by (auto simp: PERSISTENT_SLOT_HEADER_LEN_def)
  have "slot_set cap sz i (encode_header Committed sq ?n None False @ h @ m @ rest) s x"
    using slot_set_trans [OF s i t(2)] slot_set_trans [OF tr(4) i u(2)] slot_set_trans [OF ur(4) i v(2)] x(2) u(2) v(2) by blast
  with t(1) tr(4) u(1) ur(4) hs sl v(1) x(1) show thesis by (rule that)
qed

section \<open>Sending\<close>

lemma window_put:
  assumes w: "window cfg w (us @ free_view # vs) s"
  defines "i \<equiv> (unat (rg_tail w) + length us) mod capacity cfg"
  shows "header_state io i s = Ok Free" "layout (capacity cfg) (region_slot_len cfg) s" "i < capacity cfg"
    "slot_set (capacity cfg) (region_slot_len cfg) i raw s x \<Longrightarrow> window cfg w (us @ raw_view raw # vs) x"
proof -
  let ?vs = "us @ free_view # vs"
  have k: "length us < capacity cfg" "length us < length ?vs" using window_length(1) [OF w] by simp_all
  obtain views where v: "ring (capacity cfg) (region_slot_len cfg) w views s" "i < capacity cfg"
    "views ! i = (if length us < length ?vs then ?vs ! length us else free_view)"
    "\<And>a. rotate (unat (rg_tail w)) (views[i := a]) = (?vs @ replicate (capacity cfg - length ?vs) free_view)[length us := a]"
    using window_slot [OF w k(1), folded i_def] by metis
  show "i < capacity cfg" by (rule v(2))
  have free: "views ! i = free_view" using v(3) by simp
  from slot_state_at [OF v(1,2)] free show "header_state io i s = Ok Free" by (auto simp: header_state_def)
  show "layout (capacity cfg) (region_slot_len cfg) s" by (rule ring_layout [OF v(1)])
  assume "slot_set (capacity cfg) (region_slot_len cfg) i raw s x"
  from window_update [OF w k(2) ring_slot_set [OF v(1,2) this] v(4)] show "window cfg w (us @ raw_view raw # vs) x" by simp
qed

text \<open>The head cursor and the flush at the end of \<open>publish\<close>.\<close>

lemma window_slot_flush:
  assumes w: "window cfg w vs s" and i: "i < capacity cfg" and n: "n \<le> region_slot_len cfg"
  shows "rio_flush_range io (region_slot_offset i (rio_slot_size io s)) n s = Ok ()"
proof -
  from w obtain views where v: "ring (capacity cfg) (region_slot_len cfg) w views s" by (auto simp: ring_window_def)
  have "rio_slot_size io s = region_slot_len cfg" using ring_layout [OF v] by (simp add: region_layout_def)
  moreover have "REGION_HEADER_LEN + i * region_slot_len cfg + n \<le> REGION_HEADER_LEN + capacity cfg * region_slot_len cfg"
    using ring_slot_end [OF v i] n by linarith
  ultimately show ?thesis using ring_flush [OF v] by (simp add: region_slot_offset_def)
qed

lemma zero_copy_append:
  assumes s: "pstore (env_crc env) cfg xs w sq ms (pc_store c)" and c: "producer_at cfg w (sq + word_of_nat (length ms)) c"
    and cfg: "\<not> multi_producer cfg" "slot_size cfg + FRAME_HEADER_LEN < 2 ^ 32" "backpressure cfg \<noteq> DropOldest"
    and env: "quiet env" and m: "length (concat parts) \<le> slot_size cfg" and count: "unat (rg_head w) + capacity cfg < 2 ^ 64"
    and live: "\<not> pc_closed c" and room: "length xs + used_slots cfg ms < capacity cfg"
  shows "\<exists>d w'. zero_copy_send io env fuel parts c = (Ok (pc_next_seq c), d) \<and>
    pstore (env_crc env) cfg xs w' sq (ms @ [concat parts]) (pc_store d) \<and>
    producer_at cfg w' (sq + word_of_nat (length (ms @ [concat parts]))) d \<and> pc_closed d = pc_closed c \<and>
    rg_tail w' = rg_tail w \<and> rg_floor w' = rg_floor w \<and> unat (rg_head w') \<le> unat (rg_head w) + capacity cfg"
proof -
  let ?m = "concat parts" and ?sz = "region_slot_len cfg" and ?sq = "pc_next_seq c" and ?n = "FRAME_HEADER_LEN + length (concat parts)"
  let ?h = "plain_header (env_crc env) ?sq ?m"
  have pc: "pc_config c = cfg" "pc_recovery_bias c = 0" "pc_head c = unat (rg_head w) mod capacity cfg"
    "?sq = sq + word_of_nat (length ms)" using c by (simp_all add: producer_at_def)
  note u = pstore_used [OF s]
  from s obtain ws where ws: "pqueued cfg xs w (map (\<lambda>(q, f). committed_view q f) ws) (pc_store c)" "stored (env_crc env) cfg sq ms ws"
    by (auto simp: pinned_store_def)
  let ?vs = "map (\<lambda>(q, f). committed_view q f) ws"
  have len: "length ?vs = used_slots cfg ms" using stored_length [OF ws(2) u(2)] by simp
  let ?gap = "replicate (capacity cfg - Suc (length ?vs + length xs)) free_view @ xs"
  have "capacity cfg - (length ?vs + length xs) = Suc (capacity cfg - Suc (length ?vs + length xs))" using room len by simp
  then have win: "window cfg w (?vs @ free_view # ?gap) (pc_store c)" using pqueued_bounds(5) [OF ws(1)] by simp
  define i where "i = (unat (rg_tail w) + length ?vs) mod capacity cfg"
  have i: "i < capacity cfg" "pc_head c = i" using u(2,3) pc(3) len by (simp_all add: i_def)
  note free = window_put [OF win, folded i_def]
  define r where "r = refreshed w (used_slots cfg ms) c"
  have ref: "refresh_cursors io c = (Ok (), r)" using pins_room(1) [of "env_crc env" c xs w sq ms] s pc by (simp add: r_def)
  have r: "pc_store r = pc_store c" "pc_config r = cfg" "pc_head r = i" "pc_next_seq r = ?sq" "pc_closed r = pc_closed c"
    "pc_head_cursor r = rg_head w" "pc_recovery_bias r = 0" using pc i by (simp_all add: r_def refreshed_def)
  have one: "Suc 0 \<le> capacity cfg - (length xs + used_slots cfg ms)" using room by simp
  have "refresh_cursors io r = (Ok (), r)" "guard_room r = capacity cfg - (length xs + used_slots cfg ms)"
    using pins_room(2,3) [of "env_crc env" c xs w sq ms] s pc by (simp_all add: r_def)
  then have adm: "pprepare_send_slots io env fuel 1 r = (Ok True, r)"
    using admission_by_room [of r env 1 fuel] env one u(2) r(2) by simp
  define ident where "ident = stamp env 1 (r\<lparr>pc_next_seq := ?sq + 1\<rparr>)"
  define l where "l = \<lparr>wl_index = i, wl_seq = ?sq,
    wl_payload_offset = REGION_HEADER_LEN + i * ?sz + (PERSISTENT_SLOT_HEADER_LEN + FRAME_HEADER_LEN),
    wl_payload_len = length ?m, wl_sealed = False\<rparr>"
  have fit: "PERSISTENT_SLOT_HEADER_LEN + FRAME_HEADER_LEN + length ?m \<le> ?sz" using m by simp
  have l: "wl_payload_offset l = REGION_HEADER_LEN + i * ?sz + (PERSISTENT_SLOT_HEADER_LEN + FRAME_HEADER_LEN)"
    "\<not> wl_sealed l" "wl_payload_len l = length ?m" by (simp_all add: l_def)
  from buffer_life [OF free(2) i(1) fit l length_plain_header, of ?sq ident] obtain t t2 v x rest where
    b: "write_writing_header io i ?sq ?n ident (pc_store c) = (Ok (), t)" "layout (capacity cfg) ?sz t"
    "write_parts io l 0 parts t = (Ok (), t2)" "layout (capacity cfg) ?sz t2" "header_state io i t2 = Ok Writing"
    "rio_slice io (wl_payload_offset l) (length ?m) t2 = Ok ?m"
    "rio_write_at io (wl_payload_offset l - FRAME_HEADER_LEN) ?h t2 = (Ok (), v)"
    "write_header io i Committed ?sq ?n v = (Ok (), x)"
    "slot_set (capacity cfg) ?sz i (encode_header Committed ?sq ?n None False @ ?h @ ?m @ rest) (pc_store c) x"
    unfolding l(1) by blast
  define c1 where "c1 = r\<lparr>pc_next_seq := ?sq + 1, pc_store := t, pc_head := (i + 1) mod capacity cfg, pc_len := pc_len r + 1\<rparr>"
  have all: "alloc io env fuel (length ?m) c = (Ok l, c1)"
    using live cfg m ref adm free(1) r b(1,2) pc(1)
    by (simp add: alloc_def take_sequence_def ident_def c1_def l_def payload_area_def region_layout_def
        region_slot_offset_def ZERO_COPY_PAYLOAD_OFFSET_def pcapacity_def FRAME_HEADER_LEN_def usize_max_def)
  have win2: "window cfg w (?vs @ committed_view ?sq (?h @ ?m) # ?gap) x"
    using free(4) [OF b(9)] raw_view_encode(1) [of "?h @ ?m" ?sq None False rest] m cfg(2)
    by simp
  let ?hc = "rg_head w + 1"
  have uh: "unat ?hc = unat (rg_head w) + 1" using count u(2)
    by (simp add: unat_word_ariths)
  from window_publish [OF win2, of ?hc] obtain y where
    y: "store_head io ?hc x = (Ok (), y)" "window cfg (w\<lparr>rg_head := ?hc\<rparr>) (?vs @ committed_view ?sq (?h @ ?m) # ?gap) y" by blast
  define d where "d = c1\<lparr>pc_store := y, pc_head_cursor := ?hc\<rparr>"
  have flush: "rio_flush_range io (region_slot_offset i (rio_slot_size io y)) (PERSISTENT_SLOT_HEADER_LEN + FRAME_HEADER_LEN + length ?m) y = Ok ()"
    using window_slot_flush [OF y(2) i(1) fit] .
  have enc: "encode_frame_header Bytes 0 ?sq 0 0 (env_crc env ?m) (length ?m) [] = Ok ?h"
    using plain_header_encoded [of ?m ?sq "env_crc env"] m cfg(2) by simp
  have ls: "wl_index l = i" "wl_seq l = ?sq" by (simp_all add: l_def)
  have "publish io env (l, c1\<lparr>pc_store := t2\<rparr>) = (Ok ?sq, (l\<lparr>wl_sealed := True\<rparr>, d))"
    using live r b(5-8) y(1) flush enc l(2,3) ls
    by (simp add: publish_def on_handle_def seal_def d_def c1_def)
  with all b(3) have send: "zero_copy_send io env fuel parts c = (Ok ?sq, d)"
    by (simp add: zero_copy_send_def c1_def)
  note plan = single_slot_frames [OF m cfg(2)]
  have "length ?m \<le> isize_max" using m cfg(2) by (simp add: isize_max_def)
  then have "stored (env_crc env) cfg sq (ms @ [?m]) (ws @ [(?sq, ?h @ ?m)])"
    using ws(2) plan pc(4) by (simp add: stored_append)
  moreover have "pqueued cfg xs (w\<lparr>rg_head := ?hc\<rparr>) (map (\<lambda>(q, f). committed_view q f) (ws @ [(?sq, ?h @ ?m)])) y"
    using y(2) ws(1) uh room len by (simp add: pinned_queue_def)
  ultimately have "pstore (env_crc env) cfg xs (w\<lparr>rg_head := ?hc\<rparr>) sq (ms @ [?m]) y"
    unfolding pinned_store_def by blast
  then have "pstore (env_crc env) cfg xs (w\<lparr>rg_head := ?hc\<rparr>) sq (ms @ [?m]) (pc_store d)" by (simp add: d_def)
  moreover have "producer_at cfg (w\<lparr>rg_head := ?hc\<rparr>) (sq + word_of_nat (length (ms @ [?m]))) d"
    using r pc u(3) len uh by (simp add: producer_at_def d_def c1_def i_def mod_Suc_eq)
  ultimately show ?thesis using send r(5) uh u(2)
    by (intro exI [of _ d] exI [of _ "w\<lparr>rg_head := ?hc\<rparr>"]) (simp add: d_def c1_def)
qed

text \<open>Every outcome of a zero-copy send is the outcome of the specification, with the sequence number of
  the message where the copying send returns nothing.\<close>

lemma zero_copy_send_refines:
  assumes s: "sholds (env_crc env) cfg w sq ms (pc_store c)" and c: "producer_at cfg w (sq + word_of_nat (length ms)) c"
    and cfg: "\<not> multi_producer cfg" "slot_size cfg + FRAME_HEADER_LEN < 2 ^ 32" "backpressure cfg \<in> {Block, Raise}"
    and env: "quiet env" and m: "length (concat parts) \<le> slot_size cfg" and count: "unat (rg_head w) + capacity cfg < 2 ^ 64"
  defines "q \<equiv> \<lparr>mq_config = cfg, mq_msgs = ms, mq_shut = pc_closed c\<rparr>"
  shows "\<exists>d w'. zero_copy_send io env fuel parts c = (map_outcome (\<lambda>_. pc_next_seq c) (fst (queue_send (concat parts) q)), d) \<and>
    sholds (env_crc env) cfg w' sq (mq_msgs (snd (queue_send (concat parts) q))) (pc_store d) \<and>
    producer_at cfg w' (sq + word_of_nat (length (mq_msgs (snd (queue_send (concat parts) q))))) d \<and> pc_closed d = pc_closed c"
proof -
  have pc: "pc_config c = cfg" "pc_recovery_bias c = 0" using c by (simp_all add: producer_at_def)
  note u = sholds_used [OF s] and plan = single_slot_frames(1) [OF m cfg(2)]
  consider "pc_closed c" | "\<not> pc_closed c" "used_slots cfg ms < capacity cfg" | "\<not> pc_closed c" "used_slots cfg ms = capacity cfg"
    using u(1) by linarith
  then show ?thesis
  proof cases
    case 1
    with s c show ?thesis by (intro exI [of _ c] exI [of _ w]) (simp add: zero_copy_send_def alloc_def queue_send_def q_def)
  next
    case 2
    have "backpressure cfg \<noteq> DropOldest" using cfg(3) by auto
    moreover have "pstore (env_crc env) cfg [] w sq ms (pc_store c)" using s by simp
    ultimately show ?thesis using zero_copy_append [of env cfg "[]" w sq ms c parts fuel] c cfg(1,2) env m count 2 plan
      by (auto simp: queue_send_def q_def Let_def)
  next
    case 3
    from s obtain ws where ws: "queued cfg w (map (\<lambda>(q, f). committed_view q f) ws) (pc_store c)" "stored (env_crc env) cfg sq ms ws"
      by (auto simp: store_holds_def)
    have len: "length ws = used_slots cfg ms" using stored_length [OF ws(2) u(2)] .
    let ?r = "refreshed w (used_slots cfg ms) c"
    have ref: "refresh_cursors io c = (Ok (), ?r)" using refresh_queued(1) [of c w] ws(1) pc len by simp
    have "pprepare_send_slots io env fuel 1 ?r = (ChanErr BufferFull, ?r)"
      using admission [of c w "map (\<lambda>(q, f). committed_view q f) ws" env 1 fuel] ws(1) pc env len u(2) 3 cfg(3) by auto
    then have "zero_copy_send io env fuel parts c = (ChanErr BufferFull, ?r)"
      using 3 cfg m ref pc by (auto simp: zero_copy_send_def alloc_def FRAME_HEADER_LEN_def usize_max_def)
    moreover have "queue_send (concat parts) q = (ChanErr BufferFull, q)"
      using 3 plan cfg(3) by (auto simp: queue_send_def q_def Let_def)
    ultimately show ?thesis using s c pc
      by (intro exI [of _ ?r] exI [of _ w]) (simp add: q_def refreshed_def producer_at_def)
  qed
qed

section \<open>Receiving\<close>

text \<open>A view of the message at the tail, read and released.\<close>

lemma zero_copy_take:
  assumes q: "queued (pc_config c) w (committed_view sq (plain_header (env_crc env) sq m @ m) # vs) (pc_store c)"
    and c: "pc_recovery_bias c = 0" "expects sq c" "backpressure (pc_config c) \<noteq> DropOldest" "length m < 2 ^ 32"
  shows "\<exists>d. zero_copy_recv io env c = (Ok m, d) \<and>
    (\<exists>w'. rg_head w' = rg_head w \<and> queued (pc_config c) w' vs (pc_store d)) \<and>
    pc_config d = pc_config c \<and> pc_recovery_bias d = 0 \<and> expects (sq + 1) d \<and> pc_closed d = pc_closed c"
proof -
  let ?cfg = "pc_config c" and ?x = "pinned_view sq (plain_header (env_crc env) sq m @ m)"
    and ?v = "view_at (pc_config c) (rg_tail w) sq (length m)"
  have "pqueued ?cfg [] w (committed_view sq (plain_header (env_crc env) sq m @ m) # vs) (pc_store c)" using q by simp
  from recv_view_pins [OF this c] obtain d w' where
    d: "recv_view io env c = (Ok ?v, d)" "pqueued ?cfg [?x] w' vs (pc_store d)" "rg_head w' = rg_head w" "rg_tail w' = rg_tail w + 1"
      and cur: "unat (rg_tail w) = unat (rg_floor w') + 0" and e: "pc_config d = ?cfg" "pc_recovery_bias d = 0" "pc_expected_recv_seq d = sq + 1" "pc_closed d = pc_closed c" by auto
  from view_release_pins [OF d(2) _ _ cur, of sq "plain_header (env_crc env) sq m @ m" sq "length m"] obtain t w'' where
    t: "view_release io (?v, pc_store d) = (Ok (), (?v\<lparr>rv_released := True\<rparr>, t))"
      "queued ?cfg w'' vs t" "rg_head w'' = rg_head w'" by (auto simp: from_pin_def)
  have "view_read_all io ?v (pc_store d) = Ok m"
    using view_read_pins [OF d(2) _ _ _ cur, of sq "plain_header (env_crc env) sq m" m] by simp
  with d(1) t(1) have "zero_copy_recv io env c = (Ok m, d\<lparr>pc_store := t\<rparr>)" by (simp add: zero_copy_recv_def)
  with t(2,3) d(3) e show ?thesis
    by (intro exI [of _ "d\<lparr>pc_store := t\<rparr>"]) (auto simp: expects_def)
qed

lemma zero_copy_recv_refines:
  assumes s: "sholds (env_crc env) cfg w sq ms (pc_store c)" and c: "consumer_at cfg sq c"
    and cfg: "\<not> multi_producer cfg" "slot_size cfg + FRAME_HEADER_LEN < 2 ^ 32" "backpressure cfg \<noteq> DropOldest"
    and env: "quiet env" and front: "ms \<noteq> [] \<longrightarrow> length (hd ms) \<le> slot_size cfg"
  defines "q \<equiv> \<lparr>mq_config = cfg, mq_msgs = ms, mq_shut = pc_closed c\<rparr>"
  shows "\<exists>d w'. zero_copy_recv io env c = (fst (queue_recv q), d) \<and>
    sholds (env_crc env) cfg w' (if ms = [] then sq else sq + 1) (mq_msgs (snd (queue_recv q))) (pc_store d) \<and>
    rg_head w' = rg_head w \<and> consumer_at cfg (if ms = [] then sq else sq + 1) d \<and> pc_closed d = pc_closed c"
proof -
  have pc: "pc_config c = cfg" "pc_recovery_bias c = 0" "expects sq c" using c by (simp_all add: consumer_at_def)
  from s obtain ws where ws: "queued cfg w (map (\<lambda>(q, f). committed_view q f) ws) (pc_store c)" "stored (env_crc env) cfg sq ms ws"
    by (auto simp: store_holds_def)
  show ?thesis
  proof (cases ms)
    case Nil
    with ws have "queued (pc_config c) w [] (pc_store c)" using pc by simp
    from ensure_empty [OF this pc(2) env] pc(1) obtain d where
      d: "ensure_tail_readable io env c = (ChanErr (if pc_closed c then Closed else BufferEmpty), d)"
        "at_tail cfg [] d" "same_handle (c\<lparr>pc_head_cursor := rg_head w\<rparr>) d" by auto
    have "sholds (env_crc env) cfg (loaded_words d) sq [] (pc_store d)"
      using d(2) by (simp add: store_holds_def loaded_def)
    moreover have "rg_head (loaded_words d) = rg_head w" "consumer_at cfg sq d"
      using d(2,3) pc by (simp_all add: loaded_words_def consumer_at_def loaded_def same_handle_def expects_def)
    ultimately show ?thesis using d Nil pc(1) cfg(3)
      by (intro exI [of _ d] exI [of _ "loaded_words d"])
        (auto simp: zero_copy_recv_def recv_view_def queue_recv_def q_def same_handle_def)
  next
    case (Cons m ms')
    have m: "length m \<le> slot_size cfg" using front Cons by simp
    from ws(2) Cons single_slot_frames(1) [OF m cfg(2)] single_slot_frames(2) [OF m cfg(2), of "env_crc env" sq] obtain ws' where
      f: "ws = (sq, plain_header (env_crc env) sq m @ m) # ws'" "stored (env_crc env) cfg (sq + 1) ms' ws'" by auto
    have "queued (pc_config c) w (committed_view sq (plain_header (env_crc env) sq m @ m) #
        map (\<lambda>(q, f). committed_view q f) ws') (pc_store c)" using ws(1) f(1) pc(1) by simp
    from zero_copy_take [OF this pc(2,3)] m cfg pc(1) obtain d w' where
      "zero_copy_recv io env c = (Ok m, d)" "rg_head w' = rg_head w"
      "queued cfg w' (map (\<lambda>(q, f). committed_view q f) ws') (pc_store d)"
      "pc_config d = cfg" "pc_recovery_bias d = 0" "expects (sq + 1) d" "pc_closed d = pc_closed c" by auto
    with f(2) Cons show ?thesis
      by (intro exI [of _ d] exI [of _ w']) (auto simp: store_holds_def consumer_at_def queue_recv_def q_def)
  qed
qed

end

section \<open>On the shared state\<close>

definition duplex_zero_send ::
  "'s region_io_ops \<Rightarrow> 's channel_env \<Rightarrow> nat \<Rightarrow> bytes list \<Rightarrow> ('s duplex, dsline_error, u64) action" where
  "duplex_zero_send io env fuel parts = as_producer (zero_copy_send io env fuel parts)"

definition duplex_zero_recv :: "'s region_io_ops \<Rightarrow> 's channel_env \<Rightarrow> ('s duplex, dsline_error, bytes) action" where
  "duplex_zero_recv io env = as_consumer (zero_copy_recv io env)"

lemma queue_frame [simp]:
  "mq_config (snd (queue_send m q)) = mq_config q" "mq_shut (snd (queue_send m q)) = mq_shut q"
  "mq_config (snd (queue_recv q)) = mq_config q" "mq_shut (snd (queue_recv q)) = mq_shut q"
  by (auto simp: queue_send_def queue_recv_def Let_def split: outcome.split backpressure.split list.split)

context region_io
begin

lemma duplex_zero_refines:
  assumes d: "duplex_inv io inv mem (env_crc env) d" and env: "quiet env"
  shows "backpressure (duplex_config d) \<in> {Block, Raise} \<Longrightarrow> length (concat parts) \<le> slot_size (duplex_config d) \<Longrightarrow>
      head_count mem d + capacity (duplex_config d) < 2 ^ 64 \<Longrightarrow>
      map_prod (map_outcome (\<lambda>_. ())) (producer_queue mem) (duplex_zero_send io env fuel parts d) =
        queue_send (concat parts) (producer_queue mem d) \<and>
      duplex_inv io inv mem (env_crc env) (snd (duplex_zero_send io env fuel parts d))"
    "duplex_messages mem d \<noteq> [] \<longrightarrow> length (hd (duplex_messages mem d)) \<le> slot_size (duplex_config d) \<Longrightarrow>
      map_prod id (consumer_queue mem) (duplex_zero_recv io env d) = queue_recv (consumer_queue mem d) \<and>
      duplex_inv io inv mem (env_crc env) (snd (duplex_zero_recv io env d))"
proof -
  let ?cfg = "duplex_config d" and ?p = "(dx_producer d)\<lparr>pc_store := dx_store d\<rparr>" and ?c = "(dx_consumer d)\<lparr>pc_store := dx_store d\<rparr>"
  from d obtain ms where ms: "duplex_holds io inv mem (env_crc env) d ms" by (auto simp: duplex_inv_def)
  then obtain w sq where w: "shared_config ?cfg" "sholds (env_crc env) ?cfg w sq ms (dx_store d)"
    "producer_at ?cfg w (sq + word_of_nat (length ms)) (dx_producer d)" "consumer_at ?cfg sq (dx_consumer d)"
    by (auto simp: duplex_holds_def)
  have cfg: "\<not> multi_producer ?cfg" "slot_size ?cfg + FRAME_HEADER_LEN < 2 ^ 32" "backpressure ?cfg \<noteq> DropOldest"
    using w(1) by (simp_all add: shared_config_def)
  note held = holds_messages(1) [OF ms]
  have s: "sholds (env_crc env) ?cfg w sq ms (pc_store ?p)" "sholds (env_crc env) ?cfg w sq ms (pc_store ?c)" using w(2) by simp_all
  have ends: "producer_at ?cfg w (sq + word_of_nat (length ms)) ?p" "consumer_at ?cfg sq ?c"
    using w(3,4) by (simp_all add: producer_at_def consumer_at_def expects_def)
  have pq: "producer_queue mem d = \<lparr>mq_config = ?cfg, mq_msgs = ms, mq_shut = pc_closed ?p\<rparr>"
    and cq: "consumer_queue mem d = \<lparr>mq_config = ?cfg, mq_msgs = ms, mq_shut = pc_closed ?c\<rparr>"
    using held by (simp_all add: producer_queue_def consumer_queue_def)
  have eta: "r = \<lparr>mq_config = c, mq_msgs = mq_msgs r, mq_shut = b\<rparr>"
    if "mq_config r = c" "mq_shut r = b" for r :: message_queue and c b using that by simp
  {
    assume bp: "backpressure ?cfg \<in> {Block, Raise}" and m: "length (concat parts) \<le> slot_size ?cfg"
      and count: "head_count mem d + capacity ?cfg < 2 ^ 64"
    define q where "q = queue_send (concat parts) (producer_queue mem d)"
    have "unat (rg_head w) + capacity ?cfg < 2 ^ 64" using count sholds_words [OF w(2)] by (simp add: head_count_def)
    from zero_copy_send_refines [OF s(1) ends(1) cfg(1,2) bp env m this, of fuel] obtain e w' where
      e: "zero_copy_send io env fuel parts ?p = (map_outcome (\<lambda>_. pc_next_seq ?p) (fst q), e)"
        "sholds (env_crc env) ?cfg w' sq (mq_msgs (snd q)) (pc_store e)"
        "producer_at ?cfg w' (sq + word_of_nat (length (mq_msgs (snd q)))) e" "pc_closed e = pc_closed ?p"
      unfolding q_def pq by blast
    let ?e = "d\<lparr>dx_producer := e, dx_store := pc_store e\<rparr>"
    have run: "duplex_zero_send io env fuel parts d = (map_outcome (\<lambda>_. pc_next_seq ?p) (fst q), ?e)"
      using e(1) by (simp add: duplex_zero_send_def as_producer_def)
    have h: "duplex_holds io inv mem (env_crc env) ?e (mq_msgs (snd q))" and ce: "duplex_config ?e = ?cfg"
      using w(1,4) e by (auto simp: duplex_holds_def duplex_config_def producer_at_def)
    have "producer_queue mem ?e = snd q"
      using eta [of "snd q" ?cfg "pc_closed e"] holds_messages(1) [OF h] ce e(4) by (simp add: producer_queue_def q_def)
    moreover have "map_outcome (\<lambda>_. ()) (fst q) = fst q" by (cases "fst q") simp_all
    moreover have "map_outcome (\<lambda>_. ()) (map_outcome (\<lambda>_. x) r) = map_outcome (\<lambda>_. ()) r" for x :: u64 and r :: "unit result"
      by (cases r) simp_all
    ultimately show "map_prod (map_outcome (\<lambda>_. ())) (producer_queue mem) (duplex_zero_send io env fuel parts d) =
        queue_send (concat parts) (producer_queue mem d) \<and>
      duplex_inv io inv mem (env_crc env) (snd (duplex_zero_send io env fuel parts d))"
      using run h by (auto simp: duplex_inv_def prod_eq_iff simp flip: q_def)
  }
  {
    assume front: "duplex_messages mem d \<noteq> [] \<longrightarrow> length (hd (duplex_messages mem d)) \<le> slot_size ?cfg"
    define q where "q = queue_recv (consumer_queue mem d)"
    let ?sq = "if ms = [] then sq else sq + 1"
    from zero_copy_recv_refines [OF s(2) ends(2) cfg env front [unfolded held]] obtain e w' where
      e: "zero_copy_recv io env ?c = (fst q, e)" "sholds (env_crc env) ?cfg w' ?sq (mq_msgs (snd q)) (pc_store e)"
        "rg_head w' = rg_head w" "consumer_at ?cfg ?sq e" "pc_closed e = pc_closed ?c"
      unfolding q_def cq by blast
    let ?e = "d\<lparr>dx_consumer := e, dx_store := pc_store e\<rparr>"
    have run: "duplex_zero_recv io env d = (fst q, ?e)" using e(1) by (simp add: duplex_zero_recv_def as_consumer_def)
    have "sq + word_of_nat (length ms) = ?sq + word_of_nat (length (mq_msgs (snd q)))"
      by (cases ms) (simp_all add: q_def cq queue_recv_def add.assoc)
    then have "producer_at ?cfg w' (?sq + word_of_nat (length (mq_msgs (snd q)))) (dx_producer d)"
      using w(3) e(3) by (simp add: producer_at_def)
    then have h: "duplex_holds io inv mem (env_crc env) ?e (mq_msgs (snd q))"
      unfolding duplex_holds_def using w(1) e(2,4) by (intro exI [of _ w'] exI [of _ ?sq]) (simp add: duplex_config_def)
    have "consumer_queue mem ?e = snd q"
      using eta [of "snd q" ?cfg "pc_closed e"] holds_messages(1) [OF h] e(5) by (simp add: consumer_queue_def q_def duplex_config_def)
    then show "map_prod id (consumer_queue mem) (duplex_zero_recv io env d) = queue_recv (consumer_queue mem d) \<and>
      duplex_inv io inv mem (env_crc env) (snd (duplex_zero_recv io env d))"
      using run h by (auto simp: duplex_inv_def prod_eq_iff simp flip: q_def)
  }
qed

end

end
