(* ===== verification/Pinned_Views.thy ===== *)
theory Pinned_Views
  imports Persistent_Zero_Copy
begin

text \<open>
  Two handles and the views the consumer has taken, over one shared store: every call has the outcome
  and the effect of the queue with views, whatever the order in which messages are sent, copied out,
  viewed, read and released.
\<close>

section \<open>The calls on the code's model\<close>

type_synonym 's viewers = "'s duplex \<times> shm_recv_view list"

text \<open>A method of the \<open>i\<close>-th view runs on the view and the store it shares.\<close>

definition on_view :: "nat \<Rightarrow> (shm_recv_view \<times> 's, dsline_error, 'a) action \<Rightarrow> ('s viewers, dsline_error, 'a) action" where
  "on_view i = zoom (\<lambda>(d, vs). (vs ! i, dx_store d)) (\<lambda>(v, s) (d, vs). (d\<lparr>dx_store := s\<rparr>, vs[i := v]))"

definition on_duplex :: "('s duplex, dsline_error, 'a) action \<Rightarrow> ('s viewers, dsline_error, 'a) action" where
  "on_duplex = zoom fst (\<lambda>d p. (d, snd p))"

definition answering :: "('a \<Rightarrow> answer) \<Rightarrow> ('s, dsline_error, 'a) action \<Rightarrow> ('s, dsline_error, answer) action" where
  "answering f m = bind m (\<lambda>x. return (f x))"

definition take_a_view :: "'s region_io_ops \<Rightarrow> 's channel_env \<Rightarrow> ('s viewers, dsline_error, answer) action" where
  "take_a_view io env =
     bind (on_duplex (as_consumer (recv_view io env))) (\<lambda>v.
     seq (modify (\<lambda>(d, vs). (d, vs @ [v]))) (return Done))"

fun channel_call ::
  "'s region_io_ops \<Rightarrow> 's channel_env \<Rightarrow> nat \<Rightarrow> view_call \<Rightarrow> ('s viewers, dsline_error, answer) action" where
  "channel_call io env fuel (Send_copy m) = answering (\<lambda>_. Done) (on_duplex (duplex_send io env fuel m))"
| "channel_call io env fuel (Send_buffer parts) = answering (\<lambda>_. Done) (on_duplex (duplex_zero_send io env fuel parts))"
| "channel_call io env fuel Recv_copy = answering Payload (on_duplex (duplex_recv io env))"
| "channel_call io env fuel Take_view = take_a_view io env"
| "channel_call io env fuel (Read_view i) = (\<lambda>(d, vs).
     (if i < length vs then map_outcome Payload (view_read_all io (vs ! i) (dx_store d)) else Ok Done, (d, vs)))"
| "channel_call io env fuel (Release_view i) = (\<lambda>(d, vs).
     if i < length vs then answering (\<lambda>_. Done) (on_view i (view_release io)) (d, vs) else (Ok Done, (d, vs)))"
| "channel_call io env fuel (Drop_view i) = (\<lambda>(d, vs).
     if i < length vs then answering (\<lambda>_. Done) (on_view i (view_drop io)) (d, vs) else (Ok Done, (d, vs)))"
| "channel_call io env fuel Close_producer = (\<lambda>(d, vs). (Ok Done, (d\<lparr>dx_producer := pclose (dx_producer d)\<rparr>, vs)))"
| "channel_call io env fuel Close_consumer = (\<lambda>(d, vs). (Ok Done, (d\<lparr>dx_consumer := pclose (dx_consumer d)\<rparr>, vs)))"

text \<open>A slice has at most \<open>isize::MAX\<close> bytes.\<close>

definition sendable :: "view_call \<Rightarrow> bool" where
  "sendable c \<longleftrightarrow> (case c of Send_copy m \<Rightarrow> length m \<le> isize_max | _ \<Rightarrow> True)"

section \<open>The relation to the queue with views\<close>

text \<open>The slot \<open>x\<close> of the cursor \<open>n\<close>: free, or pinned by the view with the number in \<open>b\<close>, whose message it
  holds.\<close>

definition slot_held ::
  "(bytes \<Rightarrow> u32) \<Rightarrow> spsc_config \<Rightarrow> (bytes \<times> bool) list \<Rightarrow> shm_recv_view list \<Rightarrow> nat \<Rightarrow> nat option \<Rightarrow> slot_view \<Rightarrow> bool" where
  "slot_held crc cfg taken vs n b x \<longleftrightarrow>
     (case b of
        None \<Rightarrow> x = free_view
      | Some i \<Rightarrow> i < length taken \<and> snd (taken ! i) \<and>
          (\<exists>sq. x = pinned_view sq (plain_header crc sq (fst (taken ! i)) @ fst (taken ! i)) \<and>
             vs ! i = view_at cfg (word_of_nat n) sq (length (fst (taken ! i)))))"

definition views_hold ::
  "(bytes \<Rightarrow> u32) \<Rightarrow> spsc_config \<Rightarrow> (bytes \<times> bool) list \<Rightarrow> shm_recv_view list \<Rightarrow> nat \<Rightarrow> nat option list \<Rightarrow> slot_view list \<Rightarrow> bool" where
  "views_hold crc cfg taken vs n bs xs \<longleftrightarrow>
     length bs = length xs \<and> (\<forall>k < length xs. slot_held crc cfg taken vs (n + k) (bs ! k) (xs ! k)) \<and>
     length vs = length taken \<and>
     (\<forall>i < length taken. if snd (taken ! i) then Some i \<in> set bs else rv_released (vs ! i))"

definition viewers_at ::
  "'s region_io_ops \<Rightarrow> ('s \<Rightarrow> bool) \<Rightarrow> ('s \<Rightarrow> bytes) \<Rightarrow> (bytes \<Rightarrow> u32) \<Rightarrow> view_queue \<Rightarrow> 's viewers \<Rightarrow> bool" where
  "viewers_at io ok mem crc q p \<longleftrightarrow>
     (\<exists>xs w sq. shared_config (vq_config q) \<and>
        pinned_store io ok mem crc (vq_config q) xs w sq (vq_msgs q) (dx_store (fst p)) \<and>
        producer_at (vq_config q) w (sq + word_of_nat (length (vq_msgs q))) (dx_producer (fst p)) \<and>
        receiver_at (vq_config q) sq (dx_consumer (fst p)) \<and>
        vq_producer_shut q = pc_closed (dx_producer (fst p)) \<and> vq_consumer_shut q = pc_closed (dx_consumer (fst p)) \<and>
        views_hold crc (vq_config q) (vq_views q) (snd p) (unat (rg_floor w)) (vq_behind q) xs)"

lemma views_hold_nil [simp]: "views_hold crc cfg [] [] n [] []"
  by (simp add: views_hold_def)

lemma views_hold_length: "views_hold crc cfg taken vs n bs xs \<Longrightarrow> length bs = length xs \<and> length vs = length taken"
  by (simp add: views_hold_def)

text \<open>The floor matters only while there is a view.\<close>

lemma views_hold_empty: "views_hold crc cfg taken vs n bs [] \<longleftrightarrow> views_hold crc cfg taken vs n' bs []"
  by (simp add: views_hold_def)

lemma views_hold_passed:
  assumes "views_hold crc cfg taken vs n bs xs"
  shows "views_hold crc cfg taken vs n (if bs = [] then [] else bs @ replicate k None) (passed xs k)"
  using assms by (auto simp: views_hold_def passed_def slot_held_def nth_append split: option.splits)

lemma views_hold_take:
  assumes "views_hold crc cfg taken vs n bs xs"
  shows "views_hold crc cfg (taken @ [(m, True)]) (vs @ [view_at cfg (word_of_nat (n + length xs)) sq (length m)]) n
    (bs @ [Some (length taken)]) (xs @ [pinned_view sq (plain_header crc sq m @ m)])"
proof -
  have len: "length bs = length xs" "length vs = length taken" using assms by (simp_all add: views_hold_def)
  have "slot_held crc cfg (taken @ [(m, True)]) (vs @ [v]) j b x" if "slot_held crc cfg taken vs j b x" for j b x v
    using that len by (auto simp: slot_held_def nth_append split: option.splits)
  then show ?thesis using assms by (auto simp: views_hold_def nth_append slot_held_def [of _ _ _ _ _ "Some _"] less_Suc_eq)
qed

text \<open>The slot a view holds.\<close>

lemma view_slot:
  assumes h: "views_hold crc cfg taken vs n bs xs" and i: "i < length taken" "snd (taken ! i)"
  obtains k sq where "k < length xs" "bs ! k = Some i" "xs ! k = pinned_view sq (plain_header crc sq (fst (taken ! i)) @ fst (taken ! i))"
    "vs ! i = view_at cfg (word_of_nat (n + k)) sq (length (fst (taken ! i)))"
proof -
  have "Some i \<in> set bs" "length bs = length xs" using h i by (auto simp: views_hold_def)
  then obtain k where k: "k < length xs" "bs ! k = Some i" by (auto simp: in_set_conv_nth)
  have "slot_held crc cfg taken vs (n + k) (bs ! k) (xs ! k)" using h k(1) by (simp add: views_hold_def)
  with k that show thesis by (auto simp: slot_held_def)
qed

text \<open>A release: the slot is free again, and free slots at the front stop counting.\<close>

lemma slots_held_from_pin:
  assumes "length bs = length xs" "\<forall>k < length xs. slot_held crc cfg taken vs (n + k) (bs ! k) (xs ! k)"
  defines "bs' \<equiv> dropWhile (\<lambda>b. b = None) bs" and "n' \<equiv> n + (length xs - length (from_pin xs))"
  shows "length bs' = length (from_pin xs) \<and>
    (\<forall>k < length (from_pin xs). slot_held crc cfg taken vs (n' + k) (bs' ! k) (from_pin xs ! k))"
  using assms(1,2) unfolding bs'_def n'_def
proof (induction xs arbitrary: bs n)
  case Nil
  then show ?case by (simp add: from_pin_def)
next
  case (Cons x xs)
  then obtain b cs where bs: "bs = b # cs" "length cs = length xs" by (cases bs) auto
  have x: "slot_held crc cfg taken vs n b x" using Cons.prems(2) bs by force
  show ?case
  proof (cases "x = free_view")
    case True
    then have "b = None" using x by (auto simp: slot_held_def split: option.splits)
    moreover have "\<forall>k < length xs. slot_held crc cfg taken vs (Suc n + k) (cs ! k) (xs ! k)"
    proof (intro allI impI)
      fix k assume "k < length xs"
      then show "slot_held crc cfg taken vs (Suc n + k) (cs ! k) (xs ! k)"
        using Cons.prems(2) [rule_format, of "Suc k"] bs by simp
    qed
    moreover have e: "n + (length (x # xs) - length (from_pin (x # xs))) = Suc n + (length xs - length (from_pin xs))"
      "from_pin (x # xs) = from_pin xs" using True length_from_pin [of xs] by (simp_all add: from_pin_def)
    ultimately show ?thesis using Cons.IH [OF bs(2), of "Suc n"] bs(1) unfolding e by simp
  next
    case False
    then obtain i where "b = Some i" using x by (cases b) (auto simp: slot_held_def)
    with False bs Cons.prems show ?thesis by (simp add: from_pin_def)
  qed
qed

lemma drop_none_keeps [simp]: "Some j \<in> set (dropWhile (\<lambda>b. b = None) ys) \<longleftrightarrow> Some j \<in> set ys"
  by (induction ys) auto

lemma views_hold_release:
  assumes h: "views_hold crc cfg taken vs n bs xs" and small: "n + length xs < 2 ^ 64"
    and i: "i < length taken" and k: "k < length xs" "bs ! k = Some i" "vs ! i = view_at cfg (word_of_nat (n + k)) sq m"
    and v: "rv_released v"
  defines "xs' \<equiv> xs[k := free_view]"
  shows "views_hold crc cfg (taken[i := (fst (taken ! i), False)]) (vs[i := v]) (n + (length xs' - length (from_pin xs')))
    (give_back i bs) (from_pin xs')"
proof -
  let ?taken = "taken[i := (fst (taken ! i), False)]" and ?vs = "vs[i := v]" and ?bs = "map (\<lambda>b. if b = Some i then None else b) bs"
  have len: "length bs = length xs" "length vs = length taken" using h by (simp_all add: views_hold_def)
  have held: "slot_held crc cfg taken vs (n + j) (bs ! j) (xs ! j)" if "j < length xs" for j
    using h that by (simp add: views_hold_def)
  have only: "j = k" if j: "j < length xs" "bs ! j = Some i" for j
  proof -
    obtain sq' m' where "vs ! i = view_at cfg (word_of_nat (n + j)) sq' m'"
      using held [OF j(1)] j(2) by (auto simp: slot_held_def)
    then have "view_at cfg (word_of_nat (n + j)) sq' m' = view_at cfg (word_of_nat (n + k)) sq m" using k(3) by simp
    from arg_cong [OF this, of rv_cursor_value] have e: "(word_of_nat (n + j) :: u64) = word_of_nat (n + k)" unfolding view_at_fields .
    have "n + j < 2 ^ 64" "n + k < 2 ^ 64" using small j(1) k(1) by simp_all
    from unat_small [OF this(1)] unat_small [OF this(2)] have "n + j = n + k" unfolding e by (rule trans [OF sym])
    then show ?thesis by simp
  qed
  have "slot_held crc cfg ?taken ?vs (n + j) (?bs ! j) (xs' ! j)" if j: "j < length xs'" for j
  proof (cases "j = k")
    case True
    then show ?thesis using k len by (simp add: slot_held_def xs'_def)
  next
    case False
    have j': "j < length xs" using j by (simp add: xs'_def)
    with False have ne: "bs ! j \<noteq> Some i" using only by blast
    have s: "?bs ! j = bs ! j" "xs' ! j = xs ! j" using ne j' False len by (simp_all add: xs'_def)
    show ?thesis
    proof (cases "bs ! j")
      case None
      then show ?thesis unfolding s using held [OF j'] by (simp add: slot_held_def)
    next
      case (Some a)
      then have "i \<noteq> a" using ne by auto
      then show ?thesis unfolding s using held [OF j'] Some by (simp add: slot_held_def)
    qed
  qed
  moreover have "length ?bs = length xs'" using len by (simp add: xs'_def)
  ultimately have s: "length (give_back i bs) = length (from_pin xs')"
    "\<forall>j < length (from_pin xs'). slot_held crc cfg ?taken ?vs (n + (length xs' - length (from_pin xs')) + j) (give_back i bs ! j) (from_pin xs' ! j)"
    using slots_held_from_pin [of ?bs xs' crc cfg ?taken ?vs n] by (simp_all add: give_back_def)
  have "Some j \<in> set (give_back i bs)" if "Some j \<in> set bs" "j \<noteq> i" for j
    using that by (simp add: give_back_def image_iff)
  moreover have "if snd (taken ! j) then Some j \<in> set bs else rv_released (vs ! j)" if "j < length taken" for j
    using h that unfolding views_hold_def by blast
  ultimately have "if snd (?taken ! j) then Some j \<in> set (give_back i bs) else rv_released (?vs ! j)" if "j < length ?taken" for j
    using that v len i by (cases "j = i") simp_all
  with s len show ?thesis by (simp add: views_hold_def)
qed

lemma answering_run: "m s = (r, t) \<Longrightarrow> answering f m s = (map_outcome f r, t)"
  by (cases r) (simp_all add: answering_def bind_def return_def)

context region_io
begin

abbreviation vat :: "(bytes \<Rightarrow> u32) \<Rightarrow> view_queue \<Rightarrow> 's viewers \<Rightarrow> bool" where
  "vat \<equiv> viewers_at io inv mem"

lemma vatI:
  assumes "shared_config (vq_config q)" "pstore crc (vq_config q) xs w sq (vq_msgs q) (dx_store d)"
    and "producer_at (vq_config q) w (sq + word_of_nat (length (vq_msgs q))) (dx_producer d)"
    and "receiver_at (vq_config q) sq (dx_consumer d)" "vq_producer_shut q = pc_closed (dx_producer d)"
    and "vq_consumer_shut q = pc_closed (dx_consumer d)"
    and "views_hold crc (vq_config q) (vq_views q) vs (unat (rg_floor w)) (vq_behind q) xs"
  shows "vat crc q (d, vs)"
  using assms unfolding viewers_at_def by auto

section \<open>Sends\<close>

lemma pins_send_buffer:
  assumes s: "pstore (env_crc env) cfg xs w sq (vq_msgs q) (pc_store c)" and c: "producer_at cfg w (sq + word_of_nat (length (vq_msgs q))) c"
    and cfg: "shared_config cfg" and env: "quiet env" and count: "unat (rg_head w) + capacity cfg < 2 ^ 64"
    and q: "vq_config q = cfg" "length (vq_behind q) = length xs" "vq_producer_shut q = pc_closed c"
  shows "\<exists>d w' r. zero_copy_send io env fuel parts c = (r, d) \<and> fst (vq_send_buffer (concat parts) q) = map_outcome (\<lambda>_. Done) r \<and>
    (\<exists>ms. snd (vq_send_buffer (concat parts) q) = q\<lparr>vq_msgs := ms\<rparr> \<and> pstore (env_crc env) cfg xs w' sq ms (pc_store d) \<and>
       producer_at cfg w' (sq + word_of_nat (length ms)) d) \<and>
    rg_tail w' = rg_tail w \<and> rg_floor w' = rg_floor w \<and> pc_closed d = pc_closed c \<and> unat (rg_head w') \<le> unat (rg_head w) + capacity cfg"
proof -
  let ?ms = "vq_msgs q" and ?m = "concat parts"
  have sc: "\<not> multi_producer cfg" "backpressure cfg \<noteq> DropOldest" "slot_size cfg + FRAME_HEADER_LEN < 2 ^ 32"
    using cfg by (simp_all add: shared_config_def)
  have pc: "pc_config c = cfg" "pc_recovery_bias c = 0" using c by (simp_all add: producer_at_def)
  note u = pstore_used [OF s]
  have same: ?thesis if "zero_copy_send io env fuel parts c = (r, d)" "vq_send_buffer ?m q = (map_outcome (\<lambda>_. Done) r, q)"
    "pstore (env_crc env) cfg xs w sq ?ms (pc_store d)" "producer_at cfg w (sq + word_of_nat (length ?ms)) d" "pc_closed d = pc_closed c" for r d
    using that by (intro exI [of _ d] exI [of _ w] exI [of _ r]) (simp, intro exI [of _ ?ms], simp)
  consider "pc_closed c" | "\<not> pc_closed c" "slot_size cfg < length ?m" | "\<not> pc_closed c" "length ?m \<le> slot_size cfg" "0 < vq_room q"
    | "\<not> pc_closed c" "length ?m \<le> slot_size cfg" "vq_room q = 0" by linarith
  then show ?thesis
  proof cases
    case 1
    with s c q show ?thesis by (intro same [of "ChanErr Closed" c]) (simp_all add: zero_copy_send_def alloc_def vq_send_buffer_def)
  next
    case 2
    with s c q sc pc show ?thesis
      by (intro same [of "ChanErr (MessageTooLarge (length ?m) (slot_size cfg))" c]) (simp_all add: zero_copy_send_def alloc_def vq_send_buffer_def)
  next
    case 3
    then have "length xs + used_slots cfg ?ms < capacity cfg" using q by (simp add: vq_room_def)
    from zero_copy_append [OF s c sc(1,3,2) env 3(2) count 3(1) this, of fuel] obtain d w' where
      d: "zero_copy_send io env fuel parts c = (Ok (pc_next_seq c), d)" "pstore (env_crc env) cfg xs w' sq (?ms @ [?m]) (pc_store d)"
        "producer_at cfg w' (sq + word_of_nat (length (?ms @ [?m]))) d" "pc_closed d = pc_closed c" "rg_tail w' = rg_tail w"
        "rg_floor w' = rg_floor w" "unat (rg_head w') \<le> unat (rg_head w) + capacity cfg" by blast
    have "vq_send_buffer ?m q = (Ok Done, q\<lparr>vq_msgs := ?ms @ [?m]\<rparr>)" using 3 q by (simp add: vq_send_buffer_def)
    with d show ?thesis by (intro exI [of _ d] exI [of _ w'] exI [of _ "Ok (pc_next_seq c)"]) (simp, intro exI [of _ "?ms @ [?m]"], simp)
  next
    case 4
    let ?r = "refreshed w (used_slots cfg ?ms) c"
    have ref: "refresh_cursors io c = (Ok (), ?r)" "refresh_cursors io ?r = (Ok (), ?r)" "guard_room ?r = 0"
      using pins_room [of "env_crc env" c xs w sq ?ms] s pc q 4(3) by (simp_all add: vq_room_def)
    have r: "pc_config ?r = cfg" by (simp add: refreshed_def pc)
    have "pprepare_send_slots io env fuel 1 ?r = (if backpressure cfg = DropNewest then Ok False else ChanErr BufferFull, ?r)"
      using admission_by_room [OF ref(2) env, of 1 fuel] u(2) ref(3) r sc(2) by simp
    then have "zero_copy_send io env fuel parts c = (ChanErr BufferFull, ?r)"
      using 4 sc ref(1) pc by (auto simp: zero_copy_send_def alloc_def FRAME_HEADER_LEN_def usize_max_def)
    moreover have "vq_send_buffer ?m q = (ChanErr BufferFull, q)" using 4 q by (simp add: vq_send_buffer_def)
    ultimately show ?thesis using s c pc by (intro same [of "ChanErr BufferFull" ?r]) (simp_all add: refreshed_def producer_at_def)
  qed
qed

text \<open>A run of the producer's handle that only appends to the queue.\<close>

lemma producer_call:
  assumes v: "vat crc q (d, vs)"
    and run: "\<And>xs w sq c. pstore crc (vq_config q) xs w sq (vq_msgs q) (pc_store c) \<Longrightarrow>
      producer_at (vq_config q) w (sq + word_of_nat (length (vq_msgs q))) c \<Longrightarrow> length (vq_behind q) = length xs \<Longrightarrow>
      vq_producer_shut q = pc_closed c \<Longrightarrow> shared_config (vq_config q) \<Longrightarrow> unat (rg_head w) = head_count mem d \<Longrightarrow>
      \<exists>e w' r. f c = (r, e) \<and> fst (g q) = map_outcome (\<lambda>_. Done) r \<and>
        (\<exists>ms. snd (g q) = q\<lparr>vq_msgs := ms\<rparr> \<and> pstore crc (vq_config q) xs w' sq ms (pc_store e) \<and>
           producer_at (vq_config q) w' (sq + word_of_nat (length ms)) e) \<and>
        rg_tail w' = rg_tail w \<and> rg_floor w' = rg_floor w \<and> pc_closed e = pc_closed c \<and> unat (rg_head w') \<le> unat (rg_head w) + capacity (vq_config q)"
  shows "\<exists>d'. answering (\<lambda>_. Done) (on_duplex (as_producer f)) (d, vs) = (fst (g q), (d', vs)) \<and> vat crc (snd (g q)) (d', vs) \<and>
    vq_config (snd (g q)) = vq_config q \<and> head_count mem d' \<le> head_count mem d + capacity (vq_config q)"
proof -
  from v obtain xs w sq where h: "shared_config (vq_config q)" "pstore crc (vq_config q) xs w sq (vq_msgs q) (dx_store d)"
    "producer_at (vq_config q) w (sq + word_of_nat (length (vq_msgs q))) (dx_producer d)" "receiver_at (vq_config q) sq (dx_consumer d)"
    "vq_producer_shut q = pc_closed (dx_producer d)" "vq_consumer_shut q = pc_closed (dx_consumer d)"
    "views_hold crc (vq_config q) (vq_views q) vs (unat (rg_floor w)) (vq_behind q) xs" by (auto simp: viewers_at_def)
  let ?c = "(dx_producer d)\<lparr>pc_store := dx_store d\<rparr>"
  have s: "pstore crc (vq_config q) xs w sq (vq_msgs q) (pc_store ?c)" using h(2) by simp
  have c: "producer_at (vq_config q) w (sq + word_of_nat (length (vq_msgs q))) ?c" using h(3) by (simp add: producer_at_def)
  have l: "length (vq_behind q) = length xs" using views_hold_length [OF h(7)] by simp
  have hc: "unat (rg_head w) = head_count mem d" using pstore_used(4) [OF h(2)] by (simp add: head_count_def)
  have shut: "vq_producer_shut q = pc_closed ?c" using h(5) by simp
  from run [OF s c l shut h(1) hc] obtain e w' r ms where
    e: "f ?c = (r, e)" "fst (g q) = map_outcome (\<lambda>_. Done) r" "snd (g q) = q\<lparr>vq_msgs := ms\<rparr>"
      "pstore crc (vq_config q) xs w' sq ms (pc_store e)" "producer_at (vq_config q) w' (sq + word_of_nat (length ms)) e"
      "rg_floor w' = rg_floor w" "pc_closed e = pc_closed ?c" "unat (rg_head w') \<le> unat (rg_head w) + capacity (vq_config q)" by blast
  let ?d = "d\<lparr>dx_producer := e, dx_store := pc_store e\<rparr>"
  have "on_duplex (as_producer f) (d, vs) = (r, (?d, vs))" using e(1) by (simp add: on_duplex_def as_producer_def zoom_def)
  then have "answering (\<lambda>_. Done) (on_duplex (as_producer f)) (d, vs) = (fst (g q), (?d, vs))"
    using answering_run [of "on_duplex (as_producer f)" "(d, vs)" r "(?d, vs)" "\<lambda>_. Done"] e(2) by simp
  moreover have "vat crc (snd (g q)) (?d, vs)"
    using h e(3-7) by (intro vatI [where xs = xs and w = w' and sq = sq]) simp_all
  moreover have "head_count mem ?d \<le> head_count mem d + capacity (vq_config q)"
    using hc e(8) pstore_used(4) [OF e(4)] by (simp add: head_count_def)
  ultimately show ?thesis using e(3) by (intro exI [of _ ?d]) simp
qed

section \<open>Receives\<close>

lemma vatE:
  assumes "vat crc q (d, vs)"
  obtains xs w sq where "shared_config (vq_config q)" "pstore crc (vq_config q) xs w sq (vq_msgs q) (dx_store d)"
    "producer_at (vq_config q) w (sq + word_of_nat (length (vq_msgs q))) (dx_producer d)" "receiver_at (vq_config q) sq (dx_consumer d)"
    "vq_producer_shut q = pc_closed (dx_producer d)" "vq_consumer_shut q = pc_closed (dx_consumer d)"
    "views_hold crc (vq_config q) (vq_views q) vs (unat (rg_floor w)) (vq_behind q) xs"
    "unat (rg_head w) = head_count mem d"
  using assms pstore_used(4) by (fastforce simp: viewers_at_def head_count_def)

text \<open>A run of the consumer's handle from one state of the relation to another.\<close>

lemma consumer_run:
  assumes "f ((dx_consumer d)\<lparr>pc_store := dx_store d\<rparr>) = (r, e)"
  shows "on_duplex (as_consumer f) (d, vs) = (r, (d\<lparr>dx_consumer := e, dx_store := pc_store e\<rparr>, vs))"
  using assms by (simp add: on_duplex_def as_consumer_def zoom_def)

lemma consumer_answer:
  assumes "f ((dx_consumer d)\<lparr>pc_store := dx_store d\<rparr>) = (r, e)"
  shows "answering g (on_duplex (as_consumer f)) (d, vs) = (map_outcome g r, (d\<lparr>dx_consumer := e, dx_store := pc_store e\<rparr>, vs))"
  by (rule answering_run [where m = "on_duplex (as_consumer f)" and s = "(d, vs)"]) (rule consumer_run [where f = f and d = d, OF assms])

lemma head_kept:
  "pstore crc cfg xs w sq ms (pc_store e) \<Longrightarrow> unat (rg_head w) = head_count mem d \<Longrightarrow>
     head_count mem (d\<lparr>dx_consumer := e, dx_store := pc_store e\<rparr>) = head_count mem d"
  using pstore_used(4) by (fastforce simp: head_count_def)

lemma same_views:
  assumes "views_hold crc cfg taken vs n bs xs" "xs \<noteq> [] \<Longrightarrow> n' = n"
  shows "views_hold crc cfg taken vs n' bs xs"
  using assms views_hold_empty by (cases "xs = []") metis+

lemma recv_call:
  assumes v: "vat (env_crc env) q (d, vs)" and env: "quiet env"
  shows "\<exists>d'. channel_call io env fuel Recv_copy (d, vs) = (fst (vq_recv q), (d', vs)) \<and> vat (env_crc env) (snd (vq_recv q)) (d', vs) \<and>
    head_count mem d' = head_count mem d"
  using v
proof (rule vatE)
  fix xs w sq
  let ?cfg = "vq_config q" and ?c = "(dx_consumer d)\<lparr>pc_store := dx_store d\<rparr>"
  assume h: "shared_config ?cfg" "pstore (env_crc env) ?cfg xs w sq (vq_msgs q) (dx_store d)"
    "producer_at ?cfg w (sq + word_of_nat (length (vq_msgs q))) (dx_producer d)" "receiver_at ?cfg sq (dx_consumer d)"
    "vq_producer_shut q = pc_closed (dx_producer d)" "vq_consumer_shut q = pc_closed (dx_consumer d)"
    "views_hold (env_crc env) ?cfg (vq_views q) vs (unat (rg_floor w)) (vq_behind q) xs" "unat (rg_head w) = head_count mem d"
  have c: "receiver_at ?cfg sq ?c" using h(4) by (simp add: receiver_at_def)
  show ?thesis
  proof (cases "vq_msgs q")
    case Nil
    then have s: "pstore (env_crc env) ?cfg xs w sq [] (pc_store ?c)" using h(2) by simp
    from pins_recv_none(1) [OF s c h(1) env] obtain e where
      e: "precv io env ?c = (ChanErr (vq_nothing q), e)" "pstore (env_crc env) ?cfg xs w sq [] (pc_store e)" "receiver_at ?cfg sq e"
        "pc_closed e = pc_closed (dx_consumer d)" using h(6) by (auto simp: vq_nothing_def)
    let ?d = "d\<lparr>dx_consumer := e, dx_store := pc_store e\<rparr>"
    have "channel_call io env fuel Recv_copy (d, vs) = (ChanErr (vq_nothing q), (?d, vs))"
      using consumer_answer [of "precv io env" d "ChanErr (vq_nothing q)" e Payload vs] e(1) by (simp add: duplex_recv_def)
    moreover have "vat (env_crc env) q (?d, vs)"
      using h e Nil by (intro vatI [where xs = xs and w = w and sq = sq]) simp_all
    ultimately show ?thesis using head_kept [OF e(2) h(8)] Nil by (intro exI [of _ ?d]) (simp add: vq_recv_def)
  next
    case (Cons m ms)
    then have s: "pstore (env_crc env) ?cfg xs w sq (m # ms) (pc_store ?c)" using h(2) by simp
    from pins_recv_some [OF s c] obtain e w' where
      e: "precv io env ?c = (Ok m, e)" "pstore (env_crc env) ?cfg (passed xs (slots_of ?cfg m)) w' (sq + 1) ms (pc_store e)"
        "rg_head w' = rg_head w" "receiver_at ?cfg (sq + 1) e" "pc_closed e = pc_closed (dx_consumer d)" by auto
    let ?d = "d\<lparr>dx_consumer := e, dx_store := pc_store e\<rparr>" and ?k = "slots_of ?cfg m"
    have floor: "unat (rg_floor w') = unat (rg_floor w)" if "passed xs ?k \<noteq> []"
    proof -
      have "xs \<noteq> []" using that by auto
      with pstore_floor(1) [OF s] pstore_floor(1) [OF e(2) that] e(3) show ?thesis by (simp add: passed_def)
    qed
    have len: "vq_behind q = [] \<longleftrightarrow> xs = []" using views_hold_length [OF h(7)] by auto
    have "channel_call io env fuel Recv_copy (d, vs) = (Ok (Payload m), (?d, vs))"
      using consumer_answer [of "precv io env" d "Ok m" e Payload vs] e(1) by (simp add: duplex_recv_def)
    moreover have "vat (env_crc env) (snd (vq_recv q)) (?d, vs)"
      using h(1,3,5,6) e Cons same_views [OF views_hold_passed [OF h(7), of ?k] floor]
      by (intro vatI [where xs = "passed xs ?k" and w = w' and sq = "sq + 1"]) (simp_all add: vq_recv_def producer_at_def add.assoc)
    ultimately show ?thesis using head_kept [OF e(2), of d] h(8) e(3) Cons by (intro exI [of _ ?d]) (simp add: vq_recv_def)
  qed
qed

lemma take_call:
  assumes v: "vat (env_crc env) q (d, vs)" and env: "quiet env"
  shows "\<exists>d' vs'. channel_call io env fuel Take_view (d, vs) = (fst (vq_take q), (d', vs')) \<and> vat (env_crc env) (snd (vq_take q)) (d', vs') \<and>
    head_count mem d' = head_count mem d"
  using v
proof (rule vatE)
  fix xs w sq
  let ?cfg = "vq_config q" and ?c = "(dx_consumer d)\<lparr>pc_store := dx_store d\<rparr>"
  assume h: "shared_config ?cfg" "pstore (env_crc env) ?cfg xs w sq (vq_msgs q) (dx_store d)"
    "producer_at ?cfg w (sq + word_of_nat (length (vq_msgs q))) (dx_producer d)" "receiver_at ?cfg sq (dx_consumer d)"
    "vq_producer_shut q = pc_closed (dx_producer d)" "vq_consumer_shut q = pc_closed (dx_consumer d)"
    "views_hold (env_crc env) ?cfg (vq_views q) vs (unat (rg_floor w)) (vq_behind q) xs" "unat (rg_head w) = head_count mem d"
  have c: "receiver_at ?cfg sq ?c" using h(4) by (simp add: receiver_at_def)
  have fails: ?thesis if "recv_view io env ?c = (Err x, e)" "vq_take q = (Err x, q)" "pstore (env_crc env) ?cfg xs w sq (vq_msgs q) (pc_store e)"
    "receiver_at ?cfg sq e" "pc_closed e = pc_closed ?c" for x e
  proof -
    let ?d = "d\<lparr>dx_consumer := e, dx_store := pc_store e\<rparr>"
    have "channel_call io env fuel Take_view (d, vs) = (Err x, (?d, vs))"
      using consumer_run [of "recv_view io env" d "Err x" e vs] that(1) by (simp add: take_a_view_def)
    moreover have "vat (env_crc env) q (?d, vs)"
      using h that by (intro vatI [where xs = xs and w = w and sq = sq]) simp_all
    ultimately show ?thesis using head_kept [OF that(3) h(8)] that(2) by (intro exI [of _ ?d] exI [of _ vs]) simp
  qed
  show ?thesis
  proof (cases "vq_msgs q")
    case Nil
    then have s: "pstore (env_crc env) ?cfg xs w sq [] (pc_store ?c)" using h(2) by simp
    from pins_recv_none(2) [OF s c h(1) env] obtain e where
      "recv_view io env ?c = (ChanErr (vq_nothing q), e)" "pstore (env_crc env) ?cfg xs w sq [] (pc_store e)" "receiver_at ?cfg sq e"
      "pc_closed e = pc_closed ?c" using h(6) by (auto simp: vq_nothing_def)
    with Nil show ?thesis by (intro fails [of _ e]) (simp_all add: vq_take_def)
  next
    case (Cons m ms)
    then have s: "pstore (env_crc env) ?cfg xs w sq (m # ms) (pc_store ?c)" using h(2) by simp
    show ?thesis
    proof (cases "length m \<le> slot_size ?cfg")
      case False
      then have "slot_size ?cfg < length m" by simp
      from pins_take(2) [OF s c h(1) this] obtain e where
        "recv_view io env ?c = (ChanErr (InvalidConfig ''zero-copy views require single-slot unchunked messages; use recv()''), e)"
        "pstore (env_crc env) ?cfg xs w sq (m # ms) (pc_store e)" "receiver_at ?cfg sq e" "pc_closed e = pc_closed ?c" by blast
      with False Cons show ?thesis by (intro fails [of _ e]) (simp_all add: vq_take_def)
    next
      case True
      let ?x = "pinned_view sq (plain_header (env_crc env) sq m @ m)" and ?v = "view_at ?cfg (rg_tail w) sq (length m)"
      from pins_take(1) [OF s c h(1) True] obtain e w' where
        e: "recv_view io env ?c = (Ok ?v, e)" "pstore (env_crc env) ?cfg (xs @ [?x]) w' (sq + 1) ms (pc_store e)"
          "rg_head w' = rg_head w" "unat (rg_tail w) = unat (rg_floor w') + length xs" "receiver_at ?cfg (sq + 1) e"
          "pc_closed e = pc_closed (dx_consumer d)" by auto
      let ?d = "d\<lparr>dx_consumer := e, dx_store := pc_store e\<rparr>"
      have "xs \<noteq> [] \<Longrightarrow> unat (rg_floor w') = unat (rg_floor w)" using pstore_floor(2) [OF s] e(4) by simp
      note old = same_views [OF h(7) this]
      have "rg_tail w = word_of_nat (unat (rg_tail w))" by simp
      then have tail: "rg_tail w = word_of_nat (unat (rg_floor w') + length xs)" unfolding e(4) .
      have new: "views_hold (env_crc env) ?cfg (vq_views q @ [(m, True)]) (vs @ [?v]) (unat (rg_floor w'))
          (vq_behind q @ [Some (length (vq_views q))]) (xs @ [?x])"
        unfolding tail by (rule views_hold_take [OF old])
      have "channel_call io env fuel Take_view (d, vs) = (Ok Done, (?d, vs @ [?v]))"
        using consumer_run [of "recv_view io env" d "Ok ?v" e vs] e(1) by (simp add: take_a_view_def)
      moreover have "vat (env_crc env) (snd (vq_take q)) (?d, vs @ [?v])"
        using h(1,3,5,6) e Cons True new
        by (intro vatI [where xs = "xs @ [?x]" and w = w' and sq = "sq + 1"]) (simp_all add: vq_take_def producer_at_def add.assoc)
      ultimately show ?thesis using head_kept [OF e(2), of d] h(8) e(3) Cons True
        by (intro exI [of _ ?d] exI [of _ "vs @ [?v]"]) (simp add: vq_take_def)
    qed
  qed
qed

section \<open>Views\<close>

lemma drop_as_release:
  assumes "view_release io (v, s) = (Ok (), p)"
  shows "view_drop io (v, s) = (Ok (), p)"
  using assms by (cases "prelease_pinned io (rv_index v) s")
    (auto simp: view_release_def view_drop_def check_usable_def on_shared_def mark_released_def ignore_error_def zoom_def seq_def
      bind_def reads_def gets_def modify_def split: if_splits outcome.splits prod.splits)

lemma released_view:
  assumes "views_hold crc cfg taken vs n bs xs" "i < length taken" "\<not> snd (taken ! i)"
  shows "rv_released (vs ! i)"
  using assms by (auto simp: views_hold_def)

text \<open>The slot of a view that is held, and what its methods do.\<close>

lemma held_view:
  assumes s: "pstore crc cfg xs w sq ms s" and h: "views_hold crc cfg taken vs (unat (rg_floor w)) bs xs"
    and i: "i < length taken" "snd (taken ! i)" and cap: "capacity cfg < 2 ^ 64"
  shows "view_read_all io (vs ! i) s = Ok (fst (taken ! i))"
    "\<exists>t w' v ys. view_release io (vs ! i, s) = (Ok (), (v, t)) \<and> pstore crc cfg ys w' sq ms t \<and> rg_head w' = rg_head w \<and>
       views_hold crc cfg (taken[i := (fst (taken ! i), False)]) (vs[i := v]) (unat (rg_floor w')) (give_back i bs) ys"
proof -
  from s obtain ws where q: "pqueued cfg xs w (map (\<lambda>(q, f). committed_view q f) ws) s" "stored crc cfg sq ms ws"
    by (auto simp: pinned_store_def)
  let ?n = "unat (rg_floor w)"
  from view_slot [OF h i] obtain k r where k: "k < length xs" "bs ! k = Some i"
    "xs ! k = pinned_view r (plain_header crc r (fst (taken ! i)) @ fst (taken ! i))"
    "vs ! i = view_at cfg (word_of_nat (?n + k)) r (length (fst (taken ! i)))" .
  have tail: "unat (rg_tail w) = ?n + length xs" using pins_behind [OF q(1) k(1)] .
  moreover have "unat (rg_tail w) < 2 ^ 64" using unsigned_less [of "rg_tail w", where ?'a = nat] by simp
  ultimately have small: "?n + length xs < 2 ^ 64" by simp
  with k(1) have "?n + k < 2 ^ 64" by simp
  note cur = unat_small [OF this]
  show "view_read_all io (vs ! i) s = Ok (fst (taken ! i))"
    unfolding k(4) by (rule view_read_pins [OF q(1) k(1,3) length_plain_header cur])
  let ?v = "(vs ! i)\<lparr>rv_released := True\<rparr>" and ?xs = "xs[k := free_view]"
  from view_release_pins [OF q(1) k(1,3) cur, of r "length (fst (taken ! i))"] cap obtain t w' where
    t: "view_release io (vs ! i, s) = (Ok (), (?v, t))" "pqueued cfg (from_pin ?xs) w' (map (\<lambda>(q, f). committed_view q f) ws) t"
      "rg_head w' = rg_head w" "rg_tail w' = rg_tail w" unfolding k(4) by auto
  have new: "views_hold crc cfg (taken[i := (fst (taken ! i), False)]) (vs[i := ?v]) (?n + (length ?xs - length (from_pin ?xs)))
      (give_back i bs) (from_pin ?xs)"
    by (rule views_hold_release [OF h small i(1) k(1,2,4)]) simp
  have "unat (rg_floor w') = ?n + (length ?xs - length (from_pin ?xs))" if "from_pin ?xs \<noteq> []"
  proof -
    have "unat (rg_tail w') = unat (rg_floor w') + length (from_pin ?xs)" using pins_behind [OF t(2), of 0] that by simp
    with t(4) tail length_from_pin [of ?xs] show ?thesis by simp
  qed
  note new = same_views [OF new this]
  have "pstore crc cfg (from_pin ?xs) w' sq ms t" using t(2) q(2) by (auto simp: pinned_store_def)
  with t(1,3) new show "\<exists>t w' v ys. view_release io (vs ! i, s) = (Ok (), (v, t)) \<and> pstore crc cfg ys w' sq ms t \<and> rg_head w' = rg_head w \<and>
       views_hold crc cfg (taken[i := (fst (taken ! i), False)]) (vs[i := v]) (unat (rg_floor w')) (give_back i bs) ys" by blast
qed

lemma view_run:
  assumes "f (vs ! i, dx_store d) = (r, (v, t))"
  shows "answering g (on_view i f) (d, vs) = (map_outcome g r, (d\<lparr>dx_store := t\<rparr>, vs[i := v]))"
proof (rule answering_run [where m = "on_view i f" and s = "(d, vs)"])
  show "on_view i f (d, vs) = (r, (d\<lparr>dx_store := t\<rparr>, vs[i := v]))" using assms by (simp add: on_view_def zoom_def)
qed

lemma view_calls:
  assumes v: "vat crc q (d, vs)" and cap: "capacity (vq_config q) < 2 ^ 64" and c: "c \<in> {Read_view i, Release_view i, Drop_view i}"
  shows "\<exists>d' vs'. channel_call io env fuel c (d, vs) = (fst (vq_call c q), (d', vs')) \<and> vat crc (snd (vq_call c q)) (d', vs') \<and>
    head_count mem d' = head_count mem d"
  using v
proof (rule vatE)
  fix xs w sq
  let ?cfg = "vq_config q" and ?taken = "vq_views q"
  assume h: "shared_config ?cfg" "pstore crc ?cfg xs w sq (vq_msgs q) (dx_store d)"
    "producer_at ?cfg w (sq + word_of_nat (length (vq_msgs q))) (dx_producer d)" "receiver_at ?cfg sq (dx_consumer d)"
    "vq_producer_shut q = pc_closed (dx_producer d)" "vq_consumer_shut q = pc_closed (dx_consumer d)"
    "views_hold crc ?cfg ?taken vs (unat (rg_floor w)) (vq_behind q) xs" "unat (rg_head w) = head_count mem d"
  have len: "length vs = length ?taken" using views_hold_length [OF h(7)] by simp
  have same: ?thesis if "channel_call io env fuel c (d, vs) = (fst (vq_call c q), (d, vs))" "snd (vq_call c q) = q"
    using that v by (intro exI [of _ d] exI [of _ vs]) simp
  have given: ?thesis if r: "channel_call io env fuel c (d, vs) = (Ok Done, (d\<lparr>dx_store := t\<rparr>, vs[i := v]))"
    "vq_call c q = (Ok Done, vq_give_back i q)" and t: "pstore crc ?cfg ys w' sq (vq_msgs q) t" "rg_head w' = rg_head w"
    "views_hold crc ?cfg (?taken[i := (fst (?taken ! i), False)]) (vs[i := v]) (unat (rg_floor w')) (give_back i (vq_behind q)) ys" for t v ys w'
  proof -
    have "vat crc (vq_give_back i q) (d\<lparr>dx_store := t\<rparr>, vs[i := v])"
      using h t by (intro vatI [where xs = ys and w = w' and sq = sq]) (simp_all add: vq_give_back_def producer_at_def)
    moreover have "head_count mem (d\<lparr>dx_store := t\<rparr>) = head_count mem d"
      using h(8) t(2) pstore_used(4) [OF t(1)] by (simp add: head_count_def)
    ultimately show ?thesis using r by (intro exI [of _ "d\<lparr>dx_store := t\<rparr>"] exI [of _ "vs[i := v]"]) simp
  qed
  consider "\<not> i < length ?taken" | "i < length ?taken" "snd (?taken ! i)" | "i < length ?taken" "\<not> snd (?taken ! i)" by blast
  then show ?thesis
  proof cases
    case 1
    with c len show ?thesis by (intro same) (auto simp: vq_read_def vq_release_def vq_drop_def)
  next
    case 2
    note held = held_view [OF h(2,7) 2 cap]
    from held(2) obtain t w' u ys where t: "view_release io (vs ! i, dx_store d) = (Ok (), (u, t))" "pstore crc ?cfg ys w' sq (vq_msgs q) t"
      "rg_head w' = rg_head w" "views_hold crc ?cfg (?taken[i := (fst (?taken ! i), False)]) (vs[i := u]) (unat (rg_floor w')) (give_back i (vq_behind q)) ys"
      by blast
    note runs = view_run [where f = "view_release io" and d = d and vs = vs and i = i and g = "\<lambda>_ :: unit. Done", OF t(1)]
      view_run [where f = "view_drop io" and d = d and vs = vs and i = i and g = "\<lambda>_ :: unit. Done", OF drop_as_release [OF t(1)]]
    from c consider "c = Read_view i" | "c = Release_view i" | "c = Drop_view i" by auto
    then show ?thesis
    proof cases
      case 1
      with 2 len held(1) show ?thesis by (intro same) (simp_all add: vq_read_def)
    next
      case r: 2
      with 2 len runs(1) show ?thesis by (intro given [OF _ _ t(2-4)]) (simp_all add: vq_release_def)
    next
      case 3
      with 2 len runs(2) show ?thesis by (intro given [OF _ _ t(2-4)]) (simp_all add: vq_drop_def)
    qed
  next
    case 3
    have rel: "rv_released (vs ! i)" using released_view [OF h(7) 3] .
    have "view_release io (vs ! i, dx_store d) = (ChanErr (InvalidConfig ''view is already released''), (vs ! i, dx_store d))"
      "view_drop io (vs ! i, dx_store d) = (Ok (), (vs ! i, dx_store d))"
      using rel by (simp_all add: view_release_def view_drop_def check_usable_def)
    from view_run [where f = "view_release io" and d = d and vs = vs and i = i and g = "\<lambda>_ :: unit. Done", OF this(1)]
      view_run [where f = "view_drop io" and d = d and vs = vs and i = i and g = "\<lambda>_ :: unit. Done", OF this(2)]
    have "answering (\<lambda>_. Done) (on_view i (view_release io)) (d, vs) = (ChanErr (InvalidConfig ''view is already released''), (d, vs))"
      "answering (\<lambda>_. Done) (on_view i (view_drop io)) (d, vs) = (Ok Done, (d, vs))" by simp_all
    with c 3 len rel show ?thesis
      by (intro same) (auto simp: vq_read_def vq_release_def vq_drop_def view_read_all_def check_usable_def)
  qed
qed

section \<open>Every call, and every program\<close>

lemma closing_call:
  assumes "vat crc q (d, vs)"
  shows "vat crc (q\<lparr>vq_producer_shut := True\<rparr>) (d\<lparr>dx_producer := pclose (dx_producer d)\<rparr>, vs)"
    "vat crc (q\<lparr>vq_consumer_shut := True\<rparr>) (d\<lparr>dx_consumer := pclose (dx_consumer d)\<rparr>, vs)"
  using assms by (auto simp: viewers_at_def producer_at_def receiver_at_def pclose_def)

lemma call_refines:
  assumes v: "vat (env_crc env) q (d, vs)" and env: "quiet env" and c: "sendable c"
    and count: "head_count mem d + capacity (vq_config q) < 2 ^ 64"
  shows "\<exists>d' vs'. channel_call io env fuel c (d, vs) = (fst (vq_call c q), (d', vs')) \<and> vat (env_crc env) (snd (vq_call c q)) (d', vs') \<and>
    vq_config (snd (vq_call c q)) = vq_config q \<and> head_count mem d' \<le> head_count mem d + capacity (vq_config q)"
proof -
  have cap: "capacity (vq_config q) < 2 ^ 64" using count by simp
  have keeps: "vq_config (snd (vq_call c q)) = vq_config q"
    by (cases c) (simp_all add: vq_send_def vq_send_buffer_def vq_recv_def vq_take_def vq_read_def vq_release_def vq_drop_def
      vq_give_back_def split: outcome.split list.split)
  have quick: ?thesis if "\<exists>d' vs'. channel_call io env fuel c (d, vs) = (fst (vq_call c q), (d', vs')) \<and> vat (env_crc env) (snd (vq_call c q)) (d', vs') \<and>
      head_count mem d' = head_count mem d"
    using that keeps by fastforce
  show ?thesis
  proof (cases c)
    case (Send_copy m)
    then have m: "length m \<le> isize_max" using c by (simp add: sendable_def)
    have "\<exists>d'. answering (\<lambda>_. Done) (on_duplex (as_producer (psend io env fuel m))) (d, vs) = (fst (vq_send m q), (d', vs)) \<and>
      vat (env_crc env) (snd (vq_send m q)) (d', vs) \<and> vq_config (snd (vq_send m q)) = vq_config q \<and>
      head_count mem d' \<le> head_count mem d + capacity (vq_config q)"
      by (rule producer_call [OF v]) (rule pins_send; use env m count in simp)
    then show ?thesis by (auto simp: Send_copy duplex_send_def)
  next
    case (Send_buffer parts)
    have "\<exists>d'. answering (\<lambda>_. Done) (on_duplex (as_producer (zero_copy_send io env fuel parts))) (d, vs) =
        (fst (vq_send_buffer (concat parts) q), (d', vs)) \<and> vat (env_crc env) (snd (vq_send_buffer (concat parts) q)) (d', vs) \<and>
      vq_config (snd (vq_send_buffer (concat parts) q)) = vq_config q \<and> head_count mem d' \<le> head_count mem d + capacity (vq_config q)"
      by (rule producer_call [OF v]) (rule pins_send_buffer; use env count in simp)
    then show ?thesis by (auto simp: Send_buffer duplex_zero_send_def)
  next
    case Recv_copy
    with recv_call [OF v env, of fuel] quick show ?thesis by auto
  next
    case Take_view
    with take_call [OF v env, of fuel] quick show ?thesis by auto
  next
    case (Read_view i)
    with view_calls [OF v cap, of c i env fuel] quick show ?thesis by simp
  next
    case (Release_view i)
    with view_calls [OF v cap, of c i env fuel] quick show ?thesis by simp
  next
    case (Drop_view i)
    with view_calls [OF v cap, of c i env fuel] quick show ?thesis by simp
  next
    case Close_producer
    with closing_call(1) [OF v] show ?thesis
      by (intro exI [of _ "d\<lparr>dx_producer := pclose (dx_producer d)\<rparr>"] exI [of _ vs]) (simp add: head_count_def)
  next
    case Close_consumer
    with closing_call(2) [OF v] show ?thesis
      by (intro exI [of _ "d\<lparr>dx_consumer := pclose (dx_consumer d)\<rparr>"] exI [of _ vs]) (simp add: head_count_def)
  qed
qed

lemma run_refines:
  assumes "vat (env_crc env) q (d, vs)" "quiet env" "\<forall>c \<in> set cs. sendable c"
    and "head_count mem d + length cs * capacity (vq_config q) < 2 ^ 64"
  shows "\<exists>d' vs'. run_calls (channel_call io env fuel) cs (d, vs) = (fst (run_calls vq_call cs q), (d', vs')) \<and>
    vat (env_crc env) (snd (run_calls vq_call cs q)) (d', vs') \<and> head_count mem d' \<le> head_count mem d + length cs * capacity (vq_config q)"
  using assms
proof (induction cs arbitrary: q d vs)
  case Nil
  then show ?case by simp
next
  case (Cons c cs)
  have "sendable c" "head_count mem d + capacity (vq_config q) < 2 ^ 64" using Cons.prems(3,4) by simp_all
  from call_refines [OF Cons.prems(1,2) this, of fuel] obtain e us where
    e: "channel_call io env fuel c (d, vs) = (fst (vq_call c q), (e, us))" "vat (env_crc env) (snd (vq_call c q)) (e, us)"
      "vq_config (snd (vq_call c q)) = vq_config q" "head_count mem e \<le> head_count mem d + capacity (vq_config q)" by blast
  have "\<forall>c \<in> set cs. sendable c" "head_count mem e + length cs * capacity (vq_config (snd (vq_call c q))) < 2 ^ 64"
    using Cons.prems(3,4) e(3,4) by simp_all
  from Cons.IH [OF e(2) Cons.prems(2) this] obtain f ws where
    "run_calls (channel_call io env fuel) cs (e, us) = (fst (run_calls vq_call cs (snd (vq_call c q))), (f, ws))"
    "vat (env_crc env) (snd (run_calls vq_call cs (snd (vq_call c q)))) (f, ws)"
    "head_count mem f \<le> head_count mem e + length cs * capacity (vq_config q)" unfolding e(3) by blast
  with e(1,4) show ?case by (auto simp: split_beta)
qed

end

text \<open>The queue a pair of handles starts from, before any view is taken.\<close>

definition queue_without_views :: "('s \<Rightarrow> bytes) \<Rightarrow> 's duplex \<Rightarrow> view_queue" where
  "queue_without_views mem d =
     \<lparr>vq_config = duplex_config d, vq_msgs = duplex_messages mem d, vq_behind = [], vq_views = [],
      vq_producer_shut = pc_closed (dx_producer d), vq_consumer_shut = pc_closed (dx_consumer d)\<rparr>"

context region_io
begin

lemma viewers_start:
  assumes "duplex_inv io inv mem crc d" "\<not> pc_resync_expected (dx_consumer d)"
  shows "vat crc (queue_without_views mem d) (d, [])"
proof -
  from assms(1) obtain ms where ms: "duplex_holds io inv mem crc d ms" by (auto simp: duplex_inv_def)
  then obtain w sq where w: "shared_config (duplex_config d)" "sholds crc (duplex_config d) w sq ms (dx_store d)"
    "producer_at (duplex_config d) w (sq + word_of_nat (length ms)) (dx_producer d)" "consumer_at (duplex_config d) sq (dx_consumer d)"
    by (auto simp: duplex_holds_def)
  have "pstore crc (duplex_config d) [] w sq ms (dx_store d)" using w(2) by simp
  with w assms(2) holds_messages(1) [OF ms] show ?thesis
    by (intro vatI [where xs = "[]" and w = w and sq = sq]) (auto simp: queue_without_views_def receiver_at_def consumer_at_def expects_def)
qed

text \<open>Where no slot behind the queue counts the two handles are back in the invariant of the plain queue.\<close>

lemma viewers_end:
  assumes "vat crc q (d, vs)" "vq_behind q = []"
  shows "duplex_holds io inv mem crc d (vq_msgs q)" "vq_config q = duplex_config d"
proof -
  from assms(1) obtain xs w sq where h: "shared_config (vq_config q)" "pstore crc (vq_config q) xs w sq (vq_msgs q) (dx_store d)"
    "producer_at (vq_config q) w (sq + word_of_nat (length (vq_msgs q))) (dx_producer d)" "receiver_at (vq_config q) sq (dx_consumer d)"
    "views_hold crc (vq_config q) (vq_views q) vs (unat (rg_floor w)) (vq_behind q) xs" by (auto elim: vatE)
  show cfg: "vq_config q = duplex_config d" using h(3) by (simp add: duplex_config_def producer_at_def)
  have "xs = []" using views_hold_length [OF h(5)] assms(2) by simp
  then show "duplex_holds io inv mem crc d (vq_msgs q)"
    using h(1-4) unfolding duplex_holds_def cfg by (intro exI [of _ w] exI [of _ sq]) (simp add: receiver_at_def consumer_at_def expects_def)
qed

end

end
