(* ===== verification/Persistent_Opening.thy ===== *)
theory Persistent_Opening
  imports Persistent_Duplex
begin

text \<open>
  How a handle comes to be: the initialisation of a fresh region by its creator, and the recovery
  scan of an opener on a region that holds messages. Both lead to the invariant of
  \<open>Persistent_Duplex\<close>; where recovery cannot know the sequence number, the messages of a restarted
  producer are not accepted by a consumer that has been receiving.
\<close>

section \<open>The producer's next sequence number\<close>

lemma precedes_small:
  assumes "unat a < 2 ^ 63" "unat b < 2 ^ 63"
  shows "sequence_precedes a b \<longleftrightarrow> a < b"
proof -
  have "a < b \<Longrightarrow> unat (b - a) < 2 ^ 63" using assms by (simp add: unat_sub_if' word_less_nat_alt)
  moreover have "b < a \<Longrightarrow> \<not> unat (b - a) < 2 ^ 63" using assms by (simp add: unat_sub_if' word_less_nat_alt)
  ultimately show ?thesis unfolding sequence_precedes_def word_less_nat_alt
    by (cases a b rule: linorder_cases) (auto simp: word_less_nat_alt)
qed

text \<open>Over sequence numbers far from the wrap-around the scan finds the largest, plus one.\<close>

lemma continue_after_max:
  assumes "\<forall>x \<in> set xs. unat x < lim" "lim < 2 ^ 63" "unat start \<le> lim"
  shows "unat (continue_after start xs) = Max (insert (unat start) ((\<lambda>x. unat x + 1) ` set xs))"
  using assms
proof (induction xs arbitrary: start)
  case Nil
  then show ?case by (simp add: continue_after_def)
next
  case (Cons x xs)
  have x: "unat x < lim" "unat x + 1 < 2 ^ 64" using Cons.prems by auto
  then have sx: "unat (x + 1) = unat x + 1" by (simp add: unat_word_ariths)
  let ?n = "if sequence_precedes start (x + 1) then x + 1 else start"
  have n: "unat ?n = max (unat start) (unat x + 1)"
    using precedes_small [of start "x + 1"] Cons.prems sx by (auto simp: word_less_nat_alt max_def)
  have "continue_after start (x # xs) = continue_after ?n xs" by (simp add: continue_after_def)
  moreover have "unat ?n \<le> lim" using n x Cons.prems(3) by simp
  moreover have "insert (max (unat start) (unat x + 1)) ((\<lambda>x. unat x + 1) ` set xs) \<noteq> {}" by simp
  ultimately show ?case using Cons.IH [of ?n] Cons.prems n
    by (cases "xs = []") (simp_all add: Max_insert max.assoc)
qed

section \<open>Scans of a healthy ring\<close>

context region_io
begin

lemma reclaim_skip:
  assumes "ring cap sz w vs s" "i < cap" "state (fst (vs ! i)) \<noteq> st"
  shows "reclaim_dead st io probe second i s = (Ok False, s)"
proof -
  have "read_header_full io i s = Ok (slot_header (slot_raw sz i (mem s)))"
    using read_header_full_effect [OF ring_layout [OF assms(1)] assms(2)] .
  moreover have "sh_state (slot_header (slot_raw sz i (mem s))) \<noteq> st"
    using ring_raw [OF assms(1,2)] assms(3) raw_view_state [of "slot_raw sz i (mem s)"] by simp
  ultimately show ?thesis by (simp add: reclaim_dead_def)
qed

lemma writing_scan:
  assumes "ring cap sz w vs (pc_store c)" "\<forall>i \<in> set is. i < cap" "\<forall>v \<in> set vs. state (fst v) \<noteq> Writing"
  shows "for_each is (reclaim_writing_at io env) c = (Ok (), c)"
proof -
  have "state (fst (vs ! i)) \<noteq> Writing" if "i < cap" for i
    using that assms(3) at_ring_length [OF assms(1)] by simp
  with assms(2) show ?thesis
    by (induction "is") (simp_all add: reclaim_writing_at_def reclaim_dead_writing_def reclaim_skip [OF assms(1)])
qed

lemma pinned_scan:
  assumes "ring cap sz w vs (pc_store c)" "\<forall>i \<in> set is. i < cap" "\<forall>v \<in> set vs. state (fst v) \<noteq> Pinned"
  shows "for_each is (reclaim_pinned_at io env) c = (Ok (), c)"
proof -
  have "state (fst (vs ! i)) \<noteq> Pinned" if "i < cap" for i
    using that assms(3) at_ring_length [OF assms(1)] by simp
  with assms(2) show ?thesis
    by (induction "is") (simp_all add: reclaim_pinned_at_def reclaim_dead_pinned_def reclaim_skip [OF assms(1)])
qed

lemma reclaim_scan:
  assumes "ring cap sz w vs (pc_store c)" "\<forall>i \<in> set is. i < cap"
    "\<forall>v \<in> set vs. state (fst v) \<in> {Free, Committed}"
  shows "for_each is (reclaim_writing_at io env) c = (Ok (), c)" "for_each is (reclaim_pinned_at io env) c = (Ok (), c)"
proof -
  have "\<forall>v \<in> set vs. state (fst v) \<noteq> Writing" "\<forall>v \<in> set vs. state (fst v) \<noteq> Pinned" using assms(3) by force+
  from writing_scan [OF assms(1,2) this(1)] pinned_scan [OF assms(1,2) this(2)]
  show "for_each is (reclaim_writing_at io env) c = (Ok (), c)" "for_each is (reclaim_pinned_at io env) c = (Ok (), c)" .
qed

lemma header_state_at:
  "ring cap sz w vs s \<Longrightarrow> i < cap \<Longrightarrow> header_state io i s = Ok (state (fst (vs ! i)))"
  using slot_state_at [of cap sz w vs s i] by (auto simp: header_state_def)

lemma floor_scan:
  assumes "ring cap sz w vs s" "\<forall>v \<in> set vs. state (fst v) \<in> {Free, Committed}"
  shows "first_pinned (header_state io) cap cs s = Ok PIN_FLOOR_NONE"
proof (induction cs)
  case (Cons c cs)
  have cap: "0 < cap" using assms(1) by (simp add: at_ring_def region_layout_def)
  then have i: "cursor_slot cap c < cap" by (simp add: cursor_slot_def)
  have "vs ! cursor_slot cap c \<in> set vs" using at_ring_length [OF assms(1)] i by simp
  then have "state (fst (vs ! cursor_slot cap c)) \<noteq> Pinned" using assms(2) by force
  with header_state_at [OF assms(1) i] Cons show ?case by simp
qed simp

lemma occupied_scan:
  assumes "ring cap sz w vs s" "\<forall>v \<in> set vs. state (fst v) \<in> {Free, Committed}" "\<forall>i \<in> set is. i < cap"
  shows "\<exists>hs. occupied_from io is s = Ok hs \<and> (\<forall>h \<in> set hs. ps_state h = Committed) \<and>
    map ps_seq hs = map (slot_seq \<circ> fst) (filter (\<lambda>v. state (fst v) = Committed) (map ((!) vs) is))"
  using assms(3)
proof (induction "is")
  case Nil
  then show ?case by simp
next
  case (Cons i "is")
  then obtain hs where hs: "occupied_from io is s = Ok hs" "\<forall>h \<in> set hs. ps_state h = Committed"
    "map ps_seq hs = map (slot_seq \<circ> fst) (filter (\<lambda>v. state (fst v) = Committed) (map ((!) vs) is))" by auto
  have i: "i < cap" using Cons.prems by simp
  have "vs ! i \<in> set vs" using at_ring_length [OF assms(1)] i by simp
  then have st: "state (fst (vs ! i)) \<in> {Free, Committed}" using assms(2) by blast
  from slot_state_at [OF assms(1) i] obtain sq n where
    r: "read_header io i s = Ok (state (fst (vs ! i)), sq, n)" "state (fst (vs ! i)) \<noteq> Free \<longrightarrow> sq = slot_seq (fst (vs ! i))"
    by blast
  with st hs show ?case by auto
qed

text \<open>The producer's position: the first free slot from the tail on, the tail again when the ring is
  full.\<close>

lemma infer_head_window:
  assumes w: "window cfg w vs s" and com: "\<forall>v \<in> set vs. state (fst v) \<noteq> Free"
    and k: "k \<le> length vs" "k + n = capacity cfg"
  shows "infer_head_loop io (capacity cfg) (unat (rg_tail w) mod capacity cfg) n
      ((unat (rg_tail w) + k) mod capacity cfg) s = Ok ((unat (rg_tail w) + length vs) mod capacity cfg)"
  using k
proof (induction n arbitrary: k)
  case 0
  then show ?case using window_length(1) [OF w] by simp
next
  case (Suc n)
  have kc: "k < capacity cfg" using Suc.prems by simp
  obtain views where v: "ring (capacity cfg) (region_slot_len cfg) w views s"
    "(unat (rg_tail w) + k) mod capacity cfg < capacity cfg"
    "views ! ((unat (rg_tail w) + k) mod capacity cfg) = (if k < length vs then vs ! k else free_view)"
    using window_slot [OF w kc] by metis
  note h = header_state_at [OF v(1,2)]
  show ?case
  proof (cases "k < length vs")
    case False
    with h v(3) Suc.prems show ?thesis by simp
  next
    case True
    with com h v(3) obtain x where st: "header_state io ((unat (rg_tail w) + k) mod capacity cfg) s = Ok x" "x \<noteq> Free" by auto
    have nx: "((unat (rg_tail w) + k) mod capacity cfg + 1) mod capacity cfg = (unat (rg_tail w) + Suc k) mod capacity cfg"
      by (simp add: mod_Suc_eq)
    show ?thesis
    proof (cases "Suc k = capacity cfg")
      case full: True
      with True window_length(1) [OF w] have "length vs = capacity cfg" by simp
      with st nx full show ?thesis by (simp add: numeral_2_eq_2)
    next
      case False
      then have "(unat (rg_tail w) + Suc k) mod capacity cfg \<noteq> unat (rg_tail w) mod capacity cfg"
        using mod_add_inj [of "unat (rg_tail w)" "Suc k" "capacity cfg" 0] kc by auto
      with st nx Suc.IH [of "Suc k"] Suc.prems True show ?thesis by simp
    qed
  qed
qed

end

section \<open>Opening a region that holds messages\<close>

lemma length_filter_rotate: "length (filter P (rotate n xs)) = length (filter P xs)"
proof (induction n)
  case (Suc n)
  have "length (filter P (rotate1 ys)) = length (filter P ys)" for ys :: "'a list" by (cases ys) auto
  with Suc show ?case by simp
qed simp

lemma stored_seqs:
  assumes "stored crc cfg sq ms ws" "0 < capacity cfg"
  shows "set (map fst ws) = (\<lambda>i. sq + word_of_nat i) ` {..<length ms}" "ms \<noteq> [] \<Longrightarrow> ws \<noteq> [] \<and> fst (hd ws) = sq"
  using assms
proof (induction crc cfg sq ms ws rule: stored.induct)
  case (1 crc cfg sq ws)
  {
    case 1
    then show ?case by simp
  next
    case 2
    then show ?case by simp
  }
next
  case (2 crc cfg sq m ms ws)
  {
    case 1
    then obtain plan fs ws' where s: "length m \<le> isize_max" "send_plan_of cfg (length m) = Ok plan"
      "encode_message_frames crc cfg plan sq m = Ok fs" "ws = map (Pair sq) fs @ ws'" "stored crc cfg (sq + 1) ms ws'"
      by auto
    have ne: "fs \<noteq> []" using encoded_message(3) [OF s(2) 1(2) s(1,3)] .
    have "set (map fst ws) = insert sq (set (map fst ws'))" using s(4) ne by (cases fs) (auto simp: image_image)
    also have "\<dots> = insert sq ((\<lambda>i. sq + 1 + word_of_nat i) ` {..<length ms})" using 2(1) [OF s(5) 1(2)] by simp
    also have "\<dots> = (\<lambda>i. sq + word_of_nat i) ` {..<length (m # ms)}"
      unfolding length_Cons lessThan_Suc_eq_insert_0 by (simp add: image_image add.assoc)
    finally show ?case .
  next
    case 2
    then obtain plan fs ws' where s: "length m \<le> isize_max" "send_plan_of cfg (length m) = Ok plan"
      "encode_message_frames crc cfg plan sq m = Ok fs" "ws = map (Pair sq) fs @ ws'"
      by auto
    have "fs \<noteq> []" using encoded_message(3) [OF s(2) 2(3) s(1,3)] .
    with s(4) show ?case by (cases fs) auto
  }
qed

context region_io
begin

lemma sholds_scan:
  assumes s: "sholds crc cfg w sq ms s"
  obtains views ws where "ring (capacity cfg) (region_slot_len cfg) w views s"
    "\<forall>v \<in> set views. state (fst v) \<in> {Free, Committed}"
    "length (filter (\<lambda>v. state (fst v) = Committed) views) = used_slots cfg ms"
    "(slot_seq \<circ> fst) ` set (filter (\<lambda>v. state (fst v) = Committed) views) = (\<lambda>i. sq + word_of_nat i) ` {..<length ms}"
    "window cfg w (map (\<lambda>(q, f). committed_view q f) ws) s" "length ws = used_slots cfg ms" "rg_floor w = PIN_FLOOR_NONE"
    "ms \<noteq> [] \<longrightarrow> ws \<noteq> [] \<and> fst (hd ws) = sq"
proof -
  let ?com = "\<lambda>v :: slot_view. state (fst v) = Committed"
  from s obtain ws where ws: "queued cfg w (map (\<lambda>(q, f). committed_view q f) ws) s" "stored crc cfg sq ms ws"
    by (auto simp: store_holds_def)
  note cap = sholds_used(2) [OF s]
  have len: "length ws = used_slots cfg ms" using stored_length [OF ws(2) cap] .
  have win: "window cfg w (map (\<lambda>(q, f). committed_view q f) ws) s" using ws(1) by (simp add: queued_slots_def)
  then obtain views where v: "ring (capacity cfg) (region_slot_len cfg) w views s"
    "rotate (unat (rg_tail w)) views = map (\<lambda>(q, f). committed_view q f) ws @ replicate (capacity cfg - length ws) free_view"
    by (auto simp: ring_window_def)
  have set: "set views = set (map (\<lambda>(q, f). committed_view q f) ws @ replicate (capacity cfg - length ws) free_view)"
    using arg_cong [OF v(2), of set] by (simp only: set_rotate)
  have st: "\<forall>v \<in> set views. state (fst v) \<in> {Free, Committed}"
    unfolding set by (auto simp: committed_view_def split: if_splits)
  have fil: "filter ?com (map (\<lambda>(q, f). committed_view q f) ws @ replicate (capacity cfg - length ws) free_view) =
      map (\<lambda>(q, f). committed_view q f) ws"
    by (simp add: filter_map o_def split_def filter_id_conv)
  have count: "length (filter ?com views) = used_slots cfg ms"
    unfolding length_filter_rotate [of ?com "unat (rg_tail w)" views, symmetric] v(2) fil by (simp add: len)
  have "set (filter ?com views) =
      set (filter ?com (map (\<lambda>(q, f). committed_view q f) ws @ replicate (capacity cfg - length ws) free_view))"
    by (simp only: set_filter set)
  then have "set (filter ?com views) = set (map (\<lambda>(q, f). committed_view q f) ws)" by (simp only: fil)
  then have "(slot_seq \<circ> fst) ` set (filter ?com views) = set (map fst ws)"
    by (auto simp: committed_view_def image_image split_def)
  then have seqs: "(slot_seq \<circ> fst) ` set (filter ?com views) = (\<lambda>i. sq + word_of_nat i) ` {..<length ms}"
    using stored_seqs(1) [OF ws(2) cap] by simp
  have none: "rg_floor w = PIN_FLOOR_NONE" using ws(1) by (simp add: queued_slots_def)
  have "ms \<noteq> [] \<longrightarrow> ws \<noteq> [] \<and> fst (hd ws) = sq" using stored_seqs(2) [OF ws(2) cap] by blast
  then show thesis by (rule that [OF v(1) st count seqs win len none])
qed

text \<open>The recovery as a whole, from the results of its scans.\<close>

lemma recover_run:
  assumes c: "pc_config c = cfg" "pc_config b = cfg" "pc_config d = cfg"
    and scans: "for_each [0..<capacity cfg] (reclaim_writing_at io env) c = (Ok (), c)"
      "for_each [0..<capacity cfg] (reclaim_pinned_at io env) c = (Ok (), b)"
      "occupied_slot_headers io (capacity cfg) (pc_store b) = Ok hs"
    and loads: "load_head io (pc_store b) = Ok h" "load_tail io (pc_store b) = Ok t" "rebuild_floor io t b = (Ok (), d)"
    and depth: "cursor_len (capacity cfg) h t = Ok depth" "length (if unat (h - t) \<le> capacity cfg then
      filter (\<lambda>h. ps_state h \<noteq> Pinned) hs else hs) \<le> depth"
    and head: "infer_head_from_tail io (capacity cfg) (cursor_slot (capacity cfg) t) (pc_store d) = Ok head"
    and exp: "if list_ex (\<lambda>h. ps_state h \<noteq> Writing) hs
      then \<exists>st n. read_header io (cursor_slot (capacity cfg) t) (pc_store d) = Ok (st, expected, n) else expected = 0"
  shows "recover_from_storage io env c = (Ok (), d\<lparr>pc_head_cursor := h, pc_tail_cursor := t,
     pc_tail := cursor_slot (capacity cfg) t, pc_head := head, pc_recovery_bias := 0, pc_len := min depth (capacity cfg),
     pc_next_seq := continue_after (pc_next_seq d) (map ps_seq hs), pc_expected_recv_seq := expected,
     pc_resync_expected := pc_resync_expected d \<or> \<not> list_ex (\<lambda>h. ps_state h \<noteq> Writing) hs\<rparr>)"
proof -
  have cap: "pcapacity c = capacity cfg" using c(1) by (simp add: pcapacity_def)
  have bias: "(if unat (h - t) \<le> capacity cfg then length hs - length (filter (\<lambda>h. ps_state h = Pinned) hs)
      else length hs) - depth = 0"
    using depth(2) sum_length_filter_compl [of "\<lambda>h. ps_state h = Pinned" hs] by (simp split: if_splits)
  show ?thesis
    using c cap scans loads depth(1) head exp bias
    by (cases "list_ex (\<lambda>h. ps_state h \<noteq> Writing) hs") (auto simp: recover_from_storage_def Let_def)
qed

lemma continue_after_range:
  assumes xs: "set xs = (\<lambda>i. sq + word_of_nat i) ` {..<n}" and n: "0 < n" and lim: "unat (sq :: u64) + n < 2 ^ 63"
  shows "continue_after 0 xs = sq + word_of_nat n"
proof -
  have small: "i \<le> n \<Longrightarrow> unat (sq + word_of_nat i) = unat sq + i" for i
    using lim by (simp add: unat_word_ariths unat_of_nat)
  have "\<forall>x \<in> set xs. unat x < unat sq + n" using small by (auto simp: xs)
  from continue_after_max [OF this lim, of 0]
  have "unat (continue_after 0 xs) = Max (insert 0 ((\<lambda>x. unat x + 1) ` set xs))" by simp
  also have "(\<lambda>x. unat x + 1) ` set xs = (\<lambda>i. unat sq + i + 1) ` {..<n}"
    unfolding xs image_image using small by (intro image_cong) auto
  also have "Max (insert 0 ((\<lambda>i. unat sq + i + 1) ` {..<n})) = unat sq + n"
  proof (rule Max_eqI)
    show "unat sq + n \<in> insert 0 ((\<lambda>i. unat sq + i + 1) ` {..<n})"
      using n by (intro insertI2 image_eqI [of _ _ "n - 1"]) auto
  qed auto
  finally show ?thesis using small [of n] by (intro word_unat_eq_iff [THEN iffD2]) simp
qed

text \<open>What an opener finds once the scan of the pins has left the handle \<open>b\<close> and the rebuilt floor the
  handle \<open>d\<close>.\<close>

lemma recovered_holds:
  assumes s: "sholds crc cfg w sq ms (pc_store d)" and c: "pc_config c = cfg" "pc_config b = cfg" "pc_config d = cfg"
    and same: "\<And>views. ring (capacity cfg) (region_slot_len cfg) w views (pc_store d) \<Longrightarrow>
      ring (capacity cfg) (region_slot_len cfg) wb views (pc_store b)" "rg_head wb = rg_head w" "rg_tail wb = rg_tail w"
    and scans: "for_each [0..<capacity cfg] (reclaim_writing_at io env) c = (Ok (), c)"
      "for_each [0..<capacity cfg] (reclaim_pinned_at io env) c = (Ok (), b)" "rebuild_floor io (rg_tail w) b = (Ok (), d)"
    and d: "pc_next_seq d = 0" "\<not> pc_resync_expected d" "\<not> pc_closed d"
  shows "\<exists>e. recover_from_storage io env c = (Ok (), e) \<and> pc_store e = pc_store d \<and> pc_config e = cfg \<and>
    pc_recovery_bias e = 0 \<and> pc_head e = unat (rg_head w) mod capacity cfg \<and> \<not> pc_closed e \<and>
    pc_reclaimed_slots e = pc_reclaimed_slots d \<and>
    (if ms = [] then pc_resync_expected e \<and> pc_next_seq e = 0 \<and> pc_expected_recv_seq e = 0
     else \<not> pc_resync_expected e \<and> pc_expected_recv_seq e = sq \<and>
       (unat sq + length ms < 2 ^ 63 \<longrightarrow> pc_next_seq e = sq + word_of_nat (length ms)))"
proof -
  obtain views ws where v: "ring (capacity cfg) (region_slot_len cfg) w views (pc_store d)"
    "\<forall>v \<in> set views. state (fst v) \<in> {Free, Committed}"
    "length (filter (\<lambda>v. state (fst v) = Committed) views) = used_slots cfg ms"
    "(slot_seq \<circ> fst) ` set (filter (\<lambda>v. state (fst v) = Committed) views) = (\<lambda>i. sq + word_of_nat i) ` {..<length ms}"
    and win: "window cfg w (map (\<lambda>(q, f). committed_view q f) ws) (pc_store d)" "length ws = used_slots cfg ms"
    and hd: "ms \<noteq> [] \<longrightarrow> ws \<noteq> [] \<and> fst (hd ws) = sq"
    by (rule sholds_scan [OF s])
  note u = sholds_used [OF s] and vb = same(1) [OF v(1)]
  let ?cap = "capacity cfg"
  have l: "load_head io (pc_store b) = Ok (rg_head w)" "load_tail io (pc_store b) = Ok (rg_tail w)"
    using load_word [OF vb, of CURSOR_HEAD_OFFSET] load_word [OF vb, of CURSOR_TAIL_OFFSET] same(2,3)
    by (simp_all add: load_head_def load_tail_def)
  have n: "length views = ?cap" using at_ring_length [OF v(1)] .
  have "map ((!) views) [0..<?cap] = views" unfolding n [symmetric] by (rule map_nth)
  moreover have "\<forall>i \<in> set [0..<?cap]. i < ?cap" by simp
  ultimately obtain hs where
    hs: "occupied_slot_headers io ?cap (pc_store b) = Ok hs" "\<forall>h \<in> set hs. ps_state h = Committed"
      "map ps_seq hs = map (slot_seq \<circ> fst) (filter (\<lambda>v. state (fst v) = Committed) views)"
    using occupied_scan [OF vb v(2), of "[0..<?cap]"] unfolding occupied_slot_headers_def by metis
  have lhs: "length hs = used_slots cfg ms" using arg_cong [OF hs(3), of length] v(3) by simp
  have pins: "filter (\<lambda>h. ps_state h \<noteq> Pinned) hs = hs" using hs(2) by (auto simp: filter_id_conv)
  have com: "\<forall>v \<in> set (map (\<lambda>(q, f). committed_view q f) ws). state (fst v) \<noteq> Free"
    by (auto simp: committed_view_def)
  have diff: "unat (rg_head w - rg_tail w) = used_slots cfg ms" using unat_diff_add [OF u(4)] .
  have cur: "cursor_slot ?cap (rg_tail w) = unat (rg_tail w) mod ?cap" by (simp add: cursor_slot_def)
  have head: "infer_head_from_tail io ?cap (cursor_slot ?cap (rg_tail w)) (pc_store d) = Ok (unat (rg_head w) mod ?cap)"
    using infer_head_window [OF win(1) com, of 0 ?cap] win(2) u(4) by (simp add: infer_head_from_tail_def cur)
  have depth: "cursor_len ?cap (rg_head w) (rg_tail w) = Ok (used_slots cfg ms)"
    "length (if unat (rg_head w - rg_tail w) \<le> ?cap then filter (\<lambda>h. ps_state h \<noteq> Pinned) hs else hs) \<le> used_slots cfg ms"
    using diff u(1) lhs pins by (simp_all add: cursor_len_def)
  have "ps_seq ` set hs = set (map ps_seq hs)" by simp
  also have "\<dots> = (\<lambda>i. sq + word_of_nat i) ` {..<length ms}" unfolding hs(3) using v(4) by (simp add: image_image o_def)
  finally have seqs: "set (map ps_seq hs) = (\<lambda>i. sq + word_of_nat i) ` {..<length ms}" by simp
  have empty: "hs = [] \<longleftrightarrow> ms = []" using arg_cong [OF seqs, of "\<lambda>s. s = {}"] by auto
  have readable: "list_ex (\<lambda>h. ps_state h \<noteq> Writing) hs \<longleftrightarrow> ms \<noteq> []"
    using hs(2) empty by (cases hs) auto
  have first: "read_header io (unat (rg_tail w) mod ?cap) (pc_store d) = Ok (Committed, sq, length (snd (hd ws)))" if "ms \<noteq> []"
    using window_tail_header(1) [of cfg w sq "snd (hd ws)" "map (\<lambda>(q, f). committed_view q f) (tl ws)" "pc_store d"] win(1) hd that
    by (cases ws) (auto simp: split_def)
  let ?exp = "if ms = [] then 0 else sq"
  have exp: "if list_ex (\<lambda>h. ps_state h \<noteq> Writing) hs
      then \<exists>st n. read_header io (cursor_slot ?cap (rg_tail w)) (pc_store d) = Ok (st, ?exp, n) else ?exp = 0"
    using readable first cur by auto
  note run = recover_run [OF c scans(1,2) hs(1) l scans(3) depth head exp]
  have seq: "continue_after 0 (map ps_seq hs) = (if ms = [] then 0 else sq + word_of_nat (length ms))"
    if "unat sq + length ms < 2 ^ 63"
    using continue_after_range [OF seqs _ that] empty by (auto simp: continue_after_def)
  show ?thesis unfolding run using c d seq readable empty by (auto simp: continue_after_def)
qed

lemma opened_holds:
  assumes s: "sholds crc cfg w sq ms s"
  shows "\<exists>c. opened io env self epoch cfg s = Ok c \<and> pc_store c = s \<and> pc_config c = cfg \<and>
    pc_recovery_bias c = 0 \<and> pc_head c = unat (rg_head w) mod capacity cfg \<and> \<not> pc_closed c \<and>
    (if ms = [] then pc_resync_expected c \<and> pc_next_seq c = 0 \<and> pc_expected_recv_seq c = 0
     else \<not> pc_resync_expected c \<and> pc_expected_recv_seq c = sq \<and>
       (unat sq + length ms < 2 ^ 63 \<longrightarrow> pc_next_seq c = sq + word_of_nat (length ms)))"
proof -
  let ?cap = "capacity cfg" and ?c = "fresh_handle s cfg self epoch"
  let ?d = "?c\<lparr>pc_floor_cursor := PIN_FLOOR_NONE\<rparr>"
  obtain views ws where v: "ring ?cap (region_slot_len cfg) w views s" "\<forall>v \<in> set views. state (fst v) \<in> {Free, Committed}"
    and win: "window cfg w (map (\<lambda>(q, f). committed_view q f) ws) s" "rg_floor w = PIN_FLOOR_NONE"
    by (rule sholds_scan [OF s])
  have flags: "pc_config ?c = cfg" "pc_store ?c = s" "pcapacity ?c = ?cap" by (simp_all add: fresh_handle_def pcapacity_def)
  have scans: "for_each [0..<?cap] (reclaim_writing_at io env) ?c = (Ok (), ?c)"
    "for_each [0..<?cap] (reclaim_pinned_at io env) ?c = (Ok (), ?c)"
    using reclaim_scan [of ?cap "region_slot_len cfg" w views ?c "[0..<?cap]" env] v flags(2) by auto
  have floor: "rebuild_floor io (rg_tail w) ?c = (Ok (), ?d)"
    using floor_scan [OF v] window_loads(3) [OF win(1)] win(2) flags by (simp add: rebuild_floor_def scan_pin_floor_def)
  have d: "sholds crc cfg w sq ms (pc_store ?d)" "pc_config ?d = cfg" "pc_next_seq ?d = 0" "\<not> pc_resync_expected ?d" "\<not> pc_closed ?d"
    using s by (simp_all add: fresh_handle_def)
  have "\<And>views. ring ?cap (region_slot_len cfg) w views (pc_store ?d) \<Longrightarrow> ring ?cap (region_slot_len cfg) w views (pc_store ?c)" by simp
  from recovered_holds [OF d(1) flags(1) flags(1) d(2) this refl refl scans floor d(3-5)] obtain e where
    e: "recover_from_storage io env ?c = (Ok (), e)" "pc_store e = pc_store ?d" "pc_config e = cfg" "pc_recovery_bias e = 0"
      "pc_head e = unat (rg_head w) mod ?cap" "\<not> pc_closed e"
      "if ms = [] then pc_resync_expected e \<and> pc_next_seq e = 0 \<and> pc_expected_recv_seq e = 0
       else \<not> pc_resync_expected e \<and> pc_expected_recv_seq e = sq \<and>
         (unat sq + length ms < 2 ^ 63 \<longrightarrow> pc_next_seq e = sq + word_of_nat (length ms))" by blast
  have "pc_store e = s" using e(2) flags(2) by simp
  moreover have "opened io env self epoch cfg s = Ok e" using e(1) by (simp add: opened_def)
  ultimately show ?thesis using e(3-7) by blast
qed

end

section \<open>Opening and cleaning up while slots are reserved\<close>

context region_io
begin

lemma infer_head_total:
  assumes "ring cap sz w vs s" "head < cap"
  shows "\<exists>h. infer_head_loop io cap tail n head s = Ok h"
  using assms(2)
proof (induction n arbitrary: head)
  case (Suc n)
  have "(head + 1) mod cap < cap" using Suc.prems by simp
  with Suc.IH header_state_at [OF assms(1) Suc.prems] show ?case by auto
qed simp

lemma queued_views:
  assumes q: "queued cfg w vs s" and st: "\<forall>v \<in> set vs. state (fst v) \<in> {Free, Committed}"
  obtains views where "ring (capacity cfg) (region_slot_len cfg) w views s"
    "\<forall>v \<in> set views. state (fst v) \<in> {Free, Committed}"
    "length (filter (\<lambda>v. state (fst v) = Committed) views) \<le> length vs"
proof -
  from q obtain views where v: "ring (capacity cfg) (region_slot_len cfg) w views s"
    "rotate (unat (rg_tail w)) views = vs @ replicate (capacity cfg - length vs) free_view"
    by (auto simp: queued_slots_def ring_window_def)
  have set: "set views = set (vs @ replicate (capacity cfg - length vs) free_view)"
    using arg_cong [OF v(2), of set] by (simp only: set_rotate)
  have "\<forall>v \<in> set views. state (fst v) \<in> {Free, Committed}" unfolding set using st by auto
  moreover have "length (filter (\<lambda>v. state (fst v) = Committed) views) =
      length (filter (\<lambda>v. state (fst v) = Committed) (rotate (unat (rg_tail w)) views))"
    using length_filter_rotate [of "\<lambda>v. state (fst v) = Committed" _ views] by simp
  then have "length (filter (\<lambda>v. state (fst v) = Committed) views) \<le> length vs"
    unfolding v(2) by simp
  ultimately show thesis using that v(1) by blast
qed

lemma opened_reserved:
  assumes q: "queued cfg w vs s" and st: "\<forall>v \<in> set vs. state (fst v) \<in> {Free, Committed}"
  shows "\<exists>c. opened io env self epoch cfg s = Ok c \<and> pc_store c = s \<and> pc_config c = cfg \<and>
    pc_recovery_bias c = 0 \<and> \<not> pc_closed c"
proof -
  let ?cap = "capacity cfg" and ?c = "fresh_handle s cfg self epoch"
  obtain views where v: "ring ?cap (region_slot_len cfg) w views s" "\<forall>v \<in> set views. state (fst v) \<in> {Free, Committed}"
    "length (filter (\<lambda>v. state (fst v) = Committed) views) \<le> length vs" by (rule queued_views [OF q st])
  have win: "window cfg w vs s" and fl: "rg_floor w = PIN_FLOOR_NONE" and h: "unat (rg_head w) = unat (rg_tail w) + length vs"
    using q by (simp_all add: queued_slots_def)
  note l = window_loads [OF win] and n = window_length [OF win]
  have len: "length views = ?cap" using at_ring_length [OF v(1)] .
  have "map ((!) views) [0..<?cap] = views" unfolding len [symmetric] by (rule map_nth)
  moreover have "\<forall>i \<in> set [0..<?cap]. i < ?cap" by simp
  ultimately obtain hs where
    hs: "occupied_slot_headers io ?cap s = Ok hs" "\<forall>h \<in> set hs. ps_state h = Committed"
      "map ps_seq hs = map (slot_seq \<circ> fst) (filter (\<lambda>v. state (fst v) = Committed) views)"
    using occupied_scan [OF v(1,2), of "[0..<?cap]"] unfolding occupied_slot_headers_def by metis
  have lhs: "length hs \<le> length vs" using arg_cong [OF hs(3), of length] v(3) by simp
  have d: "unat (rg_head w - rg_tail w) = length vs" using unat_diff_add [OF h] .
  have flags: "pc_config ?c = cfg" "pc_store ?c = s" "pcapacity ?c = ?cap" "\<not> pc_closed ?c"
    by (simp_all add: fresh_handle_def pcapacity_def)
  let ?d = "?c\<lparr>pc_floor_cursor := PIN_FLOOR_NONE\<rparr>"
  have df: "pc_config ?d = cfg" "pc_store ?d = pc_store ?c" using flags by simp_all
  have slot: "cursor_slot ?cap (rg_tail w) < ?cap" using n(2) by (simp add: cursor_slot_def)
  obtain head where head: "infer_head_from_tail io ?cap (cursor_slot ?cap (rg_tail w)) (pc_store ?c) = Ok head"
    using infer_head_total [OF v(1) slot] flags(2) by (fastforce simp: infer_head_from_tail_def)
  have "length (filter (\<lambda>h. ps_state h \<noteq> Pinned) hs) \<le> length vs" using lhs length_filter_le le_trans by blast
  then have depth: "cursor_len ?cap (rg_head w) (rg_tail w) = Ok (length vs)"
    "length (if unat (rg_head w - rg_tail w) \<le> ?cap then filter (\<lambda>h. ps_state h \<noteq> Pinned) hs else hs) \<le> length vs"
    using d n(1) lhs by (simp_all add: cursor_len_def)
  have scans: "for_each [0..<?cap] (reclaim_writing_at io env) ?c = (Ok (), ?c)"
    "for_each [0..<?cap] (reclaim_pinned_at io env) ?c = (Ok (), ?c)"
    using reclaim_scan [of ?cap "region_slot_len cfg" w views ?c "[0..<?cap]" env] v(1,2) flags(2) by auto
  have floor: "rebuild_floor io (rg_tail w) ?c = (Ok (), ?d)"
    using floor_scan [OF v(1,2)] l(3) fl flags by (simp add: rebuild_floor_def scan_pin_floor_def)
  from slot_state_at [OF v(1) slot] obtain sq k where
    hd: "read_header io (cursor_slot ?cap (rg_tail w)) s = Ok (state (fst (views ! cursor_slot ?cap (rg_tail w))), sq, k)" by blast
  let ?exp = "if list_ex (\<lambda>h. ps_state h \<noteq> Writing) hs then sq else 0"
  have exp: "if list_ex (\<lambda>h. ps_state h \<noteq> Writing) hs
      then \<exists>st n. read_header io (cursor_slot ?cap (rg_tail w)) (pc_store ?c) = Ok (st, ?exp, n) else ?exp = 0"
    using hd flags(2) by auto
  have b: "occupied_slot_headers io ?cap (pc_store ?c) = Ok hs" "load_head io (pc_store ?c) = Ok (rg_head w)"
    "load_tail io (pc_store ?c) = Ok (rg_tail w)" using hs(1) l(1,2) flags(2) by simp_all
  from recover_run [OF flags(1) flags(1) df(1) scans b floor depth head [folded df(2)] exp [folded df(2)]] flags
  show ?thesis by (auto simp: opened_def)
qed

text \<open>The explicit clean-up of a channel with several producers finds nothing.\<close>

lemma reclaim_stale_reserved:
  assumes q: "queued (pc_config c) w vs (pc_store c)" and st: "\<forall>v \<in> set vs. state (fst v) \<in> {Free, Committed}"
    and bias: "pc_recovery_bias c = 0" and mp: "multi_producer (pc_config c)"
  shows "reclaim_stale io env c = (Ok 0, refreshed w (length vs) c)"
proof -
  let ?r = "refreshed w (length vs) c" and ?cap = "capacity (pc_config c)"
  note r = refresh_queued [OF q bias]
  obtain views where v: "ring ?cap (region_slot_len (pc_config c)) w views (pc_store c)"
    "\<forall>v \<in> set views. state (fst v) \<in> {Free, Committed}" by (rule queued_views [OF q st])
  have k: "pc_config ?r = pc_config c" "pc_store ?r = pc_store c" "pcapacity ?r = ?cap"
    by (simp_all add: refreshed_def pcapacity_def)
  have "window (pc_config c) w vs (pc_store c)" using q by (simp add: queued_slots_def)
  from window_length(2) [OF this] obtain n where n: "?cap = Suc n" by (cases ?cap) auto
  have tl: "pc_tail ?r < ?cap" using at_tail_fields(2) [OF r(2)] n by simp
  from slot_state_at [OF v(1) tl] k(2) obtain sq len where
    hd: "read_header io (pc_tail ?r) (pc_store ?r) = Ok (state (fst (views ! pc_tail ?r)), sq, len)" by auto
  have in_set: "views ! i \<in> set views" if "i < ?cap" for i using at_ring_length [OF v(1)] that by simp
  with v(2) tl have "state (fst (views ! pc_tail ?r)) \<noteq> Writing" by force
  from reclaim_none_at(2) [OF r(2) hd this] have tail: "reclaim_tail_loop io env ?cap 0 ?r = (Ok 0, ?r)"
    unfolding n by simp
  have "reclaim_pinned_loop io env is 0 ?r = (Ok 0, ?r)" if "\<forall>i \<in> set is. i < ?cap" for "is"
    using that
  proof (induction "is")
    case (Cons i "is")
    then have "state (fst (views ! i)) \<noteq> Pinned" using in_set [of i] v(2) by force
    from reclaim_skip [OF v(1) [folded k(2)] _ this, of "env_probe env" "env_second env"] Cons
    show ?case by (simp add: reclaim_dead_pinned_def)
  qed simp
  with tail r(1) k mp show ?thesis by (simp add: reclaim_stale_def reclaim_stale_mpsc_def)
qed

end

section \<open>Creating a region\<close>

definition empty_words :: ring_words where
  "empty_words = \<lparr>rg_head = 0, rg_tail = 0, rg_floor = PIN_FLOOR_NONE\<rparr>"

text \<open>The bytes of a region that another process may open: its magic and its format.\<close>

definition published :: "'s region_io_ops \<Rightarrow> bool \<Rightarrow> 's \<Rightarrow> bool" where
  "published io mp s \<longleftrightarrow> load_magic io s = Ok (region_magic mp) \<and> load_format io s = Ok REGION_FORMAT"

lemma foldl_update_all:
  "foldl (\<lambda>vs i. vs[i := x]) vs [0..<n] = replicate (min n (length vs)) x @ drop n vs"
proof (induction n)
  case (Suc n)
  then show ?case by (cases "n < length vs")
    (simp_all add: list_update_append replicate_append_same [symmetric] Cons_nth_drop_Suc [symmetric] min_def not_less list_update_beyond)
qed simp

lemma wait_published:
  assumes "published io mp (view 0)"
  shows "wait_initialized io (region_magic mp) polls view = Ok ()"
  using assms by (subst wait_initialized.simps) (simp add: published_def check_format_def)

context region_io
begin

lemma free_slots:
  assumes "ring cap sz w vs s" "\<forall>i \<in> set is. i < cap"
  shows "\<exists>t. for_each is (\<lambda>i. write_header io i Free 0 0) s = (Ok (), t) \<and>
    ring cap sz w (foldl (\<lambda>vs i. vs[i := free_view]) vs is) t"
  using assms
proof (induction "is" arbitrary: s vs)
  case (Cons i "is")
  have i: "i < cap" using Cons.prems(2) by simp
  from write_header_effect [OF ring_layout [OF Cons.prems(1)] i, of Free 0 0] obtain u where
    u: "write_header io i Free 0 0 s = (Ok (), u)"
      "slot_set cap sz i (encode_header Free 0 0 None False @ drop PERSISTENT_SLOT_HEADER_LEN (slot_raw sz i (mem s))) s u"
    by blast
  have "ring cap sz w (vs[i := free_view]) u" using ring_slot_set [OF Cons.prems(1) i u(2)] by (simp add: raw_view_encode)
  with Cons.IH [OF this] Cons.prems(2) u(1) show ?case by auto
qed simp

lemma publish_ring:
  assumes s: "ring cap sz w vs s"
  shows "\<exists>t. publish_magic io (region_magic mp) s = (Ok (), t) \<and> ring cap sz w vs t \<and> published io mp t"
proof -
  from publish_effect [OF ring_layout [OF s], of "region_magic mp"] obtain t where
    t: "publish_magic io (region_magic mp) s = (Ok (), t)" "layout cap sz t" "load_magic io t = Ok (region_magic mp)"
      "load_format io t = Ok REGION_FORMAT" "\<forall>i. slot_raw sz i (mem t) = slot_raw sz i (mem s)"
      "mem t = put_at MAGIC_OFFSET (to_le32 (region_magic mp)) (put_at FORMAT_OFFSET (to_le32 REGION_FORMAT) (mem s))" by blast
  have "words_of (mem t) = words_of (mem s)"
    using ring_mem_length [OF s] by (simp add: t(6) words_of_def word_at_def layout_consts bytes_at_put_at_disjoint del: bytes_at_0)
  with s t show ?thesis by (auto simp: at_ring_def slot_views_def published_def)
qed

text \<open>What the creator leaves: an empty ring under its magic.\<close>

lemma initialize_ring:
  assumes lay: "layout cap sz s" and magic: "load_magic io s = Ok 0"
    and w: "rg_head (words_of (mem s)) = 0" "rg_tail (words_of (mem s)) = 0" and cap: "cap = capacity cfg"
  shows "\<exists>t. initialize_region io polls view cfg s = (Ok (), t) \<and> ring cap sz empty_words (replicate cap free_view) t \<and>
    published io (multi_producer cfg) t"
proof -
  have s: "ring cap sz (words_of (mem s)) (slot_views cap sz (mem s)) s" using lay by (simp add: at_ring_def)
  have "\<forall>i \<in> set [0..<cap]. i < cap" by simp
  from free_slots [OF s this] obtain u where u: "for_each [0..<cap] (\<lambda>i. write_header io i Free 0 0) s = (Ok (), u)"
    "ring cap sz (words_of (mem s)) (replicate cap free_view) u" by (auto simp: foldl_update_all)
  have "set_word PIN_FLOOR_OFFSET PIN_FLOOR_NONE (words_of (mem s)) = empty_words"
    using w by (simp add: empty_words_def)
  with store_word [OF u(2), of PIN_FLOOR_OFFSET PIN_FLOOR_NONE] obtain v where
    v: "store_floor io PIN_FLOOR_NONE u = (Ok (), v)" "ring cap sz empty_words (replicate cap free_view) v"
    by (auto simp: store_floor_def)
  from publish_ring [OF v(2)] u(1) v(1) magic cap show ?thesis by (fastforce simp: initialize_region_def)
qed

lemma empty_ring_holds:
  assumes "ring (capacity cfg) (region_slot_len cfg) empty_words (replicate (capacity cfg) free_view) s"
  shows "sholds crc cfg empty_words sq [] s"
  using assms by (auto simp: store_holds_def queued_slots_def ring_window_def empty_words_def)

text \<open>A pair of handles on a new region: either end may be the creator.\<close>

lemma fresh_pair:
  assumes ring: "ring (capacity cfg) (region_slot_len cfg) empty_words (replicate (capacity cfg) free_view) t"
    and cfg: "shared_config cfg"
  shows "\<exists>q. opened io env self epoch cfg t = Ok q \<and>
    duplex_holds io inv mem crc \<lparr>dx_store = t, dx_producer = fresh_handle t cfg self' epoch', dx_consumer = q\<rparr> [] \<and>
    duplex_holds io inv mem crc \<lparr>dx_store = t, dx_producer = q, dx_consumer = fresh_handle t cfg self' epoch'\<rparr> []"
proof -
  note h = empty_ring_holds [OF ring, of crc 0]
  from opened_holds [OF h, of env self epoch] obtain q where
    q: "opened io env self epoch cfg t = Ok q" "pc_config q = cfg" "pc_recovery_bias q = 0"
      "pc_head q = 0" "pc_resync_expected q" "pc_next_seq q = 0" by (auto simp: empty_words_def)
  let ?f = "fresh_handle t cfg self' epoch'"
  have f: "pc_config ?f = cfg" "pc_recovery_bias ?f = 0" "pc_head ?f = 0" "pc_expected_recv_seq ?f = 0" "pc_next_seq ?f = 0"
    by (simp_all add: fresh_handle_def)
  have "producer_at cfg empty_words 0 q" "producer_at cfg empty_words 0 ?f"
    using q f by (simp_all add: producer_at_def empty_words_def)
  moreover have "consumer_at cfg 0 q" "consumer_at cfg 0 ?f" using q f by (simp_all add: consumer_at_def expects_def)
  ultimately show ?thesis using q f h cfg
    by (intro exI [of _ q]) (auto simp: duplex_holds_def duplex_config_def intro!: exI [of _ empty_words] exI [of _ "0 :: u64"])
qed

text \<open>Either end reopened, or both, while messages are in the ring.\<close>

lemma reopened_holds:
  assumes d: "duplex_holds io inv mem crc d ms" and ms: "ms \<noteq> []"
    and count: "length ms \<le> unat (pc_next_seq (dx_producer d))" "unat (pc_next_seq (dx_producer d)) < 2 ^ 63"
  shows "\<exists>c. opened io env self epoch (duplex_config d) (dx_store d) = Ok c \<and>
    duplex_holds io inv mem crc (d\<lparr>dx_producer := c\<rparr>) ms \<and> duplex_holds io inv mem crc (d\<lparr>dx_consumer := c\<rparr>) ms \<and>
    duplex_holds io inv mem crc (d\<lparr>dx_producer := c, dx_consumer := c\<rparr>) ms \<and> pc_config c = duplex_config d"
proof -
  let ?cfg = "duplex_config d"
  from d obtain w sq where w: "shared_config ?cfg" "sholds crc ?cfg w sq ms (dx_store d)"
    "producer_at ?cfg w (sq + word_of_nat (length ms)) (dx_producer d)" "consumer_at ?cfg sq (dx_consumer d)"
    by (auto simp: duplex_holds_def)
  let ?n = "pc_next_seq (dx_producer d)"
  have n: "?n = sq + word_of_nat (length ms)" using w(3) by (simp add: producer_at_def)
  then have sq: "sq = ?n - word_of_nat (length ms)" by simp
  have len: "unat (word_of_nat (length ms) :: u64) = length ms"
    using count by (simp add: unat_of_nat)
  have "unat sq = unat ?n - length ms" unfolding sq using count(1) len by (simp add: unat_sub_if')
  then have small: "unat sq + length ms < 2 ^ 63" using count by simp
  from opened_holds [OF w(2), of env self epoch] ms small obtain c where
    c: "opened io env self epoch ?cfg (dx_store d) = Ok c" "pc_config c = ?cfg" "pc_recovery_bias c = 0"
      "pc_head c = unat (rg_head w) mod capacity ?cfg" "pc_expected_recv_seq c = sq"
      "pc_next_seq c = sq + word_of_nat (length ms)" by auto
  have "producer_at ?cfg w (sq + word_of_nat (length ms)) c" "consumer_at ?cfg sq c"
    using c by (simp_all add: producer_at_def consumer_at_def expects_def)
  then show ?thesis using c(1,2) w
    by (intro exI [of _ c]) (auto simp: duplex_holds_def duplex_config_def intro!: exI [of _ w] exI [of _ sq])
qed

text \<open>A producer reopened on a drained ring starts at zero again.\<close>

lemma drained_reopened:
  assumes d: "duplex_holds io inv mem crc d []"
  shows "\<exists>c w. opened io env self epoch (duplex_config d) (dx_store d) = Ok c \<and> pc_config c = duplex_config d \<and>
    \<not> pc_closed c \<and> sholds crc (duplex_config d) w 0 [] (dx_store d) \<and> producer_at (duplex_config d) w 0 c"
proof -
  let ?cfg = "duplex_config d"
  from d obtain w sq where w: "shared_config ?cfg" "sholds crc ?cfg w sq [] (dx_store d)"
    by (auto simp: duplex_holds_def)
  have s0: "sholds crc ?cfg w 0 [] (dx_store d)" using w(2) by (auto simp: store_holds_def)
  from opened_holds [OF s0, of env self epoch] s0 show ?thesis by (auto simp: producer_at_def)
qed

end

section \<open>The constructors on a memory-mapped file\<close>

text \<open>The region of a configuration fits the address space.\<close>

definition region_fits :: "spsc_config \<Rightarrow> bool" where
  "region_fits cfg \<longleftrightarrow> 0 < capacity cfg \<and> 0 < slot_size cfg \<and> region_slot_len cfg \<le> usize_max \<and>
     capacity cfg * region_slot_len cfg + REGION_HEADER_LEN \<le> usize_max"

definition region_bytes :: "spsc_config \<Rightarrow> nat" where
  "region_bytes cfg = capacity cfg * region_slot_len cfg + REGION_HEADER_LEN"

lemma region_geometry:
  assumes "region_fits cfg"
  shows "validate_config cfg = Ok ()" "persistent_region_slot_size cfg = Ok (region_slot_len cfg)"
    "check_slot_size (region_slot_len cfg) = Ok ()"
    "region_total_len (capacity cfg) (region_slot_len cfg) = Ok (region_bytes cfg)"
  using assms by (auto simp: region_fits_def persistent_region_slot_size_def check_slot_size_def
      region_total_len_def region_bytes_def ok_or_def FRAME_HEADER_LEN_def)

definition new_mapping :: "spsc_config \<Rightarrow> mapped_slot_storage" where
  "new_mapping cfg = \<lparr>map_capacity = capacity cfg, map_slot_size = region_slot_len cfg, map_total_len = region_bytes cfg,
     map_bytes = replicate (region_bytes cfg) 0, map_poisoned = False\<rparr>"

lemma new_mapping_layout:
  assumes "region_fits cfg"
  shows "region_layout mmap_io mapped_inv mapped_mem (capacity cfg) (region_slot_len cfg) (new_mapping cfg)"
    "words_of (mapped_mem (new_mapping cfg)) = \<lparr>rg_head = 0, rg_tail = 0, rg_floor = 0\<rparr>"
    "load_magic mmap_io (new_mapping cfg) = Ok 0"
proof -
  show l: "region_layout mmap_io mapped_inv mapped_mem (capacity cfg) (region_slot_len cfg) (new_mapping cfg)"
    using assms by (simp add: region_layout_def region_fits_def new_mapping_def region_bytes_def mmap_io_def mapped_io_def
        mapped_inv_def mapped_mem_def FRAME_HEADER_LEN_def)
  have m: "mapped_mem (new_mapping cfg) = replicate (region_bytes cfg) 0"
    by (simp add: mapped_mem_def new_mapping_def)
  then show "words_of (mapped_mem (new_mapping cfg)) = \<lparr>rg_head = 0, rg_tail = 0, rg_floor = 0\<rparr>"
    by (simp add: words_of_def word_at_def bytes_at_zeros layout_consts region_bytes_def del: bytes_at_0)
  have "rio_read_at mmap_io MAGIC_OFFSET 4 (new_mapping cfg) = Ok (bytes_at MAGIC_OFFSET 4 (mapped_mem (new_mapping cfg)))"
    using l by (intro mmap.read_law) (auto simp: region_layout_def layout_consts)
  then show "load_magic mmap_io (new_mapping cfg) = Ok 0"
    using m by (simp add: load_magic_def bytes_at_zeros layout_consts region_bytes_def del: bytes_at_0)
qed

end
