(* ===== verification/Persistent_Drop.thy ===== *)
theory Persistent_Drop
  imports Persistent_Opening
begin

text \<open>
  \<open>DropOldest\<close> on a persistent channel with one producer: the drop loop ends and drops whole
  messages, oldest first, no more than the new one needs. The drop happens in the producer's handle;
  a consumer that expects a dropped message refuses the next one with the slot already pinned, and
  receives nothing from then on.
\<close>

section \<open>Dropping\<close>

context region_io
begin

lemma peek_tail_at:
  assumes c: "at_tail cfg (committed_view sq f # vs) c"
  shows "ppeek_committed io (pc_tail c) (pc_store c) =
    Ok \<lparr>snap_state = Committed, snap_seq = sq, snap_payload_len = length f, snap_data = f\<rparr>"
proof -
  from at_tail_window [OF c] obtain views where v: "ring (capacity cfg) (region_slot_len cfg) (loaded_words c) views (pc_store c)"
    "unat (rg_tail (loaded_words c)) mod capacity cfg < capacity cfg"
    "views ! (unat (rg_tail (loaded_words c)) mod capacity cfg) = committed_view sq f" by (rule window_tail)
  from read_slot(2) [OF v] show ?thesis by (simp add: at_tail_fields(2) [OF c])
qed

lemma guard_room_at:
  assumes c: "at_tail cfg vs c"
  shows "guard_room c = capacity cfg - length vs"
proof -
  note h = at_tail_head [OF c] and n = window_length [OF at_tail_window [OF c]]
  have "pc_tail_cursor c \<le> pc_head_cursor c" using h by (simp add: word_le_nat_alt)
  moreover have "pc_floor_cursor c = PIN_FLOOR_NONE" "pc_recovery_bias c = 0" "pc_config c = cfg"
    using c by (simp_all add: loaded_def queued_slots_def loaded_words_def)
  ultimately show ?thesis using n unat_diff_add [OF h]
    by (simp add: guard_room_def guard_len_def pcapacity_def saturating_sub_def Let_def)
qed

lemma drop_slots_at:
  assumes "at_tail cfg (map (committed_view sq) fs @ vs) c"
  shows "\<exists>d. drop_slots io (length fs) c = (Ok (), d) \<and> at_tail cfg vs d \<and> same_handle c d \<and>
    pc_len d = pc_len c - length fs"
  using assms
proof (induction fs arbitrary: c)
  case Nil
  then show ?case by auto
next
  case (Cons f fs)
  let ?w = "loaded_words c"
  have c: "at_tail cfg (committed_view sq f # (map (committed_view sq) fs @ vs)) c" using Cons.prems by simp
  note w = at_tail_window [OF c] and h = at_tail_head [OF c] and cfg = at_tail_fields(1) [OF c] and tl = at_tail_fields(2) [OF c]
  note n = window_length [OF w]
  have orphan: "\<not> at_orphan c"
    using unat_diff_add [OF h] n cfg by (simp add: at_orphan_def pcapacity_def)
  from window_release(1) [OF w] tl obtain t where
    t: "force_release_no_flush io (pc_tail c) (pc_store c) = (Ok (), t)"
      "window cfg ?w (free_view # (map (committed_view sq) fs @ vs)) t" by auto
  have "at_tail cfg (free_view # (map (committed_view sq) fs @ vs)) (c\<lparr>pc_store := t\<rparr>)"
    using c t(2) by (simp add: loaded_def queued_slots_def loaded_words_def)
  moreover have "pc_tail c < capacity cfg" using tl n by simp
  ultimately obtain d where d: "step_tail io False (pc_tail c) (c\<lparr>pc_store := t\<rparr>) = (Ok (), d)"
    "at_tail cfg (map (committed_view sq) fs @ vs) d" "same_handle (c\<lparr>pc_store := t\<rparr>) d" "pc_len d = pc_len c - 1"
    using step_tail_at by fastforce
  from Cons.IH [OF d(2)] obtain e where e: "drop_slots io (length fs) d = (Ok (), e)" "at_tail cfg vs e"
    "same_handle d e" "pc_len e = pc_len d - length fs" by blast
  with t(1) d orphan show ?case by (auto simp: same_handle_def)
qed

text \<open>One message.\<close>

lemma drop_message_at:
  assumes c: "at_tail cfg (map (\<lambda>(q, f). committed_view q f) ws) c" and ws: "stored crc cfg sq (m # ms) ws"
    and len: "pc_len c = length ws" and mp: "\<not> multi_producer cfg"
  shows "\<exists>d ws'. pdrop_oldest_message io env fuel c = (Ok (), d) \<and>
    at_tail cfg (map (\<lambda>(q, f). committed_view q f) ws') d \<and> stored crc cfg (sq + 1) ms ws' \<and>
    pc_len d = length ws' \<and> same_handle (c\<lparr>pc_expected_recv_seq := pc_expected_recv_seq c + 1\<rparr>) d"
proof -
  have cap: "0 < capacity cfg" using window_length(2) [OF at_tail_window [OF c]] .
  from ws obtain plan fs ws' where f: "length m \<le> isize_max" "send_plan_of cfg (length m) = Ok plan"
    "encode_message_frames crc cfg plan sq m = Ok fs" "ws = map (Pair sq) fs @ ws'" "stored crc cfg (sq + 1) ms ws'" by auto
  note e = encoded_message [OF f(2) cap f(1,3)]
  obtain b bs where b: "fs = b # bs" using e(3) by (cases fs) auto
  let ?vs = "map (\<lambda>(q, f). committed_view q f) ws'"
  have c': "at_tail cfg (map (committed_view sq) fs @ ?vs) c" using c f(4) by (simp add: o_def)
  have c1: "at_tail cfg (committed_view sq b # (map (committed_view sq) bs @ ?vs)) c" using c' b by simp
  have ext: "\<exists>f. decode_frame b = Ok f \<and> message_extent_of f = Ok (length fs)"
    using e(2) b unfolding message_frames_def by (force simp: message_extent_of_def chunk_frame_ok_def)
  from drop_slots_at [OF c'] obtain d where d: "drop_slots io (length fs) c = (Ok (), d)" "at_tail cfg ?vs d"
    "same_handle c d" "pc_len d = pc_len c - length fs" by blast
  let ?d = "d\<lparr>pc_expected_recv_seq := pc_expected_recv_seq d + 1\<rparr>"
  have "pc_len c \<noteq> 0" using len f(4) b by simp
  moreover have "pc_config c = cfg" using at_tail_fields(1) [OF c] .
  ultimately have "pdrop_oldest_message io env fuel c = (Ok (), ?d)"
    using peek_tail_at [OF c1] ext d(1) mp
    by (auto simp: pdrop_oldest_message_def drop_oldest_message_spsc_def skip_expected_def)
  moreover have "at_tail cfg ?vs ?d" using d(2) by (simp add: loaded_def loaded_words_def)
  moreover have "pc_len ?d = length ws'" using d(4) len f(4) by simp
  ultimately show ?thesis using f(5) d(3) by (intro exI [of _ ?d] exI [of _ ws']) (simp add: same_handle_def)
qed

text \<open>As many as it takes; each turn of the loop drops one message.\<close>

lemma drop_until_at:
  assumes "at_tail cfg (map (\<lambda>(q, f). committed_view q f) ws) c" "stored crc cfg sq ms ws" "pc_len c = length ws"
    and "\<not> multi_producer cfg" "needed \<le> capacity cfg" "length ms < fuel"
  shows "\<exists>d ws'. pdrop_until_free io env fuel needed c = (Ok (), d) \<and>
    at_tail cfg (map (\<lambda>(q, f). committed_view q f) ws') d \<and>
    stored crc cfg (sq + word_of_nat (length ms - length (drop_for cfg needed ms))) (drop_for cfg needed ms) ws' \<and>
    pc_head d = pc_head c \<and> pc_next_seq d = pc_next_seq c \<and> pc_closed d = pc_closed c \<and>
    pc_head_cursor d = pc_head_cursor c"
  using assms
proof (induction ms arbitrary: c ws sq fuel)
  case Nil
  then obtain k where fuel: "fuel = Suc k" by (cases fuel) auto
  with Nil guard_room_at [OF Nil.prems(1)] show ?case by (intro exI [of _ c] exI [of _ ws]) simp
next
  case (Cons m ms)
  obtain k where fuel: "fuel = Suc k" using Cons.prems(6) by (cases fuel) auto
  have cap: "0 < capacity cfg" using window_length(2) [OF at_tail_window [OF Cons.prems(1)]] .
  have room: "guard_room c = capacity cfg - used_slots cfg (m # ms)"
    using guard_room_at [OF Cons.prems(1)] stored_length [OF Cons.prems(2) cap] by simp
  have suffix: "length (drop_for cfg needed xs) \<le> length xs" for xs by (induction xs) auto
  show ?case
  proof (cases "capacity cfg - used_slots cfg (m # ms) < needed")
    case False
    with Cons.prems room fuel show ?thesis by (intro exI [of _ c] exI [of _ ws]) auto
  next
    case True
    from drop_message_at [OF Cons.prems(1-4), of env k] obtain d ws1 where
      d: "pdrop_oldest_message io env k c = (Ok (), d)" "at_tail cfg (map (\<lambda>(q, f). committed_view q f) ws1) d"
        "stored crc cfg (sq + 1) ms ws1" "pc_len d = length ws1"
        "same_handle (c\<lparr>pc_expected_recv_seq := pc_expected_recv_seq c + 1\<rparr>) d" by blast
    from Cons.IH [OF d(2-4) Cons.prems(4,5), of k] Cons.prems(6) fuel obtain e ws' where
      e: "pdrop_until_free io env k needed d = (Ok (), e)" "at_tail cfg (map (\<lambda>(q, f). committed_view q f) ws') e"
        "stored crc cfg (sq + 1 + word_of_nat (length ms - length (drop_for cfg needed ms))) (drop_for cfg needed ms) ws'"
        "pc_head e = pc_head d" "pc_next_seq e = pc_next_seq d" "pc_closed e = pc_closed d" "pc_head_cursor e = pc_head_cursor d"
      by auto
    have "drop_for cfg needed (m # ms) = drop_for cfg needed ms" using True by simp
    moreover have "length (m # ms) - length (drop_for cfg needed ms) = Suc (length ms - length (drop_for cfg needed ms))"
      using suffix [of ms] by simp
    ultimately show ?thesis using e d(1,5) room True fuel
      by (intro exI [of _ e] exI [of _ ws']) (simp add: same_handle_def add.assoc del: drop_for.simps)
  qed
qed

text \<open>A send on a full channel.\<close>

lemma psend_drops:
  assumes s: "sholds (env_crc env) cfg w sq ms (pc_store c)" and c: "producer_at cfg w (sq + word_of_nat (length ms)) c"
    and open_: "\<not> pc_closed c" and mp: "\<not> multi_producer cfg" and bp: "backpressure cfg = DropOldest"
    and small: "slot_size cfg + FRAME_HEADER_LEN < 2 ^ 32" and m: "length m \<le> isize_max"
    and count: "unat (rg_head w) + capacity cfg < 2 ^ 64" and plan: "send_plan_of cfg (length m) = Ok plan"
    and full: "capacity cfg - used_slots cfg ms < needed_slots plan" and fuel: "length ms < fuel"
  defines "kept \<equiv> drop_for cfg (needed_slots plan) ms"
  shows "\<exists>d w'. psend io env fuel m c = (Ok (), d) \<and>
    sholds (env_crc env) cfg w' (sq + word_of_nat (length ms - length kept)) (kept @ [m]) (pc_store d) \<and>
    producer_at cfg w' (sq + word_of_nat (length ms) + 1) d"
proof -
  have pc: "pc_config c = cfg" "pc_recovery_bias c = 0" using c by (simp_all add: producer_at_def)
  note u = sholds_used [OF s]
  from s obtain ws where ws: "queued cfg w (map (\<lambda>(q, f). committed_view q f) ws) (pc_store c)" "stored (env_crc env) cfg sq ms ws"
    by (auto simp: store_holds_def)
  have len: "length ws = used_slots cfg ms" using stored_length [OF ws(2) u(2)] .
  have need: "needed_slots plan \<le> capacity cfg" using needed_slots_bounds(2) [OF plan u(2)] .
  let ?r = "refreshed w (length (map (\<lambda>(q, f). committed_view q f) ws)) c"
  have qr: "queued (pc_config c) w (map (\<lambda>(q, f). committed_view q f) ws) (pc_store c)" using ws(1) pc by simp
  note r = refresh_queued [OF qr pc(2)]
  have at: "at_tail cfg (map (\<lambda>(q, f). committed_view q f) ws) ?r" using r(2) pc by simp
  have rlen: "pc_len ?r = length ws" by (simp add: refreshed_def)
  from drop_until_at [OF at ws(2) rlen mp need fuel] obtain d ws' where
    d: "pdrop_until_free io env fuel (needed_slots plan) ?r = (Ok (), d)"
      "at_tail cfg (map (\<lambda>(q, f). committed_view q f) ws') d"
      "stored (env_crc env) cfg (sq + word_of_nat (length ms - length kept)) kept ws'"
      "pc_head d = pc_head ?r" "pc_next_seq d = pc_next_seq ?r" "pc_closed d = pc_closed ?r"
      "pc_head_cursor d = pc_head_cursor ?r" unfolding kept_def by blast
  let ?w = "loaded_words d" and ?sq = "sq + word_of_nat (length ms - length kept)"
  have suffix: "length (drop_for cfg n xs) \<le> length xs" for n xs by (induction xs) auto
  have fit: "used_slots cfg kept + needed_slots plan \<le> capacity cfg"
    unfolding kept_def using u(1) need
  proof (induction ms)
    case (Cons x xs)
    then show ?case by (cases "capacity cfg - used_slots cfg (x # xs) < needed_slots plan") auto
  qed simp
  have hold: "sholds (env_crc env) cfg ?w ?sq kept (pc_store d)"
    using d(2,3) by (auto simp: store_holds_def loaded_def)
  have head: "rg_head ?w = rg_head w" using d(7) by (simp add: loaded_words_def refreshed_def)
  have next_sq: "?sq + word_of_nat (length kept) = sq + word_of_nat (length ms)"
    using suffix [of "needed_slots plan" ms] by (simp add: kept_def add.assoc flip: of_nat_add)
  have prod: "producer_at cfg ?w (?sq + word_of_nat (length kept)) d"
    unfolding next_sq using c d(4,5) at_tail_fields(1) [OF d(2)] d(2) head
    by (simp add: producer_at_def refreshed_def loaded_def)
  have cnt: "unat (rg_head ?w) + capacity cfg < 2 ^ 64" using count head by simp
  have hc: "pc_head_cursor d = rg_head ?w" by (simp add: loaded_words_def)
  obtain fs where fs: "encode_message_frames (env_crc env) cfg plan (pc_next_seq d) m = Ok fs"
    using encode_message_frames_Ok [OF plan u(2) m] by metis
  let ?t = "d\<lparr>pc_next_seq := pc_next_seq d + 1\<rparr>"
  from append_at [OF hold prod hc small m plan fit cnt fs, of "stamp env (needed_slots plan) ?t"] obtain e w' where
    e: "seq (for_each fs (write_frame_at_head io (pc_next_seq d) (stamp env (needed_slots plan) ?t)))
          (publish_head io fs (pc_head d)) ?t = (Ok (), e)"
      "sholds (env_crc env) cfg w' ?sq (kept @ [m]) (pc_store e)"
      "producer_at cfg w' (?sq + word_of_nat (length (kept @ [m]))) e" by blast
  have adm: "pprepare_send_slots io env fuel (needed_slots plan) ?r = (Ok True, d)"
    using need r(3) full len bp pc d(1) by (simp add: pprepare_send_slots_def refreshed_def)
  have "send_spsc io env fuel m plan ?r = (Ok (), e)"
    using adm fs e(1) at_tail_fields(1) [OF d(2)] by (simp add: send_spsc_def take_sequence_def)
  moreover have "pc_config ?r = cfg" using pc by (simp add: refreshed_def)
  ultimately have run: "psend io env fuel m c = (Ok (), e)"
    using r(1) open_ plan mp by (simp add: psend_def)
  have nx: "?sq + word_of_nat (length (kept @ [m])) = sq + word_of_nat (length ms) + 1"
    using next_sq by (simp add: add.assoc [symmetric])
  from run e(2) e(3) [unfolded nx] show ?thesis by blast
qed

end

section \<open>A consumer that expects another message\<close>

text \<open>The slot at the tail is pinned, and no handle will release it. Behind the tail views may hold
  slots.\<close>

definition wedged ::
  "'s region_io_ops \<Rightarrow> ('s \<Rightarrow> bool) \<Rightarrow> ('s \<Rightarrow> bytes) \<Rightarrow> 's persistent_channel \<Rightarrow> bool" where
  "wedged io ok mem c \<longleftrightarrow> \<not> pc_closed c \<and> \<not> multi_producer (pc_config c) \<and> pc_recovery_bias c = 0 \<and>
     (\<exists>xs w q f vs. pinned_queue io ok mem (pc_config c) xs w (pinned_view q f # vs) (pc_store c))"

context region_io
begin

lemma queued_pinned:
  assumes "at_pins cfg xs (pinned_view q f # vs) c" "\<not> pc_closed c" "\<not> multi_producer cfg"
  shows "wedged io inv mem c"
  using assms unfolding wedged_def loaded_pins_def by blast

lemma mismatch_wedges:
  assumes q: "pqueued (pc_config c) xs w (committed_view sq f # vs) (pc_store c)" and bias: "pc_recovery_bias c = 0"
    and h: "\<not> pc_resync_expected c" "\<not> multi_producer (pc_config c)" "\<not> pc_closed c" "sq \<noteq> pc_expected_recv_seq c"
  shows "\<exists>d. precv io env c = (ChanErr (SequenceMismatch (pc_expected_recv_seq c) sq), d) \<and> wedged io inv mem d"
proof -
  from ensure_pins [OF q bias, of env] h obtain d where
    d: "ensure_tail_readable io env c = (Ok False, d)" "at_pins (pc_config c) xs (committed_view sq f # vs) d"
      "same_handle (c\<lparr>pc_resync_expected := False, pc_head_cursor := rg_head w\<rparr>) d" by auto
  from read_tail_pins [OF d(2)] obtain e where
    e: "pread_tail io d = (Ok \<lparr>snap_state = Pinned, snap_seq = sq, snap_payload_len = length f, snap_data = f\<rparr>, e)"
      "at_pins (pc_config c) xs (pinned_view sq f # vs) e" "same_handle d e" by blast
  have "wedged io inv mem e" using queued_pinned [OF e(2)] d(3) e(3) h by (simp add: same_handle_def)
  with d e h show ?thesis
    by (auto simp: precv_def precv_with_seq_def accept_sequence_def same_handle_def)
qed

lemma poll_pinned:
  assumes "at_pins cfg xs (pinned_view q f # vs) c" "quiet env" "\<not> pc_closed c"
  shows "poll_committed_loop io env n c = (Ok False, c)"
proof -
  have "window cfg (loaded_words c) (pinned_view q f # (vs @ replicate (capacity cfg - (Suc (length vs) + length xs)) free_view @ xs)) (pc_store c)"
    using pins_bounds(5) [OF assms(1)] by simp
  then obtain views where v: "ring (capacity cfg) (region_slot_len cfg) (loaded_words c) views (pc_store c)"
    "unat (rg_tail (loaded_words c)) mod capacity cfg < capacity cfg"
    "views ! (unat (rg_tail (loaded_words c)) mod capacity cfg) = pinned_view q f" by (rule window_tail)
  from slot_state_at [OF v(1,2)] v(3) obtain sq' k where "read_header io (pc_tail c) (pc_store c) = Ok (Pinned, sq', k)"
    by (auto simp: pins_fields(2) [OF assms(1)])
  with assms(2,3) show ?thesis by (induction n) (auto simp: tail_header_def)
qed

lemma wedged_recv:
  assumes "wedged io inv mem c" "quiet env"
  shows "\<exists>d. precv io env c = (ChanErr BufferEmpty, d) \<and> wedged io inv mem d"
proof -
  from assms(1) obtain xs w q f vs where
    h: "\<not> pc_closed c" "\<not> multi_producer (pc_config c)" "pc_recovery_bias c = 0"
      "pqueued (pc_config c) xs w (pinned_view q f # vs) (pc_store c)" by (auto simp: wedged_def)
  let ?c = "refreshed w (length (pinned_view q f # vs)) c"
  note r = refresh_pins [OF h(4,3)] and n = pqueued_bounds [OF h(4)]
  have at: "at_pins (pc_config c) xs (pinned_view q f # vs) (?c\<lparr>pc_resync_expected := b\<rparr>)" for b
    using r(2) by (simp add: loaded_pins_def loaded_words_def)
  have cl: "\<not> pc_closed (?c\<lparr>pc_resync_expected := b\<rparr>)" for b using h(1) by (simp add: refreshed_def)
  have poll: "poll_tail_committed io env (?c\<lparr>pc_resync_expected := False\<rparr>) = (Ok False, ?c\<lparr>pc_resync_expected := False\<rparr>)"
    using poll_pinned [OF at assms(2) cl] by (simp add: poll_tail_committed_def)
  have "unat (rg_head w - rg_tail w) = Suc (length vs)"
    using n(3) unat_diff_add [of "rg_head w" "rg_tail w"] by simp
  then have rec: "try_reclaim_at_tail io env (?c\<lparr>pc_resync_expected := False\<rparr>) = (Ok 0, ?c\<lparr>pc_resync_expected := False\<rparr>)"
    using h(2) n(1) by (simp add: try_reclaim_at_tail_def try_reclaim_at_tail_spsc_def pcapacity_def refreshed_def)
  have "ensure_tail_readable io env c = (ChanErr BufferEmpty, ?c\<lparr>pc_resync_expected := pc_resync_expected c\<rparr>)"
    using r(1) poll rec h(1) by (simp add: ensure_tail_readable_def refreshed_def)
  moreover have "wedged io inv mem (?c\<lparr>pc_resync_expected := pc_resync_expected c\<rparr>)"
    using queued_pinned [OF at cl h(2)] .
  ultimately show ?thesis by (simp add: precv_def precv_with_seq_def)
qed

lemma holds_first:
  assumes s: "sholds crc cfg w sq (m # ms) s"
  shows "\<exists>f vs. queued cfg w (committed_view sq f # vs) s"
proof -
  from s obtain ws where ws: "queued cfg w (map (\<lambda>(q, f). committed_view q f) ws) s" "stored crc cfg sq (m # ms) ws"
    by (auto simp: store_holds_def)
  from stored_seqs(2) [OF ws(2) sholds_used(2) [OF s]] obtain f ws' where "ws = (sq, f) # ws'"
    by (cases ws) auto
  with ws(1) show ?thesis by auto
qed

end

subsection \<open>Both handles\<close>

definition duplex_wedged ::
  "'s region_io_ops \<Rightarrow> ('s \<Rightarrow> bool) \<Rightarrow> ('s \<Rightarrow> bytes) \<Rightarrow> 's duplex \<Rightarrow> bool" where
  "duplex_wedged io ok mem d \<longleftrightarrow> wedged io ok mem ((dx_consumer d)\<lparr>pc_store := dx_store d\<rparr>)"

text \<open>The receive repeated \<open>n\<close> times, and what the next one returns.\<close>

definition recv_after :: "'s region_io_ops \<Rightarrow> 's channel_env \<Rightarrow> nat \<Rightarrow> 's duplex \<Rightarrow> bytes result" where
  "recv_after io env n d = fst (duplex_recv io env (((\<lambda>d. snd (duplex_recv io env d)) ^^ n) d))"

context region_io
begin

lemma duplex_wedged_recv:
  assumes "duplex_wedged io inv mem d" "quiet env"
  shows "fst (duplex_recv io env d) = ChanErr BufferEmpty" "duplex_wedged io inv mem (snd (duplex_recv io env d))"
proof -
  from assms wedged_recv obtain c where
    "precv io env ((dx_consumer d)\<lparr>pc_store := dx_store d\<rparr>) = (ChanErr BufferEmpty, c)" "wedged io inv mem c"
    by (fastforce simp: duplex_wedged_def)
  then show "fst (duplex_recv io env d) = ChanErr BufferEmpty" "duplex_wedged io inv mem (snd (duplex_recv io env d))"
    by (simp_all add: duplex_recv_def as_consumer_def duplex_wedged_def)
qed

lemma wedged_forever:
  assumes "duplex_wedged io inv mem d" "quiet env"
  shows "recv_after io env n d = ChanErr BufferEmpty"
proof -
  have "duplex_wedged io inv mem (((\<lambda>d. snd (duplex_recv io env d)) ^^ n) d)"
    using assms duplex_wedged_recv(2) by (induction n) auto
  then show ?thesis using duplex_wedged_recv(1) assms(2) by (simp add: recv_after_def)
qed

lemma duplex_mismatch_pins:
  assumes s: "pqueued cfg xs w (committed_view sq f # vs) (dx_store d)" and cfg: "pc_config (dx_consumer d) = cfg" "\<not> multi_producer cfg"
    and h: "pc_recovery_bias (dx_consumer d) = 0" "\<not> pc_resync_expected (dx_consumer d)" "\<not> pc_closed (dx_consumer d)"
      "sq \<noteq> pc_expected_recv_seq (dx_consumer d)" and env: "quiet env"
  shows "fst (duplex_recv io env d) = ChanErr (SequenceMismatch (pc_expected_recv_seq (dx_consumer d)) sq) \<and>
    (\<forall>n. recv_after io env n (snd (duplex_recv io env d)) = ChanErr BufferEmpty)"
proof -
  let ?c = "(dx_consumer d)\<lparr>pc_store := dx_store d\<rparr>"
  from mismatch_wedges [of ?c xs w sq f vs env] s cfg h obtain e where
    e: "precv io env ?c = (ChanErr (SequenceMismatch (pc_expected_recv_seq (dx_consumer d)) sq), e)" "wedged io inv mem e"
    by auto
  then have "duplex_wedged io inv mem (snd (duplex_recv io env d))"
    by (simp add: duplex_recv_def as_consumer_def duplex_wedged_def)
  with e(1) wedged_forever [OF _ env] show ?thesis by (simp add: duplex_recv_def as_consumer_def)
qed

lemma duplex_mismatch:
  assumes s: "sholds crc cfg w sq (m # ms) (dx_store d)" and cfg: "pc_config (dx_consumer d) = cfg" "\<not> multi_producer cfg"
    and h: "pc_recovery_bias (dx_consumer d) = 0" "\<not> pc_resync_expected (dx_consumer d)" "\<not> pc_closed (dx_consumer d)"
      "sq \<noteq> pc_expected_recv_seq (dx_consumer d)" and env: "quiet env"
  shows "fst (duplex_recv io env d) = ChanErr (SequenceMismatch (pc_expected_recv_seq (dx_consumer d)) sq) \<and>
    (\<forall>n. recv_after io env n (snd (duplex_recv io env d)) = ChanErr BufferEmpty)"
proof -
  from holds_first [OF s] obtain f vs where "queued cfg w (committed_view sq f # vs) (dx_store d)" by blast
  then have "pqueued cfg [] w (committed_view sq f # vs) (dx_store d)" by simp
  from duplex_mismatch_pins [OF this cfg h env] show ?thesis .
qed

text \<open>A producer that is restarted when the ring is drained.\<close>

lemma restarted_wedges:
  assumes d: "duplex_holds io inv mem (env_crc env) d []" and env: "quiet env"
    and h: "\<not> pc_resync_expected (dx_consumer d)" "\<not> pc_closed (dx_consumer d)" "pc_expected_recv_seq (dx_consumer d) \<noteq> 0"
    and m: "length m \<le> isize_max" "send_plan_of (duplex_config d) (length m) = Ok plan"
    and count: "head_count mem d + capacity (duplex_config d) < 2 ^ 64"
  shows "\<exists>p e. opened io env self epoch (duplex_config d) (dx_store d) = Ok p \<and>
    duplex_send io env fuel m (d\<lparr>dx_producer := p\<rparr>) = (Ok (), e) \<and>
    fst (duplex_recv io env e) = ChanErr (SequenceMismatch (pc_expected_recv_seq (dx_consumer d)) 0) \<and>
    (\<forall>n. recv_after io env n (snd (duplex_recv io env e)) = ChanErr BufferEmpty)"
proof -
  let ?cfg = "duplex_config d"
  from drained_reopened [OF d, of env self epoch] obtain p w where
    p: "opened io env self epoch ?cfg (dx_store d) = Ok p" "pc_config p = ?cfg" "\<not> pc_closed p"
      "sholds (env_crc env) ?cfg w 0 [] (dx_store d)" "producer_at ?cfg w 0 p" by blast
  from d have cfg: "shared_config ?cfg" and cons: "pc_config (dx_consumer d) = ?cfg" "pc_recovery_bias (dx_consumer d) = 0"
    by (auto simp: duplex_holds_def consumer_at_def)
  let ?p = "p\<lparr>pc_store := dx_store d\<rparr>"
  have s: "sholds (env_crc env) ?cfg w 0 [] (pc_store ?p)" "producer_at ?cfg w (0 + word_of_nat (length ([] :: bytes list))) ?p"
    using p(4,5) by (simp_all add: producer_at_def)
  have n: "unat (rg_head w) + capacity ?cfg < 2 ^ 64" using count sholds_words [OF p(4)] by (simp add: head_count_def)
  have need: "needed_slots plan \<le> capacity ?cfg" using needed_slots_bounds(2) [OF m(2) sholds_used(2) [OF p(4)]] .
  have "\<not> multi_producer ?cfg" "slot_size ?cfg + FRAME_HEADER_LEN < 2 ^ 32"
    "backpressure ?cfg = DropOldest \<longrightarrow> used_slots ?cfg [] + slots_of ?cfg m \<le> capacity ?cfg"
    using cfg by (simp_all add: shared_config_def)
  from psend_refines [OF s this env m(1) n, of fuel] m(2) need p(3) obtain e w' where
    e: "psend io env fuel m ?p = (Ok (), e)" "sholds (env_crc env) ?cfg w' 0 [m] (pc_store e)"
    by (auto simp: queue_send_def)
  let ?e = "d\<lparr>dx_producer := e, dx_store := pc_store e\<rparr>"
  have send: "duplex_send io env fuel m (d\<lparr>dx_producer := p\<rparr>) = (Ok (), ?e)"
    using e(1) by (simp add: duplex_send_def as_producer_def)
  have mp: "\<not> multi_producer ?cfg" using cfg by (simp add: shared_config_def)
  have "fst (duplex_recv io env ?e) = ChanErr (SequenceMismatch (pc_expected_recv_seq (dx_consumer ?e)) 0) \<and>
    (\<forall>n. recv_after io env n (snd (duplex_recv io env ?e)) = ChanErr BufferEmpty)"
    by (rule duplex_mismatch [OF _ _ mp _ _ _ _ env]) (use e(2) cons h in auto)
  with p(1) send show ?thesis by auto
qed

text \<open>A producer that drops what the consumer expects next.\<close>

lemma dropped_wedges:
  assumes s: "sholds (env_crc env) cfg w sq ms (dx_store d)"
    and p: "producer_at cfg w (sq + word_of_nat (length ms)) (dx_producer d)" "\<not> pc_closed (dx_producer d)"
    and c: "pc_config (dx_consumer d) = cfg" "pc_recovery_bias (dx_consumer d) = 0" "\<not> pc_resync_expected (dx_consumer d)"
      "\<not> pc_closed (dx_consumer d)" "pc_expected_recv_seq (dx_consumer d) = sq"
    and mp: "\<not> multi_producer cfg" and bp: "backpressure cfg = DropOldest"
    and small: "slot_size cfg + FRAME_HEADER_LEN < 2 ^ 32" and m: "length m \<le> isize_max" "send_plan_of cfg (length m) = Ok plan"
    and count: "unat (rg_head w) + capacity cfg < 2 ^ 64"
    and full: "capacity cfg < used_slots cfg ms + needed_slots plan" and fuel: "length ms < fuel"
    and env: "quiet env"
  shows "\<exists>e dropped kept. duplex_send io env fuel m d = (Ok (), e) \<and> store_messages mem cfg (dx_store e) = kept @ [m] \<and>
    ms = dropped @ kept \<and> dropped \<noteq> [] \<and>
    fst (duplex_recv io env e) = ChanErr (SequenceMismatch sq (sq + word_of_nat (length dropped))) \<and>
    (\<forall>n. recv_after io env n (snd (duplex_recv io env e)) = ChanErr BufferEmpty)"
proof -
  let ?c = "(dx_producer d)\<lparr>pc_store := dx_store d\<rparr>" and ?kept = "drop_for cfg (needed_slots plan) ms"
  note u = sholds_used [OF s]
  have p': "producer_at cfg w (sq + word_of_nat (length ms)) ?c" using p(1) by (simp add: producer_at_def)
  have f: "capacity cfg - used_slots cfg ms < needed_slots plan" using full u(1) by linarith
  have st: "sholds (env_crc env) cfg w sq ms (pc_store ?c)" and op: "\<not> pc_closed ?c" using s p(2) by simp_all
  from psend_drops [OF st p' op mp bp small m(1) count m(2) f fuel] obtain e w' where
    e: "psend io env fuel m ?c = (Ok (), e)"
      "sholds (env_crc env) cfg w' (sq + word_of_nat (length ms - length ?kept)) (?kept @ [m]) (pc_store e)" by blast
  have need: "needed_slots plan \<le> capacity cfg" using needed_slots_bounds(2) [OF m(2) u(2)] .
  have split: "\<exists>dropped. xs = dropped @ drop_for cfg n xs" for n xs
    by (induction xs) (auto intro: exI [of _ "_ # _"])
  then obtain dropped where dr: "ms = dropped @ ?kept" by blast
  have ne: "ms \<noteq> []" using f need by auto
  have "dropped \<noteq> []"
  proof
    assume "dropped = []"
    with dr have "?kept = ms" by simp
    moreover have "length ?kept < length ms"
    proof (cases ms)
      case (Cons x xs)
      obtain ys where "xs = ys @ drop_for cfg (needed_slots plan) xs" using split by blast
      then have "length (drop_for cfg (needed_slots plan) xs) \<le> length xs" by (metis le_add2 length_append)
      with Cons f show ?thesis by simp
    qed (use ne in simp)
    ultimately show False by simp
  qed
  have dl: "length ms - length ?kept = length dropped" using arg_cong [OF dr, of length] by simp
  obtain x xs where k: "?kept @ [m] = x # xs" by (cases "?kept @ [m]") auto
  let ?e = "d\<lparr>dx_producer := e, dx_store := pc_store e\<rparr>" and ?sq = "sq + word_of_nat (length dropped)"
  have send: "duplex_send io env fuel m d = (Ok (), ?e)"
    using e(1) by (simp add: duplex_send_def as_producer_def)
  have "length ms \<le> capacity cfg"
  proof -
    from s obtain ws where "stored (env_crc env) cfg sq ms ws" by (auto simp: store_holds_def)
    then have "length ms \<le> used_slots cfg ms" using u(2)
    proof (induction "env_crc env" cfg sq ms ws rule: stored.induct)
      case (2 cfg sq m ms ws)
      then obtain plan where "send_plan_of cfg (length m) = Ok plan" "length ms \<le> used_slots cfg ms" by auto
      with needed_slots_bounds(1) [of cfg "length m" plan] 2(3) show ?case by fastforce
    qed simp
    with u(1) show ?thesis by simp
  qed
  then have "length dropped < 2 ^ 64" using count dl by simp
  moreover have "0 < length dropped" using \<open>dropped \<noteq> []\<close> by simp
  ultimately have "unat (word_of_nat (length dropped) :: u64) \<noteq> 0" by (simp add: unat_of_nat)
  then have "(word_of_nat (length dropped) :: u64) \<noteq> 0" by auto
  then have neq: "?sq \<noteq> pc_expected_recv_seq (dx_consumer ?e)" using c(5) by simp
  have "fst (duplex_recv io env ?e) = ChanErr (SequenceMismatch (pc_expected_recv_seq (dx_consumer ?e)) ?sq) \<and>
    (\<forall>n. recv_after io env n (snd (duplex_recv io env ?e)) = ChanErr BufferEmpty)"
    by (rule duplex_mismatch [OF _ _ mp _ _ _ neq env, of "env_crc env" w' x xs]) (use e(2) k dl c in auto)
  moreover have "store_messages mem cfg (dx_store ?e) = ?kept @ [m]" using sholds_used(3) [OF e(2)] by simp
  ultimately show ?thesis using send dr \<open>dropped \<noteq> []\<close> c(5)
    by (intro exI [of _ ?e] exI [of _ dropped] exI [of _ ?kept]) simp
qed

end

end
