(* ===== verification/Persistent_Waiting.thy ===== *)
theory Persistent_Waiting
  imports Persistent_Opening
begin

text \<open>
  A blocked send and the consumer that makes room: the store changes between the turns of the
  waiting loop, and the send goes through in the first turn that finds the room it needs.
\<close>

section \<open>The store from turn to turn\<close>

text \<open>\<open>turn_store env n s k\<close>: the store the loop finds in its turn \<open>k\<close>, when the clock grants \<open>n\<close> turns
  and the first finds \<open>s\<close>.\<close>

fun turn_store :: "'s channel_env \<Rightarrow> nat \<Rightarrow> 's \<Rightarrow> nat \<Rightarrow> 's" where
  "turn_store env (Suc n) s (Suc k) = turn_store env n (env_yield env n s) k"
| "turn_store env n s k = s"

lemma turn_store_0 [simp]: "turn_store env n s 0 = s"
  by (cases n) simp_all

context region_io
begin

lemma refresh_room:
  assumes q: "queued (pc_config c) w vs (pc_store c)" and bias: "pc_recovery_bias c = 0"
  shows "wait_for_space_until io env needed (Suc n) c =
    (if needed \<le> capacity (pc_config c) - length vs then (Ok n, refreshed w (length vs) c)
     else wait_for_space_until io env needed n
       ((refreshed w (length vs) c)\<lparr>pc_store := env_yield env n (pc_store c)\<rparr>))"
proof -
  note r = refresh_queued [OF q bias]
  have s: "pc_store (refreshed w (length vs) c) = pc_store c" by (simp add: refreshed_def)
  show ?thesis using r(1,3) s by (simp add: yield_now_def)
qed

text \<open>The turns before the one with room change nothing but the view of the cursors.\<close>

lemma wait_until_room:
  assumes "\<forall>j \<le> k. queued (pc_config c) (w j) (vs j) (turn_store env n (pc_store c) j)"
    and "pc_recovery_bias c = 0" "k < n"
    and "\<forall>j < k. capacity (pc_config c) - length (vs j) < needed" "needed \<le> capacity (pc_config c) - length (vs k)"
  shows "\<exists>d. wait_for_space_until io env needed n c = (Ok (n - Suc k), d) \<and>
    d = refreshed (w k) (length (vs k)) (c\<lparr>pc_store := turn_store env n (pc_store c) k\<rparr>)"
  using assms
proof (induction k arbitrary: c n w vs)
  case 0
  then obtain m where n: "n = Suc m" by (cases n) auto
  with 0 refresh_room [of c "w 0" "vs 0" env needed m] show ?case by simp
next
  case (Suc k)
  then obtain m where n: "n = Suc m" by (cases n) auto
  let ?d = "(refreshed (w 0) (length (vs 0)) c)\<lparr>pc_store := env_yield env m (pc_store c)\<rparr>"
  have q0: "queued (pc_config c) (w 0) (vs 0) (pc_store c)" using Suc.prems(1) by force
  have less: "\<not> needed \<le> capacity (pc_config c) - length (vs 0)" using Suc.prems(4) by fastforce
  have d: "pc_config ?d = pc_config c" "pc_recovery_bias ?d = 0" "pc_store ?d = env_yield env m (pc_store c)"
    using Suc.prems(2) by (simp_all add: refreshed_def)
  have "\<forall>j \<le> k. queued (pc_config ?d) (w (Suc j)) (vs (Suc j)) (turn_store env m (pc_store ?d) j)"
  proof (intro allI impI)
    fix j assume "j \<le> k"
    with Suc.prems(1) have "queued (pc_config c) (w (Suc j)) (vs (Suc j)) (turn_store env n (pc_store c) (Suc j))" by blast
    then show "queued (pc_config ?d) (w (Suc j)) (vs (Suc j)) (turn_store env m (pc_store ?d) j)" using n d by simp
  qed
  moreover have "k < m" using Suc.prems(3) n by simp
  moreover have "\<forall>j < k. capacity (pc_config ?d) - length (vs (Suc j)) < needed" using Suc.prems(4) d(1) by auto
  moreover have "needed \<le> capacity (pc_config ?d) - length (vs (Suc k))" using Suc.prems(5) d(1) by simp
  ultimately obtain e where e: "wait_for_space_until io env needed m ?d = (Ok (m - Suc k), e)"
    "e = refreshed (w (Suc k)) (length (vs (Suc k))) (?d\<lparr>pc_store := turn_store env m (pc_store ?d) k\<rparr>)"
    using Suc.IH [of ?d "\<lambda>j. w (Suc j)" "\<lambda>j. vs (Suc j)" m] d(2) by blast
  have "e = refreshed (w (Suc k)) (length (vs (Suc k))) (c\<lparr>pc_store := turn_store env n (pc_store c) (Suc k)\<rparr>)"
    using e(2) n by (simp add: refreshed_def pcapacity_def)
  moreover have "wait_for_space_until io env needed n c = (Ok (n - Suc (Suc k)), e)"
    using refresh_room [OF q0 Suc.prems(2)] less e(1) n by simp
  ultimately show ?case by blast
qed

text \<open>No turn with room: the deadline passes.\<close>

lemma wait_in_vain:
  assumes "\<forall>j < n. queued (pc_config c) (w j) (vs j) (turn_store env n (pc_store c) j)"
    and "pc_recovery_bias c = 0" "\<forall>j < n. capacity (pc_config c) - length (vs j) < needed"
  shows "\<exists>d. wait_for_space_until io env needed n c = (ChanErr BufferFull, d) \<and>
    pc_store d = turn_store env n (pc_store c) n \<and> pc_next_seq d = pc_next_seq c"
  using assms
proof (induction n arbitrary: c w vs)
  case 0
  then show ?case by simp
next
  case (Suc n)
  let ?d = "(refreshed (w 0) (length (vs 0)) c)\<lparr>pc_store := env_yield env n (pc_store c)\<rparr>"
  have q0: "queued (pc_config c) (w 0) (vs 0) (pc_store c)" using Suc.prems(1) by force
  have less: "\<not> needed \<le> capacity (pc_config c) - length (vs 0)" using Suc.prems(3) by fastforce
  have d: "pc_config ?d = pc_config c" "pc_recovery_bias ?d = 0" "pc_store ?d = env_yield env n (pc_store c)"
    "pc_next_seq ?d = pc_next_seq c"
    using Suc.prems(2) by (simp_all add: refreshed_def)
  have "\<forall>j < n. queued (pc_config ?d) (w (Suc j)) (vs (Suc j)) (turn_store env n (pc_store ?d) j)"
  proof (intro allI impI)
    fix j assume "j < n"
    then have "Suc j < Suc n" by simp
    with Suc.prems(1) have "queued (pc_config c) (w (Suc j)) (vs (Suc j)) (turn_store env (Suc n) (pc_store c) (Suc j))" by blast
    then show "queued (pc_config ?d) (w (Suc j)) (vs (Suc j)) (turn_store env n (pc_store ?d) j)" using d by simp
  qed
  moreover have "\<forall>j < n. capacity (pc_config ?d) - length (vs (Suc j)) < needed" using Suc.prems(3) d(1) by auto
  ultimately obtain e where "wait_for_space_until io env needed n ?d = (ChanErr BufferFull, e)"
    "pc_store e = turn_store env n (pc_store ?d) n" "pc_next_seq e = pc_next_seq ?d"
    using Suc.IH [of ?d "\<lambda>j. w (Suc j)" "\<lambda>j. vs (Suc j)"] d(2) by blast
  with refresh_room [OF q0 Suc.prems(2)] less d show ?case by simp
qed

end

section \<open>The consumer's turns\<close>

text \<open>What a producer finds while it waits and the consumer receives: in turn \<open>j\<close> the messages from
  \<open>gone j\<close> on are left, the head word is as it was.\<close>

definition consumer_runs ::
  "'s region_io_ops \<Rightarrow> ('s \<Rightarrow> bool) \<Rightarrow> ('s \<Rightarrow> bytes) \<Rightarrow> 's channel_env \<Rightarrow> spsc_config \<Rightarrow> u64 \<Rightarrow> u64 \<Rightarrow> bytes list \<Rightarrow>
   (nat \<Rightarrow> nat) \<Rightarrow> nat \<Rightarrow> 's \<Rightarrow> bool" where
  "consumer_runs io ok mem env cfg h sq ms gone n s \<longleftrightarrow> gone 0 = 0 \<and>
     (\<forall>j < n. gone j \<le> length ms \<and> (\<exists>w. rg_head w = h \<and>
        store_holds io ok mem (env_crc env) cfg w (sq + word_of_nat (gone j)) (drop (gone j) ms) (turn_store env n s j)))"

text \<open>The slots a message needs are free in turn \<open>j\<close>.\<close>

definition room_in_turn :: "spsc_config \<Rightarrow> bytes list \<Rightarrow> (nat \<Rightarrow> nat) \<Rightarrow> bytes \<Rightarrow> nat \<Rightarrow> bool" where
  "room_in_turn cfg ms gone m j \<longleftrightarrow> used_slots cfg (drop (gone j) ms) + slots_of cfg m \<le> capacity cfg"

context region_io
begin

lemma runs_queued:
  assumes run: "consumer_runs io inv mem env cfg h sq ms gone n s"
  shows "\<exists>w vs. \<forall>j < n. queued cfg (w j) (vs j) (turn_store env n s j) \<and> length (vs j) = used_slots cfg (drop (gone j) ms) \<and>
    rg_head (w j) = h \<and> sholds (env_crc env) cfg (w j) (sq + word_of_nat (gone j)) (drop (gone j) ms) (turn_store env n s j)"
proof -
  have "\<exists>wj vj. j < n \<longrightarrow> queued cfg wj vj (turn_store env n s j) \<and> length vj = used_slots cfg (drop (gone j) ms) \<and>
    rg_head wj = h \<and> sholds (env_crc env) cfg wj (sq + word_of_nat (gone j)) (drop (gone j) ms) (turn_store env n s j)" for j
  proof (cases "j < n")
    case True
    with run obtain w where w: "rg_head w = h"
      "sholds (env_crc env) cfg w (sq + word_of_nat (gone j)) (drop (gone j) ms) (turn_store env n s j)"
      by (auto simp: consumer_runs_def)
    then obtain ws where "queued cfg w (map (\<lambda>(q, f). committed_view q f) ws) (turn_store env n s j)"
      "stored (env_crc env) cfg (sq + word_of_nat (gone j)) (drop (gone j) ms) ws" by (auto simp: store_holds_def)
    with stored_length [OF _ sholds_used(2) [OF w(2)]] w show ?thesis by force
  qed simp
  then show ?thesis by metis
qed

lemma blocked_send:
  assumes run: "consumer_runs io inv mem env cfg (rg_head w) sq ms gone (env_rounds env) (pc_store c)"
    and s: "sholds (env_crc env) cfg w sq ms (pc_store c)"
    and c: "producer_at cfg w (sq + word_of_nat (length ms)) c" and open_: "\<not> pc_closed c"
    and mp: "\<not> multi_producer cfg" and bp: "backpressure cfg = Block" "timeout cfg = Some limit"
    and small: "slot_size cfg + FRAME_HEADER_LEN < 2 ^ 32" and m: "length m \<le> isize_max" "send_plan_of cfg (length m) = Ok plan"
    and count: "unat (rg_head w) + capacity cfg < 2 ^ 64" and full: "\<not> room_in_turn cfg ms (\<lambda>_. 0) m 0"
  shows "k < env_rounds env \<Longrightarrow> room_in_turn cfg ms gone m k \<Longrightarrow> \<forall>j < k. \<not> room_in_turn cfg ms gone m j \<Longrightarrow>
      \<exists>d w'. psend io env fuel m c = (Ok (), d) \<and>
        sholds (env_crc env) cfg w' (sq + word_of_nat (gone k)) (drop (gone k) ms @ [m]) (pc_store d) \<and>
        producer_at cfg w' (sq + word_of_nat (length ms) + 1) d"
    "\<forall>j < env_rounds env. \<not> room_in_turn cfg ms gone m j \<Longrightarrow>
      \<exists>d. psend io env fuel m c = (ChanErr BufferFull, d) \<and> pc_next_seq d = pc_next_seq c \<and>
        pc_store d = turn_store env (env_rounds env) (pc_store c) (env_rounds env)"
proof -
  let ?n = "env_rounds env" and ?need = "needed_slots plan"
  have pc: "pc_config c = cfg" "pc_recovery_bias c = 0" using c by (simp_all add: producer_at_def)
  note u = sholds_used [OF s]
  from s obtain ws where ws: "queued cfg w (map (\<lambda>(q, f). committed_view q f) ws) (pc_store c)" "stored (env_crc env) cfg sq ms ws"
    by (auto simp: store_holds_def)
  have len: "length ws = used_slots cfg ms" using stored_length [OF ws(2) u(2)] .
  have need: "?need \<le> capacity cfg" using needed_slots_bounds(2) [OF m(2) u(2)] .
  let ?r = "refreshed w (length (map (\<lambda>(q, f). committed_view q f) ws)) c"
  have qr: "queued (pc_config c) w (map (\<lambda>(q, f). committed_view q f) ws) (pc_store c)" using ws(1) pc by simp
  note r = refresh_queued [OF qr pc(2)]
  have rc: "pc_config ?r = cfg" "pc_recovery_bias ?r = 0" "pc_store ?r = pc_store c" "pc_next_seq ?r = pc_next_seq c"
    using pc by (simp_all add: refreshed_def)
  have none: "guard_room ?r < ?need"
    using r(3) full len pc m(2) u(1) by (simp add: room_in_turn_def)
  have prep: "pprepare_send_slots io env fuel ?need ?r =
      (case wait_for_space_until io env ?need ?n ?r of (Ok _, d) \<Rightarrow> (Ok True, d) | (Err e, d) \<Rightarrow> (Err e, d)
        | (Panicked, d) \<Rightarrow> (Panicked, d) | (Diverged, d) \<Rightarrow> (Diverged, d))"
    using need none bp rc(1)
    by (auto simp: pprepare_send_slots_def pwait_for_space_def split: outcome.split prod.split)
  from runs_queued [OF run] obtain v vs where
    v: "\<forall>j < ?n. queued cfg (v j) (vs j) (turn_store env ?n (pc_store c) j) \<and> length (vs j) = used_slots cfg (drop (gone j) ms) \<and>
      rg_head (v j) = rg_head w \<and>
      sholds (env_crc env) cfg (v j) (sq + word_of_nat (gone j)) (drop (gone j) ms) (turn_store env ?n (pc_store c) j)" by blast
  have room: "room_in_turn cfg ms gone m j \<longleftrightarrow> ?need \<le> capacity cfg - length (vs j)" if "j < ?n" for j
  proof -
    have "used_slots cfg (drop (gone j) ms) \<le> capacity cfg" using v sholds_used(1) that by blast
    then show ?thesis using v that m(2) by (auto simp: room_in_turn_def)
  qed
  have psend: "psend io env fuel m c = send_spsc io env fuel m plan ?r"
    using r(1) open_ m(2) mp rc(1) by (simp add: psend_def)
  show "\<exists>d. psend io env fuel m c = (ChanErr BufferFull, d) \<and> pc_next_seq d = pc_next_seq c \<and>
      pc_store d = turn_store env ?n (pc_store c) ?n" if no: "\<forall>j < ?n. \<not> room_in_turn cfg ms gone m j"
  proof -
    have "\<forall>j < ?n. capacity (pc_config ?r) - length (vs j) < ?need" using no room rc(1) by fastforce
    with wait_in_vain [of ?n ?r v vs env ?need] v rc obtain d where
      "wait_for_space_until io env ?need ?n ?r = (ChanErr BufferFull, d)"
      "pc_store d = turn_store env ?n (pc_store c) ?n" "pc_next_seq d = pc_next_seq c" by auto
    with prep psend show ?thesis by (simp add: send_spsc_def)
  qed
  assume k: "k < ?n" "room_in_turn cfg ms gone m k" "\<forall>j < k. \<not> room_in_turn cfg ms gone m j"
  have "\<forall>j < k. capacity (pc_config ?r) - length (vs j) < ?need" using k(1,3) room rc(1) by fastforce
  moreover have "?need \<le> capacity (pc_config ?r) - length (vs k)" using k(1,2) room rc(1) by auto
  moreover have "\<forall>j \<le> k. queued (pc_config ?r) (v j) (vs j) (turn_store env ?n (pc_store ?r) j)" using v k(1) rc by auto
  ultimately obtain d where d: "wait_for_space_until io env ?need ?n ?r = (Ok (?n - Suc k), d)"
    "d = refreshed (v k) (length (vs k)) (?r\<lparr>pc_store := turn_store env ?n (pc_store ?r) k\<rparr>)"
    using wait_until_room [of k ?r v vs env ?n ?need] rc(2) k(1) by blast
  have vk: "rg_head (v k) = rg_head w"
    "sholds (env_crc env) cfg (v k) (sq + word_of_nat (gone k)) (drop (gone k) ms) (turn_store env ?n (pc_store c) k)"
    using v k(1) by blast+
  have dk: "pc_config d = cfg" "pc_head_cursor d = rg_head (v k)" "pc_store d = turn_store env ?n (pc_store c) k"
    using rc d(2) by (simp_all add: refreshed_def)
  have gone: "gone k \<le> length ms" using run k(1) by (simp add: consumer_runs_def)
  have sq: "sq + word_of_nat (gone k) + word_of_nat (length (drop (gone k) ms)) = sq + word_of_nat (length ms)"
    using gone by (simp add: add.assoc flip: of_nat_add)
  have hold: "sholds (env_crc env) cfg (v k) (sq + word_of_nat (gone k)) (drop (gone k) ms) (pc_store d)"
    using vk(2) dk(3) by simp
  have prod: "producer_at cfg (v k) (sq + word_of_nat (gone k) + word_of_nat (length (drop (gone k) ms))) d"
    unfolding sq using c vk(1) d(2) by (simp add: producer_at_def refreshed_def)
  have fit: "used_slots cfg (drop (gone k) ms) + ?need \<le> capacity cfg" using k(2) m(2) by (simp add: room_in_turn_def)
  have cnt: "unat (rg_head (v k)) + capacity cfg < 2 ^ 64" using count vk(1) by simp
  obtain fs where fs: "encode_message_frames (env_crc env) cfg plan (pc_next_seq d) m = Ok fs"
    using encode_message_frames_Ok [OF m(2) u(2) m(1)] by metis
  let ?t = "d\<lparr>pc_next_seq := pc_next_seq d + 1\<rparr>"
  from append_at [OF hold prod dk(2) small m fit cnt fs, of "stamp env ?need ?t"] obtain e w' where
    e: "seq (for_each fs (write_frame_at_head io (pc_next_seq d) (stamp env ?need ?t)))
          (publish_head io fs (pc_head d)) ?t = (Ok (), e)"
      "sholds (env_crc env) cfg w' (sq + word_of_nat (gone k)) (drop (gone k) ms @ [m]) (pc_store e)"
      "producer_at cfg w' (sq + word_of_nat (gone k) + word_of_nat (length (drop (gone k) ms @ [m]))) e" by blast
  have "sq + word_of_nat (gone k) + word_of_nat (length (drop (gone k) ms @ [m])) = sq + word_of_nat (length ms) + 1"
    unfolding sq [symmetric] by (simp add: add.assoc)
  note e3 = e(3) [unfolded this]
  have "send_spsc io env fuel m plan ?r = (Ok (), e)"
    using prep d(1) fs e(1) dk(1) by (simp add: send_spsc_def take_sequence_def)
  with psend e(2) e3 show "\<exists>d w'. psend io env fuel m c = (Ok (), d) \<and>
        sholds (env_crc env) cfg w' (sq + word_of_nat (gone k)) (drop (gone k) ms @ [m]) (pc_store d) \<and>
        producer_at cfg w' (sq + word_of_nat (length ms) + 1) d" by auto
qed

end

end
