(* ===== verification/Persistent_Channel_Properties.thy ===== *)
theory Persistent_Channel_Properties
  imports Persistent_Drop Persistent_Waiting
begin

text \<open>
  The properties of the persistent channel on memory-mapped files, for a producer and a consumer with
  a handle each: construction, the bounded queue they implement, recovery when one of them is
  restarted, waiting for room, and the two ways in which a consumer is cut off for good.
\<close>

section \<open>Construction\<close>

lemma mapped_create:
  assumes "region_fits cfg"
  shows "\<exists>t. pchannel_create mmap_io polls view (MmapSlotStorage_create False exist) self epoch cfg =
      Ok (fresh_handle t cfg self epoch) \<and>
    mmap.ring (capacity cfg) (region_slot_len cfg) empty_words (replicate (capacity cfg) free_view) t \<and>
    published mmap_io (multi_producer cfg) t \<and> map_capacity t = capacity cfg \<and> map_slot_size t = region_slot_len cfg \<and>
    map_total_len t = region_bytes cfg \<and> \<not> map_poisoned t"
proof -
  note g = region_geometry [OF assms] and n = new_mapping_layout [OF assms]
  have "check_geometry (capacity cfg) (region_slot_len cfg) = Ok ()"
    using assms by (simp add: check_geometry_def region_fits_def)
  then have new: "MmapSlotStorage_create False exist (capacity cfg) (region_slot_len cfg) (region_bytes cfg) = Ok (new_mapping cfg)"
    by (simp add: MmapSlotStorage_create_def new_mapping_def)
  from mmap.initialize_ring [OF n(1,3) _ _ refl] n(2) obtain t where
    t: "initialize_region mmap_io polls view cfg (new_mapping cfg) = (Ok (), t)"
      "mmap.ring (capacity cfg) (region_slot_len cfg) empty_words (replicate (capacity cfg) free_view) t"
      "published mmap_io (multi_producer cfg) t" by fastforce
  have "region_layout mmap_io mapped_inv mapped_mem (capacity cfg) (region_slot_len cfg) t"
    using mmap.ring_layout [OF t(2)] .
  then have lay: "mapped_inv t" "length (mapped_mem t) = region_bytes cfg" "map_capacity t = capacity cfg" "map_slot_size t = region_slot_len cfg" "\<not> map_poisoned t"
    by (simp_all add: region_layout_def mmap_io_def mapped_io_def mapped_inv_def region_bytes_def)
  then have "map_total_len t = region_bytes cfg" by (simp add: mapped_inv_def mapped_mem_def)
  with t g new lay show ?thesis
    by (intro exI [of _ t]) (simp add: pchannel_create_def pregion_create_def new_initialized_def)
qed

text \<open>A process that opens the file the creator mapped.\<close>

definition file_of :: "mapped_slot_storage \<Rightarrow> usize \<Rightarrow> usize \<Rightarrow> usize \<Rightarrow> mapped_slot_storage result" where
  "file_of t = MmapSlotStorage_open 0 (\<lambda>_. length (map_bytes t)) (Some (map_bytes t))"

lemma mapped_open:
  assumes fit: "region_fits cfg" and t: "mapped_inv t" "map_capacity t = capacity cfg" "map_slot_size t = region_slot_len cfg"
      "map_total_len t = region_bytes cfg" "published mmap_io (multi_producer cfg) t"
  shows "pchannel_open mmap_io env polls (\<lambda>_. t) (file_of t) self epoch cfg = opened mmap_io env self epoch cfg t"
proof -
  note g = region_geometry [OF fit]
  have "check_geometry (capacity cfg) (region_slot_len cfg) = Ok ()"
    using fit by (simp add: check_geometry_def region_fits_def)
  then have "file_of t (capacity cfg) (region_slot_len cfg) (region_bytes cfg) = Ok t"
    using t by (simp add: file_of_def MmapSlotStorage_open_def mapped_inv_def)
  with g(2-4) wait_published [where view = "\<lambda>_. t", OF t(5)] fit show ?thesis
    by (simp add: pchannel_open_def pregion_create_def validate_config_def region_fits_def
        del: wait_initialized.simps validate_config_Ok)
qed

lemma mapped_pair:
  assumes fit: "region_fits cfg" and cfg: "shared_config cfg"
  shows "\<exists>p q. pchannel_create mmap_io polls view (MmapSlotStorage_create False exist) self epoch cfg = Ok p \<and>
    pchannel_open mmap_io env polls' (\<lambda>_. pc_store p) (file_of (pc_store p)) self' epoch' cfg = Ok q \<and>
    duplex_holds mmap_io mapped_inv mapped_mem crc \<lparr>dx_store = pc_store p, dx_producer = p, dx_consumer = q\<rparr> [] \<and>
    duplex_holds mmap_io mapped_inv mapped_mem crc \<lparr>dx_store = pc_store p, dx_producer = q, dx_consumer = p\<rparr> [] \<and>
    pc_config p = cfg \<and> \<not> pc_closed p \<and> words_of (mapped_mem (pc_store p)) = empty_words"
proof -
  from mapped_create [OF fit, of polls view exist self epoch] obtain t where
    t: "pchannel_create mmap_io polls view (MmapSlotStorage_create False exist) self epoch cfg = Ok (fresh_handle t cfg self epoch)"
      "mmap.ring (capacity cfg) (region_slot_len cfg) empty_words (replicate (capacity cfg) free_view) t"
      "published mmap_io (multi_producer cfg) t" "map_capacity t = capacity cfg" "map_slot_size t = region_slot_len cfg"
      "map_total_len t = region_bytes cfg" by blast
  have inv: "mapped_inv t" using mmap.ring_layout [OF t(2)] by (simp add: region_layout_def)
  have st: "pc_store (fresh_handle t cfg self epoch) = t" "pc_config (fresh_handle t cfg self epoch) = cfg"
    "\<not> pc_closed (fresh_handle t cfg self epoch)" by (simp_all add: fresh_handle_def)
  have "words_of (mapped_mem t) = empty_words" using t(2) by (simp add: at_ring_def)
  from mmap.fresh_pair [OF t(2) cfg, of env self' epoch' crc self epoch] obtain q where
    "opened mmap_io env self' epoch' cfg t = Ok q"
    "duplex_holds mmap_io mapped_inv mapped_mem crc \<lparr>dx_store = t, dx_producer = fresh_handle t cfg self epoch, dx_consumer = q\<rparr> []"
    "duplex_holds mmap_io mapped_inv mapped_mem crc \<lparr>dx_store = t, dx_producer = q, dx_consumer = fresh_handle t cfg self epoch\<rparr> []"
    by blast
  with \<open>words_of (mapped_mem t) = empty_words\<close> t(1) mapped_open [OF fit inv t(4-6,3), of env polls' self' epoch'] st
  show ?thesis by (intro exI [of _ "fresh_handle t cfg self epoch"] exI [of _ q]) simp
qed

subsection \<open>A small channel, for the witnesses\<close>

definition small_config :: "backpressure \<Rightarrow> spsc_config" where
  "small_config bp = \<lparr>capacity = 1, slot_size = 4, backpressure = bp, timeout = Some 5, multi_producer = False\<rparr>"

lemma small_config_simps [simp]:
  "capacity (small_config bp) = 1" "slot_size (small_config bp) = 4" "backpressure (small_config bp) = bp"
  "timeout (small_config bp) = Some 5" "\<not> multi_producer (small_config bp)"
  by (simp_all add: small_config_def)

abbreviation calm :: "mapped_slot_storage channel_env" where
  "calm \<equiv> \<lparr>env_crc = (\<lambda>_. 0), env_probe = (\<lambda>_. Err ()), env_second = (\<lambda>_ _. Panicked), env_now = 0,
     env_yield = (\<lambda>_ s. s), env_rounds = 0\<rparr>"

lemma quiet_calm [simp]: "quiet calm"
  by (simp add: quiet_def)

lemma small_fits [simp]: "region_fits (small_config bp)"
  by (simp add: region_fits_def FRAME_HEADER_LEN_def layout_consts usize_max_def)

lemma small_shared [simp]: "bp \<noteq> DropOldest \<Longrightarrow> shared_config (small_config bp)"
  by (simp add: shared_config_def FRAME_HEADER_LEN_def)

lemma small_plan [simp]:
  "length m \<le> 4 \<Longrightarrow> send_plan_of (small_config bp) (length m) = Ok \<lparr>chunk_payload_size = 4, needed_slots = 1\<rparr>"
  "length m \<le> 4 \<Longrightarrow> slots_of (small_config bp) m = 1"
  by (simp_all add: send_plan_of_def slots_of_def)

lemma first_start:
  assumes "region_fits cfg"
  shows "\<exists>t q. mmap.sholds crc cfg empty_words 0 [] t \<and> opened mmap_io env self epoch cfg t = Ok q \<and>
     pc_config q = cfg \<and> pc_recovery_bias q = 0 \<and> \<not> pc_closed q \<and> pc_resync_expected q"
proof -
  from mapped_create [OF assms, of 0 "\<lambda>_. undefined" False self epoch] obtain t where
    "mmap.ring (capacity cfg) (region_slot_len cfg) empty_words (replicate (capacity cfg) free_view) t" by blast
  from mmap.empty_ring_holds [OF this] have s: "mmap.sholds crc cfg empty_words 0 [] t" .
  from mmap.opened_holds [OF s, of env self epoch] s show ?thesis by fastforce
qed

lemmas small_start = first_start [OF small_fits]

text \<open>One message has gone through; either handle expects the next to have the number 1.\<close>

lemma first_round:
  assumes fit: "region_fits cfg" and cfg: "\<not> multi_producer cfg" "slot_size cfg + FRAME_HEADER_LEN < 2 ^ 32" "capacity cfg < 2 ^ 64"
  shows "\<exists>(p :: mapped_slot_storage persistent_channel) q w. mmap.sholds (env_crc calm) cfg w 1 [] (pc_store q) \<and> producer_at cfg w 1 p \<and>
     \<not> pc_closed p \<and> consumer_at cfg 1 q \<and> \<not> pc_resync_expected q \<and> \<not> pc_closed q \<and> unat (rg_head w) \<le> capacity cfg"
proof -
  from first_start [OF fit, of "env_crc calm" calm undefined 0] obtain t and q :: "mapped_slot_storage persistent_channel" where
    t: "mmap.sholds (env_crc calm) cfg empty_words 0 [] t" "pc_config q = cfg" "pc_recovery_bias q = 0"
      "\<not> pc_closed q" "pc_resync_expected q" by blast
  let ?p = "fresh_handle t cfg undefined 0"
  have p: "mmap.sholds (env_crc calm) cfg empty_words 0 [] (pc_store ?p)"
    "producer_at cfg empty_words (0 + word_of_nat (length ([] :: bytes list))) ?p" "\<not> pc_closed ?p"
    using t(1) by (simp_all add: fresh_handle_def producer_at_def empty_words_def)
  have pos: "Suc 0 \<le> slot_size cfg" "Suc 0 \<le> capacity cfg" using fit by (simp_all add: region_fits_def)
  then have plan: "send_plan_of cfg (length [7 :: byte]) = Ok \<lparr>chunk_payload_size = slot_size cfg, needed_slots = 1\<rparr>"
    by (simp add: send_plan_of_def)
  have c: "backpressure cfg = DropOldest \<longrightarrow> used_slots cfg [] + slots_of cfg [7] \<le> capacity cfg"
    "length [7 :: byte] \<le> isize_max" "unat (rg_head empty_words) + capacity cfg < 2 ^ 64"
    using cfg(3) pos slots_of_plan [OF plan] by (simp_all add: isize_max_def empty_words_def)
  from mmap.psend_refines [OF p(1,2) cfg(1,2) c(1) quiet_calm c(2,3), of 0] p(3) plan pos obtain d w where
    d: "mmap.sholds (env_crc calm) cfg w 0 [[7]] (pc_store d)" "producer_at cfg w 1 d" "\<not> pc_closed d"
      "unat (rg_head w) \<le> capacity cfg"
    by (auto simp: queue_send_def empty_words_def)
  let ?q = "q\<lparr>pc_store := pc_store d\<rparr>"
  have c: "mmap.sholds (env_crc calm) cfg w 0 [[7]] (pc_store ?q)" "consumer_at cfg 0 ?q"
    using d(1) t by (simp_all add: consumer_at_def expects_def)
  from mmap.precv_refines [OF c quiet_calm] t(4) obtain e w' where
    e: "mmap.sholds (env_crc calm) cfg w' 1 [] (pc_store e)" "rg_head w' = rg_head w" "consumer_at cfg 1 e"
      "\<not> pc_closed e" "\<not> pc_resync_expected e" by (auto simp: queue_recv_def)
  have "producer_at cfg w' 1 d" using d(2) e(2) by (simp add: producer_at_def)
  with e d(3,4) show ?thesis by (intro exI [of _ d] exI [of _ e] exI [of _ w']) simp
qed

lemma small_round:
  "\<exists>(p :: mapped_slot_storage persistent_channel) q w. mmap.sholds (env_crc calm) (small_config bp) w 1 [] (pc_store q) \<and> producer_at (small_config bp) w 1 p \<and>
     \<not> pc_closed p \<and> consumer_at (small_config bp) 1 q \<and> \<not> pc_resync_expected q \<and> \<not> pc_closed q \<and> unat (rg_head w) \<le> 1"
  using first_round [OF small_fits, of bp] by (simp add: FRAME_HEADER_LEN_def)

section \<open>The bounded queue\<close>

text \<open>Claim C1: the two handles of a channel with one producer implement the bounded message queue. In
  every state of the invariant, and with nobody else acting while a method runs, what a send returns
  and what it leaves in the store is what the queue specification says, for every policy that does
  not drop old messages and on every branch (closed, too large, full, room); so is a receive. Both
  keep the invariant: the messages are in the slots between the shared cursors, each a run of
  committed frames, numbered without gaps.\<close>

theorem persistent_channel_refines_queue:
  assumes "duplex_inv mmap_io mapped_inv mapped_mem (env_crc env) d" and "quiet env"
    and "length m \<le> isize_max" and "head_count mapped_mem d + capacity (duplex_config d) < 2 ^ 64"
  shows "map_prod id (producer_queue mapped_mem) (duplex_send mmap_io env fuel m d) = queue_send m (producer_queue mapped_mem d) \<and>
    duplex_inv mmap_io mapped_inv mapped_mem (env_crc env) (snd (duplex_send mmap_io env fuel m d)) \<and>
    map_prod id (consumer_queue mapped_mem) (duplex_recv mmap_io env d) = queue_recv (consumer_queue mapped_mem d) \<and>
    duplex_inv mmap_io mapped_inv mapped_mem (env_crc env) (snd (duplex_recv mmap_io env d))"
  using mmap.duplex_refines [OF assms(1,2)] assms(3,4) by blast

theorem persistent_channel_refines_queue_witness:
  "\<exists>d. map_prod id (producer_queue mapped_mem) (duplex_send mmap_io calm 0 [1, 2] d) = queue_send [1, 2] (producer_queue mapped_mem d) \<and>
     map_prod id (consumer_queue mapped_mem) (duplex_recv mmap_io calm d) = queue_recv (consumer_queue mapped_mem d)"
proof -
  from small_round [of Raise] obtain p q :: "mapped_slot_storage persistent_channel" and w where
    s: "mmap.sholds (env_crc calm) (small_config Raise) w 1 [] (pc_store q)" "producer_at (small_config Raise) w 1 p"
      "consumer_at (small_config Raise) 1 q" "unat (rg_head w) \<le> 1" by blast
  let ?d = "\<lparr>dx_store = pc_store q, dx_producer = p, dx_consumer = q\<rparr>"
  have cfg: "duplex_config ?d = small_config Raise" using s(2) by (simp add: duplex_config_def producer_at_def)
  have "duplex_inv mmap_io mapped_inv mapped_mem (env_crc calm) ?d"
    unfolding duplex_inv_def duplex_holds_def cfg using s
    by (intro exI [of _ "[]"] exI [of _ w] exI [of _ "1 :: u64"]) simp
  moreover have "head_count mapped_mem ?d \<le> 1" using s(4) mmap.sholds_words [OF s(1)] by (simp add: head_count_def)
  ultimately have "map_prod id (producer_queue mapped_mem) (duplex_send mmap_io calm 0 [1, 2] ?d) =
        queue_send [1, 2] (producer_queue mapped_mem ?d) \<and>
      map_prod id (consumer_queue mapped_mem) (duplex_recv mmap_io calm ?d) = queue_recv (consumer_queue mapped_mem ?d)"
    using persistent_channel_refines_queue [of calm ?d "[1, 2]" 0] cfg by (simp add: isize_max_def)
  then show ?thesis by blast
qed

text \<open>Claim C3: a channel that one process creates and another opens is first in, first out. Creation
  and opening succeed for every configuration whose region fits the address space; then, whichever of
  the two produces, over every run of sends that find room and of receives the messages come out
  once and in the order they were sent, and what has not come out is still in the ring.\<close>

theorem persistent_channel_fifo:
  assumes "region_fits cfg" and "shared_config cfg" and "quiet env"
  shows "\<exists>p q. pchannel_create mmap_io polls view (MmapSlotStorage_create False exist) self epoch cfg = Ok p \<and>
    pchannel_open mmap_io env polls' (\<lambda>_. pc_store p) (file_of (pc_store p)) self' epoch' cfg = Ok q \<and>
    (\<forall>d ops got t.
       d \<in> {\<lparr>dx_store = pc_store p, dx_producer = p, dx_consumer = q\<rparr>, \<lparr>dx_store = pc_store p, dx_producer = q, dx_consumer = p\<rparr>} \<and>
       sends_fit (duplex_send mmap_io env fuel) (duplex_recv mmap_io env) (duplex_room mapped_mem) ops d \<and>
       run_channel (duplex_send mmap_io env fuel) (duplex_recv mmap_io env) ops d = (got, t) \<longrightarrow>
       got @ duplex_messages mapped_mem t = sent_messages ops)"
proof -
  from mapped_pair [OF assms(1,2), of polls view exist self epoch env polls' self' epoch' "env_crc env"] obtain p q where
    pq: "pchannel_create mmap_io polls view (MmapSlotStorage_create False exist) self epoch cfg = Ok p"
      "pchannel_open mmap_io env polls' (\<lambda>_. pc_store p) (file_of (pc_store p)) self' epoch' cfg = Ok q"
      "duplex_holds mmap_io mapped_inv mapped_mem (env_crc env) \<lparr>dx_store = pc_store p, dx_producer = p, dx_consumer = q\<rparr> []"
      "duplex_holds mmap_io mapped_inv mapped_mem (env_crc env) \<lparr>dx_store = pc_store p, dx_producer = q, dx_consumer = p\<rparr> []"
    by blast
  have "got @ duplex_messages mapped_mem t = sent_messages ops"
    if "d \<in> {\<lparr>dx_store = pc_store p, dx_producer = p, dx_consumer = q\<rparr>, \<lparr>dx_store = pc_store p, dx_producer = q, dx_consumer = p\<rparr>}"
      and fit: "sends_fit (duplex_send mmap_io env fuel) (duplex_recv mmap_io env) (duplex_room mapped_mem) ops d"
      and run: "run_channel (duplex_send mmap_io env fuel) (duplex_recv mmap_io env) ops d = (got, t)" for d ops got t
  proof -
    from that(1) pq(3,4) have h: "duplex_holds mmap_io mapped_inv mapped_mem (env_crc env) d []" by auto
    then have "quiet env \<and> duplex_inv mmap_io mapped_inv mapped_mem (env_crc env) d"
      using assms(3) by (auto simp: duplex_inv_def)
    from mmap.duplex.run_fifo [OF this fit run] mmap.holds_messages(1) [OF h] show ?thesis by simp
  qed
  with pq(1,2) show ?thesis by blast
qed

theorem persistent_channel_fifo_witness:
  "\<exists>p q got t. pchannel_create mmap_io 0 (\<lambda>_. undefined) (MmapSlotStorage_create False True) undefined 0 (small_config Raise) = Ok p \<and>
     pchannel_open mmap_io calm 0 (\<lambda>_. pc_store p) (file_of (pc_store p)) undefined 0 (small_config Raise) = Ok q \<and>
     run_channel (duplex_send mmap_io calm 0) (duplex_recv mmap_io calm) [SendOp [1, 2], RecvOp]
       \<lparr>dx_store = pc_store p, dx_producer = p, dx_consumer = q\<rparr> = (got, t) \<and>
     got @ duplex_messages mapped_mem t = [[1, 2]]"
proof -
  let ?cfg = "small_config Raise" and ?ops = "[SendOp [1, 2], RecvOp]"
  from persistent_channel_fifo [OF small_fits small_shared quiet_calm,
      of Raise 0 "\<lambda>_. undefined" True undefined 0 0 undefined 0 0] obtain p q where
    pq: "pchannel_create mmap_io 0 (\<lambda>_. undefined) (MmapSlotStorage_create False True) undefined 0 ?cfg = Ok p"
      "pchannel_open mmap_io calm 0 (\<lambda>_. pc_store p) (file_of (pc_store p)) undefined 0 ?cfg = Ok q"
      "\<And>d ops got t.
       d \<in> {\<lparr>dx_store = pc_store p, dx_producer = p, dx_consumer = q\<rparr>, \<lparr>dx_store = pc_store p, dx_producer = q, dx_consumer = p\<rparr>} \<and>
       sends_fit (duplex_send mmap_io calm 0) (duplex_recv mmap_io calm) (duplex_room mapped_mem) ops d \<and>
       run_channel (duplex_send mmap_io calm 0) (duplex_recv mmap_io calm) ops d = (got, t) \<Longrightarrow>
       got @ duplex_messages mapped_mem t = sent_messages ops" by force
  from mapped_pair [OF small_fits small_shared, of Raise 0 "\<lambda>_. undefined" True undefined 0 calm 0 undefined 0 "env_crc calm"] pq(1,2)
  have h: "duplex_holds mmap_io mapped_inv mapped_mem (env_crc calm) \<lparr>dx_store = pc_store p, dx_producer = p, dx_consumer = q\<rparr> []"
    "pc_config p = ?cfg" "\<not> pc_closed p" "words_of (mapped_mem (pc_store p)) = empty_words" by auto
  let ?d = "\<lparr>dx_store = pc_store p, dx_producer = p, dx_consumer = q\<rparr>"
  have "sends_fit (duplex_send mmap_io calm 0) (duplex_recv mmap_io calm) (duplex_room mapped_mem) ?ops ?d"
    using h mmap.holds_messages(1) [OF h(1)]
    by (simp add: duplex_room_def head_count_def empty_words_def duplex_config_def isize_max_def
        small_plan(1) [of "[1, 2]", simplified])
  moreover obtain got t where "run_channel (duplex_send mmap_io calm 0) (duplex_recv mmap_io calm) ?ops ?d = (got, t)" by force
  ultimately have "run_channel (duplex_send mmap_io calm 0) (duplex_recv mmap_io calm) ?ops ?d = (got, t) \<and>
      got @ duplex_messages mapped_mem t = [[1, 2]]" using pq(3) [of ?d ?ops got t] by simp
  with pq(1,2) show ?thesis by blast
qed

section \<open>Restarts\<close>

text \<open>Claim C6: a restart loses nothing that is in the ring. While messages are queued, either end, or
  both, may be gone and be opened anew: recovery finds the producer's position and next number and
  the number the consumer has to expect, so that the invariant and the queued messages are as they
  were, and sends and receives go on. The bound says that fewer than \<open>2 ^ 63\<close> messages were ever sent.\<close>

theorem reopened_channel_continues:
  assumes "duplex_inv mmap_io mapped_inv mapped_mem crc d" and "duplex_messages mapped_mem d \<noteq> []"
    and "length (duplex_messages mapped_mem d) \<le> unat (pc_next_seq (dx_producer d))"
    and "unat (pc_next_seq (dx_producer d)) < 2 ^ 63"
  shows "\<exists>c. opened mmap_io env self epoch (duplex_config d) (dx_store d) = Ok c \<and>
    (\<forall>e \<in> {d\<lparr>dx_producer := c\<rparr>, d\<lparr>dx_consumer := c\<rparr>, d\<lparr>dx_producer := c, dx_consumer := c\<rparr>}.
       duplex_inv mmap_io mapped_inv mapped_mem crc e \<and> duplex_messages mapped_mem e = duplex_messages mapped_mem d)"
proof -
  from assms(1) obtain ms where ms: "duplex_holds mmap_io mapped_inv mapped_mem crc d ms" by (auto simp: duplex_inv_def)
  note eq = mmap.holds_messages(1) [OF ms]
  from mmap.reopened_holds [OF ms _ _ assms(4), of env self epoch] assms(2,3) eq obtain c where
    "opened mmap_io env self epoch (duplex_config d) (dx_store d) = Ok c"
    "duplex_holds mmap_io mapped_inv mapped_mem crc (d\<lparr>dx_producer := c\<rparr>) ms"
    "duplex_holds mmap_io mapped_inv mapped_mem crc (d\<lparr>dx_consumer := c\<rparr>) ms"
    "duplex_holds mmap_io mapped_inv mapped_mem crc (d\<lparr>dx_producer := c, dx_consumer := c\<rparr>) ms" by auto
  with eq mmap.holds_messages(1) show ?thesis by (fastforce simp: duplex_inv_def)
qed

text \<open>The small channel with a message waiting.\<close>

lemma small_waiting:
  "\<exists>(p :: mapped_slot_storage persistent_channel) q w. mmap.sholds (env_crc calm) (small_config bp) w 1 [[3]] (pc_store p) \<and>
     producer_at (small_config bp) w 2 p \<and> \<not> pc_closed p \<and> consumer_at (small_config bp) 1 q \<and>
     \<not> pc_resync_expected q \<and> \<not> pc_closed (q :: mapped_slot_storage persistent_channel) \<and> unat (rg_head w) \<le> 2"
proof -
  let ?cfg = "small_config bp"
  from small_round [of bp] obtain p q :: "mapped_slot_storage persistent_channel" and w where
    s: "mmap.sholds (env_crc calm) ?cfg w 1 [] (pc_store q)" "producer_at ?cfg w 1 p" "\<not> pc_closed p"
      "consumer_at ?cfg 1 q" "\<not> pc_resync_expected q" "\<not> pc_closed q" "unat (rg_head w) \<le> 1" by blast
  let ?p = "p\<lparr>pc_store := pc_store q\<rparr>"
  have p: "mmap.sholds (env_crc calm) ?cfg w 1 [] (pc_store ?p)"
    "producer_at ?cfg w (1 + word_of_nat (length ([] :: bytes list))) ?p"
    using s(1,2) by (simp_all add: producer_at_def)
  have m: "length [3 :: byte] \<le> isize_max" by (simp add: isize_max_def)
  have cfg: "\<not> multi_producer ?cfg" "slot_size ?cfg + FRAME_HEADER_LEN < 2 ^ 32"
    "backpressure ?cfg = DropOldest \<longrightarrow> used_slots ?cfg [] + slots_of ?cfg [3] \<le> capacity ?cfg"
    "unat (rg_head w) + capacity ?cfg < 2 ^ 64"
    using s(7) by (simp_all add: FRAME_HEADER_LEN_def slots_of_def send_plan_of_def)
  from mmap.psend_refines [OF p cfg(1-3) quiet_calm m cfg(4), of 0] s(3) obtain d w' where
    "mmap.sholds (env_crc calm) ?cfg w' 1 [[3]] (pc_store d)" "producer_at ?cfg w' 2 d" "\<not> pc_closed d"
    "unat (rg_head w') \<le> unat (rg_head w) + 1"
    by (auto simp: queue_send_def send_plan_of_def)
  with s(4-7) show ?thesis by (intro exI [of _ d] exI [of _ q] exI [of _ w']) simp
qed

theorem reopened_channel_continues_witness:
  "\<exists>(d :: mapped_slot_storage duplex) c. duplex_messages mapped_mem d = [[3]] \<and>
     opened mmap_io calm undefined 0 (duplex_config d) (dx_store d) = Ok c \<and>
     duplex_messages mapped_mem (d\<lparr>dx_producer := c, dx_consumer := c\<rparr>) = [[3]]"
proof -
  let ?cfg = "small_config Raise"
  from small_waiting [of Raise] obtain p q :: "mapped_slot_storage persistent_channel" and w where
    s: "mmap.sholds (env_crc calm) ?cfg w 1 [[3]] (pc_store p)" "producer_at ?cfg w 2 p" "consumer_at ?cfg 1 q" by blast
  let ?d = "\<lparr>dx_store = pc_store p, dx_producer = p, dx_consumer = q\<rparr>"
  have cfg: "duplex_config ?d = ?cfg" using s(2) by (simp add: duplex_config_def producer_at_def)
  have h: "duplex_holds mmap_io mapped_inv mapped_mem (env_crc calm) ?d [[3]]"
    unfolding duplex_holds_def cfg using s by (intro exI [of _ w] exI [of _ "1 :: u64"]) simp
  have n: "unat (pc_next_seq (dx_producer ?d)) = 2" using s(2) by (simp add: producer_at_def)
  have "duplex_inv mmap_io mapped_inv mapped_mem (env_crc calm) ?d" using h by (auto simp: duplex_inv_def)
  from reopened_channel_continues [OF this, of calm undefined 0] mmap.holds_messages(1) [OF h] n
  show ?thesis by (intro exI [of _ ?d]) auto
qed

text \<open>Claim C34: a restart of the producer alone, when the ring is drained, cuts the consumer off. Nothing
  in a drained ring tells the new producer where the numbers had got to, so it starts at zero; its
  send succeeds, but a consumer that has received before expects a later number: its next receive
  answers \<open>SequenceMismatch\<close> with the slot already pinned, and every receive after that answers
  \<open>BufferEmpty\<close>.\<close>

theorem restarted_producer_cuts_consumer_off:
  assumes "duplex_inv mmap_io mapped_inv mapped_mem (env_crc env) d" and "duplex_messages mapped_mem d = []" and "quiet env"
    and "\<not> pc_resync_expected (dx_consumer d)" and "\<not> pc_closed (dx_consumer d)" and "pc_expected_recv_seq (dx_consumer d) \<noteq> 0"
    and "length m \<le> isize_max" and "send_plan_of (duplex_config d) (length m) = Ok plan"
    and "head_count mapped_mem d + capacity (duplex_config d) < 2 ^ 64"
  shows "\<exists>p e. opened mmap_io env self epoch (duplex_config d) (dx_store d) = Ok p \<and>
    duplex_send mmap_io env fuel m (d\<lparr>dx_producer := p\<rparr>) = (Ok (), e) \<and>
    fst (duplex_recv mmap_io env e) = ChanErr (SequenceMismatch (pc_expected_recv_seq (dx_consumer d)) 0) \<and>
    (\<forall>n. recv_after mmap_io env n (snd (duplex_recv mmap_io env e)) = ChanErr BufferEmpty)"
proof -
  from assms(1) obtain ms where ms: "duplex_holds mmap_io mapped_inv mapped_mem (env_crc env) d ms" by (auto simp: duplex_inv_def)
  with assms(2) mmap.holds_messages(1) have "duplex_holds mmap_io mapped_inv mapped_mem (env_crc env) d []" by force
  from mmap.restarted_wedges [OF this assms(3-9)] show ?thesis .
qed

theorem restarted_producer_cuts_consumer_off_witness:
  "\<exists>(d :: mapped_slot_storage duplex) p e. duplex_messages mapped_mem d = [] \<and>
     opened mmap_io calm undefined 0 (duplex_config d) (dx_store d) = Ok p \<and>
     duplex_send mmap_io calm 0 [9] (d\<lparr>dx_producer := p\<rparr>) = (Ok (), e) \<and>
     fst (duplex_recv mmap_io calm e) = ChanErr (SequenceMismatch 1 0) \<and>
     recv_after mmap_io calm 5 (snd (duplex_recv mmap_io calm e)) = ChanErr BufferEmpty"
proof -
  let ?cfg = "small_config Raise"
  from small_round [of Raise] obtain p q :: "mapped_slot_storage persistent_channel" and w where
    s: "mmap.sholds (env_crc calm) ?cfg w 1 [] (pc_store q)" "producer_at ?cfg w 1 p"
      "consumer_at ?cfg 1 q" "\<not> pc_resync_expected q" "\<not> pc_closed q" "unat (rg_head w) \<le> 1" by blast
  let ?d = "\<lparr>dx_store = pc_store q, dx_producer = p, dx_consumer = q\<rparr>"
  have cfg: "duplex_config ?d = ?cfg" using s(2) by (simp add: duplex_config_def producer_at_def)
  have h: "duplex_holds mmap_io mapped_inv mapped_mem (env_crc calm) ?d []"
    unfolding duplex_holds_def cfg using s by (intro exI [of _ w] exI [of _ "1 :: u64"]) simp
  have q: "pc_expected_recv_seq (dx_consumer ?d) = 1" using s(3,4) by (simp add: consumer_at_def expects_def)
  have "head_count mapped_mem ?d \<le> 1" using s(6) mmap.sholds_words [OF s(1)] by (simp add: head_count_def)
  moreover have "duplex_inv mmap_io mapped_inv mapped_mem (env_crc calm) ?d" using h by (auto simp: duplex_inv_def)
  moreover have "send_plan_of (duplex_config ?d) (length [9 :: byte]) = Ok \<lparr>chunk_payload_size = 4, needed_slots = 1\<rparr>"
    unfolding cfg by (rule small_plan) simp
  ultimately show ?thesis
    using restarted_producer_cuts_consumer_off [of calm ?d "[9]" "\<lparr>chunk_payload_size = 4, needed_slots = 1\<rparr>" undefined 0 0]
      mmap.holds_messages(1) [OF h] s(4,5) q cfg
    by (intro exI [of _ ?d]) (auto simp: isize_max_def)
qed

section \<open>Dropping the oldest message\<close>

text \<open>Claim C35: with \<open>DropOldest\<close> a send on a full ring ends and succeeds, and what it drops are whole
  messages from the front, after which the new message is queued. The drop happens in the producer's
  handle: a consumer that expected the first dropped message refuses the next one with
  \<open>SequenceMismatch\<close>, leaves its slot pinned and receives nothing any more, instead of seeing a gap
  in the sequence numbers.\<close>

theorem dropped_message_cuts_consumer_off:
  assumes "store_holds mmap_io mapped_inv mapped_mem (env_crc env) cfg w sq ms (dx_store d)"
    and "producer_at cfg w (sq + word_of_nat (length ms)) (dx_producer d)" and "\<not> pc_closed (dx_producer d)"
    and "consumer_at cfg sq (dx_consumer d)" and "\<not> pc_resync_expected (dx_consumer d)" and "\<not> pc_closed (dx_consumer d)"
    and "\<not> multi_producer cfg" and "backpressure cfg = DropOldest" and "slot_size cfg + FRAME_HEADER_LEN < 2 ^ 32"
    and "length m \<le> isize_max" and "send_plan_of cfg (length m) = Ok plan" and "unat (rg_head w) + capacity cfg < 2 ^ 64"
    and "capacity cfg < used_slots cfg ms + needed_slots plan" and "length ms < fuel" and "quiet env"
  shows "\<exists>e dropped kept. duplex_send mmap_io env fuel m d = (Ok (), e) \<and>
    store_messages mapped_mem cfg (dx_store e) = kept @ [m] \<and> ms = dropped @ kept \<and> dropped \<noteq> [] \<and>
    fst (duplex_recv mmap_io env e) = ChanErr (SequenceMismatch sq (sq + word_of_nat (length dropped))) \<and>
    (\<forall>n. recv_after mmap_io env n (snd (duplex_recv mmap_io env e)) = ChanErr BufferEmpty)"
proof -
  have "pc_config (dx_consumer d) = cfg" "pc_recovery_bias (dx_consumer d) = 0" "pc_expected_recv_seq (dx_consumer d) = sq"
    using assms(4,5) by (simp_all add: consumer_at_def expects_def)
  from mmap.dropped_wedges [OF assms(1-3) this(1,2) assms(5,6) this(3) assms(7-15)] show ?thesis .
qed

theorem dropped_message_cuts_consumer_off_witness:
  "\<exists>(d :: mapped_slot_storage duplex) e. store_messages mapped_mem (small_config DropOldest) (dx_store d) = [[3]] \<and>
     duplex_send mmap_io calm 2 [9] d = (Ok (), e) \<and>
     store_messages mapped_mem (small_config DropOldest) (dx_store e) = [[9]] \<and>
     fst (duplex_recv mmap_io calm e) = ChanErr (SequenceMismatch 1 2) \<and>
     recv_after mmap_io calm 5 (snd (duplex_recv mmap_io calm e)) = ChanErr BufferEmpty"
proof -
  let ?cfg = "small_config DropOldest" and ?plan = "\<lparr>chunk_payload_size = 4, needed_slots = 1\<rparr>"
  from small_waiting [of DropOldest] obtain p q :: "mapped_slot_storage persistent_channel" and w where
    s: "mmap.sholds (env_crc calm) ?cfg w 1 [[3]] (pc_store p)" "producer_at ?cfg w 2 p" "\<not> pc_closed p"
      "consumer_at ?cfg 1 q" "\<not> pc_resync_expected q" "\<not> pc_closed q" "unat (rg_head w) \<le> 2" by blast
  let ?d = "\<lparr>dx_store = pc_store p, dx_producer = p, dx_consumer = q\<rparr>"
  have plan: "send_plan_of ?cfg (length [9 :: byte]) = Ok ?plan" by (rule small_plan) simp
  have "used_slots ?cfg [[3]] = 1" by (simp add: slots_of_def send_plan_of_def)
  then obtain e dropped kept where e: "duplex_send mmap_io calm 2 [9] ?d = (Ok (), e)"
    "store_messages mapped_mem ?cfg (dx_store e) = kept @ [[9]]" "[[3]] = dropped @ kept" "dropped \<noteq> []"
    "fst (duplex_recv mmap_io calm e) = ChanErr (SequenceMismatch 1 (1 + word_of_nat (length dropped)))"
    "\<forall>n. recv_after mmap_io calm n (snd (duplex_recv mmap_io calm e)) = ChanErr BufferEmpty"
    using dropped_message_cuts_consumer_off [of calm ?cfg w 1 "[[3]]" ?d "[9]" ?plan 2] s plan
    by (auto simp: FRAME_HEADER_LEN_def isize_max_def)
  moreover from e(3,4) have "dropped = [[3]]" "kept = []" by (auto simp: Cons_eq_append_conv)
  ultimately show ?thesis using mmap.sholds_used(3) [OF s(1)] by (intro exI [of _ ?d] exI [of _ e]) simp
qed

section \<open>Waiting for room\<close>

text \<open>Claim C11: a blocked send goes through as soon as the consumer has made room, and only the clock
  ends it otherwise. While it waits the store changes under it; suppose the consumer receives, so
  that in turn \<open>j\<close> the messages from \<open>gone j\<close> on are left. The send returns \<open>Ok\<close> in the first turn
  that finds its slots free, within the turns the clock grants, with its message after those left;
  when no turn does, it answers \<open>BufferFull\<close> and has written nothing.\<close>

theorem blocked_send_completes:
  assumes "store_holds mmap_io mapped_inv mapped_mem (env_crc env) cfg w sq ms (pc_store c)"
    and "producer_at cfg w (sq + word_of_nat (length ms)) c" and "\<not> pc_closed c"
    and "\<not> multi_producer cfg" and "backpressure cfg = Block" and "timeout cfg = Some limit"
    and "slot_size cfg + FRAME_HEADER_LEN < 2 ^ 32" and "length m \<le> isize_max" and "send_plan_of cfg (length m) = Ok plan"
    and "unat (rg_head w) + capacity cfg < 2 ^ 64" and "capacity cfg < used_slots cfg ms + needed_slots plan"
    and "consumer_runs mmap_io mapped_inv mapped_mem env cfg (rg_head w) sq ms gone (env_rounds env) (pc_store c)"
  shows "(\<forall>k < env_rounds env. room_in_turn cfg ms gone m k \<and> (\<forall>j < k. \<not> room_in_turn cfg ms gone m j) \<longrightarrow>
      (\<exists>d. psend mmap_io env fuel m c = (Ok (), d) \<and> pc_next_seq d = pc_next_seq c + 1 \<and>
        store_messages mapped_mem cfg (pc_store d) = drop (gone k) ms @ [m])) \<and>
    ((\<forall>j < env_rounds env. \<not> room_in_turn cfg ms gone m j) \<longrightarrow>
      (\<exists>d. psend mmap_io env fuel m c = (ChanErr BufferFull, d) \<and> pc_next_seq d = pc_next_seq c \<and>
        pc_store d = turn_store env (env_rounds env) (pc_store c) (env_rounds env)))"
proof -
  have full: "\<not> room_in_turn cfg ms (\<lambda>_. 0) m 0" using assms(9,11) by (simp add: room_in_turn_def)
  note b = mmap.blocked_send(1) [OF assms(12,1-10) full, of _ fuel] mmap.blocked_send(2) [OF assms(12,1-10) full, of fuel]
  have "pc_next_seq d = pc_next_seq c + 1"
    if "producer_at cfg w' (sq + word_of_nat (length ms) + 1) d" for d w'
    using assms(2) that by (simp add: producer_at_def)
  with b mmap.sholds_used(3) show ?thesis by blast
qed

text \<open>The consumer receives in every turn of the producer's waiting loop.\<close>

abbreviation receiving :: "mapped_slot_storage persistent_channel \<Rightarrow> mapped_slot_storage channel_env" where
  "receiving q \<equiv> calm\<lparr>env_rounds := 2, env_yield := (\<lambda>_ s. pc_store (snd (precv mmap_io calm (q\<lparr>pc_store := s\<rparr>))))\<rparr>"

theorem blocked_send_completes_witness:
  "\<exists>(c :: mapped_slot_storage persistent_channel) q d. store_messages mapped_mem (small_config Block) (pc_store c) = [[3]] \<and>
     psend mmap_io (receiving q) 0 [9] c = (Ok (), d) \<and>
     store_messages mapped_mem (small_config Block) (pc_store d) = [[9]]"
proof -
  let ?cfg = "small_config Block" and ?plan = "\<lparr>chunk_payload_size = 4, needed_slots = 1\<rparr>"
  from small_waiting [of Block] obtain p q :: "mapped_slot_storage persistent_channel" and w where
    s: "mmap.sholds (env_crc calm) ?cfg w 1 [[3]] (pc_store p)" "producer_at ?cfg w 2 p" "\<not> pc_closed p"
      "consumer_at ?cfg 1 q" "unat (rg_head w) \<le> 2" by blast
  let ?q = "q\<lparr>pc_store := pc_store p\<rparr>" and ?gone = "\<lambda>j. if j = 0 then 0 else 1 :: nat" and ?env = "receiving q"
  have q: "mmap.sholds (env_crc calm) ?cfg w 1 [[3]] (pc_store ?q)" "consumer_at ?cfg 1 ?q"
    using s(1,4) by (simp_all add: consumer_at_def expects_def)
  from mmap.precv_refines [OF q quiet_calm] obtain e w' where
    e: "snd (precv mmap_io calm ?q) = e" "mmap.sholds (env_crc calm) ?cfg w' 2 [] (pc_store e)" "rg_head w' = rg_head w"
    by (auto simp: queue_recv_def)
  have t: "turn_store ?env 2 (pc_store p) j = (if j = 0 then pc_store p else pc_store e)" if "j < 2" for j
    using that e(1) by (cases j) (auto simp: numeral_2_eq_2)
  have runs: "consumer_runs mmap_io mapped_inv mapped_mem ?env ?cfg (rg_head w) 1 [[3]] ?gone (env_rounds ?env) (pc_store p)"
    unfolding consumer_runs_def
  proof (intro conjI allI impI)
    fix j assume "j < env_rounds ?env"
    then have j: "j < 2" by simp
    show "\<exists>v. rg_head v = rg_head w \<and> store_holds mmap_io mapped_inv mapped_mem (env_crc ?env) ?cfg v
        (1 + word_of_nat (?gone j)) (drop (?gone j) [[3]]) (turn_store ?env (env_rounds ?env) (pc_store p) j)"
      using s(1) e(2,3) t [OF j] by (intro exI [of _ "if j = 0 then w else w'"]) simp
  qed simp_all
  have plan: "send_plan_of ?cfg (length [9 :: byte]) = Ok ?plan" by (rule small_plan) simp
  have used: "used_slots ?cfg [[3]] = 1" "slots_of ?cfg [9] = 1" by (simp_all add: slots_of_def send_plan_of_def)
  have room: "room_in_turn ?cfg [[3]] ?gone [9] 1" "\<forall>j < 1. \<not> room_in_turn ?cfg [[3]] ?gone [9] j"
    using used by (simp_all add: room_in_turn_def)
  have all: "\<forall>k < env_rounds ?env. room_in_turn ?cfg [[3]] ?gone [9] k \<and> (\<forall>j < k. \<not> room_in_turn ?cfg [[3]] ?gone [9] j) \<longrightarrow>
      (\<exists>d. psend mmap_io ?env 0 [9] p = (Ok (), d) \<and> pc_next_seq d = pc_next_seq p + 1 \<and>
        store_messages mapped_mem ?cfg (pc_store d) = drop (?gone k) [[3]] @ [[9]])"
    using blocked_send_completes [of ?env ?cfg w 1 "[[3]]" p 5 "[9]" ?plan ?gone 0] s plan used(1) runs
    by (simp add: FRAME_HEADER_LEN_def isize_max_def)
  have "(1 :: nat) < env_rounds ?env" by simp
  from mp [OF mp [OF all [THEN spec, of 1] this] conjI [OF room]]
  obtain d where "psend mmap_io ?env 0 [9] p = (Ok (), d)"
    "store_messages mapped_mem ?cfg (pc_store d) = [[9]]" by auto
  then show ?thesis using mmap.sholds_used(3) [OF s(1)] by (intro exI [of _ p] exI [of _ q] exI [of _ d]) simp
qed

end
