(* ===== verification/Zero_Copy_Properties.thy ===== *)
theory Zero_Copy_Properties
  imports Persistent_Zero_Copy Persistent_Channel_Properties
begin

text \<open>
  Zero-copy messages on memory-mapped files: buffers and views are the steps of the same queue as the
  sends and receives that copy, so the two kinds can be mixed freely.
\<close>

text \<open>Two handles of a new channel of one slot, for the witnesses.\<close>

lemma small_duplex:
  "\<exists>d. duplex_holds mmap_io mapped_inv mapped_mem (env_crc calm) d [] \<and> duplex_config d = small_config Raise \<and>
     \<not> pc_closed (dx_producer d) \<and> head_count mapped_mem d \<le> 1"
proof -
  let ?cfg = "small_config Raise"
  from small_round [of Raise] obtain p q :: "mapped_slot_storage persistent_channel" and w where
    s: "mmap.sholds (env_crc calm) ?cfg w 1 [] (pc_store q)" "producer_at ?cfg w 1 p" "\<not> pc_closed p"
      "consumer_at ?cfg 1 q" "unat (rg_head w) \<le> 1" by blast
  let ?d = "\<lparr>dx_store = pc_store q, dx_producer = p, dx_consumer = q\<rparr>"
  have cfg: "duplex_config ?d = ?cfg" using s(2) by (simp add: duplex_config_def producer_at_def)
  have "duplex_holds mmap_io mapped_inv mapped_mem (env_crc calm) ?d []"
    unfolding duplex_holds_def cfg using s by (intro exI [of _ w] exI [of _ "1 :: u64"]) simp
  moreover have "head_count mapped_mem ?d \<le> 1" using s(5) mmap.sholds_words [OF s(1)] by (simp add: head_count_def)
  ultimately show ?thesis using cfg s(3) by (intro exI [of _ ?d]) simp
qed

lemma small_room:
  assumes "duplex_holds mmap_io mapped_inv mapped_mem (env_crc calm) d []" "duplex_config d = small_config Raise"
    and "\<not> pc_closed (dx_producer d)"
  shows "queue_send [1, 2] (producer_queue mapped_mem d) = (Ok (), (producer_queue mapped_mem d)\<lparr>mq_msgs := [[1, 2]]\<rparr>)"
  using assms(2,3) mmap.holds_messages(1) [OF assms(1)] small_plan(1) [of "[1, 2]" Raise]
  by (simp add: queue_send_def producer_queue_def Let_def)

text \<open>Claim C7: sending through a buffer and receiving through a view implement the bounded message queue.
  In every state of the invariant of two handles, with one producer and a policy that blocks or
  raises, a message that fits one slot, allocated, written in any number of parts and published, has
  the outcome and the effect on the queue that a send of its bytes has, on every branch (closed, full,
  room); a view of a front message that fits one slot, read and released, has those of a receive. Both
  keep the invariant, with no slot left pinned and the pin floor given back.\<close>

theorem zero_copy_refines_queue:
  assumes "duplex_inv mmap_io mapped_inv mapped_mem (env_crc env) d" and "quiet env"
    and "backpressure (duplex_config d) \<in> {Block, Raise}"
  shows "(length (concat parts) \<le> slot_size (duplex_config d) \<and> head_count mapped_mem d + capacity (duplex_config d) < 2 ^ 64 \<longrightarrow>
      map_prod (map_outcome (\<lambda>_. ())) (producer_queue mapped_mem) (duplex_zero_send mmap_io env fuel parts d) =
        queue_send (concat parts) (producer_queue mapped_mem d) \<and>
      duplex_inv mmap_io mapped_inv mapped_mem (env_crc env) (snd (duplex_zero_send mmap_io env fuel parts d))) \<and>
    ((duplex_messages mapped_mem d \<noteq> [] \<longrightarrow> length (hd (duplex_messages mapped_mem d)) \<le> slot_size (duplex_config d)) \<longrightarrow>
      map_prod id (consumer_queue mapped_mem) (duplex_zero_recv mmap_io env d) = queue_recv (consumer_queue mapped_mem d) \<and>
      duplex_inv mmap_io mapped_inv mapped_mem (env_crc env) (snd (duplex_zero_recv mmap_io env d)))"
  using mmap.duplex_zero_refines [OF assms(1,2)] assms(3) by blast

lemma zero_copy_refines_queue_witness:
  "\<exists>d. map_prod (map_outcome (\<lambda>_. ())) (producer_queue mapped_mem) (duplex_zero_send mmap_io calm 0 [[1], [2]] d) =
       (Ok (), (producer_queue mapped_mem d)\<lparr>mq_msgs := [[1, 2]]\<rparr>) \<and>
     fst (duplex_zero_recv mmap_io calm (snd (duplex_zero_send mmap_io calm 0 [[1], [2]] d))) = Ok [1, 2]"
proof -
  from small_duplex obtain d where h: "duplex_holds mmap_io mapped_inv mapped_mem (env_crc calm) d []"
    "duplex_config d = small_config Raise" "\<not> pc_closed (dx_producer d)" "head_count mapped_mem d \<le> 1" by blast
  note cfg = h(2) and count = h(4)
  have empty: "duplex_messages mapped_mem d = []" using mmap.holds_messages(1) [OF h(1)] .
  have inv: "duplex_inv mmap_io mapped_inv mapped_mem (env_crc calm) d" using h(1) by (auto simp: duplex_inv_def)
  define e where "e = snd (duplex_zero_send mmap_io calm 0 [[1], [2]] d)"
  have sent: "map_prod (map_outcome (\<lambda>_. ())) (producer_queue mapped_mem) (duplex_zero_send mmap_io calm 0 [[1], [2]] d) =
      queue_send [1, 2] (producer_queue mapped_mem d)" "duplex_inv mmap_io mapped_inv mapped_mem (env_crc calm) e"
    using zero_copy_refines_queue [OF inv quiet_calm, of "[[1], [2]]" 0] cfg count by (simp_all add: e_def)
  note room = small_room [OF h(1-3)]
  have "producer_queue mapped_mem e = (producer_queue mapped_mem d)\<lparr>mq_msgs := [[1, 2]]\<rparr>"
    using sent(1) room by (simp add: e_def prod_eq_iff)
  then have m: "duplex_messages mapped_mem e = [[1, 2]]" "duplex_config e = small_config Raise"
    using cfg by (simp_all add: producer_queue_def)
  have "map_prod id (consumer_queue mapped_mem) (duplex_zero_recv mmap_io calm e) = queue_recv (consumer_queue mapped_mem e)"
    using zero_copy_refines_queue [OF sent(2) quiet_calm, of "[]" 0] m by simp
  then have "fst (duplex_zero_recv mmap_io calm e) = Ok [1, 2]"
    using m(1) by (simp add: queue_recv_def consumer_queue_def prod_eq_iff)
  with sent(1) room show ?thesis unfolding e_def by (intro exI [of _ d]) simp
qed

end
