(* ===== verification/View_Properties.thy ===== *)
theory View_Properties
  imports Pinned_Views Zero_Copy_Properties
begin

text \<open>
  The property of programs that copy messages and hold them in views, on memory-mapped files.
\<close>

text \<open>Two slots, one producer; two views released newest first.\<close>

definition two_slots :: spsc_config where
  "two_slots = \<lparr>capacity = 2, slot_size = 4, backpressure = Raise, timeout = None, multi_producer = False\<rparr>"

lemma two_slots_simps [simp]:
  "capacity two_slots = 2" "slot_size two_slots = 4" "backpressure two_slots = Raise" "region_fits two_slots" "shared_config two_slots"
  by (simp_all add: two_slots_def region_fits_def shared_config_def FRAME_HEADER_LEN_def layout_consts usize_max_def)

definition newest_first :: "view_call list" where
  "newest_first = [Send_copy [1], Send_buffer [[2], [3]], Take_view, Take_view, Release_view 1, Send_copy [4], Read_view 0,
     Release_view 0, Read_view 0, Send_copy [4], Recv_copy]"

abbreviation released_error :: "(dsline_error, answer) outcome" where
  "released_error \<equiv> ChanErr (InvalidConfig ''view is already released'')"

lemma newest_first_run:
  assumes "vq_config q = two_slots" "vq_msgs q = []" "vq_behind q = []" "vq_views q = []" "\<not> vq_producer_shut q"
  shows "fst (run_calls vq_call newest_first q) =
      [Ok Done, Ok Done, Ok Done, Ok Done, Ok Done, ChanErr BufferFull, Ok (Payload [1]), Ok Done, released_error, Ok Done, Ok (Payload [4])] \<and>
    vq_behind (snd (run_calls vq_call newest_first q)) = [] \<and> vq_msgs (snd (run_calls vq_call newest_first q)) = []"
  using assms
  by (simp add: newest_first_def vq_send_def vq_send_buffer_def vq_take_def vq_read_def vq_release_def vq_give_back_def give_back_def
      vq_recv_def vq_room_def send_plan_of_def slots_of_def)

text \<open>The two handles of a new region with two slots.\<close>

lemma two_slots_start:
  "\<exists>d. duplex_inv mmap_io mapped_inv mapped_mem (env_crc calm) d \<and> duplex_config d = two_slots \<and> duplex_messages mapped_mem d = [] \<and>
     head_count mapped_mem d = 0 \<and> \<not> pc_resync_expected (dx_consumer d) \<and> \<not> pc_closed (dx_producer d) \<and> \<not> pc_closed (dx_consumer d) \<and>
     pc_next_seq (dx_producer d) = 0"
proof -
  from mapped_create [of two_slots 0 "\<lambda>_. undefined" False undefined 0] obtain t where
    t: "mmap.ring (capacity two_slots) (region_slot_len two_slots) empty_words (replicate (capacity two_slots) free_view) t" by auto
  note s = mmap.empty_ring_holds [OF t, of "env_crc calm" 0]
  from mmap.opened_holds [OF s, of calm undefined 1] obtain p :: "mapped_slot_storage persistent_channel" where
    p: "pc_config p = two_slots" "pc_recovery_bias p = 0" "pc_head p = 0" "\<not> pc_closed p" "pc_next_seq p = 0"
    by (auto simp: empty_words_def)
  let ?d = "\<lparr>dx_store = t, dx_producer = p, dx_consumer = fresh_handle t two_slots undefined 0\<rparr>"
  have cfg: "duplex_config ?d = two_slots" using p by (simp add: duplex_config_def)
  have h: "duplex_holds mmap_io mapped_inv mapped_mem (env_crc calm) ?d []"
    unfolding duplex_holds_def cfg using p s
    by (intro exI [of _ empty_words] exI [of _ "0 :: u64"]) (simp add: producer_at_def consumer_at_def expects_def fresh_handle_def empty_words_def)
  moreover have "head_count mapped_mem ?d = 0" using mmap.sholds_words [OF s] by (simp add: head_count_def empty_words_def)
  ultimately show ?thesis using cfg p(4,5) mmap.holds_messages(1) [OF h]
    by (intro exI [of _ ?d]) (auto simp: duplex_inv_def fresh_handle_def)
qed

text \<open>Claim C8: two handles of a channel with one producer, and the views the consumer takes, implement
  the queue with views. For every program of sends that copy or write in place, receives, views taken,
  read, released or dropped in any order, and closings, each call has the outcome the specification
  gives it: a view reads its message however many sends and receives follow, the slots from the oldest
  view still held count against the room, whoever releases first, and a released view is refused. A
  program that ends with no such slot ends in the invariant of the plain queue, with its messages.\<close>

theorem views_refine_queue:
  assumes "duplex_inv mmap_io mapped_inv mapped_mem (env_crc env) d" and "\<not> pc_resync_expected (dx_consumer d)"
    and "quiet env" and "\<forall>c \<in> set cs. sendable c"
    and "head_count mapped_mem d + length cs * capacity (duplex_config d) < 2 ^ 64"
  shows "\<exists>d' vs'. run_calls (channel_call mmap_io env fuel) cs (d, []) =
      (fst (run_calls vq_call cs (queue_without_views mapped_mem d)), (d', vs')) \<and>
    (vq_behind (snd (run_calls vq_call cs (queue_without_views mapped_mem d))) = [] \<longrightarrow>
      duplex_inv mmap_io mapped_inv mapped_mem (env_crc env) d' \<and>
      duplex_messages mapped_mem d' = vq_msgs (snd (run_calls vq_call cs (queue_without_views mapped_mem d))))"
proof -
  let ?q = "queue_without_views mapped_mem d"
  have "head_count mapped_mem d + length cs * capacity (vq_config ?q) < 2 ^ 64" using assms(5) by (simp add: queue_without_views_def)
  from mmap.run_refines [OF mmap.viewers_start [OF assms(1,2)] assms(3,4) this, of fuel] obtain d' vs' where
    r: "run_calls (channel_call mmap_io env fuel) cs (d, []) = (fst (run_calls vq_call cs ?q), (d', vs'))"
      "mmap.vat (env_crc env) (snd (run_calls vq_call cs ?q)) (d', vs')" by blast
  with mmap.viewers_end(1) [OF r(2)] mmap.holds_messages(1) show ?thesis by (auto simp: duplex_inv_def)
qed

lemma views_refine_queue_witness:
  "\<exists>d d' vs'. run_calls (channel_call mmap_io calm 0) newest_first (d, []) =
      ([Ok Done, Ok Done, Ok Done, Ok Done, Ok Done, ChanErr BufferFull, Ok (Payload [1]), Ok Done, released_error, Ok Done, Ok (Payload [4])],
       (d', vs')) \<and> duplex_messages mapped_mem d' = []"
proof -
  obtain d where d: "duplex_inv mmap_io mapped_inv mapped_mem (env_crc calm) d" "duplex_config d = two_slots" "duplex_messages mapped_mem d = []"
    "head_count mapped_mem d = 0" "\<not> pc_resync_expected (dx_consumer d)" "\<not> pc_closed (dx_producer d)"
    using two_slots_start by blast
  have "\<forall>c \<in> set newest_first. sendable c" by (simp add: newest_first_def sendable_def isize_max_def)
  moreover have "head_count mapped_mem d + length newest_first * capacity (duplex_config d) < 2 ^ 64"
    unfolding d(2,4) by (simp add: newest_first_def)
  ultimately obtain d' vs' where r: "run_calls (channel_call mmap_io calm 0) newest_first (d, []) =
      (fst (run_calls vq_call newest_first (queue_without_views mapped_mem d)), (d', vs'))"
    "vq_behind (snd (run_calls vq_call newest_first (queue_without_views mapped_mem d))) = [] \<longrightarrow>
      duplex_inv mmap_io mapped_inv mapped_mem (env_crc calm) d' \<and>
      duplex_messages mapped_mem d' = vq_msgs (snd (run_calls vq_call newest_first (queue_without_views mapped_mem d)))"
    using views_refine_queue [OF d(1,5) quiet_calm, of newest_first 0] by blast
  have "vq_config (queue_without_views mapped_mem d) = two_slots" "vq_msgs (queue_without_views mapped_mem d) = []"
    "vq_behind (queue_without_views mapped_mem d) = []" "vq_views (queue_without_views mapped_mem d) = []"
    "\<not> vq_producer_shut (queue_without_views mapped_mem d)"
    using d(2,3,6) by (simp_all add: queue_without_views_def)
  from newest_first_run [OF this] r show ?thesis by auto
qed

text \<open>The two slots after two sends and a view of the first message.\<close>

lemma one_view_and_one_message:
  "\<exists>(d :: mapped_slot_storage duplex) vs q. mmap.vat (env_crc calm) q (d, vs) \<and> head_count mapped_mem d \<le> 6 \<and>
     vq_config q = two_slots \<and> vq_msgs q = [[4]] \<and> vq_behind q = [Some 0] \<and> vq_views q = [([1], True)] \<and> \<not> vq_producer_shut q"
proof -
  obtain d where d: "duplex_inv mmap_io mapped_inv mapped_mem (env_crc calm) d" "duplex_config d = two_slots" "duplex_messages mapped_mem d = []"
    "head_count mapped_mem d = 0" "\<not> pc_resync_expected (dx_consumer d)" "\<not> pc_closed (dx_producer d)"
    using two_slots_start by blast
  let ?cs = "[Send_copy [1], Send_copy [4], Take_view]" and ?q = "queue_without_views mapped_mem d"
  have q: "vq_config ?q = two_slots" "vq_msgs ?q = []" "vq_behind ?q = []" "vq_views ?q = []" "\<not> vq_producer_shut ?q"
    using d(2,3,6) by (simp_all add: queue_without_views_def)
  define r where "r = snd (run_calls vq_call ?cs ?q)"
  have r: "vq_config r = two_slots" "vq_msgs r = [[4]]" "vq_behind r = [Some 0]" "vq_views r = [([1], True)]" "\<not> vq_producer_shut r"
    using q by (simp_all add: r_def vq_send_def vq_take_def vq_room_def send_plan_of_def slots_of_def)
  have "\<forall>c \<in> set ?cs. sendable c" "head_count mapped_mem d + length ?cs * capacity (vq_config ?q) < 2 ^ 64"
    unfolding d(4) q(1) by (simp_all add: sendable_def isize_max_def)
  from mmap.run_refines [OF mmap.viewers_start [OF d(1,5)] quiet_calm this, of 0] obtain e vs where
    "mmap.vat (env_crc calm) r (e, vs)" "head_count mapped_mem e \<le> 6" unfolding r_def d(4) q(1) by auto
  with r show ?thesis by blast
qed

end
