(* ===== verification/Views_Reopened.thy ===== *)
theory Views_Reopened
  imports View_Properties
begin

text \<open>
  Opening a channel while views hold slots. The pins of processes that are gone are given back and the
  queue goes on as if they had been released; the pins of the others stay, with their views.
\<close>

section \<open>Pins and their owners\<close>

definition owner_is :: "'s channel_env \<Rightarrow> process_liveness set \<Rightarrow> slot_header_full \<Rightarrow> bool" where
  "owner_is env states h \<longleftrightarrow> (\<exists>ident. sh_identity h = Some ident \<and>
     process_liveness (env_probe env) \<lparr>pid = wi_pid ident, start_time = wi_start_time ident\<rparr> \<in> states)"

text \<open>The probe takes the owner of every pinned slot for gone; and for none.\<close>

definition pins_orphaned :: "'s region_io_ops \<Rightarrow> 's channel_env \<Rightarrow> usize \<Rightarrow> 's \<Rightarrow> bool" where
  "pins_orphaned io env cap s \<longleftrightarrow>
     (\<forall>i < cap. \<forall>h. read_header_full io i s = Ok h \<and> sh_state h = Pinned \<longrightarrow> owner_is env {Gone} h)"

definition pins_owned :: "'s region_io_ops \<Rightarrow> 's channel_env \<Rightarrow> usize \<Rightarrow> 's \<Rightarrow> bool" where
  "pins_owned io env cap s \<longleftrightarrow>
     (\<forall>i < cap. \<forall>h. read_header_full io i s = Ok h \<and> sh_state h = Pinned \<longrightarrow> \<not> owner_is env {Gone} h)"

section \<open>The reclaim of pins_orphaned pins\<close>

text \<open>A slot after the reclaim, and the pinned slots of a list.\<close>

definition unpinned :: "slot_view \<Rightarrow> slot_view" where
  "unpinned v = (if state (fst v) = Pinned then free_view else v)"

definition pinned_count :: "slot_view list \<Rightarrow> nat" where
  "pinned_count vs = length (filter (\<lambda>v. state (fst v) = Pinned) vs)"

lemma pinned_count_simps [simp]:
  "pinned_count [] = 0" "pinned_count (v # vs) = (if state (fst v) = Pinned then Suc (pinned_count vs) else pinned_count vs)"
  "pinned_count (vs @ us) = pinned_count vs + pinned_count us"
  "pinned_count (replicate n free_view) = 0"
  by (simp_all add: pinned_count_def)

lemma pinned_count_free: "i < length vs \<Longrightarrow> state (fst (vs ! i)) = Pinned \<Longrightarrow> Suc (pinned_count (vs[i := free_view])) = pinned_count vs"
  by (induction vs arbitrary: i) (auto split: nat.split)

lemma pinned_count_le: "pinned_count vs \<le> length vs"
  by (simp add: pinned_count_def)

lemma foldl_update_map:
  "foldl (\<lambda>vs i. vs[i := f (vs ! i)]) vs [0..<n] = map f (take n vs) @ drop n vs"
proof (induction n)
  case (Suc n)
  then show ?case
    by (cases "n < length vs")
      (simp_all add: list_update_append nth_append take_Suc_conv_app_nth min_def list_update_beyond flip: Cons_nth_drop_Suc)
qed simp

context region_io
begin

lemma reclaim_gone_slot:
  assumes s: "ring cap sz w vs s" and i: "i < cap" and v: "state (fst (vs ! i)) = Pinned"
    and env: "pins_orphaned io env cap s" "env_second env = read_header_full io"
  shows "\<exists>t. reclaim_dead Pinned io (env_probe env) (env_second env) i s = (Ok True, t) \<and>
    ring cap sz w (vs[i := free_view]) t \<and> pins_orphaned io env cap t"
proof -
  note lay = ring_layout [OF s]
  let ?h = "\<lambda>j s. slot_header (slot_raw sz j (mem s))"
  have h: "read_header_full io i s = Ok (?h i s)" using read_header_full_effect [OF lay i] .
  have pin: "sh_state (?h i s) = Pinned" using ring_raw [OF s i] v raw_view_state [of "slot_raw sz i (mem s)"] by simp
  with h env(1) i have "owner_is env {Gone} (?h i s)" unfolding pins_orphaned_def by blast
  then obtain ident where ident: "sh_identity (?h i s) = Some ident"
    "process_liveness (env_probe env) \<lparr>pid = wi_pid ident, start_time = wi_start_time ident\<rparr> = Gone"
    by (auto simp: owner_is_def)
  let ?raw = "encode_header Free 0 0 None False @ replicate (sz - PERSISTENT_SLOT_HEADER_LEN) 0"
  from release_effect [OF lay i] obtain t where
    t: "force_release_no_flush io i s = (Ok (), t)" "slot_set cap sz i ?raw s t" by blast
  note raw = slot_set_raw [OF lay i t(2)]
  have fl: "pflush_slot io i PERSISTENT_SLOT_HEADER_LEN t = Ok ()" using flush_effect [OF raw(4) i header_size [OF lay]] .
  have "reclaim_dead Pinned io (env_probe env) (env_second env) i s = (Ok True, t)"
    using h pin ident t(1) fl env(2) by (simp add: reclaim_dead_def)
  moreover have "ring cap sz w (vs[i := free_view]) t" using ring_slot_set [OF s i t(2)] by (simp add: raw_view_encode)
  moreover have "pins_orphaned io env cap t"
  proof -
    have "owner_is env {Gone} (?h j t)" if j: "j < cap" "sh_state (?h j t) = Pinned" for j
    proof (cases "j = i")
      case True
      with j(2) raw(1) show ?thesis by simp
    next
      case False
      then have "?h j t = ?h j s" using raw(2) j(1) by simp
      with j env(1) read_header_full_effect [OF lay j(1)] show ?thesis unfolding pins_orphaned_def by metis
    qed
    then show ?thesis using read_header_full_effect [OF raw(4)] by (simp add: pins_orphaned_def)
  qed
  ultimately show ?thesis by blast
qed

lemma reclaim_gone:
  assumes "ring cap sz w vs (pc_store c)" "\<forall>i \<in> set is. i < cap"
    and "pins_orphaned io env cap (pc_store c)" "env_second env = read_header_full io"
    and "unat (pc_reclaimed_slots c) + pinned_count vs < 2 ^ 64"
  shows "\<exists>t n. for_each is (reclaim_pinned_at io env) c = (Ok (), c\<lparr>pc_store := t, pc_reclaimed_slots := n\<rparr>) \<and>
    ring cap sz w (foldl (\<lambda>vs i. vs[i := unpinned (vs ! i)]) vs is) t \<and>
    unat n + pinned_count (foldl (\<lambda>vs i. vs[i := unpinned (vs ! i)]) vs is) = unat (pc_reclaimed_slots c) + pinned_count vs"
  using assms
proof (induction "is" arbitrary: c vs)
  case Nil
  then show ?case by (intro exI [of _ "pc_store c"] exI [of _ "pc_reclaimed_slots c"]) simp
next
  case (Cons i "is")
  have i: "i < cap" "i < length vs" using Cons.prems(1,2) at_ring_length by fastforce+
  show ?case
  proof (cases "state (fst (vs ! i)) = Pinned")
    case False
    then have "reclaim_pinned_at io env i c = (Ok (), c)" "vs[i := unpinned (vs ! i)] = vs"
      using reclaim_skip [OF Cons.prems(1) i(1)] by (simp_all add: reclaim_pinned_at_def reclaim_dead_pinned_def unpinned_def)
    with Cons.IH [OF Cons.prems(1) _ Cons.prems(3-5)] Cons.prems(2) show ?thesis by simp
  next
    case True
    from reclaim_gone_slot [OF Cons.prems(1) i(1) True Cons.prems(3,4)] obtain t where
      t: "reclaim_dead Pinned io (env_probe env) (env_second env) i (pc_store c) = (Ok True, t)"
        "ring cap sz w (vs[i := free_view]) t" "pins_orphaned io env cap t" by blast
    note less = pinned_count_free [OF i(2) True]
    let ?n = "pc_reclaimed_slots c + 1"
    have n: "unat (pc_reclaimed_slots c) + 1 < 2 ^ 64" using Cons.prems(5) less by simp
    then have un: "unat ?n = unat (pc_reclaimed_slots c) + 1" by (simp add: unat_word_ariths)
    let ?c = "c\<lparr>pc_store := t, pc_reclaimed_slots := ?n\<rparr>"
    have step: "reclaim_pinned_at io env i c = (Ok (), ?c)" "vs[i := unpinned (vs ! i)] = vs[i := free_view]"
      using t(1) n True by (simp_all add: reclaim_pinned_at_def reclaim_dead_pinned_def count_reclaimed_def add_u64_def unpinned_def)
    have p: "ring cap sz w (vs[i := free_view]) (pc_store ?c)" "\<forall>i \<in> set is. i < cap" "pins_orphaned io env cap (pc_store ?c)"
      "unat (pc_reclaimed_slots ?c) + pinned_count (vs[i := free_view]) < 2 ^ 64"
      using t(2,3) Cons.prems(2,5) un less by simp_all
    from Cons.IH [OF p(1,2,3) Cons.prems(4) p(4)] obtain u n where
      "for_each is (reclaim_pinned_at io env) ?c = (Ok (), ?c\<lparr>pc_store := u, pc_reclaimed_slots := n\<rparr>)"
      "ring cap sz w (foldl (\<lambda>vs i. vs[i := unpinned (vs ! i)]) (vs[i := free_view]) is) u"
      "unat n + pinned_count (foldl (\<lambda>vs i. vs[i := unpinned (vs ! i)]) (vs[i := free_view]) is) =
        unat (pc_reclaimed_slots ?c) + pinned_count (vs[i := free_view])" by blast
    with step un less show ?thesis by (intro exI [of _ u] exI [of _ n]) simp
  qed
qed


text \<open>What the reclaim leaves: the window without the slots behind the tail.\<close>

lemma floor_cas_ring:
  assumes "ring cap sz w vs s"
  shows "\<exists>t. floor_cas io (rg_floor w) v s = (Ok True, t) \<and> ring cap sz (w\<lparr>rg_floor := v\<rparr>) vs t"
  using cas_word [OF assms, of PIN_FLOOR_OFFSET "rg_floor w" v] by (auto simp: floor_cas_def)

lemma unpinned_simps [simp]:
  "unpinned free_view = free_view" "unpinned (pinned_view sq f) = free_view" "unpinned (committed_view sq f) = committed_view sq f"
  by (simp_all add: unpinned_def pinned_view_def committed_view_def)

lemma map_unpinned_slots: "view_slots xs \<Longrightarrow> map unpinned xs = replicate (length xs) free_view"
  by (rule replicate_eqI) (auto simp: view_slots_def)

lemma unpinned_window:
  assumes "window cfg w (map (\<lambda>(q, f). committed_view q f) ws @ replicate n free_view @ xs) s" "view_slots xs"
    and "length ws + n + length xs = capacity cfg"
  obtains views where "ring (capacity cfg) (region_slot_len cfg) w views s" "pinned_count views = pinned_count xs"
    "\<forall>v \<in> set views. state (fst v) \<in> {Free, Committed, Pinned}" "\<forall>v \<in> set (map unpinned views). state (fst v) \<in> {Free, Committed}"
    "\<And>w' t. ring (capacity cfg) (region_slot_len cfg) w' (map unpinned views) t \<Longrightarrow> rg_tail w' = rg_tail w \<Longrightarrow>
      window cfg w' (map (\<lambda>(q, f). committed_view q f) ws) t"
proof -
  let ?vs = "map (\<lambda>(q, f). committed_view q f) ws"
  from assms(1,3) obtain views where v: "ring (capacity cfg) (region_slot_len cfg) w views s"
    "rotate (unat (rg_tail w)) views = ?vs @ replicate n free_view @ xs"
    by (auto simp: ring_window_def)
  have "rotate (unat (rg_tail w)) (map unpinned views) = map unpinned (?vs @ replicate n free_view @ xs)"
    unfolding rotate_map v(2) ..
  also have "\<dots> = ?vs @ replicate (n + length xs) free_view"
    using map_unpinned_slots [OF assms(2)] by (simp add: split_def replicate_add)
  finally have rot: "rotate (unat (rg_tail w)) (map unpinned views) = ?vs @ replicate (capacity cfg - length ?vs) free_view"
    using assms(3) by (simp flip: assms(3))
  have set: "set views = set (?vs @ replicate n free_view @ xs)" using arg_cong [OF v(2), of set] by (simp only: set_rotate)
  have "pinned_count views = pinned_count (rotate (unat (rg_tail w)) views)"
    unfolding pinned_count_def length_filter_rotate ..
  moreover have "pinned_count ?vs = 0" by (auto simp: pinned_count_def committed_view_def filter_empty_conv)
  ultimately have "pinned_count views = pinned_count xs" unfolding v(2) by simp
  moreover have st: "\<forall>v \<in> set views. state (fst v) \<in> {Free, Committed, Pinned}"
    unfolding set using assms(2) by (auto simp: view_slots_def committed_view_def pinned_view_def free_view_def FixedSlot_default_def split: if_splits)
  moreover have "\<forall>v \<in> set (map unpinned views). state (fst v) \<in> {Free, Committed}"
    using st by (auto simp: unpinned_def)
  moreover have "window cfg w' ?vs t" if "ring (capacity cfg) (region_slot_len cfg) w' (map unpinned views) t" "rg_tail w' = rg_tail w" for w' t
    using that rot assms(3) by (auto simp: ring_window_def)
  ultimately show thesis using that [OF v(1)] by blast
qed

lemma orphaned_opened:
  assumes s: "pstore crc cfg xs w sq ms s" and env: "pins_orphaned io env (capacity cfg) s" "env_second env = read_header_full io"
    and cap: "capacity cfg < 2 ^ 64"
  shows "\<exists>c w'. opened io env self epoch cfg s = Ok c \<and> sholds crc cfg w' sq ms (pc_store c) \<and> rg_head w' = rg_head w \<and>
    pc_config c = cfg \<and> pc_recovery_bias c = 0 \<and> \<not> pc_closed c \<and> unat (pc_reclaimed_slots c) = pinned_count xs \<and>
    (if ms = [] then pc_resync_expected c else \<not> pc_resync_expected c \<and> pc_expected_recv_seq c = sq)"
proof -
  let ?cap = "capacity cfg" and ?sz = "region_slot_len cfg" and ?c = "fresh_handle s cfg self epoch"
  from s obtain ws where q: "pqueued cfg xs w (map (\<lambda>(q, f). committed_view q f) ws) s" "stored crc cfg sq ms ws"
    by (auto simp: pinned_store_def)
  let ?vs = "map (\<lambda>(q, f). committed_view q f) ws"
  note n = pqueued_bounds [OF q(1)]
  have len: "length ws + (?cap - (length ?vs + length xs)) + length xs = ?cap" using n(1) by simp
  obtain views where v: "ring ?cap ?sz w views s" "pinned_count views = pinned_count xs"
    "\<forall>v \<in> set views. state (fst v) \<in> {Free, Committed, Pinned}" "\<forall>v \<in> set (map unpinned views). state (fst v) \<in> {Free, Committed}"
    "\<And>w' t. ring ?cap ?sz w' (map unpinned views) t \<Longrightarrow> rg_tail w' = rg_tail w \<Longrightarrow> window cfg w' ?vs t"
    using unpinned_window [OF n(5,4) len] by metis
  have flags: "pc_config ?c = cfg" "pc_store ?c = s" "pc_reclaimed_slots ?c = 0" by (simp_all add: fresh_handle_def)
  have lv: "length views = ?cap" using at_ring_length [OF v(1)] .
  then have fold: "foldl (\<lambda>vs i. vs[i := unpinned (vs ! i)]) views [0..<?cap] = map unpinned views"
    unfolding foldl_update_map by simp
  have pins: "pinned_count views < 2 ^ 64" using pinned_count_le [of views] lv cap by simp
  have gone: "pinned_count (map unpinned views) = 0" using v(4) by (auto simp: pinned_count_def filter_empty_conv)
  from reclaim_gone [of ?cap ?sz w views ?c "[0..<?cap]" env, unfolded fold gone] v(1) env pins flags obtain t r where
    t: "for_each [0..<?cap] (reclaim_pinned_at io env) ?c = (Ok (), ?c\<lparr>pc_store := t, pc_reclaimed_slots := r\<rparr>)"
      "ring ?cap ?sz w (map unpinned views) t" "unat r = pinned_count views" by auto
  let ?b = "?c\<lparr>pc_store := t, pc_reclaimed_slots := r\<rparr>" and ?w = "w\<lparr>rg_floor := PIN_FLOOR_NONE\<rparr>"
  have writing: "for_each [0..<?cap] (reclaim_writing_at io env) ?c = (Ok (), ?c)"
    using writing_scan [of ?cap ?sz w views ?c "[0..<?cap]" env] v(1,3) flags by force
  have load: "load_floor io t = Ok (rg_floor w)" using load_word [OF t(2), of PIN_FLOOR_OFFSET] by (simp add: load_floor_def)
  have scan: "scan_pin_floor io ?cap (rg_tail w) t = Ok PIN_FLOOR_NONE"
    using floor_scan [OF t(2) v(4)] by (simp add: scan_pin_floor_def)
  obtain u where u: "rebuild_floor io (rg_tail w) ?b = (Ok (), ?b\<lparr>pc_store := u, pc_floor_cursor := PIN_FLOOR_NONE\<rparr>)"
    "ring ?cap ?sz ?w (map unpinned views) u"
  proof (cases "rg_floor w = PIN_FLOOR_NONE")
    case True
    then have "?w = w" by simp
    then have "ring ?cap ?sz ?w (map unpinned views) t" using t(2) by (rule ssubst)
    with True load scan flags show ?thesis
      by (intro that [of t]) (simp_all add: rebuild_floor_def pcapacity_def)
  next
    case False
    from floor_cas_ring [OF t(2), of PIN_FLOOR_NONE] obtain u where
      u: "floor_cas io (rg_floor w) PIN_FLOOR_NONE t = (Ok True, u)" "ring ?cap ?sz ?w (map unpinned views) u" by blast
    have "load_floor io u = Ok PIN_FLOOR_NONE" using load_word [OF u(2), of PIN_FLOOR_OFFSET] by (simp add: load_floor_def)
    with False u load scan flags show ?thesis
      by (intro that [of u]) (simp_all add: rebuild_floor_def pcapacity_def)
  qed
  let ?d = "?b\<lparr>pc_store := u, pc_floor_cursor := PIN_FLOOR_NONE\<rparr>"
  have "window cfg ?w ?vs u" using v(5) [OF u(2)] by simp
  then have "queued cfg ?w ?vs u" using n(3) by (simp add: queued_slots_def)
  then have d: "sholds crc cfg ?w sq ms (pc_store ?d)" "pc_config ?d = cfg" "pc_config ?b = cfg" "pc_next_seq ?d = 0"
    "\<not> pc_resync_expected ?d" "\<not> pc_closed ?d"
    using q(2) by (auto simp: store_holds_def fresh_handle_def)
  have same: "ring ?cap ?sz w us (pc_store ?b)" if "ring ?cap ?sz ?w us (pc_store ?d)" for us
    using that u(2) t(2) by (auto simp: at_ring_def)
  have w: "rg_head w = rg_head ?w" "rg_tail w = rg_tail ?w" by simp_all
  from recovered_holds [OF d(1) flags(1) d(3,2) same w writing t(1) _ d(4-6)] u(1) obtain e where
    e: "recover_from_storage io env ?c = (Ok (), e)" "pc_store e = pc_store ?d" "pc_config e = cfg" "pc_recovery_bias e = 0"
      "\<not> pc_closed e" "pc_reclaimed_slots e = pc_reclaimed_slots ?d"
      "if ms = [] then pc_resync_expected e \<and> pc_next_seq e = 0 \<and> pc_expected_recv_seq e = 0
       else \<not> pc_resync_expected e \<and> pc_expected_recv_seq e = sq \<and>
         (unat sq + length ms < 2 ^ 63 \<longrightarrow> pc_next_seq e = sq + word_of_nat (length ms))" by auto
  have "opened io env self epoch cfg s = Ok e" using e(1) by (simp add: opened_def)
  moreover have "sholds crc cfg ?w sq ms (pc_store e)" unfolding e(2) by (rule d(1))
  moreover have "unat (pc_reclaimed_slots e) = pinned_count xs" using e(6) t(3) v(2) by simp
  ultimately show ?thesis using e(3-5,7) by (intro exI [of _ e] exI [of _ ?w]) (simp split: if_splits)
qed

lemma pins_counted:
  assumes "views_hold crc cfg taken vs n bs xs"
  shows "pinned_count xs = length (filter (\<lambda>b. b \<noteq> None) bs)"
proof -
  have "(state (fst (xs ! k)) = Pinned) = (bs ! k \<noteq> None)" if "k < length xs" for k
  proof -
    have "slot_held crc cfg taken vs (n + k) (bs ! k) (xs ! k)" using assms that by (simp add: views_hold_def)
    then show ?thesis by (cases "bs ! k") (auto simp: slot_held_def free_view_def FixedSlot_default_def pinned_view_def)
  qed
  moreover have "length bs = length xs" using assms by (simp add: views_hold_def)
  ultimately have "list_all2 (\<lambda>v b. (state (fst v) = Pinned) = (b \<noteq> None)) xs bs" by (simp add: list_all2_conv_all_nth)
  then show ?thesis unfolding pinned_count_def by (induction rule: list_all2_induct) auto
qed

lemma orphaned_holds:
  assumes v: "vat crc q (d, vs)" and env: "pins_orphaned io env (capacity (vq_config q)) (dx_store d)" "env_second env = read_header_full io"
    and cap: "capacity (vq_config q) < 2 ^ 64"
  shows "\<exists>c. opened io env self epoch (vq_config q) (dx_store d) = Ok c \<and>
    duplex_holds io inv mem crc (d\<lparr>dx_store := pc_store c, dx_consumer := c\<rparr>) (vq_msgs q) \<and>
    unat (pc_reclaimed_slots c) = length (filter (\<lambda>b. b \<noteq> None) (vq_behind q))"
  using v
proof (rule vatE)
  fix xs w sq
  assume h: "shared_config (vq_config q)" "pstore crc (vq_config q) xs w sq (vq_msgs q) (dx_store d)"
    "producer_at (vq_config q) w (sq + word_of_nat (length (vq_msgs q))) (dx_producer d)" "receiver_at (vq_config q) sq (dx_consumer d)"
    "vq_producer_shut q = pc_closed (dx_producer d)" "vq_consumer_shut q = pc_closed (dx_consumer d)"
    "views_hold crc (vq_config q) (vq_views q) vs (unat (rg_floor w)) (vq_behind q) xs" "unat (rg_head w) = head_count mem d"
  from orphaned_opened [OF h(2) env cap, of self epoch] obtain c w' where
    c: "opened io env self epoch (vq_config q) (dx_store d) = Ok c" "sholds crc (vq_config q) w' sq (vq_msgs q) (pc_store c)"
      "rg_head w' = rg_head w" "pc_config c = vq_config q" "pc_recovery_bias c = 0" "unat (pc_reclaimed_slots c) = pinned_count xs"
      "if vq_msgs q = [] then pc_resync_expected c else \<not> pc_resync_expected c \<and> pc_expected_recv_seq c = sq" by blast
  have cfg: "duplex_config (d\<lparr>dx_store := pc_store c, dx_consumer := c\<rparr>) = vq_config q"
    using h(3) by (simp add: duplex_config_def producer_at_def)
  have "consumer_at (vq_config q) sq c" using c(4,5,7) by (auto simp: consumer_at_def expects_def split: if_splits)
  moreover have "producer_at (vq_config q) w' (sq + word_of_nat (length (vq_msgs q))) (dx_producer d)"
    using h(3) c(3) by (simp add: producer_at_def)
  ultimately have "duplex_holds io inv mem crc (d\<lparr>dx_store := pc_store c, dx_consumer := c\<rparr>) (vq_msgs q)"
    unfolding duplex_holds_def cfg using h(1) c(2) by (intro exI [of _ w'] exI [of _ sq]) simp
  then show ?thesis using c(1,6) pins_counted [OF h(7)] by auto
qed

text \<open>The only pinned slot, once the header of its view carries the owner.\<close>

lemma single_pin_stamped:
  assumes s: "pstore crc cfg [pinned_view r f] w sq ms s"
    and ident: "process_liveness (env_probe env) \<lparr>pid = wi_pid ident, start_time = wi_start_time ident\<rparr> = Gone"
  shows "\<exists>i t. write_pinned_header io i r (length f) ident s = (Ok (), t) \<and> pstore crc cfg [pinned_view r f] w sq ms t \<and>
    pins_orphaned io env (capacity cfg) t"
proof -
  let ?cap = "capacity cfg" and ?sz = "region_slot_len cfg" and ?i = "unat (rg_floor w) mod capacity cfg" and ?x = "pinned_view r f"
  from s obtain ws where q: "pqueued cfg [?x] w (map (\<lambda>(q, f). committed_view q f) ws) s" "stored crc cfg sq ms ws"
    by (auto simp: pinned_store_def)
  let ?vs = "map (\<lambda>(q, f). committed_view q f) ws"
  note n = pqueued_bounds [OF q(1)]
  have "length ws + (?cap - (length ?vs + length [?x])) + length [?x] = ?cap" using n(1) by simp
  then obtain views where v: "ring ?cap ?sz w views s" "pinned_count views = pinned_count [?x]"
    using unpinned_window [OF n(5,4)] by metis
  have k: "(0 :: nat) < length [?x]" "unat (rg_floor w) = unat (rg_floor w) + 0" by simp_all
  from pinned_slot [OF q(1) q(1) q(1) k(1) k(1) k(2)] obtain us where
    us: "ring ?cap ?sz w us s" "?i < ?cap" "us ! ?i = ?x"
      "\<forall>y t. ring ?cap ?sz w (us[?i := y]) t \<longrightarrow> window cfg w (?vs @ replicate (?cap - (length ?vs + length [?x])) free_view @ [?x][0 := y]) t"
    by (metis nth_Cons_0)
  have "us = views" using us(1) v(1) by (simp add: at_ring_def)
  then have one: "pinned_count us = 1" using v(2) by (simp add: pinned_view_def)
  note lay = ring_layout [OF us(1)]
  from rewrite_header(2) [OF us(1,2) us(3) [unfolded pinned_view_def], of ident] obtain t where
    t: "write_identity_header io ?i Pinned r (length f) ident s = (Ok (), t)" "ring ?cap ?sz w (us[?i := ?x]) t" by auto
  from write_identity_header_effect [OF lay us(2), of Pinned r "length f" ident] t(1) have
    set: "slot_set ?cap ?sz ?i (encode_header Pinned r (length f) (Some ident) True @ drop PERSISTENT_SLOT_HEADER_LEN (slot_raw ?sz ?i (mem s))) s t"
    by auto
  note raw = slot_set_raw [OF lay us(2) set]
  have "window cfg w (?vs @ replicate (?cap - (length ?vs + length [?x])) free_view @ [?x]) t"
    using us(4) [rule_format, OF t(2)] by simp
  then have "pqueued cfg [?x] w ?vs t" using q(1) by (simp add: pinned_queue_def)
  then have "pstore crc cfg [?x] w sq ms t" using q(2) by (auto simp: pinned_store_def)
  moreover have "pins_orphaned io env ?cap t"
  proof -
    have "owner_is env {Gone} (slot_header (slot_raw ?sz j (mem t)))"
      if j: "j < ?cap" "sh_state (slot_header (slot_raw ?sz j (mem t))) = Pinned" for j
    proof (cases "j = ?i")
      case True
      then show ?thesis unfolding True raw(1) using ident by (simp add: owner_is_def)
    next
      case False
      have i: "?i < length us" "j < length us" "state (fst (us ! ?i)) = Pinned"
        using us(2,3) j(1) at_ring_length [OF us(1)] by (simp_all add: pinned_view_def)
      have "pinned_count (us[?i := free_view]) = 0" using pinned_count_free [OF i(1,3)] one by simp
      moreover have "us ! j \<in> set (us[?i := free_view])" using i False by (metis length_list_update nth_list_update_neq nth_mem)
      ultimately have "state (fst (us ! j)) \<noteq> Pinned" by (simp add: pinned_count_def filter_empty_conv)
      moreover have "state (fst (us ! j)) = Pinned"
        using ring_raw [OF us(1) j(1)] raw(2) [OF j(1) False] j(2) raw_view_state [of "slot_raw ?sz j (mem s)"] by simp
      ultimately show ?thesis by simp
    qed
    then show ?thesis using read_header_full_effect [OF raw(4)] by (simp add: pins_orphaned_def)
  qed
  ultimately show ?thesis using t(1) by (intro exI [of _ ?i] exI [of _ t]) (simp add: write_pinned_header_def)
qed

end

text \<open>Claim C10: a consumer that dies with views can be replaced. When the probe finds the owner of every
  pinned slot gone, opening the channel frees these slots, counts them, takes back the pin floor and
  leaves a consumer in the invariant of the plain queue: the messages that were queued are all there,
  in order, nothing but them takes room, and the producer, whose handle is as it was, goes on.\<close>

theorem dead_viewer_replaced:
  assumes "viewers_at mmap_io mapped_inv mapped_mem (env_crc env) q (d, vs)"
    and "pins_orphaned mmap_io env (capacity (vq_config q)) (dx_store d)" and "env_second env = read_header_full mmap_io"
    and "capacity (vq_config q) < 2 ^ 64"
  shows "\<exists>c. opened mmap_io env self epoch (vq_config q) (dx_store d) = Ok c \<and>
    duplex_inv mmap_io mapped_inv mapped_mem (env_crc env) (d\<lparr>dx_store := pc_store c, dx_consumer := c\<rparr>) \<and>
    duplex_messages mapped_mem (d\<lparr>dx_store := pc_store c, dx_consumer := c\<rparr>) = vq_msgs q \<and>
    unat (pc_reclaimed_slots c) = length (filter (\<lambda>b. b \<noteq> None) (vq_behind q))"
proof -
  from mmap.orphaned_holds [OF assms, of self epoch] obtain c where
    c: "opened mmap_io env self epoch (vq_config q) (dx_store d) = Ok c"
      "duplex_holds mmap_io mapped_inv mapped_mem (env_crc env) (d\<lparr>dx_store := pc_store c, dx_consumer := c\<rparr>) (vq_msgs q)"
      "unat (pc_reclaimed_slots c) = length (filter (\<lambda>b. b \<noteq> None) (vq_behind q))" by blast
  with mmap.holds_messages(1) [OF c(2)] show ?thesis by (auto simp: duplex_inv_def)
qed

text \<open>A consumer that held the first of two messages, and whose process is gone.\<close>

abbreviation nobody :: "mapped_slot_storage channel_env" where
  "nobody \<equiv> calm\<lparr>env_probe := \<lambda>_. Ok None, env_second := read_header_full mmap_io\<rparr>"

lemma dead_viewer_replaced_witness:
  "\<exists>(d :: mapped_slot_storage duplex) c. opened mmap_io nobody undefined 0 two_slots (dx_store d) = Ok c \<and>
     duplex_messages mapped_mem (d\<lparr>dx_store := pc_store c, dx_consumer := c\<rparr>) = [[4]] \<and> pc_reclaimed_slots c = 1"
proof -
  obtain e vs r where e: "mmap.vat (env_crc calm) r (e :: mapped_slot_storage duplex, vs)"
    and r: "vq_config r = two_slots" "vq_msgs r = [[4]]" "vq_behind r = [Some 0]" "vq_views r = [([1], True)]"
    using one_view_and_one_message by blast
  from e have "\<exists>t. mmap.vat (env_crc nobody) r (e\<lparr>dx_store := t\<rparr>, vs) \<and> pins_orphaned mmap_io nobody (capacity (vq_config r)) t"
  proof (rule mmap.vatE)
    fix xs w sq
    assume h: "shared_config (vq_config r)" "mmap.pstore (env_crc calm) (vq_config r) xs w sq (vq_msgs r) (dx_store e)"
      "producer_at (vq_config r) w (sq + word_of_nat (length (vq_msgs r))) (dx_producer e)" "receiver_at (vq_config r) sq (dx_consumer e)"
      "vq_producer_shut r = pc_closed (dx_producer e)" "vq_consumer_shut r = pc_closed (dx_consumer e)"
      "views_hold (env_crc calm) (vq_config r) (vq_views r) vs (unat (rg_floor w)) (vq_behind r) xs"
    then obtain n f where xs: "xs = [pinned_view n f]"
      using views_hold_length [OF h(7)] unfolding r(3) by (cases xs) (auto simp: views_hold_def slot_held_def r)
    let ?ident = "\<lparr>wi_pid = 7, wi_start_time = 1, wi_epoch = 0, wi_timestamp_ns = 0, wi_reserved_slots = 1\<rparr>"
    have "process_liveness (env_probe nobody) \<lparr>pid = wi_pid ?ident, start_time = wi_start_time ?ident\<rparr> = Gone"
      by (simp add: process_liveness_def)
    from mmap.single_pin_stamped [OF h(2) [unfolded xs] this] obtain t where
      t: "mmap.pstore (env_crc calm) (vq_config r) xs w sq (vq_msgs r) t" "pins_orphaned mmap_io nobody (capacity (vq_config r)) t"
      unfolding xs by blast
    have "mmap.vat (env_crc nobody) r (e\<lparr>dx_store := t\<rparr>, vs)"
      using h t(1) by (intro mmap.vatI [where xs = xs and w = w and sq = sq]) simp_all
    with t(2) show ?thesis by blast
  qed
  then obtain t where t: "mmap.vat (env_crc nobody) r (e\<lparr>dx_store := t\<rparr>, vs)"
    "pins_orphaned mmap_io nobody (capacity (vq_config r)) (dx_store (e\<lparr>dx_store := t\<rparr>))" by auto
  have "env_second nobody = read_header_full mmap_io" "capacity (vq_config r) < 2 ^ 64" using r(1) by simp_all
  from dead_viewer_replaced [OF t this, of undefined 0] obtain c where
    c: "opened mmap_io nobody undefined 0 two_slots (dx_store (e\<lparr>dx_store := t\<rparr>)) = Ok c"
      "duplex_messages mapped_mem (e\<lparr>dx_store := t, dx_store := pc_store c, dx_consumer := c\<rparr>) = [[4]]"
      "unat (pc_reclaimed_slots c) = 1" unfolding r by auto
  have "pc_reclaimed_slots c = 1" using c(3) by (simp add: word_unat_eq_iff)
  with c(1,2) show ?thesis by (intro exI [of _ "e\<lparr>dx_store := t\<rparr>"] exI [of _ c]) simp
qed

end
