(* ===== verification/Views_Attended.thy ===== *)
theory Views_Attended
  imports Views_Reopened
begin

text \<open>
  Opening a channel while the owner of its pins lives: with messages in the ring the views stay and the
  queue goes on; without a message the new consumer takes the number of a free slot for the next one.
\<close>

section \<open>The scans among slots that views hold\<close>

context region_io
begin

lemma reclaim_owned:
  assumes s: "ring cap sz w vs (pc_store c)" and "is": "\<forall>i \<in> set is. i < cap"
    and env: "pins_owned io env cap (pc_store c)" "env_second env = read_header_full io"
  shows "for_each is (reclaim_pinned_at io env) c = (Ok (), c)"
proof -
  have "reclaim_dead Pinned io (env_probe env) (env_second env) i (pc_store c) = (Ok False, pc_store c)" if i: "i < cap" for i
  proof -
    let ?h = "slot_header (slot_raw sz i (mem (pc_store c)))"
    have h: "read_header_full io i (pc_store c) = Ok ?h" using read_header_full_effect [OF ring_layout [OF s] i] .
    with env(1) i have "sh_state ?h = Pinned \<Longrightarrow> \<not> owner_is env {Gone} ?h" unfolding pins_owned_def by blast
    with h env(2) show ?thesis by (auto simp: reclaim_dead_def owner_is_def split: option.split)
  qed
  then have "reclaim_pinned_at io env i c = (Ok (), c)" if "i < cap" for i
    using that by (simp add: reclaim_pinned_at_def reclaim_dead_pinned_def)
  with "is" show ?thesis by (induction "is") simp_all
qed

lemma occupied_states:
  assumes s: "ring cap sz w vs s" and "is": "\<forall>i \<in> set is. i < cap"
  shows "\<exists>hs. occupied_from io is s = Ok hs \<and>
    map ps_state hs = filter (\<lambda>st. st \<in> {Committed, Pinned, Writing}) (map (\<lambda>i. state (fst (vs ! i))) is)"
  using "is"
proof (induction "is")
  case (Cons i "is")
  then obtain hs where hs: "occupied_from io is s = Ok hs"
    "map ps_state hs = filter (\<lambda>st. st \<in> {Committed, Pinned, Writing}) (map (\<lambda>i. state (fst (vs ! i))) is)" by auto
  have "i < cap" using Cons.prems by simp
  from slot_state_at [OF s this] obtain sq n where "read_header io i s = Ok (state (fst (vs ! i)), sq, n)" by blast
  with hs show ?case by (cases "state (fst (vs ! i))") auto
qed simp

lemma occupied_beside_views:
  assumes s: "ring cap sz w views s" and rot: "rotate n views = map (\<lambda>(q, f). committed_view q f) ws @ replicate k free_view @ xs"
    and xs: "view_slots xs" "xs \<noteq> []"
  shows "\<exists>hs. occupied_slot_headers io cap s = Ok hs \<and> length (filter (\<lambda>h. ps_state h \<noteq> Pinned) hs) = length ws \<and>
    list_ex (\<lambda>h. ps_state h \<noteq> Writing) hs"
proof -
  let ?used = "\<lambda>st. st \<noteq> Pinned \<and> st \<in> {Committed, Pinned, Writing}" and ?st = "\<lambda>v :: slot_view. state (fst v)"
  have "map (\<lambda>i. ?st (views ! i)) [0..<cap] = map ?st views"
    using at_ring_length [OF s] by (intro nth_equalityI) simp_all
  moreover have "\<forall>i \<in> set [0..<cap]. i < cap" by simp
  ultimately obtain hs where hs: "occupied_slot_headers io cap s = Ok hs" "map ps_state hs = filter (\<lambda>st. st \<in> {Committed, Pinned, Writing}) (map ?st views)"
    using occupied_states [OF s, of "[0..<cap]"] unfolding occupied_slot_headers_def by metis
  have "length (filter (\<lambda>h. ps_state h \<noteq> Pinned) hs) = length (filter (\<lambda>st. st \<noteq> Pinned) (map ps_state hs))"
    by (simp add: filter_map o_def)
  also have "\<dots> = length (filter (\<lambda>v. ?used (?st v)) views)" unfolding hs(2) by (simp add: filter_map o_def conj_commute)
  also have "\<dots> = length (filter (\<lambda>v. ?used (?st v)) (rotate n views))" by (simp add: length_filter_rotate)
  also have "\<dots> = length ws"
  proof -
    have "filter (\<lambda>v. ?used (?st v)) xs = []"
      using xs(1) by (auto simp: view_slots_def filter_empty_conv free_view_def FixedSlot_default_def pinned_view_def)
    moreover have "filter (\<lambda>v. ?used (?st v)) (map (\<lambda>(q, f). committed_view q f) ws) = map (\<lambda>(q, f). committed_view q f) ws"
      by (auto simp: filter_id_conv committed_view_def)
    ultimately show ?thesis unfolding rot by (simp add: free_view_def FixedSlot_default_def)
  qed
  finally have count: "length (filter (\<lambda>h. ps_state h \<noteq> Pinned) hs) = length ws" .
  have "hd xs \<in> set (rotate n views)" unfolding rot using xs(2) by simp
  moreover have "?st (hd xs) = Pinned" using xs by (cases xs) (auto simp: view_slots_def pinned_view_def)
  ultimately have "Pinned \<in> set (map ps_state hs)" unfolding hs(2) by force
  then obtain h where "h \<in> set hs" "ps_state h = Pinned" by auto
  then have "list_ex (\<lambda>h. ps_state h \<noteq> Writing) hs" by (auto simp: list_ex_iff intro!: bexI [of _ h])
  with hs(1) count show ?thesis by blast
qed

text \<open>The scan of the window finds the oldest view at the floor.\<close>

lemma first_pinned_at:
  assumes "\<forall>a \<in> set as. \<exists>st. state_of (cursor_slot cap a) s = Ok st \<and> st \<noteq> Pinned" "state_of (cursor_slot cap b) s = Ok Pinned"
  shows "first_pinned state_of cap (as @ b # bs) s = Ok b"
  using assms by (induction as) auto

lemma floor_found:
  assumes q: "pqueued cfg xs w vs s" and xs: "xs \<noteq> []" and vs: "\<forall>v \<in> set vs. state (fst v) \<noteq> Pinned" and cap: "capacity cfg < 2 ^ 64"
  shows "scan_pin_floor io (capacity cfg) (rg_tail w) s = Ok (rg_floor w)"
proof -
  let ?cap = "capacity cfg" and ?T = "unat (rg_tail w)" and ?F = "unat (rg_floor w)"
  let ?all = "vs @ replicate (?cap - (length vs + length xs)) free_view @ xs"
  note n = pqueued_bounds [OF q]
  have T: "?T = ?F + length xs" using q xs by (simp add: pinned_queue_def)
  define lo where "lo = unat (saturating_sub (rg_tail w) (word_of_nat ?cap))"
  have lo: "lo = ?T - ?cap"
    using cap unat_of_nat [of ?cap, where ?'a = 64]
    by (simp add: lo_def saturating_sub_def word_le_nat_alt unat_sub)
  then have le: "lo \<le> ?F" using T n(1) by simp
  have lt: "?T < 2 ^ 64" using unsigned_less [of "rg_tail w", where ?'a = nat] by simp
  have small: "unat (word_of_nat i :: u64) = i" if "i < ?T" for i using unat_small [of i] that lt by simp
  have at: "header_state io (i mod ?cap) s = Ok (state (fst (?all ! (i + ?cap - ?T))))" if i: "lo \<le> i" "i < ?T" for i
  proof -
    have k: "i + ?cap - ?T < ?cap" "?T \<le> i + ?cap" using i lo by simp_all
    have all: "length ?all = ?cap" using n(1) by simp
    have slot: "(?T + (i + ?cap - ?T)) mod ?cap = i mod ?cap" using k(2) by simp
    obtain views where v: "ring ?cap (region_slot_len cfg) w views s" "i mod ?cap < ?cap" "views ! (i mod ?cap) = ?all ! (i + ?cap - ?T)"
      using window_slot [OF n(5) k(1), unfolded slot all] k(1) by metis
    from header_state_at [OF v(1,2)] v(3) show ?thesis by simp
  qed
  have floor: "header_state io (cursor_slot ?cap (rg_floor w)) s = Ok Pinned"
  proof -
    have k: "?F + ?cap - ?T = length (vs @ replicate (?cap - (length vs + length xs)) free_view)" using T n(1) by simp
    have "?all ! (?F + ?cap - ?T) = hd xs" unfolding k append_assoc [symmetric] nth_append_length_plus [of _ _ 0, simplified]
      using xs by (simp add: hd_conv_nth)
    moreover have "state (fst (hd xs)) = Pinned" using n(4) xs by (cases xs) (auto simp: view_slots_def pinned_view_def)
    moreover have "?F < ?T" using T xs by simp
    ultimately show ?thesis using at [of ?F] le by (simp add: cursor_slot_def)
  qed
  have before: "\<exists>st. header_state io (cursor_slot ?cap a) s = Ok st \<and> st \<noteq> Pinned"
    if a: "a \<in> set (map word_of_nat [lo..<?F] :: u64 list)" for a
  proof -
    from a obtain i where i: "lo \<le> i" "i < ?F" "a = word_of_nat i" by auto
    then have iT: "i < ?T" using T by simp
    have k: "i + ?cap - ?T < length (vs @ replicate (?cap - (length vs + length xs)) free_view)" using i lo T n(1) by simp
    have "?all ! (i + ?cap - ?T) = (vs @ replicate (?cap - (length vs + length xs)) free_view) ! (i + ?cap - ?T)"
      unfolding append_assoc [symmetric] nth_append using k by simp
    also have "\<dots> \<in> set (vs @ replicate (?cap - (length vs + length xs)) free_view)" using k by (rule nth_mem)
    finally have "state (fst (?all ! (i + ?cap - ?T))) \<noteq> Pinned"
      using vs by (auto simp: free_view_def FixedSlot_default_def split: if_splits)
    with at [OF i(1) iT] small [OF iT] i(3) show ?thesis by (simp add: cursor_slot_def)
  qed
  have "[lo..<?T] = [lo..<?F] @ [?F..<?T]" unfolding T by (rule upt_add_eq_append [OF le])
  also have "[?F..<?T] = ?F # [Suc ?F..<?T]" using T xs by (intro upt_conv_Cons) simp
  finally have "[lo..<?T] = [lo..<?F] @ ?F # [Suc ?F..<?T]" .
  then have "cursor_range (saturating_sub (rg_tail w) (word_of_nat ?cap)) (rg_tail w) =
      map word_of_nat [lo..<?F] @ rg_floor w # map word_of_nat [Suc ?F..<?T]"
    by (simp add: cursor_range_def lo_def)
  then show ?thesis unfolding scan_pin_floor_def using first_pinned_at [of "map word_of_nat [lo..<?F]" "header_state io"] before floor by simp
qed

section \<open>The opened handle\<close>

lemma owned_opened:
  assumes s: "pstore crc cfg xs w sq ms s" and xs: "xs \<noteq> []"
    and env: "pins_owned io env (capacity cfg) s" "env_second env = read_header_full io" and cap: "capacity cfg < 2 ^ 64"
  shows "\<exists>c st x n. opened io env self epoch cfg s = Ok c \<and> pc_store c = s \<and> pc_config c = cfg \<and> pc_recovery_bias c = 0 \<and>
    \<not> pc_closed c \<and> \<not> pc_resync_expected c \<and> read_header io (unat (rg_tail w) mod capacity cfg) s = Ok (st, x, n) \<and>
    pc_expected_recv_seq c = x \<and> (ms \<noteq> [] \<longrightarrow> x = sq) \<and>
    infer_head_from_tail io (capacity cfg) (unat (rg_tail w) mod capacity cfg) s = Ok (pc_head c)"
proof -
  let ?cap = "capacity cfg" and ?sz = "region_slot_len cfg" and ?c = "fresh_handle s cfg self epoch"
  from s obtain ws where q: "pqueued cfg xs w (map (\<lambda>(q, f). committed_view q f) ws) s" "stored crc cfg sq ms ws"
    by (auto simp: pinned_store_def)
  let ?vs = "map (\<lambda>(q, f). committed_view q f) ws" and ?i = "unat (rg_tail w) mod capacity cfg"
  note n = pqueued_bounds [OF q(1)] and l = window_loads [OF pqueued_bounds(5) [OF q(1)]]
  have len: "length ws + (?cap - (length ?vs + length xs)) + length xs = ?cap" using n(1) by simp
  obtain views where v: "ring ?cap ?sz w views s" "\<forall>v \<in> set views. state (fst v) \<in> {Free, Committed, Pinned}"
    using unpinned_window [OF n(5,4) len] by metis
  have rot: "rotate (unat (rg_tail w)) views = ?vs @ replicate (?cap - (length ?vs + length xs)) free_view @ xs"
    using n(5) v(1) len by (auto simp: ring_window_def at_ring_def)
  have flags: "pc_config ?c = cfg" "pc_store ?c = s" "pcapacity ?c = ?cap" "\<not> pc_closed ?c" "\<not> pc_resync_expected ?c"
    by (simp_all add: fresh_handle_def pcapacity_def)
  from occupied_beside_views [OF v(1) rot n(4) xs] obtain hs where
    hs: "occupied_slot_headers io ?cap s = Ok hs" "length (filter (\<lambda>h. ps_state h \<noteq> Pinned) hs) = length ws"
      "list_ex (\<lambda>h. ps_state h \<noteq> Writing) hs" by blast
  have writing: "for_each [0..<?cap] (reclaim_writing_at io env) ?c = (Ok (), ?c)"
    using writing_scan [of ?cap ?sz w views ?c "[0..<?cap]" env] v flags by force
  have pins: "for_each [0..<?cap] (reclaim_pinned_at io env) ?c = (Ok (), ?c)"
    using reclaim_owned [of ?cap ?sz w views ?c "[0..<?cap]" env] v(1) env flags by simp
  let ?d = "?c\<lparr>pc_floor_cursor := rg_floor w\<rparr>"
  have df: "pc_config ?d = cfg" "pc_store ?d = s" using flags by simp_all
  have "\<forall>v \<in> set ?vs. state (fst v) \<noteq> Pinned" by (auto simp: committed_view_def)
  from floor_found [OF q(1) xs this cap] have floor: "rebuild_floor io (rg_tail w) ?c = (Ok (), ?d)"
    using l(3) flags by (simp add: rebuild_floor_def)
  have at: "?i < ?cap" "cursor_slot ?cap (rg_tail w) = ?i" using n(2) by (simp_all add: cursor_slot_def)
  obtain head where head: "infer_head_from_tail io ?cap (cursor_slot ?cap (rg_tail w)) (pc_store ?d) = Ok head"
    using infer_head_total [OF v(1) at(1)] df(2) at(2) by (fastforce simp: infer_head_from_tail_def)
  have "unat (rg_head w - rg_tail w) = length ws" using unat_diff_add [OF n(3)] by simp
  then have depth: "cursor_len ?cap (rg_head w) (rg_tail w) = Ok (length ws)"
    "length (if unat (rg_head w - rg_tail w) \<le> ?cap then filter (\<lambda>h. ps_state h \<noteq> Pinned) hs else hs) \<le> length ws"
    using n(1) hs(2) by (simp_all add: cursor_len_def)
  from slot_state_at [OF v(1) at(1)] obtain x k where
    x: "read_header io ?i s = Ok (state (fst (views ! ?i)), x, k)" "state (fst (views ! ?i)) \<noteq> Free \<longrightarrow> x = slot_seq (fst (views ! ?i))" by blast
  have first: "x = sq" if "ms \<noteq> []"
  proof -
    from stored_seqs(2) [OF q(2) n(2) that] obtain f rest where ws: "ws = (sq, f) # rest" by (cases ws) auto
    then have "window cfg w (committed_view sq f # (map (\<lambda>(q, f). committed_view q f) rest @ replicate (?cap - (length ?vs + length xs)) free_view @ xs)) s"
      using n(5) by simp
    then obtain us where "ring ?cap ?sz w us s" "us ! ?i = committed_view sq f" by (rule window_tail)
    then have "views ! ?i = committed_view sq f" using v(1) by (simp add: at_ring_def)
    with x(2) show ?thesis by (simp add: committed_view_def)
  qed
  have exp: "if list_ex (\<lambda>h. ps_state h \<noteq> Writing) hs
      then \<exists>st n. read_header io (cursor_slot ?cap (rg_tail w)) (pc_store ?d) = Ok (st, x, n) else x = 0"
    using hs(3) x(1) df(2) at(2) by auto
  have b: "occupied_slot_headers io ?cap (pc_store ?c) = Ok hs" "load_head io (pc_store ?c) = Ok (rg_head w)"
    "load_tail io (pc_store ?c) = Ok (rg_tail w)" using hs(1) l(1,2) flags(2) by simp_all
  from recover_run [OF flags(1) flags(1) df(1) writing pins b floor depth head exp] hs(3) flags x(1) first head [unfolded at(2) df(2)]
  show ?thesis by (auto simp: opened_def)
qed

lemma owned_holds:
  assumes v: "vat crc q (d, vs)" and msgs: "vq_msgs q \<noteq> []" "vq_behind q \<noteq> []"
    and env: "pins_owned io env (capacity (vq_config q)) (dx_store d)" "env_second env = read_header_full io"
    and cap: "capacity (vq_config q) < 2 ^ 64"
  shows "\<exists>c. opened io env self epoch (vq_config q) (dx_store d) = Ok c \<and> pc_store c = dx_store d \<and>
    vat crc (q\<lparr>vq_consumer_shut := False\<rparr>) (d\<lparr>dx_consumer := c\<rparr>, vs)"
  using v
proof (rule vatE)
  fix xs w sq
  assume h: "shared_config (vq_config q)" "pstore crc (vq_config q) xs w sq (vq_msgs q) (dx_store d)"
    "producer_at (vq_config q) w (sq + word_of_nat (length (vq_msgs q))) (dx_producer d)" "receiver_at (vq_config q) sq (dx_consumer d)"
    "vq_producer_shut q = pc_closed (dx_producer d)" "vq_consumer_shut q = pc_closed (dx_consumer d)"
    "views_hold crc (vq_config q) (vq_views q) vs (unat (rg_floor w)) (vq_behind q) xs" "unat (rg_head w) = head_count mem d"
  have "xs \<noteq> []" using views_hold_length [OF h(7)] msgs(2) by auto
  from owned_opened [OF h(2) this env cap, of self epoch] msgs(1) obtain c where
    c: "opened io env self epoch (vq_config q) (dx_store d) = Ok c" "pc_store c = dx_store d" "pc_config c = vq_config q"
      "pc_recovery_bias c = 0" "\<not> pc_closed c" "\<not> pc_resync_expected c" "pc_expected_recv_seq c = sq" by blast
  have "vat crc (q\<lparr>vq_consumer_shut := False\<rparr>) (d\<lparr>dx_consumer := c\<rparr>, vs)"
    using h c by (intro vatI [where xs = xs and w = w and sq = sq]) (simp_all add: receiver_at_def)
  with c(1,2) show ?thesis by blast
qed

lemma owned_wedges:
  assumes v: "vat (env_crc env) q (d, vs)" and msgs: "vq_msgs q = []" "vq_behind q \<noteq> []" "\<not> vq_producer_shut q"
    and env: "pins_owned io env (capacity (vq_config q)) (dx_store d)" "env_second env = read_header_full io" "quiet env"
    and tail: "read_header io (unat (rg_tail (words_of (mem (dx_store d)))) mod capacity (vq_config q)) (dx_store d) = Ok (Free, 0, 0)"
      "pc_next_seq (dx_producer d) \<noteq> 0"
    and m: "length m \<le> isize_max" "send_plan_of (vq_config q) (length m) = Ok plan" "needed_slots plan \<le> vq_room q"
    and count: "head_count mem d + capacity (vq_config q) < 2 ^ 64"
  shows "\<exists>c e. opened io env self epoch (vq_config q) (dx_store d) = Ok c \<and>
    duplex_send io env fuel m (d\<lparr>dx_consumer := c\<rparr>) = (Ok (), e) \<and>
    fst (duplex_recv io env e) = ChanErr (SequenceMismatch 0 (pc_next_seq (dx_producer d))) \<and>
    (\<forall>n. recv_after io env n (snd (duplex_recv io env e)) = ChanErr BufferEmpty)"
  using v
proof (rule vatE)
  let ?cfg = "vq_config q" and ?p = "(dx_producer d)\<lparr>pc_store := dx_store d\<rparr>"
  fix xs w sq
  assume h: "shared_config ?cfg" "pstore (env_crc env) ?cfg xs w sq (vq_msgs q) (dx_store d)"
    "producer_at ?cfg w (sq + word_of_nat (length (vq_msgs q))) (dx_producer d)" "receiver_at ?cfg sq (dx_consumer d)"
    "vq_producer_shut q = pc_closed (dx_producer d)" "vq_consumer_shut q = pc_closed (dx_consumer d)"
    "views_hold (env_crc env) ?cfg (vq_views q) vs (unat (rg_floor w)) (vq_behind q) xs" "unat (rg_head w) = head_count mem d"
  note lens = views_hold_length [OF h(7)]
  have xs: "xs \<noteq> []" using lens msgs(2) by auto
  have cap: "capacity ?cfg < 2 ^ 64" using count by simp
  have sq: "pc_next_seq (dx_producer d) = sq" using h(3) msgs(1) by (simp add: producer_at_def)
  from owned_opened [OF h(2) xs env(1,2) cap, of self epoch] tail(1) pstore_used(4) [OF h(2)] obtain c where
    c: "opened io env self epoch ?cfg (dx_store d) = Ok c" "pc_config c = ?cfg" "pc_recovery_bias c = 0" "\<not> pc_closed c"
      "\<not> pc_resync_expected c" "pc_expected_recv_seq c = 0" by auto
  have p: "pstore (env_crc env) ?cfg xs w sq (vq_msgs q) (pc_store ?p)" "producer_at ?cfg w (sq + word_of_nat (length (vq_msgs q))) ?p"
    using h(2,3) by (simp_all add: producer_at_def)
  have hc: "unat (rg_head w) + capacity ?cfg < 2 ^ 64" using count h(8) by simp
  have behind: "length (vq_behind q) = length xs" "vq_producer_shut q = pc_closed ?p" using lens h(5) by simp_all
  have sent: "vq_send m q = (Ok Done, q\<lparr>vq_msgs := [m]\<rparr>)" using msgs m(2,3) by (simp add: vq_send_def)
  from pins_send [OF p h(1) env(3) m(1) hc refl behind, of fuel] obtain a w' r ms where
    a: "psend io env fuel m ?p = (r, a)" "fst (vq_send m q) = map_outcome (\<lambda>_. Done) r" "snd (vq_send m q) = q\<lparr>vq_msgs := ms\<rparr>"
      "pstore (env_crc env) ?cfg xs w' sq ms (pc_store a)" by blast
  have r: "r = Ok ()" using a(2) sent by (cases r) auto
  have "vq_msgs (q\<lparr>vq_msgs := [m]\<rparr>) = vq_msgs (q\<lparr>vq_msgs := ms\<rparr>)" using a(3) sent by simp
  then have ms: "ms = [m]" by simp
  let ?e = "d\<lparr>dx_consumer := c, dx_producer := a, dx_store := pc_store a\<rparr>"
  have run: "duplex_send io env fuel m (d\<lparr>dx_consumer := c\<rparr>) = (Ok (), ?e)"
    using a(1) r by (simp add: duplex_send_def as_producer_def)
  from a(4) obtain ws where ws: "pqueued ?cfg xs w' (map (\<lambda>(q, f). committed_view q f) ws) (pc_store a)" "stored (env_crc env) ?cfg sq [m] ws"
    unfolding ms by (auto simp: pinned_store_def)
  from stored_seqs(2) [OF ws(2) pqueued_bounds(2) [OF ws(1)]] obtain f rest where "ws = (sq, f) # rest" by (cases ws) auto
  with ws(1) have first: "pqueued ?cfg xs w' (committed_view sq f # map (\<lambda>(q, f). committed_view q f) rest) (dx_store ?e)" by simp
  have cons: "pc_config (dx_consumer ?e) = ?cfg" "\<not> multi_producer ?cfg" "pc_recovery_bias (dx_consumer ?e) = 0"
    "\<not> pc_resync_expected (dx_consumer ?e)" "\<not> pc_closed (dx_consumer ?e)" "sq \<noteq> pc_expected_recv_seq (dx_consumer ?e)"
    using c h(1) tail(2) sq by (simp_all add: shared_config_def)
  from duplex_mismatch_pins [OF first cons env(3)] run c(1,6) sq show ?thesis
    by (intro exI [of _ c] exI [of _ ?e]) simp
qed

text \<open>A free slot at the tail, as a release writes it.\<close>

lemma free_slot_cleared:
  assumes s: "pstore crc cfg xs w sq [] s" and room: "length xs < capacity cfg"
  shows "\<exists>t. write_header io (unat (rg_tail w) mod capacity cfg) Free 0 0 s = (Ok (), t) \<and> pstore crc cfg xs w sq [] t \<and>
    read_header io (unat (rg_tail w) mod capacity cfg) t = Ok (Free, 0, 0)"
proof -
  let ?i = "unat (rg_tail w) mod capacity cfg" and ?cap = "capacity cfg" and ?sz = "region_slot_len cfg"
  from s have q: "pqueued cfg xs w [] s" by (auto simp: pinned_store_def)
  obtain g where g: "?cap - (length ([] :: slot_view list) + length xs) = Suc g" using room by (cases "?cap - length xs") auto
  have "window cfg w (free_view # (replicate g free_view @ xs)) s" using pqueued_bounds(5) [OF q] unfolding g by simp
  then obtain us where us: "ring ?cap ?sz w us s" "?i < ?cap"
    "\<forall>x t. ring ?cap ?sz w (us[?i := x]) t \<longrightarrow> window cfg w (x # (replicate g free_view @ xs)) t" by (rule window_tail)
  from write_header_effect [OF ring_layout [OF us(1)] us(2), of Free 0 0] obtain t where
    t: "write_header io ?i Free 0 0 s = (Ok (), t)"
      "slot_set ?cap ?sz ?i (encode_header Free 0 0 None False @ drop PERSISTENT_SLOT_HEADER_LEN (slot_raw ?sz ?i (mem s))) s t" by blast
  note raw = slot_set_raw [OF ring_layout [OF us(1)] us(2) t(2)]
  have "ring ?cap ?sz w (us[?i := free_view]) t" using ring_slot_set [OF us(1,2) t(2)] by (simp add: raw_view_encode)
  with us(3) have "window cfg w (free_view # (replicate g free_view @ xs)) t" by blast
  then have "window cfg w ([] @ replicate (?cap - (length ([] :: slot_view list) + length xs)) free_view @ xs) t" unfolding g by simp
  then have "pqueued cfg xs w [] t" using q by (simp add: pinned_queue_def)
  then have "pstore crc cfg xs w sq [] t" by (auto simp: pinned_store_def)
  moreover have "read_header io ?i t = Ok (Free, 0, 0)" using read_header_effect [OF raw(4) us(2)] raw(1) by simp
  ultimately show ?thesis using t(1) by blast
qed

end

section \<open>Properties\<close>

text \<open>Claim C9: a consumer that opens the channel while views are held and messages wait leaves both as
  they are. When the probe finds no owner of a pinned slot gone, the opening changes nothing in the
  region; the new handle with the producer and the views stands for the same queue with views, so that
  every program of calls goes on as the specification says.\<close>

theorem views_kept_on_opening:
  assumes "viewers_at mmap_io mapped_inv mapped_mem (env_crc env) q (d, vs)" and "vq_msgs q \<noteq> []" and "vq_behind q \<noteq> []"
    and "pins_owned mmap_io env (capacity (vq_config q)) (dx_store d)" and "env_second env = read_header_full mmap_io"
    and "quiet env" and "\<forall>c \<in> set cs. sendable c"
    and "head_count mapped_mem d + Suc (length cs) * capacity (vq_config q) < 2 ^ 64"
  shows "\<exists>c d' vs'. opened mmap_io env self epoch (vq_config q) (dx_store d) = Ok c \<and> pc_store c = dx_store d \<and>
    run_calls (channel_call mmap_io env fuel) cs (d\<lparr>dx_consumer := c\<rparr>, vs) =
      (fst (run_calls vq_call cs (q\<lparr>vq_consumer_shut := False\<rparr>)), (d', vs'))"
proof -
  have "capacity (vq_config q) < 2 ^ 64" using assms(8) by simp
  from mmap.owned_holds [OF assms(1-5) this, of self epoch] obtain c where
    c: "opened mmap_io env self epoch (vq_config q) (dx_store d) = Ok c" "pc_store c = dx_store d"
      "mmap.vat (env_crc env) (q\<lparr>vq_consumer_shut := False\<rparr>) (d\<lparr>dx_consumer := c\<rparr>, vs)" by blast
  have "head_count mapped_mem (d\<lparr>dx_consumer := c\<rparr>) + length cs * capacity (vq_config (q\<lparr>vq_consumer_shut := False\<rparr>)) < 2 ^ 64"
    using assms(8) by (simp add: head_count_def)
  from mmap.run_refines [OF c(3) assms(6,7) this, of fuel] c(1,2) show ?thesis by blast
qed

text \<open>An environment that knows of no process, and looks at a header twice.\<close>

abbreviation watching :: "mapped_slot_storage channel_env" where
  "watching \<equiv> calm\<lparr>env_second := read_header_full mmap_io\<rparr>"

lemma owned_watching: "pins_owned mmap_io watching cap s"
  by (auto simp: pins_owned_def owner_is_def process_liveness_def)

lemma views_kept_on_opening_witness:
  "\<exists>(d :: mapped_slot_storage duplex) vs c p. opened mmap_io watching undefined 0 two_slots (dx_store d) = Ok c \<and>
     run_calls (channel_call mmap_io watching 0) [Read_view 0, Recv_copy, Release_view 0] (d\<lparr>dx_consumer := c\<rparr>, vs) =
       ([Ok (Payload [1]), Ok (Payload [4]), Ok Done], p)"
proof -
  obtain e vs r where e: "mmap.vat (env_crc calm) r (e :: mapped_slot_storage duplex, vs)" "head_count mapped_mem e \<le> 6"
    and r: "vq_config r = two_slots" "vq_msgs r = [[4]]" "vq_behind r = [Some 0]" "vq_views r = [([1], True)]"
    using one_view_and_one_message by blast
  let ?next = "[Read_view 0, Recv_copy, Release_view 0]"
  have "mmap.vat (env_crc watching) r (e, vs)" "quiet watching" "\<forall>c \<in> set ?next. sendable c" "env_second watching = read_header_full mmap_io"
    "head_count mapped_mem e + Suc (length ?next) * capacity (vq_config r) < 2 ^ 64"
    using e r(1) by (simp_all add: quiet_def sendable_def)
  from views_kept_on_opening [OF this(1) _ _ owned_watching this(4,2,3,5), of undefined 0 0] r obtain c p where
    "opened mmap_io watching undefined 0 two_slots (dx_store e) = Ok c"
    "run_calls (channel_call mmap_io watching 0) ?next (e\<lparr>dx_consumer := c\<rparr>, vs) =
      (fst (run_calls vq_call ?next (r\<lparr>vq_consumer_shut := False\<rparr>)), p)" by auto
  moreover have "fst (run_calls vq_call ?next (r\<lparr>vq_consumer_shut := False\<rparr>)) = [Ok (Payload [1]), Ok (Payload [4]), Ok Done]"
    using r by (simp add: vq_read_def vq_recv_def vq_release_def)
  ultimately show ?thesis by metis
qed

text \<open>Claim C16: a view held while nothing waits costs the next consumer its place. The scan of an opening
  takes any slot that is committed or pinned for a message to read, also the slot a view holds behind
  the tail; so it reads the number to expect from the slot at the tail, which is free, and its zero as
  every release writes it, and does not resynchronise. The message that comes next is refused with
  \<open>SequenceMismatch\<close>, and every receive after that answers \<open>BufferEmpty\<close>; the consumer that was there
  would have received it.\<close>

theorem held_view_cuts_next_consumer_off:
  assumes "viewers_at mmap_io mapped_inv mapped_mem (env_crc env) q (d, vs)"
    and "vq_msgs q = []" and "vq_behind q \<noteq> []" and "\<not> vq_producer_shut q"
    and "pins_owned mmap_io env (capacity (vq_config q)) (dx_store d)" and "env_second env = read_header_full mmap_io" and "quiet env"
    and "read_header mmap_io (unat (rg_tail (words_of (mapped_mem (dx_store d)))) mod capacity (vq_config q)) (dx_store d) = Ok (Free, 0, 0)"
    and "pc_next_seq (dx_producer d) \<noteq> 0" and "length m \<le> isize_max"
    and "send_plan_of (vq_config q) (length m) = Ok plan" and "needed_slots plan \<le> vq_room q"
    and "head_count mapped_mem d + 2 * capacity (vq_config q) < 2 ^ 64"
  shows "(\<exists>c e. opened mmap_io env self epoch (vq_config q) (dx_store d) = Ok c \<and>
      duplex_send mmap_io env fuel m (d\<lparr>dx_consumer := c\<rparr>) = (Ok (), e) \<and>
      fst (duplex_recv mmap_io env e) = ChanErr (SequenceMismatch 0 (pc_next_seq (dx_producer d))) \<and>
      (\<forall>n. recv_after mmap_io env n (snd (duplex_recv mmap_io env e)) = ChanErr BufferEmpty)) \<and>
    fst (run_calls (channel_call mmap_io env fuel) [Send_copy m, Recv_copy] (d, vs)) = [Ok Done, Ok (Payload m)]"
proof -
  have count: "head_count mapped_mem d + capacity (vq_config q) < 2 ^ 64"
    "head_count mapped_mem d + length [Send_copy m, Recv_copy] * capacity (vq_config q) < 2 ^ 64" using assms(13) by simp_all
  note cut = mmap.owned_wedges [OF assms(1-12) count(1), of self epoch fuel]
  have "\<forall>c \<in> set [Send_copy m, Recv_copy]. sendable c" using assms(10) by (simp add: sendable_def)
  from mmap.run_refines [OF assms(1,7) this count(2), of fuel] obtain d' vs' where
    "run_calls (channel_call mmap_io env fuel) [Send_copy m, Recv_copy] (d, vs) = (fst (run_calls vq_call [Send_copy m, Recv_copy] q), (d', vs'))" by blast
  then have "fst (run_calls (channel_call mmap_io env fuel) [Send_copy m, Recv_copy] (d, vs)) = [Ok Done, Ok (Payload m)]"
    using assms(2,4,11,12) by (simp add: vq_send_def vq_recv_def)
  with cut show ?thesis by blast
qed

text \<open>One view held in two slots, after the first message, and the slot at the tail free.\<close>

lemma one_view_held:
  "\<exists>(d :: mapped_slot_storage duplex) v q. mmap.vat (env_crc calm) q (d, [v]) \<and> vq_config q = two_slots \<and> vq_msgs q = [] \<and>
     vq_behind q = [Some 0] \<and> \<not> vq_producer_shut q \<and> pc_next_seq (dx_producer d) = 1 \<and> head_count mapped_mem d \<le> 2 \<and>
     read_header mmap_io (unat (rg_tail (words_of (mapped_mem (dx_store d)))) mod 2) (dx_store d) = Ok (Free, 0, 0)"
proof -
  obtain d where d: "duplex_inv mmap_io mapped_inv mapped_mem (env_crc calm) d" "duplex_config d = two_slots" "duplex_messages mapped_mem d = []"
    "head_count mapped_mem d = 0" "\<not> pc_resync_expected (dx_consumer d)" "\<not> pc_closed (dx_producer d)" "pc_next_seq (dx_producer d) = 0"
    using two_slots_start by blast
  let ?q = "queue_without_views mapped_mem d"
  have q: "vq_config ?q = two_slots" "vq_msgs ?q = []" "vq_behind ?q = []" "vq_views ?q = []" "\<not> vq_producer_shut ?q"
    using d(2,3,6) by (simp_all add: queue_without_views_def)
  show ?thesis
  proof (rule mmap.vatE [OF mmap.viewers_start [OF d(1,5)]])
    fix xs w sq
    assume h: "shared_config (vq_config ?q)" "mmap.pstore (env_crc calm) (vq_config ?q) xs w sq (vq_msgs ?q) (dx_store d)"
      "producer_at (vq_config ?q) w (sq + word_of_nat (length (vq_msgs ?q))) (dx_producer d)" "receiver_at (vq_config ?q) sq (dx_consumer d)"
      "vq_producer_shut ?q = pc_closed (dx_producer d)" "vq_consumer_shut ?q = pc_closed (dx_consumer d)"
      "views_hold (env_crc calm) (vq_config ?q) (vq_views ?q) [] (unat (rg_floor w)) (vq_behind ?q) xs" "unat (rg_head w) = head_count mapped_mem d"
    have xs: "xs = []" and sq: "sq = 0"
      using views_hold_length [OF h(7)] h(3) d(7) q(2,3) by (simp_all add: producer_at_def)
    let ?p = "(dx_producer d)\<lparr>pc_store := dx_store d\<rparr>"
    have p: "mmap.pstore (env_crc calm) two_slots [] w 0 (vq_msgs ?q) (pc_store ?p)"
      "producer_at two_slots w (0 + word_of_nat (length (vq_msgs ?q))) ?p"
      using h(2,3) unfolding xs sq q(1) by (simp_all add: producer_at_def)
    have c: "length [1 :: byte] \<le> isize_max" "unat (rg_head w) + capacity two_slots < 2 ^ 64" "length (vq_behind ?q) = length ([] :: slot_view list)"
      "vq_producer_shut ?q = pc_closed ?p"
      using h(8) d(4,6) q(3,5) by (simp_all add: isize_max_def)
    have sent: "vq_send [1] ?q = (Ok Done, ?q\<lparr>vq_msgs := [[1]]\<rparr>)"
      using q by (simp add: vq_send_def vq_room_def send_plan_of_def)
    from mmap.pins_send [OF p two_slots_simps(5) quiet_calm c(1,2) q(1) c(3,4), of 0] obtain a w1 ms where
      a: "snd (vq_send [1] ?q) = ?q\<lparr>vq_msgs := ms\<rparr>" "mmap.pstore (env_crc calm) two_slots [] w1 0 ms (pc_store a)"
        "producer_at two_slots w1 (0 + word_of_nat (length ms)) a" "pc_closed a = pc_closed ?p" "unat (rg_head w1) \<le> unat (rg_head w) + capacity two_slots" by blast
    have "vq_msgs (?q\<lparr>vq_msgs := [[1]]\<rparr>) = vq_msgs (?q\<lparr>vq_msgs := ms\<rparr>)" using a(1) sent by simp
    then have ms: "ms = [[1]]" by simp
    let ?c = "(dx_consumer d)\<lparr>pc_store := pc_store a\<rparr>" and ?x = "pinned_view 0 (plain_header (env_crc calm) 0 [1] @ [1])"
    have "mmap.pstore (env_crc calm) two_slots [] w1 0 ([1] # []) (pc_store ?c)" "receiver_at two_slots 0 ?c"
      using a(2) h(4) unfolding ms sq q(1) by (simp_all add: receiver_at_def)
    from mmap.pins_take(1) [OF this two_slots_simps(5)] obtain e w2 where
      e: "mmap.pstore (env_crc calm) two_slots [?x] w2 1 [] (pc_store e)" "rg_head w2 = rg_head w1" "receiver_at two_slots 1 e"
        "pc_closed e = pc_closed (dx_consumer d)" by auto
    from mmap.free_slot_cleared [OF e(1)] obtain t where
      t: "mmap.pstore (env_crc calm) two_slots [?x] w2 1 [] t" "read_header mmap_io (unat (rg_tail w2) mod 2) t = Ok (Free, 0, 0)" by auto
    let ?d = "d\<lparr>dx_producer := a, dx_consumer := e, dx_store := t\<rparr>"
    let ?r = "?q\<lparr>vq_behind := [Some 0], vq_views := [([1], True)]\<rparr>"
    have hold: "views_hold (env_crc calm) two_slots [([1], True)] [view_at two_slots (word_of_nat (unat (rg_floor w2))) 0 1] (unat (rg_floor w2)) [Some 0] [?x]"
      using views_hold_take [OF views_hold_nil, of "env_crc calm" two_slots "[1]" "unat (rg_floor w2)" 0] by simp
    have prod: "producer_at two_slots w2 1 a" using a(3) e(2) unfolding ms by (simp add: producer_at_def)
    have v: "mmap.vat (env_crc calm) ?r (?d, [view_at two_slots (word_of_nat (unat (rg_floor w2))) 0 1])"
      by (rule mmap.vatI [where xs = "[?x]" and w = w2 and sq = 1])
        (use q t(1) prod e(3,4) a(4) h(5,6) hold in simp_all)
    have words: "words_of (mapped_mem t) = w2" using mmap.pstore_used(4) [OF t(1)] .
    have "head_count mapped_mem ?d \<le> 2" using words e(2) a(5) h(8) d(4) by (simp add: head_count_def)
    moreover have "pc_next_seq (dx_producer ?d) = 1" using prod by (simp add: producer_at_def)
    ultimately show ?thesis using v q t(2) words
      by (intro exI [of _ ?d] exI [of _ "view_at two_slots (word_of_nat (unat (rg_floor w2))) 0 1"] exI [of _ ?r]) simp
  qed
qed

lemma held_view_cuts_next_consumer_off_witness:
  "\<exists>(d :: mapped_slot_storage duplex) v c e. opened mmap_io watching undefined 0 two_slots (dx_store d) = Ok c \<and>
     duplex_send mmap_io watching 0 [9] (d\<lparr>dx_consumer := c\<rparr>) = (Ok (), e) \<and>
     fst (duplex_recv mmap_io watching e) = ChanErr (SequenceMismatch 0 1) \<and>
     recv_after mmap_io watching 5 (snd (duplex_recv mmap_io watching e)) = ChanErr BufferEmpty \<and>
     fst (run_calls (channel_call mmap_io watching 0) [Send_copy [9], Recv_copy] (d, [v])) = [Ok Done, Ok (Payload [9])]"
proof -
  obtain d v q where h: "mmap.vat (env_crc calm) q (d :: mapped_slot_storage duplex, [v])" "vq_config q = two_slots" "vq_msgs q = []"
    "vq_behind q = [Some 0]" "\<not> vq_producer_shut q" "pc_next_seq (dx_producer d) = 1" "head_count mapped_mem d \<le> 2"
    "read_header mmap_io (unat (rg_tail (words_of (mapped_mem (dx_store d)))) mod 2) (dx_store d) = Ok (Free, 0, 0)"
    using one_view_held by blast
  have "mmap.vat (env_crc watching) q (d, [v])" "quiet watching" "env_second watching = read_header_full mmap_io" "vq_behind q \<noteq> []"
    "send_plan_of (vq_config q) (length [9 :: byte]) = Ok \<lparr>chunk_payload_size = 4, needed_slots = 1\<rparr>" "length [9 :: byte] \<le> isize_max"
    "needed_slots \<lparr>chunk_payload_size = 4, needed_slots = 1\<rparr> \<le> vq_room q" "pc_next_seq (dx_producer d) \<noteq> 0"
    "head_count mapped_mem d + 2 * capacity (vq_config q) < 2 ^ 64"
    "read_header mmap_io (unat (rg_tail (words_of (mapped_mem (dx_store d)))) mod capacity (vq_config q)) (dx_store d) = Ok (Free, 0, 0)"
    using h by (simp_all add: quiet_def send_plan_of_def isize_max_def vq_room_def)
  from held_view_cuts_next_consumer_off [OF this(1) h(3) this(4) h(5) owned_watching this(3,2,10,8,6,5,7,9), of undefined 0 0] h(2,6)
  show ?thesis by (intro exI [of _ d] exI [of _ v]) auto
qed

end
