(* ===== verification/Full_Reopened.thy ===== *)
theory Full_Reopened
  imports Views_Attended
begin

text \<open>
  A producer that opens a full ring while a view is held: the scan for its position runs into the slot
  at the tail and not into the slot behind the head.
\<close>

context region_io
begin

text \<open>The slots behind the queue: they fit beside it, and a view that holds one is held.\<close>

lemma vat_behind:
  assumes v: "vat crc q (d, vs)"
  shows "length (vq_behind q) + used_slots (vq_config q) (vq_msgs q) \<le> capacity (vq_config q)"
    "Some i \<in> set (vq_behind q) \<Longrightarrow> i < length (vq_views q) \<and> snd (vq_views q ! i)"
proof -
  from v obtain xs w sq where h: "pstore crc (vq_config q) xs w sq (vq_msgs q) (dx_store d)"
    "views_hold crc (vq_config q) (vq_views q) vs (unat (rg_floor w)) (vq_behind q) xs" by (auto elim: vatE)
  show "length (vq_behind q) + used_slots (vq_config q) (vq_msgs q) \<le> capacity (vq_config q)"
    using pstore_used(1) [OF h(1)] views_hold_length [OF h(2)] by simp
  assume "Some i \<in> set (vq_behind q)"
  then obtain k where "k < length (vq_behind q)" "vq_behind q ! k = Some i" by (auto simp: in_set_conv_nth)
  with h(2) have "slot_held crc (vq_config q) (vq_views q) vs (unat (rg_floor w) + k) (Some i) (xs ! k)"
    by (auto simp: views_hold_def)
  then show "i < length (vq_views q) \<and> snd (vq_views q ! i)" by (simp add: slot_held_def)
qed

text \<open>The scan of a full ring comes back to the slot at the tail.\<close>

lemma full_head:
  assumes q: "pqueued cfg xs w (map (\<lambda>(q, f). committed_view q f) ws) s" and full: "length ws + length xs = capacity cfg"
    and held: "free_view \<notin> set xs"
  shows "infer_head_from_tail io (capacity cfg) (unat (rg_tail w) mod capacity cfg) s = Ok (unat (rg_tail w) mod capacity cfg)"
proof -
  let ?all = "map (\<lambda>(q, f). committed_view q f) ws @ xs"
  have win: "window cfg w ?all s" using pqueued_bounds(5) [OF q] full by simp
  have "\<forall>x \<in> set xs. \<exists>sq f. x = pinned_view sq f" using pqueued_bounds(4) [OF q] held by (auto simp: view_slots_def)
  then have "\<forall>v \<in> set ?all. state (fst v) \<noteq> Free" by (auto simp: committed_view_def pinned_view_def)
  from infer_head_window [OF win this, of 0 "capacity cfg"] full show ?thesis by (simp add: infer_head_from_tail_def)
qed

text \<open>A send from the slot at the tail of a ring that holds a message finds the slot taken.\<close>

lemma send_at_tail_full:
  assumes s: "pstore (env_crc env) cfg xs w sq ms (pc_store c)" and ms: "ms \<noteq> []" and cfg: "shared_config cfg" and env: "quiet env"
    and c: "pc_config c = cfg" "pc_recovery_bias c = 0" "\<not> pc_closed c" "pc_head c = unat (rg_tail w) mod capacity cfg"
    and m: "length m \<le> isize_max" "send_plan_of cfg (length m) = Ok plan" "length xs + used_slots cfg ms + needed_slots plan \<le> capacity cfg"
  shows "\<exists>e. psend io env fuel m c = (ChanErr BufferFull, e)"
proof -
  let ?r = "refreshed w (used_slots cfg ms) c" and ?i = "unat (rg_tail w) mod capacity cfg"
  note u = pstore_used [OF s]
  from s obtain ws where ws: "pqueued cfg xs w (map (\<lambda>(q, f). committed_view q f) ws) (pc_store c)" "stored (env_crc env) cfg sq ms ws"
    by (auto simp: pinned_store_def)
  from stored_seqs(2) [OF ws(2) u(2) ms] obtain f rest where "ws = (sq, f) # rest" by (cases ws) auto
  then have "window cfg w (committed_view sq f # (map (\<lambda>(q, f). committed_view q f) rest @
      replicate (capacity cfg - (length (map (\<lambda>(q, f). committed_view q f) ws) + length xs)) free_view @ xs)) (pc_store c)"
    using pqueued_bounds(5) [OF ws(1)] by simp
  from window_tail_header(1) [OF this] have tail: "read_header io ?i (pc_store c) = Ok (Committed, sq, length f)" .
  have "pstore (env_crc env) (pc_config c) xs w sq ms (pc_store c)" using s c(1) by simp
  from pins_room [OF this c(2)] have ref: "refresh_cursors io c = (Ok (), ?r)" "refresh_cursors io ?r = (Ok (), ?r)"
    "needed_slots plan \<le> guard_room ?r" using c(1) m(3) by simp_all
  have r: "pc_config ?r = pc_config c" "pc_head ?r = ?i" "pc_store ?r = pc_store c" using c(4) by (simp_all add: refreshed_def)
  obtain fs where fs: "encode_message_frames (env_crc env) cfg plan (pc_next_seq ?r) m = Ok fs"
    using encode_message_frames_Ok [OF m(2) u(2) m(1)] by metis
  have "fs \<noteq> []" using encoded_message(3) [OF m(2) u(2) m(1) fs] .
  then obtain b bs where b: "fs = b # bs" by (cases fs) auto
  have "\<not> multi_producer (pc_config c)" "send_plan_of (pc_config c) (length m) = Ok plan" "0 < capacity (pc_config c)"
    "encode_message_frames (env_crc env) (pc_config c) plan (pc_next_seq ?r) m = Ok fs"
    using cfg c(1) m(2) u(2) fs by (simp_all add: shared_config_def)
  from psend_by_room(1) [OF c(3) this(1) env ref(1,2) r(1) this(2,3) ref(3) this(4), of fuel] r(2,3) tail
  show ?thesis unfolding b by (simp add: write_frame_at_head_def pwrite_committed_no_flush_def)
qed

lemma full_opened_stuck:
  assumes v: "vat (env_crc env) q (d, vs)" and msgs: "vq_msgs q \<noteq> []" "vq_behind q = [Some i]" "vq_room q = 0"
    and env: "pins_owned io env (capacity (vq_config q)) (dx_store d)" "env_second env = read_header_full io" "quiet env"
    and m: "length m \<le> isize_max" "send_plan_of (vq_config q) (length m) = Ok plan" "needed_slots plan = 1"
    and cap: "capacity (vq_config q) < 2 ^ 64"
  shows "\<exists>c p. opened io env self epoch (vq_config q) (dx_store d) = Ok c \<and>
    run_calls (channel_call io env fuel) [Release_view i, Send_copy m] (d\<lparr>dx_producer := c\<rparr>, vs) = ([Ok Done, ChanErr BufferFull], p)"
  using v
proof (rule vatE)
  let ?cfg = "vq_config q" and ?taken = "vq_views q"
  fix xs w sq
  assume h: "shared_config ?cfg" "pstore (env_crc env) ?cfg xs w sq (vq_msgs q) (dx_store d)"
    "producer_at ?cfg w (sq + word_of_nat (length (vq_msgs q))) (dx_producer d)" "receiver_at ?cfg sq (dx_consumer d)"
    "vq_producer_shut q = pc_closed (dx_producer d)" "vq_consumer_shut q = pc_closed (dx_consumer d)"
    "views_hold (env_crc env) ?cfg ?taken vs (unat (rg_floor w)) (vq_behind q) xs" "unat (rg_head w) = head_count mem d"
  note lens = views_hold_length [OF h(7)] and u = pstore_used [OF h(2)]
  have n: "length xs = 1" "1 + used_slots ?cfg (vq_msgs q) = capacity ?cfg"
    using lens msgs(2,3) u(1) by (simp_all add: vq_room_def)
  have "slot_held (env_crc env) ?cfg ?taken vs (unat (rg_floor w) + 0) (vq_behind q ! 0) (xs ! 0)"
    using h(7) n(1) unfolding views_hold_def by (metis less_numeral_extra(1))
  then have i: "i < length ?taken" "snd (?taken ! i)" and pin: "\<exists>n f. xs ! 0 = pinned_view n f"
    using msgs(2) by (auto simp: slot_held_def)
  then have held: "free_view \<notin> set xs" using n(1) by (cases xs) auto
  from h(2) obtain ws where ws: "pqueued ?cfg xs w (map (\<lambda>(q, f). committed_view q f) ws) (dx_store d)" "stored (env_crc env) ?cfg sq (vq_msgs q) ws"
    by (auto simp: pinned_store_def)
  have "length ws + length xs = capacity ?cfg" using stored_length [OF ws(2) u(2)] n by simp
  note head = full_head [OF ws(1) this held]
  have "xs \<noteq> []" using n(1) by auto
  from owned_opened [OF h(2) this env(1,2) cap, of self epoch] head obtain c where
    c: "opened io env self epoch ?cfg (dx_store d) = Ok c" "pc_config c = ?cfg" "pc_recovery_bias c = 0" "\<not> pc_closed c"
      "pc_head c = unat (rg_tail w) mod capacity ?cfg" by auto
  let ?d = "d\<lparr>dx_producer := c\<rparr>"
  from held_view(2) [OF h(2,7) i cap] obtain t w' v ys where
    t: "view_release io (vs ! i, dx_store d) = (Ok (), (v, t))" "pstore (env_crc env) ?cfg ys w' sq (vq_msgs q) t" "rg_head w' = rg_head w"
      "views_hold (env_crc env) ?cfg (?taken[i := (fst (?taken ! i), False)]) (vs[i := v]) (unat (rg_floor w')) (give_back i (vq_behind q)) ys" by blast
  have ys: "ys = []" using views_hold_length [OF t(4)] msgs(2) by (simp add: give_back_def)
  have tail: "unat (rg_tail w') = unat (rg_tail w)" using u(3) pstore_used(3) [OF t(2)] t(3) by simp
  have released: "channel_call io env fuel (Release_view i) (?d, vs) = (Ok Done, (?d\<lparr>dx_store := t\<rparr>, vs[i := v]))"
    using view_run [where f = "view_release io" and d = ?d and vs = vs and i = i and g = "\<lambda>_ :: unit. Done"] t(1) i(1) lens by simp
  have "pstore (env_crc env) ?cfg ys w' sq (vq_msgs q) (pc_store (c\<lparr>pc_store := t\<rparr>))" "pc_config (c\<lparr>pc_store := t\<rparr>) = ?cfg"
    "pc_recovery_bias (c\<lparr>pc_store := t\<rparr>) = 0" "\<not> pc_closed (c\<lparr>pc_store := t\<rparr>)" "pc_head (c\<lparr>pc_store := t\<rparr>) = unat (rg_tail w') mod capacity ?cfg"
    "length ys + used_slots ?cfg (vq_msgs q) + needed_slots plan \<le> capacity ?cfg"
    using t(2) c ys n(2) m(3) tail by simp_all
  from send_at_tail_full [OF this(1) msgs(1) h(1) env(3) this(2-5) m(1,2) this(6), of fuel] obtain e where
    "psend io env fuel m (c\<lparr>pc_store := t\<rparr>) = (ChanErr BufferFull, e)" by blast
  then have "on_duplex (duplex_send io env fuel m) (?d\<lparr>dx_store := t\<rparr>, vs[i := v]) =
      (ChanErr BufferFull, (?d\<lparr>dx_producer := e, dx_store := pc_store e\<rparr>, vs[i := v]))"
    by (simp add: on_duplex_def zoom_def duplex_send_def as_producer_def)
  from answering_run [where m = "on_duplex (duplex_send io env fuel m)" and s = "(?d\<lparr>dx_store := t\<rparr>, vs[i := v])" and f = "\<lambda>_ :: unit. Done", OF this] have "channel_call io env fuel (Send_copy m) (?d\<lparr>dx_store := t\<rparr>, vs[i := v]) =
      (ChanErr BufferFull, (?d\<lparr>dx_producer := e, dx_store := pc_store e\<rparr>, vs[i := v]))" by simp
  with c(1) released show ?thesis
    by (intro exI [of _ c] exI [of _ "(?d\<lparr>dx_producer := e, dx_store := pc_store e\<rparr>, vs[i := v])"]) simp
qed

end

text \<open>Claim C17: a producer that opens a full ring while a view is held cannot send when the view is
  given back. The scan for the position of a producer goes from the tail to the first free slot, which
  a ring has none of; it ends at the slot of the tail, which holds the oldest message, and not at the
  slot of the head cursor, which the view holds. The release of the view makes room, the send passes
  the guard, finds its slot taken and answers \<open>BufferFull\<close>; the producer that was there sends.\<close>

theorem full_ring_misplaces_producer:
  assumes "viewers_at mmap_io mapped_inv mapped_mem (env_crc env) q (d, vs)" and "\<not> vq_producer_shut q"
    and "vq_msgs q \<noteq> []" and "vq_behind q = [Some i]" and "vq_room q = 0"
    and "pins_owned mmap_io env (capacity (vq_config q)) (dx_store d)" and "env_second env = read_header_full mmap_io" and "quiet env"
    and "length m \<le> isize_max" and "send_plan_of (vq_config q) (length m) = Ok plan" and "needed_slots plan = 1"
    and "head_count mapped_mem d + 2 * capacity (vq_config q) < 2 ^ 64"
  shows "\<exists>c p. opened mmap_io env self epoch (vq_config q) (dx_store d) = Ok c \<and>
    run_calls (channel_call mmap_io env fuel) [Release_view i, Send_copy m] (d\<lparr>dx_producer := c\<rparr>, vs) = ([Ok Done, ChanErr BufferFull], p) \<and>
    fst (run_calls (channel_call mmap_io env fuel) [Release_view i, Send_copy m] (d, vs)) = [Ok Done, Ok Done]"
proof -
  let ?cs = "[Release_view i, Send_copy m]"
  have cap: "capacity (vq_config q) < 2 ^ 64" "head_count mapped_mem d + length ?cs * capacity (vq_config q) < 2 ^ 64" using assms(12) by simp_all
  from mmap.full_opened_stuck [OF assms(1,3-11) cap(1), of self epoch fuel] obtain c p where
    c: "opened mmap_io env self epoch (vq_config q) (dx_store d) = Ok c"
      "run_calls (channel_call mmap_io env fuel) ?cs (d\<lparr>dx_producer := c\<rparr>, vs) = ([Ok Done, ChanErr BufferFull], p)" by blast
  have "\<forall>c \<in> set ?cs. sendable c" using assms(9) by (simp add: sendable_def)
  from mmap.run_refines [OF assms(1,8) this cap(2), of fuel] obtain d' vs' where
    run: "run_calls (channel_call mmap_io env fuel) ?cs (d, vs) = (fst (run_calls vq_call ?cs q), (d', vs'))" by blast
  have "i < length (vq_views q) \<and> snd (vq_views q ! i)" "1 + used_slots (vq_config q) (vq_msgs q) = capacity (vq_config q)"
    using mmap.vat_behind(1) [OF assms(1)] mmap.vat_behind(2) [OF assms(1), of i] assms(4,5) by (simp_all add: vq_room_def)
  moreover from this(2) have "Suc 0 \<le> capacity (vq_config q) - used_slots (vq_config q) (vq_msgs q)" by simp
  ultimately have "fst (run_calls vq_call ?cs q) = [Ok Done, Ok Done]"
    using assms(2,4,10,11) by (simp add: vq_release_def vq_give_back_def give_back_def vq_send_def vq_room_def)
  with run c show ?thesis by auto
qed

lemma full_ring_misplaces_producer_witness:
  "\<exists>(d :: mapped_slot_storage duplex) vs c p. opened mmap_io watching undefined 0 two_slots (dx_store d) = Ok c \<and>
     run_calls (channel_call mmap_io watching 0) [Release_view 0, Send_copy [9]] (d\<lparr>dx_producer := c\<rparr>, vs) = ([Ok Done, ChanErr BufferFull], p) \<and>
     fst (run_calls (channel_call mmap_io watching 0) [Release_view 0, Send_copy [9]] (d, vs)) = [Ok Done, Ok Done]"
proof -
  obtain e vs q where h: "mmap.vat (env_crc calm) q (e :: mapped_slot_storage duplex, vs)" "head_count mapped_mem e \<le> 6"
    "vq_config q = two_slots" "vq_msgs q = [[4]]" "vq_behind q = [Some 0]" "\<not> vq_producer_shut q"
    using one_view_and_one_message by blast
  have "mmap.vat (env_crc watching) q (e, vs)" "quiet watching" "env_second watching = read_header_full mmap_io" "vq_msgs q \<noteq> []" "vq_room q = 0"
    "send_plan_of (vq_config q) (length [9 :: byte]) = Ok \<lparr>chunk_payload_size = 4, needed_slots = 1\<rparr>" "length [9 :: byte] \<le> isize_max"
    "needed_slots \<lparr>chunk_payload_size = 4, needed_slots = 1\<rparr> = 1" "head_count mapped_mem e + 2 * capacity (vq_config q) < 2 ^ 64"
    using h by (simp_all add: quiet_def send_plan_of_def isize_max_def vq_room_def slots_of_def)
  from full_ring_misplaces_producer [OF this(1) h(6) this(4) h(5) this(5) owned_watching this(3,2,7,6,8,9), of undefined 0 0] h(3)
  show ?thesis by (intro exI [of _ e] exI [of _ vs]) auto
qed

end
