(* ===== verification/View_Refusal.thy ===== *)
theory View_Refusal
  imports Pinned_Views Persistent_Channel_Properties
begin

text \<open>
  A view of a message in several slots is refused, and the refusal costs a consumer that was opened on
  a drained ring its place in the sequence.
\<close>

section \<open>The refusal\<close>

context region_io
begin

lemma refused_view_wedges:
  assumes d: "duplex_holds io inv mem (env_crc env) d []" and env: "quiet env"
    and live: "\<not> pc_closed (dx_producer d)" and sq: "pc_next_seq (dx_producer d) \<noteq> 0"
    and m: "length m \<le> isize_max" "slot_size (duplex_config d) < length m" "send_plan_of (duplex_config d) (length m) = Ok plan"
    and count: "head_count mem d + capacity (duplex_config d) < 2 ^ 64"
  shows "\<exists>c e f. opened io env self epoch (duplex_config d) (dx_store d) = Ok c \<and>
    duplex_send io env fuel m (d\<lparr>dx_consumer := c\<rparr>) = (Ok (), e) \<and> fst (duplex_recv io env e) = Ok m \<and>
    as_consumer (recv_view io env) e =
      (ChanErr (InvalidConfig ''zero-copy views require single-slot unchunked messages; use recv()''), f) \<and>
    fst (duplex_recv io env f) = ChanErr (SequenceMismatch 0 (pc_next_seq (dx_producer d))) \<and>
    (\<forall>n. recv_after io env n (snd (duplex_recv io env f)) = ChanErr BufferEmpty)"
proof -
  let ?cfg = "duplex_config d" and ?sq = "pc_next_seq (dx_producer d)"
  from d obtain w where w: "shared_config ?cfg" "sholds (env_crc env) ?cfg w ?sq [] (dx_store d)"
    "producer_at ?cfg w ?sq (dx_producer d)" by (auto simp: duplex_holds_def producer_at_def)
  have s0: "sholds (env_crc env) ?cfg w 0 [] (dx_store d)" using w(2) by (auto simp: store_holds_def)
  from opened_holds [OF s0, of env self epoch] obtain c where
    c: "opened io env self epoch ?cfg (dx_store d) = Ok c" "pc_config c = ?cfg" "pc_recovery_bias c = 0" "\<not> pc_closed c"
      "pc_resync_expected c" "pc_expected_recv_seq c = 0" by auto
  let ?p = "(dx_producer d)\<lparr>pc_store := dx_store d\<rparr>"
  have p: "sholds (env_crc env) ?cfg w ?sq [] (pc_store ?p)" "producer_at ?cfg w (?sq + word_of_nat (length ([] :: bytes list))) ?p"
    using w(2,3) by (simp_all add: producer_at_def)
  have cfg: "\<not> multi_producer ?cfg" "slot_size ?cfg + FRAME_HEADER_LEN < 2 ^ 32" "backpressure ?cfg \<noteq> DropOldest"
    using w(1) by (simp_all add: shared_config_def)
  have cap: "0 < capacity ?cfg" using sholds_used(2) [OF w(2)] .
  have hc: "unat (rg_head w) + capacity ?cfg < 2 ^ 64" using count sholds_words [OF w(2)] by (simp add: head_count_def)
  have bp: "backpressure ?cfg = DropOldest \<longrightarrow> used_slots ?cfg [] + slots_of ?cfg m \<le> capacity ?cfg" using cfg(3) by simp
  let ?q = "\<lparr>mq_config = ?cfg, mq_msgs = [], mq_shut = pc_closed ?p\<rparr>"
  have q: "queue_send m ?q = (Ok (), ?q\<lparr>mq_msgs := [m]\<rparr>)"
    using live m(3) needed_slots_bounds(2) [OF m(3) cap] by (simp add: queue_send_def Let_def)
  from psend_refines [OF p cfg(1,2) bp env m(1) hc, of fuel] obtain a w' where
    a: "psend io env fuel m ?p = (Ok (), a)" "sholds (env_crc env) ?cfg w' ?sq [m] (pc_store a)" unfolding q by auto
  let ?e = "d\<lparr>dx_consumer := c, dx_producer := a, dx_store := pc_store a\<rparr>" and ?c = "c\<lparr>pc_store := pc_store a\<rparr>"
  have sent: "duplex_send io env fuel m (d\<lparr>dx_consumer := c\<rparr>) = (Ok (), ?e)"
    using a(1) by (simp add: duplex_send_def as_producer_def)
  have sc: "sholds (env_crc env) ?cfg w' ?sq [m] (pc_store ?c)" "consumer_at ?cfg ?sq ?c"
    using a(2) c by (simp_all add: consumer_at_def expects_def)
  from precv_refines [OF sc env] obtain b where "precv io env ?c = (Ok m, b)" by (auto simp: queue_recv_def)
  then have recv: "fst (duplex_recv io env ?e) = Ok m" by (simp add: duplex_recv_def as_consumer_def)
  from sc(1) obtain ws where ws: "queued ?cfg w' (map (\<lambda>(q, f). committed_view q f) ws) (pc_store ?c)" "stored (env_crc env) ?cfg ?sq [m] ws"
    by (auto simp: store_holds_def)
  from stored_chunk [OF ws(2) cap m(2)] obtain h b rest hdr n where
    h: "map (\<lambda>(q, f). committed_view q f) ws = committed_view ?sq (h @ b) # rest" "length h = FRAME_HEADER_LEN"
      "decode_frame_header h = Ok (hdr, n)" "hdr_flags hdr \<noteq> 0" .
  have "pqueued (pc_config ?c) [] w' (committed_view ?sq (h @ b) # rest) (pc_store ?c)" "backpressure (pc_config ?c) \<noteq> DropOldest"
    "pc_recovery_bias ?c = 0" using ws(1) c(2,3) cfg(3) unfolding h(1) by simp_all
  from recv_view_chunked [OF this(1,3,2) h(2-4), of env] c(2) obtain g where
    g: "recv_view io env ?c = (ChanErr (InvalidConfig ''zero-copy views require single-slot unchunked messages; use recv()''), g)"
      "at_tail ?cfg (committed_view ?sq (h @ b) # rest) g"
      "same_handle (c\<lparr>pc_store := pc_store a, pc_resync_expected := False, pc_head_cursor := rg_head w'\<rparr>) g" "loaded_words g = w'" by auto
  have "queued ?cfg w' (map (\<lambda>(q, f). committed_view q f) ws) (pc_store g)" using g(2,4) unfolding h(1) by (simp add: loaded_def)
  then have sg: "sholds (env_crc env) ?cfg w' ?sq [m] (pc_store g)" using ws(2) unfolding store_holds_def by blast
  let ?f = "?e\<lparr>dx_consumer := g, dx_store := pc_store g\<rparr>"
  have refused: "as_consumer (recv_view io env) ?e =
      (ChanErr (InvalidConfig ''zero-copy views require single-slot unchunked messages; use recv()''), ?f)"
    using g(1) by (simp add: as_consumer_def)
  have "sholds (env_crc env) ?cfg w' ?sq (m # []) (dx_store ?f)" "pc_config (dx_consumer ?f) = ?cfg" "pc_recovery_bias (dx_consumer ?f) = 0"
    "\<not> pc_resync_expected (dx_consumer ?f)" "\<not> pc_closed (dx_consumer ?f)" "pc_expected_recv_seq (dx_consumer ?f) = 0"
    using sg g(2,3) c by (simp_all add: loaded_def same_handle_def)
  from duplex_mismatch [OF this(1,2) cfg(1) this(3-5) _ env] this(6) sq c(1) sent recv refused show ?thesis
    by (intro exI [of _ c] exI [of _ ?e] exI [of _ ?f]) auto
qed

end

text \<open>Claim C15: a refused view costs a newly opened consumer its place. It opens on a drained ring in
  resynchronisation, and the message that comes next takes several slots: a receive would adopt its
  number and deliver it. But \<open>recv_view\<close> takes the resynchronisation flag before it looks at the frame
  and does not give it back when it answers \<open>InvalidConfig\<close> and says to use \<open>recv\<close>: the receive that
  follows the advice expects the number zero, answers \<open>SequenceMismatch\<close> with the slot already pinned,
  and every receive after it answers \<open>BufferEmpty\<close>.\<close>

theorem refused_view_cuts_consumer_off:
  assumes "duplex_inv mmap_io mapped_inv mapped_mem (env_crc env) d" and "duplex_messages mapped_mem d = []" and "quiet env"
    and "\<not> pc_closed (dx_producer d)" and "pc_next_seq (dx_producer d) \<noteq> 0"
    and "length m \<le> isize_max" and "slot_size (duplex_config d) < length m" and "send_plan_of (duplex_config d) (length m) = Ok plan"
    and "head_count mapped_mem d + capacity (duplex_config d) < 2 ^ 64"
  shows "\<exists>c e f. opened mmap_io env self epoch (duplex_config d) (dx_store d) = Ok c \<and>
    duplex_send mmap_io env fuel m (d\<lparr>dx_consumer := c\<rparr>) = (Ok (), e) \<and> fst (duplex_recv mmap_io env e) = Ok m \<and>
    as_consumer (recv_view mmap_io env) e =
      (ChanErr (InvalidConfig ''zero-copy views require single-slot unchunked messages; use recv()''), f) \<and>
    fst (duplex_recv mmap_io env f) = ChanErr (SequenceMismatch 0 (pc_next_seq (dx_producer d))) \<and>
    (\<forall>n. recv_after mmap_io env n (snd (duplex_recv mmap_io env f)) = ChanErr BufferEmpty)"
proof -
  from assms(1) obtain ms where ms: "duplex_holds mmap_io mapped_inv mapped_mem (env_crc env) d ms" by (auto simp: duplex_inv_def)
  with assms(2) mmap.holds_messages(1) have "duplex_holds mmap_io mapped_inv mapped_mem (env_crc env) d []" by force
  from mmap.refused_view_wedges [OF this assms(3-9)] show ?thesis .
qed

text \<open>A channel with long slots, for the witness.\<close>

definition wide_config :: spsc_config where
  "wide_config = \<lparr>capacity = 2, slot_size = 100, backpressure = Raise, timeout = None, multi_producer = False\<rparr>"

lemma wide_config_simps [simp]:
  "capacity wide_config = 2" "slot_size wide_config = 100" "backpressure wide_config = Raise" "region_fits wide_config" "shared_config wide_config"
  "send_plan_of wide_config 101 = Ok \<lparr>chunk_payload_size = 58, needed_slots = 2\<rparr>"
  by (simp_all add: wide_config_def region_fits_def shared_config_def send_plan_of_def layout_consts usize_max_def frame_consts
      CHUNK_METADATA_LEN_def checked_sub_def checked_add_def checked_mul_def)

lemma refused_view_cuts_consumer_off_witness:
  "\<exists>(d :: mapped_slot_storage duplex) c e f. duplex_messages mapped_mem d = [] \<and>
     opened mmap_io calm undefined 0 (duplex_config d) (dx_store d) = Ok c \<and>
     duplex_send mmap_io calm 0 (replicate 101 7) (d\<lparr>dx_consumer := c\<rparr>) = (Ok (), e) \<and>
     fst (as_consumer (recv_view mmap_io calm) e) =
       ChanErr (InvalidConfig ''zero-copy views require single-slot unchunked messages; use recv()'') \<and>
     f = snd (as_consumer (recv_view mmap_io calm) e) \<and>
     fst (duplex_recv mmap_io calm f) = ChanErr (SequenceMismatch 0 1) \<and>
     recv_after mmap_io calm 5 (snd (duplex_recv mmap_io calm f)) = ChanErr BufferEmpty"
proof -
  have "\<not> multi_producer wide_config" "slot_size wide_config + FRAME_HEADER_LEN < 2 ^ 32" "capacity wide_config < 2 ^ 64"
    by (simp_all add: wide_config_def FRAME_HEADER_LEN_def)
  from first_round [OF _ this] obtain p q :: "mapped_slot_storage persistent_channel" and w where
    s: "mmap.sholds (env_crc calm) wide_config w 1 [] (pc_store q)" "producer_at wide_config w 1 p" "\<not> pc_closed p"
      "consumer_at wide_config 1 q" "unat (rg_head w) \<le> 2" by auto
  let ?d = "\<lparr>dx_store = pc_store q, dx_producer = p, dx_consumer = q\<rparr>" and ?m = "replicate 101 (7 :: byte)"
  have cfg: "duplex_config ?d = wide_config" and sq: "pc_next_seq (dx_producer ?d) = 1"
    using s(2) by (simp_all add: duplex_config_def producer_at_def)
  have h: "duplex_holds mmap_io mapped_inv mapped_mem (env_crc calm) ?d []"
    unfolding duplex_holds_def cfg using s by (intro exI [of _ w] exI [of _ "1 :: u64"]) simp
  then have inv: "duplex_inv mmap_io mapped_inv mapped_mem (env_crc calm) ?d" by (auto simp: duplex_inv_def)
  have none: "duplex_messages mapped_mem ?d = []" using mmap.holds_messages(1) [OF h] .
  have m: "length ?m \<le> isize_max" "slot_size (duplex_config ?d) < length ?m"
    "send_plan_of (duplex_config ?d) (length ?m) = Ok \<lparr>chunk_payload_size = 58, needed_slots = 2\<rparr>"
    unfolding cfg by (simp_all add: isize_max_def)
  have "head_count mapped_mem ?d + capacity (duplex_config ?d) < 2 ^ 64"
    unfolding cfg using s(5) mmap.sholds_words [OF s(1)] by (simp add: head_count_def)
  from refused_view_cuts_consumer_off [OF inv none quiet_calm _ _ m this, of undefined 0 0] s(3) sq none show ?thesis
    by (intro exI [of _ ?d]) auto
qed

end
