(* ===== verification/Transport.thy ===== *)
theory Transport
  imports Text
begin

text \<open>
  Transport URLs, \<open>crates/dsline-transport/src/lib.rs\<close>: the schemes, the parser of
  \<open>scheme://target?k=v&k=v\<close> and the printer.
\<close>

section \<open>Schemes\<close>

datatype transport_scheme = Shm | Bus | Unix | Tcp

fun scheme_as_str :: "transport_scheme \<Rightarrow> string" where
  "scheme_as_str Shm = ''shm''"
| "scheme_as_str Bus = ''bus''"
| "scheme_as_str Unix = ''unix''"
| "scheme_as_str Tcp = ''tcp''"

definition scheme_from_str :: "string \<Rightarrow> transport_scheme result" where
  "scheme_from_str s =
     (if s = ''shm'' then Ok Shm else if s = ''bus'' then Ok Bus
      else if s = ''unix'' then Ok Unix else if s = ''tcp'' then Ok Tcp
      else TransErr (UnsupportedScheme s))"

section \<open>URLs\<close>

record transport_url =
  scheme :: transport_scheme
  url_target :: string
  url_query :: "(string \<times> string) list"

definition query_param :: "transport_url \<Rightarrow> string \<Rightarrow> string option" where
  "query_param u key = map_option snd (find (\<lambda>(k, _). k = key) (url_query u))"

fun print_query :: "char \<Rightarrow> (string \<times> string) list \<Rightarrow> string" where
  "print_query sep [] = []"
| "print_query sep ((k, v) # rest) = sep # k @ ''='' @ v @ print_query (CHR ''&'') rest"

definition to_url_string :: "transport_url \<Rightarrow> string" where
  "to_url_string u = scheme_as_str (scheme u) @ ''://'' @ url_target u @ print_query (CHR ''?'') (url_query u)"

definition validate_tcp_target :: "string \<Rightarrow> unit result" where
  "validate_tcp_target target =
     and_then (ok_or (rsplit_once (CHR '':'') target) (Transport (MissingTarget ''host:port''))) (\<lambda>(host, port_and_path).
     let port_str = takeWhile (\<lambda>c. c \<noteq> CHR ''/'') port_and_path in
     if host = [] then TransErr (MissingTarget ''host'')
     else if port_str = [] \<or> parse_unsigned 65536 port_str = None then TransErr (InvalidPort port_str)
     else Ok ())"

fun parse_query_parts :: "string list \<Rightarrow> (string \<times> string) list result" where
  "parse_query_parts [] = Ok []"
| "parse_query_parts (part # parts) =
     (if part = [] then parse_query_parts parts
      else
     and_then (ok_or (split_once ''='' part) (Transport (InvalidQuery part))) (\<lambda>(k, v).
     if k = [] then TransErr (InvalidQuery part)
     else and_then (parse_query_parts parts) (\<lambda>pairs. Ok ((k, v) # pairs))))"

definition parse_query :: "string \<Rightarrow> (string \<times> string) list result" where
  "parse_query q = parse_query_parts (split_on (CHR ''&'') q)"

fun missing_kind :: "transport_scheme \<Rightarrow> string" where
  "missing_kind Shm = ''channel name''"
| "missing_kind Bus = ''topic''"
| "missing_kind Unix = ''socket path''"
| "missing_kind Tcp = ''host:port''"

definition parse_url :: "string \<Rightarrow> transport_url result" where
  "parse_url s =
     (if s = [] then TransErr EmptyUrl else
     and_then (ok_or (split_once ''://'' s) (Transport MissingScheme)) (\<lambda>(scheme_part, rest).
     if scheme_part = [] then TransErr MissingScheme else
     and_then (scheme_from_str scheme_part) (\<lambda>sch.
     let (target, query_part) = (case split_once ''?'' rest of Some (t, q) \<Rightarrow> (t, q) | None \<Rightarrow> (rest, [])) in
     if target = [] then TransErr (MissingTarget (missing_kind sch)) else
     and_then (if sch = Tcp then validate_tcp_target target else Ok ()) (\<lambda>_.
     and_then (if query_part = [] then Ok [] else parse_query query_part) (\<lambda>q.
     Ok \<lparr>scheme = sch, url_target = target, url_query = q\<rparr>)))))"

text \<open>\<open>Transport::label\<close>, from the URL of the endpoint.\<close>

definition transport_label :: "transport_url \<Rightarrow> string" where
  "transport_label u = to_url_string u"

section \<open>Well-formed URLs\<close>

definition pair_ok :: "string \<times> string \<Rightarrow> bool" where
  "pair_ok kv \<longleftrightarrow> fst kv \<noteq> [] \<and> CHR ''='' \<notin> set (fst kv) \<and> CHR ''&'' \<notin> set (fst kv) \<and> CHR ''&'' \<notin> set (snd kv)"

definition url_ok :: "transport_url \<Rightarrow> bool" where
  "url_ok u \<longleftrightarrow> url_target u \<noteq> [] \<and> CHR ''?'' \<notin> set (url_target u) \<and>
     (scheme u = Tcp \<longrightarrow> validate_tcp_target (url_target u) = Ok ()) \<and> list_all pair_ok (url_query u)"

lemma scheme_round_trip [simp]: "scheme_from_str (scheme_as_str s) = Ok s"
  by (cases s) (simp_all add: scheme_from_str_def)

lemma scheme_as_str_facts: "scheme_as_str s \<noteq> []" "CHR '':'' \<notin> set (scheme_as_str s)"
  by (cases s; simp)+

text \<open>The text after the question mark.\<close>

lemma parse_print_query:
  assumes "list_all pair_ok q" "q \<noteq> []"
  shows "parse_query_parts (split_on (CHR ''&'') (tl (print_query c q))) = Ok q"
  using assms
proof (induction q arbitrary: c)
  case Nil
  then show ?case by simp
next
  case (Cons kv q)
  obtain k v where kv: "kv = (k, v)" by force
  from Cons.prems kv have ok: "k \<noteq> []" "CHR ''='' \<notin> set k" "CHR ''&'' \<notin> set (k @ ''='' @ v)"
    by (auto simp: pair_ok_def)
  have part: "split_once ''='' (k @ ''='' @ v) = Some (k, v)" using split_once_char [OF ok(2)] by simp
  show ?case
  proof (cases q)
    case Nil
    then show ?thesis using kv part ok split_on_absent [OF ok(3)] by simp
  next
    case (Cons kv' q')
    then have "print_query (CHR ''&'') q = CHR ''&'' # tl (print_query (CHR ''&'') q)"
      by (cases kv') simp
    then have e: "tl (print_query c (kv # q)) = (k @ ''='' @ v) @ CHR ''&'' # tl (print_query (CHR ''&'') q)"
      by (simp add: kv)
    have "parse_query_parts (split_on (CHR ''&'') (tl (print_query (CHR ''&'') q))) = Ok q"
      using Cons.IH Cons.prems Cons by simp
    with part ok(1) show ?thesis unfolding e split_on_append [OF ok(3)] by (simp add: kv)
  qed
qed

lemma parse_query_parts_ok:
  "parse_query_parts ps = Ok q \<Longrightarrow> \<forall>p \<in> set ps. CHR ''&'' \<notin> set p \<Longrightarrow> list_all pair_ok q"
proof (induction ps arbitrary: q)
  case Nil
  then show ?case by simp
next
  case (Cons p ps)
  then show ?case
    by (auto simp: pair_ok_def split: if_splits dest!: split_once_char_Some)
qed

lemma parse_url_ok:
  assumes "parse_url s = Ok u"
  shows "url_ok u"
proof -
  from assms obtain scheme_part rest sch where s: "split_once ''://'' s = Some (scheme_part, rest)"
    "scheme_from_str scheme_part = Ok sch"
    and u: "(let (target, query_part) = (case split_once ''?'' rest of Some (t, q) \<Rightarrow> (t, q) | None \<Rightarrow> (rest, [])) in
     if target = [] then TransErr (MissingTarget (missing_kind sch)) else
     and_then (if sch = Tcp then validate_tcp_target target else Ok ()) (\<lambda>_.
     and_then (if query_part = [] then Ok [] else parse_query query_part) (\<lambda>q.
     Ok \<lparr>scheme = sch, url_target = target, url_query = q\<rparr>))) = Ok u"
    by (auto simp: parse_url_def split: if_splits)
  show ?thesis
  proof (cases "split_once ''?'' rest")
    case None
    with u show ?thesis by (auto simp: url_ok_def split_once_char_None split: if_splits)
  next
    case (Some tq)
    obtain t q where tq: "tq = (t, q)" by force
    from Some tq have "CHR ''?'' \<notin> set t" using split_once_char_Some by metis
    with u Some tq show ?thesis
      using parse_query_parts_ok [of "split_on (CHR ''&'') q"] split_on_parts [of _ "CHR ''&''" q]
      by (auto simp: url_ok_def parse_query_def split: if_splits)
  qed
qed

lemma parse_print_url:
  assumes "url_ok u"
  shows "parse_url (to_url_string u) = Ok u"
proof -
  let ?rest = "url_target u @ print_query (CHR ''?'') (url_query u)"
  have s: "split_once ''://'' (to_url_string u) = Some (scheme_as_str (scheme u), ?rest)"
    using split_once_found [of "''://''" "scheme_as_str (scheme u)" ?rest] scheme_as_str_facts(2) [of "scheme u"]
    by (simp add: to_url_string_def)
  have ne: "to_url_string u \<noteq> []" using scheme_as_str_facts(1) by (simp add: to_url_string_def)
  have tcp: "(if scheme u = Tcp then validate_tcp_target (url_target u) else Ok ()) = Ok ()"
    using assms by (simp add: url_ok_def)
  show ?thesis
  proof (cases "url_query u")
    case Nil
    then have "split_once ''?'' ?rest = None" using assms by (simp add: split_once_char_None url_ok_def)
    with s ne tcp Nil assms scheme_as_str_facts(1) [of "scheme u"] show ?thesis
      by (simp add: parse_url_def url_ok_def)
  next
    case (Cons kv q)
    then have e: "print_query (CHR ''?'') (url_query u) = CHR ''?'' # tl (print_query (CHR ''?'') (url_query u))"
      by (cases kv) simp
    have "split_once ''?'' (url_target u @ CHR ''?'' # tl (print_query (CHR ''?'') (url_query u))) =
        Some (url_target u, tl (print_query (CHR ''?'') (url_query u)))"
      using assms by (intro split_once_char) (simp add: url_ok_def)
    then have "split_once ''?'' ?rest = Some (url_target u, tl (print_query (CHR ''?'') (url_query u)))"
      by (simp only: e [symmetric])
    moreover have "tl (print_query (CHR ''?'') (url_query u)) \<noteq> []"
      using Cons by (cases kv) simp
    moreover have "parse_query (tl (print_query (CHR ''?'') (url_query u))) = Ok (url_query u)"
      using parse_print_query [of "url_query u" "CHR ''?''"] assms Cons by (simp add: parse_query_def url_ok_def)
    ultimately show ?thesis
      using s ne tcp assms scheme_as_str_facts(1) [of "scheme u"] by (simp add: parse_url_def url_ok_def)
  qed
qed

section \<open>Round trips\<close>

text \<open>Claim C33: printing and parsing a transport URL are inverse on exactly the URLs the grammar
  describes: whatever \<open>parse\<close> accepts is printed to a URL that parses back to the same value, and
  every value with a non-empty target free of question marks, a valid TCP target when the scheme
  asks for one, non-empty keys without \<open>=\<close> or \<open>&\<close> and values without \<open>&\<close> survives the trip.\<close>

theorem transport_url_round_trip:
  "(url_ok u \<longrightarrow> parse_url (to_url_string u) = Ok u) \<and>
   (parse_url s = Ok u \<longrightarrow> parse_url (to_url_string u) = Ok u)"
  using parse_print_url parse_url_ok by blast

theorem transport_url_round_trip_witness:
  "parse_url ''shm://demo?capacity=4&slot_size=64'' =
     Ok \<lparr>scheme = Shm, url_target = ''demo'', url_query = [(''capacity'', ''4''), (''slot_size'', ''64'')]\<rparr>"
  using transport_url_round_trip [of "\<lparr>scheme = Shm, url_target = ''demo'',
      url_query = [(''capacity'', ''4''), (''slot_size'', ''64'')]\<rparr>" "[]"]
  by (simp add: url_ok_def pair_ok_def to_url_string_def)

section \<open>TCP targets\<close>

lemma takeWhile_port:
  assumes "path = [] \<or> hd path = CHR ''/''"
  shows "takeWhile (\<lambda>c. c \<noteq> CHR ''/'') (show_nat n @ path) = show_nat n"
proof -
  have "CHR ''/'' \<notin> set (show_nat n)" using show_nat_chars [of "CHR ''/''" n] by (auto simp: is_digit_def)
  then have "takeWhile (\<lambda>c. c \<noteq> CHR ''/'') (show_nat n @ path) = show_nat n @ takeWhile (\<lambda>c. c \<noteq> CHR ''/'') path"
    by (intro takeWhile_append2) auto
  with assms show ?thesis by (cases path) auto
qed

text \<open>\<open>host:port\<close> and \<open>host:port/path\<close> are accepted exactly for the ports of 16 bits, for
  any non-empty host; a larger number is reported as the invalid port. The path may not contain a
  colon: the port is looked for after the last one.\<close>

theorem tcp_target_port_range:
  assumes "host \<noteq> []" and "path = [] \<or> hd path = CHR ''/''" and "CHR '':'' \<notin> set path"
  shows "validate_tcp_target (host @ '':'' @ show_nat n @ path) =
    (if n < 65536 then Ok () else TransErr (InvalidPort (show_nat n)))"
proof -
  have "CHR '':'' \<notin> set (show_nat n @ path)"
    using assms(3) show_nat_chars [of "CHR '':''" n] by (auto simp: is_digit_def)
  from rsplit_once_last [OF this, of host] takeWhile_port [OF assms(2), of n] assms(1)
  show ?thesis by (simp add: validate_tcp_target_def parse_show_nat)
qed

theorem tcp_target_port_range_witness:
  "validate_tcp_target (''localhost'' @ '':'' @ show_nat 8080 @ ''/topic'') = Ok ()"
  using tcp_target_port_range [of "''localhost''" "''/topic''" 8080] by simp

text \<open>A colon in the path is taken for the one before the port.\<close>

lemma tcp_path_with_colon_rejected:
  "validate_tcp_target ''h:80/a:b'' = TransErr (InvalidPort ''b'')"
  by (simp add: validate_tcp_target_def rsplit_once_def parse_unsigned_def is_digit_def)

end
