(* ===== verification/Handle_Invariant.thy ===== *)
theory Handle_Invariant
  imports Persistent_Views Persistent_Refinement
begin

text \<open>
  Invariants of a handle that no store, no environment and no outcome can break: a small calculus of
  predicates that actions keep, whether they return, fail or panic, and its use on every operation of
  the persistent channel.
\<close>

section \<open>Predicates an action keeps\<close>

definition keeps :: "('s \<Rightarrow> bool) \<Rightarrow> ('s, 'e, 'a) action \<Rightarrow> bool" where
  "keeps P m \<longleftrightarrow> (\<forall>s. P s \<longrightarrow> P (snd (m s)))"

named_theorems keeps

lemma keepsD: "keeps P m \<Longrightarrow> P s \<Longrightarrow> P (snd (m s))"
  by (simp add: keeps_def)

lemma keeps_pure [keeps]:
  "keeps P (return x)" "keeps P (fail e)" "keeps P panic" "keeps P diverge" "keeps P (lift r)" "keeps P (gets f)" "keeps P (reads g)"
  by (simp_all add: keeps_def)

lemma keeps_modify [keeps]: "(\<And>s. P s \<Longrightarrow> P (f s)) \<Longrightarrow> keeps P (modify f)"
  by (simp add: keeps_def)

text \<open>The continuation may use what the state was and which value it gets.\<close>

lemma keeps_bind [keeps]:
  assumes "keeps P m" and "\<And>s v t. P s \<Longrightarrow> m s = (Ok v, t) \<Longrightarrow> keeps P (k v)"
  shows "keeps P (bind m k)"
  unfolding keeps_def
proof (intro allI impI)
  fix s assume s: "P s"
  obtain r t where m: "m s = (r, t)" by force
  then have t: "P t" using assms(1) s by (auto simp: keeps_def dest: spec [of _ s])
  show "P (snd (bind m k s))"
  proof (cases r)
    case (Ok v)
    with m keepsD [OF assms(2) [OF s] t] show ?thesis by simp
  qed (use m t in simp_all)
qed

lemma keeps_seq [keeps]:
  assumes "keeps P m" and "\<And>s t. P s \<Longrightarrow> m s = (Ok (), t) \<Longrightarrow> keeps P n"
  shows "keeps P (seq m n)"
  unfolding keeps_def
proof (intro allI impI)
  fix s assume s: "P s"
  obtain r t where m: "m s = (r, t)" by force
  then have t: "P t" using assms(1) s by (auto simp: keeps_def dest: spec [of _ s])
  show "P (snd (seq m n s))"
  proof (cases r)
    case (Ok v)
    with m keepsD [OF assms(2) [OF s] t] show ?thesis by simp
  qed (use m t in simp_all)
qed

lemma keeps_match [keeps]:
  "(\<And>v. r = Ok v \<Longrightarrow> keeps P (k v)) \<Longrightarrow> (\<And>e. r = Err e \<Longrightarrow> keeps P (h e)) \<Longrightarrow> keeps P (match_result r k h)"
  by (cases r) (auto simp: keeps_def)

lemma keeps_for_each [keeps]: "(\<And>x. x \<in> set xs \<Longrightarrow> keeps P (f x)) \<Longrightarrow> keeps P (for_each xs f)"
  by (induction xs) (auto intro: keeps)

lemma keeps_if [keeps]: "(b \<Longrightarrow> keeps P m) \<Longrightarrow> (\<not> b \<Longrightarrow> keeps P n) \<Longrightarrow> keeps P (if b then m else n)"
  by simp

lemma keeps_split [keeps]: "(\<And>a b. p = (a, b) \<Longrightarrow> keeps P (f a b)) \<Longrightarrow> keeps P (case p of (a, b) \<Rightarrow> f a b)"
  by (cases p) simp

lemma keeps_option [keeps]:
  "(x = None \<Longrightarrow> keeps P m) \<Longrightarrow> (\<And>v. x = Some v \<Longrightarrow> keeps P (f v)) \<Longrightarrow> keeps P (case x of None \<Rightarrow> m | Some v \<Rightarrow> f v)"
  by (cases x) simp_all

lemma keeps_nat [keeps]:
  "(n = 0 \<Longrightarrow> keeps P m) \<Longrightarrow> (\<And>k. n = Suc k \<Longrightarrow> keeps P (f k)) \<Longrightarrow> keeps P (case n of 0 \<Rightarrow> m | Suc k \<Rightarrow> f k)"
  by (cases n) simp_all

lemma keeps_backpressure [keeps]:
  "(x = Block \<Longrightarrow> keeps P a) \<Longrightarrow> (x = Raise \<Longrightarrow> keeps P b) \<Longrightarrow> (x = DropNewest \<Longrightarrow> keeps P c) \<Longrightarrow>
     (x = DropOldest \<Longrightarrow> keeps P d) \<Longrightarrow> keeps P (case x of Block \<Rightarrow> a | Raise \<Rightarrow> b | DropNewest \<Rightarrow> c | DropOldest \<Rightarrow> d)"
  by (cases x) simp_all

lemma keeps_when_full [keeps]: "keeps P m \<Longrightarrow> keeps P h \<Longrightarrow> keeps P (when_full m h)"
  unfolding keeps_def when_full_def by (auto split: prod.split outcome.split dsline_error.split channel_error.split)

lemma keeps_look [keeps]: "keeps P (look f)"
  by (simp add: keeps_def)

lemma keeps_store: "(\<And>c s. P c \<Longrightarrow> P (c\<lparr>pc_store := s\<rparr>)) \<Longrightarrow> keeps P (on_store m)" "(\<And>c s. P c \<Longrightarrow> P (c\<lparr>pc_store := s\<rparr>)) \<Longrightarrow> keeps P (yield_now env n)"
  by (auto simp: keeps_def yield_now_def split: prod.split)

section \<open>Slot indices in range\<close>

text \<open>The type of a handle: its indices name slots.\<close>

definition handle_ok :: "spsc_config \<Rightarrow> 's persistent_channel \<Rightarrow> bool" where
  "handle_ok cfg c \<longleftrightarrow> pc_config c = cfg \<and> pc_head c < capacity cfg \<and> pc_tail c < capacity cfg"

lemma handle_ok_capacity: "handle_ok cfg c \<Longrightarrow> 0 < capacity cfg" "handle_ok cfg c \<Longrightarrow> pcapacity c = capacity cfg"
  by (auto simp: handle_ok_def pcapacity_def)

lemma handle_ok_store [keeps]: "keeps (handle_ok cfg) (on_store m)" "keeps (handle_ok cfg) (yield_now env n)"
  by (rule keeps_store; simp add: handle_ok_def)+

lemma cursor_slot_less: "0 < cap \<Longrightarrow> cursor_slot cap c < cap"
  by (simp add: cursor_slot_def)

lemmas handle_simps = handle_ok_def pcapacity_def cursor_slot_def

lemma refresh_keeps [keeps]: "keeps (handle_ok cfg) (refresh_cursors io)"
  unfolding refresh_cursors_def by (intro keeps) (auto simp: handle_simps)

lemma take_keeps [keeps]: "keeps (handle_ok cfg) take_sequence" "keeps (handle_ok cfg) skip_expected" "keeps (handle_ok cfg) count_reclaimed"
  "keeps (handle_ok cfg) (note_reclaimed n)" "keeps (handle_ok cfg) (add_reclaimed n)" "keeps (handle_ok cfg) (accept_sequence resync sq)"
  unfolding take_sequence_def skip_expected_def count_reclaimed_def note_reclaimed_def add_reclaimed_def accept_sequence_def
  by (intro keeps; auto simp: handle_simps)+

lemma scans_keep [keeps]:
  "keeps (handle_ok cfg) (rebuild_floor io t)" "keeps (handle_ok cfg) (reclaim_writing_at io env i)"
  "keeps (handle_ok cfg) (reclaim_pinned_at io env i)" "keeps (handle_ok cfg) (tail_header io)" "keeps (handle_ok cfg) (tail_committed io)"
  "keeps (handle_ok cfg) (pread_tail io)" "keeps (handle_ok cfg) (prelease_tail io)"
  unfolding rebuild_floor_def reclaim_writing_at_def reclaim_pinned_at_def tail_header_def tail_committed_def pread_tail_def prelease_tail_def
  by (intro keeps; auto simp: handle_simps)+

lemma poll_keeps [keeps]: "keeps (handle_ok cfg) (poll_tail_committed io env)"
proof -
  have "keeps (handle_ok cfg) (poll_committed_loop io env n)" for n
    by (induction n; simp only: poll_committed_loop.simps; intro keeps; auto)
  then show ?thesis by (simp add: poll_tail_committed_def)
qed

lemma step_tail_keeps [keeps]: "keeps (handle_ok cfg) (step_tail io orphan i)"
  unfolding step_tail_def by (intro keeps) (auto simp: handle_simps)

lemma advance_keeps [keeps]:
  "keeps (handle_ok cfg) (advance_tail_impl io release)" "keeps (handle_ok cfg) (padvance_tail_after_read io)"
  "keeps (handle_ok cfg) (advance_tail_keep_pinned io)"
  unfolding advance_tail_impl_def padvance_tail_after_read_def advance_tail_keep_pinned_def by (intro keeps)+

lemma reclaim_run_keeps [keeps]: "keeps (handle_ok cfg) (reclaim_run io env cap n i freed)"
  by (induction n arbitrary: i freed) (auto intro!: keeps)

lemma free_extent_keeps [keeps]: "keeps (handle_ok cfg) (free_extent io cap n i)"
  by (induction n arbitrary: i) (auto intro!: keeps)

lemma reclaim_spsc_keeps [keeps]: "keeps (handle_ok cfg) (try_reclaim_at_tail_spsc io env)"
  unfolding try_reclaim_at_tail_spsc_def by (intro keeps) (auto simp: handle_simps)

lemma reclaim_mpsc_keeps [keeps]: "keeps (handle_ok cfg) (try_reclaim_at_tail_mpsc io env)"
  unfolding try_reclaim_at_tail_mpsc_def Let_def by (intro keeps) (auto simp: handle_simps)

lemma reclaim_tail_keeps [keeps]: "keeps (handle_ok cfg) (try_reclaim_at_tail io env)"
  unfolding try_reclaim_at_tail_def by (intro keeps)

lemma drop_slots_keeps [keeps]: "keeps (handle_ok cfg) (drop_slots io n)" "keeps (handle_ok cfg) (release_dropped io n)"
  by (induction n) (auto intro!: keeps simp: handle_simps)

lemma drop_spsc_keeps [keeps]: "keeps (handle_ok cfg) (drop_oldest_message_spsc io)" "keeps (handle_ok cfg) (peek_extent io)"
  unfolding drop_oldest_message_spsc_def peek_extent_def by (intro keeps)+

lemma drop_mpsc_keeps [keeps]: "keeps (handle_ok cfg) (drop_oldest_message_mpsc io env fuel)"
proof -
  have "keeps (handle_ok cfg) (drop_mpsc_loop io env fuel left)" for left
    by (induction fuel arbitrary: left) (auto intro!: keeps)
  then show ?thesis by (simp add: drop_oldest_message_mpsc_def)
qed

lemma drop_keeps [keeps]: "keeps (handle_ok cfg) (pdrop_oldest_message io env fuel)"
  unfolding pdrop_oldest_message_def by (intro keeps)

lemma drop_until_keeps [keeps]: "keeps (handle_ok cfg) (pdrop_until_free io env fuel needed)"
  by (induction fuel; simp only: pdrop_until_free.simps; intro keeps; auto)

lemma wait_keeps [keeps]: "keeps (handle_ok cfg) (wait_for_space_until io env needed n)"
  by (induction n; simp only: wait_for_space_until.simps; intro keeps; auto)

lemma prepare_keeps [keeps]: "keeps (handle_ok cfg) (pwait_for_space io env needed)" "keeps (handle_ok cfg) (pprepare_send_slots io env fuel needed)"
  unfolding pwait_for_space_def pprepare_send_slots_def by (intro keeps)+

lemma write_keeps [keeps]: "keeps (handle_ok cfg) (write_frame_at_head io sq st f)" "keeps (handle_ok cfg) (publish_head io fs i)"
  unfolding write_frame_at_head_def publish_head_def by (intro keeps; auto simp: handle_simps)+

lemma reserved_keeps [keeps]: "keeps (handle_ok cfg) (write_reserved io env sq st start k fs)"
proof -
  have "keeps (handle_ok cfg) (write_reserved_slot io env i sq f st n)" for i f n
    by (induction n; simp only: write_reserved_slot.simps; intro keeps; auto)
  then show ?thesis by (induction fs arbitrary: k; simp only: write_reserved.simps; intro keeps; auto)
qed

lemma reserve_keeps [keeps]: "keeps (handle_ok cfg) (reserve_slots io env fuel needed)"
proof -
  have "keeps (handle_ok cfg) (reserve_loop io env needed fuel left)" for left
    by (induction fuel arbitrary: left) (auto intro!: keeps split del: if_split)
  then show ?thesis unfolding reserve_slots_def by (intro keeps)
qed

lemma send_spsc_keeps [keeps]: "keeps (handle_ok cfg) (send_spsc io env fuel m plan)"
  unfolding send_spsc_def by (intro keeps)

lemma send_mpsc_keeps [keeps]: "keeps (handle_ok cfg) (send_mpsc io env fuel m plan)"
  unfolding send_mpsc_def Let_def by (intro keeps) (auto simp: handle_simps)

lemma psend_keeps [keeps]: "keeps (handle_ok cfg) (psend io env fuel m)"
  unfolding psend_def by (intro keeps)

lemma ensure_keeps [keeps]: "keeps (handle_ok cfg) (ensure_tail_readable io env)"
  unfolding ensure_tail_readable_def by (intro keeps) (auto simp: handle_simps)

lemma chunks_keep [keeps]: "keeps (handle_ok cfg) (precv_chunks io env sq first is acc)"
  by (induction "is" arbitrary: acc) (auto intro!: keeps)

lemma chunked_keeps [keeps]: "keeps (handle_ok cfg) (precv_chunked_message io env sq f)" "keeps (handle_ok cfg) (skip_damaged io e)"
  unfolding precv_chunked_message_def skip_damaged_def by (intro keeps)+

lemma recv_keeps [keeps]:
  "keeps (handle_ok cfg) (precv_with_seq io env)" "keeps (handle_ok cfg) (precv io env)" "keeps (handle_ok cfg) (try_recv io env)"
  unfolding precv_def try_recv_def precv_with_seq_def by (intro keeps; auto simp: handle_simps)+

lemma stale_loops_keep [keeps]:
  "keeps (handle_ok cfg) (reclaim_tail_loop io env n count)" "keeps (handle_ok cfg) (reclaim_pinned_loop io env is count)"
  "keeps (handle_ok cfg) (reclaim_uncovered_loop io env skip is count)"
proof -
  show "keeps (handle_ok cfg) (reclaim_tail_loop io env n count)" by (induction n arbitrary: count) (auto intro!: keeps)
  show "keeps (handle_ok cfg) (reclaim_pinned_loop io env is count)" by (induction "is" arbitrary: count) (auto intro!: keeps)
  show "keeps (handle_ok cfg) (reclaim_uncovered_loop io env skip is count)"
    by (induction "is" arbitrary: count) (auto intro!: keeps)
qed

lemma stale_keeps [keeps]: "keeps (handle_ok cfg) (reclaim_stale io env)"
  unfolding reclaim_stale_def reclaim_stale_mpsc_def reclaim_stale_spsc_def recompute_spsc_bias_def
  by (intro keeps) (auto simp: handle_simps)

lemma view_calls_keep [keeps]: "keeps (handle_ok cfg) (alloc io env fuel n)" "keeps (handle_ok cfg) (recv_view io env)"
  unfolding alloc_def recv_view_def Let_def by (intro keeps; auto simp: handle_simps)+

lemma abort_keeps [keeps]: "keeps (handle_ok cfg) (abort io l)"
  unfolding abort_def by (intro keeps) (auto simp: handle_simps)

lemma debug_keeps [keeps]: "keeps (handle_ok cfg) (debug_leave_zombie io env sq p start reserved)"
  unfolding debug_leave_zombie_def by (intro keeps) (auto simp: handle_simps)

text \<open>\<open>publish\<close> runs on the pair of the lease and the handle.\<close>

lemma publish_keeps: "keeps (\<lambda>p. handle_ok cfg (snd p)) (publish io env)"
proof -
  have h: "keeps (\<lambda>p. Q (snd p)) (on_handle m)" if "keeps Q m" for Q :: "'a persistent_channel \<Rightarrow> bool" and m :: "('a, 'b) channel_action"
    using that by (auto simp: keeps_def on_handle_def split: prod.split)
  have s: "keeps (\<lambda>p. handle_ok cfg (snd p)) seal" by (auto simp: keeps_def seal_def)
  show ?thesis unfolding publish_def by (intro keeps h s) (auto simp: handle_simps)
qed

text \<open>Construction.\<close>

lemma infer_head_less:
  "infer_head_loop io cap tail n head s = Ok h \<Longrightarrow> head < cap \<Longrightarrow> h < cap"
  by (induction n arbitrary: head) (auto split: if_splits)

lemma recover_keeps: "keeps (handle_ok cfg) (recover_from_storage io env)"
proof -
  have "infer_head_from_tail io cap (cursor_slot cap t) s = Ok h \<Longrightarrow> 0 < cap \<Longrightarrow> h < cap" for cap t s h
    using infer_head_less [of io cap "cursor_slot cap t" cap "cursor_slot cap t" s h] cursor_slot_less [of cap t]
    by (simp add: infer_head_from_tail_def)
  then show ?thesis unfolding recover_from_storage_def Let_def
    by (intro keeps) (auto simp: handle_ok_def pcapacity_def cursor_slot_less)
qed

lemma fresh_handle_ok: "0 < capacity cfg \<Longrightarrow> handle_ok cfg (fresh_handle s cfg self epoch)"
  by (simp add: handle_ok_def fresh_handle_def)

lemma opened_ok:
  assumes "opened io env self epoch cfg s = Ok c" "0 < capacity cfg"
  shows "handle_ok cfg c"
proof -
  obtain r d where d: "recover_from_storage io env (fresh_handle s cfg self epoch) = (r, d)" by force
  with keepsD [OF recover_keeps fresh_handle_ok [OF assms(2)], of io env s self epoch] assms(1)
  show ?thesis by (cases r) (auto simp: opened_def)
qed

section \<open>Reachable handles\<close>

text \<open>Every call of a handle, in any order and on any store that other processes leave.\<close>

inductive reachable_handle :: "'s region_io_ops \<Rightarrow> spsc_config \<Rightarrow> 's persistent_channel \<Rightarrow> bool" for io cfg where
  created: "new_initialized io polls view self epoch cfg s = Ok c \<Longrightarrow> reachable_handle io cfg c"
| reopened: "opened io env self epoch cfg s = Ok c \<Longrightarrow> reachable_handle io cfg c"
| others: "reachable_handle io cfg c \<Longrightarrow> reachable_handle io cfg (c\<lparr>pc_store := s\<rparr>)"
| sent: "reachable_handle io cfg c \<Longrightarrow> reachable_handle io cfg (snd (psend io env fuel m c))"
| received: "reachable_handle io cfg c \<Longrightarrow> reachable_handle io cfg (snd (precv_with_seq io env c))"
| tried: "reachable_handle io cfg c \<Longrightarrow> reachable_handle io cfg (snd (try_recv io env c))"
| reclaimed: "reachable_handle io cfg c \<Longrightarrow> reachable_handle io cfg (snd (reclaim_stale io env c))"
| leased: "reachable_handle io cfg c \<Longrightarrow> reachable_handle io cfg (snd (alloc io env fuel n c))"
| published: "reachable_handle io cfg c \<Longrightarrow> reachable_handle io cfg (snd (snd (publish io env (l, c))))"
| aborted: "reachable_handle io cfg c \<Longrightarrow> reachable_handle io cfg (snd (abort io l c))"
| viewed: "reachable_handle io cfg c \<Longrightarrow> reachable_handle io cfg (snd (recv_view io env c))"
| polled: "reachable_handle io cfg c \<Longrightarrow> reachable_handle io cfg (snd (prefresh io c))"
| closed: "reachable_handle io cfg c \<Longrightarrow> reachable_handle io cfg (pclose c)"
| zombie: "reachable_handle io cfg c \<Longrightarrow> reachable_handle io cfg (snd (debug_leave_zombie io env sq p start reserved c))"

lemma reachable_ok:
  assumes "reachable_handle io cfg c" "0 < capacity cfg"
  shows "handle_ok cfg c"
  using assms(1)
proof induction
  case (created polls view self epoch s c)
  then show ?case using fresh_handle_ok [OF assms(2)] by (auto simp: new_initialized_def split: prod.splits)
next
  case (reopened env self epoch s c)
  then show ?case using assms(2) by (rule opened_ok)
next
  case (published c env l)
  then show ?case using keepsD [OF publish_keeps, of cfg "(l, c)" io env] by simp
next
  case (polled c)
  then show ?case using keepsD [OF refresh_keeps] by (simp add: prefresh_def)
qed (auto simp: pclose_def handle_ok_def [of cfg "_\<lparr>pc_store := _\<rparr>"] handle_ok_def [of cfg "_\<lparr>pc_closed := _\<rparr>"]
    intro: keepsD keeps dest: handle_ok_def [THEN iffD1])

end
