(* ===== verification/Used_Slots.thy ===== *)
theory Used_Slots
  imports Handle_Invariant
begin

text \<open>
  A send writes free slots only. Whatever the cursors and the indices of the handle say, whichever
  producers there are and however the send ends, a slot that was not free keeps its bytes: committed
  messages, slots pinned by a reader and slots another writer is filling. (Dropping the oldest
  message, which frees slots on purpose, is excluded.)
\<close>

section \<open>What a write may touch\<close>

definition only_slot ::
  "'s region_io_ops \<Rightarrow> ('s \<Rightarrow> bool) \<Rightarrow> ('s \<Rightarrow> bytes) \<Rightarrow> nat \<Rightarrow> nat \<Rightarrow> nat \<Rightarrow> 's \<Rightarrow> 's \<Rightarrow> bool" where
  "only_slot io ok mem cap sz i s t \<longleftrightarrow> region_layout io ok mem cap sz t \<and>
     (\<forall>j < cap. j \<noteq> i \<longrightarrow> slot_raw sz j (mem t) = slot_raw sz j (mem s))"

definition used_slot :: "nat \<Rightarrow> nat \<Rightarrow> bytes \<Rightarrow> bool" where
  "used_slot sz i m \<longleftrightarrow> sh_state (slot_header (slot_raw sz i m)) \<noteq> Free"

definition spares_used ::
  "'s region_io_ops \<Rightarrow> ('s \<Rightarrow> bool) \<Rightarrow> ('s \<Rightarrow> bytes) \<Rightarrow> nat \<Rightarrow> nat \<Rightarrow> 's \<Rightarrow> 's \<Rightarrow> bool" where
  "spares_used io ok mem cap sz s t \<longleftrightarrow> region_layout io ok mem cap sz t \<and>
     (\<forall>i < cap. used_slot sz i (mem s) \<longrightarrow> slot_raw sz i (mem t) = slot_raw sz i (mem s))"

context region_io
begin

abbreviation spares :: "nat \<Rightarrow> nat \<Rightarrow> 's \<Rightarrow> 's \<Rightarrow> bool" where
  "spares \<equiv> spares_used io inv mem"

lemma spares_only:
  assumes "spares cap sz s t" "only_slot io inv mem cap sz i t u" "\<not> used_slot sz i (mem t)"
  shows "spares cap sz s u"
  using assms by (auto simp: spares_used_def only_slot_def used_slot_def)

lemma write_at_slot_only:
  assumes "i < cap" "d + length b \<le> sz"
  shows "keeps (only_slot io inv mem cap sz i s) (write_at_slot io i d b)"
  unfolding keeps_def
proof (intro allI impI)
  fix t assume t: "only_slot io inv mem cap sz i s t"
  then have "layout cap sz t" by (simp add: only_slot_def)
  from write_at_slot_effect [OF this assms] slot_set_raw [OF this assms(1)] obtain u where
    "write_at_slot io i d b t = (Ok (), u)" "layout cap sz u" "\<forall>j < cap. j \<noteq> i \<longrightarrow> slot_raw sz j (mem u) = slot_raw sz j (mem t)"
    by metis
  with t show "only_slot io inv mem cap sz i s (snd (write_at_slot io i d b t))" by (simp add: only_slot_def)
qed

lemma pwrite_only:
  assumes i: "i < cap" and sz: "PERSISTENT_SLOT_HEADER_LEN \<le> sz"
  shows "keeps (only_slot io inv mem cap sz i s) (pwrite_committed_no_flush io i sq f ident)"
proof -
  have h: "keeps (only_slot io inv mem cap sz i s) (write_header io i st q n)"
    "keeps (only_slot io inv mem cap sz i s) (write_writing_header io i q n w)" for st q n w
    unfolding write_header_def write_writing_header_def write_identity_header_def
    using i sz by (intro keeps write_at_slot_only; simp add: PERSISTENT_SLOT_HEADER_LEN_def ID_MAGIC_OFFSET_def)+
  have p: "keeps (only_slot io inv mem cap sz i s) (write_payload io i f)"
    unfolding keeps_def
  proof (intro allI impI)
    fix t assume t: "only_slot io inv mem cap sz i s t"
    then have lay: "layout cap sz t" by (simp add: only_slot_def)
    show "only_slot io inv mem cap sz i s (snd (write_payload io i f t))"
    proof (cases "length f \<le> sz - PERSISTENT_SLOT_HEADER_LEN")
      case True
      then have "PERSISTENT_SLOT_HEADER_LEN + length f \<le> sz" using sz by linarith
      from keepsD [OF write_at_slot_only [OF i this] t] lay True show ?thesis by (simp add: write_payload_def)
    qed (use lay t in \<open>simp add: write_payload_def\<close>)
  qed
  show ?thesis unfolding pwrite_committed_no_flush_def by (intro keeps h p)
qed

lemma pwrite_spares:
  assumes i: "i < cap"
  shows "keeps (spares cap sz s) (pwrite_committed_no_flush io i sq f ident)"
  unfolding keeps_def
proof (intro allI impI)
  fix t assume t: "spares cap sz s t"
  then have lay: "layout cap sz t" by (simp add: spares_used_def)
  show "spares cap sz s (snd (pwrite_committed_no_flush io i sq f ident t))"
  proof (cases "used_slot sz i (mem t)")
    case True
    with t read_header_effect [OF lay i] show ?thesis by (simp add: pwrite_committed_no_flush_def used_slot_def)
  next
    case False
    have "only_slot io inv mem cap sz i t t" using lay by (simp add: only_slot_def)
    from keepsD [OF pwrite_only [OF i header_size [OF lay]] this] spares_only [OF t _ False] show ?thesis by blast
  qed
qed

text \<open>The words of the header are not in a slot.\<close>

lemma word_spares:
  assumes "header_word off"
  shows "keeps (spares cap sz s) (rio_store_u64 io off v)" "keeps (spares cap sz s) (rio_compare_exchange_u64 io off e v)"
proof -
  have r: "layout cap sz t \<Longrightarrow> ring cap sz (words_of (mem t)) (slot_views cap sz (mem t)) t" for t
    by (simp add: at_ring_def)
  have put: "spares cap sz s u" if t: "spares cap sz s t"
    and u: "inv u" "mem u = put_at off (to_le64 x) (mem t)" "rio_capacity io u = rio_capacity io t" "rio_slot_size io u = rio_slot_size io t"
    for t u x
  proof -
    have lay: "layout cap sz t" using t by (simp add: spares_used_def)
    from ring_put_word [OF r [OF lay] assms u] have "layout cap sz u" by (rule ring_layout)
    moreover have len: "length (mem t) = REGION_HEADER_LEN + cap * sz" using lay by (simp add: region_layout_def)
    moreover have "slot_raw sz i (mem u) = slot_raw sz i (mem t)" if "i < cap" for i
      using slot_raw_put_word [OF len that assms] u(2) by simp
    ultimately show ?thesis using t by (simp add: spares_used_def)
  qed
  have fit: "off + 8 \<le> length (mem t)" "inv t" if "spares cap sz s t" for t
    using that assms by (auto simp: spares_used_def region_layout_def header_word_def layout_consts)
  show "keeps (spares cap sz s) (rio_store_u64 io off v)"
    unfolding keeps_def
  proof (intro allI impI)
    fix t assume t: "spares cap sz s t"
    from store_law [OF fit(2,1) [OF t], of v] put [OF t] show "spares cap sz s (snd (rio_store_u64 io off v t))" by force
  qed
  show "keeps (spares cap sz s) (rio_compare_exchange_u64 io off e v)"
    unfolding keeps_def
  proof (intro allI impI)
    fix t assume t: "spares cap sz s t"
    from cas_law [OF fit(2,1) [OF t], of e v] obtain u r where
      u: "rio_compare_exchange_u64 io off e v t = (Ok r, u)" "inv u"
        "mem u = (if from_le64 (bytes_at off 8 (mem t)) = e then put_at off (to_le64 v) (mem t) else mem t)"
        "rio_capacity io u = rio_capacity io t" "rio_slot_size io u = rio_slot_size io t" by blast
    show "spares cap sz s (snd (rio_compare_exchange_u64 io off e v t))"
    proof (cases "from_le64 (bytes_at off 8 (mem t)) = e")
      case True
      with put [OF t u(2) _ u(4,5)] u(1,3) show ?thesis by simp
    next
      case False
      with t u show ?thesis by (simp add: spares_used_def region_layout_def)
    qed
  qed
qed

end

section \<open>The send path\<close>

text \<open>A handle in order over a store that spares the used slots of \<open>s\<close>.\<close>

definition sparing ::
  "'s region_io_ops \<Rightarrow> ('s \<Rightarrow> bool) \<Rightarrow> ('s \<Rightarrow> bytes) \<Rightarrow> spsc_config \<Rightarrow> nat \<Rightarrow> 's \<Rightarrow> 's persistent_channel \<Rightarrow> bool" where
  "sparing io ok mem cfg sz s c \<longleftrightarrow> handle_ok cfg c \<and> spares_used io ok mem (capacity cfg) sz s (pc_store c)"

lemma keeps_sparing:
  assumes "keeps (handle_ok cfg) m" "keeps (\<lambda>c. spares_used io ok mem (capacity cfg) sz s (pc_store c)) m"
  shows "keeps (sparing io ok mem cfg sz s) m"
  using assms by (simp add: keeps_def sparing_def)

context region_io
begin

abbreviation frugal :: "spsc_config \<Rightarrow> nat \<Rightarrow> 's \<Rightarrow> 's persistent_channel \<Rightarrow> bool" where
  "frugal \<equiv> sparing io inv mem"

lemma store_frugal:
  assumes "keeps (spares (capacity cfg) sz s) m"
  shows "keeps (frugal cfg sz s) (on_store m)"
  using assms by (auto simp: keeps_def sparing_def handle_ok_def split: prod.split)

lemma modify_frugal:
  assumes "\<And>c. handle_ok cfg c \<Longrightarrow> handle_ok cfg (f c) \<and> pc_store (f c) = pc_store c"
  shows "keeps (frugal cfg sz s) (modify f)"
  using assms by (simp add: keeps_def sparing_def)

lemma commit_frugal:
  "i < capacity cfg \<Longrightarrow> keeps (frugal cfg sz s) (on_store (pwrite_committed_no_flush io i sq f ident))"
  by (intro store_frugal pwrite_spares)

lemma head_frugal: "keeps (frugal cfg sz s) (on_store (store_head io h))" "keeps (frugal cfg sz s) (on_store (compare_exchange_head io a b))"
  unfolding store_head_def compare_exchange_head_def by (intro store_frugal word_spares header_word_simps)+

lemma yield_frugal: "quiet env \<Longrightarrow> keeps (frugal cfg sz s) (yield_now env n)"
  by (simp add: keeps_def)

lemmas frugal = modify_frugal commit_frugal head_frugal yield_frugal keeps

lemma refresh_frugal: "keeps (frugal cfg sz s) (refresh_cursors io)"
  unfolding refresh_cursors_def by (intro frugal) (auto simp: handle_simps)

lemma wait_frugal: "quiet env \<Longrightarrow> keeps (frugal cfg sz s) (wait_for_space_until io env needed n)"
  by (induction n; simp only: wait_for_space_until.simps; intro frugal refresh_frugal; auto)

lemma prepare_frugal:
  assumes "quiet env" "backpressure cfg \<noteq> DropOldest"
  shows "keeps (frugal cfg sz s) (pprepare_send_slots io env fuel needed)"
  unfolding pprepare_send_slots_def pwait_for_space_def
  using assms by (intro frugal wait_frugal) (auto simp: sparing_def handle_ok_def)

lemma send_spsc_frugal:
  assumes "quiet env" "backpressure cfg \<noteq> DropOldest"
  shows "keeps (frugal cfg sz s) (send_spsc io env fuel m plan)"
  unfolding send_spsc_def take_sequence_def write_frame_at_head_def publish_head_def
  by (intro frugal prepare_frugal [OF assms]) (auto simp: handle_simps sparing_def)

lemma reserve_frugal:
  assumes "quiet env" "backpressure cfg \<noteq> DropOldest"
  shows "keeps (frugal cfg sz s) (reserve_slots io env fuel needed)"
proof -
  have "keeps (frugal cfg sz s) (reserve_loop io env needed fuel left)" for left
    using assms
    by (induction fuel arbitrary: left; simp only: reserve_loop.simps; intro frugal refresh_frugal wait_frugal)
      (auto simp: sparing_def handle_ok_def)
  then show ?thesis unfolding reserve_slots_def by (intro frugal)
qed

lemma write_reserved_frugal:
  assumes "quiet env" "0 < capacity cfg"
  shows "keeps (frugal cfg sz s) (write_reserved io env sq st start k fs)"
proof -
  have "i < capacity cfg \<Longrightarrow> keeps (frugal cfg sz s) (write_reserved_slot io env i sq f st n)" for i f n
    using assms(1) by (induction n; simp only: write_reserved_slot.simps; intro frugal; auto)
  then show ?thesis
    by (induction fs arbitrary: k; simp only: write_reserved.simps; intro frugal)
      (auto simp: handle_simps sparing_def assms(2))
qed

lemma send_mpsc_frugal:
  assumes "quiet env" "backpressure cfg \<noteq> DropOldest" "0 < capacity cfg"
  shows "keeps (frugal cfg sz s) (send_mpsc io env fuel m plan)"
  unfolding send_mpsc_def take_sequence_def Let_def
  by (intro frugal reserve_frugal [OF assms(1,2)] write_reserved_frugal [OF assms(1,3)]) (auto simp: handle_simps sparing_def)

lemma psend_frugal:
  assumes "quiet env" "backpressure cfg \<noteq> DropOldest" "0 < capacity cfg"
  shows "keeps (frugal cfg sz s) (psend io env fuel m)"
  unfolding psend_def by (intro frugal refresh_frugal send_spsc_frugal send_mpsc_frugal assms)

lemma psend_spares:
  assumes "quiet env" "backpressure cfg \<noteq> DropOldest" "handle_ok cfg c" "layout (capacity cfg) sz (pc_store c)"
  shows "spares (capacity cfg) sz (pc_store c) (pc_store (snd (psend io env fuel m c)))"
proof -
  have "frugal cfg sz (pc_store c) c" using assms(3,4) by (simp add: sparing_def spares_used_def)
  from keepsD [OF psend_frugal [OF assms(1,2)] this] handle_ok_capacity(1) [OF assms(3)] show ?thesis
    by (simp add: sparing_def)
qed

end

end
