(* ===== verification/Handle_Properties.thy ===== *)
theory Handle_Properties
  imports Used_Slots Persistent_Channel_Properties
begin

text \<open>
  Properties of a handle that do not depend on the history of the ring: the range of its indices, the
  slots its sends leave alone, the promise of the send guard, and the reservation of slots on the two
  kinds of storage.
\<close>

section \<open>Indices\<close>

text \<open>Claim C20: the slot indices of a handle are in range. Whatever calls are made on it, in whatever
  order and with whatever outcome, whatever the other processes do to the store, and whatever the
  clock, the liveness probe and the storage answer, the configuration of a handle stays the one it
  was made with and its head and tail index are below the capacity.\<close>

theorem reachable_handle_in_range:
  assumes "reachable_handle io cfg c" and "0 < capacity cfg"
  shows "pc_config c = cfg \<and> pc_head c < capacity cfg \<and> pc_tail c < capacity cfg"
  using reachable_ok [OF assms] by (simp add: handle_ok_def)

lemma small_reachable:
  "\<exists>t c. new_initialized mmap_io 0 (\<lambda>_. undefined) undefined 0 (small_config bp) (new_mapping (small_config bp)) = Ok c \<and> pc_store c = t \<and>
     c = fresh_handle t (small_config bp) undefined 0 \<and>
     mmap.ring (capacity (small_config bp)) (region_slot_len (small_config bp)) empty_words
       (replicate (capacity (small_config bp)) free_view) t"
proof -
  note n = new_mapping_layout [OF small_fits [of bp]]
  from mmap.initialize_ring [OF n(1,3) _ _ refl] n(2) obtain t where
    "initialize_region mmap_io 0 (\<lambda>_. undefined) (small_config bp) (new_mapping (small_config bp)) = (Ok (), t)"
    "mmap.ring (capacity (small_config bp)) (region_slot_len (small_config bp)) empty_words
       (replicate (capacity (small_config bp)) free_view) t" by fastforce
  then show ?thesis by (simp add: new_initialized_def fresh_handle_def)
qed

theorem reachable_handle_in_range_witness:
  "\<exists>c. reachable_handle mmap_io (small_config Raise) c \<and> pc_tail (snd (precv_with_seq mmap_io calm c)) < 1"
proof -
  from small_reachable [of Raise] obtain c where
    "new_initialized mmap_io 0 (\<lambda>_. undefined) undefined 0 (small_config Raise) (new_mapping (small_config Raise)) = Ok c" by blast
  then have c: "reachable_handle mmap_io (small_config Raise) c" by (rule created)
  from reachable_handle_in_range [OF received [OF c, of calm]] have "pc_tail (snd (precv_with_seq mmap_io calm c)) < 1" by simp
  with c show ?thesis by blast
qed

section \<open>Slots in use\<close>

text \<open>Claim C18: a send never writes a slot that is in use. On any region of the right shape, with any
  contents, cursors and pin floor, for one producer or several, and whether the send succeeds, is
  refused or fails half-way, every slot that was not FREE (a committed message, a slot a reader has
  pinned, a slot another writer is filling) has the bytes it had. The send is one with a policy other
  than \<open>DropOldest\<close>, which frees slots on purpose, and no other process acts while it runs.\<close>

theorem send_spares_used_slots:
  assumes "reachable_handle mmap_io cfg c" and "quiet env" and "backpressure cfg \<noteq> DropOldest"
    and "region_layout mmap_io mapped_inv mapped_mem (capacity cfg) sz s" and "i < capacity cfg"
    and "sh_state (slot_header (slot_raw sz i (mapped_mem s))) \<noteq> Free"
  shows "slot_raw sz i (mapped_mem (pc_store (snd (psend mmap_io env fuel m (c\<lparr>pc_store := s\<rparr>))))) = slot_raw sz i (mapped_mem s)"
proof -
  have "handle_ok cfg (c\<lparr>pc_store := s\<rparr>)" using reachable_ok [OF assms(1)] assms(5) by (simp add: handle_ok_def)
  from mmap.psend_spares [OF assms(2,3) this, of sz fuel m] assms(4-6) show ?thesis
    by (simp add: spares_used_def used_slot_def)
qed

theorem send_spares_used_slots_witness:
  "\<exists>c s. reachable_handle mmap_io (small_config Raise) c \<and> sh_state (slot_header (slot_raw 102 0 (mapped_mem s))) = Committed \<and>
     slot_raw 102 0 (mapped_mem (pc_store (snd (psend mmap_io calm 0 [9] (c\<lparr>pc_store := s\<rparr>))))) = slot_raw 102 0 (mapped_mem s)"
proof -
  let ?cfg = "small_config Raise"
  have sz: "region_slot_len ?cfg = 102" by (simp add: FRAME_HEADER_LEN_def layout_consts)
  from small_reachable [of Raise] obtain c where
    "new_initialized mmap_io 0 (\<lambda>_. undefined) undefined 0 ?cfg (new_mapping ?cfg) = Ok c" by blast
  then have c: "reachable_handle mmap_io ?cfg c" by (rule created)
  from small_waiting [of Raise] obtain p :: "mapped_slot_storage persistent_channel" and w where
    p: "mmap.sholds (env_crc calm) ?cfg w 1 [[3]] (pc_store p)" by blast
  from mmap.holds_first [OF p] obtain f vs where "mmap.window ?cfg w (committed_view 1 f # vs) (pc_store p)"
    by (auto simp: queued_slots_def)
  from mmap.window_tail [OF this] obtain views where
    v: "mmap.ring 1 102 w views (pc_store p)" "views ! 0 = committed_view 1 f" by (metis mod_less_eq_dividend small_config_simps(1) sz less_one mod_less_divisor zero_less_one)
  have st: "sh_state (slot_header (slot_raw 102 0 (mapped_mem (pc_store p)))) = Committed"
    using mmap.ring_raw [OF v(1), of 0] v(2) raw_view_state [of "slot_raw 102 0 (mapped_mem (pc_store p))"] by simp
  have lay: "region_layout mmap_io mapped_inv mapped_mem (capacity ?cfg) 102 (pc_store p)"
    using mmap.ring_layout [OF v(1)] by simp
  show ?thesis
    using send_spares_used_slots [OF c quiet_calm _ lay, of 0 0 "[9]"] st c by (intro exI [of _ c] exI [of _ "pc_store p"]) simp
qed

section \<open>The send guard\<close>

text \<open>Claim C19: the send guard keeps a producer off every slot that may still be read. When it leaves
  room for \<open>needed\<close> slots, the slots of the next \<open>needed\<close> cursors are different from the slot of every
  cursor between the pin floor (the tail when nothing is pinned) and the head, whatever slots
  recovery added to the count.\<close>

theorem send_guard_room:
  assumes "needed \<le> guard_room c" and "i < needed" and "unat (pc_head_cursor c) + needed < 2 ^ 64"
    and "(if pc_floor_cursor c = PIN_FLOOR_NONE then pc_tail_cursor c else min (pc_floor_cursor c) (pc_tail_cursor c)) \<le> j"
    and "j < pc_head_cursor c"
  shows "cursor_slot (pcapacity c) (pc_head_cursor c + word_of_nat i) \<noteq> cursor_slot (pcapacity c) j"
proof -
  let ?fl = "if pc_floor_cursor c = PIN_FLOOR_NONE then pc_tail_cursor c else min (pc_floor_cursor c) (pc_tail_cursor c)"
  let ?h = "unat (pc_head_cursor c)" and ?cap = "pcapacity c"
  have j: "unat ?fl \<le> unat j" "unat j < ?h" using assms(4,5) by (simp_all only: word_le_nat_alt word_less_nat_alt)
  then have fl: "?fl \<le> pc_head_cursor c" by (simp only: word_le_nat_alt)
  then have span: "unat (saturating_sub (pc_head_cursor c) ?fl) = ?h - unat ?fl"
    by (simp only: saturating_sub_def if_True unat_sub)
  have "needed \<le> ?cap - min (unat (saturating_sub (pc_head_cursor c) ?fl) + pc_recovery_bias c) ?cap"
    using assms(1) by (simp add: guard_room_def guard_len_def Let_def)
  then have room: "?h - unat ?fl + needed \<le> ?cap" unfolding span using assms(2) by linarith
  have u: "unat (pc_head_cursor c + word_of_nat i) = ?h + i" using assms(2,3) by (simp add: unat_word_ariths unat_of_nat)
  have "(unat j + (?h - unat j + i)) mod ?cap \<noteq> (unat j + 0) mod ?cap"
  proof
    assume "(unat j + (?h - unat j + i)) mod ?cap = (unat j + 0) mod ?cap"
    moreover have "?h - unat j + i < ?cap" "0 < ?cap" using room j assms(2) by linarith+
    ultimately have "?h - unat j + i = 0" by (rule mod_add_inj)
    with j show False by simp
  qed
  moreover have "unat j + (?h - unat j + i) = ?h + i" using j by simp
  ultimately show ?thesis using u by (simp add: cursor_slot_def)
qed

theorem send_guard_room_witness:
  "\<exists>c. guard_room c = 1 \<and> cursor_slot 3 (pc_head_cursor (c :: unit persistent_channel) + 0) \<noteq> cursor_slot 3 6"
proof -
  let ?c = "(fresh_handle () \<lparr>capacity = 3, slot_size = 4, backpressure = Raise, timeout = None, multi_producer = False\<rparr> undefined 0)
    \<lparr>pc_head_cursor := 7, pc_tail_cursor := 6, pc_floor_cursor := 5\<rparr>"
  have room: "guard_room ?c = 1"
    by (simp add: guard_room_def guard_len_def pcapacity_def fresh_handle_def saturating_sub_def PIN_FLOOR_NONE_def Let_def)
  have "cursor_slot 3 (7 + 0) \<noteq> cursor_slot 3 6"
    using send_guard_room [of 1 ?c 0 6] room by (simp add: pcapacity_def fresh_handle_def PIN_FLOOR_NONE_def)
  with room show ?thesis by (intro exI [of _ ?c]) (simp add: fresh_handle_def)
qed

section \<open>Reservation, by back end\<close>

lemma cas_seen:
  "mapped_inv s \<Longrightarrow> off + 8 \<le> length (mapped_mem s) \<Longrightarrow> from_le64 (bytes_at off 8 (mapped_mem s)) = e \<Longrightarrow>
     fst (rio_compare_exchange_u64 mmap_io off e v s) = Ok (e, True)"
  "file_inv f \<Longrightarrow> off + 8 \<le> length (file_mem f) \<Longrightarrow> from_le64 (bytes_at off 8 (file_mem f)) = e \<Longrightarrow>
     fst (rio_compare_exchange_u64 file_io off e v f) = Ok (v, True)"
proof -
  assume s: "mapped_inv s" "off + 8 \<le> length (mapped_mem s)" "from_le64 (bytes_at off 8 (mapped_mem s)) = e"
  then obtain t where "mapped_store off (to_le64 v) s = (Ok (), t)" using mapped_store_Ok [of s off "to_le64 v"] by auto
  with mapped_load_Ok [OF s(1,2), of mmap_texts] s(3) show "fst (rio_compare_exchange_u64 mmap_io off e v s) = Ok (e, True)"
    by (simp add: mmap_io_def mapped_io_def mapped_compare_exchange_u64_def)
next
  assume f: "file_inv f" "off + 8 \<le> length (file_mem f)" "from_le64 (bytes_at off 8 (file_mem f)) = e"
  then obtain g where "file_write_at off (to_le64 v) f = (Ok (), g)" using file_write_Ok [of f off "to_le64 v"] by auto
  with file_load_Ok [OF f(1,2)] f(3) show "fst (rio_compare_exchange_u64 file_io off e v f) = Ok (v, True)"
    by (simp add: file_io_def default_compare_exchange_u64_def default_store_u64_def)
qed

context region_io
begin

text \<open>A reservation that finds room takes the slots from the head on; where the caller is told they
  start is the word the exchange returns.\<close>

lemma reserve_room:
  assumes s: "inv (pc_store c)" "REGION_HEADER_LEN \<le> length (mem (pc_store c))" "words_of (mem (pc_store c)) = w"
    and w: "unat (rg_head w) = unat (rg_tail w) + n" "rg_floor w = PIN_FLOOR_NONE" "n \<le> capacity cfg"
    and c: "pc_config c = cfg" "pc_recovery_bias c = 0"
    and need: "needed \<le> capacity cfg - n" and count: "unat (rg_head w) + needed < 2 ^ 64"
    and seen: "fst (rio_compare_exchange_u64 io CURSOR_HEAD_OFFSET (rg_head w) (rg_head w + word_of_nat needed) (pc_store c)) = Ok (x, True)"
  shows "\<exists>d. reserve_slots io env (Suc fuel) needed c = (Ok (Some x), d) \<and>
    load_head io (pc_store d) = Ok (rg_head w + word_of_nat needed)"
proof -
  have fit: "CURSOR_HEAD_OFFSET + 8 \<le> length (mem (pc_store c))" "CURSOR_TAIL_OFFSET + 8 \<le> length (mem (pc_store c))"
    "PIN_FLOOR_OFFSET + 8 \<le> length (mem (pc_store c))" using s(2) by (simp_all add: layout_consts)
  have l: "load_head io (pc_store c) = Ok (rg_head w)" "load_tail io (pc_store c) = Ok (rg_tail w)"
    "load_floor io (pc_store c) = Ok PIN_FLOOR_NONE"
    using s(3) w(2) load_law [OF s(1) fit(1)] load_law [OF s(1) fit(2)] load_law [OF s(1) fit(3)]
    by (auto simp: load_head_def load_tail_def load_floor_def words_of_def word_at_def)
  let ?r = "refreshed w n c"
  have d: "unat (rg_head w - rg_tail w) = n" using unat_diff_add [OF w(1)] .
  have r: "refresh_cursors io c = (Ok (), ?r)"
    using l d w(2,3) c by (simp add: refresh_cursors_def refreshed_def cursor_len_def cursor_slot_def pcapacity_def)
  have "rg_tail w \<le> rg_head w" using w(1) by (simp add: word_le_nat_alt)
  then have room: "guard_room ?r = capacity cfg - n"
    using d w(2,3) c by (simp add: guard_room_def guard_len_def refreshed_def pcapacity_def saturating_sub_def Let_def)
  have h: "from_le64 (bytes_at CURSOR_HEAD_OFFSET 8 (mem (pc_store c))) = rg_head w"
    using s(3) by (auto simp: words_of_def word_at_def)
  from cas_law [OF s(1) fit(1), of "rg_head w" "rg_head w + word_of_nat needed"] seen h obtain t where
    t: "rio_compare_exchange_u64 io CURSOR_HEAD_OFFSET (rg_head w) (rg_head w + word_of_nat needed) (pc_store c) = (Ok (x, True), t)"
      "inv t" "mem t = put_at CURSOR_HEAD_OFFSET (to_le64 (rg_head w + word_of_nat needed)) (mem (pc_store c))"
    by auto
  have "load_head io t = Ok (rg_head w + word_of_nat needed)"
    using load_law [OF t(2), of CURSOR_HEAD_OFFSET] t(3) fit(1) by (simp add: load_head_def)
  moreover have "needed \<le> capacity cfg" using need by linarith
  ultimately show ?thesis using r room t(1) need count c
    by (simp add: reserve_slots_def compare_exchange_head_def add_u64_def pcapacity_def refreshed_def)
qed

end

text \<open>Over the file back end a producer of a channel with several producers is told the wrong
  slots. Take a mapping and a file whose header words are the same, with room for the message: both
  back ends move the shared head past the slots it needs; but while on the mapping the producer is
  given the first of them, the default compare-and-exchange the file uses returns the new head, so
  the producer is given the slots after the ones it has reserved.\<close>

theorem reservation_start_by_backend:
  assumes "mapped_inv (pc_store c)" and "REGION_HEADER_LEN \<le> length (mapped_mem (pc_store c))"
    and "words_of (mapped_mem (pc_store c)) = w" and "pc_config c = cfg" and "pc_recovery_bias c = 0"
    and "file_inv (pc_store d)" and "REGION_HEADER_LEN \<le> length (file_mem (pc_store d))"
    and "words_of (file_mem (pc_store d)) = w" and "pc_config d = cfg" and "pc_recovery_bias d = 0"
    and "unat (rg_head w) = unat (rg_tail w) + n" and "rg_floor w = PIN_FLOOR_NONE" and "n \<le> capacity cfg"
    and "needed \<le> capacity cfg - n" and "unat (rg_head w) + needed < 2 ^ 64"
  shows "(\<exists>c'. reserve_slots mmap_io env (Suc fuel) needed c = (Ok (Some (rg_head w)), c') \<and>
      load_head mmap_io (pc_store c') = Ok (rg_head w + word_of_nat needed)) \<and>
    (\<exists>d'. reserve_slots file_io env' (Suc fuel) needed d = (Ok (Some (rg_head w + word_of_nat needed)), d') \<and>
      load_head file_io (pc_store d') = Ok (rg_head w + word_of_nat needed))"
proof -
  have m: "CURSOR_HEAD_OFFSET + 8 \<le> length (mapped_mem (pc_store c))"
    "from_le64 (bytes_at CURSOR_HEAD_OFFSET 8 (mapped_mem (pc_store c))) = rg_head w"
    using assms(2,3) by (auto simp: layout_consts words_of_def word_at_def)
  have f: "CURSOR_HEAD_OFFSET + 8 \<le> length (file_mem (pc_store d))"
    "from_le64 (bytes_at CURSOR_HEAD_OFFSET 8 (file_mem (pc_store d))) = rg_head w"
    using assms(7,8) by (auto simp: layout_consts words_of_def word_at_def)
  from mmap.reserve_room [OF assms(1-3,11-13,4,5,14,15) cas_seen(1) [OF assms(1) m]]
    file_store.reserve_room [OF assms(6-8,11-13,9,10,14,15) cas_seen(2) [OF assms(6) f]]
  show ?thesis by blast
qed

theorem reservation_start_by_backend_witness:
  "\<exists>c d. (\<exists>c'. reserve_slots mmap_io calm (Suc 0) 1 c = (Ok (Some 0), c')) \<and>
     (\<exists>d'. reserve_slots file_io undefined (Suc 0) 1 d = (Ok (Some 1), d'))"
proof -
  let ?cfg = "small_config Raise" and ?bytes = "put_at PIN_FLOOR_OFFSET (to_le64 PIN_FLOOR_NONE) (replicate 40 0)"
  let ?m = "\<lparr>map_capacity = 1, map_slot_size = 40, map_total_len = 40, map_bytes = ?bytes, map_poisoned = False\<rparr>"
  let ?f = "\<lparr>file_capacity = 1, file_slot_size = 40, file_data = ?bytes, file_poisoned = False\<rparr>"
  let ?c = "fresh_handle ?m ?cfg undefined 0" and ?d = "fresh_handle ?f ?cfg undefined 0"
  have "words_of ?bytes = empty_words"
    by (simp add: words_of_def word_at_def layout_consts empty_words_def bytes_at_zeros bytes_at_put_at_disjoint del: bytes_at_0)
  then have w: "words_of (mapped_mem ?m) = empty_words" "words_of (file_mem ?f) = empty_words"
    by (simp_all add: mapped_mem_def file_mem_def layout_consts)
  have "mapped_inv ?m" "file_inv ?f" "REGION_HEADER_LEN \<le> length (mapped_mem ?m)" "REGION_HEADER_LEN \<le> length (file_mem ?f)"
    by (simp_all add: mapped_inv_def mapped_mem_def file_inv_def file_mem_def layout_consts isize_max_def)
  with reservation_start_by_backend [of ?c empty_words ?cfg ?d 0 1 calm 0 undefined] w
  show ?thesis by (intro exI [of _ ?c] exI [of _ ?d]) (auto simp: fresh_handle_def empty_words_def)
qed

end
