(* ===== verification/Ticket_Queue.thy ===== *)
theory Ticket_Queue
  imports Channel_Spec
begin

text \<open>
  What a channel with several producers promises: a send is two steps, the reservation of its place
  in the queue and the writing of the message there, and between the two of them the other producers
  and the consumer may act. The queue of tickets, its steps, and what follows from them: messages come
  out in the order of the reservations, each once, and a place that is not written yet is waited for.
\<close>

section \<open>Tickets\<close>

record ticket =
  tk_owner :: nat
  tk_message :: bytes
  tk_written :: bool

record ticket_queue =
  tq_config :: spsc_config
  tq_entries :: "ticket list"
  tq_closed :: "bool list"
  tq_shut :: bool

definition queued_messages :: "ticket_queue \<Rightarrow> bytes list" where
  "queued_messages q = map tk_message (tq_entries q)"

text \<open>Producer \<open>i\<close> asks for a place; \<open>Ok False\<close> is a message that the policy drops.\<close>

definition ticket_reserve :: "nat \<Rightarrow> bytes \<Rightarrow> (ticket_queue, dsline_error, bool) action" where
  "ticket_reserve i m q =
     (if tq_closed q ! i then (ChanErr Closed, q)
      else case send_plan_of (tq_config q) (length m) of
        Ok plan \<Rightarrow>
          if needed_slots plan \<le> capacity (tq_config q) - used_slots (tq_config q) (queued_messages q)
          then (Ok True, q\<lparr>tq_entries := tq_entries q @ [\<lparr>tk_owner = i, tk_message = m, tk_written = False\<rparr>]\<rparr>)
          else if backpressure (tq_config q) = DropNewest then (Ok False, q)
          else (ChanErr BufferFull, q)
      | Err e \<Rightarrow> (Err e, q)
      | Panicked \<Rightarrow> (Panicked, q)
      | Diverged \<Rightarrow> (Diverged, q))"

text \<open>The unwritten ticket of a producer.\<close>

definition waiting_for :: "nat \<Rightarrow> ticket \<Rightarrow> bool" where
  "waiting_for i e \<longleftrightarrow> tk_owner e = i \<and> \<not> tk_written e"

definition ticket_write :: "nat \<Rightarrow> (ticket_queue, dsline_error, unit) action" where
  "ticket_write i q =
     (Ok (), q\<lparr>tq_entries := map (\<lambda>e. if waiting_for i e then e\<lparr>tk_written := True\<rparr> else e) (tq_entries q)\<rparr>)"

definition ticket_receive :: "(ticket_queue, dsline_error, bytes) action" where
  "ticket_receive q =
     (case tq_entries q of
        [] \<Rightarrow> (ChanErr (if tq_shut q then Closed else BufferEmpty), q)
      | e # es \<Rightarrow>
          if tk_written e then (Ok (tk_message e), q\<lparr>tq_entries := es\<rparr>)
          else (ChanErr (if tq_shut q then Closed else BufferEmpty), q))"

section \<open>Events and runs\<close>

text \<open>An event names the step, who took it and what it answered.\<close>

datatype producer_event =
    Reserved nat bytes "bool result"
  | Written nat "unit result"
  | Received "bytes result"
  | Joined "unit result"
  | Cleaned "nat result"

text \<open>A producer has one place at a time; another may join at any time. The explicit clean-up, which
  the consumer or anybody else may ask for, finds nothing to free.\<close>

inductive ticket_step :: "ticket_queue \<Rightarrow> producer_event \<Rightarrow> ticket_queue \<Rightarrow> bool" where
  reserves: "i < length (tq_closed q) \<Longrightarrow> \<forall>e \<in> set (tq_entries q). \<not> waiting_for i e \<Longrightarrow>
    ticket_reserve i m q = (r, q') \<Longrightarrow> ticket_step q (Reserved i m r) q'"
| writes: "\<exists>e \<in> set (tq_entries q). waiting_for i e \<Longrightarrow> ticket_write i q = (r, q') \<Longrightarrow> ticket_step q (Written i r) q'"
| receives: "ticket_receive q = (r, q') \<Longrightarrow> ticket_step q (Received r) q'"
| joins: "ticket_step q (Joined (Ok ())) (q\<lparr>tq_closed := tq_closed q @ [False]\<rparr>)"
| cleans: "ticket_step q (Cleaned (Ok 0)) q"

inductive_cases ticket_stepE: "ticket_step q ev q'"

inductive_simps ticket_step_simps:
  "ticket_step q (Reserved i m r) q'" "ticket_step q (Written i r) q'" "ticket_step q (Received r) q'"
  "ticket_step q (Joined a) q'" "ticket_step q (Cleaned n) q'"

text \<open>The producer and the message of an event; the queue alone determines the rest.\<close>

lemma ticket_step_deterministic:
  "ticket_step q (Reserved i m r) q' \<Longrightarrow> ticket_step q (Reserved i m s) q'' \<Longrightarrow> r = s \<and> q' = q''"
  "ticket_step q (Written i a) q' \<Longrightarrow> ticket_step q (Written i b) q'' \<Longrightarrow> a = b \<and> q' = q''"
  "ticket_step q (Received c) q' \<Longrightarrow> ticket_step q (Received d) q'' \<Longrightarrow> c = d \<and> q' = q''"
  "ticket_step q (Joined x) q' \<Longrightarrow> ticket_step q (Joined y) q'' \<Longrightarrow> x = y \<and> q' = q''"
  "ticket_step q (Cleaned k) q' \<Longrightarrow> ticket_step q (Cleaned n) q'' \<Longrightarrow> k = n \<and> q' = q''"
  by (auto simp: ticket_step_simps)

inductive ticket_run :: "ticket_queue \<Rightarrow> producer_event list \<Rightarrow> ticket_queue \<Rightarrow> bool" where
  stop: "ticket_run q [] q"
| step: "ticket_step q ev q' \<Longrightarrow> ticket_run q' evs q'' \<Longrightarrow> ticket_run q (ev # evs) q''"

inductive_simps ticket_run_simps: "ticket_run q [] q'" "ticket_run q (ev # evs) q'"

text \<open>The messages that were given a place, and those that came out, in order.\<close>

fun reserved_messages :: "producer_event list \<Rightarrow> bytes list" where
  "reserved_messages [] = []"
| "reserved_messages (Reserved i m (Ok True) # evs) = m # reserved_messages evs"
| "reserved_messages (_ # evs) = reserved_messages evs"

fun received_messages :: "producer_event list \<Rightarrow> bytes list" where
  "received_messages [] = []"
| "received_messages (Received (Ok m) # evs) = m # received_messages evs"
| "received_messages (_ # evs) = received_messages evs"

lemma queued_write [simp]: "queued_messages (snd (ticket_write i q)) = queued_messages q"
  by (simp add: ticket_write_def queued_messages_def o_def if_distrib cong: if_cong)

lemma ticket_step_order:
  assumes "ticket_step q ev q'"
  shows "received_messages [ev] @ queued_messages q' = queued_messages q @ reserved_messages [ev]"
  using assms
proof (rule ticket_stepE)
  fix i m r assume "ev = Reserved i m r" "ticket_reserve i m q = (r, q')"
  then show ?thesis
    by (auto simp: ticket_reserve_def queued_messages_def split: if_splits outcome.splits)
next
  fix i r assume "ev = Written i r" "ticket_write i q = (r, q')"
  then show ?thesis using queued_write [of i q] by simp
next
  fix r assume "ev = Received r" "ticket_receive q = (r, q')"
  then show ?thesis
    by (auto simp: ticket_receive_def queued_messages_def split: list.splits if_splits)
qed (auto simp: queued_messages_def)

lemma messages_Cons:
  "received_messages (ev # evs) = received_messages [ev] @ received_messages evs"
  "reserved_messages (ev # evs) = reserved_messages [ev] @ reserved_messages evs"
proof -
  show "received_messages (ev # evs) = received_messages [ev] @ received_messages evs"
    by (cases "ev # evs" rule: received_messages.cases) auto
  show "reserved_messages (ev # evs) = reserved_messages [ev] @ reserved_messages evs"
    by (cases "ev # evs" rule: reserved_messages.cases) auto
qed

text \<open>First reserved, first out.\<close>

lemma ticket_run_order:
  "ticket_run q evs q' \<Longrightarrow> received_messages evs @ queued_messages q' = queued_messages q @ reserved_messages evs"
proof (induction rule: ticket_run.induct)
  case (step q ev q' evs q'')
  from ticket_step_order [OF step.hyps(1)] step.IH show ?case
    unfolding messages_Cons [of ev evs] by (metis append.assoc)
qed simp

text \<open>What a step leaves alone.\<close>

lemma ticket_step_config:
  assumes "ticket_step q ev q'"
  shows "tq_config q' = tq_config q \<and> tq_shut q' = tq_shut q"
  using assms
  by (auto elim!: ticket_stepE simp: ticket_reserve_def ticket_write_def ticket_receive_def
      split: if_splits outcome.splits list.splits)

section \<open>An abandoned place\<close>

text \<open>While a producer does not write the place it has, nothing behind it comes out.\<close>

lemma ticket_step_blocked:
  assumes t: "ticket_step q ev q'" and q: "tq_entries q = ds @ e # es" and e: "waiting_for i e"
    and none: "\<nexists>r. ev = Written i r"
  shows "\<exists>ds' es'. tq_entries q' = ds' @ e # es' \<and> received_messages [ev] @ map tk_message ds' = map tk_message ds"
  using t
proof (rule ticket_stepE)
  fix j m r assume "ev = Reserved j m r" "ticket_reserve j m q = (r, q')"
  then have "\<exists>xs. tq_entries q' = tq_entries q @ xs" "received_messages [ev] = []"
    by (auto simp: ticket_reserve_def split: if_splits outcome.splits)
  with q show ?thesis by auto
next
  fix j r assume j: "ev = Written j r" "ticket_write j q = (r, q')"
  let ?mark = "map (\<lambda>e. if waiting_for j e then e\<lparr>tk_written := True\<rparr> else e)"
  have "\<not> waiting_for j e" using j(1) none e by (auto simp: waiting_for_def)
  then have "tq_entries q' = ?mark ds @ e # ?mark es" using j(2) q by (auto simp: ticket_write_def)
  moreover have "map tk_message (?mark ds) = map tk_message ds" by simp
  ultimately show ?thesis using j(1) by (intro exI [of _ "?mark ds"] exI [of _ "?mark es"]) simp
next
  fix r assume r: "ev = Received r" "ticket_receive q = (r, q')"
  show ?thesis
  proof (cases ds)
    case Nil
    with r q e show ?thesis by (auto simp: ticket_receive_def waiting_for_def)
  next
    case (Cons d ds')
    with r q show ?thesis
      by (intro exI [of _ "if tk_written d then ds' else ds"] exI [of _ es]) (auto simp: ticket_receive_def split: if_splits)
  qed
qed (use q in auto)

lemma ticket_run_blocked:
  assumes "ticket_run q evs q'" and "tq_entries q = ds @ e # es" and "waiting_for i e"
    and "\<forall>r. Written i r \<notin> set evs"
  shows "\<exists>rest. received_messages evs @ rest = map tk_message ds"
  using assms
proof (induction arbitrary: ds es rule: ticket_run.induct)
  case (step q ev q' evs q'')
  have "\<nexists>r. ev = Written i r" "\<forall>r. Written i r \<notin> set evs" using step.prems(3) by auto
  with ticket_step_blocked [OF step.hyps(1) step.prems(1,2)] step.IH [OF _ step.prems(2)] show ?case
    unfolding messages_Cons [of ev evs] by (metis append.assoc)
qed simp

lemma ticket_run_append:
  "ticket_run q (evs @ fs) q' \<longleftrightarrow> (\<exists>r. ticket_run q evs r \<and> ticket_run r fs q')"
  by (induction evs arbitrary: q) (auto simp: ticket_run_simps)

lemma messages_append:
  "received_messages (evs @ fs) = received_messages evs @ received_messages fs"
  "reserved_messages (evs @ fs) = reserved_messages evs @ reserved_messages fs"
proof (induction evs)
  case (Cons ev evs)
  {
    case 1
    show ?case using Cons.IH(1) messages_Cons(1) [of ev "evs @ fs"] messages_Cons(1) [of ev evs] by simp
  next
    case 2
    show ?case using Cons.IH(2) messages_Cons(2) [of ev "evs @ fs"] messages_Cons(2) [of ev evs] by simp
  }
qed simp_all

lemma ticket_run_cleaned: "ticket_run q evs q' \<Longrightarrow> Cleaned n \<in> set evs \<Longrightarrow> n = Ok 0"
  by (induction rule: ticket_run.induct) (auto simp: ticket_step_simps)

lemma abandoned_place_blocks:
  assumes "ticket_run q (evs @ Reserved i m (Ok True) # fs) q'" and "\<forall>r. Written i r \<notin> set fs" and "tq_entries q = []"
  shows "\<exists>rest. received_messages (evs @ Reserved i m (Ok True) # fs) @ rest = reserved_messages evs"
proof -
  from assms(1) obtain a b where r: "ticket_run q evs a" "ticket_step a (Reserved i m (Ok True)) b" "ticket_run b fs q'"
    by (auto simp: ticket_run_append ticket_run_simps)
  let ?e = "\<lparr>tk_owner = i, tk_message = m, tk_written = False\<rparr>"
  have b: "tq_entries b = tq_entries a @ ?e # []" "waiting_for i ?e"
    using r(2) by (auto simp: ticket_step_simps ticket_reserve_def waiting_for_def split: if_splits outcome.splits)
  from ticket_run_blocked [OF r(3) b assms(2)] obtain rest where "received_messages fs @ rest = queued_messages a"
    by (auto simp: queued_messages_def)
  then have "received_messages (evs @ Reserved i m (Ok True) # fs) @ rest = received_messages evs @ queued_messages a"
    by (simp add: messages_append)
  also have "\<dots> = reserved_messages evs" using ticket_run_order [OF r(1)] assms(3) by (simp add: queued_messages_def)
  finally show ?thesis by blast
qed

end
