(* ===== verification/Persistent_Producers.thy ===== *)
theory Persistent_Producers
  imports Persistent_Opening Ticket_Queue
begin

text \<open>
  The persistent channel with several producers. A send is taken apart at the point where it has
  reserved its slots, so that the other handles may act before it writes them; the steps of any
  number of producer handles and one consumer handle over one shared store, their invariant, and the
  simulation by the queue of tickets.
\<close>

section \<open>The two halves of a send\<close>

record reservation =
  rs_message :: bytes
  rs_plan :: send_plan
  rs_start :: u64

definition send_reserve ::
  "'s region_io_ops \<Rightarrow> 's channel_env \<Rightarrow> nat \<Rightarrow> bytes \<Rightarrow> ('s, reservation option) channel_action" where
  "send_reserve io env fuel m =
     bind (gets pc_closed) (\<lambda>is_closed.
     if is_closed then fail (Channel Closed) else
     seq (refresh_cursors io)
     (bind (gets pc_config) (\<lambda>cfg.
      bind (lift (send_plan_of cfg (length m))) (\<lambda>plan.
      bind (reserve_slots io env fuel (needed_slots plan)) (\<lambda>reserved.
      return (map_option (\<lambda>start. \<lparr>rs_message = m, rs_plan = plan, rs_start = start\<rparr>) reserved))))))"

definition send_fill :: "'s region_io_ops \<Rightarrow> 's channel_env \<Rightarrow> reservation \<Rightarrow> ('s, unit) channel_action" where
  "send_fill io env rs =
     seq (look (flush_header io))
     (bind take_sequence (\<lambda>sq.
      bind (reads (\<lambda>c. encode_message_frames (env_crc env) (pc_config c) (rs_plan rs) sq (rs_message rs))) (\<lambda>frames.
      bind (gets (\<lambda>c. (stamp env (needed_slots (rs_plan rs)) c, pcapacity c))) (\<lambda>(st, cap).
      let first_index = cursor_slot cap (rs_start rs) in
      seq (write_reserved io env sq st (rs_start rs) 0 frames)
      (seq (look (publish_batch io frames first_index))
      (modify (\<lambda>c. c\<lparr>pc_head := (first_index + length frames) mod cap,
         pc_len := min (pc_len c + length frames) cap\<rparr>)))))))"

lemma refresh_config: "refresh_cursors io c = (r, d) \<Longrightarrow> pc_config d = pc_config c"
  by (auto simp: refresh_cursors_def bind_def seq_def reads_def modify_def look_def split: outcome.splits prod.splits)

text \<open>The halves make up the send of a channel with several producers.\<close>

lemma send_halves:
  assumes "multi_producer (pc_config c)"
  shows "psend io env fuel m c =
    bind (send_reserve io env fuel m) (\<lambda>r. case r of None \<Rightarrow> return () | Some rs \<Rightarrow> send_fill io env rs) c"
proof (cases "refresh_cursors io c")
  case (Pair r d)
  have "multi_producer (pc_config d)" using refresh_config [OF Pair] assms by simp
  with Pair show ?thesis
    by (auto simp: psend_def send_reserve_def send_fill_def send_mpsc_def Let_def bind_def seq_def gets_def fail_def return_def lift_def
        split: outcome.splits prod.splits option.splits)
qed

section \<open>Tickets in the slots\<close>

text \<open>\<open>laid_out crc cfg es vs\<close>: the slots \<open>vs\<close> hold the tickets \<open>es\<close>, a written one as the frames of
  its message under its producer's number, an unwritten one as the free slots reserved for it.\<close>

fun laid_out :: "(bytes \<Rightarrow> u32) \<Rightarrow> spsc_config \<Rightarrow> ticket list \<Rightarrow> slot_view list \<Rightarrow> bool" where
  "laid_out crc cfg [] vs = (vs = [])"
| "laid_out crc cfg (e # es) vs =
     (\<exists>plan us vs'. vs = us @ vs' \<and> length (tk_message e) \<le> isize_max \<and>
        send_plan_of cfg (length (tk_message e)) = Ok plan \<and>
        (if tk_written e
         then \<exists>sq fs. encode_message_frames crc cfg plan sq (tk_message e) = Ok fs \<and> us = map (committed_view sq) fs
         else us = replicate (needed_slots plan) free_view) \<and>
        laid_out crc cfg es vs')"

lemma laid_out_length:
  "laid_out crc cfg es vs \<Longrightarrow> 0 < capacity cfg \<Longrightarrow> length vs = used_slots cfg (map tk_message es)"
  by (induction crc cfg es vs rule: laid_out.induct) (auto simp: encoded_message(1) split: if_splits)

lemma laid_out_append:
  "laid_out crc cfg (ds @ es) vs \<longleftrightarrow> (\<exists>us ws. vs = us @ ws \<and> laid_out crc cfg ds us \<and> laid_out crc cfg es ws)"
proof (induction ds arbitrary: vs)
  case (Cons d ds)
  show ?case unfolding append_Cons laid_out.simps Cons.IH by (auto; metis append.assoc)
qed simp

lemma laid_out_split:
  assumes "laid_out crc cfg (ds @ e # es) vs" "\<not> tk_written e" "send_plan_of cfg (length (tk_message e)) = Ok plan"
  obtains us ws where "vs = us @ replicate (needed_slots plan) free_view @ ws" "laid_out crc cfg ds us" "laid_out crc cfg es ws"
    "length (tk_message e) \<le> isize_max"
  using assms by (auto simp: laid_out_append)

section \<open>Reserved slots in the window\<close>

context region_io
begin

text \<open>Writing a message into the slots reserved for it.\<close>

lemma write_reserved_at:
  assumes "window cfg w (us @ replicate (length fs) free_view @ vs) (pc_store c)" "pc_config c = cfg"
    and "unat start + k = unat (rg_tail w) + length us" "unat start + k + length fs < 2 ^ 64"
    and "slot_size cfg + FRAME_HEADER_LEN < 2 ^ 32" "\<forall>f \<in> set fs. length f \<le> slot_size cfg + FRAME_HEADER_LEN"
  shows "\<exists>t. write_reserved io env sq st start k fs c = (Ok (), c\<lparr>pc_store := t\<rparr>) \<and>
    window cfg w (us @ map (committed_view sq) fs @ vs) t"
  using assms
proof (induction fs arbitrary: c us k)
  case Nil
  then show ?case by (intro exI [of _ "pc_store c"]) simp
next
  case (Cons f fs)
  let ?i = "(unat (rg_tail w) + length us) mod capacity cfg"
  have w: "window cfg w (us @ free_view # (replicate (length fs) free_view @ vs)) (pc_store c)" using Cons.prems(1) by simp
  from window_fill [OF w _ Cons.prems(5), of f sq "Some st"] Cons.prems(6) obtain t where
    t: "pwrite_committed_no_flush io ?i sq f (Some st) (pc_store c) = (Ok (), t)"
      "window cfg w (us @ committed_view sq f # (replicate (length fs) free_view @ vs)) t" by auto
  have cur: "add_u64 start k = Ok (start + word_of_nat k)" "unat (start + word_of_nat k) = unat (rg_tail w) + length us"
    using Cons.prems(3,4) by (simp_all add: add_u64_def unat_word_ariths unat_of_nat)
  have slot: "write_reserved_slot io env ?i sq f st n c = (Ok (), c\<lparr>pc_store := t\<rparr>)" for n
    using t(1) by (cases n) (simp_all add: when_full_def)
  from Cons.IH [of "us @ [committed_view sq f]" "c\<lparr>pc_store := t\<rparr>" "k + 1"] t(2) Cons.prems(2-6) obtain u where
    "write_reserved io env sq st start (k + 1) fs (c\<lparr>pc_store := t\<rparr>) = (Ok (), c\<lparr>pc_store := u\<rparr>)"
    "window cfg w (us @ committed_view sq f # map (committed_view sq) fs @ vs) u" by auto
  with cur slot Cons.prems(2) show ?case by (intro exI [of _ u]) (simp add: cursor_slot_def pcapacity_def)
qed

lemma send_fill_at:
  assumes q: "queued cfg w (us @ replicate (needed_slots plan) free_view @ vs) (pc_store c)" and c: "pc_config c = cfg"
    and start: "unat start = unat (rg_tail w) + length us" and plan: "send_plan_of cfg (length m) = Ok plan"
    and m: "length m \<le> isize_max" and small: "slot_size cfg + FRAME_HEADER_LEN < 2 ^ 32"
  shows "\<exists>d sq fs. send_fill io env \<lparr>rs_message = m, rs_plan = plan, rs_start = start\<rparr> c = (Ok (), d) \<and>
    encode_message_frames (env_crc env) cfg plan sq m = Ok fs \<and>
    queued cfg w (us @ map (committed_view sq) fs @ vs) (pc_store d) \<and>
    pc_config d = cfg \<and> pc_recovery_bias d = pc_recovery_bias c \<and> pc_closed d = pc_closed c"
proof -
  let ?sq = "pc_next_seq c" and ?c = "c\<lparr>pc_next_seq := pc_next_seq c + 1\<rparr>"
  have win: "window cfg w (us @ replicate (needed_slots plan) free_view @ vs) (pc_store c)"
    and h: "unat (rg_head w) = unat (rg_tail w) + length us + needed_slots plan + length vs"
    using q by (simp_all add: queued_slots_def)
  note cap = window_length(2) [OF win]
  from encode_message_frames_Ok [OF plan cap m] obtain fs where
    fs: "encode_message_frames (env_crc env) cfg plan ?sq m = Ok fs" by metis
  note e = encoded_message [OF plan cap m fs]
  have fit: "\<forall>f \<in> set fs. length f \<le> slot_size cfg + FRAME_HEADER_LEN" using e(2) by (simp add: message_frames_def)
  have win': "window cfg w (us @ replicate (length fs) free_view @ vs) (pc_store ?c)" using win e(1) by simp
  have "unat (rg_head w) < 2 ^ 64" using unsigned_less [of "rg_head w", where ?'a = nat] by simp
  then have "unat start + 0 + length fs < 2 ^ 64" using start h e(1) by linarith
  from write_reserved_at [OF win' _ _ this small fit, where sq = ?sq and env = env and st = "stamp env (needed_slots plan) ?c"] c start
  obtain t where
    t: "write_reserved io env ?sq (stamp env (needed_slots plan) ?c) start 0 fs ?c = (Ok (), ?c\<lparr>pc_store := t\<rparr>)"
      "window cfg w (us @ map (committed_view ?sq) fs @ vs) t" by auto
  have "flush_header io (pc_store c) = Ok ()"
    using win flush_header_ok by (auto simp: ring_window_def)
  moreover have "publish_batch io fs (cursor_slot (capacity cfg) start) t = Ok ()"
    using window_flushes(2) [OF t(2) fit e(3)] .
  moreover have "queued cfg w (us @ map (committed_view ?sq) fs @ vs) t"
    using t(2) q e(1) by (simp add: queued_slots_def)
  ultimately show ?thesis using t(1) fs c
    by (intro exI [of _ "?c\<lparr>pc_store := t, pc_head := (cursor_slot (capacity cfg) start + length fs) mod capacity cfg,
        pc_len := min (pc_len c + length fs) (capacity cfg)\<rparr>"] exI [of _ ?sq] exI [of _ fs])
      (simp add: send_fill_def take_sequence_def pcapacity_def Let_def)
qed

section \<open>Receiving where a slot is not written yet\<close>

lemma unwritten_header:
  assumes c: "at_tail cfg vs c" and first: "vs = [] \<or> hd vs = free_view"
  shows "\<exists>q n. read_header io (pc_tail c) (pc_store c) = Ok (Free, q, n)"
proof (cases vs)
  case Nil
  with at_tail_header(2) c show ?thesis by simp
next
  case (Cons v us)
  with first c have "window cfg (loaded_words c) (free_view # us) (pc_store c)" using at_tail_window by fastforce
  then obtain views where v: "ring (capacity cfg) (region_slot_len cfg) (loaded_words c) views (pc_store c)"
    "unat (rg_tail (loaded_words c)) mod capacity cfg < capacity cfg"
    "views ! (unat (rg_tail (loaded_words c)) mod capacity cfg) = free_view" by (rule window_tail)
  from slot_state_at [OF v(1,2)] v(3) at_tail_fields(2) [OF c] show ?thesis by auto
qed

lemma poll_unwritten_at:
  assumes "\<exists>q n. read_header io (pc_tail c) (pc_store c) = Ok (Free, q, n)" "quiet env"
  shows "poll_committed_loop io env (Suc n) c = (if pc_closed c then ChanErr Closed else Ok False, c)"
  using assms by (induction n) (auto simp: tail_header_def)

lemma ensure_unwritten:
  assumes q: "queued (pc_config c) w vs (pc_store c)" and bias: "pc_recovery_bias c = 0" and env: "quiet env"
    and first: "vs = [] \<or> hd vs = free_view"
  shows "\<exists>d. ensure_tail_readable io env c = (ChanErr (if pc_closed c then Closed else BufferEmpty), d) \<and>
    at_tail (pc_config c) vs d \<and> pc_closed d = pc_closed c \<and> pc_head_cursor d = rg_head w"
proof -
  let ?c = "refreshed w (length vs) c"
  note r = refresh_queued [OF q bias]
  have c: "at_tail (pc_config c) vs (?c\<lparr>pc_resync_expected := b\<rparr>)" for b
    using r(2) by (simp add: loaded_def loaded_words_def)
  note header = unwritten_header [OF c first]
  have poll: "poll_tail_committed io env (?c\<lparr>pc_resync_expected := False\<rparr>) =
      (if pc_closed c then ChanErr Closed else Ok False, ?c\<lparr>pc_resync_expected := False\<rparr>)"
    using poll_unwritten_at [OF header [of False] env, of 255]
    by (simp add: poll_tail_committed_def POLL_LIMIT_def refreshed_def del: poll_committed_loop.simps)
  note reclaim = reclaim_unwritten_at [OF c [of False] header [of False], of env]
  show ?thesis
  proof (cases "pc_closed c")
    case True
    with poll r(1) r(2) c [of False] show ?thesis
      by (cases "vs = []") (auto simp: ensure_tail_readable_def refreshed_def)
  next
    case False
    then have "ensure_tail_readable io env c = (ChanErr BufferEmpty, ?c\<lparr>pc_resync_expected := pc_resync_expected c\<rparr>)"
      using poll reclaim r(1) by (simp add: ensure_tail_readable_def refreshed_def)
    with c [of "pc_resync_expected c"] False show ?thesis by (auto simp: refreshed_def)
  qed
qed

end

end
