(* ===== verification/Producer_Group.thy ===== *)
theory Producer_Group
  imports Persistent_Producers
begin

text \<open>
  Any number of producer handles and one consumer handle over one shared store, each acting in its
  turn: the steps, the invariant that ties the store, the handles and the outstanding reservations to
  the queue of tickets, and the simulation of that queue by every run of steps.
\<close>

section \<open>Reserving slots\<close>

context exchange_region_io
begin

lemma exchange_head_at:
  assumes q: "queued cfg w vs s" and room: "length vs + n \<le> capacity cfg" and count: "unat (rg_head w) + n < 2 ^ 64"
  shows "\<exists>t. compare_exchange_head io (rg_head w) (rg_head w + word_of_nat n) s = (Ok (rg_head w, True), t) \<and>
    queued cfg (w\<lparr>rg_head := rg_head w + word_of_nat n\<rparr>) (vs @ replicate n free_view) t \<and>
    (\<forall>i < capacity cfg. read_header_full io i t = read_header_full io i s)"
proof -
  have win: "window cfg w (vs @ replicate n free_view) s" and h: "unat (rg_head w) = unat (rg_tail w) + length vs"
    and f: "rg_floor w = PIN_FLOOR_NONE"
    using q window_reserved [OF room] by (simp_all add: queued_slots_def)
  from win obtain views where v: "ring (capacity cfg) (region_slot_len cfg) w views s"
    "rotate (unat (rg_tail w)) views =
       (vs @ replicate n free_view) @ replicate (capacity cfg - length (vs @ replicate n free_view)) free_view"
    by (auto simp: ring_window_def)
  from cas_word [OF v(1), of CURSOR_HEAD_OFFSET "rg_head w" "rg_head w + word_of_nat n"] obtain t seen where
    t: "rio_compare_exchange_u64 io CURSOR_HEAD_OFFSET (rg_head w) (rg_head w + word_of_nat n) s = (Ok (seen, True), t)"
      "ring (capacity cfg) (region_slot_len cfg) (w\<lparr>rg_head := rg_head w + word_of_nat n\<rparr>) views t" by auto
  have i: "inv s" "CURSOR_HEAD_OFFSET + 8 \<le> length (mem s)"
    using v(1) ring_mem_length [OF v(1)] by (auto simp: at_ring_def region_layout_def layout_consts)
  from exact_law [OF i t(1)] have "seen = rg_head w" .
  moreover have "unat (rg_head w + word_of_nat n) = unat (rg_head w) + n"
    using count by (simp add: unat_word_ariths unat_of_nat)
  moreover have "mem t \<in> {mem s, put_at CURSOR_HEAD_OFFSET (to_le64 (rg_head w + word_of_nat n)) (mem s)}"
    using cas_law [OF i, of "rg_head w" "rg_head w + word_of_nat n"] t(1) by (auto split: if_splits)
  then have "slot_raw (region_slot_len cfg) k (mem t) = slot_raw (region_slot_len cfg) k (mem s)" if "k < capacity cfg" for k
    using slot_raw_put_word [OF ring_mem_length [OF v(1)] that, of CURSOR_HEAD_OFFSET] by auto
  then have "\<forall>k < capacity cfg. read_header_full io k t = read_header_full io k s"
    using read_header_full_effect [OF ring_layout [OF v(1)]] read_header_full_effect [OF ring_layout [OF t(2)]] by simp
  ultimately show ?thesis using t v(2) h f
    by (auto simp: compare_exchange_head_def queued_slots_def ring_window_def)
qed

text \<open>The outcome of a reservation, and what it leaves.\<close>

lemma reserve_slots_at:
  assumes q: "queued (pc_config c) w vs (pc_store c)" and bias: "pc_recovery_bias c = 0" and env: "quiet env"
    and need: "needed \<le> capacity (pc_config c)" and drop: "backpressure (pc_config c) \<noteq> DropOldest"
    and count: "unat (rg_head w) + needed < 2 ^ 64"
  defines "room \<equiv> needed \<le> capacity (pc_config c) - length vs"
  shows "\<exists>d w'. reserve_slots io env (Suc fuel) needed c =
      (if room then Ok (Some (rg_head w))
       else if backpressure (pc_config c) = DropNewest then Ok None else ChanErr BufferFull, d) \<and>
    queued (pc_config c) w' (if room then vs @ replicate needed free_view else vs) (pc_store d) \<and>
    unat (rg_head w') = unat (rg_head w) + (if room then needed else 0) \<and>
    pc_config d = pc_config c \<and> pc_recovery_bias d = 0 \<and> pc_closed d = pc_closed c \<and>
    (\<forall>i < capacity (pc_config c). read_header_full io i (pc_store d) = read_header_full io i (pc_store c))"
proof -
  let ?r = "refreshed w (length vs) c" and ?w = "w\<lparr>rg_head := rg_head w + word_of_nat needed\<rparr>"
  note r = refresh_queued [OF q bias]
  have k: "pc_config ?r = pc_config c" "pc_recovery_bias ?r = 0" "pc_closed ?r = pc_closed c"
    "pc_store ?r = pc_store c" "pc_head_cursor ?r = rg_head w" using bias by (simp_all add: refreshed_def)
  note n = window_length [OF q [unfolded queued_slots_def, THEN conjunct1]]
  show ?thesis
  proof (cases room)
    case True
    then have "length vs + needed \<le> capacity (pc_config c)" using n(1) by (simp add: room_def)
    from exchange_head_at [OF q this count] obtain t where
      t: "compare_exchange_head io (rg_head w) (rg_head w + word_of_nat needed) (pc_store c) = (Ok (rg_head w, True), t)"
        "queued (pc_config c) ?w (vs @ replicate needed free_view) t"
        "\<forall>i < capacity (pc_config c). read_header_full io i t = read_header_full io i (pc_store c)" by blast
    have "unat (rg_head w + word_of_nat needed) = unat (rg_head w) + needed"
      using count by (simp add: unat_word_ariths unat_of_nat)
    with True t r k need count show ?thesis
      by (intro exI [of _ "?r\<lparr>pc_store := t\<rparr>"] exI [of _ ?w])
        (simp add: reserve_slots_def pcapacity_def add_u64_def room_def)
  next
    case False
    then have less: "capacity (pc_config c) - length vs < needed" by (simp add: room_def)
    have full: "\<not> needed \<le> guard_room ?r" using less r(3) by simp
    note wait = wait_full [OF q bias env less]
    have "reserve_slots io env (Suc fuel) needed c =
        (if backpressure (pc_config c) = DropNewest then Ok None else ChanErr BufferFull, ?r)"
    proof (cases "backpressure (pc_config c)")
      case Block
      with full r(1) k need wait show ?thesis
        by (simp add: reserve_slots_def pcapacity_def split: option.split)
    qed (use full r(1) k need drop in \<open>simp_all add: reserve_slots_def pcapacity_def\<close>)
    with False q k show ?thesis by (intro exI [of _ ?r] exI [of _ w]) auto
  qed
qed

end

section \<open>Reservations and tickets\<close>

text \<open>Each outstanding reservation is the one unwritten ticket of its producer: it starts as many slots
  before the head as it and the tickets after it take.\<close>

definition reserved_at :: "spsc_config \<Rightarrow> nat \<Rightarrow> ticket list \<Rightarrow> nat \<Rightarrow> reservation \<Rightarrow> bool" where
  "reserved_at cfg hp es i rs \<longleftrightarrow>
     (\<exists>ds e fs. es = ds @ e # fs \<and> waiting_for i e \<and> (\<forall>d \<in> set (ds @ fs). \<not> waiting_for i d) \<and>
        tk_message e = rs_message rs \<and> send_plan_of cfg (length (tk_message e)) = Ok (rs_plan rs) \<and>
        unat (rs_start rs) + used_slots cfg (map tk_message (e # fs)) = hp)"

definition reservations :: "spsc_config \<Rightarrow> nat \<Rightarrow> ticket list \<Rightarrow> (nat \<rightharpoonup> reservation) \<Rightarrow> bool" where
  "reservations cfg hp es pend \<longleftrightarrow>
     (\<forall>i. case pend i of None \<Rightarrow> \<forall>e \<in> set es. \<not> waiting_for i e | Some rs \<Rightarrow> reserved_at cfg hp es i rs)"

lemma reservations_cases:
  assumes "reservations cfg hp es pend"
  shows "pend i = None \<Longrightarrow> e \<in> set es \<Longrightarrow> \<not> waiting_for i e"
    "pend i = Some rs \<Longrightarrow> reserved_at cfg hp es i rs"
  using assms by (auto simp: reservations_def split: option.splits dest: spec [of _ i])

definition mark_written :: "nat \<Rightarrow> ticket list \<Rightarrow> ticket list" where
  "mark_written i es = map (\<lambda>e. if waiting_for i e then e\<lparr>tk_written := True\<rparr> else e) es"

lemma waiting_marked [simp]:
  "waiting_for j (e\<lparr>tk_written := True\<rparr>) = False"
  by (simp add: waiting_for_def)

lemma waiting_other: "waiting_for i e \<Longrightarrow> waiting_for j e \<longleftrightarrow> i = j"
  by (auto simp: waiting_for_def)

lemma mark_none: "\<forall>e \<in> set es. \<not> waiting_for i e \<Longrightarrow> mark_written i es = es"
  by (auto simp: mark_written_def intro: map_idI)

lemma mark_append [simp]: "mark_written i (ds @ es) = mark_written i ds @ mark_written i es"
  by (simp add: mark_written_def)

lemma mark_Cons: "mark_written i (e # es) = (if waiting_for i e then e\<lparr>tk_written := True\<rparr> else e) # mark_written i es"
  by (simp add: mark_written_def)

lemma mark_messages [simp]: "map tk_message (mark_written i es) = map tk_message es"
  by (simp add: mark_written_def o_def if_distrib cong: if_cong)

lemma mark_waiting: "e \<in> set (mark_written i es) \<Longrightarrow> waiting_for j e \<Longrightarrow> e \<in> set es \<and> j \<noteq> i"
  by (auto simp: mark_written_def waiting_other split: if_splits)

lemma reserved_mark:
  assumes "reserved_at cfg hp es j rs" "j \<noteq> i"
  shows "reserved_at cfg hp (mark_written i es) j rs"
proof -
  from assms(1) obtain ds e fs where e: "es = ds @ e # fs" "waiting_for j e" "\<forall>d \<in> set (ds @ fs). \<not> waiting_for j d"
    "tk_message e = rs_message rs" "send_plan_of cfg (length (tk_message e)) = Ok (rs_plan rs)"
    "unat (rs_start rs) + used_slots cfg (map tk_message (e # fs)) = hp" by (auto simp: reserved_at_def)
  have "\<not> waiting_for i e" using waiting_other [OF e(2)] assms(2) by auto
  with e mark_waiting [of _ i _ j] show ?thesis unfolding reserved_at_def
    by (intro exI [of _ "mark_written i ds"] exI [of _ e] exI [of _ "mark_written i fs"]) (auto simp: mark_Cons)
qed

lemma reservations_mark:
  assumes "reservations cfg hp es pend"
  shows "reservations cfg hp (mark_written i es) (pend(i := None))"
  using reservations_cases [OF assms] reserved_mark mark_waiting
  by (auto simp: reservations_def split: option.splits; metis)

lemma reservations_add:
  assumes r: "reservations cfg hp es pend" and free: "pend i = None" and plan: "send_plan_of cfg (length m) = Ok plan"
    and start: "unat start = hp"
  shows "reservations cfg (hp + needed_slots plan) (es @ [\<lparr>tk_owner = i, tk_message = m, tk_written = False\<rparr>])
    (pend(i \<mapsto> \<lparr>rs_message = m, rs_plan = plan, rs_start = start\<rparr>))"
proof -
  let ?e = "\<lparr>tk_owner = i, tk_message = m, tk_written = False\<rparr>" and ?rs = "\<lparr>rs_message = m, rs_plan = plan, rs_start = start\<rparr>"
  have "reserved_at cfg (hp + needed_slots plan) (es @ [?e]) i ?rs"
    unfolding reserved_at_def using reservations_cases(1) [OF r free] plan start
    by (intro exI [of _ es] exI [of _ ?e] exI [of _ "[]"]) (auto simp: waiting_for_def)
  moreover have "reserved_at cfg (hp + needed_slots plan) (es @ [?e]) j rs" if "reserved_at cfg hp es j rs" "j \<noteq> i" for j rs
  proof -
    from that(1) obtain ds e fs where e: "es = ds @ e # fs" "waiting_for j e" "\<forall>d \<in> set (ds @ fs). \<not> waiting_for j d"
      "tk_message e = rs_message rs" "send_plan_of cfg (length (tk_message e)) = Ok (rs_plan rs)"
      "unat (rs_start rs) + used_slots cfg (map tk_message (e # fs)) = hp" by (auto simp: reserved_at_def)
    then show ?thesis unfolding reserved_at_def using that(2) plan
      by (intro exI [of _ ds] exI [of _ e] exI [of _ "fs @ [?e]"]) (auto simp: waiting_for_def)
  qed
  moreover have "waiting_for j ?e \<Longrightarrow> j = i" for j by (simp add: waiting_for_def)
  ultimately show ?thesis using reservations_cases [OF r]
    by (auto simp: reservations_def split: option.splits)
qed

lemma reservations_tl:
  assumes r: "reservations cfg hp (e # es) pend" and e: "tk_written e"
  shows "reservations cfg hp es pend"
proof -
  have n: "\<not> waiting_for j e" for j using e by (simp add: waiting_for_def)
  have "reserved_at cfg hp es j rs" if "reserved_at cfg hp (e # es) j rs" for j rs
  proof -
    from that obtain ds x fs where x: "e # es = ds @ x # fs" "waiting_for j x" "\<forall>d \<in> set (ds @ fs). \<not> waiting_for j d"
      "tk_message x = rs_message rs" "send_plan_of cfg (length (tk_message x)) = Ok (rs_plan rs)"
      "unat (rs_start rs) + used_slots cfg (map tk_message (x # fs)) = hp" by (auto simp: reserved_at_def)
    from x(1,2) n obtain ds' where "ds = e # ds'" "es = ds' @ x # fs" by (cases ds) auto
    with x show ?thesis unfolding reserved_at_def by (intro exI [of _ ds'] exI [of _ x] exI [of _ fs]) auto
  qed
  with reservations_cases [OF r] show ?thesis by (auto simp: reservations_def split: option.splits)
qed

section \<open>The group\<close>

record 's producers =
  pg_store :: 's
  pg_handles :: "'s persistent_channel list"
  pg_pending :: "nat \<rightharpoonup> reservation"
  pg_consumer :: "'s persistent_channel"

definition as_handle :: "nat \<Rightarrow> ('s, 'a) channel_action \<Rightarrow> ('s producers, dsline_error, 'a) action" where
  "as_handle i = zoom (\<lambda>g. (pg_handles g ! i)\<lparr>pc_store := pg_store g\<rparr>)
     (\<lambda>c g. g\<lparr>pg_handles := (pg_handles g)[i := c], pg_store := pc_store c\<rparr>)"

definition as_receiver :: "('s, 'a) channel_action \<Rightarrow> ('s producers, dsline_error, 'a) action" where
  "as_receiver = zoom (\<lambda>g. (pg_consumer g)\<lparr>pc_store := pg_store g\<rparr>)
     (\<lambda>c g. g\<lparr>pg_consumer := c, pg_store := pc_store c\<rparr>)"

text \<open>A producer that has reserved slots writes them before it sends again, or never; others may open
  the region at any time, and every handle may ask for a clean-up. A message is a slice, at most
  \<open>isize_max\<close> bytes long.\<close>

inductive producers_step ::
  "'s region_io_ops \<Rightarrow> 's channel_env \<Rightarrow> nat \<Rightarrow> 's producers \<Rightarrow> producer_event \<Rightarrow> 's producers \<Rightarrow> bool"
  for io env fuel where
  reserves: "i < length (pg_handles g) \<Longrightarrow> pg_pending g i = None \<Longrightarrow> length m \<le> isize_max \<Longrightarrow>
    as_handle i (send_reserve io env fuel m) g = (r, h) \<Longrightarrow>
    producers_step io env fuel g (Reserved i m (map_outcome (\<lambda>rs. rs \<noteq> None) r))
      (h\<lparr>pg_pending := (pg_pending h)(i := (case r of Ok rs \<Rightarrow> rs | _ \<Rightarrow> None))\<rparr>)"
| writes: "i < length (pg_handles g) \<Longrightarrow> pg_pending g i = Some rs \<Longrightarrow> as_handle i (send_fill io env rs) g = (r, h) \<Longrightarrow>
    producers_step io env fuel g (Written i r) (h\<lparr>pg_pending := (pg_pending h)(i := None)\<rparr>)"
| receives: "as_receiver (precv io env) g = (r, h) \<Longrightarrow> producers_step io env fuel g (Received r) h"
| joins: "opened io env self epoch (pc_config (pg_consumer g)) (pg_store g) = r \<Longrightarrow>
    producers_step io env fuel g (Joined (map_outcome (\<lambda>_. ()) r))
      (case r of Ok c \<Rightarrow> g\<lparr>pg_handles := pg_handles g @ [c], pg_store := pc_store c\<rparr> | _ \<Rightarrow> g)"
| consumer_cleans: "as_receiver (reclaim_stale io env) g = (r, h) \<Longrightarrow> producers_step io env fuel g (Cleaned r) h"
| producer_cleans: "i < length (pg_handles g) \<Longrightarrow> as_handle i (reclaim_stale io env) g = (r, h) \<Longrightarrow>
    producers_step io env fuel g (Cleaned r) h"

inductive producers_run ::
  "'s region_io_ops \<Rightarrow> 's channel_env \<Rightarrow> nat \<Rightarrow> 's producers \<Rightarrow> producer_event list \<Rightarrow> 's producers \<Rightarrow> bool"
  for io env fuel where
  stop: "producers_run io env fuel g [] g"
| step: "producers_step io env fuel g ev h \<Longrightarrow> producers_run io env fuel h evs k \<Longrightarrow>
    producers_run io env fuel g (ev # evs) k"

text \<open>The channels this covers.\<close>

definition producers_config :: "spsc_config \<Rightarrow> bool" where
  "producers_config cfg \<longleftrightarrow> multi_producer cfg \<and> backpressure cfg \<noteq> DropOldest \<and>
     slot_size cfg + FRAME_HEADER_LEN < 2 ^ 32"

definition handle_of :: "spsc_config \<Rightarrow> 's persistent_channel \<Rightarrow> bool" where
  "handle_of cfg c \<longleftrightarrow> pc_config c = cfg \<and> pc_recovery_bias c = 0"

definition tickets_stored ::
  "'s region_io_ops \<Rightarrow> ('s \<Rightarrow> bool) \<Rightarrow> ('s \<Rightarrow> bytes) \<Rightarrow> (bytes \<Rightarrow> u32) \<Rightarrow> spsc_config \<Rightarrow> nat \<Rightarrow> ticket list \<Rightarrow> 's \<Rightarrow> bool" where
  "tickets_stored io ok mem crc cfg hp es s \<longleftrightarrow>
     (\<exists>w vs. queued_slots io ok mem cfg w vs s \<and> laid_out crc cfg es vs \<and> unat (rg_head w) = hp)"

text \<open>The invariant: \<open>hp\<close> is the head counter.\<close>

definition group_holds ::
  "'s region_io_ops \<Rightarrow> ('s \<Rightarrow> bool) \<Rightarrow> ('s \<Rightarrow> bytes) \<Rightarrow> (bytes \<Rightarrow> u32) \<Rightarrow> nat \<Rightarrow> 's producers \<Rightarrow> ticket_queue \<Rightarrow> bool" where
  "group_holds io ok mem crc hp g q \<longleftrightarrow>
     producers_config (tq_config q) \<and> tickets_stored io ok mem crc (tq_config q) hp (tq_entries q) (pg_store g) \<and>
     reservations (tq_config q) hp (tq_entries q) (pg_pending g) \<and> dom (pg_pending g) \<subseteq> {..<length (pg_handles g)} \<and>
     (\<forall>c \<in> set (pg_handles g). handle_of (tq_config q) c) \<and> map pc_closed (pg_handles g) = tq_closed q \<and>
     handle_of (tq_config q) (pg_consumer g) \<and> pc_closed (pg_consumer g) = tq_shut q"

context exchange_region_io
begin

abbreviation tstored :: "(bytes \<Rightarrow> u32) \<Rightarrow> spsc_config \<Rightarrow> nat \<Rightarrow> ticket list \<Rightarrow> 's \<Rightarrow> bool" where
  "tstored \<equiv> tickets_stored io inv mem"

subsection \<open>One handle\<close>

lemma send_reserve_at:
  assumes s: "tstored crc cfg hp es (pc_store c)" and c: "handle_of cfg c" and cfg: "producers_config cfg"
    and env: "quiet env" and m: "length m \<le> isize_max" and count: "hp + capacity cfg < 2 ^ 64"
  defines "room plan \<equiv> needed_slots plan \<le> capacity cfg - used_slots cfg (map tk_message es)"
  shows "\<exists>d. send_reserve io env (Suc fuel) m c =
      (if pc_closed c then ChanErr Closed
       else and_then (send_plan_of cfg (length m)) (\<lambda>plan.
         if room plan then Ok (Some \<lparr>rs_message = m, rs_plan = plan, rs_start = word_of_nat hp\<rparr>)
         else if backpressure cfg = DropNewest then Ok None else ChanErr BufferFull), d) \<and>
    handle_of cfg d \<and> pc_closed d = pc_closed c \<and>
    (if \<not> pc_closed c \<and> (\<exists>plan. send_plan_of cfg (length m) = Ok plan \<and> room plan)
     then tstored crc cfg (hp + slots_of cfg m) (es @ [\<lparr>tk_owner = i, tk_message = m, tk_written = False\<rparr>]) (pc_store d)
     else tstored crc cfg hp es (pc_store d))"
proof (cases "pc_closed c")
  case True
  with s c show ?thesis by (auto simp: send_reserve_def)
next
  case open_: False
  from s obtain w vs where w: "queued cfg w vs (pc_store c)" "laid_out crc cfg es vs" "unat (rg_head w) = hp"
    by (auto simp: tickets_stored_def)
  have pc: "pc_config c = cfg" "pc_recovery_bias c = 0" using c by (simp_all add: handle_of_def)
  have win: "window cfg w vs (pc_store c)" using w(1) by (simp add: queued_slots_def)
  note cap = window_length(2) [OF win]
  have len: "length vs = used_slots cfg (map tk_message es)" using laid_out_length [OF w(2) cap] .
  let ?r = "refreshed w (length vs) c"
  have ref: "refresh_cursors io c = (Ok (), ?r)" using refresh_queued(1) [of c w vs] w(1) pc by simp
  have k: "pc_config ?r = cfg" "pc_recovery_bias ?r = 0" "pc_store ?r = pc_store c" "pc_closed ?r = pc_closed c"
    using pc by (simp_all add: refreshed_def)
  show ?thesis
  proof (cases "send_plan_of cfg (length m)")
    case (Ok plan)
    have need: "needed_slots plan \<le> capacity cfg" using needed_slots_bounds(2) [OF Ok cap] .
    have start: "rg_head w = word_of_nat hp" using w(3) by auto
    have drop: "backpressure cfg \<noteq> DropOldest" using cfg by (simp add: producers_config_def)
    have q: "queued (pc_config ?r) w vs (pc_store ?r)" using w(1) k by simp
    have n: "unat (rg_head w) + needed_slots plan < 2 ^ 64" using count need w(3) by linarith
    from reserve_slots_at [OF q k(2) env _ _ n, of fuel, unfolded k(1), OF need drop] obtain d w' where
      d: "reserve_slots io env (Suc fuel) (needed_slots plan) ?r =
          (if needed_slots plan \<le> capacity cfg - length vs then Ok (Some (rg_head w))
           else if backpressure cfg = DropNewest then Ok None else ChanErr BufferFull, d)"
        "queued cfg w' (if needed_slots plan \<le> capacity cfg - length vs then vs @ replicate (needed_slots plan) free_view else vs) (pc_store d)"
        "unat (rg_head w') = unat (rg_head w) + (if needed_slots plan \<le> capacity cfg - length vs then needed_slots plan else 0)"
        "pc_config d = cfg" "pc_recovery_bias d = 0" "pc_closed d = pc_closed ?r" by blast
    have "laid_out crc cfg (es @ [\<lparr>tk_owner = i, tk_message = m, tk_written = False\<rparr>]) (vs @ replicate (needed_slots plan) free_view)"
      using w(2) Ok m by (auto simp: laid_out_append)
    then have "if room plan then tstored crc cfg (hp + needed_slots plan)
          (es @ [\<lparr>tk_owner = i, tk_message = m, tk_written = False\<rparr>]) (pc_store d)
        else tstored crc cfg hp es (pc_store d)"
      unfolding tickets_stored_def using d(2,3) w(2,3) len by (fastforce simp: room_def)
    with d(1,4-6) ref open_ k Ok len start show ?thesis
      by (intro exI [of _ d]) (auto simp: send_reserve_def room_def handle_of_def)
  qed (use ref open_ k s c in \<open>auto simp: send_reserve_def handle_of_def intro!: exI [of _ ?r]\<close>)
qed

lemma send_fill_ticket:
  assumes s: "tstored (env_crc env) cfg hp es (pc_store c)" and r: "reserved_at cfg hp es i rs"
    and c: "handle_of cfg c" and cfg: "producers_config cfg"
  shows "\<exists>d. send_fill io env rs c = (Ok (), d) \<and> tstored (env_crc env) cfg hp (mark_written i es) (pc_store d) \<and>
    handle_of cfg d \<and> pc_closed d = pc_closed c"
proof -
  from s obtain w vs where w: "queued cfg w vs (pc_store c)" "laid_out (env_crc env) cfg es vs" "unat (rg_head w) = hp"
    by (auto simp: tickets_stored_def)
  from r obtain ds e fs where e: "es = ds @ e # fs" "waiting_for i e" "\<forall>d \<in> set (ds @ fs). \<not> waiting_for i d"
    "tk_message e = rs_message rs" "send_plan_of cfg (length (tk_message e)) = Ok (rs_plan rs)"
    "unat (rs_start rs) + used_slots cfg (map tk_message (e # fs)) = hp" by (auto simp: reserved_at_def)
  have unwritten: "\<not> tk_written e" using e(2) by (simp add: waiting_for_def)
  from laid_out_split [OF w(2) [unfolded e(1)] unwritten e(5)] obtain us ws where
    u: "vs = us @ replicate (needed_slots (rs_plan rs)) free_view @ ws" "laid_out (env_crc env) cfg ds us"
      "laid_out (env_crc env) cfg fs ws" "length (tk_message e) \<le> isize_max" by blast
  have win: "window cfg w vs (pc_store c)" using w(1) by (simp add: queued_slots_def)
  note cap = window_length(2) [OF win]
  have "unat (rg_head w) = unat (rg_tail w) + length us + needed_slots (rs_plan rs) + length ws"
    using w(1) u(1) by (simp add: queued_slots_def)
  then have start: "unat (rs_start rs) = unat (rg_tail w) + length us"
    using e(5,6) w(3) laid_out_length [OF u(3) cap] by simp
  have pc: "pc_config c = cfg" using c by (simp add: handle_of_def)
  have small: "slot_size cfg + FRAME_HEADER_LEN < 2 ^ 32" using cfg by (simp add: producers_config_def)
  have "\<lparr>rs_message = tk_message e, rs_plan = rs_plan rs, rs_start = rs_start rs\<rparr> = rs" using e(4) by simp
  with send_fill_at [OF w(1) [unfolded u(1)] pc start e(5) u(4) small, of env] obtain d sq frames where
    d: "send_fill io env rs c = (Ok (), d)" "encode_message_frames (env_crc env) cfg (rs_plan rs) sq (tk_message e) = Ok frames"
      "queued cfg w (us @ map (committed_view sq) frames @ ws) (pc_store d)"
      "pc_config d = cfg" "pc_recovery_bias d = pc_recovery_bias c" "pc_closed d = pc_closed c" by auto
  have "mark_written i es = ds @ e\<lparr>tk_written := True\<rparr> # fs"
    using e(1-3) by (simp add: mark_Cons mark_none)
  moreover have "laid_out (env_crc env) cfg (ds @ e\<lparr>tk_written := True\<rparr> # fs) (us @ map (committed_view sq) frames @ ws)"
    unfolding laid_out_append using u d(2) e(5)
    by (intro exI [of _ us] exI [of _ "map (committed_view sq) frames @ ws"]) auto
  ultimately show ?thesis using d w(3) c by (auto simp: tickets_stored_def handle_of_def)
qed

lemma receive_ticket:
  assumes s: "tstored (env_crc env) cfg hp es (pc_store c)" and c: "handle_of cfg c" and cfg: "producers_config cfg"
    and env: "quiet env"
  shows "\<exists>d. precv io env c =
      (case es of e # _ \<Rightarrow> if tk_written e then Ok (tk_message e) else ChanErr (if pc_closed c then Closed else BufferEmpty)
       | [] \<Rightarrow> ChanErr (if pc_closed c then Closed else BufferEmpty), d) \<and>
    tstored (env_crc env) cfg hp (case es of e # fs \<Rightarrow> if tk_written e then fs else es | [] \<Rightarrow> []) (pc_store d) \<and>
    handle_of cfg d \<and> pc_closed d = pc_closed c"
proof -
  from s obtain w vs where w: "queued cfg w vs (pc_store c)" "laid_out (env_crc env) cfg es vs" "unat (rg_head w) = hp"
    by (auto simp: tickets_stored_def)
  have pc: "pc_config c = cfg" "pc_recovery_bias c = 0" using c by (simp_all add: handle_of_def)
  have win: "window cfg w vs (pc_store c)" using w(1) by (simp add: queued_slots_def)
  note cap = window_length(2) [OF win]
  have q: "queued (pc_config c) w vs (pc_store c)" using w(1) pc(1) by simp
  have head: "unat (rg_head (loaded_words d)) = hp" if "pc_head_cursor d = rg_head w" for d :: "'s persistent_channel"
    using that w(3) by (simp add: loaded_words_def)
  show ?thesis
  proof (cases "case es of e # _ \<Rightarrow> tk_written e | [] \<Rightarrow> False")
    case True
    then obtain e fs where es: "es = e # fs" "tk_written e" by (cases es) auto
    with w(2) obtain plan sq frames vs' where l: "vs = map (committed_view sq) frames @ vs'" "length (tk_message e) \<le> isize_max"
      "send_plan_of cfg (length (tk_message e)) = Ok plan" "encode_message_frames (env_crc env) cfg plan sq (tk_message e) = Ok frames"
      "laid_out (env_crc env) cfg fs vs'" by auto
    note f = encoded_message [OF l(3) cap l(2,4)]
    have mp: "multi_producer (pc_config c) \<or> expects sq c" using cfg pc(1) by (simp add: producers_config_def)
    from recv_message_at [OF f(2) l(2) q [unfolded l(1)] pc(2) mp] pc(1) obtain d where
      d: "precv_with_seq io env c = (Ok \<lparr>rm_seq = sq, rm_payload = tk_message e\<rparr>, d)" "at_tail cfg vs' d"
        "pc_closed d = pc_closed c" "pc_head_cursor d = rg_head w" by auto
    with es l(5) head [OF d(4)] show ?thesis
      by (intro exI [of _ d]) (auto simp: precv_def tickets_stored_def handle_of_def loaded_def)
  next
    case False
    have first: "vs = [] \<or> hd vs = free_view"
    proof (cases es)
      case (Cons e fs)
      with False w(2) obtain plan vs' where "vs = replicate (needed_slots plan) free_view @ vs'"
        "send_plan_of cfg (length (tk_message e)) = Ok plan" by auto
      with needed_slots_bounds(1) [OF this(2) cap] show ?thesis by (cases "needed_slots plan") auto
    qed (use w(2) in simp)
    from ensure_unwritten [OF q pc(2) env first] pc(1) obtain d where
      d: "ensure_tail_readable io env c = (ChanErr (if pc_closed c then Closed else BufferEmpty), d)" "at_tail cfg vs d"
        "pc_closed d = pc_closed c" "pc_head_cursor d = rg_head w" by auto
    with False w(2) head [OF d(4)] show ?thesis
      by (intro exI [of _ d]) (cases es; auto simp: precv_def precv_with_seq_def tickets_stored_def handle_of_def loaded_def)
  qed
qed

lemma laid_out_states: "laid_out crc cfg es vs \<Longrightarrow> \<forall>v \<in> set vs. state (fst v) \<in> {Free, Committed}"
proof (induction crc cfg es vs rule: laid_out.induct)
  case (2 crc cfg e es vs)
  then obtain us vs' where v: "vs = us @ vs'" "laid_out crc cfg es vs'"
    "(\<exists>sq fs. us = map (committed_view sq) fs) \<or> (\<exists>n. us = replicate n free_view)" by (auto split: if_splits)
  from v(3) have "\<forall>v \<in> set us. state (fst v) \<in> {Free, Committed}" by (auto simp: committed_view_def)
  with 2(1) [OF v(2)] v(1) show ?case by auto
qed simp

lemma join_tickets:
  assumes "tstored crc cfg hp es s"
  shows "\<exists>c. opened io env self epoch cfg s = Ok c \<and> pc_store c = s \<and> handle_of cfg c \<and> \<not> pc_closed c"
proof -
  from assms obtain w vs where "queued cfg w vs s" "laid_out crc cfg es vs" by (auto simp: tickets_stored_def)
  from opened_reserved [OF this(1) laid_out_states [OF this(2)]] show ?thesis by (simp add: handle_of_def)
qed

lemma clean_tickets:
  assumes s: "tstored crc cfg hp es (pc_store c)" and c: "handle_of cfg c" and cfg: "producers_config cfg"
  shows "\<exists>d. reclaim_stale io env c = (Ok 0, d) \<and> pc_store d = pc_store c \<and> handle_of cfg d \<and> pc_closed d = pc_closed c"
proof -
  have pc: "pc_config c = cfg" "pc_recovery_bias c = 0" using c by (simp_all add: handle_of_def)
  from s obtain w vs where w: "queued cfg w vs (pc_store c)" "laid_out crc cfg es vs" by (auto simp: tickets_stored_def)
  have "multi_producer (pc_config c)" using cfg pc by (simp add: producers_config_def)
  from reclaim_stale_reserved [OF w(1) [folded pc(1)] laid_out_states [OF w(2)] pc(2) this, of env] pc
  show ?thesis by (simp add: handle_of_def refreshed_def)
qed

subsection \<open>The simulation\<close>

lemma as_handle_run:
  assumes "as_handle i act g = (r, h)"
  obtains c where "act ((pg_handles g ! i)\<lparr>pc_store := pg_store g\<rparr>) = (r, c)"
    "h = g\<lparr>pg_handles := (pg_handles g)[i := c], pg_store := pc_store c\<rparr>"
  using assms by (auto simp: as_handle_def split: prod.splits)

lemma handles_updated:
  assumes "\<forall>c \<in> set hs. handle_of cfg c" "handle_of cfg d" "i < length hs" "pc_closed d = pc_closed (hs ! i)"
  shows "\<forall>c \<in> set (hs[i := d]). handle_of cfg c" "map pc_closed (hs[i := d]) = map pc_closed hs"
proof -
  show "\<forall>c \<in> set (hs[i := d]). handle_of cfg c" using assms(1,2) set_update_subset_insert by fastforce
  have "map pc_closed hs ! i = pc_closed d" using assms(3,4) by simp
  then have "(map pc_closed hs)[i := pc_closed d] = map pc_closed hs"
    using list_update_id [of "map pc_closed hs" i] by simp
  then show "map pc_closed (hs[i := d]) = map pc_closed hs" by (simp add: map_update)
qed

lemma reserve_simulated:
  assumes g: "group_holds io inv mem (env_crc env) hp g q" and env: "quiet env" and count: "hp + capacity (tq_config q) < 2 ^ 64"
    and i: "i < length (pg_handles g)" and free: "pg_pending g i = None" and m: "length m \<le> isize_max"
    and run: "as_handle i (send_reserve io env (Suc fuel) m) g = (r, h)"
  shows "\<exists>q' hp'. ticket_step q (Reserved i m (map_outcome (\<lambda>rs. rs \<noteq> None) r)) q' \<and> hp' \<le> hp + capacity (tq_config q) \<and>
    group_holds io inv mem (env_crc env) hp' (h\<lparr>pg_pending := (pg_pending h)(i := (case r of Ok rs \<Rightarrow> rs | _ \<Rightarrow> None))\<rparr>) q'"
proof -
  let ?cfg = "tq_config q" and ?es = "tq_entries q" and ?c = "(pg_handles g ! i)\<lparr>pc_store := pg_store g\<rparr>"
  let ?e = "\<lparr>tk_owner = i, tk_message = m, tk_written = False\<rparr>"
  have inv: "producers_config ?cfg" "tstored (env_crc env) ?cfg hp ?es (pg_store g)" "reservations ?cfg hp ?es (pg_pending g)"
    "\<forall>c \<in> set (pg_handles g). handle_of ?cfg c" "map pc_closed (pg_handles g) = tq_closed q"
    "handle_of ?cfg (pg_consumer g)" "pc_closed (pg_consumer g) = tq_shut q" "dom (pg_pending g) \<subseteq> {..<length (pg_handles g)}"
    using g by (simp_all add: group_holds_def)
  from as_handle_run [OF run] obtain c where c: "send_reserve io env (Suc fuel) m ?c = (r, c)"
    "h = g\<lparr>pg_handles := (pg_handles g)[i := c], pg_store := pc_store c\<rparr>" by blast
  have hc: "handle_of ?cfg ?c" using inv(4) i by (simp add: handle_of_def)
  have s: "tstored (env_crc env) ?cfg hp ?es (pc_store ?c)" using inv(2) by simp
  have shut: "tq_closed q ! i = pc_closed ?c" "i < length (tq_closed q)" using inv(5) i by (auto simp flip: inv(5))
  let ?room = "\<lambda>plan. needed_slots plan \<le> capacity ?cfg - used_slots ?cfg (map tk_message ?es)"
  from send_reserve_at [OF s hc inv(1) env m count, of fuel i] c(1) have
    out: "r = (if pc_closed ?c then ChanErr Closed
       else and_then (send_plan_of ?cfg (length m)) (\<lambda>plan.
         if ?room plan then Ok (Some \<lparr>rs_message = m, rs_plan = plan, rs_start = word_of_nat hp\<rparr>)
         else if backpressure ?cfg = DropNewest then Ok None else ChanErr BufferFull))"
    and d: "handle_of ?cfg c" "pc_closed c = pc_closed ?c" and
    st: "if \<not> pc_closed ?c \<and> (\<exists>plan. send_plan_of ?cfg (length m) = Ok plan \<and> ?room plan)
     then tstored (env_crc env) ?cfg (hp + slots_of ?cfg m) (?es @ [?e]) (pc_store c)
     else tstored (env_crc env) ?cfg hp ?es (pc_store c)" by (auto split del: if_split)
  have closed: "pc_closed c = pc_closed (pg_handles g ! i)" using d(2) by simp
  note hs = handles_updated [OF inv(4) d(1) i closed]
  have fresh: "\<forall>e \<in> set ?es. \<not> waiting_for i e" using reservations_cases(1) [OF inv(3) free] by blast
  have step: "ticket_step q (Reserved i m (fst (ticket_reserve i m q))) (snd (ticket_reserve i m q))"
    using ticket_step.reserves [OF shut(2) fresh] by (metis prod.collapse)
  have same: "(pg_pending g)(i := None) = pg_pending g" using free by auto
  show ?thesis
  proof (cases "\<not> pc_closed ?c \<and> (\<exists>plan. send_plan_of ?cfg (length m) = Ok plan \<and> ?room plan)")
    case True
    then obtain plan where p: "\<not> pc_closed ?c" "send_plan_of ?cfg (length m) = Ok plan" "?room plan" by blast
    let ?rs = "\<lparr>rs_message = m, rs_plan = plan, rs_start = word_of_nat hp\<rparr>"
    have r: "r = Ok (Some ?rs)" using out p by simp
    have "unat (word_of_nat hp :: u64) = hp" using count by (simp add: unat_of_nat)
    from reservations_add [OF inv(3) free p(2) this]
    have "reservations ?cfg (hp + needed_slots plan) (?es @ [?e]) ((pg_pending g)(i \<mapsto> ?rs))" .
    moreover have "tstored (env_crc env) ?cfg (hp + needed_slots plan) (?es @ [?e]) (pc_store c)"
      using st True p(2) by simp
    moreover have "ticket_reserve i m q = (Ok True, q\<lparr>tq_entries := ?es @ [?e]\<rparr>)"
      using p shut(1) by (simp add: ticket_reserve_def queued_messages_def)
    moreover have "hp + needed_slots plan \<le> hp + capacity ?cfg" using p(3) by linarith
    ultimately show ?thesis using step r c(2) hs d inv
      by (intro exI [of _ "q\<lparr>tq_entries := ?es @ [?e]\<rparr>"] exI [of _ "hp + needed_slots plan"]) (simp add: group_holds_def i)
  next
    case False
    have tq: "ticket_reserve i m q = (map_outcome (\<lambda>rs. rs \<noteq> None) r, q)"
      using False out shut(1)
      by (cases "send_plan_of ?cfg (length m)") (auto simp: ticket_reserve_def queued_messages_def)
    have none: "(case r of Ok rs \<Rightarrow> rs | _ \<Rightarrow> None) = None"
      using False out by (cases "send_plan_of ?cfg (length m)") auto
    have "group_holds io inv mem (env_crc env) hp (h\<lparr>pg_pending := (pg_pending h)(i := None)\<rparr>) q"
      using st False c(2) hs d inv same by (simp add: group_holds_def)
    with step tq none show ?thesis by (intro exI [of _ q] exI [of _ hp]) simp
  qed
qed

lemma write_simulated:
  assumes g: "group_holds io inv mem (env_crc env) hp g q" and i: "i < length (pg_handles g)"
    and pend: "pg_pending g i = Some rs" and run: "as_handle i (send_fill io env rs) g = (r, h)"
  shows "\<exists>q'. ticket_step q (Written i r) q' \<and> tq_config q' = tq_config q \<and>
    group_holds io inv mem (env_crc env) hp (h\<lparr>pg_pending := (pg_pending h)(i := None)\<rparr>) q'"
proof -
  let ?cfg = "tq_config q" and ?es = "tq_entries q" and ?c = "(pg_handles g ! i)\<lparr>pc_store := pg_store g\<rparr>"
  have inv: "producers_config ?cfg" "tstored (env_crc env) ?cfg hp ?es (pg_store g)" "reservations ?cfg hp ?es (pg_pending g)"
    "\<forall>c \<in> set (pg_handles g). handle_of ?cfg c" "map pc_closed (pg_handles g) = tq_closed q"
    "handle_of ?cfg (pg_consumer g)" "pc_closed (pg_consumer g) = tq_shut q" "dom (pg_pending g) \<subseteq> {..<length (pg_handles g)}"
    using g by (simp_all add: group_holds_def)
  from as_handle_run [OF run] obtain c where c: "send_fill io env rs ?c = (r, c)"
    "h = g\<lparr>pg_handles := (pg_handles g)[i := c], pg_store := pc_store c\<rparr>" by blast
  have hc: "handle_of ?cfg ?c" using inv(4) i by (simp add: handle_of_def)
  have s: "tstored (env_crc env) ?cfg hp ?es (pc_store ?c)" using inv(2) by simp
  note res = reservations_cases(2) [OF inv(3) pend]
  from send_fill_ticket [OF s res hc inv(1)] c(1) have
    d: "r = Ok ()" "tstored (env_crc env) ?cfg hp (mark_written i ?es) (pc_store c)" "handle_of ?cfg c"
      "pc_closed c = pc_closed (pg_handles g ! i)" by auto
  note hs = handles_updated [OF inv(4) d(3) i d(4)]
  let ?q = "q\<lparr>tq_entries := mark_written i ?es\<rparr>"
  have "\<exists>e \<in> set ?es. waiting_for i e" using res by (auto simp: reserved_at_def)
  moreover have "ticket_write i q = (r, ?q)" using d(1) by (simp add: ticket_write_def mark_written_def)
  ultimately have "ticket_step q (Written i r) ?q" by (rule ticket_step.writes)
  moreover have "group_holds io inv mem (env_crc env) hp (h\<lparr>pg_pending := (pg_pending h)(i := None)\<rparr>) ?q"
    using c(2) d hs inv reservations_mark [OF inv(3), of i] by (auto simp: group_holds_def)
  ultimately show ?thesis by (intro exI [of _ ?q]) simp
qed

lemma receive_simulated:
  assumes g: "group_holds io inv mem (env_crc env) hp g q" and env: "quiet env"
    and run: "as_receiver (precv io env) g = (r, h)"
  shows "\<exists>q'. ticket_step q (Received r) q' \<and> tq_config q' = tq_config q \<and> group_holds io inv mem (env_crc env) hp h q'"
proof -
  let ?cfg = "tq_config q" and ?es = "tq_entries q" and ?c = "(pg_consumer g)\<lparr>pc_store := pg_store g\<rparr>"
  have inv: "producers_config ?cfg" "tstored (env_crc env) ?cfg hp ?es (pg_store g)" "reservations ?cfg hp ?es (pg_pending g)"
    "\<forall>c \<in> set (pg_handles g). handle_of ?cfg c" "map pc_closed (pg_handles g) = tq_closed q"
    "handle_of ?cfg (pg_consumer g)" "pc_closed (pg_consumer g) = tq_shut q" "dom (pg_pending g) \<subseteq> {..<length (pg_handles g)}"
    using g by (simp_all add: group_holds_def)
  from run obtain c where c: "precv io env ?c = (r, c)" "h = g\<lparr>pg_consumer := c, pg_store := pc_store c\<rparr>"
    by (auto simp: as_receiver_def split: prod.splits)
  have hc: "handle_of ?cfg ?c" using inv(6) by (simp add: handle_of_def)
  have s: "tstored (env_crc env) ?cfg hp ?es (pc_store ?c)" using inv(2) by simp
  let ?next = "case ?es of e # fs \<Rightarrow> if tk_written e then fs else ?es | [] \<Rightarrow> []"
  from receive_ticket [OF s hc inv(1) env] c(1) inv(7) have
    out: "r = (case ?es of e # _ \<Rightarrow> if tk_written e then Ok (tk_message e) else ChanErr (if tq_shut q then Closed else BufferEmpty)
       | [] \<Rightarrow> ChanErr (if tq_shut q then Closed else BufferEmpty))"
    and d: "tstored (env_crc env) ?cfg hp ?next (pc_store c)" "handle_of ?cfg c" "pc_closed c = tq_shut q" by auto
  let ?q = "q\<lparr>tq_entries := ?next\<rparr>"
  have "ticket_receive q = (r, ?q)" using out by (simp add: ticket_receive_def split: list.splits)
  then have "ticket_step q (Received r) ?q" by (rule ticket_step.receives)
  moreover have "reservations ?cfg hp ?next (pg_pending g)"
    using inv(3) reservations_tl by (auto split: list.splits)
  then have "group_holds io inv mem (env_crc env) hp h ?q" using c(2) d inv by (simp add: group_holds_def)
  ultimately show ?thesis by (intro exI [of _ ?q]) simp
qed

lemma join_simulated:
  assumes g: "group_holds io inv mem (env_crc env) hp g q"
    and r: "opened io env self epoch (pc_config (pg_consumer g)) (pg_store g) = r"
  shows "\<exists>q'. ticket_step q (Joined (map_outcome (\<lambda>_. ()) r)) q' \<and>
    group_holds io inv mem (env_crc env) hp
      (case r of Ok c \<Rightarrow> g\<lparr>pg_handles := pg_handles g @ [c], pg_store := pc_store c\<rparr> | _ \<Rightarrow> g) q'"
proof -
  have inv: "tstored (env_crc env) (tq_config q) hp (tq_entries q) (pg_store g)" "pc_config (pg_consumer g) = tq_config q"
    using g by (simp_all add: group_holds_def handle_of_def)
  from join_tickets [OF inv(1), of env self epoch] r inv(2) obtain c where
    c: "r = Ok c" "pc_store c = pg_store g" "handle_of (tq_config q) c" "\<not> pc_closed c" by auto
  from g c have "group_holds io inv mem (env_crc env) hp (g\<lparr>pg_handles := pg_handles g @ [c], pg_store := pc_store c\<rparr>)
      (q\<lparr>tq_closed := tq_closed q @ [False]\<rparr>)" by (auto simp: group_holds_def)
  with c(1) ticket_step.joins [of q] show ?thesis
    by (intro exI [of _ "q\<lparr>tq_closed := tq_closed q @ [False]\<rparr>"]) simp
qed

lemma consumer_clean_simulated:
  assumes g: "group_holds io inv mem (env_crc env) hp g q" and run: "as_receiver (reclaim_stale io env) g = (r, h)"
  shows "r = Ok 0 \<and> group_holds io inv mem (env_crc env) hp h q"
proof -
  let ?c = "(pg_consumer g)\<lparr>pc_store := pg_store g\<rparr>"
  have inv: "tstored (env_crc env) (tq_config q) hp (tq_entries q) (pc_store ?c)" "handle_of (tq_config q) ?c"
    "producers_config (tq_config q)" using g by (simp_all add: group_holds_def handle_of_def)
  from clean_tickets [OF inv, of env] obtain d where
    d: "reclaim_stale io env ?c = (Ok 0, d)" "pc_store d = pg_store g" "handle_of (tq_config q) d"
      "pc_closed d = pc_closed (pg_consumer g)" by auto
  with run have "r = Ok 0" "h = g\<lparr>pg_consumer := d, pg_store := pc_store d\<rparr>" by (auto simp: as_receiver_def)
  with g d(2-4) show ?thesis by (simp add: group_holds_def)
qed

lemma producer_clean_simulated:
  assumes g: "group_holds io inv mem (env_crc env) hp g q" and i: "i < length (pg_handles g)"
    and run: "as_handle i (reclaim_stale io env) g = (r, h)"
  shows "r = Ok 0 \<and> group_holds io inv mem (env_crc env) hp h q"
proof -
  let ?c = "(pg_handles g ! i)\<lparr>pc_store := pg_store g\<rparr>"
  have all: "\<forall>c \<in> set (pg_handles g). handle_of (tq_config q) c" using g by (simp add: group_holds_def)
  then have inv: "tstored (env_crc env) (tq_config q) hp (tq_entries q) (pc_store ?c)" "handle_of (tq_config q) ?c"
    "producers_config (tq_config q)" using g i by (simp_all add: group_holds_def handle_of_def)
  from clean_tickets [OF inv, of env] obtain d where
    d: "reclaim_stale io env ?c = (Ok 0, d)" "pc_store d = pg_store g" "handle_of (tq_config q) d"
      "pc_closed d = pc_closed (pg_handles g ! i)" by auto
  from as_handle_run [OF run] d(1) have "r = Ok 0" "h = g\<lparr>pg_handles := (pg_handles g)[i := d], pg_store := pc_store d\<rparr>" by auto
  with g d(2) handles_updated [OF all d(3) i d(4)] show ?thesis by (simp add: group_holds_def)
qed

lemma producers_step_simulated:
  assumes "producers_step io env (Suc fuel) g ev h" and "group_holds io inv mem (env_crc env) hp g q"
    and "quiet env" and "hp + capacity (tq_config q) < 2 ^ 64"
  shows "\<exists>q' hp'. ticket_step q ev q' \<and> hp' \<le> hp + capacity (tq_config q) \<and> group_holds io inv mem (env_crc env) hp' h q'"
  using assms
proof (cases rule: producers_step.cases)
  case (reserves i m r k)
  with reserve_simulated [OF assms(2,3,4) reserves(3-6)] show ?thesis by blast
next
  case (writes i rs r k)
  with write_simulated [OF assms(2) writes(3-5)] show ?thesis by (blast intro: le_add1)
next
  case (receives r)
  with receive_simulated [OF assms(2,3)] show ?thesis by (blast intro: le_add1)
next
  case (joins self epoch r)
  with join_simulated [OF assms(2) joins(3)] show ?thesis by (blast intro: le_add1)
next
  case (consumer_cleans r)
  with consumer_clean_simulated [OF assms(2)] ticket_step.cleans show ?thesis by (blast intro: le_add1)
next
  case (producer_cleans i r)
  with producer_clean_simulated [OF assms(2)] ticket_step.cleans show ?thesis by (blast intro: le_add1)
qed

text \<open>Every run of the group is a run of the tickets, with the same answers.\<close>

lemma producers_run_simulated:
  assumes "producers_run io env (Suc fuel) g evs h" and "group_holds io inv mem (env_crc env) hp g q"
    and "quiet env" and "hp + length evs * capacity (tq_config q) < 2 ^ 64"
  shows "\<exists>q' hp'. ticket_run q evs q' \<and> group_holds io inv mem (env_crc env) hp' h q'"
  using assms
proof (induction arbitrary: q hp rule: producers_run.induct)
  case (stop g)
  then show ?case using ticket_run.stop by blast
next
  case (step g ev h evs k)
  have "hp + capacity (tq_config q) < 2 ^ 64" using step.prems(3) by simp
  from producers_step_simulated [OF step.hyps(1) step.prems(1,2) this] obtain q' hp' where
    q: "ticket_step q ev q'" "hp' \<le> hp + capacity (tq_config q)" "group_holds io inv mem (env_crc env) hp' h q'" by blast
  have "tq_config q' = tq_config q" using ticket_step_config [OF q(1)] by simp
  with step.prems(3) q(2) have "hp' + length evs * capacity (tq_config q') < 2 ^ 64" by simp
  from step.IH [OF q(3) step.prems(2) this] q(1) show ?case using ticket_run.step by blast
qed

subsection \<open>The steps are there\<close>

text \<open>Whatever the tickets can do the group can do, with the same answer: it is never stuck.\<close>

lemma ticket_step_performed:
  assumes t: "ticket_step q ev q'" and g: "group_holds io inv mem (env_crc env) hp g q" and env: "quiet env"
    and count: "hp + capacity (tq_config q) < 2 ^ 64" and small: "\<And>i m r. ev = Reserved i m r \<Longrightarrow> length m \<le> isize_max"
  shows "\<exists>h hp'. producers_step io env (Suc fuel) g ev h \<and> hp' \<le> hp + capacity (tq_config q) \<and>
    group_holds io inv mem (env_crc env) hp' h q'"
proof -
  have res: "reservations (tq_config q) hp (tq_entries q) (pg_pending g)" and closed: "map pc_closed (pg_handles g) = tq_closed q"
    and dom: "dom (pg_pending g) \<subseteq> {..<length (pg_handles g)}" using g by (simp_all add: group_holds_def)
  have n: "length (tq_closed q) = length (pg_handles g)" by (simp flip: closed)
  show ?thesis
  proof (cases ev)
    case (Reserved i m r)
    with t n have i: "i < length (pg_handles g)" and none: "\<forall>e \<in> set (tq_entries q). \<not> waiting_for i e"
      by (simp_all add: ticket_step_simps)
    have free: "pg_pending g i = None"
      using reservations_cases(2) [OF res, of i] none by (cases "pg_pending g i") (auto simp: reserved_at_def)
    obtain r0 h0 where "as_handle i (send_reserve io env (Suc fuel) m) g = (r0, h0)" by fastforce
    note s = producers_step.reserves [OF i free small [OF Reserved] this]
    from producers_step_simulated [OF s g env count] t Reserved s show ?thesis
      using ticket_step_deterministic(1) by metis
  next
    case (Written i r)
    with t obtain e where e: "e \<in> set (tq_entries q)" "waiting_for i e" by (auto simp: ticket_step_simps)
    then obtain rs where rs: "pg_pending g i = Some rs"
      using reservations_cases(1) [OF res, of i e] by (cases "pg_pending g i") auto
    with dom have i: "i < length (pg_handles g)" by auto
    obtain r0 h0 where "as_handle i (send_fill io env rs) g = (r0, h0)" by fastforce
    note s = producers_step.writes [OF i rs this]
    from producers_step_simulated [OF s g env count] t Written s show ?thesis
      using ticket_step_deterministic(2) by metis
  next
    case (Received r)
    obtain r0 h0 where "as_receiver (precv io env) g = (r0, h0)" by fastforce
    note s = producers_step.receives [OF this]
    from producers_step_simulated [OF s g env count] t Received s show ?thesis
      using ticket_step_deterministic(3) by metis
  next
    case (Joined a)
    note s = producers_step.joins [of io env undefined undefined g, OF refl]
    from producers_step_simulated [OF s g env count] obtain u hp' where
      u: "ticket_step q (Joined (map_outcome (\<lambda>_. ()) (opened io env undefined undefined (pc_config (pg_consumer g)) (pg_store g)))) u"
        "hp' \<le> hp + capacity (tq_config q)" "group_holds io inv mem (env_crc env) hp'
          (case opened io env undefined undefined (pc_config (pg_consumer g)) (pg_store g) of
             Ok c \<Rightarrow> g\<lparr>pg_handles := pg_handles g @ [c], pg_store := pc_store c\<rparr> | _ \<Rightarrow> g) u" by blast
    from ticket_step_deterministic(4) [OF u(1) t [unfolded Joined]] s u(2,3) Joined show ?thesis by blast
  next
    case (Cleaned n)
    obtain r0 h0 where "as_receiver (reclaim_stale io env) g = (r0, h0)" by fastforce
    note s = producers_step.consumer_cleans [OF this]
    from producers_step_simulated [OF s g env count] t Cleaned s show ?thesis
      using ticket_step_deterministic(5) by metis
  qed
qed

lemma ticket_run_performed:
  assumes "ticket_run q evs q'" and "group_holds io inv mem (env_crc env) hp g q"
    and "quiet env" and "hp + length evs * capacity (tq_config q) < 2 ^ 64"
    and "\<forall>i m r. Reserved i m r \<in> set evs \<longrightarrow> length m \<le> isize_max"
  shows "\<exists>h hp'. producers_run io env (Suc fuel) g evs h \<and> group_holds io inv mem (env_crc env) hp' h q'"
  using assms
proof (induction arbitrary: g hp rule: ticket_run.induct)
  case (stop q)
  then show ?case using producers_run.stop by blast
next
  case (step q ev q' evs q'')
  have "hp + capacity (tq_config q) < 2 ^ 64" using step.prems(3) by simp
  moreover have "\<And>i m r. ev = Reserved i m r \<Longrightarrow> length m \<le> isize_max" using step.prems(4) by auto
  ultimately obtain h hp' where
    h: "producers_step io env (Suc fuel) g ev h" "hp' \<le> hp + capacity (tq_config q)" "group_holds io inv mem (env_crc env) hp' h q'"
    using ticket_step_performed [OF step.hyps(1) step.prems(1,2)] by blast
  have "tq_config q' = tq_config q" using ticket_step_config [OF step.hyps(1)] by simp
  with step.prems(3) h(2) have "hp' + length evs * capacity (tq_config q') < 2 ^ 64" by simp
  from step.IH [OF h(3) step.prems(2) this] step.prems(4) h(1) show ?case using producers_run.step by fastforce
qed

text \<open>With every reservation written the oldest message can be received.\<close>

lemma written_received:
  assumes g: "group_holds io inv mem (env_crc env) hp g q" and env: "quiet env"
    and pend: "pg_pending g = Map.empty" and some: "queued_messages q \<noteq> []"
  shows "fst (as_receiver (precv io env) g) = Ok (hd (queued_messages q))"
proof -
  obtain e es where e: "tq_entries q = e # es" using some by (cases "tq_entries q") (auto simp: queued_messages_def)
  have "reservations (tq_config q) hp (tq_entries q) (pg_pending g)" using g by (simp add: group_holds_def)
  from reservations_cases(1) [OF this, of "tk_owner e" e] pend e have "tk_written e" by (simp add: waiting_for_def)
  moreover obtain r h where run: "as_receiver (precv io env) g = (r, h)" by fastforce
  from receive_simulated [OF g env run] have "\<exists>q'. ticket_receive q = (r, q')" by (auto simp: ticket_step_simps)
  ultimately show ?thesis using run e by (auto simp: ticket_receive_def queued_messages_def)
qed

text \<open>Handles on a new region.\<close>

lemma fresh_group:
  assumes ring: "ring (capacity cfg) (region_slot_len cfg) empty_words (replicate (capacity cfg) free_view) s"
    and cfg: "producers_config cfg" and hs: "\<forall>c \<in> set (k # hs). handle_of cfg c \<and> \<not> pc_closed c"
  shows "group_holds io inv mem crc 0 \<lparr>pg_store = s, pg_handles = hs, pg_pending = Map.empty, pg_consumer = k\<rparr>
    \<lparr>tq_config = cfg, tq_entries = [], tq_closed = replicate (length hs) False, tq_shut = False\<rparr>"
proof -
  have "queued cfg empty_words [] s" using ring by (auto simp: queued_slots_def ring_window_def empty_words_def)
  then have "tstored crc cfg 0 [] s" by (auto simp: tickets_stored_def empty_words_def intro!: exI [of _ empty_words])
  moreover have "map pc_closed hs = replicate (length hs) False" using hs by (auto intro: replicate_eqI)
  ultimately show ?thesis using cfg hs by (simp add: group_holds_def reservations_def)
qed

end

end
