(* ===== verification/Producers_Properties.thy ===== *)
theory Producers_Properties
  imports Producer_Group Persistent_Channel_Properties
begin

text \<open>
  The properties of a channel with several producers on memory-mapped files: its handles and the
  queue of tickets can do the same runs, and from the creation of the region on messages come out in
  the order in which their slots were reserved.
\<close>

section \<open>A small channel, for the witnesses\<close>

definition pair_config :: spsc_config where
  "pair_config = \<lparr>capacity = 2, slot_size = 4, backpressure = Raise, timeout = None, multi_producer = True\<rparr>"

lemma pair_config_simps [simp]:
  "capacity pair_config = 2" "slot_size pair_config = 4" "backpressure pair_config = Raise" "multi_producer pair_config"
  by (simp_all add: pair_config_def)

lemma pair_fits [simp]: "region_fits pair_config"
  by (simp add: region_fits_def FRAME_HEADER_LEN_def layout_consts usize_max_def)

lemma pair_producers [simp]: "producers_config pair_config"
  by (simp add: producers_config_def FRAME_HEADER_LEN_def)

lemma pair_plan [simp]: "send_plan_of pair_config (Suc 0) = Ok \<lparr>chunk_payload_size = 4, needed_slots = 1\<rparr>"
  by (simp add: send_plan_of_def)

text \<open>Two producers reserve in turn, the second writes first, and the consumer waits for the first.\<close>

definition overtaking :: "producer_event list" where
  "overtaking = [Reserved 0 [1] (Ok True), Reserved 1 [2] (Ok True), Written 1 (Ok ()),
     Received (ChanErr BufferEmpty), Written 0 (Ok ()), Received (Ok [1]), Received (Ok [2])]"

abbreviation no_tickets :: "spsc_config \<Rightarrow> nat \<Rightarrow> ticket_queue" where
  "no_tickets cfg n \<equiv> \<lparr>tq_config = cfg, tq_entries = [], tq_closed = replicate n False, tq_shut = False\<rparr>"

lemma overtaking_run: "ticket_run (no_tickets pair_config 2) overtaking (no_tickets pair_config 2)"
  by (simp add: overtaking_def ticket_run_simps ticket_step_simps ticket_reserve_def ticket_write_def ticket_receive_def
      waiting_for_def queued_messages_def slots_of_def numeral_2_eq_2)

section \<open>Construction\<close>

text \<open>The creator's handle, and every handle on the region it leaves.\<close>

lemma mapped_handles:
  assumes fit: "region_fits cfg" and p: "pchannel_create mmap_io polls view (MmapSlotStorage_create False exist) self epoch cfg = Ok p"
  shows "mmap.ring (capacity cfg) (region_slot_len cfg) empty_words (replicate (capacity cfg) free_view) (pc_store p)"
    "handle_of cfg p \<and> \<not> pc_closed p"
    "\<exists>c. pchannel_open mmap_io env polls' (\<lambda>_. pc_store p) (file_of (pc_store p)) self' epoch' cfg = Ok c \<and>
      handle_of cfg c \<and> \<not> pc_closed c"
proof -
  from mapped_create [OF fit, of polls view exist self epoch] p obtain t where
    t: "p = fresh_handle t cfg self epoch"
      "mmap.ring (capacity cfg) (region_slot_len cfg) empty_words (replicate (capacity cfg) free_view) t"
      "published mmap_io (multi_producer cfg) t" "map_capacity t = capacity cfg" "map_slot_size t = region_slot_len cfg"
      "map_total_len t = region_bytes cfg" by auto
  have st: "pc_store p = t" using t(1) by (simp add: fresh_handle_def)
  with t(2) show "mmap.ring (capacity cfg) (region_slot_len cfg) empty_words (replicate (capacity cfg) free_view) (pc_store p)"
    by simp
  show "handle_of cfg p \<and> \<not> pc_closed p" using t(1) by (simp add: fresh_handle_def handle_of_def)
  have "mapped_inv t" using mmap.ring_layout [OF t(2)] by (simp add: region_layout_def)
  from mapped_open [OF fit this t(4-6,3), of env polls' self' epoch']
    mmap.opened_holds [OF mmap.empty_ring_holds [OF t(2), of "\<lambda>_. 0" 0], of env self' epoch'] st
  show "\<exists>c. pchannel_open mmap_io env polls' (\<lambda>_. pc_store p) (file_of (pc_store p)) self' epoch' cfg = Ok c \<and>
      handle_of cfg c \<and> \<not> pc_closed c" by (auto simp: handle_of_def)
qed

text \<open>The first handle is the creator's or opens what the creator left; so are all of them.\<close>

definition attached ::
  "spsc_config \<Rightarrow> mapped_slot_storage persistent_channel \<Rightarrow> mapped_slot_storage persistent_channel \<Rightarrow> bool" where
  "attached cfg p c \<longleftrightarrow> c = p \<or>
     (\<exists>env polls self epoch. pchannel_open mmap_io env polls (\<lambda>_. pc_store p) (file_of (pc_store p)) self epoch cfg = Ok c)"

lemma attached_group:
  assumes fit: "region_fits cfg" "producers_config cfg"
    and p: "pchannel_create mmap_io polls view (MmapSlotStorage_create False exist) self epoch cfg = Ok p"
    and hs: "\<forall>c \<in> set (k # hs). attached cfg p c"
  shows "group_holds mmap_io mapped_inv mapped_mem crc 0
    \<lparr>pg_store = pc_store p, pg_handles = hs, pg_pending = Map.empty, pg_consumer = k\<rparr> (no_tickets cfg (length hs))"
proof -
  have "handle_of cfg c \<and> \<not> pc_closed c" if "attached cfg p c" for c
    using that mapped_handles(2,3) [OF fit(1) p] unfolding attached_def by (metis outcome.inject(1))
  with hs have "\<forall>c \<in> set (k # hs). handle_of cfg c \<and> \<not> pc_closed c" by blast
  from mmap_exchange.fresh_group [OF mapped_handles(1) [OF fit(1) p] fit(2) this] show ?thesis .
qed

section \<open>The queue of tickets\<close>

text \<open>Claim C2: a channel with several producers is a queue of tickets. A send is a reservation followed
  by the writing of the reserved slots (its two halves make up the whole call); with nobody else
  acting inside a half, any interleaving of reservations, writings and receives by any number of
  producer handles and one consumer handle is a run of the ticket queue with the same answers, and
  each run of the ticket queue can be taken by the handles. The bound says that the head counter
  cannot overflow during the run.\<close>

theorem producers_refine_tickets:
  assumes "group_holds mmap_io mapped_inv mapped_mem (env_crc env) hp g q" and "quiet env"
    and "hp + length evs * capacity (tq_config q) < 2 ^ 64"
    and "\<forall>i m r. Reserved i m r \<in> set evs \<longrightarrow> length m \<le> isize_max"
  shows "(\<forall>h. producers_run mmap_io env (Suc fuel) g evs h \<longrightarrow>
       (\<exists>q' hp'. ticket_run q evs q' \<and> group_holds mmap_io mapped_inv mapped_mem (env_crc env) hp' h q')) \<and>
    (\<forall>q'. ticket_run q evs q' \<longrightarrow>
       (\<exists>h hp'. producers_run mmap_io env (Suc fuel) g evs h \<and> group_holds mmap_io mapped_inv mapped_mem (env_crc env) hp' h q')) \<and>
    (\<forall>c \<in> set (pg_handles g). \<forall>m.
       psend mmap_io env (Suc fuel) m c =
         bind (send_reserve mmap_io env (Suc fuel) m)
           (\<lambda>r. case r of None \<Rightarrow> return () | Some rs \<Rightarrow> send_fill mmap_io env rs) c)"
proof (intro conjI allI impI ballI)
  fix h assume "producers_run mmap_io env (Suc fuel) g evs h"
  from mmap_exchange.producers_run_simulated [OF this assms(1-3)]
  show "\<exists>q' hp'. ticket_run q evs q' \<and> group_holds mmap_io mapped_inv mapped_mem (env_crc env) hp' h q'" .
next
  fix q' assume "ticket_run q evs q'"
  from mmap_exchange.ticket_run_performed [OF this assms]
  show "\<exists>h hp'. producers_run mmap_io env (Suc fuel) g evs h \<and> group_holds mmap_io mapped_inv mapped_mem (env_crc env) hp' h q'" .
next
  fix c m assume "c \<in> set (pg_handles g)"
  with assms(1) have "multi_producer (pc_config c)"
    by (auto simp: group_holds_def handle_of_def producers_config_def)
  then show "psend mmap_io env (Suc fuel) m c =
      bind (send_reserve mmap_io env (Suc fuel) m) (\<lambda>r. case r of None \<Rightarrow> return () | Some rs \<Rightarrow> send_fill mmap_io env rs) c"
    by (rule send_halves)
qed

theorem producers_refine_tickets_witness:
  "\<exists>g h :: mapped_slot_storage producers. length (pg_handles g) = 2 \<and> producers_run mmap_io calm 1 g overtaking h"
proof -
  from mapped_create [OF pair_fits, of 0 "\<lambda>_. undefined" True undefined 0] obtain p where
    p: "pchannel_create mmap_io 0 (\<lambda>_. undefined) (MmapSlotStorage_create False True) undefined 0 pair_config = Ok p" by blast
  let ?g = "\<lparr>pg_store = pc_store p, pg_handles = [p, p], pg_pending = Map.empty, pg_consumer = p\<rparr>"
  have "\<forall>c \<in> set (p # [p, p]). attached pair_config p c" by (simp add: attached_def)
  from attached_group [OF pair_fits pair_producers p this, of "env_crc calm"]
  have "group_holds mmap_io mapped_inv mapped_mem (env_crc calm) 0 ?g (no_tickets pair_config 2)" by (simp add: numeral_2_eq_2)
  from producers_refine_tickets [OF this quiet_calm, of overtaking 0] overtaking_run obtain h where
    "producers_run mmap_io calm (Suc 0) ?g overtaking h"
    by (auto simp: overtaking_def isize_max_def)
  then show ?thesis by (intro exI [of _ ?g] exI [of _ h]) simp
qed



section \<open>A producer that dies before it writes\<close>

text \<open>Claim C14: a producer that dies between its reservation and its first write blocks the channel for
  good. Its slots are still FREE, so they name nobody and no reclaim takes them; over every later run
  in which it does not write, whatever the liveness probe says, however often the others receive,
  clean up or open the region anew, no message reserved after its own comes out, and every clean-up
  reports that there was nothing to free.\<close>

theorem abandoned_reservation_wedges:
  assumes "region_fits cfg" and "producers_config cfg" and "quiet env"
    and "pchannel_create mmap_io polls view (MmapSlotStorage_create False exist) self epoch cfg = Ok p"
    and "\<forall>c \<in> set (k # hs). attached cfg p c"
    and "producers_run mmap_io env (Suc fuel)
      \<lparr>pg_store = pc_store p, pg_handles = hs, pg_pending = Map.empty, pg_consumer = k\<rparr>
      (evs @ Reserved i m (Ok True) # fs) g"
    and "length (evs @ Reserved i m (Ok True) # fs) * capacity cfg < 2 ^ 64"
    and "\<forall>r. Written i r \<notin> set fs"
  shows "(\<exists>rest. received_messages (evs @ Reserved i m (Ok True) # fs) @ rest = reserved_messages evs) \<and>
    (\<forall>n. Cleaned n \<in> set fs \<longrightarrow> n = Ok 0)"
proof -
  note start = attached_group [OF assms(1,2,4,5), of "env_crc env"]
  from mmap_exchange.producers_run_simulated [OF assms(6) start assms(3)] assms(7) obtain q where
    q: "ticket_run (no_tickets cfg (length hs)) (evs @ Reserved i m (Ok True) # fs) q" by auto
  from abandoned_place_blocks [OF q assms(8)] ticket_run_cleaned [OF q] show ?thesis by auto
qed

definition abandoned :: "producer_event list" where
  "abandoned = [Reserved 1 [2] (Ok True), Written 1 (Ok ()), Received (ChanErr BufferEmpty), Cleaned (Ok 0),
     Joined (Ok ()), Received (ChanErr BufferEmpty)]"

lemma abandoned_run: "\<exists>q. ticket_run (no_tickets pair_config 2) ([] @ Reserved 0 [1] (Ok True) # abandoned) q"
  by (simp add: abandoned_def ticket_run_simps ticket_step_simps ticket_reserve_def ticket_write_def ticket_receive_def
      waiting_for_def queued_messages_def slots_of_def numeral_2_eq_2)

theorem abandoned_reservation_wedges_witness:
  "\<exists>g h :: mapped_slot_storage producers. \<exists>rest.
     producers_run mmap_io calm 1 g (Reserved 0 [1] (Ok True) # abandoned) h \<and>
     received_messages (Reserved 0 [1] (Ok True) # abandoned) @ rest = []"
proof -
  from mapped_create [OF pair_fits, of 0 "\<lambda>_. undefined" True undefined 0] obtain p where
    p: "pchannel_create mmap_io 0 (\<lambda>_. undefined) (MmapSlotStorage_create False True) undefined 0 pair_config = Ok p" by blast
  let ?g = "\<lparr>pg_store = pc_store p, pg_handles = [p, p], pg_pending = Map.empty, pg_consumer = p\<rparr>"
  let ?evs = "[] @ Reserved 0 [1] (Ok True) # abandoned"
  have a: "\<forall>c \<in> set (p # [p, p]). attached pair_config p c" by (simp add: attached_def)
  from attached_group [OF pair_fits pair_producers p this, of "env_crc calm"]
  have g: "group_holds mmap_io mapped_inv mapped_mem (env_crc calm) 0 ?g (no_tickets pair_config 2)" by (simp add: numeral_2_eq_2)
  have n: "0 + length ?evs * capacity (tq_config (no_tickets pair_config 2)) < 2 ^ 64"
    "\<forall>i m r. Reserved i m r \<in> set ?evs \<longrightarrow> length m \<le> isize_max" by (auto simp: abandoned_def isize_max_def)
  from abandoned_run obtain q where "ticket_run (no_tickets pair_config 2) ?evs q" by blast
  from mmap_exchange.ticket_run_performed [OF this g quiet_calm n, of 0] obtain h where
    run: "producers_run mmap_io calm (Suc 0) ?g ?evs h" by blast
  have "length ?evs * capacity pair_config < 2 ^ 64" "\<forall>r. Written 0 r \<notin> set abandoned" by (auto simp: abandoned_def)
  from abandoned_reservation_wedges [OF pair_fits pair_producers quiet_calm p a run this] run
  show ?thesis by auto
qed

end
