(* ===== verification/Reclaim_Crossing.thy ===== *)
theory Reclaim_Crossing
  imports Producers_Properties
begin

text \<open>
  The receive of a consumer that finds the reservation of a dead producer at the tail. It frees the
  extent recorded in the slot and delivers the next complete message. But the extent is that of the
  whole message, also when the consumer has already taken the first frame of it: then the reclaim runs
  past its end into the slots of the next reservation.
\<close>

section \<open>The reclaim of an extent\<close>

context region_io
begin

lemma window_release_at:
  assumes w: "window cfg w vs s" and k: "k < length vs"
  shows "\<exists>t. force_release_no_flush io ((unat (rg_tail w) + k) mod capacity cfg) s = (Ok (), t) \<and>
    window cfg w (vs[k := free_view]) t"
proof -
  let ?i = "(unat (rg_tail w) + k) mod capacity cfg"
  have kc: "k < capacity cfg" using window_length(1) [OF w] k by simp
  obtain views where v: "ring (capacity cfg) (region_slot_len cfg) w views s" "?i < capacity cfg"
    "rotate (unat (rg_tail w)) (views[?i := free_view]) = (vs @ replicate (capacity cfg - length vs) free_view)[k := free_view]"
    using window_slot [OF w kc] by metis
  from release_slot(1) [OF v(1,2)] obtain t where
    t: "force_release_no_flush io ?i s = (Ok (), t)" "ring (capacity cfg) (region_slot_len cfg) w (views[?i := free_view]) t" by blast
  from window_update [OF w k t(2) v(3)] t(1) show ?thesis by blast
qed

text \<open>Freeing a run of slots, and moving the tail past it.\<close>

lemma free_extent_at:
  assumes "window cfg w (us @ xs @ vs) (pc_store c)"
  shows "\<exists>t. free_extent io (capacity cfg) (length xs) ((unat (rg_tail w) + length us) mod capacity cfg) c =
      (Ok (), c\<lparr>pc_store := t\<rparr>) \<and> window cfg w (us @ replicate (length xs) free_view @ vs) t"
  using assms
proof (induction xs arbitrary: us c)
  case Nil
  then show ?case by (intro exI [of _ "pc_store c"]) simp
next
  case (Cons x xs)
  let ?i = "(unat (rg_tail w) + length us) mod capacity cfg"
  from window_release_at [OF Cons.prems, of "length us"] obtain t where
    t: "force_release_no_flush io ?i (pc_store c) = (Ok (), t)" "window cfg w (us @ free_view # xs @ vs) t" by auto
  have "?i < capacity cfg" using window_length(2) [OF Cons.prems] by simp
  note fl = window_flushes(1) [OF t(2) this]
  from Cons.IH [of "us @ [free_view]" "c\<lparr>pc_store := t\<rparr>"] t(2) obtain u where
    "free_extent io (capacity cfg) (length xs) ((unat (rg_tail w) + Suc (length us)) mod capacity cfg) (c\<lparr>pc_store := t\<rparr>) =
      (Ok (), c\<lparr>pc_store := u\<rparr>)" "window cfg w (us @ free_view # replicate (length xs) free_view @ vs) u" by auto
  with t(1) fl show ?case by (intro exI [of _ u]) (simp add: mod_Suc_eq)
qed

lemma queued_skip:
  assumes q: "queued cfg w (replicate n free_view @ vs) s" and new: "unat tail = unat (rg_tail w) + n"
  shows "\<exists>t seen. compare_exchange_tail io (rg_tail w) tail s = (Ok (seen, True), t) \<and>
    queued cfg (w\<lparr>rg_tail := tail\<rparr>) vs t"
proof -
  let ?free = "replicate (capacity cfg - (n + length vs)) free_view"
  have win: "window cfg w (replicate n free_view @ vs) s" using q by (simp add: queued_slots_def)
  then have len: "n + length vs \<le> capacity cfg" using window_length(1) by fastforce
  from win obtain views where v: "ring (capacity cfg) (region_slot_len cfg) w views s"
    "rotate (unat (rg_tail w)) views = replicate n free_view @ (vs @ ?free)"
    by (auto simp: ring_window_def)
  have "rotate (unat tail) views = rotate (length (replicate n free_view)) (rotate (unat (rg_tail w)) views)"
    by (simp add: new rotate_rotate add.commute)
  also have "\<dots> = (vs @ ?free) @ replicate n free_view"
    unfolding v(2) by (rule rotate_append)
  also have "\<dots> = vs @ replicate (capacity cfg - length vs) free_view"
    using len by (simp flip: replicate_add)
  finally have r: "rotate (unat tail) views = vs @ replicate (capacity cfg - length vs) free_view" .
  from cas_word [OF v(1), of CURSOR_TAIL_OFFSET "rg_tail w" tail] obtain t seen where
    t: "rio_compare_exchange_u64 io CURSOR_TAIL_OFFSET (rg_tail w) tail s = (Ok (seen, True), t)"
      "ring (capacity cfg) (region_slot_len cfg) (w\<lparr>rg_tail := tail\<rparr>) views t" by auto
  with q r new show ?thesis by (auto simp: compare_exchange_tail_def queued_slots_def ring_window_def)
qed

text \<open>Free slots do not stop the check of an extent.\<close>

lemma extent_free:
  assumes "window cfg w (us @ replicate n free_view @ vs) s"
  shows "extent_reclaimable io (capacity cfg) ident n ((unat (rg_tail w) + length us) mod capacity cfg) s = Ok True"
  using assms
proof (induction n arbitrary: us)
  case (Suc n)
  let ?i = "(unat (rg_tail w) + length us) mod capacity cfg"
  have "length us < capacity cfg" using window_length(1) [OF Suc.prems] by simp
  then obtain views where v: "ring (capacity cfg) (region_slot_len cfg) w views s" "?i < capacity cfg"
    "views ! ?i = (if length us < length (us @ replicate (Suc n) free_view @ vs)
       then (us @ replicate (Suc n) free_view @ vs) ! length us else free_view)"
    using window_slot [OF Suc.prems] by metis
  then have "views ! ?i = free_view" by (simp add: nth_append)
  then obtain g where "read_header_full io ?i s = Ok g" "sh_state g = Free"
    using read_header_full_effect [OF ring_layout [OF v(1)] v(2)] ring_raw [OF v(1,2)] raw_view_free_iff by auto
  moreover have "window cfg w ((us @ [free_view]) @ replicate n free_view @ vs) s"
    using Suc.prems by simp
  from Suc.IH [OF this] have "extent_reclaimable io (capacity cfg) ident n ((unat (rg_tail w) + Suc (length us)) mod capacity cfg) s = Ok True"
    by simp
  ultimately show ?case by (simp add: mod_Suc_eq)
qed simp

text \<open>The slot at the tail is being written by a process that is gone; the slots behind it, as many as
  its extent says, are free.\<close>

lemma reclaim_extent:
  assumes c: "at_tail cfg (v # replicate k free_view @ vs) c" and mp: "multi_producer cfg"
    and full: "read_header_full io (pc_tail c) (pc_store c) = Ok full" "sh_state full = Writing" "sh_identity full = Some ident"
    and extent: "unat (wi_reserved_slots ident) = Suc k"
    and gone: "process_liveness (env_probe env) \<lparr>pid = wi_pid ident, start_time = wi_start_time ident\<rparr> = Gone"
    and count: "unat (pc_reclaimed_slots c) + Suc k < 2 ^ 64"
  shows "\<exists>d. try_reclaim_at_tail io env c = (Ok (Suc k), d) \<and> at_tail cfg vs d \<and> pc_closed d = pc_closed c \<and>
    pc_head_cursor d = pc_head_cursor c \<and> pc_resync_expected d"
proof -
  let ?w = "loaded_words c" and ?cap = "capacity cfg"
  have q: "queued cfg ?w (v # replicate k free_view @ vs) (pc_store c)" and pc: "pc_config c = cfg" "pc_recovery_bias c = 0"
    and tl: "pc_tail c = unat (rg_tail ?w) mod ?cap"
    using c by (simp_all add: loaded_def loaded_words_def)
  have win: "window cfg ?w (v # replicate k free_view @ vs) (pc_store c)"
    and h: "unat (rg_head ?w) = unat (rg_tail ?w) + Suc (k + length vs)"
    using q by (simp_all add: queued_slots_def)
  note n = window_length [OF win]
  have w: "rg_head ?w = pc_head_cursor c" "rg_tail ?w = pc_tail_cursor c" by (simp_all add: loaded_words_def)
  have d: "unat (pc_head_cursor c - pc_tail_cursor c) = Suc (k + length vs)" using unat_diff_add [of "rg_head ?w"] h w by simp
  have nx: "(pc_tail c + 1) mod ?cap = (unat (rg_tail ?w) + length [v]) mod ?cap" using tl by (simp add: mod_Suc_eq)
  have "window cfg ?w ([v] @ replicate k free_view @ vs) (pc_store c)" using win by simp
  from extent_free [OF this, of ident] full nx
  have ext: "extent_reclaimable io ?cap ident (Suc k) (pc_tail c) (pc_store c) = Ok True" by simp
  have "window cfg ?w ([] @ (v # replicate k free_view) @ vs) (pc_store c)" using win by simp
  from free_extent_at [OF this] tl obtain s2 where
    s2: "free_extent io ?cap (Suc k) (pc_tail c) c = (Ok (), c\<lparr>pc_store := s2\<rparr>)"
      "window cfg ?w (replicate (Suc k) free_view @ vs) s2" by auto
  let ?new = "pc_tail_cursor c + word_of_nat (Suc k)"
  have nof: "unat (pc_tail_cursor c) + Suc k < 2 ^ 64"
    using h w unsigned_less [of "rg_head ?w", where ?'a = nat] by simp
  then have add: "add_u64 (pc_tail_cursor c) (Suc k) = Ok ?new" "unat ?new = unat (rg_tail ?w) + Suc k"
    using w by (simp_all add: add_u64_def unat_word_ariths unat_of_nat del: of_nat_Suc)
  have "queued cfg ?w (replicate (Suc k) free_view @ vs) s2" using q s2(2) by (simp add: queued_slots_def)
  from queued_skip [OF this add(2)] w obtain s3 seen where
    s3: "compare_exchange_tail io (pc_tail_cursor c) ?new s2 = (Ok (seen, True), s3)"
      "queued cfg (?w\<lparr>rg_tail := ?new\<rparr>) vs s3" by auto
  let ?d = "c\<lparr>pc_store := s3, pc_tail_cursor := ?new, pc_tail := cursor_slot ?cap ?new,
    pc_reclaimed_slots := pc_reclaimed_slots c + word_of_nat (Suc k), pc_resync_expected := True, pc_len := pc_len c - Suc k\<rparr>"
  have "flush_header io s3 = Ok ()"
    using s3(2) flush_header_ok by (auto simp: queued_slots_def ring_window_def)
  moreover have rec: "add_u64 (pc_reclaimed_slots c) (Suc k) = Ok (pc_reclaimed_slots c + word_of_nat (Suc k))"
    using count by (simp add: add_u64_def)
  ultimately have "try_reclaim_at_tail io env c = (Ok (Suc k), ?d)"
    using full gone extent ext s2(1) add(1) s3(1) d mp pc n(1)
    by (simp add: try_reclaim_at_tail_def try_reclaim_at_tail_mpsc_def pcapacity_def Let_def note_reclaimed_def
        del: of_nat_Suc extent_reclaimable.simps free_extent.simps)
  moreover have "at_tail cfg vs ?d"
    using s3(2) pc w by (simp add: loaded_def loaded_words_def cursor_slot_def)
  ultimately show ?thesis by (intro exI [of _ ?d]) simp
qed

text \<open>What a receive does up to there.\<close>

lemma poll_writing_at:
  assumes q: "queued cfg w (v # vs) (pc_store c)" and c: "handle_of cfg c" "\<not> pc_closed c" and env: "quiet env"
    and full: "read_header_full io (unat (rg_tail w) mod capacity cfg) (pc_store c) = Ok full" "sh_state full = Writing"
  defines "s \<equiv> (refreshed w (Suc (length vs)) c)\<lparr>pc_resync_expected := False\<rparr>"
  shows "refresh_cursors io c = (Ok (), refreshed w (Suc (length vs)) c)" "at_tail cfg (v # vs) s"
    "poll_tail_committed io env s = (Ok False, s)" "read_header_full io (pc_tail s) (pc_store s) = Ok full"
    "pc_reclaimed_slots s = pc_reclaimed_slots c" "pc_closed s = pc_closed c" "pc_head_cursor s = rg_head w" "pc_store s = pc_store c"
proof -
  have pc: "pc_config c = cfg" "pc_recovery_bias c = 0" using c by (simp_all add: handle_of_def)
  have q': "queued (pc_config c) w (v # vs) (pc_store c)" using q pc by simp
  note r = refresh_queued [OF q' pc(2)]
  show "refresh_cursors io c = (Ok (), refreshed w (Suc (length vs)) c)" using r(1) by simp
  show "at_tail cfg (v # vs) s" using r(2) pc by (simp add: loaded_def loaded_words_def s_def)
  show k: "read_header_full io (pc_tail s) (pc_store s) = Ok full" "pc_reclaimed_slots s = pc_reclaimed_slots c"
    "pc_closed s = pc_closed c" "pc_head_cursor s = rg_head w" "pc_store s = pc_store c"
    using full pc by (simp_all add: refreshed_def pcapacity_def s_def)
  have win: "window cfg w (v # vs) (pc_store c)" using q by (simp add: queued_slots_def)
  obtain views where vw: "ring (capacity cfg) (region_slot_len cfg) w views (pc_store c)"
    using win by (auto simp: ring_window_def)
  have tl: "pc_tail s = unat (rg_tail w) mod capacity cfg" using pc by (simp add: refreshed_def pcapacity_def s_def)
  have i: "unat (rg_tail w) mod capacity cfg < capacity cfg" using window_length(2) [OF win] by simp
  have hd: "\<exists>q n. read_header io (pc_tail s) (pc_store s) = Ok (Writing, q, n)"
    using read_header_full_effect [OF ring_layout [OF vw] i] read_header_effect [OF ring_layout [OF vw] i] full tl k(5) by auto
  have "poll_committed_loop io env n s = (Ok False, s)" for n
    using hd env c(2) k(3) by (induction n) (auto simp: tail_header_def)
  then show "poll_tail_committed io env s = (Ok False, s)" by (simp add: poll_tail_committed_def)
qed

subsection \<open>A reservation behind the tail\<close>

lemma send_fill_behind:
  assumes r: "ring (capacity cfg) (region_slot_len cfg) w views (pc_store c)" and c: "pc_config c = cfg"
    and free: "views ! cursor_slot (capacity cfg) start = free_view"
    and plan: "send_plan_of cfg (length m) = Ok plan" "needed_slots plan = 1" and m: "length m \<le> isize_max"
    and small: "slot_size cfg + FRAME_HEADER_LEN < 2 ^ 32"
  shows "\<exists>d sq f. send_fill io env \<lparr>rs_message = m, rs_plan = plan, rs_start = start\<rparr> c = (Ok (), d) \<and>
    ring (capacity cfg) (region_slot_len cfg) w (views[cursor_slot (capacity cfg) start := committed_view sq f]) (pc_store d)"
proof -
  let ?sq = "pc_next_seq c" and ?c = "c\<lparr>pc_next_seq := pc_next_seq c + 1\<rparr>" and ?i = "cursor_slot (capacity cfg) start"
  have cap: "0 < capacity cfg" using r by (simp add: at_ring_def region_layout_def)
  then have i: "?i < capacity cfg" by (simp add: cursor_slot_def)
  from encode_message_frames_Ok [OF plan(1) cap m] obtain fs where
    fs: "encode_message_frames (env_crc env) cfg plan ?sq m = Ok fs" by metis
  note e = encoded_message [OF plan(1) cap m fs]
  from e(1) plan(2) obtain f where f: "fs = [f]" by (cases fs) auto
  have fit: "length f \<le> slot_size cfg + FRAME_HEADER_LEN" using e(2) f by (simp add: message_frames_def)
  then have "length f \<le> region_slot_len cfg - PERSISTENT_SLOT_HEADER_LEN" "length f < 2 ^ 32" using small by simp_all
  from commit_slot [OF r i free this, of ?sq "Some (stamp env 1 ?c)"] obtain t where
    t: "pwrite_committed_no_flush io ?i ?sq f (Some (stamp env 1 ?c)) (pc_store c) = (Ok (), t)"
      "ring (capacity cfg) (region_slot_len cfg) w (views[?i := committed_view ?sq f]) t" by blast
  have slot: "write_reserved_slot io env ?i ?sq f (stamp env 1 ?c) n ?c = (Ok (), ?c\<lparr>pc_store := t\<rparr>)" for n
    using t(1) by (cases n) (simp_all add: when_full_def)
  have zero: "add_u64 start 0 = Ok start"
    using unsigned_less [of start, where ?'a = nat] by (simp add: add_u64_def)
  have "flush_header io (pc_store c) = Ok ()" using flush_header_ok [OF r] .
  moreover have "publish_batch io [f] ?i t = Ok ()" using publish_batch_ok [OF t(2), of "[f]" ?i] fit by simp
  ultimately show ?thesis using fs f c plan(2) slot zero t(2)
    by (intro exI [of _ "?c\<lparr>pc_store := t, pc_head := (?i + 1) mod capacity cfg, pc_len := min (pc_len c + 1) (capacity cfg)\<rparr>"]
        exI [of _ ?sq] exI [of _ f])
      (simp add: send_fill_def take_sequence_def pcapacity_def Let_def)
qed

text \<open>A receive where the cursors meet.\<close>

lemma receive_nothing:
  assumes r: "ring (capacity cfg) (region_slot_len cfg) w views (pc_store c)" and w: "rg_head w = rg_tail w" "rg_floor w = PIN_FLOOR_NONE"
    and free: "views ! (unat (rg_tail w) mod capacity cfg) = free_view"
    and c: "handle_of cfg c" "\<not> pc_closed c" and cfg: "producers_config cfg" and env: "quiet env"
  shows "fst (precv io env c) = ChanErr BufferEmpty"
proof -
  let ?r = "refreshed w 0 c"
  have pc: "pc_config c = cfg" "pc_recovery_bias c = 0" using c by (simp_all add: handle_of_def)
  have cap: "0 < capacity cfg" using r by (simp add: at_ring_def region_layout_def)
  then have i: "unat (rg_tail w) mod capacity cfg < capacity cfg" by simp
  have l: "load_head io (pc_store c) = Ok (rg_head w)" "load_tail io (pc_store c) = Ok (rg_tail w)"
    "load_floor io (pc_store c) = Ok (rg_floor w)"
    using load_word [OF r] by (simp_all add: word_ops_defs)
  have ref: "refresh_cursors io c = (Ok (), ?r)"
    using l w(1) pc by (simp add: refresh_cursors_def refreshed_def cursor_len_def cursor_slot_def pcapacity_def)
  from slot_state_at [OF r i] free obtain q n where hd: "read_header io (unat (rg_tail w) mod capacity cfg) (pc_store c) = Ok (Free, q, n)"
    by auto
  let ?s = "?r\<lparr>pc_resync_expected := False\<rparr>"
  have "\<exists>q n. read_header io (pc_tail ?s) (pc_store ?s) = Ok (Free, q, n)"
    using hd pc by (simp add: refreshed_def pcapacity_def)
  from poll_unwritten_at [OF this env, of 255] c(2)
  have poll: "poll_tail_committed io env ?s = (Ok False, ?s)"
    by (simp add: poll_tail_committed_def POLL_LIMIT_def refreshed_def del: poll_committed_loop.simps)
  have "multi_producer cfg" using cfg by (simp add: producers_config_def)
  then have "try_reclaim_at_tail io env ?s = (Ok 0, ?s)"
    using w(1) pc by (simp add: try_reclaim_at_tail_def try_reclaim_at_tail_mpsc_def refreshed_def Let_def)
  with ref poll c(2) show ?thesis
    by (simp add: precv_def precv_with_seq_def ensure_tail_readable_def refreshed_def)
qed

text \<open>A receive that finds the slot of a writer that is gone: after the reclaim it takes the message
  behind the extent, or answers that there is none.\<close>

lemma receive_behind_extent:
  assumes q: "queued cfg w (v # replicate k free_view @ vs) (pc_store c)" and c: "handle_of cfg c" "\<not> pc_closed c"
    and cfg: "producers_config cfg" and env: "quiet env"
    and full: "read_header_full io (unat (rg_tail w) mod capacity cfg) (pc_store c) = Ok full" "sh_state full = Writing"
      "sh_identity full = Some ident" "unat (wi_reserved_slots ident) = Suc k"
    and gone: "process_liveness (env_probe env) \<lparr>pid = wi_pid ident, start_time = wi_start_time ident\<rparr> = Gone"
    and count: "unat (pc_reclaimed_slots c) + Suc k < 2 ^ 64"
  shows "vs = [] \<Longrightarrow> \<exists>d w'. precv io env c = (ChanErr BufferEmpty, d) \<and> queued cfg w' [] (pc_store d) \<and>
      rg_head w' = rg_head w \<and> handle_of cfg d \<and> \<not> pc_closed d"
    "vs = map (committed_view sq) fs @ us \<Longrightarrow> message_frames (env_crc env) sq limit m fs \<Longrightarrow> length m \<le> isize_max \<Longrightarrow>
      \<exists>d w'. precv io env c = (Ok m, d) \<and> queued cfg w' us (pc_store d) \<and> rg_head w' = rg_head w \<and> handle_of cfg d \<and> \<not> pc_closed d"
proof -
  let ?s = "(refreshed w (Suc (length (replicate k free_view @ vs))) c)\<lparr>pc_resync_expected := False\<rparr>"
  note p = poll_writing_at [OF q c env full(1,2)]
  have mp: "multi_producer cfg" using cfg by (simp add: producers_config_def)
  from reclaim_extent [OF p(2) mp p(4) full(2-4) gone] count p(5) obtain d where
    d: "try_reclaim_at_tail io env ?s = (Ok (Suc k), d)" "at_tail cfg vs d" "pc_closed d = pc_closed c" "pc_head_cursor d = rg_head w"
    using p(6,7) by auto
  have words: "rg_head (loaded_words e) = rg_head w" if "pc_head_cursor e = rg_head w" for e :: "'s persistent_channel"
    using that by (simp add: loaded_words_def)
  {
    assume "vs = []"
    with d(2) at_tail_header(2) have "tail_committed io d = (Ok False, d)"
      by (fastforce simp: tail_committed_def tail_header_def)
    with p(1,3) d(1) c(2) have "precv io env c = (ChanErr BufferEmpty, d)"
      by (simp add: precv_def precv_with_seq_def ensure_tail_readable_def refreshed_def)
    with d c(2) words [OF d(4)] \<open>vs = []\<close> show "\<exists>d w'. precv io env c = (ChanErr BufferEmpty, d) \<and>
        queued cfg w' [] (pc_store d) \<and> rg_head w' = rg_head w \<and> handle_of cfg d \<and> \<not> pc_closed d"
      by (intro exI [of _ d] exI [of _ "loaded_words d"]) (simp add: loaded_def handle_of_def)
  next
    assume vs: "vs = map (committed_view sq) fs @ us" and mf: "message_frames (env_crc env) sq limit m fs"
      and m: "length m \<le> isize_max"
    obtain b bs where "fs = b # bs" using mf by (cases fs) (auto simp: message_frames_def)
    with vs d(2) have "at_tail cfg (committed_view sq b # (map (committed_view sq) bs @ us)) d" by simp
    from at_tail_header(1) [OF this] have "tail_committed io d = (Ok True, d)"
      by (simp add: tail_committed_def tail_header_def)
    with p(1,3) d(1) c(2) have "ensure_tail_readable io env c = (Ok (pc_resync_expected c), d)"
      by (simp add: ensure_tail_readable_def refreshed_def)
    from recv_readable_at [OF mf m this d(2) [unfolded vs]] mp obtain e where
      e: "precv_with_seq io env c = (Ok \<lparr>rm_seq = sq, rm_payload = m\<rparr>, e)" "at_tail cfg us e" "pc_closed e = pc_closed d"
        "pc_head_cursor e = pc_head_cursor d" by blast
    with d(3,4) c(2) words [of e] show "\<exists>d w'. precv io env c = (Ok m, d) \<and> queued cfg w' us (pc_store d) \<and>
        rg_head w' = rg_head w \<and> handle_of cfg d \<and> \<not> pc_closed d"
      by (intro exI [of _ e] exI [of _ "loaded_words e"]) (simp add: precv_def loaded_def handle_of_def)
  }
qed

text \<open>The writer may be alive, or nothing be known of it: then the receive leaves the slots alone.\<close>

lemma receive_behind_live:
  assumes q: "queued cfg w (v # vs) (pc_store c)" and c: "handle_of cfg c" "\<not> pc_closed c"
    and cfg: "producers_config cfg" and env: "quiet env"
    and full: "read_header_full io (unat (rg_tail w) mod capacity cfg) (pc_store c) = Ok full" "sh_state full = Writing"
    and live: "\<And>ident. sh_identity full = Some ident \<Longrightarrow>
      process_liveness (env_probe env) \<lparr>pid = wi_pid ident, start_time = wi_start_time ident\<rparr> \<noteq> Gone"
  shows "\<exists>d. precv io env c = (ChanErr BufferEmpty, d) \<and> pc_store d = pc_store c"
proof -
  let ?s = "(refreshed w (Suc (length vs)) c)\<lparr>pc_resync_expected := False\<rparr>"
  note p = poll_writing_at [OF q c env full]
  have mp: "multi_producer cfg" "pc_config ?s = cfg" using cfg c by (simp_all add: producers_config_def handle_of_def refreshed_def)
  have "try_reclaim_at_tail io env ?s = (Ok 0, ?s)"
    using p(4) full(2) live mp
    by (cases "sh_identity full") (auto simp: try_reclaim_at_tail_def try_reclaim_at_tail_mpsc_def Let_def)
  with p(1,3,8) c(2) show ?thesis
    by (simp add: precv_def precv_with_seq_def ensure_tail_readable_def refreshed_def)
qed

end

context exchange_region_io
begin

lemma send_reserve_room:
  assumes q: "queued cfg w vs (pc_store c)" and c: "handle_of cfg c" "\<not> pc_closed c" and cfg: "producers_config cfg"
    and env: "quiet env" and plan: "send_plan_of cfg (length m) = Ok plan" and room: "needed_slots plan \<le> capacity cfg - length vs"
    and count: "unat (rg_head w) + needed_slots plan < 2 ^ 64"
  shows "\<exists>d w'. send_reserve io env (Suc fuel) m c = (Ok (Some \<lparr>rs_message = m, rs_plan = plan, rs_start = rg_head w\<rparr>), d) \<and>
    queued cfg w' (vs @ replicate (needed_slots plan) free_view) (pc_store d) \<and> rg_tail w' = rg_tail w \<and>
    unat (rg_head w') = unat (rg_head w) + needed_slots plan \<and> handle_of cfg d \<and>
    (\<forall>i < capacity cfg. read_header_full io i (pc_store d) = read_header_full io i (pc_store c))"
proof -
  have pc: "pc_config c = cfg" "pc_recovery_bias c = 0" using c by (simp_all add: handle_of_def)
  let ?r = "refreshed w (length vs) c"
  have ref: "refresh_cursors io c = (Ok (), ?r)" using refresh_queued(1) [of c w vs] q pc by simp
  have k: "pc_config ?r = cfg" "pc_recovery_bias ?r = 0" "pc_store ?r = pc_store c"
    using pc by (simp_all add: refreshed_def)
  have q': "queued (pc_config ?r) w vs (pc_store ?r)" using q k by simp
  have drop: "backpressure cfg \<noteq> DropOldest" using cfg by (simp add: producers_config_def)
  have need: "needed_slots plan \<le> capacity cfg" using room by simp
  from reserve_slots_at [OF q' k(2) env _ _ count, of fuel, unfolded k(1), OF need drop] room obtain d w' where
    d: "reserve_slots io env (Suc fuel) (needed_slots plan) ?r = (Ok (Some (rg_head w)), d)"
      "queued cfg w' (vs @ replicate (needed_slots plan) free_view) (pc_store d)"
      "unat (rg_head w') = unat (rg_head w) + needed_slots plan" "pc_config d = cfg" "pc_recovery_bias d = 0"
      "\<forall>i < capacity cfg. read_header_full io i (pc_store d) = read_header_full io i (pc_store c)"
    by (auto simp: k)
  have "unat (rg_tail w') = unat (rg_tail w)" using d(2,3) q by (simp add: queued_slots_def)
  then have "rg_tail w' = rg_tail w" by (simp add: word_unat_eq_iff)
  with d ref k c(2) plan show ?thesis
    by (intro exI [of _ d] exI [of _ w']) (simp add: send_reserve_def handle_of_def)
qed

end

section \<open>A message lost to a reclaim\<close>

text \<open>Claim C13: a reclaim can take the slots of a live producer. A producer has died while it wrote the
  second frame of a message of two slots, and the consumer has taken the first frame, so that the
  tail is at the slot the dead producer left WRITING. A second producer reserves the next slot for a
  message of its own. The consumer receives: the slot names a process that is gone and an extent of
  two, the next slot is FREE, and so the reclaim frees both and moves the tail past the live
  reservation. The second producer then completes its send, which returns \<open>Ok\<close>; but the cursors
  meet, its message lies COMMITTED in the slot behind the tail, outside what the cursors count, and
  the next receive answers \<open>BufferEmpty\<close>.\<close>

theorem reclaim_takes_live_reservation:
  fixes s :: mapped_slot_storage
  assumes "queued_slots mmap_io mapped_inv mapped_mem cfg w [v] s" and "producers_config cfg" and "quiet env" and "2 \<le> capacity cfg"
    and "handle_of cfg c" and "\<not> pc_closed c" and "handle_of cfg p" and "\<not> pc_closed p"
    and "read_header_full mmap_io (unat (rg_tail w) mod capacity cfg) s = Ok full" and "sh_state full = Writing"
    and "sh_identity full = Some ident" and "unat (wi_reserved_slots ident) = 2"
    and "process_liveness (env_probe env) \<lparr>pid = wi_pid ident, start_time = wi_start_time ident\<rparr> = Gone"
    and "send_plan_of cfg (length m) = Ok plan" and "needed_slots plan = 1" and "length m \<le> isize_max"
    and "unat (pc_reclaimed_slots c) + 2 < 2 ^ 64" and "unat (rg_head w) + 1 < 2 ^ 64"
  shows "\<exists>rs p' c' p''.
    send_reserve mmap_io env (Suc fuel) m (p\<lparr>pc_store := s\<rparr>) = (Ok (Some rs), p') \<and>
    precv mmap_io env (c\<lparr>pc_store := pc_store p'\<rparr>) = (ChanErr BufferEmpty, c') \<and>
    send_fill mmap_io env rs (p'\<lparr>pc_store := pc_store c'\<rparr>) = (Ok (), p'') \<and>
    load_head mmap_io (pc_store p'') = load_tail mmap_io (pc_store p'') \<and>
    load_tail mmap_io (pc_store p'') = Ok (rg_head w + 1) \<and>
    (\<exists>sq n. read_header mmap_io (cursor_slot (capacity cfg) (rg_head w)) (pc_store p'') = Ok (Committed, sq, n)) \<and>
    fst (precv mmap_io env (c'\<lparr>pc_store := pc_store p''\<rparr>)) = ChanErr BufferEmpty"
proof -
  let ?p = "p\<lparr>pc_store := s\<rparr>" and ?rs = "\<lparr>rs_message = m, rs_plan = plan, rs_start = rg_head w\<rparr>"
  have hp: "handle_of cfg ?p" "\<not> pc_closed ?p" using assms(7,8) by (simp_all add: handle_of_def)
  have q: "mmap.queued cfg w [v] (pc_store ?p)" using assms(1) by simp
  have h: "unat (rg_head w) = unat (rg_tail w) + 1" using assms(1) by (simp add: queued_slots_def)
  have room: "needed_slots plan \<le> capacity cfg - length [v]" "unat (rg_head w) + needed_slots plan < 2 ^ 64"
    using assms(4,15,18) by simp_all
  from mmap_exchange.send_reserve_room [OF q hp assms(2,3,14) room, of fuel] assms(15) obtain p' w1 where
    p': "send_reserve mmap_io env (Suc fuel) m ?p = (Ok (Some ?rs), p')" "mmap.queued cfg w1 [v, free_view] (pc_store p')"
      "rg_tail w1 = rg_tail w" "unat (rg_head w1) = unat (rg_head w) + 1" "handle_of cfg p'"
      "\<forall>i < capacity cfg. read_header_full mmap_io i (pc_store p') = read_header_full mmap_io i s" by auto
  let ?c = "c\<lparr>pc_store := pc_store p'\<rparr>"
  have hc: "handle_of cfg ?c" "\<not> pc_closed ?c" using assms(5,6) by (simp_all add: handle_of_def)
  have q1: "mmap.queued cfg w1 (v # replicate 1 free_view @ []) (pc_store ?c)" using p'(2) by simp
  have full: "read_header_full mmap_io (unat (rg_tail w1) mod capacity cfg) (pc_store ?c) = Ok full"
    using p'(3,6) assms(4,9) by simp
  have two: "unat (wi_reserved_slots ident) = Suc 1" "unat (pc_reclaimed_slots ?c) + Suc 1 < 2 ^ 64"
    using assms(12,17) by simp_all
  from mmap.receive_behind_extent(1) [OF q1 hc assms(2,3) full assms(10,11) two(1) assms(13) two(2) refl]
  obtain c' w2 where
    c': "precv mmap_io env ?c = (ChanErr BufferEmpty, c')" "mmap.queued cfg w2 [] (pc_store c')" "rg_head w2 = rg_head w1"
      "handle_of cfg c'" "\<not> pc_closed c'" by blast
  have fl: "rg_floor w2 = PIN_FLOOR_NONE" and h2: "rg_head w2 = rg_tail w2"
    using c'(2) by (simp_all add: queued_slots_def word_unat_eq_iff)
  from c'(2) obtain views where vs: "mmap.ring (capacity cfg) (region_slot_len cfg) w2 views (pc_store c')"
    "rotate (unat (rg_tail w2)) views = replicate (capacity cfg) free_view"
    by (auto simp: queued_slots_def ring_window_def)
  have "set views = set (rotate (unat (rg_tail w2)) views)" by simp
  then have free: "views ! i = free_view" if "i < capacity cfg" for i
    unfolding vs(2) using that at_ring_length [OF vs(1)] nth_mem [of i views] by (auto split: if_splits)
  let ?i = "cursor_slot (capacity cfg) (rg_head w)" and ?p2 = "p'\<lparr>pc_store := pc_store c'\<rparr>"
  have i: "?i < capacity cfg" using assms(4) by (simp add: cursor_slot_def)
  have small: "slot_size cfg + FRAME_HEADER_LEN < 2 ^ 32" using assms(2) by (simp add: producers_config_def)
  have pc: "pc_config ?p2 = cfg" using p'(5) by (simp add: handle_of_def)
  have r2: "mmap.ring (capacity cfg) (region_slot_len cfg) w2 views (pc_store ?p2)" using vs(1) by simp
  from mmap.send_fill_behind [OF r2 pc free [OF i] assms(14,15,16) small, of env] obtain p'' sq f where
    p'': "send_fill mmap_io env ?rs ?p2 = (Ok (), p'')"
      "mmap.ring (capacity cfg) (region_slot_len cfg) w2 (views[?i := committed_view sq f]) (pc_store p'')" by blast
  have "load_head mmap_io (pc_store p'') = load_tail mmap_io (pc_store p'')"
    using mmap.load_word [OF p''(2)] h2 by (simp add: load_head_def load_tail_def)
  moreover have "rg_tail w2 = rg_head w + 1"
    using c'(3) h2 p'(4) assms(18) by (simp add: word_unat_eq_iff unat_word_ariths)
  then have "load_tail mmap_io (pc_store p'') = Ok (rg_head w + 1)"
    using mmap.load_word [OF p''(2)] by (simp add: load_tail_def)
  moreover have "\<exists>sq n. read_header mmap_io ?i (pc_store p'') = Ok (Committed, sq, n)"
    using mmap.slot_state_at [OF p''(2) i] i at_ring_length [OF vs(1)] by (auto simp: committed_view_def)
  moreover have "fst (precv mmap_io env (c'\<lparr>pc_store := pc_store p''\<rparr>)) = ChanErr BufferEmpty"
  proof -
    let ?c2 = "c'\<lparr>pc_store := pc_store p''\<rparr>" and ?t = "unat (rg_tail w2) mod capacity cfg"
    have "unat (rg_tail w2) = unat (rg_head w) + 1" using c'(3) h2 p'(4) by simp
    then have "?t \<noteq> ?i"
      using mod_add_inj [of "unat (rg_head w)" 1 "capacity cfg" 0] assms(4) by (auto simp: cursor_slot_def)
    moreover have "?t < capacity cfg" using assms(4) by simp
    ultimately have at: "views[?i := committed_view sq f] ! ?t = free_view" using free by simp
    have r3: "mmap.ring (capacity cfg) (region_slot_len cfg) w2 (views[?i := committed_view sq f]) (pc_store ?c2)"
      using p''(2) by simp
    have "handle_of cfg ?c2" "\<not> pc_closed ?c2" using c'(4,5) by (simp_all add: handle_of_def)
    from mmap.receive_nothing [OF r3 h2 fl at this assms(2,3)] show ?thesis .
  qed
  ultimately show ?thesis using p'(1) c'(1) p''(1) by blast
qed

text \<open>The slots of the witness: the writer that is gone has left the first of three.\<close>

definition gone_writer :: writer_identity where
  "gone_writer = \<lparr>wi_pid = 9, wi_start_time = 1, wi_epoch = 0, wi_timestamp_ns = 0, wi_reserved_slots = 2\<rparr>"

lemma left_writing_at:
  assumes r: "mmap.ring 2 (region_slot_len pair_config) w [free_view, x] s"
  shows "\<exists>t v. mmap.ring 2 (region_slot_len pair_config) w [v, x] t \<and>
    read_header_full mmap_io 0 t = Ok \<lparr>sh_state = Writing, sh_seq = 0, sh_payload_len = 5, sh_identity = Some ident\<rparr>"
proof -
  let ?sz = "region_slot_len pair_config"
  let ?h = "encode_header Writing 0 5 (Some ident) True"
  let ?raw = "?h @ drop PERSISTENT_SLOT_HEADER_LEN (slot_raw ?sz 0 (mapped_mem s))"
  from mmap.write_identity_header_effect [OF mmap.ring_layout [OF r], of 0 Writing 0 5 ident] obtain t where
    t: "mmap.slot_set 2 ?sz 0 ?raw s t" by auto
  from mmap.ring_slot_set [OF r _ t] have r': "mmap.ring 2 ?sz w [raw_view ?raw, x] t" by simp
  note raw = mmap.slot_set_raw(1) [OF mmap.ring_layout [OF r] _ t]
  have "read_header_full mmap_io 0 t = Ok (slot_header ?raw)"
    using mmap.read_header_full_effect [OF mmap.ring_layout [OF r'], of 0] raw by simp
  moreover have "slot_header ?raw = \<lparr>sh_state = Writing, sh_seq = 0, sh_payload_len = 5, sh_identity = Some ident\<rparr>"
    using parse_encode_header [of Writing 0 5 "Some ident" True]
    by (simp add: slot_header_def PERSISTENT_SLOT_HEADER_LEN_def)
  ultimately show ?thesis using r' by metis
qed

lemma pair_region:
  "\<exists>t. mmap.ring 2 (region_slot_len pair_config) (empty_words\<lparr>rg_head := n\<rparr>) [free_view, free_view] t"
proof -
  from mapped_create [OF pair_fits, of 0 "\<lambda>_. undefined" True undefined 0] obtain a where
    a: "mmap.ring 2 (region_slot_len pair_config) empty_words (replicate 2 free_view) a" by auto
  from mmap.store_word [OF a, of CURSOR_HEAD_OFFSET n] show ?thesis by (auto simp: numeral_2_eq_2)
qed

lemma left_writing:
  "\<exists>t v. queued_slots mmap_io mapped_inv mapped_mem pair_config (empty_words\<lparr>rg_head := 1\<rparr>) [v] t \<and>
     read_header_full mmap_io 0 t = Ok \<lparr>sh_state = Writing, sh_seq = 0, sh_payload_len = 5, sh_identity = Some gone_writer\<rparr>"
proof -
  from pair_region obtain s where "mmap.ring 2 (region_slot_len pair_config) (empty_words\<lparr>rg_head := 1\<rparr>) [free_view, free_view] s"
    by blast
  from left_writing_at [OF this, of gone_writer] obtain t v where
    r: "mmap.ring 2 (region_slot_len pair_config) (empty_words\<lparr>rg_head := 1\<rparr>) [v, free_view] t"
      "read_header_full mmap_io 0 t = Ok \<lparr>sh_state = Writing, sh_seq = 0, sh_payload_len = 5, sh_identity = Some gone_writer\<rparr>"
    by blast
  then have "queued_slots mmap_io mapped_inv mapped_mem pair_config (empty_words\<lparr>rg_head := 1\<rparr>) [v] t"
    by (auto simp: queued_slots_def ring_window_def empty_words_def intro!: exI [of _ "[v, free_view]"])
  with r(2) show ?thesis by blast
qed

definition all_gone :: "mapped_slot_storage channel_env" where
  "all_gone = calm\<lparr>env_probe := (\<lambda>_. Ok None)\<rparr>"

theorem reclaim_takes_live_reservation_witness:
  "\<exists>(s :: mapped_slot_storage) p rs p' c' p''.
     send_reserve mmap_io all_gone 1 [5] p = (Ok (Some rs), p') \<and>
     precv mmap_io all_gone (p\<lparr>pc_store := pc_store p'\<rparr>) = (ChanErr BufferEmpty, c') \<and>
     send_fill mmap_io all_gone rs (p'\<lparr>pc_store := pc_store c'\<rparr>) = (Ok (), p'') \<and>
     fst (precv mmap_io all_gone (c'\<lparr>pc_store := pc_store p''\<rparr>)) = ChanErr BufferEmpty"
proof -
  from left_writing obtain s v where s: "queued_slots mmap_io mapped_inv mapped_mem pair_config (empty_words\<lparr>rg_head := 1\<rparr>) [v] s"
    "read_header_full mmap_io 0 s = Ok \<lparr>sh_state = Writing, sh_seq = 0, sh_payload_len = 5, sh_identity = Some gone_writer\<rparr>"
    by blast
  let ?p = "fresh_handle s pair_config undefined 0"
  have p: "handle_of pair_config ?p" "\<not> pc_closed ?p" "unat (pc_reclaimed_slots ?p) + 2 < 2 ^ 64" "?p\<lparr>pc_store := s\<rparr> = ?p"
    by (simp_all add: fresh_handle_def handle_of_def)
  have env: "quiet all_gone" by (simp add: all_gone_def quiet_def)
  have hd: "read_header_full mmap_io (unat (rg_tail (empty_words\<lparr>rg_head := 1\<rparr>)) mod capacity pair_config) s =
      Ok \<lparr>sh_state = Writing, sh_seq = 0, sh_payload_len = 5, sh_identity = Some gone_writer\<rparr>"
    using s(2) by (simp add: empty_words_def)
  have gone: "process_liveness (env_probe all_gone) \<lparr>pid = wi_pid gone_writer, start_time = wi_start_time gone_writer\<rparr> = Gone"
    "unat (wi_reserved_slots gone_writer) = 2"
    by (simp_all add: all_gone_def gone_writer_def process_liveness_def)
  have more: "2 \<le> capacity pair_config" "send_plan_of pair_config (length [5 :: byte]) = Ok \<lparr>chunk_payload_size = 4, needed_slots = 1\<rparr>"
    "length [5 :: byte] \<le> isize_max" "unat (rg_head (empty_words\<lparr>rg_head := 1\<rparr>)) + 1 < 2 ^ 64"
    by (simp_all add: isize_max_def)
  from reclaim_takes_live_reservation [OF s(1) pair_producers env more(1) p(1,2) p(1,2) hd _ _ gone(2,1) more(2) _ more(3) p(3) more(4), of 0] p(4)
  show ?thesis by (simp; blast)
qed

section \<open>A message behind a dead reservation\<close>

text \<open>Claim C12: a producer that dies once it has begun to write does not hold up the others. The slot at
  the tail is WRITING and names its writer and the extent of the reservation, whose other slots are
  still FREE; behind it is the complete message of another producer. When the writer is gone, one
  receive frees the slots of the reservation, moves the tail past them and returns that message, and
  what was queued after it stays queued. When the writer is alive, or nothing is known of it, the
  receive answers \<open>BufferEmpty\<close> and leaves the store as it was.\<close>

theorem dead_reservation_reclaimed:
  fixes c :: "mapped_slot_storage persistent_channel"
  assumes "queued_slots mmap_io mapped_inv mapped_mem cfg w (v # replicate k free_view @ map (committed_view sq) fs @ us) (pc_store c)"
    and "producers_config cfg" and "quiet env" and "handle_of cfg c" and "\<not> pc_closed c"
    and "read_header_full mmap_io (unat (rg_tail w) mod capacity cfg) (pc_store c) = Ok full" and "sh_state full = Writing"
    and "sh_identity full = Some ident" and "unat (wi_reserved_slots ident) = Suc k"
    and "unat (pc_reclaimed_slots c) + Suc k < 2 ^ 64"
    and "send_plan_of cfg (length m) = Ok plan" and "encode_message_frames (env_crc env) cfg plan sq m = Ok fs"
    and "length m \<le> isize_max"
  shows "if process_liveness (env_probe env) \<lparr>pid = wi_pid ident, start_time = wi_start_time ident\<rparr> = Gone
    then \<exists>d w'. precv mmap_io env c = (Ok m, d) \<and> queued_slots mmap_io mapped_inv mapped_mem cfg w' us (pc_store d) \<and>
      rg_head w' = rg_head w \<and> handle_of cfg d \<and> \<not> pc_closed d
    else \<exists>d. precv mmap_io env c = (ChanErr BufferEmpty, d) \<and> pc_store d = pc_store c"
proof -
  have q: "mmap.queued cfg w (v # replicate k free_view @ map (committed_view sq) fs @ us) (pc_store c)" using assms(1) by simp
  then have "0 < capacity cfg" using mmap.window_length(2) by (auto simp: queued_slots_def)
  note mf = encoded_message(2) [OF assms(11) this assms(13,12)]
  show ?thesis
  proof (cases "process_liveness (env_probe env) \<lparr>pid = wi_pid ident, start_time = wi_start_time ident\<rparr> = Gone")
    case True
    from mmap.receive_behind_extent(2) [OF q assms(4,5,2,3,6-9) True assms(10) refl mf assms(13)] True show ?thesis by simp
  next
    case False
    with mmap.receive_behind_live [OF q assms(4,5,2,3,6,7)] assms(8) show ?thesis by simp
  qed
qed

definition lone_gone_writer :: writer_identity where
  "lone_gone_writer = gone_writer\<lparr>wi_reserved_slots := 1\<rparr>"

theorem dead_reservation_reclaimed_witness:
  "\<exists>(c :: mapped_slot_storage persistent_channel) w v x full d.
     queued_slots mmap_io mapped_inv mapped_mem pair_config w [v, x] (pc_store c) \<and>
     read_header_full mmap_io 0 (pc_store c) = Ok full \<and> sh_state full = Writing \<and>
     precv mmap_io all_gone c = (Ok [5], d) \<and> fst (precv mmap_io calm c) = ChanErr BufferEmpty"
proof -
  let ?w = "empty_words\<lparr>rg_head := 2\<rparr>" and ?plan = "\<lparr>chunk_payload_size = 4, needed_slots = 1\<rparr>"
  let ?full = "\<lparr>sh_state = Writing, sh_seq = 0, sh_payload_len = 5, sh_identity = Some lone_gone_writer\<rparr>"
  have plan: "send_plan_of pair_config (length [5 :: byte]) = Ok ?plan" and m: "length [5 :: byte] \<le> isize_max"
    and cap: "0 < capacity pair_config"
    by (simp_all add: isize_max_def)
  from encode_message_frames_Ok [OF plan cap m, of "env_crc calm" 0] obtain fs where
    fs: "encode_message_frames (env_crc calm) pair_config ?plan 0 [5] = Ok fs" by metis
  note e = encoded_message [OF plan cap m fs]
  from e(1) obtain f where f: "fs = [f]" by (cases fs) auto
  have len: "length f \<le> region_slot_len pair_config - PERSISTENT_SLOT_HEADER_LEN" "length f < 2 ^ 32"
    using e(2) f by (simp_all add: message_frames_def FRAME_HEADER_LEN_def)
  from pair_region [of 2] obtain a where a: "mmap.ring 2 (region_slot_len pair_config) ?w [free_view, free_view] a" by blast
  from mmap.commit_slot [OF a, of 1 f 0 None] len obtain b where
    b: "mmap.ring 2 (region_slot_len pair_config) ?w [free_view, committed_view 0 f] b" by auto
  from left_writing_at [OF b, of lone_gone_writer] obtain s v where
    s: "mmap.ring 2 (region_slot_len pair_config) ?w [v, committed_view 0 f] s" "read_header_full mmap_io 0 s = Ok ?full" by blast
  let ?c = "fresh_handle s pair_config undefined 0"
  have c: "handle_of pair_config ?c" "\<not> pc_closed ?c" "unat (pc_reclaimed_slots ?c) + Suc 0 < 2 ^ 64" "pc_store ?c = s"
    by (simp_all add: fresh_handle_def handle_of_def)
  have q: "queued_slots mmap_io mapped_inv mapped_mem pair_config ?w [v, committed_view 0 f] s"
    using s(1) by (auto simp: queued_slots_def ring_window_def empty_words_def intro!: exI [of _ "[v, committed_view 0 f]"])
  then have q0: "queued_slots mmap_io mapped_inv mapped_mem pair_config ?w
      (v # replicate 0 free_view @ map (committed_view 0) fs @ []) (pc_store ?c)" using c(4) f by simp
  have hd: "read_header_full mmap_io (unat (rg_tail ?w) mod capacity pair_config) (pc_store ?c) = Ok ?full"
    using s(2) c(4) by (simp add: empty_words_def)
  have ext: "unat (wi_reserved_slots lone_gone_writer) = Suc 0" by (simp add: lone_gone_writer_def)
  have env: "quiet all_gone" "quiet calm" by (simp_all add: all_gone_def quiet_def)
  have crc: "env_crc all_gone = env_crc calm" by (simp add: all_gone_def)
  have gone: "process_liveness (env_probe all_gone) \<lparr>pid = 9, start_time = 1\<rparr> = Gone"
    by (simp add: all_gone_def process_liveness_def)
  have live: "process_liveness (env_probe calm) \<lparr>pid = 9, start_time = 1\<rparr> \<noteq> Gone"
    by (simp add: process_liveness_def)
  have ident: "wi_pid lone_gone_writer = 9" "wi_start_time lone_gone_writer = 1"
    by (simp_all add: lone_gone_writer_def gone_writer_def)
  note claim = dead_reservation_reclaimed [OF q0 pair_producers _ c(1,2) hd _ _ ext c(3) plan _ m, unfolded ident]
  from claim [OF env(1)] gone fs crc ident obtain d where d: "precv mmap_io all_gone ?c = (Ok [5], d)" by auto
  from claim [OF env(2)] live fs ident have "fst (precv mmap_io calm ?c) = ChanErr BufferEmpty" by auto
  with d q s(2) c(4) show ?thesis by (intro exI [of _ ?c] exI [of _ ?w] exI [of _ v] exI [of _ "committed_view 0 f"]) auto
qed

end
