(* ===== verification/Float64.thy ===== *)
theory Float64
  imports Text Complex_Main
begin

text \<open>
  The \<open>f64\<close> of the expression engine: IEEE binary64 values with the arithmetic, comparisons,
  decimal parser and decimal printer the source uses (\<open>crates/dsline-ops/src/lib.rs\<close>). Arithmetic
  computes the exact rational result and rounds it to nearest, ties to even. The payload and the
  sign of a NaN are not kept.
\<close>

section \<open>Values\<close>

text \<open>\<open>Finite s m e\<close> is \<open>m * 2 ^ e\<close>, negated when \<open>s\<close>.\<close>

datatype f64 = NaN | Infinite bool | Finite bool nat int

definition min_exponent :: int where
  "min_exponent = -1074"

definition max_exponent :: int where
  "max_exponent = 971"

text \<open>The canonical representations: normal numbers have 53 significant bits, subnormal ones and
  zero the least exponent.\<close>

fun is_f64 :: "f64 \<Rightarrow> bool" where
  "is_f64 (Finite s m e) \<longleftrightarrow>
     m < 2 ^ 53 \<and> min_exponent \<le> e \<and> e \<le> max_exponent \<and> (m < 2 ^ 52 \<longrightarrow> e = min_exponent)"
| "is_f64 _ \<longleftrightarrow> True"

section \<open>Rounding\<close>

text \<open>Quotient rounded to the nearest integer, ties to even.\<close>

definition round_div :: "nat \<Rightarrow> nat \<Rightarrow> nat" where
  "round_div n d =
     (let q = n div d; r = n mod d in
      if 2 * r < d then q else if d < 2 * r then q + 1 else if even q then q else q + 1)"

fun bit_length :: "nat \<Rightarrow> nat" where
  "bit_length n = (if n = 0 then 0 else Suc (bit_length (n div 2)))"

declare bit_length.simps [simp del]

text \<open>\<open>n / d\<close> divided by \<open>2 ^ e\<close>, as numerator and denominator.\<close>

definition scale2 :: "int \<Rightarrow> nat \<Rightarrow> nat \<Rightarrow> nat \<times> nat" where
  "scale2 e n d = (if 0 \<le> e then (n, d * 2 ^ nat e) else (n * 2 ^ nat (- e), d))"

text \<open>The \<open>k\<close> with \<open>2 ^ k \<le> n / d < 2 ^ (k + 1)\<close>.\<close>

definition log2_floor :: "nat \<Rightarrow> nat \<Rightarrow> int" where
  "log2_floor n d =
     (let k = int (bit_length n) - int (bit_length d) in
      case scale2 k n d of (a, b) \<Rightarrow> if b \<le> a then k else k - 1)"

definition round_f64 :: "bool \<Rightarrow> nat \<Rightarrow> nat \<Rightarrow> f64" where
  "round_f64 s n d =
     (if n = 0 then Finite s 0 min_exponent
      else
        let e = max min_exponent (log2_floor n d - 52);
            m = (case scale2 e n d of (a, b) \<Rightarrow> round_div a b) in
        if m = 2 ^ 53
        then (if e + 1 \<le> max_exponent then Finite s (2 ^ 52) (e + 1) else Infinite s)
        else if e \<le> max_exponent then Finite s m e else Infinite s)"

section \<open>Arithmetic\<close>

text \<open>The exact value of a finite number as a signed numerator over a power of two.\<close>

definition signed :: "bool \<Rightarrow> nat \<Rightarrow> int" where
  "signed s m = (if s then - int m else int m)"

definition f64_zero :: f64 where "f64_zero = Finite False 0 min_exponent"
definition f64_one :: f64 where "f64_one = Finite False (2 ^ 52) (-52)"
definition f64_epsilon :: f64 where "f64_epsilon = Finite False (2 ^ 52) (-104)"

fun f64_neg :: "f64 \<Rightarrow> f64" where
  "f64_neg NaN = NaN"
| "f64_neg (Infinite s) = Infinite (\<not> s)"
| "f64_neg (Finite s m e) = Finite (\<not> s) m e"

fun f64_abs :: "f64 \<Rightarrow> f64" where
  "f64_abs NaN = NaN"
| "f64_abs (Infinite s) = Infinite False"
| "f64_abs (Finite s m e) = Finite False m e"

text \<open>The sum of \<open>a * 2 ^ e\<close> and \<open>b * 2 ^ e'\<close> over the smaller exponent; a zero sum of two
  different signs is positive.\<close>

definition align :: "int \<Rightarrow> int \<Rightarrow> int \<Rightarrow> int" where
  "align a e e0 = a * 2 ^ nat (e - e0)"

definition round_scaled :: "bool \<Rightarrow> nat \<Rightarrow> int \<Rightarrow> f64" where
  "round_scaled s m e = (case scale2 (- e) m 1 of (a, b) \<Rightarrow> round_f64 s a b)"

fun f64_add :: "f64 \<Rightarrow> f64 \<Rightarrow> f64" where
  "f64_add NaN y = NaN"
| "f64_add (Infinite s) y =
     (case y of NaN \<Rightarrow> NaN | Infinite t \<Rightarrow> if s = t then Infinite s else NaN | Finite _ _ _ \<Rightarrow> Infinite s)"
| "f64_add (Finite s m e) y =
     (case y of
        NaN \<Rightarrow> NaN
      | Infinite t \<Rightarrow> Infinite t
      | Finite t n e' \<Rightarrow>
          let e0 = min e e'; v = align (signed s m) e e0 + align (signed t n) e' e0 in
          if v = 0 then Finite (s \<and> t) 0 min_exponent
          else round_scaled (v < 0) (nat \<bar>v\<bar>) e0)"

definition f64_sub :: "f64 \<Rightarrow> f64 \<Rightarrow> f64" where
  "f64_sub x y = f64_add x (f64_neg y)"

fun f64_mul :: "f64 \<Rightarrow> f64 \<Rightarrow> f64" where
  "f64_mul (Finite s m e) (Finite t n e') = round_scaled (s \<noteq> t) (m * n) (e + e')"
| "f64_mul (Infinite s) (Infinite t) = Infinite (s \<noteq> t)"
| "f64_mul (Infinite s) (Finite t n e) = (if n = 0 then NaN else Infinite (s \<noteq> t))"
| "f64_mul (Finite s m e) (Infinite t) = (if m = 0 then NaN else Infinite (s \<noteq> t))"
| "f64_mul _ _ = NaN"

fun f64_div :: "f64 \<Rightarrow> f64 \<Rightarrow> f64" where
  "f64_div (Finite s m e) (Finite t n e') =
     (if n = 0 then (if m = 0 then NaN else Infinite (s \<noteq> t))
      else case scale2 (e' - e) m n of (a, b) \<Rightarrow> round_f64 (s \<noteq> t) a b)"
| "f64_div (Infinite s) (Finite t n e) = Infinite (s \<noteq> t)"
| "f64_div (Finite s m e) (Infinite t) = Finite (s \<noteq> t) 0 min_exponent"
| "f64_div _ _ = NaN"

section \<open>Comparisons\<close>

fun f64_le :: "f64 \<Rightarrow> f64 \<Rightarrow> bool" where
  "f64_le (Finite s m e) (Finite t n e') \<longleftrightarrow>
     (let e0 = min e e' in align (signed s m) e e0 \<le> align (signed t n) e' e0)"
| "f64_le (Infinite s) (Infinite t) \<longleftrightarrow> s \<or> \<not> t"
| "f64_le (Infinite s) (Finite _ _ _) \<longleftrightarrow> s"
| "f64_le (Finite _ _ _) (Infinite t) \<longleftrightarrow> \<not> t"
| "f64_le _ _ \<longleftrightarrow> False"

text \<open>\<open>==\<close>, \<open><\<close>, \<open>>\<close> and \<open>>=\<close>; all are false when an operand is a NaN.\<close>

definition f64_eq :: "f64 \<Rightarrow> f64 \<Rightarrow> bool" where
  "f64_eq x y \<longleftrightarrow> f64_le x y \<and> f64_le y x"

definition f64_lt :: "f64 \<Rightarrow> f64 \<Rightarrow> bool" where
  "f64_lt x y \<longleftrightarrow> f64_le x y \<and> \<not> f64_le y x"

fun is_finite :: "f64 \<Rightarrow> bool" where
  "is_finite (Finite s m e) = True"
| "is_finite _ = False"

text \<open>\<open>trunc\<close>: towards zero, the sign kept.\<close>

fun f64_trunc :: "f64 \<Rightarrow> f64" where
  "f64_trunc (Finite s m e) =
     (if 0 \<le> e then Finite s m e else round_scaled s (m div 2 ^ nat (- e)) 0)"
| "f64_trunc x = x"

section \<open>Decimal text\<close>

text \<open>The decimal \<open>n * 10 ^ k\<close>.\<close>

definition of_decimal :: "bool \<Rightarrow> nat \<Rightarrow> int \<Rightarrow> f64" where
  "of_decimal s n k = (if 0 \<le> k then round_f64 s (n * 10 ^ nat k) 1 else round_f64 s n (10 ^ nat (- k)))"

text \<open>\<open>str::parse::<f64>\<close>: an optional sign, then \<open>inf\<close>, \<open>infinity\<close> or \<open>nan\<close> in any case, or
  digits with at most one point and at least one digit, then an optional exponent.\<close>

definition to_lower :: "char \<Rightarrow> char" where
  "to_lower c = (if 65 \<le> (of_char c :: nat) \<and> (of_char c :: nat) \<le> 90 then char_of (of_char c + 32 :: nat) else c)"

definition parse_exponent :: "string \<Rightarrow> int option" where
  "parse_exponent s =
     (let neg = (s \<noteq> [] \<and> hd s = CHR ''-'');
          ds = (if s \<noteq> [] \<and> (hd s = CHR ''-'' \<or> hd s = CHR ''+'') then tl s else s) in
      if ds = [] \<or> \<not> list_all is_digit ds then None
      else Some (if neg then - int (digits_value ds) else int (digits_value ds)))"

definition parse_mantissa :: "string \<Rightarrow> (nat \<times> int) option" where
  "parse_mantissa s =
     (let (a, b) = (case split_once ''.'' s of Some p \<Rightarrow> p | None \<Rightarrow> (s, [])) in
      if a @ b = [] \<or> \<not> list_all is_digit (a @ b) then None
      else Some (digits_value (a @ b), - int (length b)))"

definition parse_number :: "bool \<Rightarrow> string \<Rightarrow> f64 option" where
  "parse_number s str =
     (let mant = takeWhile (\<lambda>c. to_lower c \<noteq> CHR ''e'') str;
          rest = dropWhile (\<lambda>c. to_lower c \<noteq> CHR ''e'') str in
      case parse_mantissa mant of
        None \<Rightarrow> None
      | Some (n, k) \<Rightarrow>
          (case rest of
             [] \<Rightarrow> Some (of_decimal s n k)
           | _ # ex \<Rightarrow> map_option (\<lambda>x. of_decimal s n (k + x)) (parse_exponent ex)))"

definition parse_f64 :: "string \<Rightarrow> f64 option" where
  "parse_f64 str =
     (let neg = (str \<noteq> [] \<and> hd str = CHR ''-'');
          body = (if str \<noteq> [] \<and> (hd str = CHR ''-'' \<or> hd str = CHR ''+'') then tl str else str);
          word = map to_lower body in
      if word = ''inf'' \<or> word = ''infinity'' then Some (Infinite neg)
      else if word = ''nan'' then Some NaN
      else parse_number neg body)"

text \<open>The printer. An integer is printed exactly; otherwise the shortest decimal that parses back
  to the value, the nearest one of that length, without exponent.\<close>

definition decimal_point :: "nat \<Rightarrow> nat \<Rightarrow> string" where
  "decimal_point n places =
     (let ds = show_nat n; z = replicate (Suc places - length ds) (CHR ''0'') @ ds in
      take (length z - places) z @ ''.'' @ drop (length z - places) z)"

text \<open>The two decimals with \<open>places\<close> fractional digits next to \<open>m / 2 ^ b\<close>; the nearer one that
  rounds back, if any.\<close>

definition decimal_candidate :: "nat \<Rightarrow> nat \<Rightarrow> nat \<Rightarrow> f64 \<Rightarrow> nat option" where
  "decimal_candidate m b places v =
     (let lo = m * 10 ^ places div 2 ^ b; near = round_div (m * 10 ^ places) (2 ^ b);
          far = (if near = lo then Suc lo else lo) in
      if of_decimal False near (- int places) = v then Some near
      else if of_decimal False far (- int places) = v then Some far
      else None)"

fun shortest_decimal :: "nat \<Rightarrow> nat \<Rightarrow> nat \<Rightarrow> nat \<Rightarrow> f64 \<Rightarrow> (nat \<times> nat) option" where
  "shortest_decimal 0 m b places v = None"
| "shortest_decimal (Suc fuel) m b places v =
     (case decimal_candidate m b places v of
        Some n \<Rightarrow> Some (n, places)
      | None \<Rightarrow> shortest_decimal fuel m b (Suc places) v)"

fun show_f64 :: "f64 \<Rightarrow> string" where
  "show_f64 NaN = ''NaN''"
| "show_f64 (Infinite s) = (if s then ''-inf'' else ''inf'')"
| "show_f64 (Finite s m e) =
     (if s then ''-'' else []) @
     (if 0 \<le> e then show_nat (m * 2 ^ nat e)
      else if m mod 2 ^ nat (- e) = 0 then show_nat (m div 2 ^ nat (- e))
      else case shortest_decimal 1075 m (nat (- e)) 1 (Finite False m e) of
        Some (n, places) \<Rightarrow> decimal_point n places
      | None \<Rightarrow> [])"

text \<open>\<open>{v:.0}\<close> of an integral value.\<close>

fun show_f64_integral :: "f64 \<Rightarrow> string" where
  "show_f64_integral (Finite s m e) =
     (if s then ''-'' else []) @ show_nat (if 0 \<le> e then m * 2 ^ nat e else m div 2 ^ nat (- e))"
| "show_f64_integral x = show_f64 x"

section \<open>Exactness of rounding\<close>

definition f64_value :: "nat \<Rightarrow> int \<Rightarrow> real" where
  "f64_value m e = real m * 2 powi e"

lemma scale2_value:
  assumes "scale2 e n d = (a, b)" "0 < d"
  shows "0 < b" "real a / real b = real n / real d / 2 powi e"
  using assms
  by (auto simp: scale2_def power_int_def field_simps split: if_splits)

lemma round_div_exact: "0 < d \<Longrightarrow> round_div (q * d) d = q"
  by (simp add: round_div_def)

lemma bit_length_bounds: "0 < n \<Longrightarrow> 2 ^ (bit_length n - 1) \<le> n \<and> n < 2 ^ bit_length n \<and> 0 < bit_length n"
proof (induction n rule: bit_length.induct)
  case (1 n)
  show ?case
  proof (cases "n = 1")
    case True
    then show ?thesis by (simp add: bit_length.simps)
  next
    case False
    with 1 have pos: "0 < n div 2" by auto
    with 1 have IH: "2 ^ (bit_length (n div 2) - 1) \<le> n div 2" "n div 2 < 2 ^ bit_length (n div 2)"
      "0 < bit_length (n div 2)" by auto
    then obtain k where k: "bit_length (n div 2) = Suc k" using gr0_conv_Suc by blast
    have "bit_length n = Suc (Suc k)" using 1 k by (simp add: bit_length.simps [of n])
    with IH k show ?thesis by auto
  qed
qed

lemma log2_floor_bounds:
  assumes "0 < n" "0 < d"
  shows "2 powi log2_floor n d \<le> real n / real d" "real n / real d < 2 powi (log2_floor n d + 1)"
proof -
  define k where "k = int (bit_length n) - int (bit_length d)"
  obtain a b where ab: "scale2 k n d = (a, b)" by (cases "scale2 k n d")
  note v = scale2_value [OF ab assms(2)]
  have n: "2 powi (int (bit_length n) - 1) \<le> real n" "real n < 2 powi int (bit_length n)"
  proof -
    have "2 powi (int (bit_length n) - 1) = real (2 ^ (bit_length n - 1))"
      using bit_length_bounds [OF assms(1)] by (simp add: power_int_def nat_diff_distrib)
    also have "\<dots> \<le> real n" using bit_length_bounds [OF assms(1)] by (metis of_nat_le_iff)
    finally show "2 powi (int (bit_length n) - 1) \<le> real n" .
    have "real n < real (2 ^ bit_length n)" using bit_length_bounds [OF assms(1)] by (metis of_nat_less_iff)
    then show "real n < 2 powi int (bit_length n)" by simp
  qed
  have d: "2 powi (int (bit_length d) - 1) \<le> real d" "real d < 2 powi int (bit_length d)"
  proof -
    have "2 powi (int (bit_length d) - 1) = real (2 ^ (bit_length d - 1))"
      using bit_length_bounds [OF assms(2)] by (simp add: power_int_def nat_diff_distrib)
    also have "\<dots> \<le> real d" using bit_length_bounds [OF assms(2)] by (metis of_nat_le_iff)
    finally show "2 powi (int (bit_length d) - 1) \<le> real d" .
    have "real d < real (2 ^ bit_length d)" using bit_length_bounds [OF assms(2)] by (metis of_nat_less_iff)
    then show "real d < 2 powi int (bit_length d)" by simp
  qed
  have lower: "2 powi (k - 1) \<le> real n / real d"
  proof -
    have "2 powi (k - 1) * real d \<le> 2 powi (k - 1) * 2 powi int (bit_length d)"
      using d(2) by (intro mult_left_mono) auto
    also have "\<dots> = 2 powi (int (bit_length n) - 1)"
      by (simp add: k_def power_int_add [symmetric] del: power_int_of_nat)
    also have "\<dots> \<le> real n" by (rule n(1))
    finally show ?thesis using assms(2) by (simp add: field_simps)
  qed
  have upper: "real n / real d < 2 powi (k + 1)"
  proof -
    have "real n < 2 powi int (bit_length n)" by (rule n(2))
    also have "\<dots> = 2 powi (k + 1) * 2 powi (int (bit_length d) - 1)"
      by (simp add: k_def power_int_add [symmetric] del: power_int_of_nat)
    also have "\<dots> \<le> 2 powi (k + 1) * real d" using d(1) by (intro mult_left_mono) auto
    finally show ?thesis using assms(2) by (simp add: field_simps)
  qed
  have L: "log2_floor n d = (if b \<le> a then k else k - 1)"
    unfolding log2_floor_def Let_def k_def [symmetric] by (simp add: ab)
  have "b \<le> a \<longleftrightarrow> 1 \<le> real a / real b" using v(1) by simp
  also have "\<dots> \<longleftrightarrow> 1 \<le> real n / real d / 2 powi k" using v(2) by simp
  also have "\<dots> \<longleftrightarrow> 2 powi k \<le> real n / real d" using assms(2) by (simp add: le_divide_eq mult.commute)
  finally have c: "b \<le> a \<longleftrightarrow> 2 powi k \<le> real n / real d" .
  show "2 powi log2_floor n d \<le> real n / real d" using L c lower by auto
  show "real n / real d < 2 powi (log2_floor n d + 1)" using L c upper by auto
qed

lemma powi_between_unique:
  fixes x :: real
  assumes "2 powi i \<le> x" "x < 2 powi (j + 1)"
  shows "i \<le> j"
proof (rule ccontr)
  assume "\<not> i \<le> j"
  then have "j + 1 \<le> i" by simp
  then have "(2::real) powi (j + 1) \<le> 2 powi i" by (rule power_int_increasing) simp
  with assms show False by simp
qed

text \<open>A representable value is rounded to itself.\<close>

lemma round_f64_exact:
  assumes f: "is_f64 (Finite s m e)" and d: "0 < d" and v: "real n / real d = f64_value m e"
  shows "round_f64 s n d = Finite s m e"
proof (cases "m = 0")
  case True
  with v d have "n = 0" by (simp add: f64_value_def)
  with True f show ?thesis by (auto simp: round_f64_def)
next
  case False
  have pos: "0 < f64_value m e" using False by (simp add: f64_value_def)
  have n0: "0 < n"
  proof (rule ccontr)
    assume "\<not> 0 < n"
    with v pos show False by simp
  qed
  define L where "L = log2_floor n d"
  note Lb = log2_floor_bounds [OF n0 d, folded L_def, unfolded v]
  have upper: "L \<le> e + 52"
  proof (rule powi_between_unique [OF Lb(1)])
    have "real m < real (2 ^ 53)" using f by (metis is_f64.simps(1) of_nat_less_iff)
    then have "real m < 2 powi 53" by simp
    then have "f64_value m e < 2 powi 53 * 2 powi e" by (simp add: f64_value_def)
    then show "f64_value m e < 2 powi (e + 52 + 1)" by (simp add: power_int_add mult.commute)
  qed
  have e': "max min_exponent (L - 52) = e"
  proof (cases "m < 2 ^ 52")
    case True
    with f upper show ?thesis by auto
  next
    case False
    have "real (2 ^ 52) \<le> real m" using False by (metis of_nat_le_iff not_less)
    then have "2 powi 52 * 2 powi e \<le> f64_value m e" by (simp add: f64_value_def)
    then have "2 powi (e + 52) \<le> f64_value m e" by (simp add: power_int_add mult.commute)
    from powi_between_unique [OF this Lb(2)] upper f show ?thesis by auto
  qed
  obtain a b where ab: "scale2 e n d = (a, b)" by (cases "scale2 e n d")
  note w = scale2_value [OF ab d]
  have "real a / real b = real m" using w(2) v by (simp add: f64_value_def)
  then have "real a = real (m * b)" using w(1) by (simp add: field_simps)
  then have am: "a = m * b" by (metis of_nat_eq_iff)
  have "round_div a b = m" using am round_div_exact w(1) by simp
  with n0 e' ab f show ?thesis
    by (simp add: round_f64_def L_def [symmetric] Let_def)
qed

section \<open>Printing and parsing\<close>

lemma ten_power: "m * 10 ^ k = (m * 5 ^ k) * (2 ^ k :: nat)"
  using power_mult_distrib [of 5 "2::nat" k] by simp

lemma round_candidate_exact:
  assumes f: "is_f64 (Finite False m e)" and e: "e < 0"
  shows "of_decimal False (m * 10 ^ nat (- e) div 2 ^ nat (- e)) (- int (nat (- e))) = Finite False m e"
proof -
  define k where "k = nat (- e)"
  have ek: "e = - int k" "0 < k" using e by (simp_all add: k_def)
  have q: "m * 10 ^ k div 2 ^ k = m * 5 ^ k" by (simp only: ten_power) simp
  have "real (m * 5 ^ k) / real (10 ^ k) = real m * (5 / 10) ^ k"
    by (simp only: power_divide of_nat_mult of_nat_power of_nat_numeral times_divide_eq_right)
  also have "\<dots> = real m / 2 ^ k" by (simp add: power_divide)
  also have "\<dots> = f64_value m e" using ek by (simp add: f64_value_def power_int_minus divide_inverse)
  finally have v: "real (m * 5 ^ k) / real (10 ^ k) = f64_value m e" .
  show ?thesis unfolding k_def [symmetric] q
    using round_f64_exact [OF f _ v] ek by (simp add: of_decimal_def)
qed

lemma shortest_decimal_Some:
  "shortest_decimal fuel m b places v = Some (n, p) \<Longrightarrow> of_decimal False n (- int p) = v \<and> places \<le> p"
proof (induction fuel m b places v rule: shortest_decimal.induct)
  case (2 fuel m b places v)
  show ?case
  proof (cases "decimal_candidate m b places v")
    case None
    with 2 show ?thesis by auto
  next
    case (Some k)
    with 2 have "k = n" "places = p" by auto
    with Some show ?thesis by (auto simp: decimal_candidate_def Let_def split: if_splits)
  qed
qed simp

lemma shortest_decimal_found:
  assumes f: "is_f64 (Finite False m e)" and e: "e < 0"
  shows "places \<le> nat (- e) \<Longrightarrow> nat (- e) < places + fuel \<Longrightarrow>
         shortest_decimal fuel m (nat (- e)) places (Finite False m e) \<noteq> None"
proof (induction fuel arbitrary: places)
  case 0
  then show ?case by simp
next
  case (Suc fuel)
  show ?case
  proof (cases "places = nat (- e)")
    case True
    define k where "k = nat (- e)"
    have "round_div (m * 10 ^ k) (2 ^ k) = m * 5 ^ k" unfolding ten_power by (rule round_div_exact) simp
    moreover have "m * 10 ^ k div 2 ^ k = m * 5 ^ k" unfolding ten_power by simp
    ultimately have "decimal_candidate m k k (Finite False m e) = Some (m * 5 ^ k)"
      using round_candidate_exact [OF f e, folded k_def] by (simp add: decimal_candidate_def)
    then show ?thesis using True by (simp add: k_def)
  next
    case False
    with Suc.prems have "Suc places \<le> nat (- e)" "nat (- e) < Suc places + fuel" by auto
    with Suc.IH [of "Suc places"] show ?thesis by (simp split: option.split)
  qed
qed

text \<open>Text of digits and at most one point.\<close>

lemma digit_lower:
  assumes "is_digit c \<or> c = CHR ''.''"
  shows "to_lower c = c" "c \<noteq> CHR ''e''" "c \<noteq> CHR ''i''" "c \<noteq> CHR ''n''" "c \<noteq> CHR ''-''" "c \<noteq> CHR ''+''"
  using assms by (auto simp: to_lower_def is_digit_def)

lemma parse_f64_number:
  assumes "str \<noteq> []" and c: "\<forall>c \<in> set str. is_digit c \<or> c = CHR ''.''"
    and p: "parse_mantissa str = Some (n, k)"
  shows "parse_f64 str = Some (of_decimal False n k)"
proof -
  obtain x xs where t: "str = x # xs" using assms(1) by (cases str) auto
  have "\<And>c. c \<in> set str \<Longrightarrow> to_lower c = c" using c digit_lower(1) by blast
  then have low: "map to_lower str = str" by (rule map_idI)
  have x: "x \<noteq> CHR ''-''" "x \<noteq> CHR ''+''" "x \<noteq> CHR ''i''" "x \<noteq> CHR ''n''"
    using c t digit_lower [of x] by auto
  have "to_lower c \<noteq> CHR ''e''" if "c \<in> set str" for c
    using c that digit_lower [of c] by auto
  then have "takeWhile (\<lambda>c. to_lower c \<noteq> CHR ''e'') str = str" "dropWhile (\<lambda>c. to_lower c \<noteq> CHR ''e'') str = []"
    by simp_all
  then show ?thesis using low x t p by (simp add: parse_f64_def parse_number_def)
qed

lemma parse_f64_show_nat: "parse_f64 (show_nat n) = Some (round_f64 False n 1)"
proof -
  have dg: "\<forall>c \<in> set (show_nat n). is_digit c" using show_nat_chars by blast
  then have "CHR ''.'' \<notin> set (show_nat n)" by (auto simp: is_digit_def)
  then have "split_once ''.'' (show_nat n) = None" by (simp add: split_once_char_None)
  then have "parse_mantissa (show_nat n) = Some (n, 0)"
    using show_nat_digits [of n] by (simp add: parse_mantissa_def)
  from parse_f64_number [OF _ _ this] dg show ?thesis by (simp add: of_decimal_def)
qed

lemma digits_value_zeros: "digits_value (replicate k (CHR ''0'') @ ds) = digits_value ds"
  by (induction k) (simp_all add: digits_value_def digit_value_def)

lemma decimal_point_parts:
  assumes "0 < places"
  obtains A B where "decimal_point n places = A @ ''.'' @ B" "list_all is_digit (A @ B)" "A @ B \<noteq> []"
    "digits_value (A @ B) = n" "length B = places" "A \<noteq> []"
proof -
  define z where "z = replicate (Suc places - length (show_nat n)) (CHR ''0'') @ show_nat n"
  have len: "places < length z" by (simp add: z_def)
  have "is_digit (CHR ''0'')" by (simp add: is_digit_def)
  then have dg: "list_all is_digit z" using show_nat_digits [of n] by (auto simp: z_def list_all_iff)
  have val: "digits_value z = n" using show_nat_digits [of n] by (simp add: z_def digits_value_zeros)
  show ?thesis
  proof (rule that [of "take (length z - places) z" "drop (length z - places) z"])
    show "decimal_point n places = take (length z - places) z @ ''.'' @ drop (length z - places) z"
      by (simp add: decimal_point_def z_def Let_def)
  qed (use dg val len in auto)
qed

lemma parse_f64_decimal_point:
  assumes "0 < places"
  shows "parse_f64 (decimal_point n places) = Some (of_decimal False n (- int places))"
proof -
  obtain A B where p: "decimal_point n places = A @ ''.'' @ B" "list_all is_digit (A @ B)" "A @ B \<noteq> []"
    "digits_value (A @ B) = n" "length B = places" using decimal_point_parts [OF assms] by metis
  have "\<not> is_digit (CHR ''.'')" by (simp add: is_digit_def)
  then have "CHR ''.'' \<notin> set A" using p(2) by (auto simp: list_all_iff)
  then have "split_once ''.'' (A @ ''.'' @ B) = Some (A, B)" using split_once_char by simp
  then have "parse_mantissa (A @ ''.'' @ B) = Some (n, - int places)"
    using p by (simp add: parse_mantissa_def)
  from parse_f64_number [OF _ _ this] p(2) show ?thesis by (auto simp: p(1) list_all_iff)
qed

lemma show_integral_value:
  assumes f: "is_f64 (Finite False m e)" and i: "e < 0 \<Longrightarrow> 2 ^ nat (- e) dvd m"
  shows "parse_f64 (show_f64_integral (Finite False m e)) = Some (Finite False m e)"
proof -
  define q where "q = (if 0 \<le> e then m * 2 ^ nat e else m div 2 ^ nat (- e))"
  have "real q / real 1 = f64_value m e"
  proof (cases "0 \<le> e")
    case True
    then show ?thesis by (simp add: q_def f64_value_def power_int_def)
  next
    case False
    then show ?thesis using i
      by (simp add: q_def f64_value_def power_int_def real_of_nat_div field_simps)
  qed
  from round_f64_exact [OF f _ this] show ?thesis by (simp add: q_def parse_f64_show_nat)
qed

text \<open>Parsing what \<open>show_f64\<close> prints gives the number back.\<close>

lemma parse_show_f64:
  assumes f: "is_f64 (Finite False m e)"
  shows "parse_f64 (show_f64 (Finite False m e)) = Some (Finite False m e)"
proof (cases "0 \<le> e \<or> m mod 2 ^ nat (- e) = 0")
  case True
  then have "show_f64 (Finite False m e) = show_f64_integral (Finite False m e)" by auto
  then show ?thesis using show_integral_value [OF f] True by (auto simp: mod_eq_0_iff_dvd)
next
  case False
  have "nat (- e) < 1 + 1075" "1 \<le> nat (- e)" using f False by (auto simp: min_exponent_def)
  with shortest_decimal_found [OF f, of 1 1075] False
  obtain n p where s: "shortest_decimal 1075 m (nat (- e)) 1 (Finite False m e) = Some (n, p)" by fastforce
  from shortest_decimal_Some [OF s] have "of_decimal False n (- int p) = Finite False m e" "1 \<le> p" by simp_all
  then show ?thesis using parse_f64_decimal_point [of p n] False s by simp
qed

section \<open>Comparisons against the exact values\<close>

lemma align_value:
  assumes "e0 \<le> e"
  shows "real_of_int (align a e e0) * 2 powi e0 = real_of_int a * 2 powi e"
proof -
  have "(2::real) powi e = 2 powi (e - e0) * 2 powi e0" using power_int_add [of "2::real" "e - e0" e0] by simp
  also have "(2::real) powi (e - e0) = 2 ^ nat (e - e0)" using assms by (simp add: power_int_def)
  finally show ?thesis by (simp add: align_def)
qed

lemma f64_le_value:
  "f64_le (Finite s m e) (Finite t n e') \<longleftrightarrow>
   real_of_int (signed s m) * 2 powi e \<le> real_of_int (signed t n) * 2 powi e'"
proof -
  define e0 where "e0 = min e e'"
  have "f64_le (Finite s m e) (Finite t n e') \<longleftrightarrow>
      real_of_int (align (signed s m) e e0) \<le> real_of_int (align (signed t n) e' e0)"
    by (simp add: e0_def Let_def)
  also have "\<dots> \<longleftrightarrow> real_of_int (align (signed s m) e e0) * 2 powi e0
      \<le> real_of_int (align (signed t n) e' e0) * 2 powi e0" by simp
  also have "\<dots> \<longleftrightarrow> real_of_int (signed s m) * 2 powi e \<le> real_of_int (signed t n) * 2 powi e'"
    by (simp add: align_value e0_def)
  finally show ?thesis .
qed

lemma f64_eq_value:
  "f64_eq (Finite s m e) (Finite t n e') \<longleftrightarrow>
   real_of_int (signed s m) * 2 powi e = real_of_int (signed t n) * 2 powi e'"
  unfolding f64_eq_def f64_le_value by auto

lemma round_small_integer:
  assumes "q < 2 ^ 53"
  obtains m e where "round_f64 s q 1 = Finite s m e" "f64_value m e = real q"
proof (cases "q = 0")
  case True
  then show ?thesis using that [of 0 min_exponent] by (simp add: round_f64_def f64_value_def)
next
  case False
  define j where "j = 53 - bit_length q"
  note b = bit_length_bounds [of q]
  have "2 ^ (bit_length q - 1) < (2 :: nat) ^ 53" using b False assms by auto
  then have "bit_length q - 1 < 53" using power_less_imp_less_exp by (metis one_less_numeral_iff semiring_norm(76))
  then have L: "bit_length q \<le> 53" by simp
  have "q * 2 ^ j < 2 ^ bit_length q * 2 ^ j" using b False by simp
  then have upper: "q * 2 ^ j < 2 ^ 53" using L by (simp add: j_def flip: power_add)
  have "2 ^ (bit_length q - 1) * 2 ^ j \<le> q * 2 ^ j" using b False by simp
  then have lower: "2 ^ 52 \<le> q * 2 ^ j" using L b False by (simp add: j_def flip: power_add)
  have f: "is_f64 (Finite s (q * 2 ^ j) (- int j))"
    using upper lower by (auto simp: min_exponent_def max_exponent_def j_def)
  have v: "f64_value (q * 2 ^ j) (- int j) = real q"
    by (simp add: f64_value_def power_int_minus)
  have "round_f64 s q 1 = Finite s (q * 2 ^ j) (- int j)"
    by (rule round_f64_exact [OF f]) (simp, simp only: v of_nat_1 div_by_1)
  with v that show ?thesis by blast
qed

text \<open>A number equal to its truncation is an integer.\<close>

lemma trunc_eq_integral:
  assumes f: "is_f64 (Finite s m e)" and e: "e < 0" and t: "f64_eq (Finite s m e) (f64_trunc (Finite s m e))"
  shows "2 ^ nat (- e) dvd m"
proof -
  define k where "k = nat (- e)"
  define q where "q = m div 2 ^ k"
  have ek: "e = - int k" using e by (simp add: k_def)
  have "q \<le> m" by (simp add: q_def)
  then have "q < 2 ^ 53" using f by simp
  then obtain m' e' where r: "round_f64 s q 1 = Finite s m' e'" "f64_value m' e' = real q"
    by (rule round_small_integer)
  have "f64_trunc (Finite s m e) = Finite s m' e'"
    using e r by (simp add: round_scaled_def scale2_def q_def k_def)
  with t have "real_of_int (signed s m) * 2 powi e = real_of_int (signed s m') * 2 powi e'"
    by (simp only: f64_eq_value)
  then have "real m * 2 powi e = real q" using r(2) by (cases s) (simp_all add: signed_def f64_value_def)
  then have "real m = real (q * 2 ^ k)" by (simp add: ek power_int_minus field_simps)
  then have "m = q * 2 ^ k" by (metis of_nat_eq_iff)
  then show ?thesis by (simp add: k_def)
qed

end
