(* ===== verification/Py_Values.thy ===== *)
theory Py_Values
  imports Persistent_Views Float64
begin

text \<open>
  What every class of \<open>crates/dsline-python/src/lib.rs\<close> uses: the exceptions, the objects of the
  interpreter, the locks around the channels, and the configuration that the constructors build. The
  interpreter is a parameter: a record of what the bindings ask of an object. A conversion is a function
  of the object; a call into Python code is an action on the interpreter's world.
\<close>

section \<open>Exceptions\<close>

datatype py_exception =
    PyException | PyValueError | PyRuntimeError | DslineErrorPy | ChannelErrorPy | ChannelClosedError
  | BufferFullError | BufferEmptyError | MessageTooLargeError | CorruptedMessageError
  | SequenceMismatchError | PipelineBuildError

text \<open>The base class of each of the module's own exceptions.\<close>

fun py_base :: "py_exception \<Rightarrow> py_exception option" where
  "py_base DslineErrorPy = Some PyException"
| "py_base ChannelErrorPy = Some DslineErrorPy"
| "py_base ChannelClosedError = Some ChannelErrorPy"
| "py_base BufferFullError = Some ChannelErrorPy"
| "py_base BufferEmptyError = Some ChannelErrorPy"
| "py_base MessageTooLargeError = Some ChannelErrorPy"
| "py_base CorruptedMessageError = Some ChannelErrorPy"
| "py_base SequenceMismatchError = Some ChannelErrorPy"
| "py_base PipelineBuildError = Some DslineErrorPy"
| "py_base _ = None"

text \<open>An error is one of the module's exceptions with its text, or what Python code raised.\<close>

datatype 'x py_err = PyErr py_exception string | Foreign 'x

type_synonym ('x, 'a) py_result = "('x py_err, 'a) outcome"
type_synonym ('s, 'x, 'a) py_action = "('s, 'x py_err, 'a) action"

abbreviation PyValErr :: "string \<Rightarrow> ('x, 'a) py_result" where
  "PyValErr msg \<equiv> Err (PyErr PyValueError msg)"

fun py_class_of :: "dsline_error \<Rightarrow> py_exception" where
  "py_class_of (Channel Closed) = ChannelClosedError"
| "py_class_of (Channel BufferFull) = BufferFullError"
| "py_class_of (Channel BufferEmpty) = BufferEmptyError"
| "py_class_of (Channel (MessageTooLarge _ _)) = MessageTooLargeError"
| "py_class_of (Channel CorruptedMessage) = CorruptedMessageError"
| "py_class_of (Channel (SequenceMismatch _ _)) = SequenceMismatchError"
| "py_class_of (Channel (InvalidConfig _)) = PyValueError"
| "py_class_of (Channel (StorageIo _)) = ChannelErrorPy"
| "py_class_of (Protocol _) = DslineErrorPy"
| "py_class_of (Transport _) = DslineErrorPy"

definition to_py_err :: "dsline_error \<Rightarrow> 'x py_err" where
  "to_py_err err = PyErr (py_class_of err) (display_dsline_error err)"

text \<open>\<open>map_err\<close>, on a result and on an action.\<close>

fun map_err :: "('e \<Rightarrow> 'f) \<Rightarrow> ('e, 'a) outcome \<Rightarrow> ('f, 'a) outcome" where
  "map_err h (Ok x) = Ok x"
| "map_err h (Err e) = Err (h e)"
| "map_err h Panicked = Panicked"
| "map_err h Diverged = Diverged"

definition raising :: "('s, dsline_error, 'a) action \<Rightarrow> ('s, 'x, 'a) py_action" where
  "raising m s = (case m s of (r, t) \<Rightarrow> (map_err to_py_err r, t))"

section \<open>Objects\<close>

record slice_indices =
  si_start :: int
  si_step :: int
  si_length :: int

record ('o, 'w, 'x) python =
  py_bytes_of :: "'o \<Rightarrow> ('x, bytes) py_result"
  py_dict_items :: "'o \<Rightarrow> ('o \<times> 'o) list option"
  py_extract_str :: "'o \<Rightarrow> ('x, string) py_result"
  py_extract_f64 :: "'o \<Rightarrow> f64 option"
  py_extract_usize :: "'o \<Rightarrow> usize option"
  py_slice :: "'o \<Rightarrow> (int \<Rightarrow> ('x, slice_indices) py_result) option"
  py_str :: "'o \<Rightarrow> ('x, string) py_result"
  py_truthy :: "'o \<Rightarrow> ('w, 'x, bool) py_action"
  py_float :: "f64 \<Rightarrow> 'o"
  py_text :: "string \<Rightarrow> 'o"
  py_dict :: "(string \<Rightarrow> f64 option) \<Rightarrow> 'o"
  py_list :: "'o list \<Rightarrow> 'o"

section \<open>Bytes and text\<close>

text \<open>Text is kept in UTF-8, one \<open>char\<close> per byte.\<close>

definition as_bytes :: "string \<Rightarrow> bytes" where
  "as_bytes s = map of_char s"

definition continuation :: "byte \<Rightarrow> bool" where
  "continuation b \<longleftrightarrow> 128 \<le> unat b \<and> unat b \<le> 191"

text \<open>The second byte that may follow a leading byte, and the bytes of the sequence.\<close>

definition utf8_second :: "nat \<Rightarrow> nat \<Rightarrow> bool" where
  "utf8_second a b \<longleftrightarrow>
     (if a = 224 then 160 \<le> b \<and> b \<le> 191 else if a = 237 then 128 \<le> b \<and> b \<le> 159
      else if a = 240 then 144 \<le> b \<and> b \<le> 191 else if a = 244 then 128 \<le> b \<and> b \<le> 143
      else 128 \<le> b \<and> b \<le> 191)"

definition utf8_width :: "nat \<Rightarrow> nat" where
  "utf8_width a =
     (if a < 128 then 1 else if 194 \<le> a \<and> a \<le> 223 then 2 else if 224 \<le> a \<and> a \<le> 239 then 3
      else if 240 \<le> a \<and> a \<le> 244 then 4 else 0)"

text \<open>Whether the text starts with a whole sequence, and the length of that or of the broken part.\<close>

fun utf8_step :: "bytes \<Rightarrow> bool \<times> nat" where
  "utf8_step [] = (False, 1)"
| "utf8_step (a # rest) =
     (let width = utf8_width (unat a) in
      if width = 1 then (True, 1)
      else if width = 0 \<or> rest = [] \<or> \<not> utf8_second (unat a) (unat (hd rest)) then (False, 1)
      else let more = length (takeWhile continuation (take (width - 2) (tl rest))) in
        (more = width - 2, 2 + more))"

lemma utf8_step_positive: "0 < snd (utf8_step b)"
  by (cases b) (simp_all add: Let_def)

text \<open>\<open>String::from_utf8_lossy\<close>: U+FFFD for every broken part.\<close>

function from_utf8_lossy :: "bytes \<Rightarrow> string" where
  "from_utf8_lossy b =
     (if b = [] then []
      else case utf8_step b of (valid, n) \<Rightarrow>
        (if valid then map (\<lambda>x. char_of (unat x)) (take n b) else map char_of [239, 191, 189 :: nat])
        @ from_utf8_lossy (drop n b))"
  by pat_completeness auto

termination
proof (relation "measure length")
  fix b valid n
  assume "b \<noteq> ([] :: bytes)" "(valid, n) = utf8_step b"
  then have "0 < n" using utf8_step_positive [of b] by (metis snd_conv)
  with \<open>b \<noteq> []\<close> show "(drop n b, b) \<in> measure length" by simp
qed simp

declare from_utf8_lossy.simps [simp del]

section \<open>Locks\<close>

text \<open>\<open>Mutex<T>\<close>: a panic under the lock poisons it, and a poisoned lock is not entered again.\<close>

record 't mutex =
  mx_poisoned :: bool
  mx_value :: 't

definition mutex_new :: "'t \<Rightarrow> 't mutex" where
  "mutex_new v = \<lparr>mx_poisoned = False, mx_value = v\<rparr>"

definition with_lock :: "string \<Rightarrow> ('t, 'x, 'a) py_action \<Rightarrow> ('t mutex, 'x, 'a) py_action" where
  "with_lock msg m s =
     (if mx_poisoned s then (Err (PyErr PyRuntimeError msg), s)
      else case m (mx_value s) of (r, v) \<Rightarrow> (r, \<lparr>mx_poisoned = (r = Panicked), mx_value = v\<rparr>))"

text \<open>The second lock is taken under the first.\<close>

definition with_locks ::
  "string \<Rightarrow> string \<Rightarrow> ('t \<times> 'u, 'x, 'a) py_action \<Rightarrow> ('t mutex \<times> 'u mutex, 'x, 'a) py_action" where
  "with_locks outer_msg inner_msg m =
     (\<lambda>(inner, outer).
     if mx_poisoned outer then (Err (PyErr PyRuntimeError outer_msg), (inner, outer))
     else if mx_poisoned inner then (Err (PyErr PyRuntimeError inner_msg), (inner, outer))
     else case m (mx_value inner, mx_value outer) of (r, (u, v)) \<Rightarrow>
       (r, (\<lparr>mx_poisoned = (r = Panicked), mx_value = u\<rparr>, \<lparr>mx_poisoned = (r = Panicked), mx_value = v\<rparr>)))"

section \<open>Configuration\<close>

datatype py_backpressure = PyBlock | PyRaise | PyDropNewest | PyDropOldest

fun core_backpressure :: "py_backpressure \<Rightarrow> backpressure" where
  "core_backpressure PyBlock = Block"
| "core_backpressure PyRaise = Raise"
| "core_backpressure PyDropNewest = DropNewest"
| "core_backpressure PyDropOldest = DropOldest"

text \<open>\<open>Duration::from_secs_f64\<close> in nanoseconds: the nearest one, and a panic on what is not a number of
  seconds below \<open>2 ^ 64\<close>.\<close>

fun duration_from_secs_f64 :: "f64 \<Rightarrow> ('x, nat) py_result" where
  "duration_from_secs_f64 (Finite s m e) =
     (let ns = (case scale2 (- e) (m * 10 ^ 9) 1 of (n, d) \<Rightarrow> round_div n d) in
      if s \<and> m \<noteq> 0 then Panicked else if ns div 10 ^ 9 < 2 ^ 64 then Ok ns else Panicked)"
| "duration_from_secs_f64 _ = Panicked"

definition channel_config ::
  "usize \<Rightarrow> usize \<Rightarrow> py_backpressure \<Rightarrow> f64 option \<Rightarrow> bool \<Rightarrow> ('x, spsc_config) py_result" where
  "channel_config cap sz bp limit mp =
     (if (case limit of Some v \<Rightarrow> f64_lt v f64_zero | None \<Rightarrow> False)
      then PyValErr ''timeout must be non-negative''
      else and_then (case limit of None \<Rightarrow> Ok None | Some v \<Rightarrow> map_outcome Some (duration_from_secs_f64 v)) (\<lambda>t.
        Ok \<lparr>capacity = cap, slot_size = sz, backpressure = core_backpressure bp, timeout = t, multi_producer = mp\<rparr>))"

section \<open>What a process gives its channels\<close>

text \<open>The storage methods and the environment of a channel, the clock budgets, the identity of the
  process and the constructors of its storage by path.\<close>

record 's py_host =
  ph_io :: "'s region_io_ops"
  ph_env :: "'s channel_env"
  ph_fuel :: nat
  ph_polls :: nat
  ph_view :: "nat \<Rightarrow> 's"
  ph_self :: process_identity
  ph_epoch :: u32
  ph_create :: "string \<Rightarrow> usize \<Rightarrow> usize \<Rightarrow> usize \<Rightarrow> 's result"
  ph_open :: "string \<Rightarrow> usize \<Rightarrow> usize \<Rightarrow> usize \<Rightarrow> 's result"
  ph_create_or_open :: "string \<Rightarrow> usize \<Rightarrow> usize \<Rightarrow> usize \<Rightarrow> ('s \<times> bool) result"
  ph_runtime_dir :: "string result"

text \<open>\<open>shm_region_path\<close>: the runtime directory is the environment's.\<close>

definition shm_region_path :: "'s py_host \<Rightarrow> string \<Rightarrow> string result" where
  "shm_region_path h name =
     and_then (ph_runtime_dir h) (\<lambda>dir.
     Ok (dir @ ''/'' @ shm_region_file_name (env_crc (ph_env h)) (as_bytes name)))"

definition host_create_or_open :: "'s py_host \<Rightarrow> string \<Rightarrow> spsc_config \<Rightarrow> 's persistent_channel result" where
  "host_create_or_open h path cfg =
     pchannel_create_or_open (ph_io h) (ph_env h) (ph_polls h) (ph_view h) (ph_create_or_open h path)
       (ph_self h) (ph_epoch h) cfg"

definition host_create :: "'s py_host \<Rightarrow> string \<Rightarrow> spsc_config \<Rightarrow> 's persistent_channel result" where
  "host_create h path cfg =
     pchannel_create (ph_io h) (ph_polls h) (ph_view h) (ph_create h path) (ph_self h) (ph_epoch h) cfg"

definition host_open :: "'s py_host \<Rightarrow> string \<Rightarrow> spsc_config \<Rightarrow> 's persistent_channel result" where
  "host_open h path cfg =
     pchannel_open (ph_io h) (ph_env h) (ph_polls h) (ph_view h) (ph_open h path) (ph_self h) (ph_epoch h) cfg"

text \<open>\<open>process_identity\<close>.\<close>

definition py_process_identity :: "'s py_host \<Rightarrow> u32 \<times> u64" where
  "py_process_identity h = (pid (ph_self h), start_time (ph_self h))"

end
