(* ===== verification/Py_Channel.thy ===== *)
theory Py_Channel
  imports Py_Values
begin

text \<open>
  The channel, buffer and view classes of \<open>crates/dsline-python/src/lib.rs\<close>: every method behind its
  lock, the errors as exceptions. A write buffer and a view are run together with the store their
  lease or view points into; \<open>publish\<close> and \<open>abort\<close> with the channel they are handed to.
\<close>

section \<open>What the two channel classes share\<close>

datatype stat_value = StatText string | StatNum nat | StatBool bool | StatNone

definition stat_option :: "u64 option \<Rightarrow> stat_value" where
  "stat_option v = (case v of Some x \<Rightarrow> StatNum (unat x) | None \<Rightarrow> StatNone)"

definition message_size_limit_items :: "message_size_limits \<Rightarrow> (string \<times> stat_value) list" where
  "message_size_limit_items l =
     [(''chunk_metadata_size'', StatNum (lim_chunk_metadata_size l)),
      (''chunk_payload_size'', StatNum (lim_chunk_payload_size l)),
      (''max_message_size'', StatNum (lim_max_message_size l))]"

text \<open>The items of \<open>stats\<close> that come from the channel.\<close>

definition channel_stats :: "'s region_io_ops \<Rightarrow> 's persistent_channel \<Rightarrow> (string \<times> stat_value) list result" where
  "channel_stats io c =
     map_outcome (\<lambda>pinned.
       [(''multi_producer'', StatBool (pmulti_producer c)), (''queue_depth'', StatNum (plen c)),
        (''queue_capacity'', StatNum (pcapacity c)), (''slot_size'', StatNum (ppayload_slot_size c))]
       @ message_size_limit_items (pmessage_size_limits c) @
       [(''next_sequence'', StatNum (unat (next_sequence c))),
        (''expected_recv_sequence'', StatNum (unat (expected_recv_sequence c))),
        (''last_received_sequence'', stat_option (last_received_sequence c)),
        (''reclaimed_slots'', StatNum (unat (reclaimed_slots c))), (''pinned_slots'', StatNum pinned),
        (''closed'', StatBool (pis_closed c)), (''empty'', StatBool (pis_empty c))])
     (pinned_slots io c)"

text \<open>A write buffer owns its lease until it is aborted.\<close>

type_synonym write_buffer = "write_lease option mutex"
type_synonym read_view = "shm_recv_view option mutex"

definition with_buffer_lease :: "('s, 'x, 'a) py_action \<Rightarrow> (write_lease \<Rightarrow> ('s, 'x, 'a) py_action) \<Rightarrow>
    write_lease option \<Rightarrow> ('s, 'x, 'a) py_action" where
  "with_buffer_lease gone k l = (case l of Some v \<Rightarrow> k v | None \<Rightarrow> gone)"

definition buffer_aborted :: "('s, 'x, 'a) py_action" where
  "buffer_aborted = fail (PyErr PyValueError ''buffer was already aborted'')"

definition publish_buffer ::
  "'s region_io_ops \<Rightarrow> 's channel_env \<Rightarrow> (write_lease option \<times> 's persistent_channel, 'x, u64) py_action" where
  "publish_buffer io env =
     (\<lambda>(slot, c). case slot of
        None \<Rightarrow> buffer_aborted (slot, c)
      | Some l \<Rightarrow> (case raising (publish io env) (l, c) of (r, (l', c')) \<Rightarrow> (r, (Some l', c'))))"

text \<open>\<open>slot.take()\<close> comes first: the buffer loses its lease whether the abort succeeds or not.\<close>

definition abort_buffer :: "'s region_io_ops \<Rightarrow> (write_lease option \<times> 's persistent_channel, 'x, unit) py_action" where
  "abort_buffer io =
     (\<lambda>(slot, c). case slot of
        None \<Rightarrow> buffer_aborted (slot, c)
      | Some l \<Rightarrow> (case raising (abort io l) c of (r, c') \<Rightarrow> (r, (None, c'))))"

section \<open>\<open>ShmChannel\<close>\<close>

record 's py_shm_channel =
  shm_name :: string
  shm_path :: string
  shm_channel :: "'s persistent_channel mutex"

definition on_shm_channel :: "('s persistent_channel, 'x, 'a) py_action \<Rightarrow> ('s py_shm_channel, 'x, 'a) py_action" where
  "on_shm_channel m = zoom shm_channel (\<lambda>ch o'. o'\<lparr>shm_channel := ch\<rparr>) (with_lock ''channel lock is poisoned'' m)"

text \<open>\<open>name.trim().is_empty()\<close>.\<close>

definition blank :: "string \<Rightarrow> bool" where
  "blank s = list_all is_space s"

definition shm_channel_new ::
  "'s py_host \<Rightarrow> string \<Rightarrow> usize \<Rightarrow> usize \<Rightarrow> py_backpressure \<Rightarrow> f64 option \<Rightarrow> bool \<Rightarrow> ('x, 's py_shm_channel) py_result" where
  "shm_channel_new h name cap sz bp limit mp =
     (if blank name then PyValErr ''channel name must not be empty'' else
     and_then (channel_config cap sz bp limit mp) (\<lambda>cfg.
     and_then (map_err to_py_err (shm_region_path h name)) (\<lambda>path.
     and_then (map_err to_py_err (host_create_or_open h path cfg)) (\<lambda>c.
     Ok \<lparr>shm_name = name, shm_path = path, shm_channel = mutex_new c\<rparr>))))"

definition shm_capacity :: "('s py_shm_channel, 'x, usize) py_action" where
  "shm_capacity = on_shm_channel (gets pcapacity)"

definition shm_slot_size :: "('s py_shm_channel, 'x, usize) py_action" where
  "shm_slot_size = on_shm_channel (gets ppayload_slot_size)"

definition shm_send ::
  "('o, 'w, 'x) python \<Rightarrow> 's py_host \<Rightarrow> 'o \<Rightarrow> ('s py_shm_channel, 'x, unit) py_action" where
  "shm_send py h data =
     bind (lift (py_bytes_of py data)) (\<lambda>b. on_shm_channel (raising (psend (ph_io h) (ph_env h) (ph_fuel h) b)))"

definition shm_recv :: "'s py_host \<Rightarrow> ('s py_shm_channel, 'x, bytes) py_action" where
  "shm_recv h = on_shm_channel (raising (precv (ph_io h) (ph_env h)))"

definition shm_try_recv :: "'s py_host \<Rightarrow> ('s py_shm_channel, 'x, bytes option) py_action" where
  "shm_try_recv h = on_shm_channel (raising (try_recv (ph_io h) (ph_env h)))"

definition shm_recv_with_seq :: "'s py_host \<Rightarrow> ('s py_shm_channel, 'x, u64 \<times> bytes) py_action" where
  "shm_recv_with_seq h =
     on_shm_channel (bind (raising (precv_with_seq (ph_io h) (ph_env h))) (\<lambda>m. return (rm_seq m, rm_payload m)))"

definition shm_close :: "('s py_shm_channel, 'x, unit) py_action" where
  "shm_close = on_shm_channel (modify pclose)"

definition shm_exit :: "('s py_shm_channel, 'x, bool) py_action" where
  "shm_exit = seq shm_close (return False)"

definition shm_closed :: "('s py_shm_channel, 'x, bool) py_action" where
  "shm_closed = on_shm_channel (gets pis_closed)"

definition shm_empty :: "('s py_shm_channel, 'x, bool) py_action" where
  "shm_empty = on_shm_channel (gets pis_empty)"

definition shm_len :: "('s py_shm_channel, 'x, usize) py_action" where
  "shm_len = on_shm_channel (gets plen)"

definition shm_stats :: "'s py_host \<Rightarrow> ('s py_shm_channel, 'x, (string \<times> stat_value) list) py_action" where
  "shm_stats h =
     bind (gets (\<lambda>o'. [(''name'', StatText (shm_name o')), (''path'', StatText (shm_path o')), (''backend'', StatText ''shm'')])) (\<lambda>named.
     bind (on_shm_channel (raising (reads (channel_stats (ph_io h))))) (\<lambda>items. return (named @ items)))"

definition shm_reclaim_stale :: "'s py_host \<Rightarrow> ('s py_shm_channel, 'x, nat) py_action" where
  "shm_reclaim_stale h = on_shm_channel (raising (reclaim_stale (ph_io h) (ph_env h)))"

definition shm_debug_leave_zombie ::
  "'s py_host \<Rightarrow> u64 \<Rightarrow> u32 \<Rightarrow> u64 \<Rightarrow> u32 \<Rightarrow> ('s py_shm_channel, 'x, unit) py_action" where
  "shm_debug_leave_zombie h sq p start reserved =
     on_shm_channel (raising (debug_leave_zombie (ph_io h) (ph_env h) sq p start reserved))"

definition shm_alloc :: "'s py_host \<Rightarrow> usize \<Rightarrow> ('s py_shm_channel, 'x, write_buffer) py_action" where
  "shm_alloc h sz =
     on_shm_channel (bind (raising (alloc (ph_io h) (ph_env h) (ph_fuel h) sz)) (\<lambda>l. return (mutex_new (Some l))))"

definition shm_publish :: "'s py_host \<Rightarrow> (write_buffer \<times> 's py_shm_channel, 'x, u64) py_action" where
  "shm_publish h =
     zoom (map_prod id shm_channel) (\<lambda>(b, ch) (_, o'). (b, o'\<lparr>shm_channel := ch\<rparr>))
       (with_locks ''channel lock is poisoned'' ''buffer lock is poisoned'' (publish_buffer (ph_io h) (ph_env h)))"

definition shm_abort :: "'s py_host \<Rightarrow> (write_buffer \<times> 's py_shm_channel, 'x, unit) py_action" where
  "shm_abort h =
     zoom (map_prod id shm_channel) (\<lambda>(b, ch) (_, o'). (b, o'\<lparr>shm_channel := ch\<rparr>))
       (with_locks ''channel lock is poisoned'' ''buffer lock is poisoned'' (abort_buffer (ph_io h)))"

definition shm_recv_view :: "'s py_host \<Rightarrow> ('s py_shm_channel, 'x, read_view) py_action" where
  "shm_recv_view h =
     on_shm_channel (bind (raising (recv_view (ph_io h) (ph_env h))) (\<lambda>v. return (mutex_new (Some v))))"

section \<open>\<open>FileChannel\<close>\<close>

record 's py_file_channel =
  file_path :: string
  file_channel :: "'s persistent_channel mutex"

definition on_file_channel :: "('s persistent_channel, 'x, 'a) py_action \<Rightarrow> ('s py_file_channel, 'x, 'a) py_action" where
  "on_file_channel m = zoom file_channel (\<lambda>ch o'. o'\<lparr>file_channel := ch\<rparr>) (with_lock ''file channel lock poisoned'' m)"

definition file_channel_create ::
  "'s py_host \<Rightarrow> string \<Rightarrow> usize \<Rightarrow> usize \<Rightarrow> py_backpressure \<Rightarrow> f64 option \<Rightarrow> bool \<Rightarrow> ('x, 's py_file_channel) py_result" where
  "file_channel_create h path cap sz bp limit mp =
     and_then (channel_config cap sz bp limit mp) (\<lambda>cfg.
     and_then (map_err to_py_err (host_create h path cfg)) (\<lambda>c.
     Ok \<lparr>file_path = path, file_channel = mutex_new c\<rparr>))"

definition file_channel_open ::
  "'s py_host \<Rightarrow> string \<Rightarrow> usize \<Rightarrow> usize \<Rightarrow> py_backpressure \<Rightarrow> f64 option \<Rightarrow> bool \<Rightarrow> ('x, 's py_file_channel) py_result" where
  "file_channel_open h path cap sz bp limit mp =
     and_then (channel_config cap sz bp limit mp) (\<lambda>cfg.
     and_then (map_err to_py_err (host_open h path cfg)) (\<lambda>c.
     Ok \<lparr>file_path = path, file_channel = mutex_new c\<rparr>))"

definition file_send ::
  "('o, 'w, 'x) python \<Rightarrow> 's py_host \<Rightarrow> 'o \<Rightarrow> ('s py_file_channel, 'x, unit) py_action" where
  "file_send py h data =
     bind (lift (py_bytes_of py data)) (\<lambda>b. on_file_channel (raising (psend (ph_io h) (ph_env h) (ph_fuel h) b)))"

definition file_recv :: "'s py_host \<Rightarrow> ('s py_file_channel, 'x, bytes) py_action" where
  "file_recv h = on_file_channel (raising (precv (ph_io h) (ph_env h)))"

definition file_try_recv :: "'s py_host \<Rightarrow> ('s py_file_channel, 'x, bytes option) py_action" where
  "file_try_recv h = on_file_channel (raising (try_recv (ph_io h) (ph_env h)))"

definition file_recv_with_seq :: "'s py_host \<Rightarrow> ('s py_file_channel, 'x, u64 \<times> bytes) py_action" where
  "file_recv_with_seq h =
     on_file_channel (bind (raising (precv_with_seq (ph_io h) (ph_env h))) (\<lambda>m. return (rm_seq m, rm_payload m)))"

definition file_close :: "('s py_file_channel, 'x, unit) py_action" where
  "file_close = on_file_channel (modify pclose)"

definition file_exit :: "('s py_file_channel, 'x, bool) py_action" where
  "file_exit = seq file_close (return False)"

definition file_closed :: "('s py_file_channel, 'x, bool) py_action" where
  "file_closed = on_file_channel (gets pis_closed)"

definition file_empty :: "('s py_file_channel, 'x, bool) py_action" where
  "file_empty = on_file_channel (gets pis_empty)"

definition file_len :: "('s py_file_channel, 'x, usize) py_action" where
  "file_len = on_file_channel (gets plen)"

definition file_stats :: "'s py_host \<Rightarrow> ('s py_file_channel, 'x, (string \<times> stat_value) list) py_action" where
  "file_stats h =
     bind (gets (\<lambda>o'. [(''path'', StatText (file_path o')), (''backend'', StatText ''file'')])) (\<lambda>named.
     bind (on_file_channel (raising (reads (channel_stats (ph_io h))))) (\<lambda>items. return (named @ items)))"

definition file_reclaim_stale :: "'s py_host \<Rightarrow> ('s py_file_channel, 'x, nat) py_action" where
  "file_reclaim_stale h = on_file_channel (raising (reclaim_stale (ph_io h) (ph_env h)))"

definition file_debug_leave_zombie ::
  "'s py_host \<Rightarrow> u64 \<Rightarrow> u32 \<Rightarrow> u64 \<Rightarrow> u32 \<Rightarrow> ('s py_file_channel, 'x, unit) py_action" where
  "file_debug_leave_zombie h sq p start reserved =
     on_file_channel (raising (debug_leave_zombie (ph_io h) (ph_env h) sq p start reserved))"

definition file_alloc :: "'s py_host \<Rightarrow> usize \<Rightarrow> ('s py_file_channel, 'x, write_buffer) py_action" where
  "file_alloc h sz =
     on_file_channel (bind (raising (alloc (ph_io h) (ph_env h) (ph_fuel h) sz)) (\<lambda>l. return (mutex_new (Some l))))"

definition file_publish :: "'s py_host \<Rightarrow> (write_buffer \<times> 's py_file_channel, 'x, u64) py_action" where
  "file_publish h =
     zoom (map_prod id file_channel) (\<lambda>(b, ch) (_, o'). (b, o'\<lparr>file_channel := ch\<rparr>))
       (with_locks ''file channel lock poisoned'' ''buffer lock is poisoned'' (publish_buffer (ph_io h) (ph_env h)))"

definition file_abort :: "'s py_host \<Rightarrow> (write_buffer \<times> 's py_file_channel, 'x, unit) py_action" where
  "file_abort h =
     zoom (map_prod id file_channel) (\<lambda>(b, ch) (_, o'). (b, o'\<lparr>file_channel := ch\<rparr>))
       (with_locks ''file channel lock poisoned'' ''buffer lock is poisoned'' (abort_buffer (ph_io h)))"

definition file_recv_view :: "'s py_host \<Rightarrow> ('s py_file_channel, 'x, read_view) py_action" where
  "file_recv_view h =
     on_file_channel (bind (raising (recv_view (ph_io h) (ph_env h))) (\<lambda>v. return (mutex_new (Some v))))"

section \<open>\<open>ShmWriteBuffer\<close>\<close>

text \<open>The buffer with the store of its lease.\<close>

definition on_buffer :: "(write_lease \<Rightarrow> ('s, 'x, 'a) py_action) \<Rightarrow> (write_buffer \<times> 's, 'x, 'a) py_action" where
  "on_buffer k =
     (\<lambda>(b, s). if mx_poisoned b then (Err (PyErr PyRuntimeError ''buffer lock is poisoned''), (b, s))
      else case with_buffer_lease buffer_aborted k (mx_value b) s of
        (r, t) \<Rightarrow> (r, (b\<lparr>mx_poisoned := (r = Panicked)\<rparr>, t)))"

definition buffer_write ::
  "('o, 'w, 'x) python \<Rightarrow> 's region_io_ops \<Rightarrow> 'o \<Rightarrow> usize \<Rightarrow> (write_buffer \<times> 's, 'x, unit) py_action" where
  "buffer_write py io data offset =
     bind (lift (py_bytes_of py data)) (\<lambda>b. on_buffer (\<lambda>l. raising (lease_write io l offset b)))"

definition buffer_size :: "(write_buffer \<times> 's, 'x, usize) py_action" where
  "buffer_size = on_buffer (\<lambda>l. return (lease_size l))"

definition buffer_seq :: "(write_buffer \<times> 's, 'x, u64) py_action" where
  "buffer_seq = on_buffer (\<lambda>l. return (lease_seq l))"

definition buffer_slot_index :: "(write_buffer \<times> 's, 'x, usize) py_action" where
  "buffer_slot_index = on_buffer (\<lambda>l. return (lease_slot_index l))"

definition buffer_sealed :: "(write_buffer \<times> 's, 'x, bool) py_action" where
  "buffer_sealed = on_buffer (\<lambda>l. return (lease_is_sealed l))"

definition show_bool :: "bool \<Rightarrow> string" where
  "show_bool b = (if b then ''true'' else ''false'')"

definition buffer_repr :: "(write_buffer \<times> 's, 'x, string) py_action" where
  "buffer_repr = on_buffer (\<lambda>l. return
     (''<ShmWriteBuffer seq='' @ show_nat (unat (lease_seq l)) @ '' size='' @ show_nat (lease_size l)
      @ '' sealed='' @ show_bool (lease_is_sealed l) @ ''>''))"

text \<open>\<open>as c_long\<close> and \<open>as usize\<close> on a 64-bit target.\<close>

definition as_c_long :: "usize \<Rightarrow> int" where
  "as_c_long n = sint (word_of_nat n :: 64 word)"

definition as_usize :: "int \<Rightarrow> usize" where
  "as_usize i = unat (word_of_int i :: 64 word)"

definition buffer_setitem ::
  "('o, 'w, 'x) python \<Rightarrow> 's region_io_ops \<Rightarrow> 'o \<Rightarrow> 'o \<Rightarrow> (write_buffer \<times> 's, 'x, unit) py_action" where
  "buffer_setitem py io key value =
     bind (lift (ok_or (py_slice py key) (PyErr PyValueError ''buffer indices must be slices''))) (\<lambda>indices.
     bind buffer_size (\<lambda>sz.
     bind (lift (indices (as_c_long sz))) (\<lambda>si.
     if si_step si \<noteq> 1 then fail (PyErr PyValueError ''slice step must be 1'') else
     let start = as_usize (si_start si); n = as_usize (si_length si) in
     bind (lift (py_bytes_of py value)) (\<lambda>b.
     if length b \<noteq> n then
       fail (PyErr PyValueError (''slice length '' @ show_nat n @ '' does not match data length '' @ show_nat (length b)))
     else buffer_write py io value start))))"

section \<open>\<open>ShmReadView\<close>\<close>

definition view_lock_poisoned :: "('s, 'x, 'a) py_action" where
  "view_lock_poisoned = fail (PyErr PyRuntimeError ''view lock is poisoned'')"

definition view_gone :: "('s, 'x, 'a) py_action" where
  "view_gone = fail (PyErr PyValueError ''view is already released'')"

text \<open>A read leaves the store as it is.\<close>

definition with_view :: "(shm_recv_view \<Rightarrow> 's \<Rightarrow> ('x, 'a) py_result) \<Rightarrow> (read_view \<times> 's, 'x, 'a) py_action" where
  "with_view f =
     (\<lambda>(v, s). if mx_poisoned v then view_lock_poisoned (v, s)
      else case mx_value v of
        None \<Rightarrow> view_gone (v, s)
      | Some w \<Rightarrow> (f w s, (v\<lparr>mx_poisoned := (f w s = Panicked)\<rparr>, s)))"

definition py_view_read ::
  "'s region_io_ops \<Rightarrow> usize \<Rightarrow> usize option \<Rightarrow> (read_view \<times> 's, 'x, bytes) py_action" where
  "py_view_read io offset n =
     with_view (\<lambda>v s. map_err to_py_err
       (view_read io v offset (case n of Some k \<Rightarrow> k | None \<Rightarrow> view_size v - offset) s))"

definition py_view_read_all :: "'s region_io_ops \<Rightarrow> (read_view \<times> 's, 'x, bytes) py_action" where
  "py_view_read_all io = with_view (\<lambda>v s. map_err to_py_err (view_read_all io v s))"

definition py_view_size :: "(read_view \<times> 's, 'x, usize) py_action" where
  "py_view_size = with_view (\<lambda>v s. Ok (view_size v))"

definition py_view_seq :: "(read_view \<times> 's, 'x, u64) py_action" where
  "py_view_seq = with_view (\<lambda>v s. Ok (view_seq v))"

text \<open>An integer key gives one byte, a slice a byte string.\<close>

datatype view_item = ViewByte byte | ViewBytes bytes

definition py_view_getitem ::
  "('o, 'w, 'x) python \<Rightarrow> 's region_io_ops \<Rightarrow> 'o \<Rightarrow> (read_view \<times> 's, 'x, view_item) py_action" where
  "py_view_getitem py io key =
     (case py_extract_usize py key of
        Some index \<Rightarrow> with_view (\<lambda>v s. and_then (map_err to_py_err (view_read io v index 1 s)) (\<lambda>b.
          case b of [] \<Rightarrow> Panicked | x # _ \<Rightarrow> Ok (ViewByte x)))
      | None \<Rightarrow> (case py_slice py key of
          None \<Rightarrow> fail (PyErr PyValueError ''view indices must be integers or slices'')
        | Some indices \<Rightarrow>
            bind py_view_size (\<lambda>sz.
            bind (lift (indices (as_c_long sz))) (\<lambda>si.
            if si_step si \<noteq> 1 then fail (PyErr PyValueError ''slice step must be 1'') else
            with_view (\<lambda>v s. map_outcome ViewBytes (map_err to_py_err
              (view_read io v (as_usize (si_start si)) (as_usize (si_length si)) s)))))))"

definition py_view_release :: "'s region_io_ops \<Rightarrow> (read_view \<times> 's, 'x, unit) py_action" where
  "py_view_release io =
     (\<lambda>(v, s). if mx_poisoned v then view_lock_poisoned (v, s)
      else case mx_value v of
        None \<Rightarrow> view_gone (v, s)
      | Some w \<Rightarrow> (case raising (view_release io) (w, s) of
          (r, (w', t)) \<Rightarrow> (r, (\<lparr>mx_poisoned = (r = Panicked), mx_value = Some w'\<rparr>, t))))"

definition py_view_released :: "(read_view \<times> 's, 'x, bool) py_action" where
  "py_view_released =
     (\<lambda>(v, s). if mx_poisoned v then view_lock_poisoned (v, s)
      else (Ok (case mx_value v of Some w \<Rightarrow> view_is_released w | None \<Rightarrow> True), (v, s)))"

definition py_view_exit :: "'s region_io_ops \<Rightarrow> (read_view \<times> 's, 'x, bool) py_action" where
  "py_view_exit io = seq (py_view_release io) (return False)"

definition py_view_repr :: "(read_view \<times> 's, 'x, string) py_action" where
  "py_view_repr = with_view (\<lambda>v s. Ok
     (''<ShmReadView seq='' @ show_nat (unat (view_seq v)) @ '' size='' @ show_nat (view_size v) @ ''>''))"

text \<open>Dropping the object drops the view it still holds.\<close>

definition py_view_drop :: "'s region_io_ops \<Rightarrow> (read_view \<times> 's, dsline_error, unit) action" where
  "py_view_drop io =
     (\<lambda>(v, s). case mx_value v of
        None \<Rightarrow> (Ok (), (v, s))
      | Some w \<Rightarrow> (case view_drop io (w, s) of (r, (w', t)) \<Rightarrow> (r, (v\<lparr>mx_value := Some w'\<rparr>, t))))"

end
