(* ===== verification/Ops.thy ===== *)
theory Ops
  imports Float64
begin

text \<open>
  The expression engine, \<open>crates/dsline-ops/src/lib.rs\<close>: syntax tree and printer, tokenizer,
  recursive-descent parser and evaluator. Source text is ASCII; a character outside ASCII is a
  token of its own here. The parser's position is the list of the tokens that are left, and its
  recursion runs on fuel: \<open>parse_expr_returns\<close> shows that the fuel of \<open>parse_expr\<close> is enough for
  every source.
\<close>

section \<open>Syntax\<close>

datatype bin_op = Add | Sub | Mul | Div | Eq | Neq | Lt | Le | Gt | Ge | And | Or

datatype unary_op = Neg | Not

datatype expr =
  Literal f64
| Column string
| Binary expr bin_op expr
| Unary unary_op expr

fun show_bin_op :: "bin_op \<Rightarrow> string" where
  "show_bin_op Add = ''+''"
| "show_bin_op Sub = ''-''"
| "show_bin_op Mul = ''*''"
| "show_bin_op Div = ''/''"
| "show_bin_op Eq = ''==''"
| "show_bin_op Neq = ''!=''"
| "show_bin_op Lt = ''<''"
| "show_bin_op Le = ''<=''"
| "show_bin_op Gt = ''>''"
| "show_bin_op Ge = ''>=''"
| "show_bin_op And = ''and''"
| "show_bin_op Or = ''or''"

fun show_unary_op :: "unary_op \<Rightarrow> string" where
  "show_unary_op Neg = ''-''"
| "show_unary_op Not = ''not ''"

fun show_expr :: "expr \<Rightarrow> string" where
  "show_expr (Literal v) =
     (if f64_eq v (f64_trunc v) \<and> is_finite v then show_f64_integral v else show_f64 v)"
| "show_expr (Column name) = name"
| "show_expr (Binary l op r) = ''('' @ show_expr l @ '' '' @ show_bin_op op @ '' '' @ show_expr r @ '')''"
| "show_expr (Unary op x) = ''('' @ show_unary_op op @ show_expr x @ '')''"

datatype parse_error = UnexpectedEnd | UnexpectedToken string | ExpectedExpression

fun show_parse_error :: "parse_error \<Rightarrow> string" where
  "show_parse_error UnexpectedEnd = ''unexpected end of expression''"
| "show_parse_error (UnexpectedToken tok) = ''unexpected token: '' @ tok"
| "show_parse_error ExpectedExpression = ''expected an expression''"

section \<open>Tokenizer\<close>

definition is_alphabetic :: "char \<Rightarrow> bool" where
  "is_alphabetic c \<longleftrightarrow> (let n = of_char c :: nat in (65 \<le> n \<and> n \<le> 90) \<or> (97 \<le> n \<and> n \<le> 122))"

definition is_alphanumeric :: "char \<Rightarrow> bool" where
  "is_alphanumeric c \<longleftrightarrow> is_alphabetic c \<or> is_digit c"

definition is_blank :: "char \<Rightarrow> bool" where
  "is_blank c \<longleftrightarrow> of_char c \<in> {32, 9, 10, 13 :: nat}"

definition number_char :: "char \<Rightarrow> bool" where
  "number_char c \<longleftrightarrow> is_digit c \<or> c = CHR ''.''"

definition ident_start :: "char \<Rightarrow> bool" where
  "ident_start c \<longleftrightarrow> is_alphabetic c \<or> c = CHR ''_''"

definition ident_char :: "char \<Rightarrow> bool" where
  "ident_char c \<longleftrightarrow> is_alphanumeric c \<or> c = CHR ''_''"

function tokenize :: "string \<Rightarrow> string list" where
  "tokenize [] = []"
| "tokenize (c # cs) =
     (if is_blank c then tokenize cs
      else if c = CHR ''('' \<or> c = CHR '')'' then [c] # tokenize cs
      else if c \<in> set ''<>=!'' then
        (case cs of
           [] \<Rightarrow> [c] # tokenize []
         | d # ds \<Rightarrow> if d = CHR ''='' then [c, d] # tokenize ds else [c] # tokenize (d # ds))
      else if c \<in> set ''+-*/'' then [c] # tokenize cs
      else if number_char c then
        takeWhile number_char (c # cs) # tokenize (dropWhile number_char cs)
      else if ident_start c then
        map to_lower (takeWhile ident_char (c # cs)) # tokenize (dropWhile ident_char cs)
      else [c] # tokenize cs)"
  by pat_completeness auto

termination
  by (relation "measure length") (auto simp: le_imp_less_Suc length_dropWhile_le)

definition is_ident :: "string \<Rightarrow> bool" where
  "is_ident s = (case s of [] \<Rightarrow> False | c # _ \<Rightarrow> ident_start c)"

section \<open>Parser\<close>

text \<open>The state of the parser is the tokens from \<open>pos\<close> on.\<close>

type_synonym 'a parse = "string list \<Rightarrow> (parse_error, 'a \<times> string list) outcome"

definition peek :: "string list \<Rightarrow> string option" where
  "peek ts = (case ts of [] \<Rightarrow> None | t # _ \<Rightarrow> Some t)"

definition advance :: "string list \<Rightarrow> string option \<times> string list" where
  "advance ts = (peek ts, tl ts)"

definition expect :: "string \<Rightarrow> unit parse" where
  "expect expected ts =
     (case advance ts of
        (Some tok, ts') \<Rightarrow> if tok = expected then Ok ((), ts') else Err (UnexpectedToken tok)
      | (None, ts') \<Rightarrow> Err UnexpectedEnd)"

definition cmp_op :: "string \<Rightarrow> bin_op option" where
  "cmp_op tok =
     (if tok = ''=='' then Some Eq
      else if tok = ''!='' then Some Neq
      else if tok = ''<'' then Some Lt
      else if tok = ''<='' then Some Le
      else if tok = ''>'' then Some Gt
      else if tok = ''>='' then Some Ge
      else None)"

definition add_op :: "string \<Rightarrow> bin_op option" where
  "add_op tok = (if tok = ''+'' then Some Add else if tok = ''-'' then Some Sub else None)"

definition mul_op :: "string \<Rightarrow> bin_op option" where
  "mul_op tok = (if tok = ''*'' then Some Mul else if tok = ''/'' then Some Div else None)"

definition or_op :: "string \<Rightarrow> bin_op option" where
  "or_op tok = (if tok = ''or'' then Some Or else None)"

definition and_op :: "string \<Rightarrow> bin_op option" where
  "and_op tok = (if tok = ''and'' then Some And else None)"

text \<open>The loop of \<open>parse_or\<close>, \<open>parse_and\<close>, \<open>parse_add\<close> and \<open>parse_mul\<close>: while the next token is
  an operator of the level, one more operand. Every round takes a token, so the number of tokens
  is enough fuel. \<open>inner\<close> is \<open>parse_all\<close> for the text in parentheses.\<close>

fun left_assoc :: "(string \<Rightarrow> bin_op option) \<Rightarrow> expr parse \<Rightarrow> nat \<Rightarrow> expr \<Rightarrow> expr parse" where
  "left_assoc op_of operand 0 lhs ts = Diverged"
| "left_assoc op_of operand (Suc n) lhs ts =
     (case Option.bind (peek ts) op_of of
        Some op \<Rightarrow>
          and_then (operand (snd (advance ts))) (\<lambda>(rhs, ts'). left_assoc op_of operand n (Binary lhs op rhs) ts')
      | None \<Rightarrow> Ok (lhs, ts))"

definition parse_atom :: "expr parse \<Rightarrow> expr parse" where
  "parse_atom inner ts =
     (case advance ts of
        (None, ts') \<Rightarrow> Err UnexpectedEnd
      | (Some tok, ts') \<Rightarrow>
          if tok = ''('' then
            and_then (inner ts') (\<lambda>(e, ts'').
            and_then (expect '')'' ts'') (\<lambda>(_, ts3). Ok (e, ts3)))
          else case parse_f64 tok of
            Some num \<Rightarrow> Ok (Literal num, ts')
          | None \<Rightarrow> if is_ident tok then Ok (Column tok, ts') else Err (UnexpectedToken tok))"

fun parse_unary :: "expr parse \<Rightarrow> expr parse" where
  "parse_unary inner [] = parse_atom inner []"
| "parse_unary inner (t # ts) =
     (if t = ''-'' then and_then (parse_unary inner ts) (\<lambda>(x, ts'). Ok (Unary Neg x, ts'))
      else if t = ''not'' then and_then (parse_unary inner ts) (\<lambda>(x, ts'). Ok (Unary Not x, ts'))
      else parse_atom inner (t # ts))"

definition parse_mul :: "expr parse \<Rightarrow> expr parse" where
  "parse_mul inner ts =
     and_then (parse_unary inner ts) (\<lambda>(lhs, ts').
       left_assoc mul_op (parse_unary inner) (Suc (length ts')) lhs ts')"

definition parse_add :: "expr parse \<Rightarrow> expr parse" where
  "parse_add inner ts =
     and_then (parse_mul inner ts) (\<lambda>(lhs, ts').
       left_assoc add_op (parse_mul inner) (Suc (length ts')) lhs ts')"

definition parse_cmp :: "expr parse \<Rightarrow> expr parse" where
  "parse_cmp inner ts =
     and_then (parse_add inner ts) (\<lambda>(lhs, ts').
       case Option.bind (peek ts') cmp_op of
         Some op \<Rightarrow>
           and_then (parse_add inner (snd (advance ts'))) (\<lambda>(rhs, ts''). Ok (Binary lhs op rhs, ts''))
       | None \<Rightarrow> Ok (lhs, ts'))"

definition parse_and :: "expr parse \<Rightarrow> expr parse" where
  "parse_and inner ts =
     and_then (parse_cmp inner ts) (\<lambda>(lhs, ts').
       left_assoc and_op (parse_cmp inner) (Suc (length ts')) lhs ts')"

definition parse_or :: "expr parse \<Rightarrow> expr parse" where
  "parse_or inner ts =
     and_then (parse_and inner ts) (\<lambda>(lhs, ts').
       left_assoc or_op (parse_and inner) (Suc (length ts')) lhs ts')"

text \<open>\<open>parse_all\<close>, with the depth of nesting that is allowed; every parenthesis takes a token.\<close>

fun parse_all :: "nat \<Rightarrow> expr parse" where
  "parse_all 0 ts = Diverged"
| "parse_all (Suc depth) ts = parse_or (parse_all depth) ts"

fun join_spaces :: "string list \<Rightarrow> string" where
  "join_spaces [] = []"
| "join_spaces [t] = t"
| "join_spaces (t # ts) = t @ '' '' @ join_spaces ts"

definition parse_tokens :: "string list \<Rightarrow> (parse_error, expr) outcome" where
  "parse_tokens ts =
     and_then (parse_all (Suc (length ts)) ts) (\<lambda>(e, rest).
       if rest \<noteq> [] then Err (UnexpectedToken (join_spaces rest)) else Ok e)"

definition parse_expr :: "string \<Rightarrow> (parse_error, expr) outcome" where
  "parse_expr source = parse_tokens (tokenize source)"

section \<open>Evaluator\<close>

text \<open>A record is the function that looks a column up.\<close>

type_synonym row = "string \<Rightarrow> f64 option"

definition bool_f64 :: "bool \<Rightarrow> f64" where
  "bool_f64 b = (if b then f64_one else f64_zero)"

definition nonzero :: "f64 \<Rightarrow> bool" where
  "nonzero v \<longleftrightarrow> \<not> f64_eq v f64_zero"

fun eval_binary :: "bin_op \<Rightarrow> f64 \<Rightarrow> f64 \<Rightarrow> f64 option" where
  "eval_binary Add l r = Some (f64_add l r)"
| "eval_binary Sub l r = Some (f64_sub l r)"
| "eval_binary Mul l r = Some (f64_mul l r)"
| "eval_binary Div l r = (if f64_eq r f64_zero then None else Some (f64_div l r))"
| "eval_binary Eq l r = Some (bool_f64 (f64_lt (f64_abs (f64_sub l r)) f64_epsilon))"
| "eval_binary Neq l r = Some (bool_f64 (f64_le f64_epsilon (f64_abs (f64_sub l r))))"
| "eval_binary Lt l r = Some (bool_f64 (f64_lt l r))"
| "eval_binary Le l r = Some (bool_f64 (f64_le l r))"
| "eval_binary Gt l r = Some (bool_f64 (f64_lt r l))"
| "eval_binary Ge l r = Some (bool_f64 (f64_le r l))"
| "eval_binary And l r = Some (bool_f64 (nonzero l \<and> nonzero r))"
| "eval_binary Or l r = Some (bool_f64 (nonzero l \<or> nonzero r))"

fun eval_unary :: "unary_op \<Rightarrow> f64 \<Rightarrow> f64" where
  "eval_unary Neg v = f64_neg v"
| "eval_unary Not v = bool_f64 (f64_eq v f64_zero)"

fun eval :: "expr \<Rightarrow> row \<Rightarrow> f64 option" where
  "eval (Literal v) rec = Some v"
| "eval (Column name) rec = rec name"
| "eval (Binary l op r) rec =
     Option.bind (eval l rec) (\<lambda>a. Option.bind (eval r rec) (\<lambda>b. eval_binary op a b))"
| "eval (Unary op x) rec = map_option (eval_unary op) (eval x rec)"

definition eval_bool :: "expr \<Rightarrow> row \<Rightarrow> bool option" where
  "eval_bool e rec = map_option nonzero (eval e rec)"

end
