(* ===== verification/Expression_Grammar.thy ===== *)
theory Expression_Grammar
  imports Ops
begin

text \<open>
  The grammar of the module comment of \<open>crates/dsline-ops/src/lib.rs\<close> as a derivation relation, the
  same relation with repeated prefix operators, which is what the code reads, and the proof that the
  parser accepts exactly the token lists of the latter, with the tree of the derivation. The two
  agree where no two prefix operators meet. An identifier is any word but \<open>not\<close>: \<open>and\<close> and \<open>or\<close> are
  identifiers where an operand is expected.
\<close>

section \<open>Every parser function takes tokens and returns\<close>

definition consumes :: "expr parse \<Rightarrow> bool" where
  "consumes p \<longleftrightarrow> (\<forall>ts e r. p ts = Ok (e, r) \<longrightarrow> length r < length ts)"

definition returns_below :: "nat \<Rightarrow> expr parse \<Rightarrow> bool" where
  "returns_below n p \<longleftrightarrow> (\<forall>ts. length ts < n \<longrightarrow> p ts \<noteq> Diverged \<and> p ts \<noteq> Panicked)"

lemma consumesD: "consumes p \<Longrightarrow> p ts = Ok (e, r) \<Longrightarrow> length r < length ts"
  by (auto simp: consumes_def)

lemma peek_simps [simp]: "peek [] = None" "peek (t # ts) = Some t"
  by (simp_all add: peek_def)

lemma advance_simps [simp]: "advance [] = (None, [])" "advance (t # ts) = (Some t, ts)"
  by (simp_all add: advance_def)

lemma left_assoc_Nil [simp]: "left_assoc op_of p (Suc n) lhs [] = Ok (lhs, [])"
  by simp

lemma left_assoc_stop [simp]: "op_of t = None \<Longrightarrow> left_assoc op_of p (Suc n) lhs (t # ts) = Ok (lhs, t # ts)"
  by simp

lemma left_assoc_step:
  "op_of t = Some op \<Longrightarrow> p ts = Ok (rhs, ts') \<Longrightarrow>
   left_assoc op_of p (Suc n) lhs (t # ts) = left_assoc op_of p n (Binary lhs op rhs) ts'"
  by simp

declare left_assoc.simps(2) [simp del]

lemma left_assoc_OkE:
  assumes "left_assoc op_of p (Suc n) lhs ts = Ok (e, r)"
  obtains (stop) "e = lhs" "r = ts"
  | (step) t us op rhs ts' where "ts = t # us" "op_of t = Some op" "p us = Ok (rhs, ts')"
      "left_assoc op_of p n (Binary lhs op rhs) ts' = Ok (e, r)"
  using assms by (cases ts) (auto simp: left_assoc.simps split: option.splits)

lemma left_assoc_length:
  assumes p: "consumes p"
  shows "left_assoc op_of p n lhs ts = Ok (e, r) \<Longrightarrow> length r \<le> length ts"
proof (induction n arbitrary: lhs ts)
  case (Suc n)
  from Suc.prems show ?case
  proof (cases rule: left_assoc_OkE)
    case (step t us op rhs ts')
    with Suc.IH [OF step(4)] consumesD [OF p step(3)] show ?thesis by simp
  qed simp
qed simp

lemma left_assoc_returns:
  assumes p: "consumes p" "returns_below N p"
  shows "length ts < n \<Longrightarrow> length ts \<le> N \<Longrightarrow>
         left_assoc op_of p n lhs ts \<noteq> Diverged \<and> left_assoc op_of p n lhs ts \<noteq> Panicked"
proof (induction n arbitrary: lhs ts)
  case (Suc n)
  show ?case
  proof (cases ts)
    case (Cons t us)
    with Suc.prems p(2) have us: "p us \<noteq> Diverged" "p us \<noteq> Panicked" by (auto simp: returns_below_def)
    have "left_assoc op_of p n l ts' \<noteq> Diverged \<and> left_assoc op_of p n l ts' \<noteq> Panicked"
      if "p us = Ok (rhs, ts')" for rhs ts' l
      using consumesD [OF p(1) that] Suc.prems Cons by (intro Suc.IH) auto
    with us Cons show ?thesis by (auto simp: left_assoc.simps split: option.split)
  qed simp
qed simp

text \<open>Any fuel above the number of tokens gives the same result.\<close>

lemma left_assoc_fuel:
  assumes p: "consumes p"
  shows "length ts < n \<Longrightarrow> length ts < n' \<Longrightarrow> left_assoc op_of p n lhs ts = left_assoc op_of p n' lhs ts"
proof (induction n arbitrary: n' lhs ts)
  case (Suc n)
  then obtain m where m: "n' = Suc m" by (cases n') auto
  show ?case
  proof (cases ts)
    case (Cons t us)
    have "left_assoc op_of p n l ts' = left_assoc op_of p m l ts'"
      if "p us = Ok (rhs, ts')" for rhs ts' l
      using consumesD [OF p that] Suc.prems Cons m by (intro Suc.IH) auto
    then have "and_then (p us) (\<lambda>(rhs, ts'). left_assoc op_of p n (Binary lhs op rhs) ts') =
        and_then (p us) (\<lambda>(rhs, ts'). left_assoc op_of p m (Binary lhs op rhs) ts')" for op
      by (cases "p us") auto
    then show ?thesis unfolding m Cons by (simp add: left_assoc.simps split: option.split)
  qed (simp add: m)
qed simp

lemma level_consumes:
  assumes "consumes p"
  shows "consumes (\<lambda>ts. and_then (p ts) (\<lambda>(lhs, ts'). left_assoc op_of p (Suc (length ts')) lhs ts'))"
  unfolding consumes_def
  by (auto dest!: consumesD [OF assms] left_assoc_length [OF assms])

lemma level_returns:
  assumes "consumes p" "returns_below n p"
  shows "returns_below n (\<lambda>ts. and_then (p ts) (\<lambda>(lhs, ts'). left_assoc op_of p (Suc (length ts')) lhs ts'))"
  unfolding returns_below_def
proof (intro allI impI)
  fix ts :: "string list"
  assume ts: "length ts < n"
  have "left_assoc op_of p (Suc (length r)) l r \<noteq> Diverged \<and> left_assoc op_of p (Suc (length r)) l r \<noteq> Panicked"
    if "p ts = Ok (l, r)" for l r
    using consumesD [OF assms(1) that] ts by (intro left_assoc_returns [OF assms]) auto
  then show "and_then (p ts) (\<lambda>(lhs, ts'). left_assoc op_of p (Suc (length ts')) lhs ts') \<noteq> Diverged \<and>
      and_then (p ts) (\<lambda>(lhs, ts'). left_assoc op_of p (Suc (length ts')) lhs ts') \<noteq> Panicked"
    using assms(2) ts by (auto simp: returns_below_def)
qed

lemma expect_OkE:
  assumes "expect tok ts = Ok (u, r)" obtains "ts = tok # r"
  using assms by (cases ts) (auto simp: expect_def split: if_splits)

lemma parse_atom_Nil [simp]: "parse_atom inner [] = Err UnexpectedEnd"
  by (simp add: parse_atom_def)

lemma parse_atom_OkE:
  assumes "parse_atom inner ts = Ok (e, r)"
  obtains (paren) us where "ts = ''('' # us" "inner us = Ok (e, '')'' # r)"
  | (literal) tok v where "ts = tok # r" "tok \<noteq> ''(''" "parse_f64 tok = Some v" "e = Literal v"
  | (column) tok where "ts = tok # r" "tok \<noteq> ''(''" "parse_f64 tok = None" "is_ident tok" "e = Column tok"
proof (cases ts)
  case Nil
  with assms show ?thesis by (simp add: parse_atom_def)
next
  case (Cons tok us)
  show ?thesis
  proof (cases "tok = ''(''")
    case True
    with assms Cons obtain u ts'' where "inner us = Ok (e, ts'')" "expect '')'' ts'' = Ok (u, r)"
      by (auto simp: parse_atom_def)
    with True Cons paren show ?thesis by (metis expect_OkE)
  next
    case False
    with assms Cons literal column show ?thesis
      by (auto simp: parse_atom_def split: option.splits if_splits)
  qed
qed

lemma parse_atom_consumes: "consumes inner \<Longrightarrow> consumes (parse_atom inner)"
  unfolding consumes_def by (intro allI impI) (erule parse_atom_OkE, fastforce+)

lemma parse_atom_returns:
  assumes "returns_below n inner"
  shows "returns_below (Suc n) (parse_atom inner)"
  unfolding returns_below_def
proof (intro allI impI)
  fix ts :: "string list"
  assume "length ts < Suc n"
  then show "parse_atom inner ts \<noteq> Diverged \<and> parse_atom inner ts \<noteq> Panicked"
    using assms
    by (cases ts) (auto simp: parse_atom_def returns_below_def expect_def split: option.splits if_splits prod.splits)
qed

lemma parse_unary_OkE:
  assumes "parse_unary inner ts = Ok (e, r)"
  obtains (neg) us x where "ts = ''-'' # us" "parse_unary inner us = Ok (x, r)" "e = Unary Neg x"
  | (not) us x where "ts = ''not'' # us" "parse_unary inner us = Ok (x, r)" "e = Unary Not x"
  | (atom) t us where "ts = t # us" "t \<noteq> ''-''" "t \<noteq> ''not''" "parse_atom inner ts = Ok (e, r)"
proof (cases ts)
  case Nil
  with assms show ?thesis by (simp add: parse_atom_def)
next
  case (Cons t us)
  with assms neg not atom show ?thesis by (auto split: if_splits)
qed

lemma parse_unary_consumes: "consumes inner \<Longrightarrow> consumes (parse_unary inner)"
  unfolding consumes_def [of "parse_unary inner"]
proof (intro allI impI)
  fix ts e r
  assume inner: "consumes inner" and "parse_unary inner ts = Ok (e, r)"
  then show "length r < length ts"
  proof (induction ts arbitrary: e)
    case Nil
    then show ?case by simp
  next
    case (Cons t ts)
    from Cons.prems(2) show ?case
    proof (cases rule: parse_unary_OkE)
      case (neg us x)
      with Cons.IH [of x] inner show ?thesis by simp
    next
      case (not us x)
      with Cons.IH [of x] inner show ?thesis by simp
    next
      case (atom t us)
      then show ?thesis using consumesD [OF parse_atom_consumes [OF inner]] by blast
    qed
  qed
qed

lemma parse_unary_returns:
  assumes "returns_below n inner"
  shows "returns_below (Suc n) (parse_unary inner)"
  unfolding returns_below_def
proof (intro allI impI)
  fix ts :: "string list"
  assume "length ts < Suc n"
  then show "parse_unary inner ts \<noteq> Diverged \<and> parse_unary inner ts \<noteq> Panicked"
    using parse_atom_returns [OF assms]
    by (induction ts) (auto simp: returns_below_def)
qed

lemma parse_mul_consumes: "consumes inner \<Longrightarrow> consumes (parse_mul inner)"
  using level_consumes [OF parse_unary_consumes] by (simp add: parse_mul_def [abs_def])

lemma parse_add_consumes: "consumes inner \<Longrightarrow> consumes (parse_add inner)"
  using level_consumes [OF parse_mul_consumes] by (simp add: parse_add_def [abs_def])

lemma parse_cmp_OkE:
  assumes "parse_cmp inner ts = Ok (e, r)"
  obtains (single) "parse_add inner ts = Ok (e, r)" "Option.bind (peek r) cmp_op = None"
  | (compare) lhs t us op rhs where "parse_add inner ts = Ok (lhs, t # us)" "cmp_op t = Some op"
      "parse_add inner us = Ok (rhs, r)" "e = Binary lhs op rhs"
proof -
  from assms obtain lhs ts' where a: "parse_add inner ts = Ok (lhs, ts')"
    and b: "(case Option.bind (peek ts') cmp_op of
         Some op \<Rightarrow> and_then (parse_add inner (snd (advance ts'))) (\<lambda>(rhs, ts''). Ok (Binary lhs op rhs, ts''))
       | None \<Rightarrow> Ok (lhs, ts')) = Ok (e, r)"
    by (auto simp: parse_cmp_def)
  show ?thesis
  proof (cases "Option.bind (peek ts') cmp_op")
    case None
    with a b single show ?thesis by auto
  next
    case (Some op)
    then obtain t us where "ts' = t # us" "cmp_op t = Some op" by (cases ts') auto
    with a b compare Some show ?thesis by auto
  qed
qed

lemma parse_cmp_consumes: "consumes inner \<Longrightarrow> consumes (parse_cmp inner)"
  unfolding consumes_def [of "parse_cmp inner"]
proof (intro allI impI)
  fix ts e r
  assume inner: "consumes inner" and run: "parse_cmp inner ts = Ok (e, r)"
  note add = consumesD [OF parse_add_consumes [OF inner]]
  from run show "length r < length ts"
  proof (cases rule: parse_cmp_OkE)
    case single
    then show ?thesis using add by blast
  next
    case (compare lhs t us op rhs)
    then show ?thesis using add [of ts] add [of us] by fastforce
  qed
qed

lemma parse_and_consumes: "consumes inner \<Longrightarrow> consumes (parse_and inner)"
  using level_consumes [OF parse_cmp_consumes] by (simp add: parse_and_def [abs_def])

lemma parse_or_consumes: "consumes inner \<Longrightarrow> consumes (parse_or inner)"
  using level_consumes [OF parse_and_consumes] by (simp add: parse_or_def [abs_def])

lemma parse_all_consumes: "consumes (parse_all d)"
proof (induction d)
  case 0
  then show ?case by (simp add: consumes_def)
next
  case (Suc d)
  then show ?case using parse_or_consumes [OF Suc] by (simp add: consumes_def)
qed

lemma parse_mul_returns:
  "consumes inner \<Longrightarrow> returns_below n inner \<Longrightarrow> returns_below (Suc n) (parse_mul inner)"
  using level_returns [OF parse_unary_consumes parse_unary_returns] by (simp add: parse_mul_def [abs_def])

lemma parse_add_returns:
  "consumes inner \<Longrightarrow> returns_below n inner \<Longrightarrow> returns_below (Suc n) (parse_add inner)"
  using level_returns [OF parse_mul_consumes parse_mul_returns] by (simp add: parse_add_def [abs_def])

lemma parse_cmp_returns:
  assumes inner: "consumes inner" "returns_below n inner"
  shows "returns_below (Suc n) (parse_cmp inner)"
  unfolding returns_below_def
proof (intro allI impI)
  fix ts :: "string list"
  assume ts: "length ts < Suc n"
  have a: "parse_add inner us \<noteq> Diverged \<and> parse_add inner us \<noteq> Panicked" if "length us < Suc n" for us
    using parse_add_returns [OF inner] that by (simp add: returns_below_def)
  have "parse_add inner (tl r) \<noteq> Diverged \<and> parse_add inner (tl r) \<noteq> Panicked" if "parse_add inner ts = Ok (l, r)" for l r
    using consumesD [OF parse_add_consumes [OF inner(1)] that] ts by (intro a) simp
  then show "parse_cmp inner ts \<noteq> Diverged \<and> parse_cmp inner ts \<noteq> Panicked"
    using a [OF ts] by (auto simp: parse_cmp_def advance_def split: option.splits)
qed

lemma parse_and_returns:
  "consumes inner \<Longrightarrow> returns_below n inner \<Longrightarrow> returns_below (Suc n) (parse_and inner)"
  using level_returns [OF parse_cmp_consumes parse_cmp_returns] by (simp add: parse_and_def [abs_def])

lemma parse_or_returns:
  "consumes inner \<Longrightarrow> returns_below n inner \<Longrightarrow> returns_below (Suc n) (parse_or inner)"
  using level_returns [OF parse_and_consumes parse_and_returns] by (simp add: parse_or_def [abs_def])

lemma parse_all_returns: "returns_below d (parse_all d)"
proof (induction d)
  case 0
  then show ?case by (simp add: returns_below_def)
next
  case (Suc d)
  then show ?case using parse_or_returns [OF parse_all_consumes Suc] by (simp add: returns_below_def)
qed

lemma parse_expr_ends: "(\<exists>e. parse_expr source = Ok e) \<or> (\<exists>err. parse_expr source = Err err)"
proof -
  define ts where "ts = tokenize source"
  have "parse_all (Suc (length ts)) ts \<noteq> Diverged \<and> parse_all (Suc (length ts)) ts \<noteq> Panicked"
    using parse_all_returns [of "Suc (length ts)"] by (simp add: returns_below_def)
  then have "parse_expr source \<noteq> Diverged \<and> parse_expr source \<noteq> Panicked"
    by (auto simp: parse_expr_def parse_tokens_def ts_def [symmetric] split: prod.splits if_splits)
  then show ?thesis by (cases "parse_expr source") auto
qed

text \<open>Parsing any source ends with a tree or a parse error: the nesting depth that the
  model allows is never used up, no loop runs out of rounds and nothing panics.\<close>

theorem parse_expr_returns: "(\<exists>e. parse_expr source = Ok e) \<or> (\<exists>err. parse_expr source = Err err)"
  by (rule parse_expr_ends)

section \<open>The grammar\<close>

datatype syntax_class = Or_expr | And_expr | Cmp_expr | Add_expr | Mul_expr | Unary_expr | Atom

text \<open>The rules of the module comment, over what a prefix operator takes as its operand: in the comment
  an atom, so that there is at most one prefix; in the code again a prefixed expression.\<close>

inductive grammar :: "syntax_class \<Rightarrow> syntax_class \<Rightarrow> string list \<Rightarrow> expr \<Rightarrow> bool" for operand where
  or_single: "grammar operand And_expr ts e \<Longrightarrow> grammar operand Or_expr ts e"
| or_more: "grammar operand Or_expr ts l \<Longrightarrow> grammar operand And_expr us r \<Longrightarrow>
    grammar operand Or_expr (ts @ ''or'' # us) (Binary l Or r)"
| and_single: "grammar operand Cmp_expr ts e \<Longrightarrow> grammar operand And_expr ts e"
| and_more: "grammar operand And_expr ts l \<Longrightarrow> grammar operand Cmp_expr us r \<Longrightarrow>
    grammar operand And_expr (ts @ ''and'' # us) (Binary l And r)"
| cmp_single: "grammar operand Add_expr ts e \<Longrightarrow> grammar operand Cmp_expr ts e"
| cmp_pair: "grammar operand Add_expr ts l \<Longrightarrow> cmp_op t = Some op \<Longrightarrow> grammar operand Add_expr us r \<Longrightarrow>
    grammar operand Cmp_expr (ts @ t # us) (Binary l op r)"
| add_single: "grammar operand Mul_expr ts e \<Longrightarrow> grammar operand Add_expr ts e"
| add_more: "grammar operand Add_expr ts l \<Longrightarrow> add_op t = Some op \<Longrightarrow> grammar operand Mul_expr us r \<Longrightarrow>
    grammar operand Add_expr (ts @ t # us) (Binary l op r)"
| mul_single: "grammar operand Unary_expr ts e \<Longrightarrow> grammar operand Mul_expr ts e"
| mul_more: "grammar operand Mul_expr ts l \<Longrightarrow> mul_op t = Some op \<Longrightarrow> grammar operand Unary_expr us r \<Longrightarrow>
    grammar operand Mul_expr (ts @ t # us) (Binary l op r)"
| unary_atom: "grammar operand Atom ts e \<Longrightarrow> grammar operand Unary_expr ts e"
| unary_neg: "grammar operand operand ts e \<Longrightarrow> grammar operand Unary_expr (''-'' # ts) (Unary Neg e)"
| unary_not: "grammar operand operand ts e \<Longrightarrow> grammar operand Unary_expr (''not'' # ts) (Unary Not e)"
| atom_number: "parse_f64 tok = Some v \<Longrightarrow> grammar operand Atom [tok] (Literal v)"
| atom_ident: "parse_f64 tok = None \<Longrightarrow> is_ident tok \<Longrightarrow> tok \<noteq> ''not'' \<Longrightarrow> grammar operand Atom [tok] (Column tok)"
| atom_paren: "grammar operand Or_expr ts e \<Longrightarrow> grammar operand Atom (''('' # ts @ ['')'']) e"

abbreviation documented :: "syntax_class \<Rightarrow> string list \<Rightarrow> expr \<Rightarrow> bool" where
  "documented \<equiv> grammar Atom"

abbreviation derives :: "syntax_class \<Rightarrow> string list \<Rightarrow> expr \<Rightarrow> bool" where
  "derives \<equiv> grammar Unary_expr"

definition prefix_op :: "string \<Rightarrow> bool" where
  "prefix_op t \<longleftrightarrow> t = ''-'' \<or> t = ''not''"

inductive_cases unary_cases: "grammar operand Unary_expr ts e"

section \<open>What the parser accepts is derivable\<close>

definition accepts :: "syntax_class \<Rightarrow> expr parse \<Rightarrow> bool" where
  "accepts nt p \<longleftrightarrow> (\<forall>ts e r. p ts = Ok (e, r) \<longrightarrow> (\<exists>pre. ts = pre @ r \<and> derives nt pre e))"

lemma acceptsD: "accepts nt p \<Longrightarrow> p ts = Ok (e, r) \<Longrightarrow> \<exists>pre. ts = pre @ r \<and> derives nt pre e"
  by (auto simp: accepts_def)

lemma left_assoc_accepts:
  assumes p: "accepts low p"
    and more: "\<And>ts l t op us r. derives nt ts l \<Longrightarrow> op_of t = Some op \<Longrightarrow> derives low us r \<Longrightarrow>
      derives nt (ts @ t # us) (Binary l op r)"
  shows "derives nt pre lhs \<Longrightarrow> left_assoc op_of p n lhs ts = Ok (e, r) \<Longrightarrow>
    \<exists>mid. ts = mid @ r \<and> derives nt (pre @ mid) e"
proof (induction n arbitrary: pre lhs ts)
  case (Suc n)
  from Suc.prems(2) show ?case
  proof (cases rule: left_assoc_OkE)
    case stop
    with Suc.prems(1) show ?thesis by simp
  next
    case (step t us op rhs ts')
    from acceptsD [OF p step(3)] obtain q where q: "us = q @ ts'" "derives low q rhs" by blast
    from Suc.IH [OF more [OF Suc.prems(1) step(2) q(2)] step(4)]
    obtain mid where "ts' = mid @ r" "derives nt ((pre @ t # q) @ mid) e" by blast
    with step q show ?thesis by (intro exI [of _ "t # q @ mid"]) simp
  qed
qed simp

lemma level_accepts:
  assumes p: "accepts low p"
    and single: "\<And>ts e. derives low ts e \<Longrightarrow> derives nt ts e"
    and more: "\<And>ts l t op us r. derives nt ts l \<Longrightarrow> op_of t = Some op \<Longrightarrow> derives low us r \<Longrightarrow>
      derives nt (ts @ t # us) (Binary l op r)"
  shows "accepts nt (\<lambda>ts. and_then (p ts) (\<lambda>(lhs, ts'). left_assoc op_of p (Suc (length ts')) lhs ts'))"
  unfolding accepts_def
proof (intro allI impI)
  fix ts e r
  assume "and_then (p ts) (\<lambda>(lhs, ts'). left_assoc op_of p (Suc (length ts')) lhs ts') = Ok (e, r)"
  then obtain lhs ts' where run: "p ts = Ok (lhs, ts')" "left_assoc op_of p (Suc (length ts')) lhs ts' = Ok (e, r)"
    by auto
  from acceptsD [OF p run(1)] obtain pre where pre: "ts = pre @ ts'" "derives low pre lhs" by blast
  from left_assoc_accepts [where nt = nt, OF p more single [OF pre(2)] run(2)] pre(1)
  show "\<exists>pre. ts = pre @ r \<and> derives nt pre e" by fastforce
qed

lemma parse_unary_accepts:
  assumes inner: "accepts Or_expr inner"
  shows "accepts Unary_expr (parse_unary inner)"
  unfolding accepts_def
proof (intro allI impI)
  fix ts e r
  assume "parse_unary inner ts = Ok (e, r)"
  then show "\<exists>pre. ts = pre @ r \<and> derives Unary_expr pre e"
  proof (induction ts arbitrary: e)
    case (Cons t ts)
    from Cons.prems show ?case
    proof (cases rule: parse_unary_OkE)
      case (neg us x)
      with Cons.IH [of x] obtain pre where "us = pre @ r" "derives Unary_expr pre x" by auto
      with neg show ?thesis by (intro exI [of _ "''-'' # pre"]) (simp add: unary_neg)
    next
      case (not us x)
      with Cons.IH [of x] obtain pre where "us = pre @ r" "derives Unary_expr pre x" by auto
      with not show ?thesis by (intro exI [of _ "''not'' # pre"]) (simp add: unary_not)
    next
      case (atom t' us)
      from atom(4) show ?thesis
      proof (cases rule: parse_atom_OkE)
        case (paren ts')
        from acceptsD [OF inner paren(2)] obtain q where "ts' = q @ '')'' # r" "derives Or_expr q e" by blast
        with paren show ?thesis
          by (intro exI [of _ "''('' # q @ ['')'']"]) (simp add: unary_atom atom_paren)
      next
        case (literal tok v)
        then show ?thesis by (intro exI [of _ "[tok]"]) (simp add: unary_atom atom_number)
      next
        case (column tok)
        then show ?thesis using atom by (intro exI [of _ "[tok]"]) (simp add: unary_atom atom_ident)
      qed
    qed
  qed simp
qed

lemma parse_mul_accepts: "accepts Or_expr inner \<Longrightarrow> accepts Mul_expr (parse_mul inner)"
  unfolding parse_mul_def [abs_def] by (rule level_accepts [OF parse_unary_accepts]) (auto intro: mul_single mul_more)

lemma parse_add_accepts: "accepts Or_expr inner \<Longrightarrow> accepts Add_expr (parse_add inner)"
  unfolding parse_add_def [abs_def] by (rule level_accepts [OF parse_mul_accepts]) (auto intro: add_single add_more)

lemma parse_cmp_accepts:
  assumes "accepts Or_expr inner"
  shows "accepts Cmp_expr (parse_cmp inner)"
  unfolding accepts_def
proof (intro allI impI)
  fix ts e r
  assume "parse_cmp inner ts = Ok (e, r)"
  then show "\<exists>pre. ts = pre @ r \<and> derives Cmp_expr pre e"
  proof (cases rule: parse_cmp_OkE)
    case single
    from acceptsD [OF parse_add_accepts [OF assms] single(1)] show ?thesis by (auto intro: cmp_single)
  next
    case (compare lhs t us op rhs)
    note a = acceptsD [OF parse_add_accepts [OF assms]]
    from a [OF compare(1)] obtain p where "ts = p @ t # us" "derives Add_expr p lhs" by blast
    moreover from a [OF compare(3)] obtain q where "us = q @ r" "derives Add_expr q rhs" by blast
    ultimately show ?thesis using compare
      by (intro exI [of _ "p @ t # q"]) (simp add: cmp_pair)
  qed
qed

lemma or_op_Some [simp]: "or_op t = Some op \<longleftrightarrow> t = ''or'' \<and> op = Or"
  by (auto simp: or_op_def)

lemma and_op_Some [simp]: "and_op t = Some op \<longleftrightarrow> t = ''and'' \<and> op = And"
  by (auto simp: and_op_def)

lemma parse_and_accepts: "accepts Or_expr inner \<Longrightarrow> accepts And_expr (parse_and inner)"
  unfolding parse_and_def [abs_def] by (rule level_accepts [OF parse_cmp_accepts]) (auto intro: and_single and_more)

lemma parse_or_accepts: "accepts Or_expr inner \<Longrightarrow> accepts Or_expr (parse_or inner)"
  unfolding parse_or_def [abs_def] by (rule level_accepts [OF parse_and_accepts]) (auto intro: or_single or_more)

lemma parse_all_accepts: "accepts Or_expr (parse_all d)"
proof (induction d)
  case 0
  then show ?case by (simp add: accepts_def)
next
  case (Suc d)
  then show ?case using parse_or_accepts [OF Suc] by (simp add: accepts_def)
qed

section \<open>What is derivable the parser accepts\<close>

definition no_op :: "(string \<Rightarrow> bin_op option) \<Rightarrow> string list \<Rightarrow> bool" where
  "no_op op_of rest \<longleftrightarrow> Option.bind (peek rest) op_of = None"

text \<open>What may follow a phrase: no operator of a deeper level.\<close>

fun follow :: "syntax_class \<Rightarrow> string list \<Rightarrow> bool" where
  "follow Or_expr rest \<longleftrightarrow> no_op and_op rest \<and> no_op cmp_op rest \<and> no_op add_op rest \<and> no_op mul_op rest"
| "follow And_expr rest \<longleftrightarrow> no_op cmp_op rest \<and> no_op add_op rest \<and> no_op mul_op rest"
| "follow Cmp_expr rest \<longleftrightarrow> no_op cmp_op rest \<and> no_op add_op rest \<and> no_op mul_op rest"
| "follow Add_expr rest \<longleftrightarrow> no_op mul_op rest"
| "follow _ rest \<longleftrightarrow> True"

text \<open>The parser on a phrase with something behind it; a function with a loop is then at the top
  of the loop, with the phrase as its left operand.\<close>

fun runs :: "syntax_class \<Rightarrow> expr parse \<Rightarrow> string list \<Rightarrow> expr \<Rightarrow> string list \<Rightarrow> bool" where
  "runs Or_expr inner ts e rest \<longleftrightarrow>
     parse_or inner (ts @ rest) = left_assoc or_op (parse_and inner) (Suc (length rest)) e rest"
| "runs And_expr inner ts e rest \<longleftrightarrow>
     parse_and inner (ts @ rest) = left_assoc and_op (parse_cmp inner) (Suc (length rest)) e rest"
| "runs Cmp_expr inner ts e rest \<longleftrightarrow> parse_cmp inner (ts @ rest) = Ok (e, rest)"
| "runs Add_expr inner ts e rest \<longleftrightarrow>
     parse_add inner (ts @ rest) = left_assoc add_op (parse_mul inner) (Suc (length rest)) e rest"
| "runs Mul_expr inner ts e rest \<longleftrightarrow>
     parse_mul inner (ts @ rest) = left_assoc mul_op (parse_unary inner) (Suc (length rest)) e rest"
| "runs Unary_expr inner ts e rest \<longleftrightarrow> parse_unary inner (ts @ rest) = Ok (e, rest)"
| "runs Atom inner ts e rest \<longleftrightarrow>
     parse_atom inner (ts @ rest) = Ok (e, rest) \<and> ts \<noteq> [] \<and> hd ts \<noteq> ''-'' \<and> hd ts \<noteq> ''not''"

lemma left_assoc_no_op: "no_op op_of rest \<Longrightarrow> left_assoc op_of p (Suc n) e rest = Ok (e, rest)"
  by (cases rest) (auto simp: no_op_def)

lemma left_assoc_more:
  assumes "consumes p" "op_of t = Some op" "p (us @ rest) = Ok (r, rest)"
  shows "left_assoc op_of p (Suc (length (t # us @ rest))) l (t # us @ rest) =
    left_assoc op_of p (Suc (length rest)) (Binary l op r) rest"
proof -
  have "left_assoc op_of p (Suc (length (t # us @ rest))) l (t # us @ rest) =
      left_assoc op_of p (length (t # us @ rest)) (Binary l op r) rest"
    by (rule left_assoc_step) (use assms in auto)
  also have "\<dots> = left_assoc op_of p (Suc (length rest)) (Binary l op r) rest"
    by (rule left_assoc_fuel [OF assms(1)]) simp_all
  finally show ?thesis .
qed

lemma operator_levels:
  "cmp_op t = Some op \<Longrightarrow> add_op t = None \<and> mul_op t = None"
  "add_op t = Some op \<Longrightarrow> mul_op t = None"
  "and_op ''or'' = None" "cmp_op ''or'' = None" "add_op ''or'' = None" "mul_op ''or'' = None"
  "cmp_op ''and'' = None" "add_op ''and'' = None" "mul_op ''and'' = None"
  "and_op '')'' = None" "or_op '')'' = None" "cmp_op '')'' = None" "add_op '')'' = None" "mul_op '')'' = None"
  by (auto simp: cmp_op_def add_op_def mul_op_def and_op_def or_op_def split: if_splits)

lemma parse_f64_None: "parse_f64 ''('' = None" "parse_f64 ''-'' = None" "parse_f64 ''not'' = None"
  by (simp_all add: parse_f64_def parse_number_def parse_mantissa_def to_lower_def is_digit_def)

lemma parser_runs:
  "derives nt ts e \<Longrightarrow> length ts \<le> d \<Longrightarrow> follow nt rest \<Longrightarrow> runs nt (parse_all d) ts e rest"
proof (induction arbitrary: d rest rule: grammar.induct)
  case (or_single ts e)
  then have "runs And_expr (parse_all d) ts e rest" by simp
  then show ?case using or_single.prems by (simp add: parse_or_def left_assoc_no_op)
next
  case (or_more ts l us r)
  have "runs Or_expr (parse_all d) ts l (''or'' # us @ rest)"
    using or_more.prems by (intro or_more.IH) (simp_all add: no_op_def operator_levels)
  moreover have "runs And_expr (parse_all d) us r rest" using or_more by simp
  then have "parse_and (parse_all d) (us @ rest) = Ok (r, rest)"
    using or_more.prems by (simp add: left_assoc_no_op)
  ultimately show ?case
    using left_assoc_more [OF parse_and_consumes [OF parse_all_consumes], of or_op "''or''"] by simp
next
  case (and_single ts e)
  then have "runs Cmp_expr (parse_all d) ts e rest" by simp
  then show ?case by (simp add: parse_and_def)
next
  case (and_more ts l us r)
  have "runs And_expr (parse_all d) ts l (''and'' # us @ rest)"
    using and_more.prems by (intro and_more.IH) (simp_all add: no_op_def operator_levels)
  moreover have "runs Cmp_expr (parse_all d) us r rest" using and_more by simp
  then have "parse_cmp (parse_all d) (us @ rest) = Ok (r, rest)" by simp
  ultimately show ?case
    using left_assoc_more [OF parse_cmp_consumes [OF parse_all_consumes], of and_op "''and''"] by simp
next
  case (cmp_single ts e)
  then have "runs Add_expr (parse_all d) ts e rest" by simp
  then have "parse_add (parse_all d) (ts @ rest) = left_assoc add_op (parse_mul (parse_all d)) (Suc (length rest)) e rest"
    by simp
  also have "\<dots> = Ok (e, rest)" using cmp_single.prems by (simp add: left_assoc_no_op)
  finally show ?case using cmp_single.prems by (simp add: parse_cmp_def no_op_def)
next
  case (cmp_pair ts l t op us r)
  have a: "parse_add (parse_all d) (us @ rest) = Ok (r, rest)"
    using cmp_pair.IH(2) [of d rest] cmp_pair.prems by (simp add: left_assoc_no_op)
  have "parse_add (parse_all d) (ts @ t # us @ rest) = Ok (l, t # us @ rest)"
    using cmp_pair.IH(1) [of d "t # us @ rest"] cmp_pair.prems operator_levels(1) [OF cmp_pair.hyps(2)]
    by (simp add: no_op_def)
  with a cmp_pair.hyps(2) show ?case by (simp add: parse_cmp_def)
next
  case (add_single ts e)
  then have "runs Mul_expr (parse_all d) ts e rest" by simp
  then have "parse_mul (parse_all d) (ts @ rest) = Ok (e, rest)"
    using add_single.prems by (simp add: left_assoc_no_op)
  then show ?case by (simp add: parse_add_def)
next
  case (add_more ts l t op us r)
  have "runs Add_expr (parse_all d) ts l (t # us @ rest)"
    using add_more.prems operator_levels(2) [OF add_more.hyps(2)] by (intro add_more.IH) (simp_all add: no_op_def)
  moreover have "parse_mul (parse_all d) (us @ rest) = Ok (r, rest)"
    using add_more.IH(2) [of d rest] add_more.prems by (simp add: left_assoc_no_op)
  ultimately show ?case
    using left_assoc_more [OF parse_mul_consumes [OF parse_all_consumes], of add_op t op] add_more.hyps(2) by simp
next
  case (mul_single ts e)
  then have "runs Unary_expr (parse_all d) ts e rest" by simp
  then show ?case by (simp add: parse_mul_def)
next
  case (mul_more ts l t op us r)
  have "runs Mul_expr (parse_all d) ts l (t # us @ rest)" using mul_more.prems by (intro mul_more.IH) simp_all
  moreover have "parse_unary (parse_all d) (us @ rest) = Ok (r, rest)"
    using mul_more.IH(2) [of d rest] mul_more.prems by simp
  ultimately show ?case
    using left_assoc_more [OF parse_unary_consumes [OF parse_all_consumes], of mul_op t op] mul_more.hyps(2) by simp
next
  case (unary_atom ts e)
  then have a: "runs Atom (parse_all d) ts e rest" by simp
  then obtain t us where "ts = t # us" "t \<noteq> ''-''" "t \<noteq> ''not''" by (cases ts) auto
  with a show ?case by simp
next
  case (unary_neg ts e)
  then show ?case by simp
next
  case (unary_not ts e)
  then show ?case by simp
next
  case (atom_number tok v)
  then have "tok \<noteq> ''(''" "tok \<noteq> ''-''" "tok \<noteq> ''not''" using parse_f64_None by auto
  with atom_number show ?case by (simp add: parse_atom_def)
next
  case (atom_ident tok)
  then have "tok \<noteq> ''(''" "tok \<noteq> ''-''" by (auto simp: is_ident_def ident_start_def is_alphabetic_def)
  with atom_ident show ?case by (simp add: parse_atom_def)
next
  case (atom_paren ts e)
  then obtain d' where d': "d = Suc d'" "length ts \<le> d'" by (cases d) auto
  have "runs Or_expr (parse_all d') ts e ('')'' # rest)"
    using d' by (intro atom_paren.IH) (simp_all add: no_op_def operator_levels)
  then have "parse_all d (ts @ '')'' # rest) = Ok (e, '')'' # rest)"
    using d' by (simp add: left_assoc_no_op no_op_def operator_levels)
  then show ?case by (simp add: parse_atom_def expect_def)
qed

lemma parse_tokens_derives: "derives Or_expr ts e \<Longrightarrow> parse_tokens ts = Ok e"
proof -
  assume "derives Or_expr ts e"
  then have "runs Or_expr (parse_all (length ts)) ts e []" by (rule parser_runs) (simp_all add: no_op_def)
  then show "parse_tokens ts = Ok e" by (simp add: parse_tokens_def)
qed

section \<open>The documented grammar\<close>

lemma documented_derives: "documented nt ts e \<Longrightarrow> derives nt ts e"
  by (induction rule: grammar.induct) (auto intro: grammar.intros)

text \<open>Where no two prefix operators meet every prefix of a derivation stands before an atom.\<close>

lemma unary_operand:
  assumes "documented Unary_expr ts e" "ts \<noteq> [] \<Longrightarrow> \<not> prefix_op (hd ts)"
  shows "documented Atom ts e"
  using assms by (auto elim: unary_cases simp: prefix_op_def)

lemma derives_documented:
  "derives nt ts e \<Longrightarrow> successively (\<lambda>a b. \<not> (prefix_op a \<and> prefix_op b)) ts \<Longrightarrow> documented nt ts e"
proof (induction rule: grammar.induct)
  case (unary_neg ts e)
  then have "documented Atom ts e" by (intro unary_operand) (auto simp: successively_Cons prefix_op_def)
  then show ?case by (rule grammar.unary_neg)
next
  case (unary_not ts e)
  then have "documented Atom ts e" by (intro unary_operand) (auto simp: successively_Cons prefix_op_def)
  then show ?case by (rule grammar.unary_not)
qed (auto simp: successively_append_iff successively_Cons intro: grammar.intros)

text \<open>No documented list starts with two prefix operators, or is one.\<close>

lemma documented_start:
  "documented nt ts e \<Longrightarrow> ts \<noteq> [] \<and> (prefix_op (hd ts) \<longrightarrow> nt \<noteq> Atom \<and> (\<exists>t us. tl ts = t # us \<and> \<not> prefix_op t))"
proof (induction rule: grammar.induct)
  case (unary_neg ts e)
  then show ?case by (cases ts) auto
next
  case (unary_not ts e)
  then show ?case by (cases ts) auto
next
  case (atom_number tok v)
  then show ?case using parse_f64_None by (auto simp: prefix_op_def)
next
  case (atom_ident tok)
  then show ?case by (auto simp: prefix_op_def is_ident_def ident_start_def is_alphabetic_def)
qed (auto simp: prefix_op_def neq_Nil_conv)

text \<open>Claim C36: the parser accepts exactly the token lists of the grammar of the module comment with the
  prefix operators read as the code reads them, any number of them one after the other, and the tree
  it builds is the one of the derivation: \<open>or\<close> binds weaker than \<open>and\<close>, then comparisons, sums,
  products and prefixes, the binary levels associate to the left. The grammar as it is documented,
  with at most one prefix before an atom, is a part of it: the parser accepts every documented list
  with its tree, and a list it accepts is documented unless two prefix operators meet in it.\<close>

theorem parser_accepts_grammar:
  "(parse_tokens ts = Ok e \<longleftrightarrow> derives Or_expr ts e) \<and>
   (documented Or_expr ts e \<longrightarrow> parse_tokens ts = Ok e) \<and>
   (parse_tokens ts = Ok e \<and> successively (\<lambda>a b. \<not> (prefix_op a \<and> prefix_op b)) ts \<longrightarrow> documented Or_expr ts e)"
proof -
  have "derives Or_expr ts e" if "parse_tokens ts = Ok e"
  proof -
    from that have "parse_all (Suc (length ts)) ts = Ok (e, [])"
      by (auto simp: parse_tokens_def split: if_splits)
    from acceptsD [OF parse_all_accepts this] show ?thesis by auto
  qed
  then show ?thesis using parse_tokens_derives documented_derives derives_documented by blast
qed

lemma unary_alone: "grammar operand Unary_expr ts e \<Longrightarrow> grammar operand Or_expr ts e"
  by (intro or_single and_single cmp_single add_single mul_single)

lemma parser_accepts_grammar_witness:
  "documented Or_expr [''-'', ''x''] (Unary Neg (Column ''x'')) \<and> parse_tokens [''-'', ''x''] = Ok (Unary Neg (Column ''x'')) \<and>
   parse_tokens [''-'', ''-'', ''x''] = Ok (Unary Neg (Unary Neg (Column ''x''))) \<and>
   \<not> documented Or_expr [''-'', ''-'', ''x''] (Unary Neg (Unary Neg (Column ''x'')))"
proof -
  have x: "grammar g Atom [''x''] (Column ''x'')" for g
    by (rule atom_ident) (simp_all add: parse_f64_def parse_number_def parse_mantissa_def to_lower_def is_digit_def
        is_ident_def ident_start_def is_alphabetic_def)
  have one: "documented Or_expr [''-'', ''x''] (Unary Neg (Column ''x''))"
    by (rule unary_alone [OF unary_neg [OF x]])
  have two: "derives Or_expr [''-'', ''-'', ''x''] (Unary Neg (Unary Neg (Column ''x'')))"
    by (rule unary_alone [OF unary_neg [OF unary_neg [OF unary_atom [OF x]]]])
  have "\<not> documented Or_expr [''-'', ''-'', ''x''] (Unary Neg (Unary Neg (Column ''x'')))"
    using documented_start [of Or_expr "[''-'', ''-'', ''x'']"] by (force simp: prefix_op_def)
  with one two show ?thesis
    using parser_accepts_grammar [of "[''-'', ''x'']" "Unary Neg (Column ''x'')"]
      parser_accepts_grammar [of "[''-'', ''-'', ''x'']" "Unary Neg (Unary Neg (Column ''x''))"] by blast
qed

end
