(* ===== verification/Expression_Properties.thy ===== *)
theory Expression_Properties
  imports Expression_Grammar
begin

text \<open>
  Properties of the expression engine: printing and parsing are inverse, the evaluator fails
  exactly on missing columns and zero divisors, and what the operators return.
\<close>

section \<open>The tokens of a printed expression\<close>

definition word_op :: "unary_op \<Rightarrow> string" where
  "word_op op = (case op of Neg \<Rightarrow> ''-'' | Not \<Rightarrow> ''not'')"

fun printed_tokens :: "expr \<Rightarrow> string list" where
  "printed_tokens (Literal v) = [show_expr (Literal v)]"
| "printed_tokens (Column name) = [name]"
| "printed_tokens (Binary l op r) = ''('' # printed_tokens l @ show_bin_op op # printed_tokens r @ ['')'']"
| "printed_tokens (Unary op x) = ''('' # word_op op # printed_tokens x @ ['')'']"

text \<open>The trees that can be written down: literals are finite and not negative, column names are
  lower-case identifiers other than \<open>not\<close> and the words that parse as a number.\<close>

fun literal_ok :: "f64 \<Rightarrow> bool" where
  "literal_ok (Finite s m e) \<longleftrightarrow> \<not> s \<and> is_f64 (Finite s m e)"
| "literal_ok _ \<longleftrightarrow> False"

definition column_ok :: "string \<Rightarrow> bool" where
  "column_ok name \<longleftrightarrow> is_ident name \<and> list_all ident_char name \<and> map to_lower name = name \<and>
     name \<notin> {''not'', ''inf'', ''infinity'', ''nan''}"

fun printable :: "expr \<Rightarrow> bool" where
  "printable (Literal v) \<longleftrightarrow> literal_ok v"
| "printable (Column name) \<longleftrightarrow> column_ok name"
| "printable (Binary l op r) \<longleftrightarrow> printable l \<and> printable r"
| "printable (Unary op x) \<longleftrightarrow> printable x"

lemma literal_text:
  assumes "literal_ok v"
  shows "parse_f64 (show_expr (Literal v)) = Some v"
    and "show_expr (Literal v) \<noteq> []" and "\<forall>c \<in> set (show_expr (Literal v)). number_char c"
proof -
  obtain m e where v: "v = Finite False m e" and f: "is_f64 (Finite False m e)"
    using assms by (cases v) auto
  have nat: "\<forall>c \<in> set (show_nat n). number_char c" for n
    using show_nat_chars by (auto simp: number_char_def)
  have int: "\<forall>c \<in> set (show_f64_integral v). number_char c" "show_f64_integral v \<noteq> []"
    using nat by (auto simp: v)
  have "set (show_f64 v) \<subseteq> Collect number_char \<and> show_f64 v \<noteq> []"
  proof (cases "0 \<le> e \<or> m mod 2 ^ nat (- e) = 0")
    case True
    then show ?thesis using nat by (auto simp: v)
  next
    case False
    have "nat (- e) < 1 + 1075" "1 \<le> nat (- e)" using f False by (auto simp: min_exponent_def)
    with shortest_decimal_found [OF f, of 1 1075] False
    obtain n p where s: "shortest_decimal 1075 m (nat (- e)) 1 (Finite False m e) = Some (n, p)" by fastforce
    from shortest_decimal_Some [OF s] have "0 < p" by simp
    then obtain A B where "decimal_point n p = A @ ''.'' @ B" "list_all is_digit (A @ B)"
      by (rule decimal_point_parts [of p n])
    then show ?thesis using False s by (auto simp: v number_char_def list_all_iff)
  qed
  then have f64: "\<forall>c \<in> set (show_f64 v). number_char c" "show_f64 v \<noteq> []" by auto
  show "show_expr (Literal v) \<noteq> []" "\<forall>c \<in> set (show_expr (Literal v)). number_char c"
    using int f64 by simp_all
  have "parse_f64 (show_f64_integral v) = Some v" if eq: "f64_eq v (f64_trunc v)"
    unfolding v by (rule show_integral_value [OF f]) (use trunc_eq_integral [OF f] eq v in blast)
  moreover have "parse_f64 (show_f64 v) = Some v" unfolding v by (rule parse_show_f64 [OF f])
  ultimately show "parse_f64 (show_expr (Literal v)) = Some v" by (simp only: show_expr.simps split: if_split) blast
qed

lemma column_not_number:
  assumes "column_ok name"
  shows "parse_f64 name = None"
proof -
  obtain c cs where n: "name = c # cs" and c: "ident_start c" and low: "map to_lower name = name"
    and w: "name \<notin> {''inf'', ''infinity'', ''nan''}"
    using assms by (cases name) (auto simp: column_ok_def is_ident_def)
  have nd: "\<not> is_digit c" "c \<noteq> CHR ''.''" "c \<noteq> CHR ''-''" "c \<noteq> CHR ''+''"
    using c by (auto simp: ident_start_def is_alphabetic_def is_digit_def Let_def)
  have m: "parse_mantissa (takeWhile (\<lambda>c. to_lower c \<noteq> CHR ''e'') name) = None"
  proof (cases "to_lower c = CHR ''e''")
    case True
    then show ?thesis by (simp add: n parse_mantissa_def)
  next
    case False
    then obtain r where r: "takeWhile (\<lambda>c. to_lower c \<noteq> CHR ''e'') name = c # r" by (simp add: n)
    have "c \<in> set a \<union> set b" if "split_once ''.'' (c # r) = Some (a, b)" for a b
      using split_once_char_Some [OF that] nd by (cases a) auto
    then show ?thesis using nd unfolding r
      by (auto simp: parse_mantissa_def list_all_iff split: option.splits)
  qed
  show ?thesis using w nd low m by (simp add: parse_f64_def parse_number_def n Let_def)
qed

section \<open>The tokenizer on printed text\<close>

definition ends_word :: "string \<Rightarrow> bool" where
  "ends_word rest \<longleftrightarrow> rest = [] \<or> hd rest = CHR '' '' \<or> hd rest = CHR '')''"

lemma number_not: "number_char c \<Longrightarrow> \<not> is_blank c \<and> c \<noteq> CHR ''('' \<and> c \<noteq> CHR '')'' \<and> c \<notin> set ''<>=!'' \<and> c \<notin> set ''+-*/''"
  by (auto simp: number_char_def is_digit_def is_blank_def)

lemma ident_not:
  "ident_start c \<Longrightarrow> \<not> is_blank c \<and> c \<noteq> CHR ''('' \<and> c \<noteq> CHR '')'' \<and> c \<notin> set ''<>=!'' \<and> c \<notin> set ''+-*/'' \<and> \<not> number_char c"
  by (auto simp: ident_start_def is_alphabetic_def number_char_def is_digit_def is_blank_def Let_def)

lemma boundary: "\<not> number_char (CHR '' '')" "\<not> number_char (CHR '')'')" "\<not> ident_char (CHR '' '')" "\<not> ident_char (CHR '')'')"
  by (simp_all add: number_char_def ident_char_def is_alphanumeric_def is_alphabetic_def is_digit_def)

lemma ends_word_cases: "ends_word rest \<Longrightarrow> (rest = [] \<Longrightarrow> P) \<Longrightarrow> (\<And>r. rest = CHR '' '' # r \<Longrightarrow> P) \<Longrightarrow> (\<And>r. rest = CHR '')'' # r \<Longrightarrow> P) \<Longrightarrow> P"
  by (cases rest) (auto simp: ends_word_def)

lemma span_word:
  assumes "\<forall>c \<in> set w. Q c" "rest = [] \<or> \<not> Q (hd rest)"
  shows "takeWhile Q (w @ rest) = w" "dropWhile Q (w @ rest) = rest"
  using assms by (cases rest; simp)+

lemma tokenize_number:
  assumes "w \<noteq> []" "\<forall>c \<in> set w. number_char c" "ends_word rest"
  shows "tokenize (w @ rest) = w # tokenize rest"
proof -
  obtain c cs where w: "w = c # cs" using assms(1) by (cases w) auto
  have b: "rest = [] \<or> \<not> number_char (hd rest)" using assms(3) boundary by (auto simp: ends_word_def)
  have "\<forall>c \<in> set cs. number_char c" using assms(2) by (simp add: w)
  from span_word [OF this b] assms(2) number_not [of c] show ?thesis by (simp add: w)
qed

lemma tokenize_ident:
  assumes "is_ident w" "list_all ident_char w" "map to_lower w = w" "ends_word rest"
  shows "tokenize (w @ rest) = w # tokenize rest"
proof -
  obtain c cs where w: "w = c # cs" and c: "ident_start c" using assms(1) by (cases w) (auto simp: is_ident_def)
  have b: "rest = [] \<or> \<not> ident_char (hd rest)" using assms(4) boundary by (auto simp: ends_word_def)
  have "\<forall>c \<in> set cs. ident_char c" using assms(2) by (simp add: w list_all_iff)
  from span_word [OF this b] assms(2,3) ident_not [OF c] c show ?thesis by (simp add: w)
qed

lemma is_blank_space [simp]: "is_blank (CHR '' '')"
  by (simp add: is_blank_def)

lemma tokenize_punctuation [simp]:
  "tokenize (CHR '' '' # cs) = tokenize cs"
  "tokenize (CHR ''('' # cs) = ''('' # tokenize cs"
  "tokenize (CHR '')'' # cs) = '')'' # tokenize cs"
  "tokenize (CHR ''-'' # cs) = ''-'' # tokenize cs"
  by (simp_all add: is_blank_def)

declare tokenize.simps(2) [simp del]

lemma ident_words:
  "is_ident ''and''" "is_ident ''or''" "is_ident ''not''"
  "list_all ident_char ''and''" "list_all ident_char ''or''" "list_all ident_char ''not''"
  "map to_lower ''and'' = ''and''" "map to_lower ''or'' = ''or''" "map to_lower ''not'' = ''not''"
  by (simp_all add: is_ident_def ident_start_def ident_char_def is_alphanumeric_def is_alphabetic_def to_lower_def)

lemma tokenize_bin_op: "tokenize (show_bin_op op @ CHR '' '' # cs) = show_bin_op op # tokenize cs"
proof (cases op)
  case And
  then show ?thesis using tokenize_ident [OF ident_words(1,4,7), of "CHR '' '' # cs"] by (simp add: ends_word_def)
next
  case Or
  then show ?thesis using tokenize_ident [OF ident_words(2,5,8), of "CHR '' '' # cs"] by (simp add: ends_word_def)
qed (simp_all add: tokenize.simps(2) is_blank_def)

lemma tokenize_unary_op: "tokenize (show_unary_op op @ cs) = word_op op # tokenize cs"
  using tokenize_ident [OF ident_words(3,6,9), of "CHR '' '' # cs"]
  by (cases op) (simp_all add: word_op_def ends_word_def)

lemma tokenize_show_expr:
  "printable e \<Longrightarrow> ends_word rest \<Longrightarrow> tokenize (show_expr e @ rest) = printed_tokens e @ tokenize rest"
proof (induction e arbitrary: rest)
  case (Literal v)
  then show ?case using tokenize_number [OF literal_text(2,3)] by (simp del: show_expr.simps)
next
  case (Column name)
  then show ?case using tokenize_ident by (simp add: column_ok_def)
next
  case (Binary l op r)
  have "tokenize (show_expr l @ '' '' @ show_bin_op op @ '' '' @ show_expr r @ '')'' @ rest) =
      printed_tokens l @ tokenize ('' '' @ show_bin_op op @ '' '' @ show_expr r @ '')'' @ rest)"
    using Binary.prems by (intro Binary.IH) (simp_all add: ends_word_def)
  moreover have "tokenize (show_expr r @ '')'' @ rest) = printed_tokens r @ tokenize ('')'' @ rest)"
    using Binary.prems by (intro Binary.IH) (simp_all add: ends_word_def)
  ultimately show ?case by (simp add: tokenize_bin_op)
next
  case (Unary op x)
  have "tokenize (show_expr x @ '')'' @ rest) = printed_tokens x @ tokenize ('')'' @ rest)"
    using Unary.prems by (intro Unary.IH) (simp_all add: ends_word_def)
  then show ?case by (simp add: tokenize_unary_op)
qed

section \<open>Parsing printed text\<close>

lemma add_levels:
  assumes "derives Add_expr ts e"
  shows "derives Cmp_expr ts e" "derives And_expr ts e" "derives Or_expr ts e"
proof -
  show c: "derives Cmp_expr ts e" using assms by (rule cmp_single)
  show a: "derives And_expr ts e" using c by (rule and_single)
  show "derives Or_expr ts e" using a by (rule or_single)
qed

lemma unary_levels:
  assumes "derives Unary_expr ts e"
  shows "derives Mul_expr ts e" "derives Add_expr ts e" "derives Cmp_expr ts e" "derives And_expr ts e"
    "derives Or_expr ts e"
  using add_levels [OF add_single [OF mul_single [OF assms]]] mul_single [OF assms] add_single [OF mul_single [OF assms]]
  by simp_all

lemma binary_derives:
  assumes "derives Atom ts l" "derives Atom us r"
  shows "derives Or_expr (ts @ show_bin_op op # us) (Binary l op r)"
proof -
  note l = unary_levels [OF unary_atom [OF assms(1)]] and r = unary_levels [OF unary_atom [OF assms(2)]]
  note ur = unary_atom [OF assms(2)]
  consider (sum) "add_op (show_bin_op op) = Some op" | (product) "mul_op (show_bin_op op) = Some op"
    | (compare) "cmp_op (show_bin_op op) = Some op" | (conj) "op = And" | (disj) "op = Or"
    by (cases op) (simp_all add: cmp_op_def add_op_def mul_op_def)
  then show ?thesis
  proof cases
    case sum
    show ?thesis by (rule add_levels(3) [OF add_more [OF l(2) sum r(1)]])
  next
    case product
    show ?thesis by (rule add_levels(3) [OF add_single [OF mul_more [OF l(1) product ur]]])
  next
    case compare
    show ?thesis by (rule or_single [OF and_single [OF cmp_pair [OF l(2) compare r(2)]]])
  next
    case conj
    then show ?thesis using or_single [OF and_more [OF l(4) r(3)]] by simp
  next
    case disj
    then show ?thesis using or_more [OF l(5) r(4)] by simp
  qed
qed

lemma printed_derives: "printable e \<Longrightarrow> derives Atom (printed_tokens e) e"
proof (induction e)
  case (Literal v)
  then show ?case using literal_text(1) by (simp add: atom_number del: show_expr.simps)
next
  case (Column name)
  then show ?case using column_not_number by (simp add: atom_ident column_ok_def)
next
  case (Binary l op r)
  then show ?case using atom_paren [OF binary_derives] by simp
next
  case (Unary op x)
  then have "derives Unary_expr (word_op op # printed_tokens x) (Unary op x)"
    by (cases op) (simp_all add: word_op_def unary_neg unary_not unary_atom)
  from atom_paren [OF unary_levels(5) [OF this]] show ?case by simp
qed

lemma parse_show_expr:
  assumes "printable e"
  shows "parse_expr (show_expr e) = Ok e"
proof -
  have "tokenize (show_expr e) = printed_tokens e"
    using tokenize_show_expr [OF assms, of "[]"] by (simp add: ends_word_def)
  then show ?thesis
    using parse_tokens_derives [OF unary_levels(5) [OF unary_atom [OF printed_derives [OF assms]]]] by (simp add: parse_expr_def)
qed

text \<open>Claim C37: parsing the text of an expression gives the expression back, whatever the operators and
  their nesting, for every tree that can be written down: its literals finite and not negative, which
  come back to the bit, and its columns lower-case identifiers other than \<open>not\<close>, \<open>inf\<close>,
  \<open>infinity\<close> and \<open>nan\<close>.\<close>

theorem print_parse_round_trip: "printable e \<Longrightarrow> parse_expr (show_expr e) = Ok e"
  by (rule parse_show_expr)

lemma column_temp: "column_ok ''temp''"
  by (simp add: column_ok_def is_ident_def ident_start_def ident_char_def is_alphanumeric_def is_alphabetic_def to_lower_def)

lemma print_parse_round_trip_witness:
  "parse_expr (show_expr (Unary Not (Binary (Column ''temp'') Mul (Literal f64_one)))) =
     Ok (Unary Not (Binary (Column ''temp'') Mul (Literal f64_one)))"
  by (rule print_parse_round_trip) (simp add: column_temp f64_one_def min_exponent_def max_exponent_def)

section \<open>When evaluation fails\<close>

fun columns :: "expr \<Rightarrow> string set" where
  "columns (Literal v) = {}"
| "columns (Column name) = {name}"
| "columns (Binary l op r) = columns l \<union> columns r"
| "columns (Unary op x) = columns x"

fun divisors :: "expr \<Rightarrow> expr set" where
  "divisors (Binary l op r) = divisors l \<union> divisors r \<union> (if op = Div then {r} else {})"
| "divisors (Unary op x) = divisors x"
| "divisors _ = {}"

lemma eval_binary_None [simp]: "eval_binary op a b = None \<longleftrightarrow> op = Div \<and> f64_eq b f64_zero"
  by (cases op) auto

text \<open>Claim C38: evaluation has no result exactly when a column of the expression is missing from the
  record or the right operand of some division evaluates to zero; both operands of \<open>and\<close> and \<open>or\<close>
  are always evaluated, so this holds also for operands that cannot change the result.\<close>

theorem eval_fails_iff:
  "eval e rec = None \<longleftrightarrow>
     (\<exists>c \<in> columns e. rec c = None) \<or>
     (\<exists>d \<in> divisors e. \<exists>v. eval d rec = Some v \<and> f64_eq v f64_zero)"
proof (induction e)
  case (Binary l op r)
  show ?case
    by (cases "eval l rec"; cases "eval r rec")
      (use Binary in \<open>auto simp: bex_Un\<close>)
qed simp_all

section \<open>Equality\<close>

lemma f64_le_total: "x \<noteq> NaN \<Longrightarrow> y \<noteq> NaN \<Longrightarrow> f64_le x y \<or> f64_le y x"
  by (cases x; cases y) (auto simp: Let_def min.commute)

lemma f64_le_NaN [simp]: "\<not> f64_le x NaN" "\<not> f64_le NaN x"
  by (cases x; simp)+

lemma f64_abs_NaN [simp]: "f64_abs x = NaN \<longleftrightarrow> x = NaN"
  by (cases x) auto

text \<open>The operator \<open>!=\<close> is the negation of \<open>==\<close> whenever the difference of the operands is a number;
  when it is not (a NaN operand, or two equal infinities) both are false.\<close>

theorem equality_operators:
  assumes "eval l rec = Some a" and "eval r rec = Some b"
  shows "eval (Binary l Neq r) rec =
           (if f64_sub a b = NaN then Some f64_zero
            else map_option (\<lambda>v. bool_f64 (v = f64_zero)) (eval (Binary l Eq r) rec)) \<and>
         (f64_sub a b = NaN \<longrightarrow> eval (Binary l Eq r) rec = Some f64_zero)"
proof (intro conjI impI)
  have z: "bool_f64 p = f64_zero \<longleftrightarrow> \<not> p" for p
    by (simp add: bool_f64_def f64_zero_def f64_one_def)
  have "f64_lt (f64_abs d) f64_epsilon \<longleftrightarrow> \<not> f64_le f64_epsilon (f64_abs d)" if "d \<noteq> NaN" for d
    using f64_le_total [of "f64_abs d" f64_epsilon] that by (auto simp: f64_lt_def f64_epsilon_def)
  then show "eval (Binary l Neq r) rec =
      (if f64_sub a b = NaN then Some f64_zero
       else map_option (\<lambda>v. bool_f64 (v = f64_zero)) (eval (Binary l Eq r) rec))"
    using assms by (simp add: z)
  assume "f64_sub a b = NaN"
  then show "eval (Binary l Eq r) rec = Some f64_zero"
    using assms by (simp add: f64_lt_def bool_f64_def)
qed

lemma equality_operators_witness:
  "\<exists>inf. f64_sub inf inf = NaN \<and>
     eval (Binary (Literal inf) Eq (Literal inf)) Map.empty = Some f64_zero \<and>
     eval (Binary (Literal inf) Neq (Literal inf)) Map.empty = Some f64_zero"
proof -
  have n: "f64_sub (Infinite False) (Infinite False) = NaN" by (simp add: f64_sub_def)
  have e: "eval (Literal (Infinite False)) Map.empty = Some (Infinite False)" by simp
  have "eval (Binary (Literal (Infinite False)) Eq (Literal (Infinite False))) Map.empty = Some f64_zero"
    using equality_operators [OF e e] n by blast
  moreover have "eval (Binary (Literal (Infinite False)) Neq (Literal (Infinite False))) Map.empty = Some f64_zero"
    using equality_operators [OF e e] n by presburger
  ultimately show ?thesis using n by blast
qed

end
