(* ===== verification/Pipeline.thy ===== *)
theory Pipeline
  imports Expression_Properties
begin

text \<open>
  Operator pipelines, \<open>crates/dsline-pipeline/src/lib.rs\<close>. An operator is a closure with captured
  state (\<open>FnMut\<close>): a function from the input to an action on that state. A stream and a sink are
  dictionaries of their trait's methods. The loop of \<open>run\<close> has fuel, because a stream need not end.
\<close>

section \<open>Streams and sinks\<close>

record ('src, 'i) stream_ops =
  op_poll_next :: "('src, dsline_error, 'i option) action"

record ('k, 'o) sink_ops =
  op_poll_send :: "'o \<Rightarrow> ('k, dsline_error, unit) action"
  op_close :: "('k, dsline_error, unit) action"

text \<open>The trait's default \<open>close\<close>.\<close>

definition default_close :: "('k, dsline_error, unit) action" where
  "default_close = return ()"

text \<open>\<open>IterStream\<close> over the items its iterator still has to give.\<close>

fun iter_poll_next :: "('i result list, dsline_error, 'i option) action" where
  "iter_poll_next [] = (Ok None, [])"
| "iter_poll_next (x # xs) = (map_outcome Some x, xs)"

definition iter_stream :: "('i result list, 'i) stream_ops" where
  "iter_stream = \<lparr>op_poll_next = iter_poll_next\<rparr>"

text \<open>\<open>CollectSink\<close> is the vector of its items.\<close>

definition CollectSink_new :: "'o list" where
  "CollectSink_new = []"

definition collect_poll_send :: "'o \<Rightarrow> ('o list, dsline_error, unit) action" where
  "collect_poll_send item = modify (\<lambda>items. items @ [item])"

definition collect_into_items :: "'o list \<Rightarrow> 'o list" where
  "collect_into_items items = items"

definition collect_sink :: "('o list, 'o) sink_ops" where
  "collect_sink = \<lparr>op_poll_send = collect_poll_send, op_close = default_close\<rparr>"

section \<open>Operators\<close>

type_synonym ('s, 'i, 'o) operator = "'i \<Rightarrow> ('s, dsline_error, 'o list) action"

record ('s, 'i, 'o) pipeline =
  pipe_op :: "('s, 'i, 'o) operator"
  pipe_state :: 's

definition pipeline_identity :: "(unit, 'i, 'i) pipeline" where
  "pipeline_identity = \<lparr>pipe_op = \<lambda>x. return [x], pipe_state = ()\<rparr>"

text \<open>The loop of \<open>pipe\<close>: the outputs of \<open>next\<close> on each intermediate item, in order.\<close>

fun extend_all :: "('t, 'm, 'o) operator \<Rightarrow> 'm list \<Rightarrow> 'o list \<Rightarrow> ('t, dsline_error, 'o list) action" where
  "extend_all nxt [] acc = return acc"
| "extend_all nxt (mid # mids) acc = bind (nxt mid) (\<lambda>outs. extend_all nxt mids (acc @ outs))"

definition pipe :: "('s, 'i, 'm) pipeline \<Rightarrow> ('t, 'm, 'o) operator \<Rightarrow> 't \<Rightarrow> ('s \<times> 't, 'i, 'o) pipeline" where
  "pipe p nxt t =
     \<lparr>pipe_op = \<lambda>input.
        bind (zoom fst (\<lambda>s st. (s, snd st)) (pipe_op p input)) (\<lambda>mids.
        zoom snd (\<lambda>u st. (fst st, u)) (extend_all nxt mids [])),
      pipe_state = (pipe_state p, t)\<rparr>"

section \<open>Running\<close>

record ('s, 'src, 'k) run_state =
  run_op :: 's
  run_source :: 'src
  run_sink :: 'k

definition on_op :: "('s, 'e, 'a) action \<Rightarrow> (('s, 'src, 'k) run_state, 'e, 'a) action" where
  "on_op = zoom run_op (\<lambda>s r. r\<lparr>run_op := s\<rparr>)"

definition on_source :: "('src, 'e, 'a) action \<Rightarrow> (('s, 'src, 'k) run_state, 'e, 'a) action" where
  "on_source = zoom run_source (\<lambda>s r. r\<lparr>run_source := s\<rparr>)"

definition on_sink :: "('k, 'e, 'a) action \<Rightarrow> (('s, 'src, 'k) run_state, 'e, 'a) action" where
  "on_sink = zoom run_sink (\<lambda>s r. r\<lparr>run_sink := s\<rparr>)"

fun run_loop ::
  "nat \<Rightarrow> ('s, 'i, 'o) operator \<Rightarrow> ('src, 'i) stream_ops \<Rightarrow> ('k, 'o) sink_ops \<Rightarrow>
   (('s, 'src, 'k) run_state, dsline_error, unit) action" where
  "run_loop 0 opr src snk = diverge"
| "run_loop (Suc n) opr src snk =
     bind (on_source (op_poll_next src)) (\<lambda>polled.
     case polled of
       None \<Rightarrow> return ()
     | Some item \<Rightarrow>
         bind (on_op (opr item)) (\<lambda>outputs.
         seq (for_each outputs (\<lambda>output. on_sink (op_poll_send snk output)))
             (run_loop n opr src snk)))"

text \<open>\<open>run\<close> gives the sink back when nothing failed.\<close>

definition pipeline_run ::
  "nat \<Rightarrow> ('s, 'i, 'o) pipeline \<Rightarrow> ('src, 'i) stream_ops \<Rightarrow> 'src \<Rightarrow> ('k, 'o) sink_ops \<Rightarrow> 'k \<Rightarrow> 'k result" where
  "pipeline_run fuel p src source snk sink =
     fst (seq (run_loop fuel (pipe_op p) src snk)
         (seq (on_sink (op_close snk)) (gets run_sink))
         \<lparr>run_op = pipe_state p, run_source = source, run_sink = sink\<rparr>)"

section \<open>Expression operators\<close>

definition parse_or_config :: "string \<Rightarrow> string \<Rightarrow> expr result" where
  "parse_or_config msg source =
     (case parse_expr source of
        Ok ast \<Rightarrow> Ok ast
      | Err _ \<Rightarrow> ChanErr (InvalidConfig msg)
      | Panicked \<Rightarrow> Panicked
      | Diverged \<Rightarrow> Diverged)"

definition filter_expr :: "('i \<Rightarrow> row) \<Rightarrow> string \<Rightarrow> (unit, 'i, 'i) operator result" where
  "filter_expr record_of source =
     map_outcome
       (\<lambda>ast item. return (if eval_bool ast (record_of item) = Some True then [item] else []))
       (parse_or_config ''invalid filter expression'' source)"

definition map_expr :: "('i \<Rightarrow> row) \<Rightarrow> string \<Rightarrow> (unit, 'i, f64) operator result" where
  "map_expr record_of source =
     map_outcome
       (\<lambda>ast item. return [case eval ast (record_of item) of Some v \<Rightarrow> v | None \<Rightarrow> NaN])
       (parse_or_config ''invalid map expression'' source)"

section \<open>A run over an iterator\<close>

lemma extend_all_acc:
  "extend_all nxt mids acc s = (case extend_all nxt mids [] s of (r, s') \<Rightarrow> (map_outcome (\<lambda>outs. acc @ outs) r, s'))"
proof (induction mids arbitrary: acc s)
  case (Cons mid mids)
  obtain r s' where n: "nxt mid s = (r, s')" by (cases "nxt mid s")
  show ?case
  proof (cases r)
    case (Ok outs)
    obtain q u where "extend_all nxt mids [] s' = (q, u)" by (cases "extend_all nxt mids [] s'")
    then show ?thesis
      using n Ok Cons.IH [of "acc @ outs" s'] Cons.IH [of outs s'] by (cases q) simp_all
  qed (simp_all add: n)
qed simp

lemma collect_all:
  "for_each outs (\<lambda>output. on_sink (op_poll_send collect_sink output)) r =
     (Ok (), r\<lparr>run_sink := run_sink r @ outs\<rparr>)"
  by (induction outs arbitrary: r) (simp_all add: on_sink_def collect_sink_def collect_poll_send_def)

text \<open>The items of the iterator, an \<open>Err\<close> among them being the failure of the source.\<close>

definition on_item :: "('s, 'i, 'o) operator \<Rightarrow> ('s, 'i result, 'o) operator" where
  "on_item opr item = bind (lift item) opr"

lemma on_item_simps [simp]:
  "on_item opr (Ok x) s = opr x s"
  "on_item opr (Err e) s = (Err e, s)"
  "on_item opr Panicked s = (Panicked, s)"
  "on_item opr Diverged s = (Diverged, s)"
  by (simp_all add: on_item_def)

lemma run_loop_collects:
  "length xs < fuel \<Longrightarrow>
   fst (seq (run_loop fuel opr iter_stream collect_sink) (seq (on_sink (op_close collect_sink)) (gets run_sink))
     \<lparr>run_op = s, run_source = xs, run_sink = k\<rparr>) =
   map_outcome (\<lambda>outs. k @ outs) (fst (extend_all (on_item opr) xs [] s))"
proof (induction xs arbitrary: fuel s k)
  case Nil
  then obtain n where "fuel = Suc n" by (cases fuel) auto
  then show ?case
    by (simp add: on_source_def iter_stream_def on_sink_def collect_sink_def default_close_def)
next
  case (Cons x xs)
  then obtain n where n: "fuel = Suc n" "length xs < n" by (cases fuel) auto
  show ?case
  proof (cases x)
    case (Ok item)
    obtain r s' where o: "opr item s = (r, s')" by (cases "opr item s")
    show ?thesis
    proof (cases r)
      case (Ok outs)
      obtain q u where e: "extend_all (on_item opr) xs [] s' = (q, u)"
        by (cases "extend_all (on_item opr) xs [] s'")
      note acc = extend_all_acc [of "on_item opr" xs outs s']
      have "run_loop fuel opr iter_stream collect_sink \<lparr>run_op = s, run_source = x # xs, run_sink = k\<rparr> =
          run_loop n opr iter_stream collect_sink \<lparr>run_op = s', run_source = xs, run_sink = k @ outs\<rparr>"
        using \<open>x = Ok item\<close> o Ok n(1)
        by (simp add: on_source_def iter_stream_def on_op_def collect_all split: prod.split outcome.split)
      then show ?thesis
        using Cons.IH [OF n(2), of s' "k @ outs"] \<open>x = Ok item\<close> o Ok acc e
        by (cases q) simp_all
    qed (simp_all add: n(1) \<open>x = Ok item\<close> o on_source_def iter_stream_def on_op_def)
  qed (simp_all add: n(1) on_source_def iter_stream_def)
qed

text \<open>Claim C39: a run over an iterator into a collecting sink ends with the sink's items followed by
  the outputs of the operator on the items in order, or with the first error that the source or the
  operator raises, whatever state the operator keeps; the loop needs one round per item and one more.\<close>

theorem run_collects_outputs:
  assumes "length xs < fuel"
  shows "pipeline_run fuel p iter_stream xs collect_sink sink =
         map_outcome (\<lambda>outs. sink @ outs) (fst (extend_all (on_item (pipe_op p)) xs [] (pipe_state p)))"
  unfolding pipeline_run_def by (rule run_loop_collects [OF assms])

lemma run_collects_outputs_witness:
  "\<exists>e. pipeline_run 3 (pipe pipeline_identity (\<lambda>x. return [x, x]) ()) iter_stream
       [Ok (1 :: nat), Err e] collect_sink [0] = Err e"
proof -
  fix e :: dsline_error
  show ?thesis
    by (subst run_collects_outputs) (auto simp: pipe_def pipeline_identity_def)
qed

section \<open>Stages that never fail\<close>

lemma extend_all_pure: "extend_all (\<lambda>x. return (F x)) xs acc s = (Ok (acc @ concat (map F xs)), s)"
  by (induction xs arbitrary: acc) simp_all

lemma extend_all_items_pure:
  "(\<And>x s. opr x s = (Ok (F x), s)) \<Longrightarrow>
   extend_all (on_item opr) (map Ok xs) acc s = (Ok (acc @ concat (map F xs)), s)"
  by (induction xs arbitrary: acc) simp_all

lemma pipe_pure:
  "pipe_op (pipe p (\<lambda>x. return (F x)) ()) input (s, u) =
     (case pipe_op p input s of (r, s') \<Rightarrow> (map_outcome (\<lambda>mids. concat (map F mids)) r, (s', u)))"
  by (cases "pipe_op p input s"; cases "fst (pipe_op p input s)")
    (simp_all add: pipe_def extend_all_pure)

text \<open>Two loops whose operators agree along a map of their states agree.\<close>

definition map_op_state :: "('s \<Rightarrow> 't) \<Rightarrow> ('s, 'src, 'k) run_state \<Rightarrow> ('t, 'src, 'k) run_state" where
  "map_op_state h r = \<lparr>run_op = h (run_op r), run_source = run_source r, run_sink = run_sink r\<rparr>"

lemma map_op_state_sink [simp]: "run_sink (map_op_state h r) = run_sink r"
  by (simp add: map_op_state_def)

lemma map_op_state_on:
  "on_source m (map_op_state h r) = (case on_source m r of (q, r') \<Rightarrow> (q, map_op_state h r'))"
  "on_sink k (map_op_state h r) = (case on_sink k r of (q', r') \<Rightarrow> (q', map_op_state h r'))"
  by (auto simp: on_source_def on_sink_def map_op_state_def split: prod.split)

lemma map_op_state_sink_loop:
  "for_each outs (\<lambda>x. on_sink (f x)) (map_op_state h r) =
   (case for_each outs (\<lambda>x. on_sink (f x)) r of (q, r') \<Rightarrow> (q, map_op_state h r'))"
proof (induction outs arbitrary: r)
  case (Cons x outs)
  obtain q r' where "on_sink (f x) r = (q, r')" by (cases "on_sink (f x) r")
  then show ?case by (cases q) (simp_all add: map_op_state_on Cons.IH)
qed simp

lemma map_op_state_on_op:
  assumes "\<And>x s. opr' x (h s) = (case opr x s of (q, s') \<Rightarrow> (q, h s'))"
  shows "on_op (opr' x) (map_op_state h r) = (case on_op (opr x) r of (q, r') \<Rightarrow> (q, map_op_state h r'))"
  using assms [of x "run_op r"] by (auto simp: on_op_def map_op_state_def split: prod.splits)

lemma run_loop_map_state:
  assumes sim: "\<And>x s. opr' x (h s) = (case opr x s of (q, s') \<Rightarrow> (q, h s'))"
  shows "run_loop n opr' src snk (map_op_state h r) =
    (case run_loop n opr src snk r of (q, r') \<Rightarrow> (q, map_op_state h r'))"
proof (induction n arbitrary: r)
  case (Suc n)
  obtain q r1 where p: "on_source (op_poll_next src) r = (q, r1)" by (cases "on_source (op_poll_next src) r")
  show ?case
  proof (cases "\<exists>item. q = Ok (Some item)")
    case True
    then obtain item where q: "q = Ok (Some item)" by blast
    obtain o2 r2 where o2: "on_op (opr item) r1 = (o2, r2)" by (cases "on_op (opr item) r1")
    note o2' = map_op_state_on_op [of opr' h opr item r1, OF sim]
    show ?thesis
    proof (cases o2)
      case (Ok outs)
      obtain w r3 where w: "for_each outs (\<lambda>output. on_sink (op_poll_send snk output)) r2 = (w, r3)"
        by (cases "for_each outs (\<lambda>output. on_sink (op_poll_send snk output)) r2")
      show ?thesis
        by (cases w) (simp_all add: map_op_state_on p q o2 o2' Ok map_op_state_sink_loop w Suc.IH)
    qed (simp_all add: map_op_state_on p q o2 o2')
  next
    case False
    then show ?thesis
      by (cases q) (auto simp: map_op_state_on p split: option.split)
  qed
qed simp

text \<open>Two stages that never fail can be fused into one: over any stream and sink, and
  whatever stands before them, the run gives the same result.\<close>

theorem pipe_stages_fuse:
  fixes p :: "('s, 'i, 'm) pipeline"
  shows "pipeline_run fuel (pipe (pipe p (\<lambda>x. return (F x)) ()) (\<lambda>y. return (G y)) ()) src source snk sink =
   pipeline_run fuel (pipe p (\<lambda>x. return (concat (map G (F x)))) ()) src source snk sink"
proof -
  define h where "h = (\<lambda>st :: ('s \<times> unit) \<times> unit. (fst (fst st), ()))"
  define two where "two = pipe (pipe p (\<lambda>x. return (F x)) ()) (\<lambda>y. return (G y)) ()"
  define one where "one = pipe p (\<lambda>x. return (concat (map G (F x)))) ()"
  have fuse: "concat (map G (concat (map F mids))) = concat (map (\<lambda>x. concat (map G (F x))) mids)" for mids
    by (induction mids) simp_all
  have sim: "pipe_op one x (h s) = (case pipe_op two x s of (q, s') \<Rightarrow> (q, h s'))" for x s
  proof -
    obtain s0 where s: "s = ((s0, ()), ())" by (metis prod.exhaust unit_eq)
    obtain q s' where "pipe_op p x s0 = (q, s')" by (cases "pipe_op p x s0")
    then show ?thesis by (cases q) (simp_all add: s h_def one_def two_def pipe_pure fuse)
  qed
  have start: "\<lparr>run_op = pipe_state one, run_source = source, run_sink = sink\<rparr> =
      map_op_state h \<lparr>run_op = pipe_state two, run_source = source, run_sink = sink\<rparr>"
    by (simp add: map_op_state_def h_def one_def two_def pipe_def)
  obtain q r where two: "run_loop fuel (pipe_op two) src snk
      \<lparr>run_op = pipe_state two, run_source = source, run_sink = sink\<rparr> = (q, r)"
    by (cases "run_loop fuel (pipe_op two) src snk \<lparr>run_op = pipe_state two, run_source = source, run_sink = sink\<rparr>")
  have one: "run_loop fuel (pipe_op one) src snk
      \<lparr>run_op = pipe_state one, run_source = source, run_sink = sink\<rparr> = (q, map_op_state h r)"
    unfolding start run_loop_map_state [of "pipe_op one" h "pipe_op two", OF sim] two by simp
  obtain q' r' where "on_sink (op_close snk) r = (q', r')" by (cases "on_sink (op_close snk) r")
  then show ?thesis unfolding two_def [symmetric] one_def [symmetric] pipeline_run_def
    by (cases q; cases q') (simp_all add: one two map_op_state_on)
qed

text \<open>A filter stage passes exactly the items on which its expression evaluates to a
  non-zero number, in order; an item on which it cannot be evaluated is dropped. A source text that
  does not parse is refused when the stage is built.\<close>

theorem filter_keeps_matching:
  assumes "length items < fuel"
  shows "case parse_expr source of
           Ok ast \<Rightarrow> \<exists>keep. filter_expr record_of source = Ok keep \<and>
             pipeline_run fuel (pipe pipeline_identity keep ()) iter_stream (map Ok items) collect_sink CollectSink_new =
             Ok (filter (\<lambda>i. \<exists>v. eval ast (record_of i) = Some v \<and> \<not> f64_eq v f64_zero) items)
         | _ \<Rightarrow> filter_expr record_of source = ChanErr (InvalidConfig ''invalid filter expression'')"
  using parse_expr_ends [of source]
proof (elim disjE exE)
  fix ast
  assume "parse_expr source = Ok ast"
  define F where "F = (\<lambda>item. if eval_bool ast (record_of item) = Some True then [item] else [])"
  have keep: "filter_expr record_of source = Ok (\<lambda>item. return (F item))"
    by (simp add: filter_expr_def parse_or_config_def \<open>parse_expr source = Ok ast\<close> F_def)
  have opr: "pipe_op (pipe pipeline_identity (\<lambda>item. return (F item)) ()) x s = (Ok (F x), s)" for x s
    by (cases s) (simp add: pipe_pure, simp add: pipeline_identity_def)
  have sel: "concat (map F items) = filter (\<lambda>i. \<exists>v. eval ast (record_of i) = Some v \<and> \<not> f64_eq v f64_zero) items"
    by (induction items) (auto simp: F_def eval_bool_def nonzero_def)
  have "pipeline_run fuel (pipe pipeline_identity (\<lambda>item. return (F item)) ()) iter_stream (map Ok items)
      collect_sink CollectSink_new = Ok (concat (map F items))"
    unfolding pipeline_run_def
    by (subst run_loop_collects) (simp_all add: assms extend_all_items_pure [OF opr] CollectSink_new_def)
  with keep sel \<open>parse_expr source = Ok ast\<close> show ?thesis by auto
next
  fix e
  assume "parse_expr source = Err e"
  then show ?thesis by (simp add: filter_expr_def parse_or_config_def)
qed

lemma filter_keeps_matching_witness:
  "\<exists>keep. filter_expr id (show_expr (Column ''temp'')) = Ok keep \<and>
     pipeline_run 3 (pipe pipeline_identity keep ()) iter_stream
       (map Ok [[''temp'' \<mapsto> f64_one], Map.empty]) collect_sink CollectSink_new = Ok [[''temp'' \<mapsto> f64_one]]"
proof -
  have p: "parse_expr (show_expr (Column ''temp'')) = Ok (Column ''temp'')"
    by (rule parse_show_expr) (simp add: column_temp)
  have one: "\<not> f64_eq f64_one f64_zero"
    by (simp add: f64_eq_def f64_one_def f64_zero_def align_def signed_def min_exponent_def)
  show ?thesis
    using filter_keeps_matching [of "[[''temp'' \<mapsto> f64_one], Map.empty]" 3 id "show_expr (Column ''temp'')"] p one by simp
qed

end
