(* ===== verification/Py_Pipeline.thy ===== *)
theory Py_Pipeline
  imports Py_Channel Pipeline Transport
begin

text \<open>
  \<open>PyPipeline\<close> of \<open>crates/dsline-python/src/lib.rs\<close>: items, operators, the transport source, and the
  run of the operators over an iterator of the interpreter. Callables and iterators are actions on the
  interpreter's world; an iterator need not end, so the loop of \<open>collect\<close> has fuel.
\<close>

section \<open>Items\<close>

datatype item = ItemFloat f64 | ItemDict row | ItemBatch "item list"

text \<open>The loop over a dict: a key must be a string, a value that is no number is skipped.\<close>

fun dict_row :: "('o, 'w, 'x) python \<Rightarrow> ('o \<times> 'o) list \<Rightarrow> row \<Rightarrow> ('x, row) py_result" where
  "dict_row py [] m = Ok m"
| "dict_row py ((k, v) # rest) m =
     and_then (py_extract_str py k) (\<lambda>key.
     dict_row py rest (case py_extract_f64 py v of Some x \<Rightarrow> m(key \<mapsto> x) | None \<Rightarrow> m))"

definition from_py :: "('o, 'w, 'x) python \<Rightarrow> 'o \<Rightarrow> ('x, item) py_result" where
  "from_py py obj =
     (case py_dict_items py obj of
        Some kvs \<Rightarrow> map_outcome ItemDict (dict_row py kvs Map.empty)
      | None \<Rightarrow> map_outcome ItemFloat
          (ok_or (py_extract_f64 py obj) (PyErr PyValueError ''pipeline item must be a number or dict[str, number]'')))"

fun to_py :: "('o, 'w, 'x) python \<Rightarrow> item \<Rightarrow> 'o" where
  "to_py py (ItemFloat v) = py_float py v"
| "to_py py (ItemDict m) = py_dict py m"
| "to_py py (ItemBatch items) = py_list py (map (to_py py) items)"

text \<open>\<open>RecordAdapter\<close>: the columns an expression sees.\<close>

fun as_record :: "item \<Rightarrow> row" where
  "as_record (ItemFloat v) = [''x'' \<mapsto> v]"
| "as_record (ItemDict m) = m"
| "as_record (ItemBatch _) = Map.empty"

section \<open>Operators\<close>

type_synonym ('o, 'w, 'x) callable = "'o \<Rightarrow> ('w, 'x, 'o) py_action"

datatype ('o, 'w, 'x) pipeline_op =
    FilterExpr expr
  | MapExpr expr
  | FilterPy "('o, 'w, 'x) callable"
  | MapPy "('o, 'w, 'x) callable"
  | MapPyBatch "('o, 'w, 'x) callable"
  | FilterPyBatch "('o, 'w, 'x) callable"
  | BatchOf usize
  | SelectDict "string list"

definition call_map :: "('o, 'w, 'x) python \<Rightarrow> ('o, 'w, 'x) callable \<Rightarrow> item \<Rightarrow> ('w, 'x, item) py_action" where
  "call_map py f it = bind (f (to_py py it)) (\<lambda>result. lift (from_py py result))"

definition call_test :: "('o, 'w, 'x) python \<Rightarrow> ('o, 'w, 'x) callable \<Rightarrow> item \<Rightarrow> ('w, 'x, bool) py_action" where
  "call_test py f it = bind (f (to_py py it)) (py_truthy py)"

fun map_elements :: "('o, 'w, 'x) python \<Rightarrow> ('o, 'w, 'x) callable \<Rightarrow> item list \<Rightarrow> item list \<Rightarrow> ('w, 'x, item list) py_action" where
  "map_elements py f [] acc = return acc"
| "map_elements py f (e # es) acc = bind (call_map py f e) (\<lambda>r. map_elements py f es (acc @ [r]))"

fun filter_elements :: "('o, 'w, 'x) python \<Rightarrow> ('o, 'w, 'x) callable \<Rightarrow> item list \<Rightarrow> item list \<Rightarrow> ('w, 'x, item list) py_action" where
  "filter_elements py f [] acc = return acc"
| "filter_elements py f (e # es) acc =
     bind (call_test py f e) (\<lambda>t. filter_elements py f es (if t then acc @ [e] else acc))"

fun select_columns :: "string list \<Rightarrow> item \<Rightarrow> item" where
  "select_columns cols (ItemDict m) = ItemDict (m |` set cols)"
| "select_columns cols it = it"

text \<open>One operator on one item; \<open>None\<close> when a filter drops it.\<close>

fun run_op :: "('o, 'w, 'x) python \<Rightarrow> ('o, 'w, 'x) pipeline_op \<Rightarrow> item \<Rightarrow> ('w, 'x, item option) py_action" where
  "run_op py (FilterExpr ast) it =
     return (if eval_bool ast (as_record it) = Some True then Some it else None)"
| "run_op py (MapExpr ast) it =
     return (Some (ItemFloat (case eval ast (as_record it) of Some v \<Rightarrow> v | None \<Rightarrow> NaN)))"
| "run_op py (FilterPy f) it = bind (call_test py f it) (\<lambda>t. return (if t then Some it else None))"
| "run_op py (MapPy f) it = bind (call_map py f it) (\<lambda>r. return (Some r))"
| "run_op py (MapPyBatch f) (ItemBatch es) = bind (map_elements py f es []) (\<lambda>rs. return (Some (ItemBatch rs)))"
| "run_op py (MapPyBatch f) it = bind (call_map py f it) (\<lambda>r. return (Some r))"
| "run_op py (FilterPyBatch f) (ItemBatch es) = bind (filter_elements py f es []) (\<lambda>rs. return (Some (ItemBatch rs)))"
| "run_op py (FilterPyBatch f) it = bind (call_test py f it) (\<lambda>t. return (if t then Some it else None))"
| "run_op py (SelectDict cols) it = return (Some (select_columns cols it))"
| "run_op py (BatchOf _) it = return (Some it)"

fun run_ops :: "('o, 'w, 'x) python \<Rightarrow> ('o, 'w, 'x) pipeline_op list \<Rightarrow> item \<Rightarrow> ('w, 'x, item option) py_action" where
  "run_ops py [] it = return (Some it)"
| "run_ops py (op # ops) it =
     bind (run_op py op it) (\<lambda>nxt.
     case nxt of None \<Rightarrow> return None | Some it' \<Rightarrow> run_ops py ops it')"

section \<open>Building a pipeline\<close>

record ('o, 'w, 'x) py_pipeline =
  pl_ops :: "('o, 'w, 'x) pipeline_op list"
  pl_transport_source :: "string option"

type_synonym ('o, 'w, 'x, 'a) build_action = "(('o, 'w, 'x) py_pipeline, 'x, 'a) py_action"

definition pipeline_new :: "('o, 'w, 'x) py_pipeline" where
  "pipeline_new = \<lparr>pl_ops = [], pl_transport_source = None\<rparr>"

definition add_op :: "('o, 'w, 'x) pipeline_op \<Rightarrow> ('o, 'w, 'x, unit) build_action" where
  "add_op op = modify (\<lambda>p. p\<lparr>pl_ops := pl_ops p @ [op]\<rparr>)"

text \<open>The text of a parse error, wrapped by the stage.\<close>

definition parse_stage :: "string \<Rightarrow> string \<Rightarrow> ('x, expr) py_result" where
  "parse_stage msg source =
     map_err (\<lambda>e. PyErr PipelineBuildError (msg @ show_parse_error e)) (parse_expr source)"

definition pipeline_filter_expr :: "string \<Rightarrow> ('o, 'w, 'x, unit) build_action" where
  "pipeline_filter_expr source =
     bind (lift (parse_stage ''invalid filter expression: '' source)) (\<lambda>ast. add_op (FilterExpr ast))"

definition pipeline_map_expr :: "string \<Rightarrow> ('o, 'w, 'x, unit) build_action" where
  "pipeline_map_expr source =
     bind (lift (parse_stage ''invalid map expression: '' source)) (\<lambda>ast. add_op (MapExpr ast))"

definition pipeline_filter_py :: "('o, 'w, 'x) callable \<Rightarrow> ('o, 'w, 'x, unit) build_action" where
  "pipeline_filter_py f = add_op (FilterPy f)"

definition pipeline_map_py :: "('o, 'w, 'x) callable \<Rightarrow> ('o, 'w, 'x, unit) build_action" where
  "pipeline_map_py f = add_op (MapPy f)"

definition pipeline_map_py_batch :: "('o, 'w, 'x) callable \<Rightarrow> ('o, 'w, 'x, unit) build_action" where
  "pipeline_map_py_batch f = add_op (MapPyBatch f)"

definition pipeline_filter_py_batch :: "('o, 'w, 'x) callable \<Rightarrow> ('o, 'w, 'x, unit) build_action" where
  "pipeline_filter_py_batch f = add_op (FilterPyBatch f)"

definition pipeline_batch :: "usize \<Rightarrow> ('o, 'w, 'x, unit) build_action" where
  "pipeline_batch n =
     (if n = 0 then fail (PyErr PyValueError ''batch size must be greater than zero'') else add_op (BatchOf n))"

definition pipeline_select :: "string list \<Rightarrow> ('o, 'w, 'x, unit) build_action" where
  "pipeline_select cols = add_op (SelectDict cols)"

definition pipeline_repr :: "('o, 'w, 'x) py_pipeline \<Rightarrow> string" where
  "pipeline_repr p =
     (if pl_ops p = [] then ''Pipeline(empty)''
      else ''Pipeline('' @ show_nat (length (pl_ops p)) @ '' stages)'')"

section \<open>Collecting\<close>

text \<open>\<open>position\<close> of the first batch operator.\<close>

fun is_batch :: "('o, 'w, 'x) pipeline_op \<Rightarrow> bool" where
  "is_batch (BatchOf _) = True"
| "is_batch _ = False"

fun batch_of :: "('o, 'w, 'x) pipeline_op list \<Rightarrow> usize option" where
  "batch_of [] = None"
| "batch_of (BatchOf n # ops) = Some n"
| "batch_of (_ # ops) = batch_of ops"

definition pre_ops :: "('o, 'w, 'x) pipeline_op list \<Rightarrow> ('o, 'w, 'x) pipeline_op list" where
  "pre_ops ops = takeWhile (\<lambda>op. \<not> is_batch op) ops"

definition post_ops :: "('o, 'w, 'x) pipeline_op list \<Rightarrow> ('o, 'w, 'x) pipeline_op list" where
  "post_ops ops = tl (dropWhile (\<lambda>op. \<not> is_batch op) ops)"

text \<open>The world with the iterator.\<close>

definition on_world :: "('w, 'x, 'a) py_action \<Rightarrow> ('i \<times> 'w, 'x, 'a) py_action" where
  "on_world = zoom snd (\<lambda>w p. (fst p, w))"

text \<open>The rest of the operators on an item, the result at the end of the list.\<close>

definition append_result ::
  "('o, 'w, 'x) python \<Rightarrow> ('o, 'w, 'x) pipeline_op list \<Rightarrow> item \<Rightarrow> 'o list \<Rightarrow> ('i \<times> 'w, 'x, 'o list) py_action" where
  "append_result py post it results =
     bind (on_world (run_ops py post it)) (\<lambda>processed.
     return (case processed of Some p \<Rightarrow> results @ [to_py py p] | None \<Rightarrow> results))"

fun collect_loop ::
  "nat \<Rightarrow> ('o, 'w, 'x) python \<Rightarrow> ('i \<times> 'w, 'x, 'o option) py_action \<Rightarrow> ('o, 'w, 'x) pipeline_op list \<Rightarrow>
   item list \<Rightarrow> 'o list \<Rightarrow> ('i \<times> 'w, 'x, item list \<times> 'o list) py_action" where
  "collect_loop 0 py iter_next ops buf results = diverge"
| "collect_loop (Suc fuel) py iter_next ops buf results =
     bind iter_next (\<lambda>polled.
     case polled of
       None \<Rightarrow> return (buf, results)
     | Some py_item \<Rightarrow>
         bind (lift (from_py py py_item)) (\<lambda>it0.
         bind (on_world (run_ops py (pre_ops ops) it0)) (\<lambda>ran.
         case ran of
           None \<Rightarrow> collect_loop fuel py iter_next ops buf results
         | Some it \<Rightarrow>
             (case batch_of ops of
                Some n \<Rightarrow>
                  if length (buf @ [it]) \<ge> n then
                    bind (append_result py (post_ops ops) (ItemBatch (buf @ [it])) results) (\<lambda>results'.
                    collect_loop fuel py iter_next ops [] results')
                  else collect_loop fuel py iter_next ops (buf @ [it]) results
              | None \<Rightarrow>
                  bind (append_result py (post_ops ops) it results) (\<lambda>results'.
                  collect_loop fuel py iter_next ops buf results')))))"

text \<open>The trailing partial batch.\<close>

definition flush_batch ::
  "('o, 'w, 'x) python \<Rightarrow> ('o, 'w, 'x) pipeline_op list \<Rightarrow> item list \<times> 'o list \<Rightarrow> ('i \<times> 'w, 'x, 'o list) py_action" where
  "flush_batch py ops =
     (\<lambda>(buf, results). if buf = [] then return results else append_result py (post_ops ops) (ItemBatch buf) results)"

definition collect_results ::
  "nat \<Rightarrow> ('o, 'w, 'x) python \<Rightarrow> ('i \<times> 'w, 'x, 'o option) py_action \<Rightarrow> ('o, 'w, 'x) pipeline_op list \<Rightarrow>
   item list \<Rightarrow> 'o list \<Rightarrow> ('i \<times> 'w, 'x, 'o list) py_action" where
  "collect_results fuel py iter_next ops buf results =
     bind (collect_loop fuel py iter_next ops buf results) (flush_batch py ops)"

definition collect_over ::
  "nat \<Rightarrow> ('o, 'w, 'x) python \<Rightarrow> ('i \<times> 'w, 'x, 'o option) py_action \<Rightarrow> ('o, 'w, 'x) pipeline_op list \<Rightarrow>
   ('i \<times> 'w, 'x, 'o) py_action" where
  "collect_over fuel py iter_next ops =
     bind (collect_results fuel py iter_next ops [] []) (\<lambda>results. return (py_list py results))"

text \<open>The iterator of a list.\<close>

fun list_next :: "('o list \<times> 'w, 'x, 'o option) py_action" where
  "list_next ([], w) = (Ok None, ([], w))"
| "list_next (o' # os, w) = (Ok (Some o'), (os, w))"

definition collect_list ::
  "('o, 'w, 'x) python \<Rightarrow> ('o, 'w, 'x) pipeline_op list \<Rightarrow> 'o list \<Rightarrow> ('w, 'x, 'o) py_action" where
  "collect_list py ops items w =
     (case collect_over (length items + 1) py list_next ops (items, w) of (r, (_, w')) \<Rightarrow> (r, w'))"

section \<open>Transport sources\<close>

definition py_parse_url :: "string \<Rightarrow> ('x, transport_url) py_result" where
  "py_parse_url url = map_err (\<lambda>e. PyErr PyValueError (display_dsline_error e)) (parse_url url)"

definition size_param :: "transport_url \<Rightarrow> string \<Rightarrow> usize \<Rightarrow> string \<Rightarrow> ('x, usize) py_result" where
  "size_param u key dflt msg =
     (case query_param u key of
        None \<Rightarrow> Ok dflt
      | Some v \<Rightarrow> ok_or (parse_unsigned (2 ^ 64) v) (PyErr PyValueError msg))"

definition from_transport :: "string \<Rightarrow> ('x, ('o, 'w, 'x) py_pipeline) py_result" where
  "from_transport url =
     and_then (py_parse_url url) (\<lambda>u.
     let s = scheme_as_str (scheme u) in
     if s \<noteq> ''shm'' \<and> s \<noteq> ''file'' then
       PyValErr (''unsupported transport scheme '' @ CHR 0x27 # s @ CHR 0x27 # ''; supported: shm, file'')
     else
     and_then (size_param u ''capacity'' 64 ''invalid capacity'') (\<lambda>_.
     and_then (size_param u ''slot_size'' 4096 ''invalid slot_size'') (\<lambda>_.
     Ok \<lparr>pl_ops = [], pl_transport_source = Some url\<rparr>)))"

text \<open>\<open>(scheme, target, params)\<close>; a repeated key keeps its last value.\<close>

definition parse_transport_url :: "string \<Rightarrow> ('x, string \<times> string \<times> (string \<Rightarrow> string option)) py_result" where
  "parse_transport_url url =
     and_then (py_parse_url url) (\<lambda>u.
     Ok (scheme_as_str (scheme u), url_target u, foldl (\<lambda>m (k, v). m(k \<mapsto> v)) Map.empty (url_query u)))"

definition push_parsed_item :: "('o, 'w, 'x) python \<Rightarrow> bytes \<Rightarrow> 'o list \<Rightarrow> 'o list" where
  "push_parsed_item py data items =
     (let s = from_utf8_lossy data in
      if s = [] then items
      else case parse_f64 s of Some v \<Rightarrow> items @ [py_float py v] | None \<Rightarrow> items @ [py_text py s])"

text \<open>\<open>while let Ok(data) = channel.recv()\<close>: every error ends the loop.\<close>

fun drain_loop :: "nat \<Rightarrow> ('o, 'w, 'x) python \<Rightarrow> 's py_host \<Rightarrow> 'o list \<Rightarrow> ('s persistent_channel, 'x, 'o list) py_action" where
  "drain_loop 0 py h items c = (Diverged, c)"
| "drain_loop (Suc fuel) py h items c =
     (case precv (ph_io h) (ph_env h) c of
        (Ok data, c') \<Rightarrow> drain_loop fuel py h (push_parsed_item py data items) c'
      | (Err _, c') \<Rightarrow> (Ok items, c')
      | (Panicked, c') \<Rightarrow> (Panicked, c')
      | (Diverged, c') \<Rightarrow> (Diverged, c'))"

definition drain_opened ::
  "nat \<Rightarrow> ('o, 'w, 'x) python \<Rightarrow> 's py_host \<Rightarrow> 's persistent_channel result \<Rightarrow> ('x, 'o list \<times> 's persistent_channel) py_result" where
  "drain_opened fuel py h opening =
     and_then (map_err to_py_err opening) (\<lambda>c.
     case drain_loop fuel py h [] c of (r, c') \<Rightarrow> map_outcome (\<lambda>items. (items, c')) r)"

text \<open>The handle the drain opened is given back with the items, for the store it leaves.\<close>

definition drain_transport_source ::
  "nat \<Rightarrow> ('o, 'w, 'x) python \<Rightarrow> 's py_host \<Rightarrow> ('o, 'w, 'x) py_pipeline \<Rightarrow> ('x, 'o list \<times> 's persistent_channel) py_result" where
  "drain_transport_source fuel py h p =
     and_then (ok_or (pl_transport_source p) (PyErr PyValueError ''no transport source configured'')) (\<lambda>url.
     and_then (py_parse_url url) (\<lambda>u.
     and_then (size_param u ''capacity'' 64 ''invalid capacity'') (\<lambda>cap.
     and_then (size_param u ''slot_size'' 4096 ''invalid slot_size'') (\<lambda>sz.
     let cfg = \<lparr>capacity = cap, slot_size = sz, backpressure = Raise, timeout = None, multi_producer = False\<rparr> in
     if scheme_as_str (scheme u) = ''shm'' then
       and_then (map_err to_py_err (shm_region_path h (url_target u))) (\<lambda>path.
       drain_opened fuel py h (host_create_or_open h path cfg))
     else if scheme_as_str (scheme u) = ''file'' then drain_opened fuel py h (host_open h (url_target u) cfg)
     else Panicked))))"

definition pipeline_collect ::
  "nat \<Rightarrow> ('o, 'w, 'x) python \<Rightarrow> 's py_host \<Rightarrow> ('o, 'w, 'x) py_pipeline \<Rightarrow> ('i \<times> 'w, 'x, 'o option) py_action option \<Rightarrow>
   ('i \<times> 'w, 'x, 'o) py_action" where
  "pipeline_collect fuel py h p source =
     (case source of
        Some iter_next \<Rightarrow> collect_over fuel py iter_next (pl_ops p)
      | None \<Rightarrow> bind (lift (drain_transport_source fuel py h p)) (\<lambda>(items, _).
          on_world (collect_list py (pl_ops p) items)))"

section \<open>Channels as sink and source\<close>

fun send_results ::
  "('o, 'w, 'x) python \<Rightarrow> 's py_host \<Rightarrow> 'o list \<Rightarrow> nat \<Rightarrow> ('s persistent_channel, 'x, nat) py_action" where
  "send_results py h [] sent = return sent"
| "send_results py h (r # rs) sent =
     bind (lift (py_str py r)) (\<lambda>s.
     seq (raising (psend (ph_io h) (ph_env h) (ph_fuel h) (as_bytes s)))
     (send_results py h rs (sent + 1)))"

definition send_to ::
  "nat \<Rightarrow> ('o, 'w, 'x) python \<Rightarrow> 's py_host \<Rightarrow> ('o, 'w, 'x) py_pipeline \<Rightarrow> ('i \<times> 'w, 'x, 'o option) py_action \<Rightarrow>
   ('s py_shm_channel \<times> ('i \<times> 'w), 'x, nat) py_action" where
  "send_to fuel py h p iter_next =
     bind (zoom snd (\<lambda>t st. (fst st, t)) (collect_results fuel py iter_next (pl_ops p) [] [])) (\<lambda>results.
     zoom fst (\<lambda>ch st. (ch, snd st)) (on_shm_channel (send_results py h results 0)))"

definition receive_from ::
  "nat \<Rightarrow> ('o, 'w, 'x) python \<Rightarrow> 's py_host \<Rightarrow> ('o, 'w, 'x) py_pipeline \<Rightarrow> ('s py_shm_channel \<times> 'w, 'x, 'o) py_action" where
  "receive_from fuel py h p =
     bind (zoom fst (\<lambda>ch st. (ch, snd st)) (on_shm_channel (drain_loop fuel py h []))) (\<lambda>items.
     zoom snd (\<lambda>w st. (fst st, w)) (collect_list py (pl_ops p) items))"

end
