(* ===== verification/Py_Pipeline_Properties.thy ===== *)
theory Py_Pipeline_Properties
  imports Py_Pipeline
begin

text \<open>
  What \<open>collect\<close> of the Python pipeline computes: over operators without callables it is the map of a
  function over the batches of the items that pass the operators before the batch.
\<close>

section \<open>Operators as functions\<close>

fun plain_op :: "('o, 'w, 'x) pipeline_op \<Rightarrow> bool" where
  "plain_op (FilterExpr _) = True"
| "plain_op (MapExpr _) = True"
| "plain_op (SelectDict _) = True"
| "plain_op (BatchOf n) = (0 < n)"
| "plain_op _ = False"

fun apply_op :: "('o, 'w, 'x) pipeline_op \<Rightarrow> item \<Rightarrow> item option" where
  "apply_op (FilterExpr ast) it = (if eval_bool ast (as_record it) = Some True then Some it else None)"
| "apply_op (MapExpr ast) it = Some (ItemFloat (case eval ast (as_record it) of Some v \<Rightarrow> v | None \<Rightarrow> NaN))"
| "apply_op (SelectDict cols) it = Some (select_columns cols it)"
| "apply_op _ it = Some it"

fun apply_ops :: "('o, 'w, 'x) pipeline_op list \<Rightarrow> item \<Rightarrow> item option" where
  "apply_ops [] it = Some it"
| "apply_ops (op # ops) it = Option.bind (apply_op op it) (apply_ops ops)"

lemma run_op_plain: "plain_op op \<Longrightarrow> run_op py op it w = (Ok (apply_op op it), w)"
  by (cases op) simp_all

lemma run_ops_plain: "list_all plain_op ops \<Longrightarrow> run_ops py ops it w = (Ok (apply_ops ops it), w)"
proof (induction ops arbitrary: it)
  case (Cons op ops)
  then show ?case by (cases "apply_op op it") (simp_all add: run_op_plain)
qed simp

lemma pre_ops_plain: "list_all plain_op ops \<Longrightarrow> list_all plain_op (pre_ops ops)"
  by (auto simp: pre_ops_def list_all_iff dest: set_takeWhileD)

lemma post_ops_plain: "list_all plain_op ops \<Longrightarrow> list_all plain_op (post_ops ops)"
  by (induction ops) (auto simp: post_ops_def)

lemma batch_of_positive: "list_all plain_op ops \<Longrightarrow> batch_of ops = Some n \<Longrightarrow> 0 < n"
  by (induction ops rule: batch_of.induct) auto

section \<open>Batches\<close>

function chunks :: "nat \<Rightarrow> 'a list \<Rightarrow> 'a list list" where
  "chunks n xs = (if n = 0 \<or> xs = [] then [] else take n xs # chunks n (drop n xs))"
  by pat_completeness auto
termination
  by (relation "measure (length \<circ> snd)") auto

declare chunks.simps [simp del]

lemma chunks_Nil [simp]: "chunks n [] = []"
  by (simp add: chunks.simps)

lemma chunks_short: "xs \<noteq> [] \<Longrightarrow> length xs < n \<Longrightarrow> chunks n xs = [xs]"
  by (subst chunks.simps) auto

lemma chunks_full: "0 < n \<Longrightarrow> length xs = n \<Longrightarrow> chunks n (xs @ ys) = xs # chunks n ys"
  by (subst chunks.simps) auto

text \<open>What the operators after the batch are given.\<close>

definition grouped :: "('o, 'w, 'x) pipeline_op list \<Rightarrow> item list \<Rightarrow> item list" where
  "grouped ops items =
     (case batch_of ops of Some n \<Rightarrow> map ItemBatch (chunks n items) | None \<Rightarrow> items)"

definition outputs :: "('o, 'w, 'x) python \<Rightarrow> ('o, 'w, 'x) pipeline_op list \<Rightarrow> item list \<Rightarrow> 'o list" where
  "outputs py ops items = map (to_py py) (List.map_filter (apply_ops (post_ops ops)) items)"

lemma outputs_simps [simp]:
  "outputs py ops [] = []"
  "outputs py ops (it # items) =
     (case apply_ops (post_ops ops) it of Some p \<Rightarrow> [to_py py p] | None \<Rightarrow> []) @ outputs py ops items"
  by (simp_all add: outputs_def List.map_filter_simps split: option.split)

lemma append_result_plain:
  "list_all plain_op ops \<Longrightarrow>
   append_result py (post_ops ops) it results (i, w) = (Ok (results @ outputs py ops [it]), (i, w))"
  by (auto simp: append_result_def on_world_def run_ops_plain [OF post_ops_plain] split: option.split)

text \<open>The loop and the flush from any state of the buffer.\<close>

lemma collect_results_plain:
  assumes plain: "list_all plain_op ops"
    and items: "\<forall>o' \<in> set objs. from_py py o' = Ok (item_of o')"
    and fuel: "length objs < fuel"
    and buf: "case batch_of ops of Some n \<Rightarrow> length buf < n | None \<Rightarrow> buf = []"
  shows "collect_results fuel py list_next ops buf results (objs, w) =
    (Ok (results @ outputs py ops (grouped ops (buf @ List.map_filter (apply_ops (pre_ops ops)) (map item_of objs)))),
     ([], w))"
  using items fuel buf
proof (induction objs arbitrary: fuel buf results)
  case Nil
  then obtain k where "fuel = Suc k" by (cases fuel) auto
  with Nil.prems show ?case
    by (cases "buf = []") (auto simp: collect_results_def flush_batch_def append_result_plain [OF plain]
      grouped_def chunks_short List.map_filter_simps split: option.splits)
next
  case (Cons o' objs)
  then obtain k where k: "fuel = Suc k" "length objs < k" by (cases fuel) auto
  note IH = Cons.IH [OF _ k(2), unfolded collect_results_def]
  note run = run_ops_plain [OF pre_ops_plain [OF plain]]
  show ?case
  proof (cases "apply_ops (pre_ops ops) (item_of o')")
    case None
    then show ?thesis
      using Cons.prems IH [of buf results] k
      by (simp add: collect_results_def on_world_def run List.map_filter_simps)
  next
    case (Some it)
    show ?thesis
    proof (cases "batch_of ops")
      case None
      then show ?thesis
        using Cons.prems IH [of buf "results @ outputs py ops [it]"] k Some
        by (simp add: collect_results_def on_world_def run List.map_filter_simps append_result_plain [OF plain] grouped_def)
    next
      case (Some n)
      have "0 < n" by (rule batch_of_positive [OF plain Some])
      show ?thesis
      proof (cases "Suc (length buf) \<ge> n")
        case True
        with Cons.prems(3) Some have len: "length (buf @ [it]) = n" by simp
        show ?thesis
          using Cons.prems IH [of "[]" "results @ outputs py ops [ItemBatch (buf @ [it])]"] k
            \<open>apply_ops (pre_ops ops) (item_of o') = Some it\<close> Some True \<open>0 < n\<close>
            chunks_full [OF \<open>0 < n\<close> len, simplified]
          by (simp add: collect_results_def on_world_def run List.map_filter_simps append_result_plain [OF plain] grouped_def)
      next
        case False
        then show ?thesis
          using Cons.prems IH [of "buf @ [it]" results] k
            \<open>apply_ops (pre_ops ops) (item_of o') = Some it\<close> Some
          by (simp add: collect_results_def on_world_def run List.map_filter_simps)
      qed
    qed
  qed
qed

text \<open>Claim C40: collecting a list of convertible items through operators without callables returns the
  list of the results, in order: the items that pass the operators before the first batch operator,
  cut into batches of its size with a shorter last one, each run through the operators after it; the
  world of the interpreter stays as it was.\<close>

theorem collect_groups_items:
  assumes "list_all plain_op ops" and "\<forall>o' \<in> set objs. from_py py o' = Ok (item_of o')"
  shows "collect_list py ops objs w =
    (Ok (py_list py (map (to_py py) (List.map_filter (apply_ops (post_ops ops))
       (case batch_of ops of
          Some n \<Rightarrow> map ItemBatch (chunks n (List.map_filter (apply_ops (pre_ops ops)) (map item_of objs)))
        | None \<Rightarrow> List.map_filter (apply_ops (pre_ops ops)) (map item_of objs))))), w)"
proof -
  have "case batch_of ops of Some n \<Rightarrow> length ([] :: item list) < n | None \<Rightarrow> ([] :: item list) = []"
    by (auto split: option.split dest: batch_of_positive [OF assms(1)])
  from collect_results_plain [OF assms, of "length objs + 1", OF _ this, of "[]" w] show ?thesis
    by (simp add: collect_list_def collect_over_def grouped_def outputs_def)
qed

text \<open>Numbers, texts and lists as the objects of an interpreter without other types.\<close>

datatype py_value = ValFloat f64 | ValText string | ValRow row | ValList "py_value list"

definition value_python :: "(py_value, unit, unit) python" where
  "value_python =
     \<lparr>py_bytes_of = \<lambda>o'. (case o' of ValText s \<Rightarrow> Ok (as_bytes s) | _ \<Rightarrow> PyValErr ''bytes''),
      py_dict_items = \<lambda>_. None, py_extract_str = \<lambda>o'. (case o' of ValText s \<Rightarrow> Ok s | _ \<Rightarrow> PyValErr ''str''),
      py_extract_f64 = \<lambda>o'. (case o' of ValFloat v \<Rightarrow> Some v | _ \<Rightarrow> None), py_extract_usize = \<lambda>_. None,
      py_slice = \<lambda>_. None, py_str = \<lambda>o'. (case o' of ValText s \<Rightarrow> Ok s | _ \<Rightarrow> Ok []),
      py_truthy = \<lambda>o'. return (o' \<noteq> ValFloat f64_zero), py_float = ValFloat, py_text = ValText,
      py_dict = ValRow, py_list = ValList\<rparr>"

lemma collect_groups_items_witness:
  "collect_list value_python [FilterExpr (Column ''x''), BatchOf 2, SelectDict [''x'']]
     [ValFloat f64_one, ValFloat f64_zero, ValFloat f64_one, ValFloat f64_one] () =
   (Ok (ValList [ValList [ValFloat f64_one, ValFloat f64_one], ValList [ValFloat f64_one]]), ())"
proof -
  define item_of where "item_of = (\<lambda>o'. ItemFloat (case o' of ValFloat v \<Rightarrow> v | _ \<Rightarrow> NaN))"
  have test: "eval_bool (Column ''x'') [''x'' \<mapsto> f64_one] = Some True"
    "eval_bool (Column ''x'') [''x'' \<mapsto> f64_zero] = Some False"
    by (simp_all add: eval_bool_def nonzero_def f64_eq_def f64_one_def f64_zero_def align_def signed_def min_exponent_def)
  have items: "\<forall>o' \<in> set [ValFloat f64_one, ValFloat f64_zero, ValFloat f64_one, ValFloat f64_one].
      from_py value_python o' = Ok (item_of o')"
    by (simp add: from_py_def value_python_def item_of_def)
  show ?thesis
    by (subst collect_groups_items [OF _ items])
      (simp_all add: item_of_def pre_ops_def post_ops_def test List.map_filter_simps chunks.simps value_python_def)
qed

end
