(* ===== verification/Spec2Isabelle.thy ===== *)
theory Spec2Isabelle
  imports Shm_Channel_Properties Persistent_Region_Properties Full_Reopened View_Refusal
    Transport Handle_Properties Reclaim_Crossing Py_Pipeline_Properties
begin

text \<open>
  A model of dsline, byte channels over shared-memory slot rings, with the theorems that make it
  correct. The theories follow the crates under \<open>crates/\<close>; a definition has the name of the function
  it translates, with a prefix where two types have a method of the same name (\<open>channel_send\<close>,
  \<open>psend\<close>, \<open>shm_send\<close>).

  \<^bold>\<open>The program.\<close> A message of bytes becomes one frame, or several when it does not fit a slot
  (\<open>dsline-core/src/frame.rs\<close>, the chunking of \<open>dsline-shm/src/lib.rs\<close>). A producer writes the frames
  into consecutive slots of a ring and a consumer reads and frees them. The repository has three such
  channels: a prototype on a vector (\<open>dsline-core/src/spsc.rs\<close>), a channel of one process on a slot
  storage (\<open>ShmSpscChannel\<close>), and the channel that processes share on a mapped region
  (\<open>PersistentShmChannel\<close>), with one producer or several, cursors in the region's header, writer
  identities for crash recovery, and zero-copy buffers and views that pin their slots. Around them
  stand the transport URLs, the expression language with its pipelines, and the Python classes.

  \<^bold>\<open>The common ground.\<close>
  \<^item> \<open>Prelude\<close>: integers and bytes; \<open>outcome\<close>, the value of a fallible computation (\<open>Ok\<close>, \<open>Err\<close>,
    \<open>Panicked\<close>, and \<open>Diverged\<close> for exhausted fuel); \<open>action\<close>, a method on \<open>&mut self\<close>, which returns
    its outcome and the state it leaves, also when it fails; little-endian codecs. A \<open>usize\<close> is a
    natural number whose checked operations are written out; counters that wrap are words.
  \<^item> \<open>Errors\<close> (\<open>dsline-core/src/error.rs\<close>) and \<open>Text\<close> (the string methods of the parsers).
  \<^item> \<open>Channel_Contract\<close>: the locale \<open>fifo_channel\<close>, what every channel promises. The three channels
    are instances: by interpretation (\<open>Spsc_Ring\<close>) and by sublocales of their storage's contract
    (\<open>Shm_Channel_Properties\<close>, \<open>Persistent_Duplex\<close>).

  \<^bold>\<open>Frames and the channels of one process.\<close>
  \<^item> \<open>Frame\<close>: the 50-byte header, the metadata items, the encoder and the decoder; the decoder inverts
    the encoder, accepts nothing else and returns for every byte string.
  \<^item> \<open>Spsc_Ring\<close>: \<open>SpscBytesRing\<close> and the configuration; a refinement of the bounded queue.
  \<^item> \<open>Chunking\<close>: send plans, size limits, chunk metadata; a planned message is its chunks again.
  \<^item> \<open>Slot_Storage\<close>, \<open>Fixed_Region\<close>: the trait \<open>FixedSlotStorage\<close> as a record of methods with the
    locale \<open>slot_storage\<close> as its contract, and the slot states.
  \<^item> \<open>Shm_Channel\<close>, \<open>Channel_Spec\<close>, \<open>Shm_Channel_Refinement\<close>, \<open>Shm_Channel_Properties\<close>: the channel,
    the bounded message queue as its specification, the simulation, and its consequences (order,
    damage, the drop loop).

  \<^bold>\<open>The shared region.\<close>
  \<^item> \<open>Region_Io\<close>: the trait \<open>SlotRegionIo\<close>, its contract \<open>region_io\<close>, and the file, the mapping and the
    named section, which interpret it.
  \<^item> \<open>Process\<close>: writer identity and liveness (\<open>dsline-shm/src/process.rs\<close>).
  \<^item> \<open>Persistent_Region\<close>: layout, slot headers with identity, cursors, pin floor, magic, reclaim.
    \<open>Persistent_Region_Laws\<close> gives every operation as an update of the bytes,
    \<open>Persistent_Region_Properties\<close> what a writer that dies leaves behind and whom a reclaim may touch.
  \<^item> \<open>Zero_Copy\<close>, \<open>Persistent_Views\<close>: leases, views, \<open>alloc\<close>, \<open>publish\<close>, \<open>abort\<close>, \<open>recv_view\<close>, the
    accessors.

  \<^bold>\<open>The persistent channel.\<close> \<open>Persistent_Channel\<close> is the state of a handle, the send guard, recovery and
  construction; \<open>Persistent_Transfer\<close> is send, receive, drop and reclaim. A handle holds the store; two
  handles of one region are a pair that exchanges it (\<open>Persistent_Duplex\<close>).
  \<^item> \<open>Persistent_Ring\<close>: the region as three cursors and a list of slot views; every operation is an
    update of these.
  \<^item> \<open>Persistent_Refinement\<close>, \<open>Persistent_Duplex\<close>: the slots between the cursors as a window of the
    ring, behind them the slots that views still hold, and the sends and receives of two handles as
    steps of the bounded message queue.
  \<^item> \<open>Persistent_Opening\<close>, \<open>Persistent_Drop\<close>, \<open>Persistent_Waiting\<close>: construction and recovery,
    \<open>DropOldest\<close>, and the send that waits; \<open>Persistent_Channel_Properties\<close> states the properties on
    memory-mapped files.
  \<^item> \<open>Pinned_Slots\<close>, \<open>Pinned_Channel\<close>, \<open>Persistent_Zero_Copy\<close>, \<open>Zero_Copy_Properties\<close>: the slots that
    views hold behind the tail, the send, the receive and the release among them, and buffers and views
    as steps of the same queue.
  \<^item> \<open>View_Spec\<close>, \<open>Pinned_Views\<close>, \<open>View_Properties\<close>: a queue whose messages may be taken by views, as
    the specification, and every call simulated by it: sends, receives, views taken, read and released,
    in any number and in any order. \<open>View_Refusal\<close>: a view that is refused can cost a newly opened
    consumer its place.
  \<^item> \<open>Views_Reopened\<close>, \<open>Views_Attended\<close>, \<open>Full_Reopened\<close>: opening while views are held. The pins of
    processes that are gone are given back and those of the others kept, with the queue as it was; but
    a consumer opened on an empty queue and a producer opened on a full ring lose their place.
  \<^item> \<open>Ticket_Queue\<close>, \<open>Persistent_Producers\<close>, \<open>Producer_Group\<close>, \<open>Producers_Properties\<close>: several
    producers. A send is a reservation and the writing of the reserved slots; the steps of all handles,
    in any order, are those of a queue of tickets, from which the order of delivery follows; so does
    that a producer that dies before it writes blocks the others. The contract \<open>exchange_region_io\<close> is
    what a reservation needs of the back end: the mappings have it.
  \<^item> \<open>Reclaim_Crossing\<close>: what a receive does behind the reservation of a dead producer. It delivers the
    next complete message; but the reclaim of a message partly taken runs into a live reservation.
  \<^item> \<open>Handle_Invariant\<close>, \<open>Used_Slots\<close>, \<open>Handle_Properties\<close>: what holds of a handle whatever the store,
    the other processes and the outcome of its calls, for one producer and for several.

  \<^bold>\<open>Expressions, pipelines, URLs, Python.\<close>
  \<^item> \<open>Float64\<close>: IEEE binary64 with rounding, parsing and printing, what \<open>f64\<close> is in Rust.
  \<^item> \<open>Ops\<close>, \<open>Expression_Grammar\<close>, \<open>Expression_Properties\<close> (\<open>dsline-ops/src/lib.rs\<close>): tokenizer,
    parser, evaluator; the documented grammar as a derivation relation, and with repeated prefix
    operators as the one that the parser decides.
  \<^item> \<open>Pipeline\<close> (\<open>dsline-pipeline/src/lib.rs\<close>) and \<open>Transport\<close> (\<open>dsline-transport/src/lib.rs\<close>).
  \<^item> \<open>Py_Values\<close>, \<open>Py_Channel\<close>, \<open>Py_Pipeline\<close>, \<open>Py_Pipeline_Properties\<close> (\<open>dsline-python/src/lib.rs\<close>):
    exceptions, locks, the channel, buffer and view classes, and the pipeline with its \<open>collect\<close>.

  \<^bold>\<open>Time and other processes.\<close> A method runs alone between its waits. What happens meanwhile is the
  argument \<open>env\<close> of the persistent channel: \<open>env_yield\<close> is what the others do to the store at each turn
  of a waiting loop, \<open>env_rounds\<close> the turns a deadline grants, \<open>env_probe\<close> the liveness probe,
  \<open>env_second\<close> what a second look at a slot header finds, \<open>env_crc\<close> the checksum. The properties of a
  handle hold for every environment. A timeout too long for the clock, for which the source panics when
  it adds it to the present, is not modelled.

  \<^bold>\<open>Fuel.\<close> A loop that ends by itself is structural or has a measure. Loops that retry until another
  party acts have fuel and give \<open>Diverged\<close> when it runs out: the drop loops (one turn per slot is enough,
  \<open>drop_until_free_ends\<close> and the drop lemmas), the retries of a reservation among several producers
  (one turn, when nobody acts in between), the run of a pipeline (one turn per item and one more, \<open>run_collects_outputs\<close>), \<open>collect\<close> and the
  draining of a channel. The properties that mention fuel ask for the amount given there.

  \<^bold>\<open>Not modelled.\<close>
  \<^item> The checksum of the \<open>crc32fast\<close> crate: the parameter \<open>crc\<close>, about which nothing is assumed, except
    that damage changes it where a property speaks of detected damage.
  \<^item> Fences and weak memory: the words of the region are accessed one after the other.
  \<^item> The calls of the operating system: opening and mapping succeed and give the contents they name;
    the runtime directory, the own process id and the liveness probe are arguments.
  \<^item> Unicode classes: source text is ASCII for the expression parser; other text is UTF-8 in bytes.
  \<^item> The interpreter: the conversions and calls the bindings make are the record \<open>python\<close>; argument
    parsing, the registration of the module and the interpreter lock are left out.
  \<^item> The Python package on top of the bindings, tests, benchmarks and examples.
\<close>

end
